(* ===== verification/Prelude.thy ===== *)
theory Prelude
  imports Main "HOL-Library.Word" "HOL-Library.List_Lexorder" "HOL-Library.Sublist"
begin

text \<open>
  Shared vocabulary of the development: machine integers, byte strings in both
  endiannesses (Rust's \<open>to_le_bytes\<close>, \<open>to_be_bytes\<close> and their inverses), the
  slice, sort and maximum functions of Rust's standard library that several
  components use, and the lemmas about them.
\<close>

unbundle bit_operations_syntax

type_synonym u8 = "8 word"
type_synonym u16 = "16 word"
type_synonym u32 = "32 word"
type_synonym u64 = "64 word"
type_synonym bytes = "u8 list"

named_theorems byte_simps
  \<open>rewriting rules for byte strings: lengths and round trips of integers\<close>

section \<open>Integers as byte strings\<close>

text \<open>\<open>k\<close> bytes of a non-negative integer, least significant first.\<close>

primrec le_bytes :: "nat \<Rightarrow> int \<Rightarrow> bytes" where
  "le_bytes 0 n = []"
| "le_bytes (Suc k) n = word_of_int n # le_bytes k (n div 256)"

primrec le_int :: "bytes \<Rightarrow> int" where
  "le_int [] = 0"
| "le_int (b # bs) = uint b + 256 * le_int bs"

definition u32_to_le :: "u32 \<Rightarrow> bytes" where
  "u32_to_le w = le_bytes 4 (uint w)"

definition u32_of_le :: "bytes \<Rightarrow> u32" where
  "u32_of_le bs = word_of_int (le_int bs)"

definition u64_to_le :: "u64 \<Rightarrow> bytes" where
  "u64_to_le w = le_bytes 8 (uint w)"

definition u64_of_le :: "bytes \<Rightarrow> u64" where
  "u64_of_le bs = word_of_int (le_int bs)"

definition u32_to_be :: "u32 \<Rightarrow> bytes" where
  "u32_to_be w = rev (u32_to_le w)"

definition u32_of_be :: "bytes \<Rightarrow> u32" where
  "u32_of_be bs = u32_of_le (rev bs)"

definition u64_to_be :: "u64 \<Rightarrow> bytes" where
  "u64_to_be w = rev (u64_to_le w)"

definition u64_of_be :: "bytes \<Rightarrow> u64" where
  "u64_of_be bs = u64_of_le (rev bs)"

lemma length_le_bytes [simp, byte_simps]: "length (le_bytes k n) = k"
  by (induction k arbitrary: n) auto

lemma le_int_nonneg: "0 \<le> le_int bs"
  by (induction bs) auto

lemma uint_u8_bound: "uint (b :: u8) < 256"
  using uint_bounded [of b] by simp

lemma le_int_bound: "le_int bs < 256 ^ length bs"
proof (induction bs)
  case Nil
  then show ?case by simp
next
  case (Cons b bs)
  have "uint b + 256 * le_int bs < 256 + 256 * le_int bs"
    using uint_u8_bound [of b] by simp
  also have "\<dots> \<le> 256 * 256 ^ length bs"
    using Cons.IH by simp
  finally show ?case by simp
qed

lemma le_int_le_bytes: "le_int (le_bytes k n) = n mod 256 ^ k"
proof (induction k arbitrary: n)
  case 0
  then show ?case by simp
next
  case (Suc k)
  have "uint (word_of_int n :: u8) = n mod 256"
    by (simp add: uint_word_of_int)
  then show ?case
    using zmod_zmult2_eq [of "256 ^ k" n 256] Suc.IH [of "n div 256"]
    by (simp add: mult.commute)
qed

lemma le_bytes_le_int: "length bs = k \<Longrightarrow> le_bytes k (le_int bs) = bs"
proof (induction bs arbitrary: k)
  case Nil
  then show ?case by simp
next
  case (Cons b bs)
  have b: "uint b < 256" "0 \<le> uint b"
    using uint_u8_bound [of b] by auto
  then have d: "(uint b + 256 * le_int bs) div 256 = le_int bs"
    by simp
  have "(uint b + 256 * le_int bs) mod 256 = uint b"
    using b by simp
  then have "uint (word_of_int (uint b + 256 * le_int bs) :: u8) = uint b"
    by (simp only: uint_word_of_int) simp
  then have "word_of_int (uint b + 256 * le_int bs) = b"
    by (rule word_uint_eqI)
  with Cons d show ?case by (cases k) auto
qed

lemma length_u32_to_le [simp, byte_simps]: "length (u32_to_le w) = 4"
  by (simp add: u32_to_le_def)

lemma length_u64_to_le [simp, byte_simps]: "length (u64_to_le w) = 8"
  by (simp add: u64_to_le_def)

lemma length_u32_to_be [simp, byte_simps]: "length (u32_to_be w) = 4"
  by (simp add: u32_to_be_def)

lemma length_u64_to_be [simp, byte_simps]: "length (u64_to_be w) = 8"
  by (simp add: u64_to_be_def)

lemma u32_le_roundtrip [simp, byte_simps]: "u32_of_le (u32_to_le w) = w"
  using uint_bounded [of w]
  by (simp add: u32_of_le_def u32_to_le_def le_int_le_bytes)

lemma u64_le_roundtrip [simp, byte_simps]: "u64_of_le (u64_to_le w) = w"
  using uint_bounded [of w]
  by (simp add: u64_of_le_def u64_to_le_def le_int_le_bytes)

lemma u32_be_roundtrip [simp, byte_simps]: "u32_of_be (u32_to_be w) = w"
  by (simp add: u32_of_be_def u32_to_be_def)

lemma u64_be_roundtrip [simp, byte_simps]: "u64_of_be (u64_to_be w) = w"
  by (simp add: u64_of_be_def u64_to_be_def)

lemma u32_to_le_of_le: "length bs = 4 \<Longrightarrow> u32_to_le (u32_of_le bs) = bs"
  using le_int_bound [of bs] le_int_nonneg [of bs] le_bytes_le_int [of bs 4]
  by (simp add: u32_of_le_def u32_to_le_def uint_word_of_int)

lemma u64_to_le_of_le: "length bs = 8 \<Longrightarrow> u64_to_le (u64_of_le bs) = bs"
  using le_int_bound [of bs] le_int_nonneg [of bs] le_bytes_le_int [of bs 8]
  by (simp add: u64_of_le_def u64_to_le_def uint_word_of_int)

lemma u32_to_be_inject [simp]: "u32_to_be a = u32_to_be b \<longleftrightarrow> a = b"
  by (metis u32_be_roundtrip)

lemma u64_to_be_inject [simp]: "u64_to_be a = u64_to_be b \<longleftrightarrow> a = b"
  by (metis u64_be_roundtrip)

section \<open>Rows packed end to end\<close>

lemma length_concat_rows: "\<forall>r\<in>set rs. length r = d \<Longrightarrow> length (concat rs) = length rs * d"
  by (induction rs) auto

lemma row_of_concat:
  "\<forall>r\<in>set rs. length r = d \<Longrightarrow> i < length rs \<Longrightarrow> take d (drop (i * d) (concat rs)) = rs ! i"
proof (induction rs arbitrary: i)
  case Nil
  then show ?case by simp
next
  case (Cons r rs)
  then show ?case by (cases i) auto
qed

lemma rows_of_concat:
  assumes "0 < d" "\<forall>r\<in>set rs. length r = d"
  shows "map (\<lambda>i. f (take d (drop (i * d) (concat rs)))) [0..<length (concat rs) div d] = map f rs"
proof -
  have "map (\<lambda>i. f (take d (drop (i * d) (concat rs)))) [0..<length (concat rs) div d] =
        map (\<lambda>i. f (rs ! i)) [0..<length rs]"
    using assms(1) row_of_concat [OF assms(2)] length_concat_rows [OF assms(2)] by simp
  also have "\<dots> = map f (map ((!) rs) [0..<length rs])" by simp
  finally show ?thesis by (simp only: map_nth)
qed

section \<open>Updates by index\<close>

lemma list_all2_update:
  "(\<And>a. R a a) \<Longrightarrow> R (xs ! g) y \<Longrightarrow> list_all2 R xs (xs[g := y])"
  unfolding list_all2_conv_all_nth by (metis length_list_update nth_list_update nth_list_update_neq)

lemma set_map_filter: "y \<in> set (List.map_filter f xs) \<longleftrightarrow> (\<exists>x\<in>set xs. f x = Some y)"
  by (induction xs) (auto split: option.splits)

lemma map_filter_keys:
  "distinct (map fst xs) \<Longrightarrow>
   distinct (map fst (List.map_filter (\<lambda>(k, v). map_option (Pair k) (g v)) xs)) \<and>
   map_of (List.map_filter (\<lambda>(k, v). map_option (Pair k) (g v)) xs) k = Option.bind (map_of xs k) g"
proof (induction xs)
  case Nil
  then show ?case by simp
next
  case (Cons x xs)
  obtain a v where x: "x = (a, v)" by fastforce
  have sub: "fst ` set (List.map_filter (\<lambda>(k, v). map_option (Pair k) (g v)) xs) \<subseteq> fst ` set xs"
    by (force simp: set_map_filter)
  have none: "map_of xs a = None" using Cons.prems by (simp add: x map_of_eq_None_iff)
  show ?case
    using Cons sub none by (cases "g v") (auto simp: x)
qed

end
