(* ===== verification/Ieee754.thy ===== *)
theory Ieee754
  imports Prelude "HOL-Library.Log_Nat"
begin

text \<open>
  Rust's \<open>f64\<close> and \<open>f32\<close>: IEEE 754 binary64 and binary32 values by their bits, with
  correctly rounded (to nearest, ties to even) addition, subtraction, multiplication,
  division, square root and conversions, all executable over the integers.
  Comparisons are Rust's: \<open><\<close> and \<open>\<le>\<close> are false on NaN and identify the two
  zeros (\<open>PartialOrd\<close>), \<open>feq\<close> is \<open>PartialEq\<close>, and \<open>total_key\<close> gives the order
  of \<open>total_cmp\<close>. An operation whose result is NaN returns the canonical quiet NaN;
  Rust leaves the bits of such a NaN unspecified.
\<close>

section \<open>Formats\<close>

record fmt =
  frac_bits :: nat   \<comment> \<open>stored bits of the significand\<close>
  emin :: int        \<comment> \<open>exponent of the smallest subnormal\<close>
  inf_mag :: int     \<comment> \<open>the bits of infinity, without the sign\<close>
  sign_bit :: int    \<comment> \<open>weight of the sign bit\<close>

definition fmt64 :: fmt where
  "fmt64 = \<lparr>frac_bits = 52, emin = -1074, inf_mag = 0x7FF0000000000000,
            sign_bit = 0x8000000000000000\<rparr>"

definition fmt32 :: fmt where
  "fmt32 = \<lparr>frac_bits = 23, emin = -149, inf_mag = 0x7F800000, sign_bit = 0x80000000\<rparr>"

text \<open>An unpacked value: \<open>Num s m e\<close> is \<open>m * 2 ^ e\<close>, negated when \<open>s\<close>.\<close>

datatype fp = Nan | Inf bool | Num bool int int

definition unpack :: "fmt \<Rightarrow> int \<Rightarrow> fp" where
  "unpack F b =
     (let s = (sign_bit F \<le> b); m = b mod sign_bit F;
          e = m div 2 ^ frac_bits F; f = m mod 2 ^ frac_bits F
      in if inf_mag F < m then Nan
         else if m = inf_mag F then Inf s
         else if e = 0 then Num s f (emin F)
         else Num s (2 ^ frac_bits F + f) (emin F + e - 1))"

definition half_even :: "int \<Rightarrow> int \<Rightarrow> int" where
  "half_even a b =
     (let q = a div b; r = a mod b
      in if 2 * r < b then q else if b < 2 * r then q + 1 else if even q then q else q + 1)"

text \<open>The bits, without the sign, of \<open>n / d * 2 ^ e\<close> rounded to the format.\<close>

definition round_mag :: "fmt \<Rightarrow> int \<Rightarrow> int \<Rightarrow> int \<Rightarrow> int" where
  "round_mag F n d e =
     (if n \<le> 0 then 0
      else let b = bitlen n - bitlen d;
               g = (if d * 2 ^ nat b \<le> n * 2 ^ nat (- b) then b else b - 1);
               q = max (emin F) (e + g - int (frac_bits F));
               m = half_even (n * 2 ^ nat (e - q)) (d * 2 ^ nat (q - e))
           in min (inf_mag F) ((q - emin F) * 2 ^ frac_bits F + m))"

definition nan_bits :: "fmt \<Rightarrow> int" where
  "nan_bits F = inf_mag F + 2 ^ (frac_bits F - 1)"

definition pack_sign :: "fmt \<Rightarrow> bool \<Rightarrow> int \<Rightarrow> int" where
  "pack_sign F s m = (if s then sign_bit F + m else m)"

definition pack :: "fmt \<Rightarrow> bool \<Rightarrow> int \<Rightarrow> int \<Rightarrow> int \<Rightarrow> int" where
  "pack F s n d e = pack_sign F s (round_mag F n d e)"

section \<open>Operations on unpacked values\<close>

fun fp_add :: "fmt \<Rightarrow> fp \<Rightarrow> fp \<Rightarrow> int" where
  "fp_add F Nan y = nan_bits F"
| "fp_add F x Nan = nan_bits F"
| "fp_add F (Inf s) (Inf t) = (if s = t then pack_sign F s (inf_mag F) else nan_bits F)"
| "fp_add F (Inf s) (Num t m e) = pack_sign F s (inf_mag F)"
| "fp_add F (Num s m e) (Inf t) = pack_sign F t (inf_mag F)"
| "fp_add F (Num s m e) (Num t m' e') =
     (let q = min e e';
          v = (if s then -1 else 1) * m * 2 ^ nat (e - q) +
              (if t then -1 else 1) * m' * 2 ^ nat (e' - q)
      in if v = 0 then pack_sign F (s \<and> t) 0 else pack F (v < 0) \<bar>v\<bar> 1 q)"

fun fp_neg :: "fp \<Rightarrow> fp" where
  "fp_neg Nan = Nan"
| "fp_neg (Inf s) = Inf (\<not> s)"
| "fp_neg (Num s m e) = Num (\<not> s) m e"

fun fp_mul :: "fmt \<Rightarrow> fp \<Rightarrow> fp \<Rightarrow> int" where
  "fp_mul F Nan y = nan_bits F"
| "fp_mul F x Nan = nan_bits F"
| "fp_mul F (Inf s) (Inf t) = pack_sign F (s \<noteq> t) (inf_mag F)"
| "fp_mul F (Inf s) (Num t m e) =
     (if m = 0 then nan_bits F else pack_sign F (s \<noteq> t) (inf_mag F))"
| "fp_mul F (Num s m e) (Inf t) =
     (if m = 0 then nan_bits F else pack_sign F (s \<noteq> t) (inf_mag F))"
| "fp_mul F (Num s m e) (Num t m' e') = pack F (s \<noteq> t) (m * m') 1 (e + e')"

fun fp_div :: "fmt \<Rightarrow> fp \<Rightarrow> fp \<Rightarrow> int" where
  "fp_div F Nan y = nan_bits F"
| "fp_div F x Nan = nan_bits F"
| "fp_div F (Inf s) (Inf t) = nan_bits F"
| "fp_div F (Inf s) (Num t m e) = pack_sign F (s \<noteq> t) (inf_mag F)"
| "fp_div F (Num s m e) (Inf t) = pack_sign F (s \<noteq> t) 0"
| "fp_div F (Num s m e) (Num t m' e') =
     (if m' = 0 then (if m = 0 then nan_bits F else pack_sign F (s \<noteq> t) (inf_mag F))
      else pack F (s \<noteq> t) m m' (e - e'))"

text \<open>The integer square root, two bits of the argument at a time.\<close>

function isqrt :: "int \<Rightarrow> int" where
  "isqrt n =
     (if n \<le> 0 then 0
      else let r = 2 * isqrt (n div 4) in if (r + 1) * (r + 1) \<le> n then r + 1 else r)"
  by pat_completeness auto
termination
  by (relation "measure nat") auto

declare isqrt.simps [simp del]

fun fp_sqrt :: "fmt \<Rightarrow> fp \<Rightarrow> int" where
  "fp_sqrt F Nan = nan_bits F"
| "fp_sqrt F (Inf s) = (if s then nan_bits F else inf_mag F)"
| "fp_sqrt F (Num s m e) =
     (if m = 0 then pack_sign F s 0
      else if s then nan_bits F
      else let k0 = max 0 (2 * int (frac_bits F) + 6 - bitlen m);
               k = (if even (e - k0) then k0 else k0 + 1);
               v = m * 2 ^ nat k; r = isqrt v
           in pack F False (2 * r + (if r * r = v then 0 else 1)) 1 ((e - k) div 2 - 1))"

section \<open>The two types\<close>

datatype f64 = F64 (f64_bits: "64 word")
datatype f32 = F32 (f32_bits: "32 word")

definition f64_unpack :: "f64 \<Rightarrow> fp" where
  "f64_unpack x = unpack fmt64 (uint (f64_bits x))"

definition f32_unpack :: "f32 \<Rightarrow> fp" where
  "f32_unpack x = unpack fmt32 (uint (f32_bits x))"

definition f64_of_int :: "int \<Rightarrow> f64" where  \<comment> \<open>by bits\<close>
  "f64_of_int b = F64 (word_of_int b)"

definition f32_of_int :: "int \<Rightarrow> f32" where
  "f32_of_int b = F32 (word_of_int b)"

instantiation f64 :: "{zero, one, plus, minus, uminus, times, inverse}"
begin

definition zero_f64 :: f64 where
  "0 = F64 0"

definition one_f64 :: f64 where
  "1 = F64 0x3FF0000000000000"

definition plus_f64 :: "f64 \<Rightarrow> f64 \<Rightarrow> f64" where
  "x + y = f64_of_int (fp_add fmt64 (f64_unpack x) (f64_unpack y))"

definition minus_f64 :: "f64 \<Rightarrow> f64 \<Rightarrow> f64" where
  "x - y = f64_of_int (fp_add fmt64 (f64_unpack x) (fp_neg (f64_unpack y)))"

definition uminus_f64 :: "f64 \<Rightarrow> f64" where
  "- x = F64 (f64_bits x XOR 0x8000000000000000)"

definition times_f64 :: "f64 \<Rightarrow> f64 \<Rightarrow> f64" where
  "x * y = f64_of_int (fp_mul fmt64 (f64_unpack x) (f64_unpack y))"

definition divide_f64 :: "f64 \<Rightarrow> f64 \<Rightarrow> f64" where
  "x div y = f64_of_int (fp_div fmt64 (f64_unpack x) (f64_unpack y))"

definition inverse_f64 :: "f64 \<Rightarrow> f64" where
  "inverse x = (1 :: f64) div x"

instance ..

end

instantiation f32 :: "{zero, plus, times}"
begin

definition zero_f32 :: f32 where
  "0 = F32 0"

definition plus_f32 :: "f32 \<Rightarrow> f32 \<Rightarrow> f32" where
  "x + y = f32_of_int (fp_add fmt32 (f32_unpack x) (f32_unpack y))"

definition times_f32 :: "f32 \<Rightarrow> f32 \<Rightarrow> f32" where
  "x * y = f32_of_int (fp_mul fmt32 (f32_unpack x) (f32_unpack y))"

instance ..

end

definition f64_sqrt :: "f64 \<Rightarrow> f64" where
  "f64_sqrt x = f64_of_int (fp_sqrt fmt64 (f64_unpack x))"

section \<open>Magnitude, classification, comparison\<close>

definition f64_neg :: "f64 \<Rightarrow> bool" where
  "f64_neg x \<longleftrightarrow> 0x8000000000000000 \<le> uint (f64_bits x)"

definition f64_mag :: "f64 \<Rightarrow> int" where
  "f64_mag x = uint (f64_bits x) mod 0x8000000000000000"

definition is_nan :: "f64 \<Rightarrow> bool" where
  "is_nan x \<longleftrightarrow> 0x7FF0000000000000 < f64_mag x"

definition is_finite :: "f64 \<Rightarrow> bool" where
  "is_finite x \<longleftrightarrow> f64_mag x < 0x7FF0000000000000"

text \<open>The order of the non-NaN values, as the order of an integer.\<close>

definition f64_key :: "f64 \<Rightarrow> int" where
  "f64_key x = (if f64_neg x then - f64_mag x else f64_mag x)"

text \<open>The order of \<open>total_cmp\<close>: a negative value's bits below the sign are inverted.\<close>

definition total_key :: "f64 \<Rightarrow> int" where
  "total_key x = (if f64_neg x then - f64_mag x - 1 else f64_mag x)"

instantiation f64 :: ord
begin

definition less_f64 :: "f64 \<Rightarrow> f64 \<Rightarrow> bool" where
  "x < y \<longleftrightarrow> \<not> is_nan x \<and> \<not> is_nan y \<and> f64_key x < f64_key y"

definition less_eq_f64 :: "f64 \<Rightarrow> f64 \<Rightarrow> bool" where
  "x \<le> y \<longleftrightarrow> \<not> is_nan x \<and> \<not> is_nan y \<and> f64_key x \<le> f64_key y"

instance ..

end

definition feq :: "f64 \<Rightarrow> f64 \<Rightarrow> bool" where
  "feq x y \<longleftrightarrow> \<not> is_nan x \<and> \<not> is_nan y \<and> f64_key x = f64_key y"

text \<open>\<open>f64::max\<close>, \<open>f64::min\<close>, \<open>f64::clamp\<close>, \<open>f64::abs\<close>.\<close>

definition f64_max :: "f64 \<Rightarrow> f64 \<Rightarrow> f64" where
  "f64_max x y = (if is_nan x then y else if is_nan y then x else if x < y then y else x)"

definition f64_min :: "f64 \<Rightarrow> f64 \<Rightarrow> f64" where
  "f64_min x y = (if is_nan x then y else if is_nan y then x else if y < x then y else x)"

definition f64_clamp :: "f64 \<Rightarrow> f64 \<Rightarrow> f64 \<Rightarrow> f64" where
  "f64_clamp x lo hi = (if x < lo then lo else if hi < x then hi else x)"

definition f64_abs :: "f64 \<Rightarrow> f64" where
  "f64_abs x = f64_of_int (f64_mag x)"

section \<open>Constants and conversions\<close>

text \<open>A decimal literal \<open>n * 10 ^ (-k)\<close>, rounded once as the compiler does.\<close>

definition f64_dec :: "int \<Rightarrow> nat \<Rightarrow> f64" where
  "f64_dec n k = f64_of_int (pack fmt64 (n < 0) \<bar>n\<bar> (10 ^ k) 0)"

definition f64_infinity :: f64 where
  "f64_infinity = F64 0x7FF0000000000000"

definition f64_neg_infinity :: f64 where
  "f64_neg_infinity = F64 0xFFF0000000000000"

definition f64_neg_zero :: f64 where
  "f64_neg_zero = F64 0x8000000000000000"

text \<open>\<open>n as f64\<close> for an unsigned \<open>n\<close>.\<close>

definition f64_of_nat :: "nat \<Rightarrow> f64" where
  "f64_of_nat n = f64_of_int (pack fmt64 False (int n) 1 0)"

text \<open>\<open>x as usize\<close>: truncated towards zero, saturating, 0 for NaN.\<close>

fun fp_to_usize :: "fp \<Rightarrow> nat" where
  "fp_to_usize Nan = 0"
| "fp_to_usize (Inf s) = (if s then 0 else 2 ^ 64 - 1)"
| "fp_to_usize (Num s m e) =
     (if s then 0
      else nat (min (2 ^ 64 - 1) (if 0 \<le> e then m * 2 ^ nat e else m div 2 ^ nat (- e))))"

definition f64_to_usize :: "f64 \<Rightarrow> nat" where
  "f64_to_usize x = fp_to_usize (f64_unpack x)"

text \<open>\<open>f64::ceil\<close>.\<close>

definition f64_ceil :: "f64 \<Rightarrow> f64" where
  "f64_ceil x =
     (case f64_unpack x of
        Num s m e \<Rightarrow>
          (if 0 \<le> e then x
           else let c = (if s then m div 2 ^ nat (- e) else - ((- m) div 2 ^ nat (- e)))
                in f64_of_int (pack fmt64 s c 1 0))
      | _ \<Rightarrow> x)"

fun fp_convert :: "fmt \<Rightarrow> fp \<Rightarrow> int" where
  "fp_convert F Nan = nan_bits F"
| "fp_convert F (Inf s) = pack_sign F s (inf_mag F)"
| "fp_convert F (Num s m e) = pack F s m 1 e"

text \<open>\<open>x as f32\<close> and \<open>f64::from(x)\<close>.\<close>

definition f32_of_f64 :: "f64 \<Rightarrow> f32" where
  "f32_of_f64 x = f32_of_int (fp_convert fmt32 (f64_unpack x))"

definition f64_of_f32 :: "f32 \<Rightarrow> f64" where
  "f64_of_f32 x = f64_of_int (fp_convert fmt64 (f32_unpack x))"

definition f32_nan :: "f32 \<Rightarrow> bool" where
  "f32_nan x \<longleftrightarrow> f32_unpack x = Nan"

text \<open>The sum of an iterator of floats starts at \<open>-0.0\<close>.\<close>

definition f64_sum :: "f64 list \<Rightarrow> f64" where
  "f64_sum xs = foldl (+) f64_neg_zero xs"

end
