(* ===== verification/Errors.thy ===== *)
theory Errors
  imports Ieee754
begin

text \<open>
  \<open>HeatherError\<close> (heather_db/src/error.rs) and Rust's \<open>Result\<close>. The text of a message
  is kept as the format string with its arguments. A panic is a value of its own, so
  that "never panics" can be stated. \<open>rbind\<close> is the \<open>?\<close> operator.
\<close>

datatype arg = N int | S string | X f64

datatype message = Fmt string "arg list"

abbreviation msg :: "string \<Rightarrow> message" where
  "msg s \<equiv> Fmt s []"

datatype herror =
    DimensionMismatch nat nat   \<comment> \<open>expected, got\<close>
  | EmptyMemory
  | LocationNotFound u64
  | MaxLocationsReached nat
  | InvalidConfig message
  | InvalidInput message
  | Storage message
  | Serialization message
  | LockPoisoned
  | Conflict message
  | Corrupt message
  | UnsupportedFormat message

datatype fault = Error herror | Panic

type_synonym 'a res = "fault + 'a"

abbreviation Ok :: "'a \<Rightarrow> 'a res" where
  "Ok x \<equiv> Inr x"

abbreviation Err :: "herror \<Rightarrow> 'a res" where
  "Err e \<equiv> Inl (Error e)"

definition rbind :: "'a res \<Rightarrow> ('a \<Rightarrow> 'b res) \<Rightarrow> 'b res" where
  "rbind r f = (case r of Inl e \<Rightarrow> Inl e | Inr x \<Rightarrow> f x)"

definition ok_or :: "fault \<Rightarrow> 'a option \<Rightarrow> 'a res" where
  "ok_or e r = (case r of None \<Rightarrow> Inl e | Some x \<Rightarrow> Inr x)"

text \<open>A check that returns early with an error.\<close>

definition ensure :: "bool \<Rightarrow> herror \<Rightarrow> unit res" where
  "ensure b e = (if b then Ok () else Err e)"

text \<open>\<open>for x in xs { s = f(s, x)?; }\<close>\<close>

fun rfold :: "('s \<Rightarrow> 'x \<Rightarrow> 's res) \<Rightarrow> 's \<Rightarrow> 'x list \<Rightarrow> 's res" where
  "rfold f s [] = Ok s"
| "rfold f s (x # xs) = rbind (f s x) (\<lambda>s'. rfold f s' xs)"

text \<open>\<open>xs.iter().map(f).collect::<Result<Vec<_>>>()\<close>\<close>

fun rmap :: "('x \<Rightarrow> 'y res) \<Rightarrow> 'x list \<Rightarrow> 'y list res" where
  "rmap f [] = Ok []"
| "rmap f (x # xs) = rbind (f x) (\<lambda>y. rbind (rmap f xs) (\<lambda>ys. Ok (y # ys)))"

named_theorems res_simps \<open>evaluation and inversion of the result monad\<close>

lemma rbind_Inl [simp, res_simps]: "rbind (Inl e) f = Inl e"
  by (simp add: rbind_def)

lemma rbind_Inr [simp, res_simps]: "rbind (Inr x) f = f x"
  by (simp add: rbind_def)

lemma rbind_eq_Inr [res_simps]: "rbind r f = Inr y \<longleftrightarrow> (\<exists>x. r = Inr x \<and> f x = Inr y)"
  by (cases r) auto

lemma rbind_eq_Inl [res_simps]:
  "rbind r f = Inl e \<longleftrightarrow> r = Inl e \<or> (\<exists>x. r = Inr x \<and> f x = Inl e)"
  by (cases r) auto

lemma rbind_assoc: "rbind (rbind r f) g = rbind r (\<lambda>x. rbind (f x) g)"
  by (cases r) auto

lemma ensure_Inr [simp, res_simps]: "ensure b e = Inr u \<longleftrightarrow> b"
  by (simp add: ensure_def)

lemma ensure_Inl [simp, res_simps]: "ensure b e = Inl e' \<longleftrightarrow> \<not> b \<and> e' = Error e"
  by (auto simp: ensure_def)

lemma ensure_True [simp]: "ensure True e = Ok ()"
  by (simp add: ensure_def)

lemma ensure_False [simp]: "ensure False e = Err e"
  by (simp add: ensure_def)

lemma ok_or_simps [simp, res_simps]: "ok_or e None = Inl e" "ok_or e (Some x) = Inr x"
  by (simp_all add: ok_or_def)

lemma rfold_append: "rfold f s (xs @ ys) = rbind (rfold f s xs) (\<lambda>s'. rfold f s' ys)"
  by (induction xs arbitrary: s) (simp_all add: rbind_assoc)

text \<open>An invariant of the body is an invariant of the loop.\<close>

lemma rfold_invariant:
  assumes "rfold f s xs = Inr s'" "I s"
    and "\<And>s x s'. I s \<Longrightarrow> x \<in> set xs \<Longrightarrow> f s x = Inr s' \<Longrightarrow> I s'"
  shows "I s'"
  using assms
proof (induction xs arbitrary: s)
  case Nil
  then show ?case by simp
next
  case (Cons x xs)
  from Cons.prems(1) obtain t where t: "f s x = Inr t" "rfold f t xs = Inr s'"
    by (auto simp: rbind_eq_Inr)
  have it: "I t" by (rule Cons.prems(3) [OF Cons.prems(2) _ t(1)]) simp
  show ?case
    by (rule Cons.IH [OF t(2) it]) (rule Cons.prems(3), auto)
qed

lemma rmap_Inr_length: "rmap f xs = Inr ys \<Longrightarrow> length ys = length xs"
  by (induction xs arbitrary: ys) (auto simp: rbind_eq_Inr)

lemma rmap_Inr_iff: "rmap f xs = Inr ys \<longleftrightarrow> list_all2 (\<lambda>x y. f x = Inr y) xs ys"
  by (induction xs arbitrary: ys) (auto simp: rbind_eq_Inr list_all2_Cons1)

lemma rmap_Ok_map: "(\<And>x. x \<in> set xs \<Longrightarrow> f x = Inr (g x)) \<Longrightarrow> rmap f xs = Inr (map g xs)"
  by (induction xs) auto

text \<open>Panic freedom goes through a bind.\<close>

named_theorems no_panic \<open>operations that never panic\<close>

lemma no_panic_bind [no_panic]:
  "r \<noteq> Inl Panic \<Longrightarrow> (\<And>x. r = Inr x \<Longrightarrow> f x \<noteq> Inl Panic) \<Longrightarrow> rbind r f \<noteq> Inl Panic"
  by (cases r) auto

lemma no_panic_ensure [no_panic]: "ensure b e \<noteq> Inl Panic"
  by simp

end
