(* ===== verification/Ieee754_Facts.thy ===== *)
theory Ieee754_Facts
  imports Ieee754
begin

text \<open>
  What the other theories use of \<open>Ieee754\<close>: comparison is a strict order on the
  non-NaN values, \<open>total_cmp\<close> a linear one on all; rounding a representable value
  returns it, so widening an \<open>f32\<close> and narrowing it again is the identity.
\<close>

section \<open>Order facts\<close>

named_theorems f64_order \<open>definitions that reduce a float comparison to its integer key\<close>

declare less_f64_def [f64_order] less_eq_f64_def [f64_order] feq_def [f64_order]

lemma f64_less_irrefl [simp]: "\<not> (x :: f64) < x"
  by (simp add: f64_order)

lemma f64_less_trans: "(x :: f64) < y \<Longrightarrow> y < z \<Longrightarrow> x < z"
  by (simp add: f64_order)

lemma f64_less_asym: "(x :: f64) < y \<Longrightarrow> \<not> y < x"
  by (simp add: f64_order)

lemma f64_not_less: "\<not> is_nan x \<Longrightarrow> \<not> is_nan y \<Longrightarrow> \<not> x < y \<longleftrightarrow> y \<le> x"
  by (auto simp: f64_order)

lemma f64_le_trans: "(x :: f64) \<le> y \<Longrightarrow> y \<le> z \<Longrightarrow> x \<le> z"
  by (simp add: f64_order)

lemma f64_le_less_trans: "(x :: f64) \<le> y \<Longrightarrow> y < z \<Longrightarrow> x < z"
  by (simp add: f64_order)

lemma f64_less_imp_le: "(x :: f64) < y \<Longrightarrow> x \<le> y"
  by (simp add: f64_order)

lemma f64_less_nan [simp]: "is_nan x \<Longrightarrow> \<not> x < y" "is_nan y \<Longrightarrow> \<not> x < y"
  by (simp_all add: f64_order)

lemma f64_mag_bounds: "0 \<le> f64_mag x" "f64_mag x < 0x8000000000000000"
  by (simp_all add: f64_mag_def)

lemma f64_bits_key: "uint (f64_bits x) = (if f64_neg x then 0x8000000000000000 else 0) + f64_mag x"
proof -
  have b: "0 \<le> uint (f64_bits x)" "uint (f64_bits x) < 0x10000000000000000"
    using uint_bounded [of "f64_bits x"] by simp_all
  show ?thesis
  proof (cases "0x8000000000000000 \<le> uint (f64_bits x)")
    case True
    then have "uint (f64_bits x) mod 0x8000000000000000 = uint (f64_bits x) - 0x8000000000000000"
      using b mod_pos_pos_trivial [of "uint (f64_bits x) - 0x8000000000000000" "0x8000000000000000"]
      by (simp add: minus_mod_self2)
    with True show ?thesis by (simp add: f64_neg_def f64_mag_def)
  next
    case False
    with b show ?thesis by (simp add: f64_neg_def f64_mag_def)
  qed
qed

lemma total_key_inject: "total_key x = total_key y \<longleftrightarrow> x = y"
proof
  assume eq: "total_key x = total_key y"
  have "uint (f64_bits x) = uint (f64_bits y)"
    using eq f64_mag_bounds [of x] f64_mag_bounds [of y]
    by (auto simp: total_key_def f64_bits_key [of x] f64_bits_key [of y] split: if_splits)
  then have "f64_bits x = f64_bits y"
    by (rule word_uint_eqI)
  then show "x = y"
    by (rule f64.expand)
qed simp

lemma finite_not_nan: "is_finite x \<Longrightarrow> \<not> is_nan x"
  by (simp add: is_finite_def is_nan_def)

lemma total_key_less: "x < y \<Longrightarrow> total_key x < total_key y"
  using f64_mag_bounds [of x] f64_mag_bounds [of y]
  by (auto simp: f64_order total_key_def f64_key_def split: if_splits)

section \<open>Rounding\<close>

text \<open>\<open>m * 2 ^ q\<close> in the form the format stores it.\<close>

definition canonical :: "fmt \<Rightarrow> int \<Rightarrow> int \<Rightarrow> bool" where
  "canonical F m q \<longleftrightarrow>
     0 \<le> m \<and> m < 2 ^ (frac_bits F + 1) \<and> emin F \<le> q \<and> (q = emin F \<or> 2 ^ frac_bits F \<le> m)
     \<and> (q - emin F) * 2 ^ frac_bits F + m < inf_mag F"

lemma half_even_exact: "0 < b \<Longrightarrow> half_even (m * b) b = m"
  by (simp add: half_even_def Let_def)

lemma bitlen_cong_shift:
  assumes "n * 2 ^ nat (e - q) = m * 2 ^ nat (q - e)" "0 < n" "0 < m"
  shows "e + bitlen n = q + bitlen m"
proof -
  have "bitlen (n * 2 ^ nat (e - q)) = bitlen (m * 2 ^ nat (q - e))"
    using assms(1) by simp
  then show ?thesis using assms(2,3) by (simp only: bitlen_pow2)
qed

lemma bitlen_canonical:
  assumes "canonical F m q" "0 < m"
  shows "max (emin F) (q + bitlen m - 1 - int (frac_bits F)) = q"
proof -
  let ?f = "frac_bits F"
  have "bitlen m \<le> int ?f + 1"
    using assms by (simp add: bitlen_le_iff_power canonical_def nat_add_distrib)
  moreover have "bitlen m = int ?f + 1" if "2 ^ ?f \<le> m"
  proof -
    have "\<not> bitlen m \<le> int ?f"
      using that assms by (simp add: bitlen_le_iff_power)
    with calculation show ?thesis by simp
  qed
  ultimately show ?thesis
    using assms(1) by (auto simp: canonical_def)
qed

lemma round_mag_exact:
  assumes can: "canonical F m q" and m: "0 < m" and n: "0 < n"
    and val: "n * 2 ^ nat (e - q) = m * 2 ^ nat (q - e)"
  shows "round_mag F n 1 e = (q - emin F) * 2 ^ frac_bits F + m"
proof -
  let ?b = "bitlen n - bitlen 1"
  have one: "bitlen 1 = 1" by (simp add: bitlen_alt_def)
  have pos: "0 \<le> bitlen n - 1"
    using n by (simp add: bitlen_alt_def)
  have g: "(1::int) * 2 ^ nat ?b \<le> n * 2 ^ nat (- ?b)"
    using bitlen_bounds [OF n] pos by (simp add: one)
  have q: "max (emin F) (e + ?b - int (frac_bits F)) = q"
    using bitlen_canonical [OF can m] bitlen_cong_shift [OF val n m] by (simp add: one)
  have h: "half_even (n * 2 ^ nat (e - q)) (1 * 2 ^ nat (q - e)) = m"
    using half_even_exact [of "2 ^ nat (q - e)" m] val by simp
  show ?thesis
    using n g q h can unfolding round_mag_def Let_def canonical_def by simp
qed

lemma mod_top_bit:
  fixes b c :: int
  assumes "0 \<le> b" "b < 2 * c"
  shows "b = (if c \<le> b then c else 0) + b mod c"
proof (cases "c \<le> b")
  case True
  then have "b mod c = b - c"
    using assms(2) mod_pos_pos_trivial [of "b - c" c] by (simp add: minus_mod_self2)
  with True show ?thesis by simp
qed (use assms(1) in simp)

definition wf_fmt :: "fmt \<Rightarrow> bool" where
  "wf_fmt F \<longleftrightarrow> 0 < inf_mag F \<and> inf_mag F < sign_bit F"

lemma unpack_pack_sign:
  assumes "wf_fmt F" "canonical F m q"
  shows "unpack F (pack_sign F s ((q - emin F) * 2 ^ frac_bits F + m)) = Num s m q"
proof -
  let ?B = "2 ^ frac_bits F :: int" and ?k = "(q - emin F) * 2 ^ frac_bits F + m"
  have k: "0 \<le> ?k" "?k < inf_mag F" "?k < sign_bit F"
    using assms by (auto simp: canonical_def wf_fmt_def)
  have s: "(sign_bit F \<le> pack_sign F s ?k) = s" "pack_sign F s ?k mod sign_bit F = ?k"
    using k by (auto simp: pack_sign_def)
  consider "?B \<le> m" | "q = emin F" "m < ?B"
    using assms(2) unfolding canonical_def by linarith
  then show ?thesis
  proof cases
    case 1
    have eq: "?k = (m - ?B) + (q - emin F + 1) * ?B" by (simp add: algebra_simps)
    have r: "0 \<le> m - ?B" "m - ?B < ?B"
      using 1 assms(2) by (auto simp: canonical_def)
    have "?k div ?B = q - emin F + 1" "?k mod ?B = m - ?B"
      using r div_pos_pos_trivial [OF r] mod_pos_pos_trivial [OF r]
      by (simp_all only: eq div_mult_self1 mod_mult_self1)
    then show ?thesis
      using s k assms(2) by (simp add: unpack_def Let_def canonical_def)
  next
    case 2
    then show ?thesis
      using s k assms(2) by (simp add: unpack_def Let_def canonical_def)
  qed
qed

lemma unpack_Num:
  assumes "wf_fmt F" "0 \<le> b" "b < 2 * sign_bit F" "unpack F b = Num s m q"
  shows "canonical F m q" "b = pack_sign F s ((q - emin F) * 2 ^ frac_bits F + m)"
proof -
  let ?B = "2 ^ frac_bits F :: int" and ?k = "b mod sign_bit F"
  have b: "b = (if sign_bit F \<le> b then sign_bit F else 0) + ?k"
    by (rule mod_top_bit [OF assms(2,3)])
  have "0 < sign_bit F" using assms(1) by (simp add: wf_fmt_def)
  then have k0: "0 \<le> ?k" by simp
  have d: "?k = ?k div ?B * ?B + ?k mod ?B" "0 \<le> ?k mod ?B" "?k mod ?B < ?B" "0 \<le> ?k div ?B"
    using k0 by (simp_all only: div_mult_mod_eq) (simp_all add: pos_imp_zdiv_nonneg_iff)
  have lt: "?k < inf_mag F"
    using assms(4) by (auto simp: unpack_def Let_def split: if_splits)
  consider "?k div ?B = 0" "m = ?k mod ?B" "q = emin F"
    | "?k div ?B \<noteq> 0" "m = ?B + ?k mod ?B" "q = emin F + ?k div ?B - 1"
    using assms(4) by (auto simp: unpack_def Let_def split: if_splits)
  then have "canonical F m q \<and> ?k = (q - emin F) * ?B + m"
  proof cases
    case 1
    with d lt show ?thesis by (auto simp: canonical_def)
  next
    case 2
    have "q - emin F = ?k div ?B - 1" using 2 by simp
    then have "(q - emin F) * ?B + m = (?k div ?B - 1) * ?B + (?B + ?k mod ?B)"
      by (simp only: 2(2))
    also have "\<dots> = ?k div ?B * ?B + ?k mod ?B"
      by (simp only: left_diff_distrib)
    finally have "?k = (q - emin F) * ?B + m"
      using d(1) by simp
    moreover have "1 \<le> ?k div ?B" using 2(1) d(4) by simp
    then have "emin F \<le> q" using 2(3) by simp
    moreover have "0 \<le> m" "?B \<le> m" "m < 2 ^ (frac_bits F + 1)" using 2(2) d by simp_all
    ultimately show ?thesis using lt unfolding canonical_def by simp
  qed
  moreover have "s = (sign_bit F \<le> b)"
    using assms(4) by (auto simp: unpack_def Let_def split: if_splits)
  ultimately show "canonical F m q" "b = pack_sign F s ((q - emin F) * ?B + m)"
    using b by (auto simp: pack_sign_def)
qed

lemma pack_sign_range:
  assumes "wf_fmt F" "0 \<le> m" "m \<le> inf_mag F"
  shows "0 \<le> pack_sign F s m" "pack_sign F s m < 2 * sign_bit F"
  using assms by (auto simp: pack_sign_def wf_fmt_def)

lemma unpack_pack_exact:
  assumes "wf_fmt F" "canonical F m q" "0 < m" "0 < n"
    and "n * 2 ^ nat (e - q) = m * 2 ^ nat (q - e)"
  shows "unpack F (pack F s n 1 e) = Num s m q"
  using assms by (simp add: pack_def round_mag_exact unpack_pack_sign)

lemma wf_fmt64: "wf_fmt fmt64" and wf_fmt32: "wf_fmt fmt32"
  by (simp_all add: wf_fmt_def fmt64_def fmt32_def)

lemma f64_unpack_int:
  assumes "0 \<le> b" "b < 0x10000000000000000"
  shows "f64_unpack (f64_of_int b) = unpack fmt64 b"
  using assms by (simp add: f64_unpack_def f64_of_int_def uint_word_of_int)

text \<open>Every finite \<open>f32\<close> has a canonical binary64 form of the same value.\<close>

lemma canonical_widen:
  assumes "canonical fmt32 m q" "0 < m"
  shows "canonical fmt64 (m * 2 ^ nat (53 - bitlen m)) (q - (53 - bitlen m))"
proof -
  let ?k = "nat (53 - bitlen m)"
  have m: "m < 2 ^ 24" "-149 \<le> q" "q \<le> 105"
  proof -
    show "m < 2 ^ 24" "-149 \<le> q"
      using assms by (simp_all add: canonical_def fmt32_def)
    have "(q + 149) * 2 ^ 23 < 255 * 2 ^ 23"
      using assms by (simp add: canonical_def fmt32_def)
    then show "q \<le> 105" by simp
  qed
  have b: "bitlen m \<le> 24" "1 \<le> bitlen m"
  proof -
    show "bitlen m \<le> 24"
      using m by (simp add: bitlen_le_iff_power)
    show "1 \<le> bitlen m"
      using assms(2) by (simp add: bitlen_alt_def)
  qed
  then have k: "int ?k = 53 - bitlen m" by simp
  have bl: "bitlen (m * 2 ^ ?k) = 53"
    using assms(2) by (simp only: bitlen_pow2 k)
  have pos: "0 < m * 2 ^ ?k" using assms(2) by simp
  have lo: "2 ^ 52 \<le> m * 2 ^ ?k" and hi: "m * 2 ^ ?k < 2 ^ 53"
    using bitlen_bounds [OF pos] unfolding bl by simp_all
  have q: "-1074 \<le> q - int ?k" "q - int ?k \<le> 105"
    using m b k by linarith+
  have "(q - int ?k + 1074) * 2 ^ 52 + m * 2 ^ ?k < 0x7FF0000000000000"
  proof -
    have "(q - int ?k + 1074) * 2 ^ 52 \<le> 1179 * 2 ^ 52"
      by (rule mult_right_mono) (use q in simp_all)
    moreover have "(1179::int) * 2 ^ 52 + 2 ^ 53 < 0x7FF0000000000000" by simp
    ultimately show ?thesis using hi by linarith
  qed
  moreover have "q - (53 - bitlen m) = q - int ?k" using k by simp
  moreover have "0 \<le> m * 2 ^ ?k" using pos by (rule order_less_imp_le)
  moreover have "canonical fmt64 M r"
    if "0 \<le> M" "2 ^ 52 \<le> M" "M < 2 ^ 53" "-1074 \<le> r" "(r + 1074) * 2 ^ 52 + M < 0x7FF0000000000000"
    for M r
    using that by (simp add: canonical_def fmt64_def)
  ultimately show ?thesis
    using lo hi q(1) by metis
qed

lemma f32_unpack_cases:
  obtains "f32_unpack x = Nan"
    | s where "f32_unpack x = Inf s" "f32_of_int (pack_sign fmt32 s (inf_mag fmt32)) = x"
    | s m q where "f32_unpack x = Num s m q" "canonical fmt32 m q"
        "f32_of_int (pack_sign fmt32 s ((q + 149) * 2 ^ 23 + m)) = x"
proof (cases "f32_unpack x")
  case Nan
  then show ?thesis by (rule that)
next
  case (Inf s)
  have "uint (f32_bits x) = pack_sign fmt32 s (inf_mag fmt32)"
  proof -
    have "uint (f32_bits x) = (if 0x80000000 \<le> uint (f32_bits x) then 0x80000000 else 0)
        + uint (f32_bits x) mod 0x80000000"
      using uint_bounded [of "f32_bits x"] by (intro mod_top_bit) simp_all
    moreover have "uint (f32_bits x) mod 0x80000000 = 0x7F800000"
        "s = (0x80000000 \<le> uint (f32_bits x))"
      using Inf by (auto simp: f32_unpack_def unpack_def fmt32_def Let_def split: if_splits)
    ultimately show ?thesis
      by (cases s) (simp_all add: pack_sign_def fmt32_def)
  qed
  then show ?thesis
    using that(2) Inf by (simp add: f32_of_int_def flip: \<open>uint (f32_bits x) = _\<close>)
next
  case (Num s m q)
  have r: "0 \<le> uint (f32_bits x)" "uint (f32_bits x) < 2 * sign_bit fmt32"
    using uint_bounded [of "f32_bits x"] by (simp_all add: fmt32_def)
  note n = unpack_Num [OF wf_fmt32 r Num [unfolded f32_unpack_def]]
  have "f32_of_int (uint (f32_bits x)) = x"
    by (simp add: f32_of_int_def)
  then show ?thesis
    using that(3) [OF Num n(1)] n(2) by (simp add: fmt32_def)
qed

lemma f32_widen_narrow:
  assumes "\<not> f32_nan x"
  shows "f32_of_f64 (f64_of_f32 x) = x"
proof (cases rule: f32_unpack_cases [of x])
  case 1
  with assms show ?thesis by (simp add: f32_nan_def)
next
  case (2 s)
  have "f64_unpack (f64_of_f32 x) = Inf s"
    using 2 by (simp add: f64_of_f32_def f64_unpack_int pack_sign_def fmt64_def unpack_def)
  with 2 show ?thesis by (simp add: f32_of_f64_def)
next
  case (3 s m q)
  show ?thesis
  proof (cases "m = 0")
    case True
    then have "q = -149" using 3 by (simp add: canonical_def fmt32_def)
    have "f64_unpack (f64_of_f32 x) = Num s 0 (-1074)"
      using 3 True
      by (simp add: f64_of_f32_def f64_unpack_int pack_sign_def fmt64_def unpack_def pack_def
          round_mag_def)
    then show ?thesis
      using 3 True \<open>q = -149\<close> by (simp add: f32_of_f64_def pack_def round_mag_def)
  next
    case False
    then have m: "0 < m" using 3 by (simp add: canonical_def)
    let ?k = "53 - bitlen m"
    have "bitlen m \<le> 24"
      using 3 by (simp add: bitlen_le_iff_power canonical_def fmt32_def)
    then have k: "0 \<le> ?k" by simp
    note c = canonical_widen [OF 3(2) m]
    have pos: "0 < m * 2 ^ nat ?k" using m by simp
    have "f64_unpack (f64_of_f32 x) = unpack fmt64 (pack fmt64 s m 1 q)"
    proof -
      have rm: "round_mag fmt64 m 1 q = (q - ?k + 1074) * 2 ^ 52 + m * 2 ^ nat ?k"
        using round_mag_exact [OF c pos m] k by (simp add: fmt64_def)
      show ?thesis
        using 3 pack_sign_range [OF wf_fmt64, of "round_mag fmt64 m 1 q" s] rm c
        by (simp add: f64_of_f32_def f64_unpack_int pack_def canonical_def fmt64_def)
    qed
    also have "\<dots> = Num s (m * 2 ^ nat ?k) (q - ?k)"
      by (rule unpack_pack_exact [OF wf_fmt64 c pos m]) (use k in simp)
    finally have u: "f64_unpack (f64_of_f32 x) = Num s (m * 2 ^ nat ?k) (q - ?k)" .
    have "round_mag fmt32 (m * 2 ^ nat ?k) 1 (q - ?k) = (q + 149) * 2 ^ 23 + m"
      using round_mag_exact [OF 3(2) m pos, of "q - ?k"] k by (simp add: fmt32_def)
    with u 3 show ?thesis by (simp add: f32_of_f64_def pack_def)
  qed
qed

section \<open>Evaluating additions\<close>

lemma half_even_scale: "0 < c \<Longrightarrow> half_even (c * a) (c * b) = half_even a b"
proof -
  assume c: "0 < c"
  then have q: "(c * a) div (c * b) = a div b" by simp
  have r: "(c * a) mod (c * b) = c * (a mod b)" by simp
  have l: "2 * (c * (a mod b)) < c * b \<longleftrightarrow> 2 * (a mod b) < b"
    "c * b < 2 * (c * (a mod b)) \<longleftrightarrow> b < 2 * (a mod b)"
    using mult_less_cancel_left_pos [OF c, of "2 * (a mod b)" b] mult_less_cancel_left_pos [OF c, of b "2 * (a mod b)"]
    by (simp_all add: algebra_simps)
  show ?thesis using c by (simp add: half_even_def Let_def q r l)
qed

lemma round_mag_shift:
  assumes n: "0 < n" and k: "q \<le> e"
  shows "round_mag F (n * 2 ^ nat (e - q)) 1 q = round_mag F n 1 e"
proof -
  define j where "j = nat (e - q)"
  have e: "e = q + int j" using k by (simp add: j_def)
  let ?b = "bitlen n - bitlen 1"
  have one: "bitlen 1 = 1" by (simp add: bitlen_alt_def)
  have b: "bitlen (n * 2 ^ j) = bitlen n + int j" using n by (rule bitlen_pow2)
  have nn: "1 \<le> bitlen n" using n one bitlen_le_iff_power [of n 0] by (simp add: not_le [symmetric])
  have b0: "0 \<le> ?b" using nn one by simp
  have pow: "2 ^ nat (?b + int j) = (2 ^ nat ?b * 2 ^ j :: int)"
    using b0 by (simp add: nat_add_distrib power_add)
  have g: "(1 * 2 ^ nat (?b + int j) \<le> n * 2 ^ j * 2 ^ nat (- (?b + int j))) = (1 * 2 ^ nat ?b \<le> n * 2 ^ nat (- ?b))"
    using b0 by (simp add: pow)
  have m: "half_even (n * 2 ^ j * 2 ^ nat (q - p)) (2 ^ nat (p - q)) = half_even (n * 2 ^ nat (e - p)) (2 ^ nat (p - e))" for p
  proof -
    consider "p \<le> q" | "q < p" "p \<le> e" | "e < p" by linarith
    then show ?thesis
    proof cases
      case 1
      then have "nat (e - p) = j + nat (q - p)" by (simp add: e)
      then show ?thesis using 1 k by (simp add: power_add mult_ac)
    next
      case 2
      then have "j = nat (p - q) + nat (e - p)" by (simp add: e)
      then have "n * 2 ^ j * 2 ^ nat (q - p) = 2 ^ nat (p - q) * (n * 2 ^ nat (e - p))"
        using 2 by (simp add: power_add)
      moreover have "half_even (2 ^ nat (p - q) * (n * 2 ^ nat (e - p))) (2 ^ nat (p - q)) =
          half_even (n * 2 ^ nat (e - p)) 1"
        using half_even_scale [of "2 ^ nat (p - q)" "n * 2 ^ nat (e - p)" 1] by simp
      ultimately show ?thesis using 2 by (simp only: diff_le_0_iff_le nat_0_iff [THEN iffD2] less_imp_le power_0 mult_1_right)
    next
      case 3
      then have "nat (p - q) = j + nat (p - e)" by (simp add: e)
      then show ?thesis using 3 k half_even_scale [of "2 ^ j" n "2 ^ nat (p - e)"]
        by (simp add: power_add mult_ac)
    qed
  qed
  have s: "q + (?b + int j) = e + ?b" "q + (?b + int j - 1) = e + (?b - 1)" by (simp_all add: e)
  have br: "bitlen (n * 2 ^ j) - bitlen 1 = ?b + int j" by (simp add: b)
  have pos: "\<not> n * 2 ^ j \<le> 0" and n0: "\<not> n \<le> 0" using n by (simp_all add: not_le)
  show ?thesis
    unfolding j_def [symmetric] round_mag_def Let_def br g
    using n0 pos
    by (cases "1 * 2 ^ nat ?b \<le> n * 2 ^ nat (- ?b)")
      (simp_all only: if_True if_False s m mult_1_left simp_thms)
qed

text \<open>For evaluation: adding a zero does not scale the other addend by the zero's exponent.\<close>

lemma fp_add_zero:
  "fp_add F (Num s m e) (Num t m' e') =
     (if m = 0 \<and> 0 < m' then pack F t m' 1 e' else if m' = 0 \<and> 0 < m then pack F s m 1 e
      else let q = min e e';
          v = (if s then -1 else 1) * m * 2 ^ nat (e - q) +
              (if t then -1 else 1) * m' * 2 ^ nat (e' - q)
      in if v = 0 then pack_sign F (s \<and> t) 0 else pack F (v < 0) \<bar>v\<bar> 1 q)"
  using round_mag_shift [of m' "min e e'" e' F] round_mag_shift [of m "min e e'" e F]
  by (auto simp: Let_def pack_def abs_mult mult_less_0_iff)

declare fp_add.simps(1-5) [code] fp_add_zero [code]

end
