(* ===== verification/Config.thy ===== *)
theory Config
  imports Errors Ieee754_Facts
begin

text \<open>
  heather_db/src/config.rs: the parameters of a collection, their defaults and their
  validation, the adaptive neighbour capacity and the bit costs of the allocation gate.
  The transcendental functions of the platform's math library are a parameter: a
  record \<open>libm\<close> that the definitions using them take as an argument.
\<close>

record libm =
  lm_exp :: "f64 \<Rightarrow> f64"
  lm_ln :: "f64 \<Rightarrow> f64"
  lm_log2 :: "f64 \<Rightarrow> f64"

datatype precision = PF64 | PF32

record EAMConfig =
  cfg_d :: nat
  cfg_l_0 :: nat
  cfg_k :: nat
  cfg_eta_0 :: f64
  cfg_lambda :: f64
  cfg_eta_min :: f64
  cfg_tau_split :: f64
  cfg_tau_merge :: f64
  cfg_gamma :: f64
  cfg_tau_damp :: f64
  cfg_tau_overload :: f64
  cfg_beta :: f64
  cfg_t_max :: nat
  cfg_epsilon :: f64
  cfg_neighbor_cap :: nat
  cfg_num_landmarks :: nat
  cfg_mdl_gate :: bool
  cfg_competitive :: bool
  cfg_precision :: precision

text \<open>\<open>engram_bits\<close> and \<open>surprise_bits\<close>; \<open>2f64.powi(-12)\<close> is the exact \<open>2^-12\<close>.\<close>

definition engram_bits :: "libm \<Rightarrow> nat \<Rightarrow> nat \<Rightarrow> f64" where
  "engram_bits L num_locations d =
     lm_log2 L (f64_of_nat (num_locations + 1)) +
     lm_log2 L (f64_max (f64_of_nat d / f64_dec 32 0) (f64_dec 2 0))"

definition two_pow_m12 :: f64 where
  "two_pow_m12 = F64 0x3F30000000000000"

definition surprise_bits :: "libm \<Rightarrow> f64 \<Rightarrow> f64" where
  "surprise_bits L sim = - lm_log2 L (f64_clamp sim two_pow_m12 1)"

text \<open>\<open>EAMConfig::validate\<close>: the checks in the order of the code, each an early return.\<close>

definition validate :: "EAMConfig \<Rightarrow> unit res" where
  "validate c =
     rbind (ensure (cfg_d c \<noteq> 0) (InvalidConfig (msg ''d must be > 0''))) (\<lambda>_.
     rbind (ensure (cfg_k c \<noteq> 0) (InvalidConfig (msg ''k must be > 0''))) (\<lambda>_.
     rbind (ensure (\<not> (cfg_eta_0 c \<le> 0 \<or> \<not> is_finite (cfg_eta_0 c)))
       (InvalidConfig (msg ''eta_0 must be > 0 and finite''))) (\<lambda>_.
     rbind (ensure (\<not> (cfg_eta_min c \<le> 0 \<or> \<not> is_finite (cfg_eta_min c)))
       (InvalidConfig (msg ''eta_min must be > 0 and finite''))) (\<lambda>_.
     rbind (ensure (\<not> cfg_eta_0 c < cfg_eta_min c)
       (InvalidConfig (Fmt ''eta_min ({}) must be <= eta_0 ({})'' [X (cfg_eta_min c), X (cfg_eta_0 c)]))) (\<lambda>_.
     rbind (ensure (\<not> (cfg_lambda c \<le> 0 \<or> 1 < cfg_lambda c \<or> \<not> is_finite (cfg_lambda c)))
       (InvalidConfig (msg ''lambda must be in (0, 1]''))) (\<lambda>_.
     rbind (ensure (\<not> (cfg_tau_split c < 0 \<or> \<not> is_finite (cfg_tau_split c)))
       (InvalidConfig (msg ''tau_split must be >= 0 and finite''))) (\<lambda>_.
     rbind (ensure (\<not> (1 < cfg_tau_merge c \<or> \<not> is_finite (cfg_tau_merge c)))
       (InvalidConfig (msg ''tau_merge must be <= 1 and finite''))) (\<lambda>_.
     rbind (ensure (\<not> cfg_tau_merge c \<le> cfg_tau_split c)
       (InvalidConfig (Fmt ''tau_split ({}) must be < tau_merge ({})'' [X (cfg_tau_split c), X (cfg_tau_merge c)]))) (\<lambda>_.
     rbind (ensure (\<not> (cfg_gamma c < 0 \<or> \<not> is_finite (cfg_gamma c)))
       (InvalidConfig (msg ''gamma must be >= 0 and finite''))) (\<lambda>_.
     rbind (ensure (\<not> (cfg_tau_damp c \<le> 0 \<or> \<not> is_finite (cfg_tau_damp c)))
       (InvalidConfig (msg ''tau_damp must be > 0 and finite''))) (\<lambda>_.
     rbind (ensure (\<not> (cfg_tau_overload c \<le> 0 \<or> \<not> is_finite (cfg_tau_overload c)))
       (InvalidConfig (msg ''tau_overload must be > 0 and finite''))) (\<lambda>_.
     rbind (ensure (\<not> (cfg_beta c \<le> 0 \<or> \<not> is_finite (cfg_beta c)))
       (InvalidConfig (msg ''beta must be > 0 and finite''))) (\<lambda>_.
     rbind (ensure (cfg_t_max c \<noteq> 0) (InvalidConfig (msg ''t_max must be > 0''))) (\<lambda>_.
     rbind (ensure (\<not> (cfg_epsilon c \<le> 0 \<or> \<not> is_finite (cfg_epsilon c)))
       (InvalidConfig (msg ''epsilon must be > 0 and finite''))) (\<lambda>_.
     rbind (ensure (\<not> (0 < cfg_neighbor_cap c \<and> cfg_num_landmarks c = 0))
       (InvalidConfig (msg ''num_landmarks must be > 0 when neighbor_cap > 0''))) (\<lambda>_.
     Ok ()))))))))))))))))"

definition EAMConfig_defaults :: "nat \<Rightarrow> EAMConfig" where
  "EAMConfig_defaults d =
     \<lparr>cfg_d = d, cfg_l_0 = 0, cfg_k = 20, cfg_eta_0 = f64_dec 1 2, cfg_lambda = f64_dec 9999 4,
      cfg_eta_min = f64_dec 1 3, cfg_tau_split = f64_dec 3 1, cfg_tau_merge = f64_dec 95 2,
      cfg_gamma = 1, cfg_tau_damp = f64_dec 10 0,
      cfg_tau_overload = f64_max (f64_of_nat d / f64_dec 32 0) (f64_dec 8 0),
      cfg_beta = f64_dec 5 0, cfg_t_max = 10, cfg_epsilon = f64_dec 1 6,
      cfg_neighbor_cap = max (d div 4) 20, cfg_num_landmarks = 32,
      cfg_mdl_gate = False, cfg_competitive = True, cfg_precision = PF64\<rparr>"

definition EAMConfig_new :: "nat \<Rightarrow> EAMConfig res" where
  "EAMConfig_new d = (let c = EAMConfig_defaults d in rbind (validate c) (\<lambda>_. Ok c))"

text \<open>\<open>adaptive_neighbor_cap\<close>; \<open>validate\<close> has refused \<open>k = 0\<close>, so \<open>k - 1\<close> does not underflow.\<close>

definition adaptive_neighbor_cap :: "libm \<Rightarrow> EAMConfig \<Rightarrow> nat \<Rightarrow> nat" where
  "adaptive_neighbor_cap L c num_locations =
     (if cfg_neighbor_cap c = 0 then 0
      else let ln_l = f64_to_usize (f64_ceil (lm_ln L (f64_of_nat (max num_locations 1))));
               long_range = (cfg_k c - 1) * ln_l;
               floor = 2 * cfg_k c
           in max long_range floor)"

section \<open>Facts\<close>

text \<open>What an accepted configuration guarantees, in the negation-free form clients use.\<close>

definition config_ok :: "EAMConfig \<Rightarrow> bool" where
  "config_ok c \<longleftrightarrow>
     0 < cfg_d c \<and> 0 < cfg_k c \<and> 0 < cfg_t_max c \<and>
     is_finite (cfg_eta_0 c) \<and> 0 < cfg_eta_min c \<and> cfg_eta_min c \<le> cfg_eta_0 c \<and>
     0 < cfg_lambda c \<and> cfg_lambda c \<le> 1 \<and>
     0 \<le> cfg_tau_split c \<and> cfg_tau_split c < cfg_tau_merge c \<and> cfg_tau_merge c \<le> 1 \<and>
     0 \<le> cfg_gamma c \<and> is_finite (cfg_gamma c) \<and>
     0 < cfg_tau_damp c \<and> is_finite (cfg_tau_damp c) \<and>
     0 < cfg_tau_overload c \<and> is_finite (cfg_tau_overload c) \<and>
     0 < cfg_beta c \<and> is_finite (cfg_beta c) \<and>
     0 < cfg_epsilon c \<and> is_finite (cfg_epsilon c) \<and>
     (0 < cfg_neighbor_cap c \<longrightarrow> 0 < cfg_num_landmarks c)"

lemma key_zero_one [f64_order]: "f64_key 0 = 0" "f64_key 1 = 0x3FF0000000000000"
  "\<not> is_nan 0" "\<not> is_nan 1"
  by (simp_all add: f64_key_def f64_neg_def f64_mag_def is_nan_def zero_f64_def one_f64_def)

lemma less_finite: "is_finite y \<Longrightarrow> 0 < x \<Longrightarrow> x \<le> y \<Longrightarrow> is_finite x"
  by (auto simp: less_eq_f64_def less_f64_def is_finite_def f64_key_def split: if_splits
      simp: zero_f64_def f64_neg_def f64_mag_def)


lemma finite_positive: "\<not> (x \<le> 0 \<or> \<not> is_finite x) \<longleftrightarrow> 0 < x \<and> is_finite x"
  using f64_not_less [of 0 x] finite_not_nan [of x] f64_less_asym [of 0 x]
  by (auto simp: less_f64_def less_eq_f64_def key_zero_one)

lemma finite_nonneg: "\<not> (x < 0 \<or> \<not> is_finite x) \<longleftrightarrow> 0 \<le> x \<and> is_finite x"
  using finite_not_nan [of x] by (auto simp: less_f64_def less_eq_f64_def key_zero_one)

lemma finite_not_less: "is_finite x \<Longrightarrow> is_finite y \<Longrightarrow> \<not> x < y \<longleftrightarrow> y \<le> x"
  using finite_not_nan by (intro f64_not_less) auto

lemma finite_not_le: "is_finite x \<Longrightarrow> is_finite y \<Longrightarrow> \<not> x \<le> y \<longleftrightarrow> y < x"
  using finite_not_nan by (auto simp: less_f64_def less_eq_f64_def)

lemma finite_one [simp]: "is_finite 1" "is_finite 0"
  by (simp_all add: is_finite_def f64_mag_def one_f64_def zero_f64_def)

lemma between_finite: "is_finite a \<Longrightarrow> is_finite b \<Longrightarrow> a \<le> x \<Longrightarrow> x \<le> b \<Longrightarrow> is_finite x"
  by (auto simp: less_eq_f64_def is_finite_def f64_key_def f64_mag_def split: if_splits)

lemma not_le_or: "\<not> (x \<le> 0 \<or> 1 < x \<or> \<not> is_finite x) \<longleftrightarrow> 0 < x \<and> x \<le> 1"
proof -
  have "0 < x \<and> x \<le> 1 \<longrightarrow> is_finite x"
    using between_finite [of 0 1 x] f64_less_imp_le by auto
  then show ?thesis
    using finite_positive [of x] finite_not_less [of 1 x] by auto
qed

lemma validate_iff_config_ok: "validate c = Inr () \<longleftrightarrow> config_ok c"
proof -
  have eta: "(0 < cfg_eta_0 c \<and> is_finite (cfg_eta_0 c)) \<and>
      (0 < cfg_eta_min c \<and> is_finite (cfg_eta_min c)) \<and> \<not> cfg_eta_0 c < cfg_eta_min c
      \<longleftrightarrow> is_finite (cfg_eta_0 c) \<and> 0 < cfg_eta_min c \<and> cfg_eta_min c \<le> cfg_eta_0 c"
    using finite_not_less [of "cfg_eta_0 c" "cfg_eta_min c"]
      less_finite [of "cfg_eta_0 c" "cfg_eta_min c"]
    by (auto simp: less_f64_def less_eq_f64_def)
  have tau: "(0 \<le> cfg_tau_split c \<and> is_finite (cfg_tau_split c)) \<and>
      \<not> (1 < cfg_tau_merge c \<or> \<not> is_finite (cfg_tau_merge c)) \<and> \<not> cfg_tau_merge c \<le> cfg_tau_split c
      \<longleftrightarrow> 0 \<le> cfg_tau_split c \<and> cfg_tau_split c < cfg_tau_merge c \<and> cfg_tau_merge c \<le> 1"
  proof -
    have "is_finite (cfg_tau_split c) \<and> is_finite (cfg_tau_merge c)"
      if "0 \<le> cfg_tau_split c" "cfg_tau_split c < cfg_tau_merge c" "cfg_tau_merge c \<le> 1"
      using that between_finite [of 0 1] f64_less_imp_le f64_le_trans finite_one by metis
    then show ?thesis
      using finite_not_le [of "cfg_tau_merge c" "cfg_tau_split c"]
        finite_not_less [of 1 "cfg_tau_merge c"] by auto
  qed
  show ?thesis
    unfolding validate_def rbind_eq_Inr ensure_Inr finite_positive finite_nonneg not_le_or
      config_ok_def
    using eta tau by auto
qed

lemma EAMConfig_new_ok: "EAMConfig_new d = Inr c \<longleftrightarrow> c = EAMConfig_defaults d \<and> config_ok c"
  using validate_iff_config_ok [of "EAMConfig_defaults d"]
  by (auto simp: EAMConfig_new_def rbind_eq_Inr Let_def)

section \<open>Properties\<close>

text \<open>\<open>EAMConfig::validate\<close> accepts exactly the configurations that satisfy every bound:
  the dimension, \<open>k\<close> and \<open>t_max\<close> positive; \<open>0 < eta_min <= eta_0\<close> finite; \<open>lambda\<close> in
  \<open>(0, 1]\<close>; \<open>0 <= tau_split < tau_merge <= 1\<close>; the remaining rates and thresholds positive
  (\<open>gamma\<close> non-negative) and finite, NaN included in what is refused; and landmarks present
  when the neighbour graph is on.\<close>

lemma validate_exact: "validate c = Inr () \<longleftrightarrow> config_ok c"
  by (rule validate_iff_config_ok)

end
