(* ===== verification/Vec_Ops.thy ===== *)
theory Vec_Ops
  imports Config
begin

text \<open>
  heather_db/src/vec_ops.rs and heather_db/src/location.rs: vector arithmetic on
  \<open>f64\<close> lists in the evaluation order of the code, and the hard location with its
  derived patterns. The real FFT (crate realfft) is a parameter: a record \<open>rfft\<close>
  of a forward and an inverse transform that may fail.
\<close>

section \<open>Vector arithmetic\<close>

definition dot :: "f64 list \<Rightarrow> f64 list \<Rightarrow> f64" where
  "dot a b = f64_sum (map2 (*) a b)"

definition l2_norm :: "f64 list \<Rightarrow> f64" where
  "l2_norm v = f64_sqrt (dot v v)"

definition tiny :: f64 where
  "tiny = f64_dec 1 12"

definition normalize :: "f64 list \<Rightarrow> f64 list" where
  "normalize v = (let norm = l2_norm v in if norm < tiny then v else map (\<lambda>x. x / norm) v)"

definition cosine_similarity :: "f64 list \<Rightarrow> f64 list \<Rightarrow> f64" where
  "cosine_similarity a b =
     (let na = l2_norm a; nb = l2_norm b
      in if na < tiny \<or> nb < tiny then 0 else dot a b / (na * nb))"

definition softmax :: "libm \<Rightarrow> f64 list \<Rightarrow> f64 \<Rightarrow> f64 list" where
  "softmax L values \<beta> =
     (if values = [] then []
      else let max_val = foldl f64_max f64_neg_infinity values
           in if \<not> is_finite max_val then replicate (length values) (1 / f64_of_nat (length values))
              else let exps = map (\<lambda>v. lm_exp L ((v - max_val) * \<beta>)) values;
                       sum = f64_sum exps
                   in map (\<lambda>e. e / sum) exps)"

text \<open>\<open>add_scaled\<close> updates in place the prefix that the zip reaches.\<close>

fun add_scaled :: "f64 list \<Rightarrow> f64 list \<Rightarrow> f64 \<Rightarrow> f64 list" where
  "add_scaled (a # as) (b # bs) s = (a + s * b) # add_scaled as bs s"
| "add_scaled as bs s = as"

definition weighted_sum :: "f64 list list \<Rightarrow> f64 list \<Rightarrow> f64 list" where
  "weighted_sum vectors weights =
     (case vectors of
        [] \<Rightarrow> []
      | v0 # _ \<Rightarrow>
          foldl (\<lambda>result (v, w). add_scaled result v w) (replicate (length v0) 0)
            (zip vectors weights))"

fun validate_from :: "nat \<Rightarrow> f64 list \<Rightarrow> unit res" where
  "validate_from i [] = Ok ()"
| "validate_from i (x # xs) =
     (if \<not> is_finite x
      then Err (InvalidInput (Fmt ''element at index {} is not finite: {}'' [N (int i), X x]))
      else validate_from (i + 1) xs)"

definition validate_vector :: "f64 list \<Rightarrow> unit res" where
  "validate_vector v = validate_from 0 v"

text \<open>\<open>batch_dot_unit\<close> on rows packed contiguously (\<open>d > 0\<close>).\<close>

definition batch_dot_unit :: "f64 list \<Rightarrow> f64 list \<Rightarrow> nat \<Rightarrow> f64 list" where
  "batch_dot_unit query rows d =
     map (\<lambda>i. dot query (take d (drop (i * d) rows))) [0..<length rows div d]"

text \<open>\<open>d\<close> draws of the standard normal distribution, then normalized.\<close>

fun draws :: "('r \<Rightarrow> f64 \<times> 'r) \<Rightarrow> nat \<Rightarrow> 'r \<Rightarrow> f64 list \<times> 'r" where
  "draws normal 0 r = ([], r)"
| "draws normal (Suc n) r =
     (let (x, r') = normal r; (xs, r'') = draws normal n r' in (x # xs, r''))"

definition random_unit_vector :: "('r \<Rightarrow> f64 \<times> 'r) \<Rightarrow> nat \<Rightarrow> 'r \<Rightarrow> f64 list \<times> 'r" where
  "random_unit_vector normal d r = (let (v, r') = draws normal d r in (normalize v, r'))"

section \<open>Role-scoped scoring\<close>

datatype complex64 = Complex64 (re: f64) (im: f64)

definition mul_conj :: "complex64 \<Rightarrow> complex64 \<Rightarrow> complex64" where
  "mul_conj x y =
     (let yi = - im y in Complex64 (re x * re y - im x * yi) (re x * yi + im x * re y))"

record rfft =
  rf_forward :: "nat \<Rightarrow> f64 list \<Rightarrow> complex64 list option"
  rf_inverse :: "nat \<Rightarrow> complex64 list \<Rightarrow> f64 list option"

definition clear_im :: "nat \<Rightarrow> complex64 list \<Rightarrow> complex64 list" where
  "clear_im i p = p[i := Complex64 (re (p ! i)) 0]"

definition unbind_by :: "rfft \<Rightarrow> f64 list \<Rightarrow> f64 list \<Rightarrow> f64 list" where
  "unbind_by T bound role =
     (let d = length bound in
      if d = 0 then []
      else case rf_forward T d bound of
        None \<Rightarrow> replicate d 0
      | Some spec_b \<Rightarrow>
          (case rf_forward T d role of
             None \<Rightarrow> replicate d 0
           | Some spec_r \<Rightarrow>
               let prod = map2 mul_conj spec_b spec_r;
                   prod = clear_im 0 prod;
                   prod = (if even d then clear_im (length prod - 1) prod else prod)
               in case rf_inverse T d prod of
                    None \<Rightarrow> replicate d 0
                  | Some out \<Rightarrow> map (\<lambda>x. x / f64_of_nat d) out))"

definition role_scoped_similarity :: "rfft \<Rightarrow> f64 list \<Rightarrow> f64 list \<Rightarrow> f64 list \<Rightarrow> f64" where
  "role_scoped_similarity T stored role filler = cosine_similarity (unbind_by T stored role) filler"

definition rfft_forward :: "rfft \<Rightarrow> f64 list \<Rightarrow> complex64 list" where
  "rfft_forward T v =
     (let d = length v in
      if d = 0 then []
      else case rf_forward T d v of
        None \<Rightarrow> replicate (d div 2 + 1) (Complex64 0 0)
      | Some spec \<Rightarrow> spec)"

definition unbind_spectrum :: "complex64 list \<Rightarrow> complex64 list \<Rightarrow> nat \<Rightarrow> complex64 list" where
  "unbind_spectrum bound role d =
     (let prod = map2 mul_conj bound role
      in if prod = [] then prod
         else let prod = clear_im 0 prod
              in if even d then clear_im (length prod - 1) prod else prod)"

definition unbind_by_spectra :: "rfft \<Rightarrow> complex64 list \<Rightarrow> complex64 list \<Rightarrow> nat \<Rightarrow> f64 list" where
  "unbind_by_spectra T bound role d =
     (if d = 0 then []
      else case rf_inverse T d (unbind_spectrum bound role d) of
        None \<Rightarrow> replicate d 0
      | Some out \<Rightarrow> map (\<lambda>x. x / f64_of_nat d) out)"

definition hermitian_inner :: "complex64 list \<Rightarrow> complex64 list \<Rightarrow> nat \<Rightarrow> f64" where
  "hermitian_inner a b d =
     (if d = 0 \<or> a = [] then 0
      else let r = (\<lambda>i. re (a ! i) * re (b ! i) + im (a ! i) * im (b ! i));
               m = length a;
               has_nyquist = (even d \<and> m > 1);
               doubled_end = (if has_nyquist then m - 1 else m);
               acc = foldl (\<lambda>acc i. acc + f64_dec 2 0 * r i) (r 0) [1..<doubled_end];
               acc = (if has_nyquist then acc + r (m - 1) else acc)
           in acc / f64_of_nat d)"

definition role_scoped_similarity_spectra ::
  "complex64 list \<Rightarrow> complex64 list \<Rightarrow> complex64 list \<Rightarrow> f64 \<Rightarrow> nat \<Rightarrow> f64" where
  "role_scoped_similarity_spectra bound role filler filler_norm d =
     (if d = 0 then 0
      else let prod = unbind_spectrum bound role d;
               recovered_norm = f64_sqrt (f64_max (hermitian_inner prod prod d) 0)
           in if recovered_norm < tiny \<or> filler_norm < tiny then 0
              else hermitian_inner prod filler d / (recovered_norm * filler_norm))"

section \<open>Hard locations\<close>

record HardLocation =
  loc_id :: u64
  loc_address :: "f64 list"
  loc_counter :: "f64 list"
  loc_write_count :: f64
  loc_neighbors :: "u64 list"
  loc_surprise_mass :: f64

definition HardLocation_new :: "u64 \<Rightarrow> f64 list \<Rightarrow> HardLocation" where
  "HardLocation_new i address =
     \<lparr>loc_id = i, loc_address = address, loc_counter = replicate (length address) 0,
      loc_write_count = 0, loc_neighbors = [], loc_surprise_mass = 0\<rparr>"

definition normalized_pattern :: "HardLocation \<Rightarrow> f64 list" where
  "normalized_pattern l =
     (if f64_abs (loc_write_count l) < tiny then replicate (length (loc_counter l)) 0
      else map (\<lambda>c. c / loc_write_count l) (loc_counter l))"

definition unit_pattern :: "HardLocation \<Rightarrow> f64 list" where
  "unit_pattern l = normalize (normalized_pattern l)"

section \<open>Facts\<close>

named_theorems vec_simps \<open>lengths of the vectors the operations return\<close>

lemma length_normalize [simp, vec_simps]: "length (normalize v) = length v"
  by (simp add: normalize_def Let_def)

lemma length_softmax [simp, vec_simps]: "length (softmax L vs \<beta>) = length vs"
  by (simp add: softmax_def Let_def)

lemma length_add_scaled [simp, vec_simps]: "length (add_scaled a b s) = length a"
  by (induction a b s rule: add_scaled.induct) simp_all

lemma length_weighted_sum [simp, vec_simps]:
  "length (weighted_sum vs ws) = (case vs of [] \<Rightarrow> 0 | v # _ \<Rightarrow> length v)"
proof -
  have "length (foldl (\<lambda>result (v, w). add_scaled result v w) r ps) = length r"
    for r and ps :: "(f64 list \<times> f64) list"
    by (induction ps arbitrary: r) (auto split: prod.splits)
  then show ?thesis by (simp add: weighted_sum_def split: list.splits)
qed

lemma length_patterns [simp, vec_simps]:
  "length (normalized_pattern l) = length (loc_counter l)"
  "length (unit_pattern l) = length (loc_counter l)"
  by (simp_all add: normalized_pattern_def unit_pattern_def)

lemma length_draws [simp]: "length (fst (draws normal n r)) = n"
  by (induction n arbitrary: r) (simp_all add: Let_def case_prod_beta)

lemma length_random_unit_vector [simp, vec_simps]:
  "length (fst (random_unit_vector normal d r)) = d"
  by (simp add: random_unit_vector_def Let_def case_prod_beta)

lemma validate_from_Inr: "validate_from i v = Inr u \<longleftrightarrow> (\<forall>x\<in>set v. is_finite x)"
  by (induction i v rule: validate_from.induct) auto

lemma validate_vector_Inr [simp]: "validate_vector v = Inr u \<longleftrightarrow> (\<forall>x\<in>set v. is_finite x)"
  by (simp add: validate_vector_def validate_from_Inr)

lemma validate_from_Inl:
  "validate_from i v = Inl e \<longleftrightarrow>
   (\<exists>j<length v. \<not> is_finite (v ! j) \<and> (\<forall>n<j. is_finite (v ! n)) \<and>
      e = Error (InvalidInput (Fmt ''element at index {} is not finite: {}'' [N (int (i + j)), X (v ! j)])))"
proof (induction i v rule: validate_from.induct)
  case (1 i)
  then show ?case by simp
next
  case (2 i x xs)
  show ?case
    using 2 by (cases "is_finite x") (auto simp: Ex_less_Suc2 All_less_Suc2 algebra_simps)
qed

text \<open>The packed matrix gives the same similarities as the rows it was packed from.\<close>

lemma batch_dot_unit_concat:
  assumes "0 < d" "\<forall>r\<in>set rs. length r = d"
  shows "batch_dot_unit q (concat rs) d = map (dot q) rs"
  using rows_of_concat [OF assms, of "dot q"] by (simp add: batch_dot_unit_def)

lemma unbind_spectra_eq:
  assumes "length role = length bound"
    and "\<And>v. length v = length bound \<Longrightarrow> \<exists>s. rf_forward T (length bound) v = Some s \<and> s \<noteq> []"
  shows "unbind_by_spectra T (rfft_forward T bound) (rfft_forward T role) (length bound) =
         unbind_by T bound role"
proof (cases "bound = []")
  case True
  then show ?thesis by (simp add: unbind_by_spectra_def unbind_by_def)
next
  case False
  obtain sb sr where s: "rf_forward T (length bound) bound = Some sb" "sb \<noteq> []"
      "rf_forward T (length bound) role = Some sr" "sr \<noteq> []"
    using assms by metis
  then have "map2 mul_conj sb sr \<noteq> []" by (cases sb; cases sr) auto
  with s False assms(1) show ?thesis
    by (simp add: unbind_by_spectra_def unbind_by_def rfft_forward_def unbind_spectrum_def Let_def)
qed

end
