(* ===== verification/Codec.thy ===== *)
theory Codec
  imports Vec_Ops
begin

text \<open>
  heather_db/src/codec.rs: the envelope (magic, version, kind, precision, length,
  CRC-32) and the payload layouts of locations, documents, plain locations and document
  references. An index or slice out of range is \<open>Panic\<close>, so that the promise "never
  panics" is a theorem. The checksum and the decoders of the bincode values written before
  the envelope existed are parameters (\<open>codec_env\<close>). \<open>debug_assert\<close>s are not modelled.
\<close>

record LegacyCompactLocation =
  lcl_id :: u64
  lcl_address :: "f32 list"
  lcl_counter :: "f32 list"
  lcl_write_count :: f64
  lcl_neighbors :: "u64 list"
  lcl_surprise_mass :: f64

record codec_env =
  ce_crc32 :: "bytes \<Rightarrow> u32"
  ce_loc64 :: "bytes \<Rightarrow> string + HardLocation"
  ce_loc32 :: "bytes \<Rightarrow> string + LegacyCompactLocation"
  ce_doc64 :: "bytes \<Rightarrow> string + (f64 list \<times> bytes)"
  ce_doc32 :: "bytes \<Rightarrow> string + (f32 list \<times> bytes)"

datatype DocVector = Inline "f64 list" | DocLocation u64

datatype Format = Enveloped u8 u8 precision | Legacy

definition MAGIC :: bytes where
  "MAGIC = [0xFF, 0xFE, 0x48, 0x44]"

definition RECORD_VERSION :: u8 where "RECORD_VERSION = 1"
definition HEADER_LEN :: nat where "HEADER_LEN = 16"
definition KIND_LOCATION :: u8 where "KIND_LOCATION = 1"
definition KIND_DOCUMENT :: u8 where "KIND_DOCUMENT = 2"
definition KIND_PLAIN_LOCATION :: u8 where "KIND_PLAIN_LOCATION = 3"
definition KIND_DOCUMENT_REF :: u8 where "KIND_DOCUMENT_REF = 4"

named_theorems codec_defs \<open>constants of the record format\<close>
declare MAGIC_def [codec_defs] RECORD_VERSION_def [codec_defs] HEADER_LEN_def [codec_defs]
  KIND_LOCATION_def [codec_defs] KIND_DOCUMENT_def [codec_defs]
  KIND_PLAIN_LOCATION_def [codec_defs] KIND_DOCUMENT_REF_def [codec_defs]

section \<open>Envelope\<close>

abbreviation corrupt :: "message \<Rightarrow> 'a res" where
  "corrupt m \<equiv> Err (Corrupt m)"

definition byte_at :: "bytes \<Rightarrow> nat \<Rightarrow> u8 res" where
  "byte_at bs i = (if i < length bs then Ok (bs ! i) else Inl Panic)"

definition slice :: "bytes \<Rightarrow> nat \<Rightarrow> nat \<Rightarrow> bytes res" where
  "slice bs i j = (if i \<le> j \<and> j \<le> length bs then Ok (take (j - i) (drop i bs)) else Inl Panic)"

text \<open>\<open>split_at\<close> of a slice panics past its end, \<open>try_into().expect(..)\<close> on any other length.\<close>

definition split_at :: "nat \<Rightarrow> bytes \<Rightarrow> (bytes \<times> bytes) res" where
  "split_at n bs = (if n \<le> length bs then Ok (take n bs, drop n bs) else Inl Panic)"

definition exactly :: "nat \<Rightarrow> bytes \<Rightarrow> bytes res" where
  "exactly n bs = (if length bs = n then Ok bs else Inl Panic)"

definition precision_byte :: "precision \<Rightarrow> u8" where
  "precision_byte p = (case p of PF64 \<Rightarrow> 0 | PF32 \<Rightarrow> 1)"

definition precision_from :: "u8 \<Rightarrow> precision res" where
  "precision_from b =
     (if b = 0 then Ok PF64 else if b = 1 then Ok PF32
      else corrupt (Fmt ''unknown precision {}'' [N (uint b)]))"

definition width :: "precision \<Rightarrow> nat" where
  "width p = (case p of PF64 \<Rightarrow> 8 | PF32 \<Rightarrow> 4)"

definition kind_name :: "u8 \<Rightarrow> string" where
  "kind_name k =
     (if k = KIND_LOCATION then ''location'' else if k = KIND_DOCUMENT then ''document''
      else if k = KIND_PLAIN_LOCATION then ''plain location''
      else if k = KIND_DOCUMENT_REF then ''document reference'' else ''unknown'')"

definition len_u32 :: "nat \<Rightarrow> u32 res" where
  "len_u32 n = (if n < 2 ^ 32 then Ok (of_nat n) else Inl Panic)"

definition format :: "bytes \<Rightarrow> Format res" where
  "format bs =
     (if length bs < 4 then Ok Legacy
      else rbind (slice bs 0 4) (\<lambda>magic.
      if magic \<noteq> MAGIC then Ok Legacy
      else if length bs < HEADER_LEN then corrupt (msg ''record header is truncated'')
      else rbind (byte_at bs 4) (\<lambda>version. rbind (byte_at bs 5) (\<lambda>kind.
           rbind (byte_at bs 6) (\<lambda>b. rbind (precision_from b) (\<lambda>p.
           Ok (Enveloped version kind p)))))))"

definition envelope :: "codec_env \<Rightarrow> u8 \<Rightarrow> precision \<Rightarrow> bytes \<Rightarrow> bytes res" where
  "envelope E kind p payload =
     rbind (len_u32 (length payload)) (\<lambda>n.
     Ok (MAGIC @ [RECORD_VERSION, kind, precision_byte p, 0] @ u32_to_le n @
         u32_to_le (ce_crc32 E payload) @ payload))"

definition open_env :: "codec_env \<Rightarrow> bytes \<Rightarrow> u8 list \<Rightarrow> (u8 \<times> precision \<times> bytes) res" where
  "open_env E bs kinds =
     rbind (byte_at bs 4) (\<lambda>version.
     if version = 0 \<or> version > RECORD_VERSION
     then Err (UnsupportedFormat (Fmt ''record version {} (this HeatherDB reads up to {}); it was written by a newer HeatherDB''
                 [N (uint version), N (uint RECORD_VERSION)]))
     else rbind (byte_at bs 5) (\<lambda>kind.
     if kind \<notin> set kinds
     then rbind (byte_at kinds 0) (\<lambda>k.
       corrupt (Fmt ''expected a {} record, found kind {}'' [S (kind_name k), N (uint kind)]))
     else rbind (byte_at bs 6) (\<lambda>b. rbind (precision_from b) (\<lambda>p.
     rbind (slice bs 8 12) (\<lambda>l. rbind (exactly 4 l) (\<lambda>l.
     rbind (slice bs 12 16) (\<lambda>c. rbind (exactly 4 c) (\<lambda>c.
     rbind (slice bs HEADER_LEN (length bs)) (\<lambda>payload.
     let len = unat (u32_of_le l); crc = u32_of_le c in
     if length payload \<noteq> len
     then corrupt (Fmt ''payload is {} bytes, header says {}'' [N (int (length payload)), N (int len)])
     else if ce_crc32 E payload \<noteq> crc then corrupt (msg ''checksum mismatch'')
     else Ok (kind, p, payload))))))))))"

section \<open>Bounds-checked reads\<close>

definition rd_bytes :: "nat \<Rightarrow> bytes \<Rightarrow> (bytes \<times> bytes) res" where
  "rd_bytes n bs =
     (if n > length bs then corrupt (msg ''payload is truncated'') else split_at n bs)"

definition rd_u32 :: "bytes \<Rightarrow> (u32 \<times> bytes) res" where
  "rd_u32 bs = rbind (rd_bytes 4 bs) (\<lambda>(h, r). rbind (exactly 4 h) (\<lambda>h. Ok (u32_of_le h, r)))"

definition rd_u64 :: "bytes \<Rightarrow> (u64 \<times> bytes) res" where
  "rd_u64 bs = rbind (rd_bytes 8 bs) (\<lambda>(h, r). rbind (exactly 8 h) (\<lambda>h. Ok (u64_of_le h, r)))"

definition rd_f64 :: "bytes \<Rightarrow> (f64 \<times> bytes) res" where
  "rd_f64 bs = rbind (rd_bytes 8 bs) (\<lambda>(h, r). rbind (exactly 8 h) (\<lambda>h. Ok (F64 (u64_of_le h), r)))"

text \<open>\<open>as_chunks::<k>().0\<close>: the full chunks.\<close>

definition chunks :: "nat \<Rightarrow> bytes \<Rightarrow> bytes list" where
  "chunks k raw = map (\<lambda>i. take k (drop (i * k) raw)) [0..<length raw div k]"

definition checked_mul :: "nat \<Rightarrow> nat \<Rightarrow> message \<Rightarrow> nat res" where
  "checked_mul n w m = (if n * w < 2 ^ 64 then Ok (n * w) else corrupt m)"

definition rd_floats :: "nat \<Rightarrow> precision \<Rightarrow> bytes \<Rightarrow> (f64 list \<times> bytes) res" where
  "rd_floats n p bs =
     rbind (checked_mul n (width p) (msg ''vector length overflows'')) (\<lambda>k.
     rbind (rd_bytes k bs) (\<lambda>(raw, r).
     Ok (case p of PF64 \<Rightarrow> map (\<lambda>b. F64 (u64_of_le b)) (chunks 8 raw)
                 | PF32 \<Rightarrow> map (\<lambda>b. f64_of_f32 (F32 (u32_of_le b))) (chunks 4 raw), r)))"

definition rd_u64s :: "nat \<Rightarrow> bytes \<Rightarrow> (u64 list \<times> bytes) res" where
  "rd_u64s n bs =
     rbind (checked_mul n 8 (msg ''list length overflows'')) (\<lambda>k.
     rbind (rd_bytes k bs) (\<lambda>(raw, r). Ok (map u64_of_le (chunks 8 raw), r)))"

definition rd_finish :: "bytes \<Rightarrow> unit res" where
  "rd_finish bs =
     (if bs = [] then Ok ()
      else corrupt (Fmt ''{} unexpected trailing bytes'' [N (int (length bs))]))"

definition put_floats :: "f64 list \<Rightarrow> precision \<Rightarrow> bytes" where
  "put_floats v p =
     (case p of PF64 \<Rightarrow> concat (map (\<lambda>x. u64_to_le (f64_bits x)) v)
              | PF32 \<Rightarrow> concat (map (\<lambda>x. u32_to_le (f32_bits (f32_of_f64 x))) v))"

section \<open>Locations\<close>

text \<open>\<open>==\<close> of two vectors of floats.\<close>

definition vec_feq :: "f64 list \<Rightarrow> f64 list \<Rightarrow> bool" where
  "vec_feq a b \<longleftrightarrow> list_all2 feq a b"

definition encode_location :: "codec_env \<Rightarrow> HardLocation \<Rightarrow> precision \<Rightarrow> bytes res" where
  "encode_location E l p =
     (let d = length (loc_address l); plain = vec_feq (loc_counter l) (loc_address l) in
      rbind (len_u32 d) (\<lambda>d32.
      rbind (len_u32 (length (loc_neighbors l))) (\<lambda>n32.
      envelope E (if plain then KIND_PLAIN_LOCATION else KIND_LOCATION) p
        (u64_to_le (loc_id l) @ u32_to_le d32 @ put_floats (loc_address l) p @
         (if plain then [] else put_floats (loc_counter l) p) @
         u64_to_le (f64_bits (loc_write_count l)) @ u64_to_le (f64_bits (loc_surprise_mass l)) @
         u32_to_le n32 @ concat (map u64_to_le (loc_neighbors l))))))"

definition legacy_location :: "codec_env \<Rightarrow> bytes \<Rightarrow> precision \<Rightarrow> HardLocation res" where
  "legacy_location E bs p =
     (let decoded =
        (case p of
           PF64 \<Rightarrow> ce_loc64 E bs
         | PF32 \<Rightarrow>
             (case ce_loc32 E bs of
                Inl e \<Rightarrow> Inl e
              | Inr c \<Rightarrow>
                  Inr \<lparr>loc_id = lcl_id c, loc_address = map f64_of_f32 (lcl_address c),
                       loc_counter = map f64_of_f32 (lcl_counter c),
                       loc_write_count = lcl_write_count c, loc_neighbors = lcl_neighbors c,
                       loc_surprise_mass = lcl_surprise_mass c\<rparr>))
      in case decoded of
           Inl e \<Rightarrow> corrupt (Fmt ''legacy location: {}'' [S e])
         | Inr l \<Rightarrow>
             if length (loc_address l) \<noteq> length (loc_counter l)
             then corrupt (Fmt ''legacy location: address has {} values, counter {}''
                    [N (int (length (loc_address l))), N (int (length (loc_counter l)))])
             else Ok l)"

definition decode_location :: "codec_env \<Rightarrow> bytes \<Rightarrow> precision \<Rightarrow> HardLocation res" where
  "decode_location E bs legacy =
     rbind (format bs) (\<lambda>f. case f of
       Legacy \<Rightarrow> legacy_location E bs legacy
     | Enveloped _ _ _ \<Rightarrow>
         rbind (open_env E bs [KIND_LOCATION, KIND_PLAIN_LOCATION]) (\<lambda>(kind, p, payload).
         rbind (rd_u64 payload) (\<lambda>(i, r).
         rbind (rd_u32 r) (\<lambda>(d, r).
         rbind (rd_floats (unat d) p r) (\<lambda>(address, r).
         rbind (if kind = KIND_PLAIN_LOCATION then Ok (address, r) else rd_floats (unat d) p r) (\<lambda>(counter, r).
         rbind (rd_f64 r) (\<lambda>(write_count, r).
         rbind (rd_f64 r) (\<lambda>(surprise_mass, r).
         rbind (rd_u32 r) (\<lambda>(n, r).
         rbind (rd_u64s (unat n) r) (\<lambda>(neighbors, r).
         rbind (rd_finish r) (\<lambda>_.
         Ok \<lparr>loc_id = i, loc_address = address, loc_counter = counter,
             loc_write_count = write_count, loc_neighbors = neighbors,
             loc_surprise_mass = surprise_mass\<rparr>)))))))))))"

section \<open>Documents\<close>

definition encode_document :: "codec_env \<Rightarrow> f64 list \<Rightarrow> bytes \<Rightarrow> precision \<Rightarrow> bytes res" where
  "encode_document E vector metadata p =
     rbind (len_u32 (length vector)) (\<lambda>d.
     rbind (len_u32 (length metadata)) (\<lambda>m.
     envelope E KIND_DOCUMENT p
       (u32_to_le d @ put_floats vector p @ u32_to_le m @ metadata)))"

definition encode_document_ref :: "codec_env \<Rightarrow> u64 \<Rightarrow> bytes \<Rightarrow> precision \<Rightarrow> bytes res" where
  "encode_document_ref E location_id metadata p =
     rbind (len_u32 (length metadata)) (\<lambda>m.
     envelope E KIND_DOCUMENT_REF p (u64_to_le location_id @ u32_to_le m @ metadata))"

definition legacy_document :: "codec_env \<Rightarrow> bytes \<Rightarrow> precision \<Rightarrow> (f64 list \<times> bytes) res" where
  "legacy_document E bs p =
     (let decoded =
        (case p of
           PF64 \<Rightarrow> ce_doc64 E bs
         | PF32 \<Rightarrow>
             (case ce_doc32 E bs of Inl e \<Rightarrow> Inl e | Inr (v, m) \<Rightarrow> Inr (map f64_of_f32 v, m)))
      in case decoded of
           Inl e \<Rightarrow> corrupt (Fmt ''legacy document: {}'' [S e])
         | Inr x \<Rightarrow> Ok x)"

definition decode_document_parts :: "codec_env \<Rightarrow> bytes \<Rightarrow> precision \<Rightarrow> (DocVector \<times> bytes) res" where
  "decode_document_parts E bs legacy =
     rbind (format bs) (\<lambda>f. case f of
       Legacy \<Rightarrow>
         rbind (legacy_document E bs legacy) (\<lambda>(vector, metadata). Ok (Inline vector, metadata))
     | Enveloped _ _ _ \<Rightarrow>
         rbind (open_env E bs [KIND_DOCUMENT, KIND_DOCUMENT_REF]) (\<lambda>(kind, p, payload).
         rbind (if kind = KIND_DOCUMENT_REF
                then rbind (rd_u64 payload) (\<lambda>(i, r). Ok (DocLocation i, r))
                else rbind (rd_u32 payload) (\<lambda>(d, r).
                     rbind (rd_floats (unat d) p r) (\<lambda>(v, r). Ok (Inline v, r)))) (\<lambda>(vector, r).
         rbind (rd_u32 r) (\<lambda>(m, r).
         rbind (rd_bytes (unat m) r) (\<lambda>(metadata, r).
         rbind (rd_finish r) (\<lambda>_. Ok (vector, metadata)))))))"

definition decode_document :: "codec_env \<Rightarrow> bytes \<Rightarrow> precision \<Rightarrow> (f64 list \<times> bytes) res" where
  "decode_document E bs legacy =
     rbind (decode_document_parts E bs legacy) (\<lambda>x. case x of
       (Inline vector, metadata) \<Rightarrow> Ok (vector, metadata)
     | (DocLocation i, _) \<Rightarrow>
         Err (Serialization (Fmt ''document refers to location {} for its vector; resolve it through its collection''
                [N (uint i)])))"

text \<open>For evaluation: bounds on machine sizes compare integers.\<close>

lemma len_u32_code [code]: "len_u32 n = (if int n < 2 ^ 32 then Ok (of_nat n) else Inl Panic)"
  by (simp add: len_u32_def)

lemma checked_mul_code [code]:
  "checked_mul n w m = (if int n * int w < 2 ^ 64 then Ok (n * w) else corrupt m)"
proof -
  have "int n * int w < 2 ^ 64 \<longleftrightarrow> n * w < 2 ^ 64" by (simp flip: of_nat_mult)
  then show ?thesis by (simp add: checked_mul_def)
qed

section \<open>Reading back what was written\<close>

definition round_float :: "precision \<Rightarrow> f64 \<Rightarrow> f64" where
  "round_float p x = (case p of PF64 \<Rightarrow> x | PF32 \<Rightarrow> f64_of_f32 (f32_of_f64 x))"

text \<open>What a store of precision \<open>p\<close> keeps of a location and of a vector.\<close>

definition stored_vector :: "precision \<Rightarrow> f64 list \<Rightarrow> f64 list" where
  "stored_vector p v = map (round_float p) v"

definition stored_location :: "precision \<Rightarrow> HardLocation \<Rightarrow> HardLocation" where
  "stored_location p l =
     l\<lparr>loc_address := stored_vector p (loc_address l),
       loc_counter := stored_vector p (if vec_feq (loc_counter l) (loc_address l)
                                       then loc_address l else loc_counter l)\<rparr>"

text \<open>Behind their guards the reads are in range.\<close>

lemma rd_bytes_eq:
  "rd_bytes n bs = (if n > length bs then corrupt (msg ''payload is truncated'') else Ok (take n bs, drop n bs))"
  by (simp add: rd_bytes_def split_at_def)

lemma rd_word_eq:
  "rd_u32 bs = rbind (rd_bytes 4 bs) (\<lambda>(h, r). Ok (u32_of_le h, r))"
  "rd_u64 bs = rbind (rd_bytes 8 bs) (\<lambda>(h, r). Ok (u64_of_le h, r))"
  "rd_f64 bs = rbind (rd_bytes 8 bs) (\<lambda>(h, r). Ok (F64 (u64_of_le h), r))"
  by (simp_all add: rd_u32_def rd_u64_def rd_f64_def rd_bytes_eq exactly_def)

lemma format_eq:
  "format bs =
     (if length bs < 4 \<or> take 4 bs \<noteq> MAGIC then Ok Legacy
      else if length bs < HEADER_LEN then corrupt (msg ''record header is truncated'')
      else rbind (precision_from (bs ! 6)) (\<lambda>p. Ok (Enveloped (bs ! 4) (bs ! 5) p)))"
  by (auto simp: format_def slice_def byte_at_def HEADER_LEN_def)

lemma rd_bytes_append [simp]: "length h = n \<Longrightarrow> rd_bytes n (h @ r) = Ok (h, r)"
  by (simp add: rd_bytes_eq)

lemma rd_u32_append [simp]: "rd_u32 (u32_to_le w @ r) = Ok (w, r)"
  by (simp add: rd_word_eq)

lemma rd_u64_append [simp]: "rd_u64 (u64_to_le w @ r) = Ok (w, r)"
  by (simp add: rd_word_eq)

lemma rd_f64_append [simp]: "rd_f64 (u64_to_le (f64_bits x) @ r) = Ok (x, r)"
  by (simp add: rd_word_eq)

lemma chunks_concat: "0 < k \<Longrightarrow> \<forall>r\<in>set rs. length r = k \<Longrightarrow> chunks k (concat rs) = rs"
  using rows_of_concat [of k rs "\<lambda>x. x"] by (simp add: chunks_def)

lemma length_put_floats [simp]: "length (put_floats v p) = length v * width p"
  by (auto simp: put_floats_def width_def length_concat o_def sum_list_triv mult.commute
      split: precision.splits)

lemma rd_floats_put [simp]:
  assumes "length v < 2 ^ 32"
  shows "rd_floats (length v) p (put_floats v p @ r) = Ok (stored_vector p v, r)"
proof -
  have "length v * width p < 2 ^ 64"
    using assms by (auto simp: width_def split: precision.splits)
  moreover have "chunks 8 (concat (map (\<lambda>x. u64_to_le (f64_bits x)) v)) = map (\<lambda>x. u64_to_le (f64_bits x)) v"
    "chunks 4 (concat (map (\<lambda>x. u32_to_le (f32_bits (f32_of_f64 x))) v)) =
       map (\<lambda>x. u32_to_le (f32_bits (f32_of_f64 x))) v"
    by (rule chunks_concat; simp)+
  ultimately show ?thesis
    by (cases p) (simp_all add: rd_floats_def checked_mul_def stored_vector_def
        round_float_def [abs_def] put_floats_def [of _ PF64] put_floats_def [of _ PF32] o_def
        del: length_put_floats flip: length_put_floats [of v])
qed

lemma rd_u64s_put [simp]:
  assumes "length v < 2 ^ 32"
  shows "rd_u64s (length v) (concat (map u64_to_le v) @ r) = Ok (v, r)"
proof -
  have "chunks 8 (concat (map u64_to_le v)) = map u64_to_le v"
    by (rule chunks_concat) simp_all
  then show ?thesis
    using assms by (simp add: rd_u64s_def checked_mul_def length_concat o_def sum_list_triv)
qed

lemma len_u32_Inr: "len_u32 n = Inr w \<longleftrightarrow> n < 2 ^ 32 \<and> w = of_nat n"
  by (auto simp: len_u32_def)

lemma unat_len: "n < 2 ^ 32 \<Longrightarrow> unat (of_nat n :: u32) = n"
  by (simp add: unat_of_nat)

lemma precision_from_byte [simp]: "precision_from (precision_byte p) = Ok p"
  by (cases p) (simp_all add: precision_from_def precision_byte_def)

lemma envelope_bytes:
  "envelope E kind p payload = Inr bs \<longleftrightarrow>
     length payload < 2 ^ 32 \<and>
     bs = MAGIC @ [RECORD_VERSION, kind, precision_byte p, 0] @ u32_to_le (of_nat (length payload)) @
          u32_to_le (ce_crc32 E payload) @ payload"
  by (auto simp: envelope_def rbind_eq_Inr len_u32_Inr)

lemma format_header:
  "length c = 4 \<Longrightarrow> length l = 4 \<Longrightarrow>
   format (MAGIC @ [v, kind, precision_byte p, z] @ l @ c @ payload) = Ok (Enveloped v kind p)"
  by (simp add: format_eq codec_defs)

lemma slice_header:
  assumes "length l = 4" "length c = 4"
  shows "slice (MAGIC @ [v, kind, b, z] @ l @ c @ payload) 8 12 = Ok l"
    and "slice (MAGIC @ [v, kind, b, z] @ l @ c @ payload) 12 16 = Ok c"
    and "slice (MAGIC @ [v, kind, b, z] @ l @ c @ payload) HEADER_LEN
           (length (MAGIC @ [v, kind, b, z] @ l @ c @ payload)) = Ok payload"
  using assms by (auto simp: slice_def codec_defs)

lemma open_header:
  assumes "length l = 4" "length c = 4" "kind \<in> set kinds"
  shows "open_env E (MAGIC @ [RECORD_VERSION, kind, precision_byte p, 0] @ l @ c @ payload) kinds =
     (if length payload \<noteq> unat (u32_of_le l)
      then corrupt (Fmt ''payload is {} bytes, header says {}''
             [N (int (length payload)), N (int (unat (u32_of_le l)))])
      else if ce_crc32 E payload \<noteq> u32_of_le c then corrupt (msg ''checksum mismatch'')
      else Ok (kind, p, payload))"
proof -
  let ?bs = "MAGIC @ [RECORD_VERSION, kind, precision_byte p, 0] @ l @ c @ payload"
  have "byte_at ?bs 4 = Ok RECORD_VERSION" "byte_at ?bs 5 = Ok kind"
    "byte_at ?bs 6 = Ok (precision_byte p)"
    by (simp_all add: byte_at_def codec_defs)
  moreover have "RECORD_VERSION \<noteq> 0" by (simp add: codec_defs)
  ultimately show ?thesis
    unfolding open_env_def using slice_header [OF assms(1,2)] assms by (simp add: Let_def exactly_def)
qed

lemma open_envelope:
  "envelope E kind p payload = Inr bs \<Longrightarrow> kind \<in> set kinds \<Longrightarrow>
   open_env E bs kinds = Ok (kind, p, payload)"
  unfolding envelope_bytes by (elim conjE) (simp only: open_header length_u32_to_le, simp add: unat_len)

lemma format_envelope:
  "envelope E kind p payload = Inr bs \<Longrightarrow> format bs = Ok (Enveloped RECORD_VERSION kind p)"
  unfolding envelope_bytes using format_header by auto

lemma decode_encode_location:
  assumes "encode_location E l p = Inr bs" "length (loc_counter l) = length (loc_address l)"
  shows "decode_location E bs q = Ok (stored_location p l)"
proof -
  let ?plain = "vec_feq (loc_counter l) (loc_address l)"
  let ?kind = "if ?plain then KIND_PLAIN_LOCATION else KIND_LOCATION"
  let ?payload = "u64_to_le (loc_id l) @ u32_to_le (of_nat (length (loc_address l))) @
         put_floats (loc_address l) p @ (if ?plain then [] else put_floats (loc_counter l) p) @
         u64_to_le (f64_bits (loc_write_count l)) @ u64_to_le (f64_bits (loc_surprise_mass l)) @
         u32_to_le (of_nat (length (loc_neighbors l))) @ concat (map u64_to_le (loc_neighbors l))"
  have len: "length (loc_address l) < 2 ^ 32" "length (loc_neighbors l) < 2 ^ 32"
    and env: "envelope E ?kind p ?payload = Inr bs"
    using assms(1) by (auto simp: encode_location_def Let_def rbind_eq_Inr len_u32_Inr)
  have o: "open_env E bs [KIND_LOCATION, KIND_PLAIN_LOCATION] = Ok (?kind, p, ?payload)"
    by (rule open_envelope [OF env]) simp
  have kinds: "KIND_LOCATION \<noteq> KIND_PLAIN_LOCATION" by (simp add: codec_defs)
  have fl: "rd_floats (length (loc_address l)) p (put_floats (loc_counter l) p @ r) =
      Ok (stored_vector p (loc_counter l), r)" for r
    using rd_floats_put [of "loc_counter l" p r] assms(2) len by simp
  have u: "rd_u64s (length (loc_neighbors l)) (concat (map u64_to_le (loc_neighbors l))) =
      Ok (loc_neighbors l, [])"
    using rd_u64s_put [OF len(2), of "[]"] by simp
  note len' = len [THEN unat_len]
  show ?thesis
    using kinds
    by (simp add: decode_location_def format_envelope [OF env] o rd_finish_def len' fl u
        rd_floats_put [OF len(1)] stored_location_def)
qed

lemma decode_encode_document:
  assumes "encode_document E v m p = Inr bs"
  shows "decode_document_parts E bs q = Ok (Inline (stored_vector p v), m)"
    and "decode_document E bs q = Ok (stored_vector p v, m)"
proof -
  let ?payload = "u32_to_le (of_nat (length v)) @ put_floats v p @ u32_to_le (of_nat (length m)) @ m"
  have len: "length v < 2 ^ 32" "length m < 2 ^ 32" and env: "envelope E KIND_DOCUMENT p ?payload = Inr bs"
    using assms by (auto simp: encode_document_def rbind_eq_Inr len_u32_Inr)
  have o: "open_env E bs [KIND_DOCUMENT, KIND_DOCUMENT_REF] = Ok (KIND_DOCUMENT, p, ?payload)"
    by (rule open_envelope [OF env]) simp
  note len' = len [THEN unat_len]
  have b: "rd_bytes (length m) m = Ok (m, [])" using rd_bytes_append [of m "length m" "[]"] by simp
  have kinds: "KIND_DOCUMENT \<noteq> KIND_DOCUMENT_REF" by (simp add: codec_defs)
  show parts: "decode_document_parts E bs q = Ok (Inline (stored_vector p v), m)"
    using kinds
    by (simp add: decode_document_parts_def format_envelope [OF env] o len' b
        rd_floats_put [OF len(1)] rd_finish_def)
  show "decode_document E bs q = Ok (stored_vector p v, m)"
    by (simp add: decode_document_def parts)
qed

lemma decode_encode_document_ref:
  assumes "encode_document_ref E i m p = Inr bs"
  shows "decode_document_parts E bs q = Ok (DocLocation i, m)"
proof -
  let ?payload = "u64_to_le i @ u32_to_le (of_nat (length m)) @ m"
  have len: "length m < 2 ^ 32" and env: "envelope E KIND_DOCUMENT_REF p ?payload = Inr bs"
    using assms by (auto simp: encode_document_ref_def rbind_eq_Inr len_u32_Inr)
  have o: "open_env E bs [KIND_DOCUMENT, KIND_DOCUMENT_REF] = Ok (KIND_DOCUMENT_REF, p, ?payload)"
    by (rule open_envelope [OF env]) simp
  have b: "rd_bytes (length m) m = Ok (m, [])" using rd_bytes_append [of m "length m" "[]"] by simp
  show ?thesis
    by (simp add: decode_document_parts_def format_envelope [OF env] o unat_len [OF len] b rd_finish_def)
qed

section \<open>Damaged and foreign bytes\<close>

lemma no_panic_reads [no_panic]:
  "rd_bytes n bs \<noteq> Inl Panic" "rd_u32 bs \<noteq> Inl Panic" "rd_u64 bs \<noteq> Inl Panic"
  "rd_f64 bs \<noteq> Inl Panic" "rd_floats n p bs \<noteq> Inl Panic" "rd_u64s n bs \<noteq> Inl Panic"
  "rd_finish bs \<noteq> Inl Panic" "precision_from b \<noteq> Inl Panic"
  by (auto simp: rd_bytes_eq rd_word_eq rd_floats_def rd_u64s_def
      rd_finish_def checked_mul_def precision_from_def rbind_eq_Inl split: if_splits)

lemma no_panic_format [no_panic]: "format bs \<noteq> Inl Panic"
  by (auto simp: format_eq codec_defs rbind_eq_Inl precision_from_def split: if_splits)

text \<open>An enveloped value holds a whole header, so \<open>open\<close> does not index out of range.\<close>

lemma format_Enveloped:
  "format bs = Inr (Enveloped v k p) \<Longrightarrow>
   16 \<le> length bs \<and> take 4 bs = MAGIC \<and> bs ! 4 = v \<and> bs ! 5 = k \<and> precision_from (bs ! 6) = Ok p"
  by (auto simp: format_eq codec_defs rbind_eq_Inr split: if_splits)

lemma open_env_long:
  assumes "16 \<le> length bs" "kinds \<noteq> []"
  shows "open_env E bs kinds =
     (if bs ! 4 = 0 \<or> bs ! 4 > RECORD_VERSION
      then Err (UnsupportedFormat (Fmt ''record version {} (this HeatherDB reads up to {}); it was written by a newer HeatherDB''
                  [N (uint (bs ! 4)), N (uint RECORD_VERSION)]))
      else if bs ! 5 \<notin> set kinds
      then corrupt (Fmt ''expected a {} record, found kind {}'' [S (kind_name (hd kinds)), N (uint (bs ! 5))])
      else rbind (precision_from (bs ! 6)) (\<lambda>p.
      if length bs - 16 \<noteq> unat (u32_of_le (take 4 (drop 8 bs)))
      then corrupt (Fmt ''payload is {} bytes, header says {}''
             [N (int (length (drop 16 bs))), N (int (unat (u32_of_le (take 4 (drop 8 bs)))))])
      else if ce_crc32 E (drop 16 bs) \<noteq> u32_of_le (take 4 (drop 12 bs))
      then corrupt (msg ''checksum mismatch'')
      else Ok (bs ! 5, p, drop 16 bs)))"
  using assms by (simp add: open_env_def byte_at_def slice_def exactly_def HEADER_LEN_def Let_def hd_conv_nth)

lemma no_panic_open [no_panic]: "16 \<le> length bs \<Longrightarrow> kinds \<noteq> [] \<Longrightarrow> open_env E bs kinds \<noteq> Inl Panic"
  by (auto simp: open_env_long rbind_eq_Inl precision_from_def split: if_splits)

lemma no_panic_legacy [no_panic]:
  "legacy_location E bs p \<noteq> Inl Panic" "legacy_document E bs p \<noteq> Inl Panic"
  by (auto simp: legacy_location_def legacy_document_def Let_def split: sum.splits)

lemma no_panic_decode_location [no_panic]: "decode_location E bs p \<noteq> Inl Panic"
  by (auto simp: decode_location_def rbind_eq_Inl no_panic_format no_panic_reads no_panic_open
      no_panic_legacy case_prod_beta split: Format.splits if_splits dest!: format_Enveloped)

lemma no_panic_decode_document [no_panic]:
  "decode_document_parts E bs p \<noteq> Inl Panic" "decode_document E bs p \<noteq> Inl Panic"
proof -
  show parts: "decode_document_parts E bs p \<noteq> Inl Panic"
    by (auto simp: decode_document_parts_def rbind_eq_Inl no_panic_format no_panic_reads no_panic_open
        no_panic_legacy case_prod_beta split: Format.splits if_splits dest!: format_Enveloped)
  show "decode_document E bs p \<noteq> Inl Panic"
    unfolding decode_document_def
    using parts by (auto simp: rbind_eq_Inl split: DocVector.splits)
qed

text \<open>What \<open>open\<close> accepts: known version and kind, the stated length, the stated checksum.\<close>

lemma open_env_Inr:
  assumes "16 \<le> length bs" "kinds \<noteq> []" "open_env E bs kinds = Inr (k, p, payload)"
  shows "bs ! 4 = RECORD_VERSION \<and> bs ! 5 = k \<and> k \<in> set kinds \<and> payload = drop 16 bs \<and>
     length payload = unat (u32_of_le (take 4 (drop 8 bs))) \<and>
     ce_crc32 E payload = u32_of_le (take 4 (drop 12 bs))"
proof -
  have "b = 1" if "b \<noteq> 0" "\<not> 1 < b" for b :: u8
    using that by unat_arith
  then show ?thesis
    using assms by (auto simp: open_env_long rbind_eq_Inr codec_defs split: if_splits)
qed

section \<open>Properties\<close>

definition zero_codec :: codec_env where  \<comment> \<open>for the witnesses: a constant checksum\<close>
  "zero_codec = \<lparr>ce_crc32 = (\<lambda>_. 0), ce_loc64 = (\<lambda>_. Inl ''eof''), ce_loc32 = (\<lambda>_. Inl ''eof''),
                 ce_doc64 = (\<lambda>_. Inl ''eof''), ce_doc32 = (\<lambda>_. Inl ''eof'')\<rparr>"

definition sample_location :: HardLocation where
  "sample_location = \<lparr>loc_id = 7, loc_address = [1, f64_dec 1 1], loc_counter = [0, f64_dec 25 2],
     loc_write_count = 1, loc_neighbors = [3, 9], loc_surprise_mass = 0\<rparr>"

text \<open>Decoding an encoded location gives back what the store's precision keeps of it, with
  every other field bit for bit, whatever precision the reader assumes for legacy values; a
  counter equal to the address is not stored and reads back as the address.\<close>

lemma location_roundtrip:
  assumes "encode_location E l p = Inr bs" "length (loc_counter l) = length (loc_address l)"
  shows "decode_location E bs q = Ok (stored_location p l)"
  by (rule decode_encode_location [OF assms])

text \<open>Decoding an encoded document gives back its metadata and its vector at the store's
  precision.\<close>

lemma document_roundtrip:
  assumes "encode_document E v m p = Inr bs"
  shows "decode_document E bs q = Ok (stored_vector p v, m)"
  by (rule decode_encode_document(2) [OF assms])

text \<open>C38: No bytes whatsoever make a decoder panic: every index and slice of the envelope and
  the payload is in range when it is taken.\<close>

theorem decode_never_panics:
  "decode_location E bs p \<noteq> Inl Panic \<and> decode_document_parts E bs p \<noteq> Inl Panic \<and>
   decode_document E bs p \<noteq> Inl Panic"
  by (intro conjI no_panic_decode_location no_panic_decode_document)

text \<open>An enveloped location is only accepted whole and unaltered: its version is the one
  written today, its kind is a location's, and its payload has the length and the CRC-32 its
  header states.\<close>

lemma accepted_location_is_checked:
  assumes "format bs = Inr (Enveloped v k p)" "decode_location E bs q = Inr l"
  shows "v = RECORD_VERSION \<and> k \<in> {KIND_LOCATION, KIND_PLAIN_LOCATION} \<and>
     length bs = 16 + unat (u32_of_le (take 4 (drop 8 bs))) \<and>
     ce_crc32 E (drop 16 bs) = u32_of_le (take 4 (drop 12 bs))"
proof -
  have f: "16 \<le> length bs" "bs ! 4 = v" "bs ! 5 = k" using format_Enveloped [OF assms(1)] by auto
  obtain k' p' payload where "open_env E bs [KIND_LOCATION, KIND_PLAIN_LOCATION] = Inr (k', p', payload)"
    using assms by (auto simp: decode_location_def rbind_eq_Inr)
  from open_env_Inr [OF f(1) _ this] f show ?thesis by auto
qed

end
