(* ===== verification/Std.thy ===== *)
theory Std
  imports Ieee754_Facts "HOL-Library.Multiset"
begin

text \<open>
  The functions of Rust's standard library on slices that the engine relies on: the
  stable \<open>sort_by\<close>, \<open>max_by\<close> (the last of several maxima), and
  \<open>std::collections::BinaryHeap\<close> with its sifting, as the array it is.
  A comparator is given as \<open>lt x y\<close>, which is "\<open>x\<close> compares \<open>Less\<close> than \<open>y\<close>".
\<close>

section \<open>Stable sort\<close>

fun insert_by :: "('a \<Rightarrow> 'a \<Rightarrow> bool) \<Rightarrow> 'a \<Rightarrow> 'a list \<Rightarrow> 'a list" where
  "insert_by lt x [] = [x]"
| "insert_by lt x (y # ys) = (if lt y x then y # insert_by lt x ys else x # y # ys)"

fun sort_by :: "('a \<Rightarrow> 'a \<Rightarrow> bool) \<Rightarrow> 'a list \<Rightarrow> 'a list" where
  "sort_by lt [] = []"
| "sort_by lt (x # xs) = insert_by lt x (sort_by lt xs)"

lemma mset_insert_by [simp]: "mset (insert_by lt x ys) = add_mset x (mset ys)"
  by (induction ys) auto

lemma mset_sort_by [simp]: "mset (sort_by lt xs) = mset xs"
  by (induction xs) auto

lemma set_sort_by [simp]: "set (sort_by lt xs) = set xs"
  by (metis mset_sort_by set_mset_mset)

lemma length_sort_by [simp]: "length (sort_by lt xs) = length xs"
  by (metis mset_sort_by size_mset)

lemma distinct_sort_by [simp]: "distinct (sort_by lt xs) = distinct xs"
  by (metis mset_sort_by mset_eq_imp_distinct_iff)

lemma distinct_mset_subset:
  assumes "mset xs \<subseteq># mset ys" "distinct ys"
  shows "distinct xs"
proof -
  obtain Z where "mset ys = mset xs + Z" using assms(1) by (metis mset_subset_eq_exists_conv)
  then obtain zs where "mset ys = mset (xs @ zs)" by (metis ex_mset mset_append)
  then have "distinct (xs @ zs)" using assms(2) by (metis mset_eq_imp_distinct_iff)
  then show ?thesis by simp
qed

text \<open>A strict weak order on a set: what a comparator owes \<open>sort_by\<close>.\<close>

definition weak_order_on :: "('a \<Rightarrow> 'a \<Rightarrow> bool) \<Rightarrow> 'a set \<Rightarrow> bool" where
  "weak_order_on lt A \<longleftrightarrow>
     (\<forall>x\<in>A. \<not> lt x x) \<and>
     (\<forall>x\<in>A. \<forall>y\<in>A. \<forall>z\<in>A. lt x z \<longrightarrow> lt x y \<or> lt y z)
     \<and> (\<forall>x\<in>A. \<forall>y\<in>A. lt x y \<longrightarrow> \<not> lt y x)"

lemma weak_order_on_subset: "weak_order_on lt A \<Longrightarrow> B \<subseteq> A \<Longrightarrow> weak_order_on lt B"
  unfolding weak_order_on_def by blast

lemma weak_orderD:
  assumes "weak_order_on lt A"
  shows "x \<in> A \<Longrightarrow> \<not> lt x x"
    and "lt x z \<Longrightarrow> x \<in> A \<Longrightarrow> y \<in> A \<Longrightarrow> z \<in> A \<Longrightarrow> lt x y \<or> lt y z"
    and "lt x y \<Longrightarrow> x \<in> A \<Longrightarrow> y \<in> A \<Longrightarrow> \<not> lt y x"
  using assms unfolding weak_order_on_def by blast+

lemma sorted_insert_by:
  assumes "weak_order_on lt (insert x (set ys))" "sorted_wrt (\<lambda>a b. \<not> lt b a) ys"
  shows "sorted_wrt (\<lambda>a b. \<not> lt b a) (insert_by lt x ys)"
  using assms
proof (induction ys)
  case Nil
  then show ?case by simp
next
  case (Cons y ys)
  have set: "set (insert_by lt x ys) = insert x (set ys)"
    by (metis mset_insert_by set_mset_add_mset_insert set_mset_mset)
  show ?case
  proof (cases "lt y x")
    case True
    have "weak_order_on lt (insert x (set ys))"
      by (rule weak_order_on_subset [OF Cons.prems(1)]) auto
    with Cons have "sorted_wrt (\<lambda>a b. \<not> lt b a) (insert_by lt x ys)" by simp
    moreover have "\<not> lt x y"
      using weak_orderD(3) [OF Cons.prems(1), of y x] True by simp
    ultimately show ?thesis using True Cons.prems(2) set by auto
  next
    case False
    have "\<not> lt b x" if "b \<in> set ys" for b
      using weak_orderD(2) [OF Cons.prems(1), of b x y] False that Cons.prems(2) by auto
    with False Cons.prems(2) show ?thesis by auto
  qed
qed

lemma sorted_sort_by:
  "weak_order_on lt (set xs) \<Longrightarrow> sorted_wrt (\<lambda>a b. \<not> lt b a) (sort_by lt xs)"
proof (induction xs)
  case Nil
  then show ?case by simp
next
  case (Cons x xs)
  moreover have "weak_order_on lt (set xs)"
    by (rule weak_order_on_subset [OF Cons.prems]) auto
  ultimately show ?case by (simp add: sorted_insert_by)
qed

section \<open>Maximum\<close>

text \<open>\<open>Iterator::max_by\<close>: of equal maxima the last one.\<close>

fun max_by :: "('a \<Rightarrow> 'a \<Rightarrow> bool) \<Rightarrow> 'a list \<Rightarrow> 'a option" where
  "max_by lt [] = None"
| "max_by lt (x # xs) = Some (foldl (\<lambda>a b. if lt b a then a else b) x xs)"

lemma foldl_pick_in: "foldl (\<lambda>a b. if lt b a then a else b) x xs \<in> insert x (set xs)"
  by (induction xs arbitrary: x) (auto split: if_splits)

lemma max_by_in: "max_by lt xs = Some x \<Longrightarrow> x \<in> set xs"
  using foldl_pick_in by (cases xs) fastforce+

lemma max_by_None [simp]: "max_by lt xs = None \<longleftrightarrow> xs = []"
  by (cases xs) auto

lemma foldl_pick_max:
  assumes "weak_order_on lt (insert x (set xs))" "y \<in> insert x (set xs)"
  shows "\<not> lt (foldl (\<lambda>a b. if lt b a then a else b) x xs) y"
  using assms
proof (induction xs arbitrary: x y)
  case Nil
  then show ?case by (simp add: weak_order_on_def)
next
  case (Cons b xs)
  let ?f = "\<lambda>a b. if lt b a then a else b"
  let ?m = "foldl ?f (?f x b) xs"
  have w: "weak_order_on lt (insert (?f x b) (set xs))"
    by (rule weak_order_on_subset [OF Cons.prems(1)]) auto
  have m: "\<not> lt ?m z" if "z \<in> insert (?f x b) (set xs)" for z
    using Cons.IH [OF w that] .
  have ins: "?m \<in> insert x (set (b # xs))"
    using foldl_pick_in [of lt "?f x b" xs] by auto
  consider "y \<in> insert (?f x b) (set xs)" | "y = x" "\<not> lt b x" "?f x b = b"
    | "y = b" "lt b x" "?f x b = x"
    using Cons.prems(2) by (cases "lt b x") auto
  then show ?case
  proof cases
    case 1
    then show ?thesis using m by simp
  next
    case 2
    have "\<not> lt ?m b" using m [of b] 2 by simp
    then show ?thesis
      using 2 ins weak_orderD(2) [OF Cons.prems(1), of ?m x b] by auto
  next
    case 3
    have "\<not> lt ?m x" using m [of x] 3 by simp
    then show ?thesis
      using 3 ins weak_orderD(2) [OF Cons.prems(1), of ?m b x] weak_orderD(3) [OF Cons.prems(1), of b x]
      by auto
  qed
qed

lemma max_by_max:
  "weak_order_on lt (set xs) \<Longrightarrow> max_by lt xs = Some m \<Longrightarrow> y \<in> set xs \<Longrightarrow> \<not> lt m y"
  using foldl_pick_max by (cases xs) fastforce+

end
