(* ===== verification/Binary_Heap.thy ===== *)
theory Binary_Heap
  imports Std
begin

text \<open>
  \<open>std::collections::BinaryHeap\<close> as the array it is: \<open>push\<close> sifts the new element up,
  \<open>pop\<close> moves the last element to the root, sifts it to the bottom and then up, and
  iterating gives the array. The heap is a max-heap for \<open>lt\<close>. The contract a user of
  a priority queue relies on is the locale \<open>priority_queue\<close>; its theorem is that the
  bounded selection loop of the engine keeps a top-\<open>k\<close> selection.
\<close>

section \<open>The array algorithms\<close>

definition swap_at :: "'a list \<Rightarrow> nat \<Rightarrow> nat \<Rightarrow> 'a list" where
  "swap_at xs i j = xs[i := xs ! j, j := xs ! i]"

definition heap_parent :: "nat \<Rightarrow> nat" where
  "heap_parent i = (i - 1) div 2"

lemma heap_parent_less [termination_simp]: "0 < i \<Longrightarrow> heap_parent i < i"
  by (simp add: heap_parent_def)

function sift_up :: "('a \<Rightarrow> 'a \<Rightarrow> bool) \<Rightarrow> 'a list \<Rightarrow> nat \<Rightarrow> 'a list" where
  "sift_up lt xs i =
     (if i = 0 then xs
      else if \<not> lt (xs ! heap_parent i) (xs ! i) then xs
      else sift_up lt (swap_at xs i (heap_parent i)) (heap_parent i))"
  by pat_completeness auto
termination
  by (relation "measure (\<lambda>(lt, xs, i). i)") (auto simp: heap_parent_less)

function sift_to_bottom :: "('a \<Rightarrow> 'a \<Rightarrow> bool) \<Rightarrow> 'a list \<Rightarrow> nat \<Rightarrow> 'a list \<times> nat" where
  "sift_to_bottom lt xs i =
     (let c = 2 * i + 1
      in if c + 1 < length xs
         then let c' = (if \<not> lt (xs ! (c + 1)) (xs ! c) then c + 1 else c)
              in sift_to_bottom lt (swap_at xs i c') c'
         else if c + 1 = length xs then (swap_at xs i c, c) else (xs, i))"
  by pat_completeness auto
termination
  by (relation "measure (\<lambda>(lt, xs, i). length xs - i)") (auto simp: swap_at_def)

declare sift_up.simps [simp del] sift_to_bottom.simps [simp del]

definition heap_push :: "('a \<Rightarrow> 'a \<Rightarrow> bool) \<Rightarrow> 'a \<Rightarrow> 'a list \<Rightarrow> 'a list" where
  "heap_push lt x h = sift_up lt (h @ [x]) (length h)"

definition heap_peek :: "'a list \<Rightarrow> 'a option" where
  "heap_peek h = (case h of [] \<Rightarrow> None | x # _ \<Rightarrow> Some x)"

definition heap_pop :: "('a \<Rightarrow> 'a \<Rightarrow> bool) \<Rightarrow> 'a list \<Rightarrow> 'a option \<times> 'a list" where
  "heap_pop lt h =
     (if h = [] then (None, [])
      else let l = last h; r = butlast h
           in if r = [] then (Some l, [])
              else (Some (hd r),
                    (let (a, i) = sift_to_bottom lt (r[0 := l]) 0 in sift_up lt a i)))"

section \<open>Correctness of the array algorithms\<close>

lemma length_swap_at [simp]: "length (swap_at xs i j) = length xs"
  by (simp add: swap_at_def)

lemma mset_swap_at [simp]: "i < length xs \<Longrightarrow> j < length xs \<Longrightarrow> mset (swap_at xs i j) = mset xs"
  by (simp add: swap_at_def mset_swap)

lemma set_swap_at [simp]: "i < length xs \<Longrightarrow> j < length xs \<Longrightarrow> set (swap_at xs i j) = set xs"
  by (metis mset_swap_at set_mset_mset)

lemma nth_swap_at:
  "i < length xs \<Longrightarrow> j < length xs \<Longrightarrow>
   swap_at xs i j ! n = (if n = j then xs ! i else if n = i then xs ! j else xs ! n)"
  by (auto simp: swap_at_def nth_list_update)

lemma mset_sift_up [simp]: "i < length xs \<Longrightarrow> mset (sift_up lt xs i) = mset xs"
proof (induction lt xs i rule: sift_up.induct)
  case (1 lt xs i)
  then show ?case
    using heap_parent_less [of i] by (subst sift_up.simps) (auto simp del: mset_swap_at simp: mset_swap_at)
qed

lemma mset_sift_to_bottom:
  "i < length xs \<Longrightarrow>
   mset (fst (sift_to_bottom lt xs i)) = mset xs \<and>
   snd (sift_to_bottom lt xs i) < length xs"
proof (induction lt xs i rule: sift_to_bottom.induct)
  case (1 lt xs i)
  then show ?case by (subst (1 2) sift_to_bottom.simps) (auto simp: Let_def)
qed

lemma mset_heap_push [simp]: "mset (heap_push lt x h) = add_mset x (mset h)"
  by (simp add: heap_push_def)

lemma mset_butlast_last: "xs \<noteq> [] \<Longrightarrow> mset xs = add_mset (last xs) (mset (butlast xs))"
  by (metis append_butlast_last_id mset_append mset.simps add_mset_add_single)

lemma heap_pop_mset:
  "h \<noteq> [] \<Longrightarrow> heap_pop lt h = (r, h') \<Longrightarrow>
   r = Some (hd h) \<and> mset h = add_mset (hd h) (mset h')"
proof -
  assume h: "h \<noteq> []" and p: "heap_pop lt h = (r, h')"
  show ?thesis
  proof (cases "butlast h = []")
    case True
    with h p show ?thesis by (cases h) (auto simp: heap_pop_def split: if_splits)
  next
    case False
    obtain x ys where b: "butlast h = x # ys" using False by (cases "butlast h") auto
    have hd: "hd h = x" using b h by (cases h) (auto split: if_splits)
    let ?a = "sift_to_bottom lt (last h # ys) 0"
    have r: "h' = sift_up lt (fst ?a) (snd ?a)" "r = Some x"
      using p h b by (simp_all add: heap_pop_def Let_def case_prod_beta)
    have m: "mset (fst ?a) = mset (last h # ys)" "snd ?a < length (last h # ys)"
      using mset_sift_to_bottom [of 0 "last h # ys" lt] by simp_all
    then have "length (fst ?a) = length (last h # ys)" by (metis mset_eq_length)
    then have "mset h' = mset (last h # ys)" using m r by simp
    then show ?thesis
      using mset_butlast_last [OF h] b hd r by simp
  qed
qed

definition is_heap :: "('a \<Rightarrow> 'a \<Rightarrow> bool) \<Rightarrow> 'a list \<Rightarrow> bool" where
  "is_heap lt xs \<longleftrightarrow> (\<forall>i<length xs. 0 < i \<longrightarrow> \<not> lt (xs ! heap_parent i) (xs ! i))"

text \<open>A heap but for the element at \<open>i\<close>, which may exceed its heap_parent.\<close>

definition heap_but_up :: "('a \<Rightarrow> 'a \<Rightarrow> bool) \<Rightarrow> 'a list \<Rightarrow> nat \<Rightarrow> bool" where
  "heap_but_up lt xs i \<longleftrightarrow>
     (\<forall>j<length xs. 0 < j \<longrightarrow> j \<noteq> i \<longrightarrow> \<not> lt (xs ! heap_parent j) (xs ! j)) \<and>
     (\<forall>j<length xs. 0 < j \<longrightarrow> heap_parent j = i \<longrightarrow> 0 < i \<longrightarrow> \<not> lt (xs ! heap_parent i) (xs ! j))"

text \<open>A heap but for the element at \<open>i\<close>, in either direction.\<close>

definition heap_but :: "('a \<Rightarrow> 'a \<Rightarrow> bool) \<Rightarrow> 'a list \<Rightarrow> nat \<Rightarrow> bool" where
  "heap_but lt xs i \<longleftrightarrow>
     (\<forall>j<length xs. 0 < j \<longrightarrow> j \<noteq> i \<longrightarrow> heap_parent j \<noteq> i \<longrightarrow> \<not> lt (xs ! heap_parent j) (xs ! j)) \<and>
     (\<forall>j<length xs. 0 < j \<longrightarrow> heap_parent j = i \<longrightarrow> 0 < i \<longrightarrow> \<not> lt (xs ! heap_parent i) (xs ! j))"

lemma not_less_trans:
  "weak_order_on lt A \<Longrightarrow> x \<in> A \<Longrightarrow> y \<in> A \<Longrightarrow> z \<in> A \<Longrightarrow> \<not> lt x y \<Longrightarrow> \<not> lt y z \<Longrightarrow> \<not> lt x z"
  unfolding weak_order_on_def by blast


lemma is_heapD: "is_heap lt xs \<Longrightarrow> i < length xs \<Longrightarrow> 0 < i \<Longrightarrow> \<not> lt (xs ! heap_parent i) (xs ! i)"
  by (simp add: is_heap_def)

lemma sift_up_heap:
  "weak_order_on lt (set xs) \<Longrightarrow> i < length xs \<Longrightarrow> heap_but_up lt xs i \<Longrightarrow> is_heap lt (sift_up lt xs i)"
proof (induction lt xs i rule: sift_up.induct)
  case (1 lt xs i)
  let ?p = "heap_parent i"
  show ?case
  proof (cases "i = 0 \<or> \<not> lt (xs ! ?p) (xs ! i)")
    case True
    then have "is_heap lt xs"
      using "1.prems"(3) unfolding is_heap_def heap_but_up_def by blast
    with True show ?thesis by (subst sift_up.simps) auto
  next
    case False
    then have i: "0 < i" "lt (xs ! ?p) (xs ! i)" by auto
    have p: "?p < i" "?p < length xs" using heap_parent_less [OF i(1)] "1.prems"(2) by auto
    have asym: "\<not> lt (xs ! i) (xs ! ?p)"
      using weak_orderD(3) [OF "1.prems"(1) i(2)] p "1.prems"(2) by simp
    let ?ys = "swap_at xs i ?p"
    note nth = nth_swap_at [OF "1.prems"(2) p(2)]
    have but1: "\<not> lt (?ys ! heap_parent j) (?ys ! j)" if j: "j < length xs" "0 < j" "j \<noteq> ?p" for j
    proof (cases "j = i")
      case True
      then show ?thesis using asym p by (simp add: nth)
    next
      case ji: False
      have hj: "\<not> lt (xs ! heap_parent j) (xs ! j)"
        using "1.prems"(3) j ji unfolding heap_but_up_def by metis
      show ?thesis
      proof (cases "heap_parent j = i")
        case True
        then have "\<not> lt (xs ! ?p) (xs ! j)"
          using "1.prems"(3) j i unfolding heap_but_up_def by metis
        then show ?thesis using True ji j p by (simp add: nth)
      next
        case pj: False
        have t: "\<not> lt (xs ! i) (xs ! j)" if "\<not> lt (xs ! ?p) (xs ! j)"
          using not_less_trans [OF "1.prems"(1) _ _ _ asym that] p "1.prems"(2) j by simp
        show ?thesis using hj ji j pj t by (auto simp: nth)
      qed
    qed
    have up: "\<not> lt (xs ! heap_parent ?p) (xs ! ?p)" if "0 < ?p"
      using "1.prems"(3) p that unfolding heap_but_up_def by (metis nat_neq_iff)
    have but2: "\<not> lt (?ys ! heap_parent ?p) (?ys ! j)"
      if j: "j < length xs" "0 < j" "heap_parent j = ?p" "0 < ?p" for j
    proof -
      have pp: "heap_parent ?p < ?p" using heap_parent_less j(4) .
      have jp: "j \<noteq> ?p" using heap_parent_less [OF j(2)] j(3) by auto
      have hj: "\<not> lt (xs ! ?p) (xs ! j)" if "j \<noteq> i"
        using "1.prems"(3) j that unfolding heap_but_up_def by metis
      have "\<not> lt (xs ! heap_parent ?p) (xs ! j)" if "j \<noteq> i"
        using not_less_trans [OF "1.prems"(1) _ _ _ up hj] j that pp p by simp
      then show ?thesis using up j pp p jp by (auto simp: nth)
    qed
    have "heap_but_up lt ?ys ?p"
      unfolding heap_but_up_def using but1 but2 by simp
    then have "is_heap lt (sift_up lt ?ys ?p)"
      using "1.IH" False i p "1.prems" by simp
    then show ?thesis using False by (subst sift_up.simps) simp
  qed
qed

lemma heap_push_heap:
  assumes "weak_order_on lt (insert x (set h))" "is_heap lt h"
  shows "is_heap lt (heap_push lt x h)"
proof -
  have np: "heap_parent j \<noteq> length h" if "j < Suc (length h)" "0 < j" for j
    using that heap_parent_less [of j] by auto
  have "\<not> lt ((h @ [x]) ! heap_parent j) ((h @ [x]) ! j)" if "j < length h" "0 < j" for j
    using is_heapD [OF assms(2) that] that heap_parent_less [of j] by (simp add: nth_append)
  then have "heap_but_up lt (h @ [x]) (length h)"
    using np by (auto simp: heap_but_up_def less_Suc_eq)
  then show ?thesis using assms(1) by (auto simp: heap_push_def intro!: sift_up_heap)
qed

lemma heap_parent_children: "0 < j \<Longrightarrow> heap_parent j = i \<longleftrightarrow> j = 2 * i + 1 \<or> j = 2 * i + 2"
  by (auto simp: heap_parent_def)

lemma swap_down_heap_but:
  assumes "weak_order_on lt (set xs)" "heap_but lt xs i" "0 < c" "heap_parent c = i" "c < length xs"
    and big: "\<And>j. j < length xs \<Longrightarrow> 0 < j \<Longrightarrow> heap_parent j = i \<Longrightarrow> \<not> lt (xs ! c) (xs ! j)"
  shows "heap_but lt (swap_at xs i c) c"
proof -
  have ic: "i < c" using heap_parent_less assms by auto
  then have il: "i < length xs" using assms by simp
  note nth = nth_swap_at [OF il assms(5)]
  have a: "\<not> lt (swap_at xs i c ! heap_parent j) (swap_at xs i c ! j)"
    if j: "j < length xs" "0 < j" "j \<noteq> c" "heap_parent j \<noteq> c" for j
  proof (cases "heap_parent j = i")
    case True
    then show ?thesis using big j by (simp add: nth) (metis heap_parent_less nat_less_le)
  next
    case False
    have "\<not> lt (xs ! heap_parent j) (xs ! j)" if "j \<noteq> i"
      using assms(2) j False that unfolding heap_but_def by metis
    moreover have "\<not> lt (xs ! heap_parent i) (xs ! c)" if "j = i"
      using assms that j unfolding heap_but_def by metis
    moreover have "heap_parent i \<noteq> c" using ic heap_parent_less [of i] by (cases "i = 0") (auto simp: heap_parent_def)
    ultimately show ?thesis using False j by (auto simp: nth)
  qed
  have b: "\<not> lt (swap_at xs i c ! heap_parent c) (swap_at xs i c ! j)"
    if j: "j < length xs" "0 < j" "heap_parent j = c" for j
  proof -
    have cj: "c < j" using heap_parent_less j by auto
    have "\<not> lt (xs ! heap_parent j) (xs ! j)"
      using assms(2) j cj ic unfolding heap_but_def by (metis nat_neq_iff order_less_trans)
    then show ?thesis using j cj ic assms(4) by (simp add: nth)
  qed
  show ?thesis unfolding heap_but_def using a b by simp
qed

lemma sift_to_bottom_heap:
  "weak_order_on lt (set xs) \<Longrightarrow> heap_but lt xs i \<Longrightarrow> i < length xs \<Longrightarrow>
   heap_but_up lt (fst (sift_to_bottom lt xs i)) (snd (sift_to_bottom lt xs i))"
proof (induction lt xs i rule: sift_to_bottom.induct)
  case (1 lt xs i)
  let ?c = "2 * i + 1"
  consider (two) "?c + 1 < length xs" | (one) "?c + 1 = length xs" | (none) "length xs < ?c + 1"
    by linarith
  then show ?case
  proof cases
    case two
    define c' where "c' = (if \<not> lt (xs ! (?c + 1)) (xs ! ?c) then ?c + 1 else ?c)"
    have c': "0 < c'" "heap_parent c' = i" "c' < length xs"
      using two by (auto simp: c'_def heap_parent_def)
    have "\<not> lt (xs ! c') (xs ! j)" if "j < length xs" "0 < j" "heap_parent j = i" for j
      using that two weak_orderD(1,3) [OF "1.prems"(1)]
      by (auto simp: heap_parent_children c'_def)
    then have hb: "heap_but lt (swap_at xs i c') c'"
      using swap_down_heap_but [OF "1.prems"(1,2) c'] by blast
    have set: "set (swap_at xs i c') = set xs" using c' "1.prems"(3) by simp
    have eq: "sift_to_bottom lt xs i = sift_to_bottom lt (swap_at xs i c') c'"
      using two by (subst sift_to_bottom.simps) (simp add: c'_def Let_def)
    show ?thesis
      unfolding eq using "1.IH" [OF refl two c'_def] hb "1.prems"(1) c' set by simp
  next
    case one
    have c: "0 < ?c" "heap_parent ?c = i" "?c < length xs" using one by (auto simp: heap_parent_def)
    have "\<not> lt (xs ! ?c) (xs ! j)" if "j < length xs" "0 < j" "heap_parent j = i" for j
      using that one weak_orderD(1) [OF "1.prems"(1)] by (auto simp: heap_parent_children)
    then have "heap_but lt (swap_at xs i ?c) ?c"
      using swap_down_heap_but [OF "1.prems"(1,2) c] by blast
    then have "heap_but_up lt (swap_at xs i ?c) ?c"
      using one by (auto simp: heap_but_def heap_but_up_def heap_parent_children)
    then show ?thesis using one by (subst (1 2) sift_to_bottom.simps) (simp add: Let_def)
  next
    case none
    then have "heap_but_up lt xs i"
      using "1.prems"(2) by (auto simp: heap_but_def heap_but_up_def heap_parent_children)
    then show ?thesis using none by (subst (1 2) sift_to_bottom.simps) (simp add: Let_def)
  qed
qed

lemma heap_pop_heap:
  assumes "weak_order_on lt (set h)" "is_heap lt h"
  shows "is_heap lt (snd (heap_pop lt h))"
proof (cases "h = [] \<or> butlast h = []")
  case True
  then show ?thesis by (auto simp: heap_pop_def is_heap_def Let_def)
next
  case False
  let ?xs = "(butlast h)[0 := last h]"
  let ?a = "sift_to_bottom lt ?xs 0"
  have h: "h \<noteq> []" "0 < length ?xs" using False by (simp, metis length_greater_0_conv length_list_update)
  have sub: "set ?xs \<subseteq> set h"
    using set_update_subset_insert [of "butlast h" 0 "last h"] h(1) in_set_butlastD by fastforce
  then have w: "weak_order_on lt (set ?xs)" using weak_order_on_subset assms(1) by blast
  have "\<not> lt (?xs ! heap_parent j) (?xs ! j)" if "j < length ?xs" "0 < j" "heap_parent j \<noteq> 0" for j
    using is_heapD [OF assms(2), of j] that heap_parent_less [of j] by (simp add: nth_butlast)
  then have "heap_but lt ?xs 0" by (auto simp: heap_but_def)
  then have "heap_but_up lt (fst ?a) (snd ?a)" using sift_to_bottom_heap w h by blast
  moreover have "mset (fst ?a) = mset ?xs" "snd ?a < length ?xs"
    using mset_sift_to_bottom h(2) by blast+
  ultimately have "is_heap lt (sift_up lt (fst ?a) (snd ?a))"
    using w by (intro sift_up_heap) (metis set_mset_mset, metis mset_eq_length)
  then show ?thesis using False by (simp add: heap_pop_def Let_def case_prod_beta)
qed

lemma heap_root_max:
  "weak_order_on lt (set h) \<Longrightarrow> is_heap lt h \<Longrightarrow> i < length h \<Longrightarrow> \<not> lt (h ! 0) (h ! i)"
proof (induction i rule: less_induct)
  case (less i)
  show ?case
  proof (cases "i = 0")
    case True
    then show ?thesis using weak_orderD(1) [OF less.prems(1)] less.prems(3) by simp
  next
    case False
    then have p: "heap_parent i < i" using heap_parent_less by simp
    then have a: "\<not> lt (h ! 0) (h ! heap_parent i)" using less by simp
    have b: "\<not> lt (h ! heap_parent i) (h ! i)" using is_heapD less.prems False by simp
    have "0 < length h" using less.prems(3) by linarith
    then have "h ! 0 \<in> set h" "h ! heap_parent i \<in> set h" "h ! i \<in> set h"
      using p less.prems by simp_all
    then show ?thesis using not_less_trans [OF less.prems(1)] a b by blast
  qed
qed

lemma heap_peek_max:
  assumes "weak_order_on lt A" "heap_peek h = Some m" "is_heap lt h \<and> set h \<subseteq> A"
  shows "m \<in># mset h \<and> (\<forall>y\<in>#mset h. \<not> lt m y)"
proof -
  obtain t where h: "h = m # t" using assms(2) by (cases h) (auto simp: heap_peek_def)
  have w: "weak_order_on lt (set h)" using weak_order_on_subset assms by blast
  have "\<not> lt m y" if y: "y \<in> set h" for y
  proof -
    obtain i where "i < length h" "h ! i = y" using y unfolding in_set_conv_nth by blast
    then show ?thesis using heap_root_max [OF w, of i] assms(3) h by auto
  qed
  then show ?thesis using h by simp
qed

section \<open>The priority queue contract\<close>

text \<open>
  \<open>S\<close> is a selection of \<open>k\<close> elements of \<open>M\<close> such that no rejected one compares
  \<open>Less\<close> than (is better than) a selected one.
\<close>

definition top_selection :: "('a \<Rightarrow> 'a \<Rightarrow> bool) \<Rightarrow> nat \<Rightarrow> 'a multiset \<Rightarrow> 'a multiset \<Rightarrow> bool" where
  "top_selection lt k M S \<longleftrightarrow>
     S \<subseteq># M \<and> size S = min k (size M) \<and> (\<forall>s\<in>#S. \<forall>r\<in>#M - S. \<not> lt r s)"

text \<open>The contract: a queue over the carrier \<open>A\<close> whose top is a greatest element.\<close>

locale priority_queue =
  fixes lt :: "'a \<Rightarrow> 'a \<Rightarrow> bool"
    and A :: "'a set"
    and inv :: "'h \<Rightarrow> bool"
    and items :: "'h \<Rightarrow> 'a multiset"
    and empty :: 'h
    and push :: "'a \<Rightarrow> 'h \<Rightarrow> 'h"
    and peek :: "'h \<Rightarrow> 'a option"
    and pop :: "'h \<Rightarrow> 'h"
  assumes order: "weak_order_on lt A"
    and inv_carrier: "inv h \<Longrightarrow> set_mset (items h) \<subseteq> A"
    and inv_empty: "inv empty" and items_empty: "items empty = {#}"
    and inv_push: "inv h \<Longrightarrow> x \<in> A \<Longrightarrow> inv (push x h)"
    and items_push: "items (push x h) = add_mset x (items h)"
    and peek_max: "inv h \<Longrightarrow> peek h = Some m \<Longrightarrow> m \<in># items h \<and> (\<forall>y\<in>#items h. \<not> lt m y)"
    and peek_None: "peek h = None \<longleftrightarrow> items h = {#}"
    and inv_pop: "inv h \<Longrightarrow> inv (pop h)"
    and items_pop: "peek h = Some m \<Longrightarrow> items (pop h) = items h - {#m#}"
begin

text \<open>
  One round of the selection loop: fill up to \<open>k\<close>, then replace the worst kept element
  (the top of the queue) by a better one.
\<close>

definition offer :: "nat \<Rightarrow> 'h \<Rightarrow> 'a \<Rightarrow> 'h" where
  "offer k h x =
     (if size (items h) < k then push x h
      else case peek h of
        None \<Rightarrow> h
      | Some m \<Rightarrow> if lt x m then push x (pop h) else h)"

lemma offer_inv: "inv h \<Longrightarrow> x \<in> A \<Longrightarrow> inv (offer k h x)"
  by (auto simp: offer_def inv_push inv_pop split: option.splits)

lemma offer_step:
  assumes h: "inv h" "x \<in> A" "set_mset M \<subseteq> A" and sel: "top_selection lt k M (items h)"
  shows "top_selection lt k (add_mset x M) (items (offer k h x))"
proof -
  let ?S = "items h"
  have S: "?S \<subseteq># M" "size ?S = min k (size M)" "\<And>s r. s \<in># ?S \<Longrightarrow> r \<in># M - ?S \<Longrightarrow> \<not> lt r s"
    using sel by (auto simp: top_selection_def)
  consider (fill) "size ?S < k" | (none) "k \<le> size ?S" "peek h = None"
    | (keep) m where "k \<le> size ?S" "peek h = Some m" "\<not> lt x m"
    | (swap) m where "k \<le> size ?S" "peek h = Some m" "lt x m"
    by (cases "size ?S < k"; cases "peek h"; force)
  then show ?thesis
  proof cases
    case fill
    then have "size ?S = size M" using S(2) by simp
    then have "?S = M" using S(1) by (metis mset_subset_size subset_mset.le_imp_less_or_eq less_irrefl)
    then show ?thesis using fill by (simp add: offer_def items_push top_selection_def)
  next
    case none
    then have "?S = {#}" "k = 0" using peek_None by auto
    then show ?thesis using none by (simp add: offer_def top_selection_def)
  next
    case keep
    have m: "m \<in># ?S" "\<And>y. y \<in># ?S \<Longrightarrow> \<not> lt m y" using peek_max [OF h(1) keep(2)] by auto
    have mem: "m \<in> A" "\<And>s. s \<in># ?S \<Longrightarrow> s \<in> A" using inv_carrier [OF h(1)] m by auto
    have x: "\<not> lt x s" if "s \<in># ?S" for s
      using weak_orderD(2) [OF order, of x s m] that m keep h mem by auto
    have "add_mset x M - ?S = add_mset x (M - ?S)"
      using multiset_diff_union_assoc [OF S(1), of "{#x#}"] by simp
    then show ?thesis
      using keep S x by (auto simp: offer_def top_selection_def subset_mset.le_imp_less_or_eq
          intro: subset_mset.order_trans)
  next
    case swap
    have m: "m \<in># ?S" "\<And>y. y \<in># ?S \<Longrightarrow> \<not> lt m y" using peek_max [OF h(1) swap(2)] by auto
    have mem: "m \<in> A" "\<And>s. s \<in># ?S \<Longrightarrow> s \<in> A" using inv_carrier [OF h(1)] m by auto
    have mM: "\<And>r. r \<in># M \<Longrightarrow> r \<in> A" using h by auto
    obtain S' where S': "?S = add_mset m S'" using m(1) by (metis mset_add)
    have new: "items (offer k h x) = add_mset x S'"
      using swap S' by (simp add: offer_def items_push items_pop)
    obtain R where R: "M = add_mset m S' + R" using S(1) S' by (metis mset_subset_eq_exists_conv)
    have rest: "add_mset x M - add_mset x S' = add_mset m (M - ?S)"
      unfolding R S' by simp
    have le: "\<not> lt r s" if s: "s \<in># add_mset x S'" and r: "r \<in># add_mset m (M - ?S)" for r s
    proof -
      have rA: "r \<in> A" using r mem mM by (auto dest: in_diffD)
      have rm: "\<not> lt r m" using r S(3) [OF m(1)] weak_orderD(1) [OF order] mem by auto
      have "\<not> lt r x"
        using weak_orderD(2) [OF order, of r x m] weak_orderD(2) [OF order, of x m r]
          weak_orderD(3) [OF order] swap(3) rm rA h(2) mem by blast
      moreover have "\<not> lt r s" if "s \<in># S'"
        using that r S(3) [of s r] m(2) [of s] S' by auto
      ultimately show ?thesis using s by auto
    qed
    have sub: "add_mset x S' \<subseteq># add_mset x M"
      unfolding R by simp
    have size: "size (add_mset x S') = min k (size (add_mset x M))"
      using S(2) S' swap(1) by simp
    show ?thesis unfolding top_selection_def new rest using le sub size by blast
  qed
qed

lemma offer_all:
  assumes "set xs \<subseteq> A"
  shows "inv (foldl (offer k) empty xs) \<and> top_selection lt k (mset xs) (items (foldl (offer k) empty xs))"
  using assms
proof (induction xs rule: rev_induct)
  case Nil
  then show ?case by (simp add: inv_empty items_empty top_selection_def)
next
  case (snoc x xs)
  then show ?case
    using offer_step [of "foldl (offer k) empty xs" x "mset xs" k] offer_inv by auto
qed

end

text \<open>The heap array provides the contract, for any weak order on the carrier.\<close>

lemma heap_priority_queue:
  assumes "weak_order_on lt A"
  shows "priority_queue lt A (\<lambda>h. is_heap lt h \<and> set h \<subseteq> A) mset [] (heap_push lt) heap_peek
           (\<lambda>h. snd (heap_pop lt h))"
proof
  note w = assms weak_order_on_subset [OF assms]
  show "weak_order_on lt A" by (rule assms)
  show "is_heap lt [] \<and> set [] \<subseteq> A" by (simp add: is_heap_def)
  fix h :: "'a list" and x m
  show "is_heap lt h \<and> set h \<subseteq> A \<Longrightarrow> set_mset (mset h) \<subseteq> A" by simp
  have set: "set (heap_push lt x h) = insert x (set h)"
    by (metis mset_heap_push set_mset_add_mset_insert set_mset_mset)
  show "is_heap lt h \<and> set h \<subseteq> A \<Longrightarrow> x \<in> A \<Longrightarrow>
      is_heap lt (heap_push lt x h) \<and> set (heap_push lt x h) \<subseteq> A"
    using heap_push_heap w(2) [of "insert x (set h)"] set by auto
  show "heap_peek h = Some m \<Longrightarrow> is_heap lt h \<and> set h \<subseteq> A \<Longrightarrow>
      m \<in># mset h \<and> (\<forall>y\<in>#mset h. \<not> lt m y)" for h m
    by (rule heap_peek_max [OF w(1)]) auto
  show "(heap_peek h = None) = (mset h = {#})"
    by (cases h) (auto simp: heap_peek_def)
  have pop: "mset (snd (heap_pop lt h)) = mset h - {#hd h#}"
  proof (cases "h = []")
    case True
    then show ?thesis by (simp add: heap_pop_def)
  next
    case False
    then show ?thesis
      using heap_pop_mset [OF False, of lt] by (metis add_mset_remove_trivial prod.collapse)
  qed
  then have "set (snd (heap_pop lt h)) \<subseteq> set h"
    by (metis in_diffD set_mset_mset subsetI)
  then show "is_heap lt h \<and> set h \<subseteq> A \<Longrightarrow>
      is_heap lt (snd (heap_pop lt h)) \<and> set (snd (heap_pop lt h)) \<subseteq> A"
    using heap_pop_heap w(2) [of "set h"] by auto
  show "heap_peek h = Some m \<Longrightarrow> mset (snd (heap_pop lt h)) = mset h - {#m#}"
    using pop by (cases h) (auto simp: heap_peek_def)
qed simp_all

text \<open>With an integer key, a top selection is what sorting and cutting off would keep.\<close>

lemma top_selection_keys:
  assumes "top_selection lt k M S"
    and "\<And>a b. a \<in># M \<Longrightarrow> b \<in># M \<Longrightarrow> lt a b \<longleftrightarrow> key b < (key a :: int)"
  shows "rev (sorted_list_of_multiset (image_mset key S)) =
         take k (rev (sorted_list_of_multiset (image_mset key M)))"
proof -
  have sub: "S \<subseteq># M" and size: "size S = min k (size M)"
    and le: "\<And>s r. s \<in># S \<Longrightarrow> r \<in># M - S \<Longrightarrow> \<not> lt r s"
    using assms(1) by (auto simp: top_selection_def)
  let ?s = "sorted_list_of_multiset (image_mset key S)"
  let ?r = "sorted_list_of_multiset (image_mset key (M - S))"
  have "key r \<le> key s" if "s \<in># S" "r \<in># M - S" for s r
    using le [OF that] assms(2) [of r s] that mset_subset_eqD [OF sub] by (auto dest: in_diffD)
  then have "sorted (?r @ ?s)"
    by (auto simp: sorted_append)
  moreover have "mset (?r @ ?s) = image_mset key M"
    using sub by (simp flip: image_mset_union)
  ultimately have eq: "sorted_list_of_multiset (image_mset key M) = ?r @ ?s"
    by (metis sorted_list_of_multiset_mset sorted_sort_id)
  have len: "length ?s = size S" "length ?r = size (M - S)"
    by (metis mset_sorted_list_of_multiset size_mset size_image_mset)+
  have "size (M - S) = 0" if "length ?s < k"
    using that len size size_Diff_submset [OF sub] by linarith
  then have "take k (rev ?s @ rev ?r) = rev ?s"
    using len size by (cases "length ?s < k") auto
  then show ?thesis unfolding eq by simp
qed

end
