(* ===== verification/Read.thy ===== *)
theory Read
  imports Codec Binary_Heap
begin

text \<open>
  heather_db/src/read.rs: selecting the \<open>k\<close> nearest locations with a bounded min-heap
  (over the locations, over the packed address matrix, over a candidate subset, or by
  greedy search in the neighbour graph), and the Hopfield reads on the activated set.
  The parallel and the sequential branch of \<open>activate\<close> compute the same vector of
  similarities and are one definition. Similarities that are NaN make the comparator of
  the heap and of the final sort inconsistent; the theorems on the order exclude them.
\<close>

section \<open>Top-\<open>k\<close> activation\<close>

record MinEntry =
  me_index :: nat
  me_similarity :: f64

definition min_entry_lt :: "MinEntry \<Rightarrow> MinEntry \<Rightarrow> bool" where
  "min_entry_lt a b \<longleftrightarrow> me_similarity b < me_similarity a"

definition offer_entry :: "nat \<Rightarrow> MinEntry list \<Rightarrow> MinEntry \<Rightarrow> MinEntry list" where
  "offer_entry k heap e =
     (if length heap < k then heap_push min_entry_lt e heap
      else case heap_peek heap of
        None \<Rightarrow> heap
      | Some worst \<Rightarrow>
          if me_similarity worst < me_similarity e
          then heap_push min_entry_lt e (snd (heap_pop min_entry_lt heap))
          else heap)"

text \<open>The heap's entries in array order, then sorted by similarity, descending.\<close>

definition drain_sorted :: "MinEntry list \<Rightarrow> nat list \<times> f64 list" where
  "drain_sorted heap =
     (let entries = sort_by (\<lambda>a b. snd b < snd a) (map (\<lambda>e. (me_index e, me_similarity e)) heap)
      in (map fst entries, map snd entries))"

definition entry :: "nat \<times> f64 \<Rightarrow> MinEntry" where
  "entry x = \<lparr>me_index = fst x, me_similarity = snd x\<rparr>"

definition activate :: "f64 list \<Rightarrow> HardLocation list \<Rightarrow> nat \<Rightarrow> nat list \<times> f64 list" where
  "activate query locations k =
     (let q = normalize query;
          sims = zip [0..<length locations] (map (\<lambda>l. dot q (loc_address l)) locations)
      in drain_sorted (foldl (offer_entry k) [] (map entry sims)))"

definition activate_soa :: "f64 list \<Rightarrow> f64 list \<Rightarrow> nat \<Rightarrow> nat \<Rightarrow> nat list \<times> f64 list" where
  "activate_soa query address_matrix d k =
     (let q = normalize query; all_sims = batch_dot_unit q address_matrix d
      in drain_sorted (foldl (offer_entry k) [] (map entry (zip [0..<length all_sims] all_sims))))"

definition activate_subset ::
  "f64 list \<Rightarrow> HardLocation list \<Rightarrow> nat list \<Rightarrow> nat \<Rightarrow> nat list \<times> f64 list" where
  "activate_subset query locations allowed k =
     (let q = normalize query
      in drain_sorted (foldl (\<lambda>heap i.
           if i \<ge> length locations then heap
           else offer_entry k heap (entry (i, dot q (loc_address (locations ! i)))))
           [] allowed))"

definition activate_auto_full ::
  "f64 list \<Rightarrow> HardLocation list \<Rightarrow> nat \<Rightarrow> f64 list \<Rightarrow> nat \<Rightarrow> nat list \<times> f64 list" where
  "activate_auto_full query locations k address_matrix d =
     (if address_matrix \<noteq> [] then activate_soa query address_matrix d k
      else activate query locations k)"

section \<open>The neighbour graph\<close>

definition select_landmarks :: "HardLocation list \<Rightarrow> nat \<Rightarrow> nat list" where
  "select_landmarks locations num_landmarks =
     (if length locations \<le> num_landmarks then [0..<length locations]
      else map fst (take num_landmarks
             (sort_by (\<lambda>a b. snd b < snd a)
               (zip [0..<length locations] (map loc_write_count locations)))))"

definition build_id_lookup :: "HardLocation list \<Rightarrow> u32 list" where
  "build_id_lookup locations =
     (let max_id = foldl max 0 (map (\<lambda>l. unat (loc_id l)) locations)
      in foldl (\<lambda>lookup (i, l). lookup[unat (loc_id l) := of_nat i])
           (replicate (max_id + 1) (-1)) (zip [0..<length locations] locations))"

definition is_graph_ready :: "HardLocation list \<Rightarrow> nat \<Rightarrow> bool" where
  "is_graph_ready locations k =
     (if length locations < 100 then False
      else let sample_count = min 20 (length locations);
               step = length locations div sample_count;
               total = sum_list (map (\<lambda>i. length (loc_neighbors (locations ! (i * step)))) [0..<sample_count])
           in f64_of_nat k / f64_dec 2 0 \<le> f64_of_nat total / f64_of_nat sample_count)"

text \<open>
  The unvisited neighbours of a location, in the order of its list; each is marked
  visited. The bit vector \<open>visited\<close> is the set of its marked indices.
\<close>

fun gather :: "nat \<Rightarrow> u32 list \<Rightarrow> nat set \<Rightarrow> u64 list \<Rightarrow> nat set \<times> nat list" where
  "gather n id_lookup visited [] = (visited, [])"
| "gather n id_lookup visited (neighbor_id # ids) =
     (let nid = unat neighbor_id in
      if nid \<ge> length id_lookup then gather n id_lookup visited ids
      else let v = id_lookup ! nid in
      if v = -1 then gather n id_lookup visited ids
      else let idx = unat v in
      if idx \<ge> n \<or> idx \<in> visited then gather n id_lookup visited ids
      else let (visited', idxs) = gather n id_lookup (insert idx visited) ids
           in (visited', idx # idxs))"

text \<open>The best landmark: the first of the largest similarity.\<close>

fun best_index :: "nat \<Rightarrow> nat \<Rightarrow> f64 \<Rightarrow> f64 list \<Rightarrow> nat \<times> f64" where
  "best_index i best sim [] = (best, sim)"
| "best_index i best sim (x # xs) =
     (if sim < x then best_index (i + 1) i x xs else best_index (i + 1) best sim xs)"

definition visit_neighbor ::
  "nat \<Rightarrow> MinEntry list \<times> (nat \<times> f64) option \<Rightarrow> nat \<times> f64 \<Rightarrow> MinEntry list \<times> (nat \<times> f64) option" where
  "visit_neighbor k s x =
     (let (result, best_next) = s; (idx, sim) = x
      in (offer_entry k result (entry (idx, sim)),
          case best_next of
            None \<Rightarrow> Some (idx, sim)
          | Some (_, bs) \<Rightarrow> if bs < sim then Some (idx, sim) else best_next))"

lemma gather_visited:
  "gather n lk v ids = (v', idxs) \<Longrightarrow>
   v' = v \<union> set idxs \<and> set idxs \<subseteq> {..<n} - v \<and> distinct idxs"
proof (induction ids arbitrary: v v' idxs)
  case Nil
  then show ?case by simp
next
  case (Cons i ids)
  from Cons.prems show ?case
    by (auto simp: Let_def split: prod.splits if_splits dest!: Cons.IH)
qed

function graph_descent ::
  "f64 list \<Rightarrow> HardLocation list \<Rightarrow> nat \<Rightarrow> u32 list \<Rightarrow> nat \<Rightarrow> nat set \<Rightarrow> MinEntry list \<Rightarrow> nat \<Rightarrow>
   MinEntry list" where
  "graph_descent q locations k id_lookup d visited result current =
     (let (visited', idxs) = gather (length locations) id_lookup visited
                               (loc_neighbors (locations ! current)) in
      if idxs = [] then result
      else let sims = batch_dot_unit q (concat (map (\<lambda>i. loc_address (locations ! i)) idxs)) d;
               (result', best_next) =
                 foldl (visit_neighbor k) (result, None)
                   (map (\<lambda>i. (idxs ! i, sims ! i)) [0..<length sims])
           in case best_next of
                None \<Rightarrow> result'
              | Some (next_idx, next_sim) \<Rightarrow>
                  if length result' \<ge> k \<and>
                     (case heap_peek result' of
                        Some worst \<Rightarrow> next_sim < me_similarity worst
                      | None \<Rightarrow> False)
                  then result'
                  else graph_descent q locations k id_lookup d visited' result' next_idx)"
  by pat_completeness auto

text \<open>Every hop that continues has marked a location that was not marked before.\<close>

termination
proof (relation "measure (\<lambda>(q, ls, k, lk, d, visited, r, c). card ({..<length ls} - visited))", goal_cases)
  case 1
  then show ?case by simp
next
  case (2 q ls k lk d visited result current x v' idxs)
  have "gather (length ls) lk visited (loc_neighbors (ls ! current)) = (v', idxs)"
    using 2(1,2) by simp
  from gather_visited [OF this] 2(3)
  have "v' = visited \<union> set idxs" "set idxs \<subseteq> {..<length ls} - visited" "idxs \<noteq> []"
    by simp_all
  then have "{..<length ls} - v' \<subset> {..<length ls} - visited"
    by (cases idxs) auto
  then show ?case by (simp add: psubset_card_mono)
qed

declare graph_descent.simps [simp del]

definition graph_activate ::
  "f64 list \<Rightarrow> HardLocation list \<Rightarrow> nat \<Rightarrow> nat list \<Rightarrow> u32 list \<Rightarrow> nat list \<times> f64 list" where
  "graph_activate query locations k landmarks id_lookup =
     (let n = length locations; d = length query in
      if landmarks = [] \<or> n = 0 then activate query locations k
      else let q = normalize query;
               lm_sims = batch_dot_unit q (concat (map (\<lambda>lm. loc_address (locations ! lm)) landmarks)) d;
               (best_lm, best_lm_sim) = best_index 1 0 (lm_sims ! 0) (tl lm_sims);
               start = landmarks ! best_lm
           in drain_sorted (graph_descent q locations k id_lookup d {start}
                (heap_push min_entry_lt (entry (start, best_lm_sim)) []) start))"

definition activate_auto ::
  "f64 list \<Rightarrow> HardLocation list \<Rightarrow> nat \<Rightarrow> nat list \<Rightarrow> u32 list \<Rightarrow> nat list \<times> f64 list" where
  "activate_auto query locations k landmarks id_lookup =
     (if is_graph_ready locations k \<and> landmarks \<noteq> []
      then graph_activate query locations k landmarks id_lookup
      else activate query locations k)"

section \<open>Hopfield reads\<close>

text \<open>One step of the iteration: the weights and the new state.\<close>

definition hopfield_step ::
  "libm \<Rightarrow> EAMConfig \<Rightarrow> f64 list list \<Rightarrow> f64 list list \<Rightarrow> f64 list \<Rightarrow> f64 list \<times> f64 list" where
  "hopfield_step L c addresses patterns xi =
     (let sims = map (cosine_similarity xi) addresses;
          alpha = softmax L sims (cfg_beta c)
      in (alpha, normalize (weighted_sum patterns alpha)))"

fun hopfield_loop ::
  "libm \<Rightarrow> EAMConfig \<Rightarrow> f64 list list \<Rightarrow> f64 list list \<Rightarrow> nat \<Rightarrow> f64 list \<Rightarrow> f64 list" where
  "hopfield_loop L c addresses patterns 0 xi = xi"
| "hopfield_loop L c addresses patterns (Suc n) xi =
     (let (alpha, xi_new) = hopfield_step L c addresses patterns xi;
          sim = cosine_similarity xi xi_new
      in if 1 - cfg_epsilon c < sim then xi_new
         else hopfield_loop L c addresses patterns n xi_new)"

definition hopfield_iter_from ::
  "libm \<Rightarrow> f64 list \<Rightarrow> HardLocation list \<Rightarrow> EAMConfig \<Rightarrow> nat list \<Rightarrow> f64 list res" where
  "hopfield_iter_from L query locations c indices =
     (if indices = [] then Err EmptyMemory
      else let patterns = map (\<lambda>i. unit_pattern (locations ! i)) indices;
               addresses = map (\<lambda>i. loc_address (locations ! i)) indices
           in Ok (hopfield_loop L c addresses patterns (cfg_t_max c) (normalize query)))"

definition hopfield_iter ::
  "libm \<Rightarrow> f64 list \<Rightarrow> HardLocation list \<Rightarrow> EAMConfig \<Rightarrow> f64 list res" where
  "hopfield_iter L query locations c =
     (if locations = [] then Err EmptyMemory
      else let k = min (cfg_k c) (length locations);
               (indices, _) = activate query locations k;
               patterns = map (\<lambda>i. unit_pattern (locations ! i)) indices;
               addresses = map (\<lambda>i. loc_address (locations ! i)) indices
           in Ok (hopfield_loop L c addresses patterns (cfg_t_max c) (normalize query)))"

record ActivatedLocation =
  al_id :: nat
  al_similarity :: f64
  al_weight :: f64

record AttentionTrace =
  at_result :: "f64 list"
  at_contributors :: "ActivatedLocation list"  \<comment> \<open>\<open>AttentionContributor\<close> has the same fields\<close>

record ReadTrace =
  rt_iterations :: nat
  rt_converged :: bool
  rt_activated_locations :: "ActivatedLocation list"
  rt_result :: "f64 list"

text \<open>The traced loop: rounds done, convergence, the weights of the last round, the state.\<close>

fun hopfield_traced_loop ::
  "libm \<Rightarrow> EAMConfig \<Rightarrow> f64 list list \<Rightarrow> f64 list list \<Rightarrow> nat \<Rightarrow> nat \<Rightarrow> f64 list \<Rightarrow> f64 list \<Rightarrow>
   nat \<times> bool \<times> f64 list \<times> f64 list" where
  "hopfield_traced_loop L c addresses patterns 0 iterations weights xi =
     (iterations, False, weights, xi)"
| "hopfield_traced_loop L c addresses patterns (Suc n) iterations weights xi =
     (let (alpha, xi_new) = hopfield_step L c addresses patterns xi;
          sim = cosine_similarity xi xi_new
      in if 1 - cfg_epsilon c < sim then (iterations + 1, True, alpha, xi_new)
         else hopfield_traced_loop L c addresses patterns n (iterations + 1) alpha xi_new)"

definition hopfield_iter_traced ::
  "libm \<Rightarrow> f64 list \<Rightarrow> HardLocation list \<Rightarrow> EAMConfig \<Rightarrow> ReadTrace res" where
  "hopfield_iter_traced L query locations c =
     (if locations = [] then Err EmptyMemory
      else let k = min (cfg_k c) (length locations);
               (indices, initial_sims) = activate query locations k;
               patterns = map (\<lambda>i. unit_pattern (locations ! i)) indices;
               addresses = map (\<lambda>i. loc_address (locations ! i)) indices;
               (iterations, converged, final_weights, xi) =
                 hopfield_traced_loop L c addresses patterns (cfg_t_max c) 0
                   (softmax L initial_sims (cfg_beta c)) (normalize query)
           in Ok \<lparr>rt_iterations = iterations, rt_converged = converged,
                rt_activated_locations =
                  map2 (\<lambda>i w. \<lparr>al_id = i, al_similarity = cosine_similarity xi (loc_address (locations ! i)),
                              al_weight = w\<rparr>) indices final_weights,
                rt_result = xi\<rparr>)"

definition hopfield_ss ::
  "libm \<Rightarrow> f64 list \<Rightarrow> HardLocation list \<Rightarrow> EAMConfig \<Rightarrow> f64 list res" where
  "hopfield_ss L query locations c =
     (if locations = [] then Err EmptyMemory
      else let k = min (cfg_k c) (length locations);
               (indices, sims) = activate query locations k;
               alpha = softmax L sims (cfg_beta c);
               patterns = map (\<lambda>i. normalized_pattern (locations ! i)) indices
           in Ok (normalize (weighted_sum patterns alpha)))"

section \<open>The bounded heap selects the top \<open>k\<close>\<close>

abbreviation comparable :: "MinEntry set" where
  "comparable \<equiv> {e. \<not> is_nan (me_similarity e)}"

lemma min_entry_weak_order: "weak_order_on min_entry_lt comparable"
  by (auto simp: weak_order_on_def min_entry_lt_def less_f64_def)

interpretation min_heap: priority_queue min_entry_lt comparable
  "\<lambda>h. is_heap min_entry_lt h \<and> set h \<subseteq> comparable" mset "[]" "heap_push min_entry_lt" heap_peek
  "\<lambda>h. snd (heap_pop min_entry_lt h)"
  by (rule heap_priority_queue [OF min_entry_weak_order])

lemma offer_entry_offer: "offer_entry = min_heap.offer"
  by (intro ext) (simp add: offer_entry_def min_heap.offer_def min_entry_lt_def cong: option.case_cong)

lemma offer_entries:
  assumes "set es \<subseteq> comparable"
  shows "top_selection min_entry_lt k (mset es) (mset (foldl (offer_entry k) [] es))"
  using min_heap.offer_all [OF assms, of k] by (simp add: offer_entry_offer)

definition by_similarity :: "nat \<times> f64 \<Rightarrow> nat \<times> f64 \<Rightarrow> bool" where
  "by_similarity a b \<longleftrightarrow> snd b < snd a"

lemma by_similarity_weak_order: "weak_order_on by_similarity {x. \<not> is_nan (snd x)}"
  by (auto simp: weak_order_on_def by_similarity_def less_f64_def)

text \<open>
  What every activation promises of its result: parallel lists of indices and
  similarities, each index a candidate with its own similarity, similarities descending
  and equal (as keys) to the \<open>k\<close> largest of all candidates.
\<close>

definition nearest_k :: "nat \<Rightarrow> (nat \<times> f64) list \<Rightarrow> nat list \<times> f64 list \<Rightarrow> bool" where
  "nearest_k k sims r \<longleftrightarrow>
     length (fst r) = length (snd r) \<and>
     mset (zip (fst r) (snd r)) \<subseteq># mset sims \<and>
     map f64_key (snd r) = take k (rev (sort (map (\<lambda>x. f64_key (snd x)) sims)))"

lemma entry_inj: "inj entry"
  by (rule injI) (auto simp: entry_def prod_eq_iff)

lemma drain_sorted_pairs:
  "zip (fst (drain_sorted h)) (snd (drain_sorted h)) =
     sort_by by_similarity (map (\<lambda>e. (me_index e, me_similarity e)) h)"
  "length (fst (drain_sorted h)) = length (snd (drain_sorted h))"
  by (simp_all add: drain_sorted_def by_similarity_def [abs_def] Let_def zip_map_fst_snd)

lemma sorted_desc_unique:
  "sorted_wrt (\<lambda>a b. (b :: int) \<le> a) xs \<Longrightarrow> mset xs = mset ys \<Longrightarrow> xs = rev (sort ys)"
proof -
  assume a: "sorted_wrt (\<lambda>a b. b \<le> a) xs" and m: "mset xs = mset ys"
  have "sorted (rev xs)" using a by (simp add: sorted_wrt_rev)
  then have "sort ys = rev xs" using m by (metis mset_rev properties_for_sort)
  then show ?thesis by simp
qed

lemma nearest_k_drain:
  assumes nan: "\<forall>x\<in>set sims. \<not> is_nan (snd x)"
  shows "nearest_k k sims (drain_sorted (foldl (offer_entry k) [] (map entry sims)))"
proof -
  let ?h = "foldl (offer_entry k) [] (map entry sims)"
  let ?pairs = "map (\<lambda>e. (me_index e, me_similarity e)) ?h"
  let ?r = "sort_by by_similarity ?pairs"
  have "set (map entry sims) \<subseteq> comparable" using nan by (auto simp: entry_def)
  then have top: "top_selection min_entry_lt k (mset (map entry sims)) (mset ?h)"
    by (rule offer_entries)
  then have sub: "mset ?h \<subseteq># mset (map entry sims)" by (simp add: top_selection_def)
  have pairs: "mset ?pairs \<subseteq># mset sims"
  proof -
    have "image_mset (\<lambda>e. (me_index e, me_similarity e)) (mset (map entry sims)) = mset sims"
      by (simp add: entry_def image_mset.compositionality o_def)
    with image_mset_subseteq_mono [OF sub, of "\<lambda>e. (me_index e, me_similarity e)"]
    show ?thesis by simp
  qed
  have set: "set ?pairs \<subseteq> {x. \<not> is_nan (snd x)}"
    using set_mset_mono [OF pairs] nan by auto
  have sorted: "sorted_wrt (\<lambda>a b. \<not> by_similarity b a) ?r"
    by (rule sorted_sort_by, rule weak_order_on_subset [OF by_similarity_weak_order set])
  have nn: "\<not> is_nan (snd x)" if "x \<in> set ?r" for x
    using that set by auto
  have "sorted_wrt (\<lambda>a b. f64_key (snd b) \<le> f64_key (snd a)) ?r"
  proof (rule sorted_wrt_mono_rel [OF _ sorted])
    fix a b assume ab: "a \<in> set ?r" "b \<in> set ?r" and le: "\<not> by_similarity b a"
    show "f64_key (snd b) \<le> f64_key (snd a)"
      using le nn [OF ab(1)] nn [OF ab(2)] by (simp add: by_similarity_def less_f64_def)
  qed
  then have desc: "sorted_wrt (\<lambda>a b. b \<le> a) (map (\<lambda>x. f64_key (snd x)) ?r)"
    by (simp add: sorted_wrt_map)
  have keys: "map (\<lambda>x. f64_key (snd x)) ?r =
      take k (rev (sort (map (\<lambda>x. f64_key (snd x)) sims)))"
  proof -
    have "map (\<lambda>x. f64_key (snd x)) ?r = rev (sort (map (\<lambda>e. f64_key (me_similarity e)) ?h))"
      by (rule sorted_desc_unique [OF desc]) (simp add: image_mset.compositionality o_def)
    also have "\<dots> = rev (sorted_list_of_multiset (image_mset (\<lambda>e. f64_key (me_similarity e)) (mset ?h)))"
      by (simp flip: mset_map)
    also have "\<dots> = take k (rev (sorted_list_of_multiset
        (image_mset (\<lambda>e. f64_key (me_similarity e)) (mset (map entry sims)))))"
      by (rule top_selection_keys [OF top])
        (use nan in \<open>auto simp: min_entry_lt_def entry_def less_f64_def\<close>)
    also have "image_mset (\<lambda>e. f64_key (me_similarity e)) (mset (map entry sims)) =
        mset (map (\<lambda>x. f64_key (snd x)) sims)"
      by (simp add: image_mset.compositionality o_def entry_def)
    finally show ?thesis by (simp only: sorted_list_of_multiset_mset)
  qed
  show ?thesis
    unfolding nearest_k_def
    using keys pairs drain_sorted_pairs [of ?h]
    by (simp add: drain_sorted_def Let_def by_similarity_def [abs_def] o_def)
qed

lemma nearest_k_bounds:
  assumes "nearest_k k sims r"
  shows "length (fst r) = min k (length sims)" "set (fst r) \<subseteq> fst ` set sims"
    "distinct (map fst sims) \<Longrightarrow> distinct (fst r)"
proof -
  have len: "length (fst r) = length (snd r)" and sub: "mset (zip (fst r) (snd r)) \<subseteq># mset sims"
    and keys: "map f64_key (snd r) = take k (rev (sort (map (\<lambda>x. f64_key (snd x)) sims)))"
    using assms by (auto simp: nearest_k_def)
  show "length (fst r) = min k (length sims)"
    using arg_cong [OF keys, of length] len by simp
  have fst: "fst r = map fst (zip (fst r) (snd r))" using len by simp
  show "set (fst r) \<subseteq> fst ` set sims"
    using mset_subset_eqD [OF sub] by (subst fst) (auto simp: set_mset_mset)
  assume "distinct (map fst sims)"
  moreover have "mset (fst r) \<subseteq># mset (map fst sims)"
    using image_mset_subseteq_mono [OF sub, of fst] fst by (metis mset_map)
  ultimately show "distinct (fst r)"
    using distinct_mset_subset by blast
qed

section \<open>Agreement of the activations\<close>

definition similarities :: "f64 list \<Rightarrow> HardLocation list \<Rightarrow> (nat \<times> f64) list" where
  "similarities query locations =
     zip [0..<length locations] (map (\<lambda>l. dot (normalize query) (loc_address l)) locations)"

lemma fst_similarities [simp]: "map fst (similarities q ls) = [0..<length ls]"
  "length (similarities q ls) = length ls" "fst ` set (similarities q ls) = {..<length ls}"
proof -
  show a: "map fst (similarities q ls) = [0..<length ls]" by (simp add: similarities_def)
  show "length (similarities q ls) = length ls" by (simp add: similarities_def)
  show "fst ` set (similarities q ls) = {..<length ls}"
    by (metis a set_map atLeast_upt)
qed

lemma nth_similarities:
  "(i, s) \<in> set (similarities q ls) \<Longrightarrow> i < length ls \<and> s = dot (normalize q) (loc_address (ls ! i))"
  by (auto simp: similarities_def set_zip)

lemma activate_nearest:
  assumes "\<forall>x\<in>set (similarities query locations). \<not> is_nan (snd x)"
  shows "nearest_k k (similarities query locations) (activate query locations k)"
  using nearest_k_drain [OF assms, of k] by (simp add: activate_def similarities_def Let_def)

lemma activate_soa_activate:
  assumes "0 < d" "\<forall>l\<in>set locations. length (loc_address l) = d"
  shows "activate_soa query (concat (map loc_address locations)) d k = activate query locations k"
proof -
  have "batch_dot_unit (normalize query) (concat (map loc_address locations)) d =
        map (dot (normalize query)) (map loc_address locations)"
    by (rule batch_dot_unit_concat) (use assms in auto)
  then show ?thesis by (simp add: activate_soa_def activate_def Let_def o_def)
qed

lemma activate_subset_all:
  "activate_subset query locations [0..<length locations] k = activate query locations k"
proof -
  let ?q = "normalize query"
  let ?f = "\<lambda>heap i. if i \<ge> length locations then heap
           else offer_entry k heap (entry (i, dot ?q (loc_address (locations ! i))))"
  have step: "set js \<subseteq> {..<length locations} \<Longrightarrow>
      foldl ?f h js =
      foldl (offer_entry k) h (map (\<lambda>i. entry (i, dot ?q (loc_address (locations ! i)))) js)" for h js
    by (induction js arbitrary: h) auto
  have "foldl ?f [] [0..<length locations] =
      foldl (offer_entry k) [] (map (\<lambda>i. entry (i, dot ?q (loc_address (locations ! i)))) [0..<length locations])"
    by (rule step) auto
  moreover have "map (\<lambda>i. entry (i, dot ?q (loc_address (locations ! i)))) [0..<length locations] =
      map entry (zip [0..<length locations] (map (\<lambda>l. dot ?q (loc_address l)) locations))"
    by (rule nth_equalityI) auto
  ultimately show ?thesis by (simp add: activate_subset_def activate_def Let_def)
qed

text \<open>What holds whatever the similarities are, NaN included.\<close>

lemma offer_entry_cases:
  obtains (push) "length h < k" "mset (offer_entry k h e) = add_mset e (mset h)"
  | (keep) "k \<le> length h" "offer_entry k h e = h"
  | (swap) x t where "k \<le> length h" "h = x # t" "mset (offer_entry k h e) = add_mset e (mset t)"
proof (cases "length h < k")
  case True
  then show ?thesis using push by (simp add: offer_entry_def)
next
  case False
  show ?thesis
  proof (cases h)
    case Nil
    then show ?thesis using keep False by (simp add: offer_entry_def heap_peek_def)
  next
    case (Cons x t)
    have pop: "mset (snd (heap_pop min_entry_lt h)) = mset t"
      using heap_pop_mset [of h min_entry_lt "fst (heap_pop min_entry_lt h)" "snd (heap_pop min_entry_lt h)"] Cons
      by simp
    show ?thesis
    proof (cases "me_similarity x < me_similarity e")
      case True
      then show ?thesis using swap [OF _ Cons] False Cons pop
        by (simp add: offer_entry_def heap_peek_def)
    next
      case le: False
      then show ?thesis using keep False Cons by (simp add: offer_entry_def heap_peek_def)
    qed
  qed
qed

lemma offer_entry_mset:
  "mset (offer_entry k h e) \<subseteq># add_mset e (mset h)"
  "length (offer_entry k h e) = (if length h < k then Suc (length h) else length h)"
proof -
  have "mset (offer_entry k h e) \<subseteq># add_mset e (mset h) \<and>
      size (mset (offer_entry k h e)) = (if length h < k then Suc (length h) else length h)"
    by (rule offer_entry_cases [of h k e]) (simp_all del: size_mset, simp_all)
  then show "mset (offer_entry k h e) \<subseteq># add_mset e (mset h)"
    "length (offer_entry k h e) = (if length h < k then Suc (length h) else length h)"
    by simp_all
qed

lemma offer_entries_mset:
  "mset (foldl (offer_entry k) h es) \<subseteq># mset es + mset h"
  "length h \<le> k \<Longrightarrow> length (foldl (offer_entry k) h es) = min k (length h + length es)"
proof (induction es arbitrary: h)
  case Nil
  {
    case 1
    show ?case by simp
  next
    case 2
    then show ?case by simp
  }
next
  case (Cons e es)
  {
    case 1
    have "mset (foldl (offer_entry k) (offer_entry k h e) es) \<subseteq># mset es + mset (offer_entry k h e)"
      by (rule Cons.IH(1))
    also have "\<dots> \<subseteq># mset es + add_mset e (mset h)"
      using offer_entry_mset(1) by simp
    finally show ?case by simp
  next
    case 2
    then show ?case using Cons.IH(2) [of "offer_entry k h e"] by (simp add: offer_entry_mset(2))
  }
qed

lemma activate_bounds:
  assumes "activate query locations k = (indices, sims)"
  shows "length indices = length sims" "length indices = min k (length locations)"
    "set indices \<subseteq> {..<length locations}" "distinct indices"
    "\<And>n. n < length indices \<Longrightarrow> sims ! n = dot (normalize query) (loc_address (locations ! (indices ! n)))"
proof -
  let ?sims = "similarities query locations"
  let ?h = "foldl (offer_entry k) [] (map entry ?sims)"
  let ?pairs = "map (\<lambda>e. (me_index e, me_similarity e)) ?h"
  have r: "(indices, sims) = drain_sorted ?h"
    using assms by (simp add: activate_def similarities_def Let_def)
  then show len: "length indices = length sims" using drain_sorted_pairs(2) [of ?h] by (metis fst_conv snd_conv)
  have zip: "zip indices sims = sort_by by_similarity ?pairs"
    using drain_sorted_pairs(1) [of ?h] r by (metis fst_conv snd_conv)
  have "length (zip indices sims) = length ?h" using zip by simp
  then show "length indices = min k (length locations)"
    using offer_entries_mset(2) [of "[]" k "map entry ?sims"] len by simp
  have "mset ?pairs \<subseteq># image_mset (\<lambda>e. (me_index e, me_similarity e)) (mset (map entry ?sims))"
    using image_mset_subseteq_mono [OF offer_entries_mset(1) [of k "[]" "map entry ?sims"]] by simp
  then have sub: "mset (zip indices sims) \<subseteq># mset ?sims"
    using zip by (simp add: entry_def image_mset.compositionality o_def)
  have fst: "mset indices \<subseteq># mset [0..<length locations]"
    using image_mset_subseteq_mono [OF sub, of fst] len
    by (metis fst_similarities(1) map_fst_zip mset_map)
  show "set indices \<subseteq> {..<length locations}"
    using set_mset_mono [OF fst] by auto
  show "distinct indices" by (rule distinct_mset_subset [OF fst]) simp
  fix n assume n: "n < length indices"
  have "(indices ! n, sims ! n) \<in> set (zip indices sims)" using n len by (auto simp: set_zip)
  then have "(indices ! n, sims ! n) \<in> set ?sims" using set_mset_mono [OF sub] by auto
  then show "sims ! n = dot (normalize query) (loc_address (locations ! (indices ! n)))"
    by (simp add: nth_similarities)
qed

section \<open>The Hopfield reads\<close>

lemma hopfield_traced_result:
  "snd (snd (snd (hopfield_traced_loop L c as ps n i w xi))) = hopfield_loop L c as ps n xi"
  by (induction n arbitrary: i w xi) (simp_all add: Let_def case_prod_beta)

lemma hopfield_traced_iterations:
  "fst (hopfield_traced_loop L c as ps n i w xi) \<le> i + n \<and>
   (\<not> fst (snd (hopfield_traced_loop L c as ps n i w xi)) \<longrightarrow>
      fst (hopfield_traced_loop L c as ps n i w xi) = i + n)"
proof (induction n arbitrary: i w xi)
  case 0
  then show ?case by simp
next
  case (Suc n)
  obtain alpha xn where s: "hopfield_step L c as ps xi = (alpha, xn)" by fastforce
  show ?case using Suc.IH [of "i + 1" alpha xn] by (simp add: s Let_def)
qed

lemma hopfield_traced_weights:
  "length w = length as \<Longrightarrow> length (fst (snd (snd (hopfield_traced_loop L c as ps n i w xi)))) = length as"
proof (induction n arbitrary: i w xi)
  case 0
  then show ?case by simp
next
  case (Suc n)
  obtain alpha xn where s: "hopfield_step L c as ps xi = (alpha, xn)" by fastforce
  then have "length alpha = length as" by (auto simp: hopfield_step_def Let_def)
  then show ?case using Suc.IH [of alpha "i + 1" xn] by (simp add: s Let_def)
qed

lemma hopfield_loop_length:
  assumes "ps \<noteq> []" "\<forall>p\<in>set ps. length p = d" "length xi = d"
  shows "length (hopfield_loop L c as ps n xi) = d"
  using assms(3)
proof (induction n arbitrary: xi)
  case 0
  then show ?case by simp
next
  case (Suc n)
  have "length (snd (hopfield_step L c as ps xi)) = d"
    using assms(1,2) by (auto simp: hopfield_step_def Let_def split: list.splits)
  then show ?case using Suc.IH by (auto simp: Let_def case_prod_beta)
qed

lemma hopfield_traced_agrees:
  "rbind (hopfield_iter_traced L q ls c) (\<lambda>t. Ok (rt_result t)) = hopfield_iter L q ls c"
  using hopfield_traced_result
  by (simp add: hopfield_iter_traced_def hopfield_iter_def Let_def case_prod_beta)

section \<open>Properties\<close>

text \<open>C39: Activation with the bounded heap returns the \<open>k\<close> nearest locations: distinct
  candidates, each with its own similarity, whose similarities, in the order returned, are the
  first \<open>k\<close> of all similarities sorted in descending order. (Similarities that are NaN have
  no place in that order and are excluded.)\<close>

theorem activate_selects_top_k:
  assumes "\<forall>x\<in>set (similarities query locations). \<not> is_nan (snd x)"
  shows "nearest_k k (similarities query locations) (activate query locations k)"
  by (rule activate_nearest [OF assms])

theorem activate_selects_top_k_witness:
  "nearest_k 1 (similarities [1, 0] [sample_location, sample_location])
     (activate [1, 0] [sample_location, sample_location] 1)"
proof -
  have "list_all (\<lambda>x. \<not> is_nan (snd x)) (similarities [1, 0] [sample_location, sample_location])"
    by code_simp
  then show ?thesis by (intro activate_selects_top_k) (simp add: list_all_iff)
qed

text \<open>Scanning the packed address matrix of a collection returns bit for bit what scanning
  its locations returns.\<close>

lemma packed_scan_agrees:
  assumes "0 < d" "\<forall>l\<in>set locations. length (loc_address l) = d"
  shows "activate_soa query (concat (map loc_address locations)) d k = activate query locations k"
  by (rule activate_soa_activate [OF assms])

text \<open>The traced Hopfield read computes the same vector as the plain one, and fails exactly
  when it fails.\<close>

lemma traced_read_agrees:
  "rbind (hopfield_iter_traced L query locations c) (\<lambda>t. Ok (rt_result t)) =
   hopfield_iter L query locations c"
  by (rule hopfield_traced_agrees)

end
