(* ===== verification/Scan.thy ===== *)
theory Scan
  imports Read
begin

text \<open>
  heather_db/src/scan.rs: the \<open>k\<close> nearest locations of a write. Every row is scored in
  single precision, rows that the score cannot rule out are ranked with the \<open>f64\<close> dot
  product. \<open>select_nth_unstable_by\<close> is only asked for the \<open>k\<close>-th element, which sorting
  gives too (\<open>total_cmp\<close> is a total order on bits).
\<close>

record scan =
  sc_matrix :: "f32 list"
  sc_max_norm :: f64

definition default_scan :: scan where
  "default_scan = \<lparr>sc_matrix = [], sc_max_norm = 0\<rparr>"

definition error_bound :: "nat \<Rightarrow> f64 \<Rightarrow> f64 \<Rightarrow> f64" where
  "error_bound d q_norm max_norm =
     (let u = F64 0x3E80000000000000 / f64_dec 2 0;
          rel = (f64_of_nat d + f64_dec 3 0) * u + f64_of_nat d * F64 0x3CB0000000000000
      in f64_dec 101 2 * rel * q_norm * max_norm +
         f64_dec 2 0 * f64_of_nat d * F64 0x3810000000000000)"

text \<open>The total order of \<open>f32\<close> and its \<open>iter().sum()\<close>, from \<open>-0.0\<close>.\<close>

definition f32_total_key :: "f32 \<Rightarrow> int" where
  "f32_total_key x =
     (let b = uint (f32_bits x); m = b mod 0x80000000
      in if 0x80000000 \<le> b then - m - 1 else m)"

definition f32_sum :: "f32 list \<Rightarrow> f32" where
  "f32_sum xs = foldl (+) (F32 0x80000000) xs"

definition f32_chunks :: "nat \<Rightarrow> f32 list \<Rightarrow> f32 list list" where
  "f32_chunks k xs = map (\<lambda>i. take k (drop (i * k) xs)) [0..<length xs div k]"

definition f32_rest :: "nat \<Rightarrow> f32 list \<Rightarrow> f32 list" where
  "f32_rest k xs = drop (length xs div k * k) xs"

definition dot_f32 :: "f32 list \<Rightarrow> f32 list \<Rightarrow> f32" where
  "dot_f32 a b =
     (let acc = foldl (\<lambda>acc (x, y). map2 (\<lambda>s (u, v). s + u * v) acc (zip x y))
                  (replicate 16 0) (zip (f32_chunks 16 a) (f32_chunks 16 b))
      in foldl (\<lambda>sum (x, y). sum + x * y) (f32_sum acc) (zip (f32_rest 16 a) (f32_rest 16 b)))"

definition to_f32 :: "f64 list \<Rightarrow> f32 list" where
  "to_f32 v = map f32_of_f64 v"

text \<open>\<open>matrix.chunks(d)\<close>: the last row may be shorter.\<close>

definition score_rows :: "f32 list \<Rightarrow> f32 list \<Rightarrow> nat \<Rightarrow> f32 list" where
  "score_rows q matrix d =
     map (\<lambda>i. dot_f32 q (take d (drop (i * d) matrix))) [0..<(length matrix + d - 1) div d]"

text \<open>Descending by similarity in \<open>total_cmp\<close>, then by index.\<close>

definition ranks_before :: "nat \<times> f64 \<Rightarrow> nat \<times> f64 \<Rightarrow> bool" where
  "ranks_before a b \<longleftrightarrow>
     total_key (snd b) < total_key (snd a) \<or> total_key (snd a) = total_key (snd b) \<and> fst a < fst b"

definition scan_usable :: "f64 list \<Rightarrow> HardLocation list \<Rightarrow> nat \<Rightarrow> scan \<Rightarrow> bool" where
  "scan_usable query locations k s \<longleftrightarrow>
     k > 0 \<and> k \<le> length locations \<and> length (sc_matrix s) = length locations * length query \<and>
     is_finite (sc_max_norm s) \<and> sc_max_norm s < f64_dec (10 ^ 30) 0"

definition candidates :: "f32 list \<Rightarrow> nat \<Rightarrow> f64 \<Rightarrow> (nat \<times> f32) list" where
  "candidates approx k err =
     (let sorted = sort_by (\<lambda>a b. f32_total_key b < f32_total_key a) approx;
          kth = sorted ! (k - 1);
          floor = f64_of_f32 kth - f64_dec 2 0 * err
      in filter (\<lambda>(i, a). floor \<le> f64_of_f32 a) (zip [0..<length approx] approx))"

definition nearest :: "f64 list \<Rightarrow> HardLocation list \<Rightarrow> nat \<Rightarrow> scan \<Rightarrow> nat list \<times> f64 list" where
  "nearest query locations k s =
     (if \<not> scan_usable query locations k s then activate query locations k
      else let d = length query; q = normalize query; q32 = to_f32 q;
               approx = score_rows q32 (sc_matrix s) d;
               err = error_bound d (l2_norm q) (sc_max_norm s);
               best = map (\<lambda>(i, a). (i, dot q (loc_address (locations ! i)))) (candidates approx k err);
               best = take k (sort_by ranks_before best)
           in (map fst best, map snd best))"

section \<open>Facts\<close>

lemma ranks_before_weak_order: "weak_order_on ranks_before A"
  by (auto simp: weak_order_on_def ranks_before_def)

lemma ranks_before_trans: "ranks_before a b \<Longrightarrow> ranks_before b c \<Longrightarrow> ranks_before a c"
  by (auto simp: ranks_before_def)

lemma candidates_index: "(i, a) \<in> set (candidates approx k err) \<Longrightarrow> i < length approx \<and> a = approx ! i"
  by (auto simp: candidates_def Let_def set_zip)

lemma distinct_candidates: "distinct (map fst (candidates approx k err))"
proof -
  have "distinct (map fst (filter P (zip [0..<n] xs)))" for P and n :: nat and xs :: "f32 list"
    by (rule distinct_map_filter) (simp add: map_fst_zip_take)
  then show ?thesis by (simp add: candidates_def Let_def)
qed

lemma length_score_rows: "0 < d \<Longrightarrow> length m = n * d \<Longrightarrow> length (score_rows q m d) = n"
proof -
  assume a: "0 < d" "length m = n * d"
  have "n * d + d - 1 = (d - 1) + n * d" using a(1) by simp
  then have "(n * d + d - 1) div d = n" using a(1) by (simp only: div_mult_self1) simp
  then show ?thesis by (simp add: score_rows_def a(2))
qed

text \<open>
  The result of the scan: at most \<open>k\<close> distinct in-range indices with their own \<open>f64\<close>
  similarity, ranked, and no candidate left out ranks before a kept one.
\<close>

definition scan_candidates :: "f64 list \<Rightarrow> HardLocation list \<Rightarrow> nat \<Rightarrow> scan \<Rightarrow> (nat \<times> f64) list" where
  "scan_candidates query locations k s =
     map (\<lambda>(i, a). (i, dot (normalize query) (loc_address (locations ! i))))
       (candidates (score_rows (to_f32 (normalize query)) (sc_matrix s) (length query)) k
         (error_bound (length query) (l2_norm (normalize query)) (sc_max_norm s)))"

lemma nearest_scan:
  assumes "scan_usable query locations k s" "query \<noteq> []"
  defines "cands \<equiv> scan_candidates query locations k s"
  defines "best \<equiv> take k (sort_by ranks_before cands)"
  shows "nearest query locations k s = (map fst best, map snd best)"
    "set (map fst cands) \<subseteq> {..<length locations}" "distinct (map fst cands)"
    "\<forall>x\<in>set cands. snd x = dot (normalize query) (loc_address (locations ! fst x))"
proof -
  let ?approx = "score_rows (to_f32 (normalize query)) (sc_matrix s) (length query)"
  have len: "length ?approx = length locations"
    using assms(1,2) by (intro length_score_rows) (auto simp: scan_usable_def)
  have fst: "map fst cands = map fst (candidates ?approx k
      (error_bound (length query) (l2_norm (normalize query)) (sc_max_norm s)))"
    by (simp add: cands_def scan_candidates_def o_def case_prod_beta)
  show "nearest query locations k s = (map fst best, map snd best)"
    using assms(1) by (simp add: nearest_def best_def cands_def scan_candidates_def Let_def)
  show "set (map fst cands) \<subseteq> {..<length locations}"
    unfolding fst using candidates_index len by fastforce
  show "distinct (map fst cands)" unfolding fst by (rule distinct_candidates)
  show "\<forall>x\<in>set cands. snd x = dot (normalize query) (loc_address (locations ! fst x))"
    by (auto simp: cands_def scan_candidates_def)
qed

lemma nearest_bounds:
  assumes "query \<noteq> []" "nearest query locations k s = (indices, sims)"
  shows "length indices = length sims" "length indices \<le> k" "set indices \<subseteq> {..<length locations}"
    "distinct indices"
    "\<And>n. n < length indices \<Longrightarrow> sims ! n = dot (normalize query) (loc_address (locations ! (indices ! n)))"
proof -
  have "length indices = length sims \<and> length indices \<le> k \<and> set indices \<subseteq> {..<length locations} \<and>
      distinct indices \<and> (\<forall>n<length indices.
        sims ! n = dot (normalize query) (loc_address (locations ! (indices ! n))))"
  proof (cases "scan_usable query locations k s")
    case True
    let ?cands = "scan_candidates query locations k s"
    let ?best = "take k (sort_by ranks_before ?cands)"
    note n = nearest_scan [OF True assms(1)]
    have r: "indices = map fst ?best" "sims = map snd ?best" using n(1) assms(2) by auto
    have sub: "set ?best \<subseteq> set ?cands" using set_take_subset by fastforce
    then have own: "\<forall>x\<in>set ?best. snd x = dot (normalize query) (loc_address (locations ! fst x))"
      using n(4) by blast
    have "distinct (map fst (sort_by ranks_before ?cands))"
      using n(3) by (simp add: distinct_map)
    then have "distinct indices" unfolding r by (simp add: take_map [symmetric])
    moreover have "set indices \<subseteq> {..<length locations}" unfolding r using sub n(2) by auto
    moreover have "sims ! i = dot (normalize query) (loc_address (locations ! (indices ! i)))"
      if "i < length indices" for i
    proof -
      have i: "i < length ?best" using that by (simp add: r)
      then have "?best ! i \<in> set ?best" by (rule nth_mem)
      then show ?thesis unfolding r using own i by (simp del: nth_take)
    qed
    ultimately show ?thesis by (simp add: r)
  next
    case False
    then have "activate query locations k = (indices, sims)" using assms(2) by (simp add: nearest_def)
    from activate_bounds [OF this] show ?thesis by simp
  qed
  then show "length indices = length sims" "length indices \<le> k" "set indices \<subseteq> {..<length locations}"
    "distinct indices"
    "\<And>n. n < length indices \<Longrightarrow> sims ! n = dot (normalize query) (loc_address (locations ! (indices ! n)))"
    by blast+
qed

end
