(* ===== verification/Write.thy ===== *)
theory Write
  imports Scan
begin

text \<open>
  heather_db/src/write.rs: the adaptive write. Its three phases are separate
  definitions in the order of the code: selection (activation, weights, winner, join or
  spawn), update (counters, address migration, surprise, neighbour lists) and regulation
  (novelty spawn or overload split). The generator of normal deviates and its state are
  parameters. The caller's slice is the list argument, returned updated.
\<close>

record WriteResult =
  wr_modified_indices :: "nat list"
  wr_new_locations :: "HardLocation list"
  wr_eta :: f64

record WriteOpts =
  wo_gate :: bool
  wo_tau_cohere :: f64
  wo_tau_split :: f64

definition WriteOpts_default :: WriteOpts where
  "WriteOpts_default = \<lparr>wo_gate = False, wo_tau_cohere = f64_dec 1 1, wo_tau_split = f64_dec 3 1\<rparr>"

section \<open>Phase 1: select\<close>

definition activation_weights :: "f64 list \<Rightarrow> nat \<Rightarrow> f64 list" where
  "activation_weights sims k =
     (let max_sim = sims ! 0
      in if tiny < max_sim then map (\<lambda>s. f64_max s 0 / max_sim) sims
         else replicate (length sims) (1 / f64_of_nat k))"

text \<open>The gated winner and whether the write must spawn.\<close>

definition gated_winner ::
  "WriteOpts \<Rightarrow> f64 list \<Rightarrow> HardLocation list \<Rightarrow> nat list \<Rightarrow> f64 list \<Rightarrow> nat \<times> bool" where
  "gated_winner opts counter locations indices sims =
     (let cn = normalize counter;
          coherence = (\<lambda>li. cosine_similarity (loc_counter (locations ! (indices ! li))) cn);
          strong = filter (\<lambda>li. wo_tau_split opts \<le> sims ! li) [0..<length indices]
      in case max_by (\<lambda>a b. coherence a < coherence b) strong of
           None \<Rightarrow> (0, True)
         | Some best \<Rightarrow> (best, coherence best < wo_tau_cohere opts))"

definition conscience_winner ::
  "EAMConfig \<Rightarrow> HardLocation list \<Rightarrow> nat list \<Rightarrow> f64 list \<Rightarrow> nat" where
  "conscience_winner c locations indices sims =
     (let total_writes = f64_sum (map (\<lambda>i. loc_write_count (locations ! i)) indices)
      in if tiny < total_writes
         then let scored = map (\<lambda>(local_idx, global_idx).
                    (local_idx, sims ! local_idx -
                       cfg_gamma c * loc_write_count (locations ! global_idx) / total_writes))
                    (zip [0..<length indices] indices)
              in case max_by (\<lambda>a b. snd a < snd b) scored of None \<Rightarrow> 0 | Some x \<Rightarrow> fst x
         else 0)"

definition select_winner ::
  "EAMConfig \<Rightarrow> WriteOpts \<Rightarrow> f64 list \<Rightarrow> HardLocation list \<Rightarrow> nat list \<Rightarrow> f64 list \<Rightarrow> nat \<times> bool" where
  "select_winner c opts counter locations indices sims =
     (if wo_gate opts then gated_winner opts counter locations indices sims
      else (conscience_winner c locations indices sims, False))"

definition spawns ::
  "libm \<Rightarrow> EAMConfig \<Rightarrow> WriteOpts \<Rightarrow> bool \<Rightarrow> f64 \<Rightarrow> nat \<Rightarrow> bool" where
  "spawns L c opts force_spawn max_sim num_locations =
     (if wo_gate opts then force_spawn
      else if cfg_mdl_gate c then engram_bits L num_locations (cfg_d c) < surprise_bits L max_sim
      else max_sim < cfg_tau_split c)"

section \<open>Phase 2: update\<close>

definition join_location ::
  "WriteOpts \<Rightarrow> f64 list \<Rightarrow> f64 list \<Rightarrow> f64 \<Rightarrow> bool \<Rightarrow> f64 \<Rightarrow> f64 \<Rightarrow> HardLocation \<Rightarrow> HardLocation" where
  "join_location opts address counter weight is_winner eta_winner eta_neighbor l =
     (let w = (if wo_gate opts then 1 else weight);
          new_counter = add_scaled (loc_counter l) counter w;
          new_count = loc_write_count l + w;
          lr = (if wo_gate opts then 1 / new_count
                else if is_winner then eta_winner else eta_neighbor);
          diff = map2 (-) address (loc_address l)
      in l\<lparr>loc_counter := new_counter, loc_write_count := new_count,
           loc_address := normalize (add_scaled (loc_address l) diff lr)\<rparr>)"

definition join_all ::
  "WriteOpts \<Rightarrow> f64 list \<Rightarrow> f64 list \<Rightarrow> f64 list \<Rightarrow> nat \<Rightarrow> f64 \<Rightarrow> f64 \<Rightarrow> nat list \<Rightarrow>
   HardLocation list \<Rightarrow> HardLocation list" where
  "join_all opts address counter weights winner_local eta_winner eta_neighbor indices locations =
     foldl (\<lambda>ls (local_idx, global_idx).
         let is_winner = (local_idx = winner_local)
         in if wo_gate opts \<and> \<not> is_winner then ls
            else ls[global_idx := join_location opts address counter (weights ! local_idx) is_winner
                                    eta_winner eta_neighbor (ls ! global_idx)])
       locations (zip [0..<length indices] indices)"

definition learn_peers :: "nat \<Rightarrow> u64 list \<Rightarrow> u64 \<Rightarrow> u64 list \<Rightarrow> u64 list" where
  "learn_peers nb_cap activated_ids my_id neighbors =
     (let ns = foldl (\<lambda>ns peer_id. if peer_id = my_id then ns
                         else if peer_id \<notin> set ns then ns @ [peer_id] else ns)
                 neighbors activated_ids
      in if length ns > nb_cap then drop (length ns - nb_cap) ns else ns)"

definition update_neighbors ::
  "nat \<Rightarrow> nat list \<Rightarrow> HardLocation list \<Rightarrow> HardLocation list" where
  "update_neighbors nb_cap indices locations =
     (if nb_cap > 0
      then let activated_ids = map (\<lambda>i. loc_id (locations ! i)) indices
           in foldl (\<lambda>ls (local_idx, global_idx).
                ls[global_idx := (ls ! global_idx)\<lparr>loc_neighbors :=
                     learn_peers nb_cap activated_ids (activated_ids ! local_idx)
                       (loc_neighbors (ls ! global_idx))\<rparr>])
              locations (zip [0..<length indices] indices)
      else locations)"

definition update_phase ::
  "libm \<Rightarrow> EAMConfig \<Rightarrow> WriteOpts \<Rightarrow> f64 list \<Rightarrow> f64 list \<Rightarrow> f64 \<Rightarrow> f64 list \<Rightarrow> f64 list \<Rightarrow> nat list \<Rightarrow>
   nat \<Rightarrow> bool \<Rightarrow> HardLocation list \<Rightarrow> HardLocation list" where
  "update_phase L c opts address counter eta weights sims indices winner_local joins locations =
     (let winner_global = indices ! winner_local;
          eta_winner = eta / (1 + loc_write_count (locations ! winner_global) / cfg_tau_damp c);
          eta_neighbor = eta_winner * f64_dec 1 1;
          locations = (if joins then join_all opts address counter weights winner_local eta_winner
                                       eta_neighbor indices locations
                       else locations);
          locations = (if cfg_mdl_gate c \<and> joins
                       then locations[winner_global := (locations ! winner_global)
                              \<lparr>loc_surprise_mass := loc_surprise_mass (locations ! winner_global) +
                                 surprise_bits L (sims ! winner_local)\<rparr>]
                       else locations)
      in update_neighbors (adaptive_neighbor_cap L c (length locations)) indices locations)"

section \<open>Phase 3: regulate\<close>

definition novelty_location ::
  "nat \<Rightarrow> u64 \<Rightarrow> f64 list \<Rightarrow> f64 list \<Rightarrow> nat list \<Rightarrow> HardLocation list \<Rightarrow> HardLocation" where
  "novelty_location nb_cap i address counter indices locations =
     (let l = (HardLocation_new i (normalize address))\<lparr>loc_counter := counter, loc_write_count := 1\<rparr>
      in if nb_cap > 0
         then l\<lparr>loc_neighbors := take nb_cap (map (\<lambda>i. loc_id (locations ! i)) indices)\<rparr>
         else l)"

definition half :: f64 where
  "half = f64_dec 5 1"

text \<open>The child and the parent of an overload split.\<close>

definition split_location ::
  "nat \<Rightarrow> u64 \<Rightarrow> f64 list \<Rightarrow> HardLocation \<Rightarrow> HardLocation \<times> HardLocation" where
  "split_location nb_cap i perturbation w =
     (let new_addr = normalize (add_scaled (loc_address w) perturbation (f64_dec 1 1));
          child = (HardLocation_new i new_addr)
                    \<lparr>loc_counter := map (\<lambda>c. c * half) (loc_counter w),
                     loc_write_count := loc_write_count w * half\<rparr>;
          parent = w\<lparr>loc_counter := map (\<lambda>c. c * half) (loc_counter w),
                     loc_write_count := loc_write_count w * half,
                     loc_surprise_mass := loc_surprise_mass w * half\<rparr>
      in if nb_cap > 0
         then let inherited = loc_neighbors parent;
                  with_parent = (if loc_id parent \<notin> set inherited then inherited @ [loc_id parent]
                                 else inherited);
                  child_ns = take nb_cap with_parent;
                  parent_ns = (if i \<notin> set inherited
                               then let ns = inherited @ [i]
                                    in if length ns > nb_cap then drop 1 ns else ns
                               else inherited)
              in (child\<lparr>loc_neighbors := child_ns\<rparr>, parent\<lparr>loc_neighbors := parent_ns\<rparr>)
         else (child, parent))"

definition is_overloaded :: "libm \<Rightarrow> EAMConfig \<Rightarrow> nat \<Rightarrow> HardLocation \<Rightarrow> bool" where
  "is_overloaded L c num_locations w =
     (if cfg_mdl_gate c then engram_bits L num_locations (cfg_d c) < loc_surprise_mass w
      else cfg_tau_overload c < loc_write_count w)"

section \<open>The write\<close>

text \<open>A novelty spawn when the write spawned, an overload split when it joined a saturated winner.\<close>

definition regulate ::
  "libm \<Rightarrow> ('r \<Rightarrow> f64 \<times> 'r) \<Rightarrow> EAMConfig \<Rightarrow> f64 list \<Rightarrow> f64 list \<Rightarrow> nat list \<Rightarrow> nat \<Rightarrow> bool \<Rightarrow>
   HardLocation list \<Rightarrow> u64 \<Rightarrow> 'r \<Rightarrow> HardLocation list \<times> HardLocation list \<times> u64 \<times> 'r" where
  "regulate L normal c address counter indices winner_global joins locations next_id rng =
     (let nb_cap = adaptive_neighbor_cap L c (length locations);
          (novel, next_id) =
            (if \<not> joins
             then ([novelty_location nb_cap next_id address counter indices locations], next_id + 1)
             else ([], next_id))
      in if joins \<and> is_overloaded L c (length locations) (locations ! winner_global)
         then let (perturbation, rng) = random_unit_vector normal (cfg_d c) rng;
                  (child, winner) = split_location nb_cap next_id perturbation (locations ! winner_global)
              in (novel @ [child], locations[winner_global := winner], next_id + 1, rng)
         else (novel, locations, next_id, rng))"

definition adaptive_write_two ::
  "libm \<Rightarrow> ('r \<Rightarrow> f64 \<times> 'r) \<Rightarrow> f64 list \<Rightarrow> f64 list \<Rightarrow> HardLocation list \<Rightarrow> EAMConfig \<Rightarrow> f64 \<Rightarrow>
   u64 \<Rightarrow> 'r \<Rightarrow> scan \<Rightarrow> WriteOpts \<Rightarrow> WriteResult \<times> HardLocation list \<times> u64 \<times> 'r" where
  "adaptive_write_two L normal address counter locations c eta next_id rng s opts =
     (if \<not> cfg_competitive c
      then (\<lparr>wr_modified_indices = [],
             wr_new_locations = [(HardLocation_new next_id address)\<lparr>loc_counter := counter, loc_write_count := 1\<rparr>],
             wr_eta = eta\<rparr>, locations, next_id + 1, rng)
      else let k = min (cfg_k c) (length locations);
               (indices, sims) = nearest address locations k s in
      if indices = []
      then (\<lparr>wr_modified_indices = [],
             wr_new_locations = [(HardLocation_new next_id (normalize address))
                                   \<lparr>loc_counter := counter, loc_write_count := 1\<rparr>],
             wr_eta = eta\<rparr>, locations, next_id + 1, rng)
      else let max_sim = sims ! 0;
               weights = activation_weights sims k;
               (winner_local, force_spawn) = select_winner c opts counter locations indices sims;
               joins = (\<not> spawns L c opts force_spawn max_sim (length locations));
               locations = update_phase L c opts address counter eta weights sims indices winner_local
                             joins locations;
               eta_new = f64_max (eta * cfg_lambda c) (cfg_eta_min c);
               (new_locations, locations, next_id, rng) =
                 regulate L normal c address counter indices (indices ! winner_local) joins locations
                   next_id rng
           in (\<lparr>wr_modified_indices = indices, wr_new_locations = new_locations, wr_eta = eta_new\<rparr>,
               locations, next_id, rng))"

definition adaptive_write ::
  "libm \<Rightarrow> ('r \<Rightarrow> f64 \<times> 'r) \<Rightarrow> f64 list \<Rightarrow> HardLocation list \<Rightarrow> EAMConfig \<Rightarrow> f64 \<Rightarrow>
   u64 \<Rightarrow> 'r \<Rightarrow> scan \<Rightarrow> WriteResult \<times> HardLocation list \<times> u64 \<times> 'r" where
  "adaptive_write L normal input locations c eta next_id rng s =
     adaptive_write_two L normal input input locations c eta next_id rng s WriteOpts_default"

section \<open>Loops that update locations by index\<close>

text \<open>
  \<open>for (local, global) in indices.enumerate() { locations[global] = f(...) }\<close>: what holds
  between an element before and after one update holds after the loop.
\<close>

lemma foldl_update_rel:
  assumes "\<And>a. R a a" "\<And>a b c. R a b \<Longrightarrow> R b c \<Longrightarrow> R a c" "\<And>p a. \<not> P p \<Longrightarrow> R a (f p a)"
  shows "list_all2 R ls (foldl (\<lambda>ls (p, g). if P p then ls else ls[g := f p (ls ! g)]) ls ps)"
proof (induction ps rule: rev_induct)
  case Nil
  then show ?case by (simp add: assms(1) list_all2_refl)
next
  case (snoc x ps)
  obtain p g where x: "x = (p, g)" by fastforce
  let ?m = "foldl (\<lambda>ls (p, g). if P p then ls else ls[g := f p (ls ! g)]) ls ps"
  have "list_all2 R ?m (?m[g := f p (?m ! g)])" if "\<not> P p"
    using assms(1,3) that by (intro list_all2_update)
  then show ?case
    using snoc.IH x assms(2) by (auto intro: list_all2_trans [of R R R])
qed

lemma foldl_update_other:
  "g \<notin> snd ` set ps \<Longrightarrow>
   foldl (\<lambda>ls (p, g). if P p then ls else ls[g := f p (ls ! g)]) ls ps ! g = ls ! g"
  by (induction ps arbitrary: ls) (auto split: prod.splits)

lemma foldl_update_length:
  "length (foldl (\<lambda>ls (p, g). if P p then ls else ls[g := f p (ls ! g)]) ls ps) = length ls"
  by (induction ps arbitrary: ls) (auto split: prod.splits)

lemma foldl_update_ensures:
  assumes "\<And>p a. Q (f p a)" "g \<in> snd ` set ps" "g < length ls" "\<And>p. \<not> P p"
  shows "Q (foldl (\<lambda>ls (p, g). if P p then ls else ls[g := f p (ls ! g)]) ls ps ! g)"
  using assms(2)
proof (induction ps rule: rev_induct)
  case Nil
  then show ?case by simp
next
  case (snoc x ps)
  obtain p h where x: "x = (p, h)" by fastforce
  let ?m = "foldl (\<lambda>ls (p, g). if P p then ls else ls[g := f p (ls ! g)]) ls ps"
  have "length ?m = length ls" by (rule foldl_update_length)
  then show ?case
    using snoc x assms(1,3,4) by (cases "g = h") auto
qed

section \<open>What a write preserves\<close>

definition loc_wf :: "nat \<Rightarrow> HardLocation \<Rightarrow> bool" where
  "loc_wf d l \<longleftrightarrow> length (loc_address l) = d \<and> length (loc_counter l) = d"

text \<open>An updated location is the same memory cell: same id, same vector lengths.\<close>

definition same_cell :: "HardLocation \<Rightarrow> HardLocation \<Rightarrow> bool" where
  "same_cell a b \<longleftrightarrow> loc_id b = loc_id a \<and> length (loc_address b) = length (loc_address a) \<and>
     length (loc_counter b) = length (loc_counter a)"

text \<open>Only the neighbour list may differ.\<close>

definition same_content :: "HardLocation \<Rightarrow> HardLocation \<Rightarrow> bool" where
  "same_content a b \<longleftrightarrow> loc_id b = loc_id a \<and> loc_address b = loc_address a \<and>
     loc_counter b = loc_counter a \<and> loc_write_count b = loc_write_count a \<and>
     loc_surprise_mass b = loc_surprise_mass a"

lemma same_cell_refl [simp]: "same_cell a a" and same_cell_trans: "same_cell a b \<Longrightarrow> same_cell b c \<Longrightarrow> same_cell a c"
  by (auto simp: same_cell_def)

lemma same_cells_trans:
  "list_all2 same_cell xs ys \<Longrightarrow> list_all2 same_cell ys zs \<Longrightarrow> list_all2 same_cell xs zs"
  by (rule list_all2_trans [OF same_cell_trans])

lemma same_content_refl [simp]: "same_content a a"
  and same_content_trans: "same_content a b \<Longrightarrow> same_content b c \<Longrightarrow> same_content a c"
  by (auto simp: same_content_def)

lemma same_content_cell: "same_content a b \<Longrightarrow> same_cell a b"
  by (simp add: same_content_def same_cell_def)

lemma join_location_cell: "same_cell l (join_location opts a c w win e1 e2 l)"
  by (simp add: same_cell_def join_location_def Let_def)

lemma join_location_neighbors: "loc_neighbors (join_location opts a c w win e1 e2 l) = loc_neighbors l"
  by (simp add: join_location_def Let_def)

lemma join_all_cells: "list_all2 same_cell ls (join_all opts a c ws wl e1 e2 idxs ls)"
  unfolding join_all_def Let_def
  by (rule foldl_update_rel [of same_cell "\<lambda>p. wo_gate opts \<and> \<not> p = wl"])
    (auto intro: same_cell_trans join_location_cell)

lemma update_neighbors_content: "list_all2 same_content ls (update_neighbors cap idxs ls)"
proof -
  have "list_all2 same_content ls
      (foldl (\<lambda>ls (p, g). if False then ls else ls[g := (\<lambda>p a. a\<lparr>loc_neighbors :=
          learn_peers cap ids (ids ! p) (loc_neighbors a)\<rparr>) p (ls ! g)]) ls ps)" for ids ps
    by (rule foldl_update_rel) (auto simp: same_content_def intro: same_content_trans)
  then show ?thesis by (simp add: update_neighbors_def Let_def list_all2_refl)
qed

lemma learn_peers_cap: "length (learn_peers cap ids i ns) \<le> cap"
  by (simp add: learn_peers_def Let_def)

lemma learn_peers_inv:
  "i \<notin> set ns \<Longrightarrow> distinct ns \<Longrightarrow> i \<notin> set (learn_peers cap ids i ns) \<and> distinct (learn_peers cap ids i ns)"
proof -
  let ?f = "\<lambda>ns p. if p = i then ns else if p \<notin> set ns then ns @ [p] else ns"
  assume "i \<notin> set ns" "distinct ns"
  then have "i \<notin> set (foldl ?f ns ids) \<and> distinct (foldl ?f ns ids)"
    by (induction ids arbitrary: ns) auto
  then show ?thesis by (auto simp: learn_peers_def Let_def dest: in_set_dropD)
qed

lemma update_neighbors_cap:
  assumes "0 < cap" "g \<in> set idxs" "g < length ls"
  shows "length (loc_neighbors (update_neighbors cap idxs ls ! g)) \<le> cap"
proof -
  have snds: "snd ` set (zip [0..<length idxs] idxs) = set idxs"
    by (metis set_map map_snd_zip length_upt diff_zero)
  have "length (loc_neighbors (foldl (\<lambda>ls (p, g). if False then ls else ls[g := (\<lambda>p a. a\<lparr>loc_neighbors :=
          learn_peers cap ids (ids ! p) (loc_neighbors a)\<rparr>) p (ls ! g)]) ls (zip [0..<length idxs] idxs) ! g)) \<le> cap"
    for ids
    by (rule foldl_update_ensures) (use assms snds in \<open>auto simp: learn_peers_cap\<close>)
  then show ?thesis using assms(1) by (simp add: update_neighbors_def Let_def)
qed

lemma split_location_cells:
  assumes "split_location cap i p w = (child, parent)"
  shows "loc_id child = i" "same_cell w parent" "loc_wf d w \<Longrightarrow> loc_wf d child"
    "0 < cap \<Longrightarrow> length (loc_neighbors w) \<le> cap \<Longrightarrow>
       length (loc_neighbors child) \<le> cap \<and> length (loc_neighbors parent) \<le> cap"
  using assms by (auto simp: split_location_def HardLocation_new_def loc_wf_def same_cell_def Let_def split: if_splits)

lemma update_phase_cells:
  "list_all2 same_cell ls (update_phase L c opts a ct eta ws sims idxs wl joins ls)"
proof -
  have 1: "list_all2 same_cell ls (if joins then join_all opts a ct ws wl e e' idxs ls else ls)" for e e'
    by (simp add: join_all_cells list_all2_refl)
  have 2: "list_all2 same_cell xs (if b then xs[g := (xs ! g)\<lparr>loc_surprise_mass := m\<rparr>] else xs)" for xs b g m
    by (auto simp: same_cell_def list_all2_refl intro!: list_all2_update)
  have 3: "list_all2 same_cell xs (update_neighbors cap idxs xs)" for xs cap
    using update_neighbors_content by (rule list_all2_mono) (rule same_content_cell)
  show ?thesis
    unfolding update_phase_def Let_def
    by (rule same_cells_trans [OF same_cells_trans [OF 1 2] 3])
qed

lemma update_phase_spawn:
  "list_all2 same_content ls (update_phase L c opts a ct eta ws sims idxs wl False ls)"
  by (simp add: update_phase_def update_neighbors_content)

lemma regulate_cells:
  assumes "regulate L normal c address counter indices w joins ls nid rng = (new, ls', nid', rng')"
  shows "list_all2 same_cell ls ls'" "length new \<le> 1" "nid' = nid + of_nat (length new)"
    "\<forall>l\<in>set new. loc_id l = nid" "\<not> joins \<Longrightarrow> ls' = ls \<and> length new = 1"
    "w < length ls \<Longrightarrow> \<forall>l\<in>set ls. loc_wf (cfg_d c) l \<Longrightarrow> length address = cfg_d c \<Longrightarrow>
       length counter = cfg_d c \<Longrightarrow> \<forall>l\<in>set new. loc_wf (cfg_d c) l"
proof -
  obtain pert rng2 where p: "random_unit_vector normal (cfg_d c) rng = (pert, rng2)" by fastforce
  let ?cap = "adaptive_neighbor_cap L c (length ls)"
  obtain child winner where sp: "split_location ?cap nid pert (ls ! w) = (child, winner)" by fastforce
  note cells = split_location_cells [OF sp]
  have "list_all2 same_cell ls (ls[w := winner])"
    using cells(2) by (intro list_all2_update) simp_all
  then show "list_all2 same_cell ls ls'"
    using assms by (auto simp: regulate_def Let_def p sp list_all2_refl split: if_splits)
  show "length new \<le> 1" "nid' = nid + of_nat (length new)" "\<not> joins \<Longrightarrow> ls' = ls \<and> length new = 1"
    using assms by (auto simp: regulate_def Let_def p sp split: if_splits)
  show "\<forall>l\<in>set new. loc_id l = nid"
    using assms cells(1)
    by (auto simp: regulate_def Let_def p sp novelty_location_def HardLocation_new_def split: if_splits)
  show "\<forall>l\<in>set new. loc_wf (cfg_d c) l"
    if "w < length ls" "\<forall>l\<in>set ls. loc_wf (cfg_d c) l" "length address = cfg_d c" "length counter = cfg_d c"
    using assms cells(3) that
    by (auto simp: regulate_def Let_def p sp novelty_location_def HardLocation_new_def loc_wf_def split: if_splits)
qed

lemma same_cells_wf: "list_all2 same_cell ls ls' \<Longrightarrow> (\<forall>l\<in>set ls'. loc_wf d l) \<longleftrightarrow> (\<forall>l\<in>set ls. loc_wf d l)"
  by (auto simp: list_all2_conv_all_nth all_set_conv_all_nth same_cell_def loc_wf_def)

lemma same_cells_ids: "list_all2 same_cell ls ls' \<Longrightarrow> map loc_id ls' = map loc_id ls"
  by (auto simp: list_all2_conv_all_nth same_cell_def intro: nth_equalityI)

text \<open>The winner is one of the activated locations.\<close>

lemma select_winner_bound:
  assumes "indices \<noteq> []" "length sims = length indices"
  shows "fst (select_winner c opts counter locations indices sims) < length indices"
proof -
  have "fst (gated_winner opts counter locations indices sims) < length indices"
    using assms by (auto simp: gated_winner_def Let_def split: option.splits dest!: max_by_in)
  moreover have "conscience_winner c locations indices sims < length indices"
    using assms by (auto simp: conscience_winner_def Let_def set_zip split: option.splits dest!: max_by_in)
  ultimately show ?thesis by (simp add: select_winner_def)
qed

text \<open>The competitive write on a non-empty memory, with its intermediate values named.\<close>

lemma adaptive_write_two_cases:
  assumes "adaptive_write_two L normal address counter ls c eta nid rng s opts = (r, ls', nid', rng')"
    and "address \<noteq> []"
  obtains (append) "\<not> cfg_competitive c" "ls' = ls" "nid' = nid + 1" "rng' = rng" "wr_eta r = eta"
      "wr_modified_indices r = []"
      "wr_new_locations r = [(HardLocation_new nid address)\<lparr>loc_counter := counter, loc_write_count := 1\<rparr>]"
  | (seed) "cfg_competitive c" "ls' = ls" "nid' = nid + 1" "rng' = rng" "wr_eta r = eta"
      "wr_modified_indices r = []"
      "wr_new_locations r =
         [(HardLocation_new nid (normalize address))\<lparr>loc_counter := counter, loc_write_count := 1\<rparr>]"
  | (adapt) indices sims wl force joins mid where "cfg_competitive c"
      "nearest address ls (min (cfg_k c) (length ls)) s = (indices, sims)"
      "indices \<noteq> []" "length indices = length sims" "set indices \<subseteq> {..<length ls}" "distinct indices"
      "select_winner c opts counter ls indices sims = (wl, force)" "wl < length indices"
      "joins = (\<not> spawns L c opts force (sims ! 0) (length ls))"
      "mid = update_phase L c opts address counter eta
         (activation_weights sims (min (cfg_k c) (length ls))) sims indices wl joins ls"
      "regulate L normal c address counter indices (indices ! wl) joins mid nid rng =
         (wr_new_locations r, ls', nid', rng')"
      "wr_eta r = f64_max (eta * cfg_lambda c) (cfg_eta_min c)" "wr_modified_indices r = indices"
proof (cases "cfg_competitive c")
  case False
  then show ?thesis using append assms(1) by (auto simp: adaptive_write_two_def)
next
  case True
  obtain indices sims where n: "nearest address ls (min (cfg_k c) (length ls)) s = (indices, sims)"
    by fastforce
  note b = nearest_bounds [OF assms(2) n]
  obtain wl force where w: "select_winner c opts counter ls indices sims = (wl, force)" by fastforce
  show ?thesis
  proof (cases "indices = []")
    case nil: True
    then show ?thesis using seed True n assms(1) by (auto simp: adaptive_write_two_def Let_def)
  next
    case False
    have "wl < length indices"
      using select_winner_bound [OF False, of sims c opts counter ls] b(1) w by simp
    then show ?thesis
      using adapt [OF True n False b(1,3,4) w] assms(1) n w False True
      by (simp add: adaptive_write_two_def Let_def split: prod.splits) (metis WriteResult.select_convs)
  qed
qed

lemma adaptive_write_cells:
  assumes w: "adaptive_write_two L normal address counter ls c eta nid rng s opts = (r, ls', nid', rng')"
    and "address \<noteq> []"
  shows "list_all2 same_cell ls ls'" "length (wr_new_locations r) \<le> 1"
    "nid' = nid + of_nat (length (wr_new_locations r))" "\<forall>l\<in>set (wr_new_locations r). loc_id l = nid"
    "\<forall>l\<in>set ls. loc_wf (cfg_d c) l \<Longrightarrow> length address = cfg_d c \<Longrightarrow> length counter = cfg_d c \<Longrightarrow>
       \<forall>l\<in>set (wr_new_locations r). loc_wf (cfg_d c) l"
    "set (wr_modified_indices r) \<subseteq> {..<length ls}"
proof -
  have "list_all2 same_cell ls ls' \<and> length (wr_new_locations r) \<le> 1 \<and>
    nid' = nid + of_nat (length (wr_new_locations r)) \<and> (\<forall>l\<in>set (wr_new_locations r). loc_id l = nid) \<and>
    ((\<forall>l\<in>set ls. loc_wf (cfg_d c) l) \<longrightarrow> length address = cfg_d c \<longrightarrow> length counter = cfg_d c \<longrightarrow>
       (\<forall>l\<in>set (wr_new_locations r). loc_wf (cfg_d c) l)) \<and> set (wr_modified_indices r) \<subseteq> {..<length ls}"
    using w assms(2)
  proof (cases rule: adaptive_write_two_cases)
    case append
    then show ?thesis by (simp add: list_all2_refl HardLocation_new_def loc_wf_def)
  next
    case seed
    then show ?thesis by (simp add: list_all2_refl HardLocation_new_def loc_wf_def)
  next
    case (adapt indices sims wl force joins mid)
    have mid: "list_all2 same_cell ls mid" unfolding adapt(10) by (rule update_phase_cells)
    have len: "length mid = length ls" using mid by (simp add: list_all2_lengthD)
    note reg = regulate_cells [OF adapt(11)]
    have "indices ! wl < length mid" using adapt(5,8) len nth_mem by fastforce
    then show ?thesis
      using reg same_cells_trans [OF mid reg(1)] same_cells_wf [OF mid] adapt(5,13) by simp
  qed
  then show "list_all2 same_cell ls ls'" "length (wr_new_locations r) \<le> 1"
    "nid' = nid + of_nat (length (wr_new_locations r))" "\<forall>l\<in>set (wr_new_locations r). loc_id l = nid"
    "\<forall>l\<in>set ls. loc_wf (cfg_d c) l \<Longrightarrow> length address = cfg_d c \<Longrightarrow> length counter = cfg_d c \<Longrightarrow>
       \<forall>l\<in>set (wr_new_locations r). loc_wf (cfg_d c) l"
    "set (wr_modified_indices r) \<subseteq> {..<length ls}"
    by blast+
qed

section \<open>What a write leaves alone\<close>

lemma foldl_update_others:
  "g \<notin> set idxs \<Longrightarrow>
   foldl (\<lambda>ls (p, g). if P p then ls else ls[g := f p (ls ! g)]) ls (zip [0..<length idxs] idxs) ! g = ls ! g"
  by (rule foldl_update_other) (auto dest: set_zip_rightD)

lemma update_neighbors_other: "g \<notin> set idxs \<Longrightarrow> update_neighbors cap idxs ls ! g = ls ! g"
  using foldl_update_others [of g idxs "\<lambda>_. False" "\<lambda>p l. l\<lparr>loc_neighbors :=
    learn_peers cap (map (\<lambda>i. loc_id (ls ! i)) idxs) (map (\<lambda>i. loc_id (ls ! i)) idxs ! p) (loc_neighbors l)\<rparr>" ls]
  by (simp add: update_neighbors_def Let_def)

lemma join_all_other: "g \<notin> set idxs \<Longrightarrow> join_all opts a c ws wl e1 e2 idxs ls ! g = ls ! g"
  using foldl_update_others [of g idxs "\<lambda>p. wo_gate opts \<and> p \<noteq> wl"
    "\<lambda>p l. join_location opts a c (ws ! p) (p = wl) e1 e2 l" ls]
  by (simp add: join_all_def Let_def)

lemma update_phase_other:
  assumes "g \<notin> set idxs" "wl < length idxs"
  shows "update_phase L c opts a ct eta ws sims idxs wl joins ls ! g = ls ! g"
proof -
  have "idxs ! wl \<noteq> g" using assms nth_mem by metis
  then show ?thesis
    using assms by (simp add: update_phase_def Let_def update_neighbors_other join_all_other)
qed

lemma regulate_other:
  assumes "regulate L normal c address counter indices w joins ls nid rng = (new, ls', nid', rng')" "g \<noteq> w"
  shows "ls' ! g = ls ! g"
proof -
  obtain pert rng2 where p: "random_unit_vector normal (cfg_d c) rng = (pert, rng2)" by fastforce
  obtain child winner where sp: "split_location (adaptive_neighbor_cap L c (length ls)) nid pert (ls ! w) = (child, winner)"
    by fastforce
  show ?thesis using assms by (auto simp: regulate_def Let_def p sp split: if_splits)
qed

text \<open>Only the locations reported as modified are touched.\<close>

lemma adaptive_write_untouched:
  assumes "adaptive_write_two L normal address counter ls c eta nid rng s opts = (r, ls', nid', rng')"
    and "address \<noteq> []" "g \<notin> set (wr_modified_indices r)"
  shows "ls' ! g = ls ! g"
  using assms(1,2)
proof (cases rule: adaptive_write_two_cases)
  case (adapt indices sims wl force joins mid)
  then have g: "g \<notin> set indices" using assms(3) by simp
  then have "g \<noteq> indices ! wl" using adapt(8) by (metis nth_mem)
  then show ?thesis using regulate_other [OF adapt(11)] update_phase_other [OF g adapt(8)] adapt(10) by simp
qed simp_all

section \<open>Neighbour capacity\<close>

lemma update_phase_cap:
  assumes "0 < adaptive_neighbor_cap L c (length ls)" "i \<in> set indices" "i < length ls"
  shows "length (loc_neighbors (update_phase L c opts a ct eta ws sims indices wl joins ls ! i))
     \<le> adaptive_neighbor_cap L c (length ls)"
proof -
  have len: "length (join_all opts a ct ws wl e1 e2 indices ls) = length ls" for e1 e2
    using join_all_cells by (rule list_all2_lengthD [symmetric])
  show ?thesis
    unfolding update_phase_def Let_def using assms len by (auto simp: update_neighbors_cap)
qed

lemma regulate_cap:
  assumes "regulate L normal c address counter indices w joins ls nid rng = (new, ls', nid', rng')"
    and "0 < adaptive_neighbor_cap L c (length ls)" "w \<in> set indices" "set indices \<subseteq> {..<length ls}"
    and "\<forall>i\<in>set indices. length (loc_neighbors (ls ! i)) \<le> adaptive_neighbor_cap L c (length ls)"
  shows "(\<forall>i\<in>set indices. length (loc_neighbors (ls' ! i)) \<le> adaptive_neighbor_cap L c (length ls)) \<and>
     (\<forall>l\<in>set new. length (loc_neighbors l) \<le> adaptive_neighbor_cap L c (length ls))"
proof -
  let ?cap = "adaptive_neighbor_cap L c (length ls)"
  obtain pert rng2 where p: "random_unit_vector normal (cfg_d c) rng = (pert, rng2)" by fastforce
  obtain child winner where sp: "split_location ?cap nid pert (ls ! w) = (child, winner)" by fastforce
  have cells: "length (loc_neighbors child) \<le> ?cap \<and> length (loc_neighbors winner) \<le> ?cap"
    using split_location_cells(4) [OF sp assms(2)] assms(3,5) by blast
  have upd: "length (loc_neighbors (ls[w := winner] ! i)) \<le> ?cap" if "i \<in> set indices" for i
    using cells assms(3-5) that by (cases "i = w") auto
  show ?thesis
    using assms(1,2,5) cells upd
    by (auto simp: regulate_def Let_def p sp novelty_location_def split: if_splits)
qed

section \<open>Properties\<close>

text \<open>A write keeps the memory well formed: every existing location keeps its place, its id
  and its dimensions; at most one location is added, with the next id, which advances by the
  number added; its vectors have the collection's dimension; and the indices reported as
  modified are those of existing locations.\<close>

lemma write_keeps_cells:
  assumes "adaptive_write_two L normal address counter ls c eta nid rng s opts = (r, ls', nid', rng')"
    and "address \<noteq> []" "\<forall>l\<in>set ls. loc_wf (cfg_d c) l"
    and "length address = cfg_d c" "length counter = cfg_d c"
  shows "list_all2 same_cell ls ls' \<and> length (wr_new_locations r) \<le> 1 \<and>
     nid' = nid + of_nat (length (wr_new_locations r)) \<and>
     (\<forall>l\<in>set (wr_new_locations r). loc_id l = nid \<and> loc_wf (cfg_d c) l) \<and>
     set (wr_modified_indices r) \<subseteq> {..<length ls}"
  using adaptive_write_cells [OF assms(1,2)] assms(3-5) by blast

definition flat_libm :: libm where  \<comment> \<open>for the witnesses: constant functions\<close>
  "flat_libm = \<lparr>lm_exp = (\<lambda>_. 1), lm_ln = (\<lambda>_. 1), lm_log2 = (\<lambda>_. 1)\<rparr>"

definition unit_location :: HardLocation where
  "unit_location = \<lparr>loc_id = 0, loc_address = [1, 0], loc_counter = [1, 0], loc_write_count = 1,
     loc_neighbors = [], loc_surprise_mass = 0\<rparr>"

definition sample_write :: "f64 list \<Rightarrow> WriteResult \<times> HardLocation list \<times> u64 \<times> unit" where
  "sample_write v = adaptive_write_two flat_libm (\<lambda>r. (0, r)) v v [unit_location]
     (EAMConfig_defaults 2) (f64_dec 1 2) 1 () default_scan WriteOpts_default"

text \<open>A write that spawns touches no existing memory: when the best match is not close
  enough, one location is added and every existing location keeps its address, counter, write
  count and surprise; only neighbour lists may grow.\<close>

lemma spawn_leaves_memory:
  assumes "adaptive_write_two L normal address counter ls c eta nid rng s opts = (r, ls', nid', rng')"
    and "address \<noteq> []" "cfg_competitive c"
    and "nearest address ls (min (cfg_k c) (length ls)) s = (indices, sims)" "indices \<noteq> []"
    and "select_winner c opts counter ls indices sims = (wl, force)"
    and "spawns L c opts force (sims ! 0) (length ls)"
  shows "list_all2 same_content ls ls' \<and> length (wr_new_locations r) = 1"
  using assms(1,2)
proof (cases rule: adaptive_write_two_cases)
  case append
  then show ?thesis using assms(3) by simp
next
  case seed
  then show ?thesis
    using assms by (auto simp: adaptive_write_two_def Let_def list_all2_refl split: prod.splits)
next
  case (adapt indices' sims' wl' force' joins mid)
  then have "joins = False" using assms(4,6,7) by simp
  with regulate_cells(5) [OF adapt(11)] adapt(2,7,10) assms(4,6) show ?thesis
    by (simp add: update_phase_spawn)
qed

text \<open>With the neighbour graph on, a write leaves no activated location and no new location
  with more neighbours than the adaptive capacity.\<close>

lemma write_bounds_neighbors:
  assumes "adaptive_write_two L normal address counter ls c eta nid rng s opts = (r, ls', nid', rng')"
    and "address \<noteq> []" "0 < adaptive_neighbor_cap L c (length ls)"
  shows "(\<forall>i\<in>set (wr_modified_indices r).
       length (loc_neighbors (ls' ! i)) \<le> adaptive_neighbor_cap L c (length ls)) \<and>
     (\<forall>l\<in>set (wr_new_locations r). length (loc_neighbors l) \<le> adaptive_neighbor_cap L c (length ls))"
  using assms(1,2)
proof (cases rule: adaptive_write_two_cases)
  case append
  then show ?thesis by (simp add: HardLocation_new_def)
next
  case seed
  then show ?thesis by (simp add: HardLocation_new_def)
next
  case (adapt indices sims wl force joins mid)
  let ?cap = "adaptive_neighbor_cap L c (length ls)"
  have len: "length mid = length ls"
    unfolding adapt(10) using update_phase_cells by (rule list_all2_lengthD [symmetric])
  have mid: "length (loc_neighbors (mid ! i)) \<le> ?cap" if "i \<in> set indices" for i
    unfolding adapt(10) by (rule update_phase_cap [OF assms(3) that]) (use that adapt(5) in auto)
  show ?thesis
    using regulate_cap [OF adapt(11)] mid adapt(5,8,13) assms(3) len by simp
qed

end
