(* ===== verification/Merge.thy ===== *)
theory Merge
  imports Write
begin

text \<open>
  heather_db/src/nearest.rs (the brute-force search, plain and tiled) and
  heather_db/src/merge.rs (merging nearest pairs above the threshold). The projected
  search of nearest.rs is an argument of \<open>nearest_neighbors\<close> here; the theory \<open>Projected\<close>
  models it.
\<close>

section \<open>Nearest neighbours by brute force\<close>

definition usize_max :: nat where
  "usize_max = 2 ^ 64 - 1"

definition sim :: "HardLocation list \<Rightarrow> f64 list \<Rightarrow> nat \<Rightarrow> nat \<Rightarrow> f64" where
  "sim locations norms i j =
     dot (loc_address (locations ! i)) (loc_address (locations ! j)) / (norms ! i * norms ! j)"

definition better_pair ::
  "HardLocation list \<Rightarrow> f64 list \<Rightarrow> nat \<Rightarrow> nat \<times> f64 \<Rightarrow> nat \<Rightarrow> nat \<times> f64" where
  "better_pair locations norms i best j =
     (if i = j \<or> norms ! j < tiny then best
      else let s = sim locations norms i j in if snd best < s then (j, s) else best)"

definition brute_one :: "HardLocation list \<Rightarrow> f64 list \<Rightarrow> nat \<Rightarrow> (nat \<times> f64) option" where
  "brute_one locations norms i =
     (if norms ! i < tiny then None
      else let best = foldl (better_pair locations norms i) (usize_max, f64_neg_infinity)
                        [0..<length locations]
           in if fst best \<noteq> usize_max then Some best else None)"

text \<open>The tiled search: a block of 32 rows against blocks of 256 columns.\<close>

definition brute_block :: "HardLocation list \<Rightarrow> f64 list \<Rightarrow> nat \<Rightarrow> (nat \<times> f64) option list" where
  "brute_block locations norms block =
     (let n = length locations;
          rows = [block * 32..<min ((block + 1) * 32) n];
          best = foldl (\<lambda>best start.
                   let cols = [start * 256..<min ((start + 1) * 256) n]
                   in foldl (\<lambda>best (r, i).
                        if norms ! i < tiny then best
                        else best[r := foldl (better_pair locations norms i) (best ! r) cols])
                      best (zip [0..<length rows] rows))
                 (replicate (length rows) (usize_max, f64_neg_infinity)) [0..<(n + 255) div 256]
      in map2 (\<lambda>i b. if tiny \<le> norms ! i \<and> fst b \<noteq> usize_max then Some b else None) rows best)"

definition brute :: "HardLocation list \<Rightarrow> f64 list \<Rightarrow> (nat \<times> f64) option list" where
  "brute locations norms =
     concat (map (brute_block locations norms) [0..<(length locations + 31) div 32])"

type_synonym projected = "HardLocation list \<Rightarrow> f64 list \<Rightarrow> (nat \<times> f64) option list option"

definition nearest_neighbors ::
  "projected \<Rightarrow> HardLocation list \<Rightarrow> f64 list \<Rightarrow> (nat \<times> f64) option list" where
  "nearest_neighbors projected locations norms =
     (case projected locations norms of Some nn \<Rightarrow> nn | None \<Rightarrow> brute locations norms)"

section \<open>Merging\<close>

record MergeResult =
  mr_removed_ids :: "u64 list"
  mr_merge_map :: "(u64 \<times> u64) list"
  mr_merge_count :: nat

record merge_state =
  ms_locations :: "HardLocation list"
  ms_merged :: "bool list"
  ms_removed :: "u64 list"
  ms_map :: "(u64 \<times> u64) list"
  ms_count :: nat

text \<open>The survivor of merging \<open>b\<close> into \<open>a\<close>, with \<open>nb_cap\<close> the adaptive capacity.\<close>

definition merge_into :: "EAMConfig \<Rightarrow> nat \<Rightarrow> HardLocation \<Rightarrow> HardLocation \<Rightarrow> HardLocation" where
  "merge_into c nb_cap a b =
     (let total_wc = loc_write_count a + loc_write_count b;
          address =
            (if tiny < total_wc
             then let wi = loc_write_count a / total_wc; wj = loc_write_count b / total_wc;
                      new_addr = map2 (\<lambda>x y. x * wi + y * wj) (loc_address a) (loc_address b)
                  in if cfg_competitive c then normalize new_addr else new_addr
             else loc_address a);
          neighbors = foldl (\<lambda>ns n. if n \<noteq> loc_id a \<and> n \<notin> set ns then ns @ [n] else ns)
                        (loc_neighbors a) (loc_neighbors b);
          neighbors = filter (\<lambda>n. n \<noteq> loc_id b) neighbors;
          neighbors = (if nb_cap > 0 \<and> length neighbors > nb_cap then take nb_cap neighbors else neighbors)
      in a\<lparr>loc_address := address, loc_counter := add_scaled (loc_counter a) (loc_counter b) 1,
           loc_write_count := total_wc, loc_neighbors := neighbors\<rparr>)"

definition merge_pair :: "libm \<Rightarrow> EAMConfig \<Rightarrow> merge_state \<Rightarrow> nat \<times> nat \<times> f64 \<Rightarrow> merge_state" where
  "merge_pair L c s p =
     (let (i, j, _) = p in
      if ms_merged s ! i \<or> ms_merged s ! j then s
      else let a = ms_locations s ! i; b = ms_locations s ! j;
               nb_cap = adaptive_neighbor_cap L c (length (ms_locations s))
           in \<lparr>ms_locations = (ms_locations s)[i := merge_into c nb_cap a b],
               ms_merged = (ms_merged s)[j := True],
               ms_removed = ms_removed s @ [loc_id b],
               ms_map = ms_map s @ [(loc_id b, loc_id a)],
               ms_count = ms_count s + 1\<rparr>)"

definition merge_pairs ::
  "projected \<Rightarrow> EAMConfig \<Rightarrow> HardLocation list \<Rightarrow> (nat \<times> nat \<times> f64) list" where
  "merge_pairs projected c locations =
     (let norms = map (\<lambda>l. l2_norm (loc_address l)) locations;
          nns = nearest_neighbors projected locations norms;
          found = zip [0..<length nns] nns;
          pairs = List.map_filter (\<lambda>(i, nn). case nn of
                    Some (j, s) \<Rightarrow> if cfg_tau_merge c < s then Some (i, j, s) else None
                  | None \<Rightarrow> None) found
      in sort_by (\<lambda>a b. snd (snd b) < snd (snd a)) pairs)"

definition knn_merge ::
  "libm \<Rightarrow> projected \<Rightarrow> HardLocation list \<Rightarrow> EAMConfig \<Rightarrow> MergeResult \<times> HardLocation list" where
  "knn_merge L projected locations c =
     (if length locations < 2
      then (\<lparr>mr_removed_ids = [], mr_merge_map = [], mr_merge_count = 0\<rparr>, locations)
      else let s = foldl (merge_pair L c)
                     \<lparr>ms_locations = locations, ms_merged = replicate (length locations) False,
                      ms_removed = [], ms_map = [], ms_count = 0\<rparr>
                     (merge_pairs projected c locations)
           in (\<lparr>mr_removed_ids = ms_removed s, mr_merge_map = ms_map s, mr_merge_count = ms_count s\<rparr>,
               map snd (filter (\<lambda>(m, l). \<not> m) (zip (ms_merged s) (ms_locations s)))))"

section \<open>The tiled search is the plain one\<close>

lemma blocks_concat:
  assumes "0 < k"
  shows "concat (map (\<lambda>b. [b * k..<min ((b + 1) * k) n]) [0..<m]) = [0..<min (m * k) n]"
proof (induction m)
  case 0
  then show ?case by simp
next
  case (Suc m)
  have "[0..<min (m * k) n] @ [m * k..<min ((m + 1) * k) n] = [0..<min (Suc m * k) n]"
  proof (cases "m * k \<le> n")
    case True
    then have "min (m * k) n = m * k" "m * k \<le> min (Suc m * k) n" by auto
    then obtain e where "min (Suc m * k) n = m * k + e" by (metis le_Suc_ex)
    then show ?thesis
      using upt_add_eq_append [of 0 "m * k" e] \<open>min (m * k) n = m * k\<close> by simp
  next
    case False
    then show ?thesis by (simp add: min_def)
  qed
  with Suc show ?case by simp
qed

lemma ceil_blocks: "0 < k \<Longrightarrow> n \<le> (n + (k - 1)) div k * k" for k n :: nat
  using div_mult_mod_eq [of "n + (k - 1)" k] mod_less_divisor [of k "n + (k - 1)"] by linarith

lemma blocks_cover: "0 < k \<Longrightarrow> concat (map (\<lambda>b. [b * k..<min ((b + 1) * k) n]) [0..<(n + (k - 1)) div k]) = [0..<n]"
  using blocks_concat [of k n] ceil_blocks [of k n] by (simp add: min_absorb2)

lemma row_pass:
  assumes "length best = length rows"
  shows "foldl (\<lambda>best (r, i). if skip i then best else best[r := f i (best ! r)]) best
           (zip [0..<length rows] rows) =
         map2 (\<lambda>i b. if skip i then b else f i b) rows best"
proof -
  let ?g = "\<lambda>best (r, i). if skip i then best else best[r := f i (best ! r)]"
  have step: "foldl ?g (pre @ bs) (enumerate (length pre) rs) =
      pre @ map2 (\<lambda>i b. if skip i then b else f i b) rs bs"
    if "length bs = length rs" for pre bs rs
    using that
  proof (induction rs arbitrary: pre bs)
    case Nil
    then show ?case by simp
  next
    case (Cons i rs)
    obtain b bs' where bs: "bs = b # bs'" using Cons.prems by (cases bs) auto
    have "?g (pre @ bs) (length pre, i) = (pre @ [if skip i then b else f i b]) @ bs'"
      by (simp add: bs)
    moreover have "length bs' = length rs" using Cons.prems bs by simp
    ultimately show ?case
      using Cons.IH [of bs' "pre @ [if skip i then b else f i b]"]
      by (cases "skip i") (simp_all add: bs)
  qed
  show ?thesis using step [of best rows "[]"] assms by (simp add: enumerate_eq_zip)
qed

text \<open>A location whose norm is NaN has no neighbour in either search.\<close>

lemma tiny_not_nan: "\<not> is_nan tiny"
  by code_simp

lemma is_nan_unpack: "is_nan x \<longleftrightarrow> f64_unpack x = Nan"
  by (simp add: is_nan_def f64_mag_def f64_unpack_def unpack_def fmt64_def Let_def)

lemma nan_absorbs: "is_nan x \<Longrightarrow> is_nan (x * y)" "is_nan y \<Longrightarrow> is_nan (x / y)"
proof -
  have n: "is_nan (f64_of_int (nan_bits fmt64))" by code_simp
  show "is_nan x \<Longrightarrow> is_nan (x * y)" using n by (simp add: is_nan_unpack times_f64_def)
  show "is_nan y \<Longrightarrow> is_nan (x / y)"
    using n by (cases "f64_unpack x") (simp_all add: is_nan_unpack divide_f64_def)
qed

lemma better_pair_nan: "is_nan (norms ! i) \<Longrightarrow> foldl (better_pair ls norms i) best js = best"
  by (induction js) (auto simp: better_pair_def sim_def Let_def nan_absorbs f64_less_nan)

lemma brute_block_rows:
  "brute_block locations norms block =
     map (brute_one locations norms) [block * 32..<min ((block + 1) * 32) (length locations)]"
proof -
  let ?n = "length locations"
  let ?rows = "[block * 32..<min ((block + 1) * 32) ?n]"
  let ?init = "(usize_max, f64_neg_infinity)"
  let ?pass = "\<lambda>i cols b. if norms ! i < tiny then b else foldl (better_pair locations norms i) b cols"
  have "foldl (\<lambda>best start. foldl (\<lambda>best (r, i). if norms ! i < tiny then best
            else best[r := foldl (better_pair locations norms i) (best ! r) (cols start)]) best
            (zip [0..<length ?rows] ?rows)) (map init ?rows) starts =
        map (\<lambda>i. ?pass i (concat (map cols starts)) (init i)) ?rows"
    for cols :: "nat \<Rightarrow> nat list" and starts init
  proof (induction starts arbitrary: init)
    case Nil
    then show ?case by simp
  next
    case (Cons st starts)
    have "foldl (\<lambda>best (r, i). if norms ! i < tiny then best
            else best[r := foldl (better_pair locations norms i) (best ! r) (cols st)]) (map init ?rows)
            (zip [0..<length ?rows] ?rows) = map (\<lambda>i. ?pass i (cols st) (init i)) ?rows"
      by (subst row_pass [of _ _ "\<lambda>i. norms ! i < tiny" "\<lambda>i b. foldl (better_pair locations norms i) b (cols st)"])
        (auto simp: zip_map2 zip_same_conv_map)
    then show ?case
      using Cons.IH [of "\<lambda>i. ?pass i (cols st) (init i)"] by (simp add: if_distrib cong: if_cong)
  qed
  from this [of "\<lambda>s. [s * 256..<min ((s + 1) * 256) ?n]" "\<lambda>_. ?init" "[0..<(?n + 255) div 256]"]
  have rows: "foldl (\<lambda>best start. foldl (\<lambda>best (r, i). if norms ! i < tiny then best
            else best[r := foldl (better_pair locations norms i) (best ! r)
                  [start * 256..<min ((start + 1) * 256) ?n]]) best
            (zip [0..<length ?rows] ?rows)) (replicate (length ?rows) ?init) [0..<(?n + 255) div 256] =
        map (\<lambda>i. ?pass i [0..<?n] ?init) ?rows"
    using blocks_cover [of 256 ?n] by (simp add: map_replicate_const)
  have nan: "tiny \<le> norms ! i" if "\<not> norms ! i < tiny"
      "fst (foldl (better_pair locations norms i) ?init [0..<?n]) \<noteq> usize_max" for i
    using that better_pair_nan [of norms i locations ?init "[0..<?n]"] f64_not_less [of "norms ! i" tiny]
      tiny_not_nan by (cases "is_nan (norms ! i)") auto
  have "map2 (\<lambda>i b. if tiny \<le> norms ! i \<and> fst b \<noteq> usize_max then Some b else None) ?rows
      (map (\<lambda>i. ?pass i [0..<?n] ?init) ?rows) = map (brute_one locations norms) ?rows"
    using nan by (auto simp: zip_map2 zip_same_conv_map brute_one_def Let_def)
  then show ?thesis unfolding brute_block_def Let_def rows .
qed

lemma brute_brute_one: "brute locations norms = map (brute_one locations norms) [0..<length locations]"
proof -
  have "brute locations norms =
      map (brute_one locations norms)
        (concat (map (\<lambda>b. [b * 32..<min ((b + 1) * 32) (length locations)]) [0..<(length locations + 31) div 32]))"
    by (simp add: brute_def brute_block_rows [abs_def] map_concat o_def)
  then show ?thesis using blocks_cover [of 32 "length locations"] by simp
qed

lemma brute_one_range:
  assumes "brute_one locations norms i = Some (j, s)" "length locations \<le> usize_max"
  shows "j < length locations \<and> j \<noteq> i"
proof -
  have "fst (foldl (better_pair locations norms i) b js) \<in> insert (fst b) (set js - {i})" for b js
  proof (induction js arbitrary: b)
    case Nil
    then show ?case by simp
  next
    case (Cons j js)
    have "fst (better_pair locations norms i b j) = fst b \<or>
        fst (better_pair locations norms i b j) = j \<and> j \<noteq> i"
      by (simp add: better_pair_def Let_def)
    then show ?case using Cons.IH [of "better_pair locations norms i b j"] by auto
  qed
  from this [of "(usize_max, f64_neg_infinity)" "[0..<length locations]"] show ?thesis
    using assms by (auto simp: brute_one_def Let_def split: if_splits)
qed

section \<open>What merging preserves\<close>

text \<open>Where a reference to location \<open>i\<close> points after the merges, applied in order.\<close>

definition resolve :: "(u64 \<times> u64) list \<Rightarrow> u64 \<Rightarrow> u64" where
  "resolve m i = foldl (\<lambda>i (removed, survivor). if i = removed then survivor else i) i m"

lemma resolve_append [simp]: "resolve (m @ [(r, s)]) i = (if resolve m i = r then s else resolve m i)"
  by (simp add: resolve_def)

definition merge_inv :: "HardLocation list \<Rightarrow> merge_state \<Rightarrow> bool" where
  "merge_inv ls s \<longleftrightarrow>
     list_all2 same_cell ls (ms_locations s) \<and> length (ms_merged s) = length ls \<and>
     map fst (ms_map s) = ms_removed s \<and> ms_count s = length (ms_map s) \<and> distinct (ms_removed s) \<and>
     set (ms_removed s) = {loc_id (ls ! p) |p. p < length ls \<and> ms_merged s ! p} \<and>
     (\<forall>p<length ls. \<exists>q<length ls. \<not> ms_merged s ! q \<and> resolve (ms_map s) (loc_id (ls ! p)) = loc_id (ls ! q))"

lemma same_cell_merge_into: "same_cell a b \<Longrightarrow> length (loc_address x) = length (loc_address b) \<Longrightarrow>
    same_cell a (merge_into c cap b x)"
  by (simp add: merge_into_def same_cell_def Let_def)

lemma merge_pair_inv:
  assumes inv: "merge_inv ls s" and ids: "distinct (map loc_id ls)"
    and wf: "\<forall>l\<in>set ls. loc_wf d l" and p: "i < length ls" "j < length ls" "i \<noteq> j"
  shows "merge_inv ls (merge_pair L c s (i, j, x))"
proof (cases "ms_merged s ! i \<or> ms_merged s ! j")
  case True
  with inv show ?thesis by (simp add: merge_pair_def)
next
  case False
  let ?a = "ms_locations s ! i" and ?b = "ms_locations s ! j"
  have cells: "list_all2 same_cell ls (ms_locations s)" using inv by (simp add: merge_inv_def)
  then have len: "length (ms_locations s) = length ls" by (simp add: list_all2_lengthD)
  have cell: "same_cell (ls ! q) (ms_locations s ! q)" if "q < length ls" for q
    using cells that by (simp add: list_all2_nthD)
  have ida: "loc_id ?a = loc_id (ls ! i)" "loc_id ?b = loc_id (ls ! j)"
    using cell p by (auto simp: same_cell_def)
  have addr: "length (loc_address ?b) = length (loc_address ?a)"
    using cell [OF p(1)] cell [OF p(2)] wf p by (simp add: same_cell_def loc_wf_def)
  have inj: "loc_id (ls ! q) = loc_id (ls ! r) \<longleftrightarrow> q = r" if "q < length ls" "r < length ls" for q r
    using nth_eq_iff_index_eq [OF ids, of q r] that by simp
  define s' where "s' = merge_pair L c s (i, j, x)"
  have s': "ms_locations s' = (ms_locations s)[i := merge_into c (adaptive_neighbor_cap L c (length ls)) ?a ?b]"
    "ms_merged s' = (ms_merged s)[j := True]" "ms_removed s' = ms_removed s @ [loc_id (ls ! j)]"
    "ms_map s' = ms_map s @ [(loc_id (ls ! j), loc_id (ls ! i))]" "ms_count s' = ms_count s + 1"
    using False by (simp_all add: s'_def merge_pair_def Let_def ida len)
  have lm: "length (ms_merged s) = length ls" using inv by (simp add: merge_inv_def)
  have "list_all2 same_cell (ms_locations s) (ms_locations s')"
    unfolding s' using addr by (intro list_all2_update same_cell_merge_into) simp_all
  then have c': "list_all2 same_cell ls (ms_locations s')" by (rule same_cells_trans [OF cells])
  have rem: "set (ms_removed s) = {loc_id (ls ! p) |p. p < length ls \<and> ms_merged s ! p}"
    using inv by (simp add: merge_inv_def)
  have jnew: "loc_id (ls ! j) \<notin> set (ms_removed s)"
    using False inj p(2) by (auto simp: rem)
  have rem': "set (ms_removed s') = {loc_id (ls ! p) |p. p < length ls \<and> ms_merged s' ! p}"
    unfolding s' using rem p(2) lm by (auto simp: nth_list_update) 
  have res: "\<exists>q<length ls. \<not> ms_merged s' ! q \<and> resolve (ms_map s') (loc_id (ls ! r)) = loc_id (ls ! q)"
    if r: "r < length ls" for r
  proof -
    obtain q where q: "q < length ls" "\<not> ms_merged s ! q" "resolve (ms_map s) (loc_id (ls ! r)) = loc_id (ls ! q)"
      using inv r unfolding merge_inv_def by blast
    show ?thesis
    proof (cases "q = j")
      case True
      then show ?thesis using False p q by (intro exI [of _ i]) (simp add: s' nth_list_update)
    next
      case qj: False
      then show ?thesis using q p inj by (intro exI [of _ q]) (simp add: s' nth_list_update)
    qed
  qed
  show ?thesis
    unfolding merge_inv_def s'_def [symmetric]
    using c' rem' res inv jnew by (auto simp: merge_inv_def s' lm)
qed

text \<open>What the search must return for its indices to be usable: another location for each.\<close>

definition neighbors_ok :: "nat \<Rightarrow> (nat \<times> f64) option list \<Rightarrow> bool" where
  "neighbors_ok n nns \<longleftrightarrow> length nns = n \<and> (\<forall>i<n. \<forall>j s. nns ! i = Some (j, s) \<longrightarrow> j < n \<and> j \<noteq> i)"

lemma brute_ok: "length locations \<le> usize_max \<Longrightarrow> neighbors_ok (length locations) (brute locations norms)"
  by (auto simp: neighbors_ok_def brute_brute_one dest: brute_one_range)

lemma merge_pairs_ok:
  assumes "neighbors_ok (length ls) (nearest_neighbors P ls (map (\<lambda>l. l2_norm (loc_address l)) ls))"
    and "(i, j, s) \<in> set (merge_pairs P c ls)"
  shows "i < length ls" "j < length ls" "i \<noteq> j" "cfg_tau_merge c < s"
proof -
  define nns where "nns = nearest_neighbors P ls (map (\<lambda>l. l2_norm (loc_address l)) ls)"
  let ?f = "\<lambda>(i, nn). case nn of Some (j, s) \<Rightarrow> if cfg_tau_merge c < s then Some (i, j, s) else None
      | None \<Rightarrow> None"
  have "(i, j, s) \<in> set (List.map_filter ?f (zip [0..<length nns] nns))"
    using assms(2) by (simp add: merge_pairs_def Let_def nns_def)
  then obtain x where x: "x \<in> set (zip [0..<length nns] nns)" "?f x = Some (i, j, s)"
    unfolding set_map_filter by blast
  obtain p nn where pn: "x = (p, nn)" by (cases x)
  have p: "p < length nns" "nns ! p = nn" using x(1) by (auto simp: set_zip pn)
  have "p = i \<and> nn = Some (j, s) \<and> cfg_tau_merge c < s"
    using x(2) unfolding pn by (cases nn) (auto split: if_splits)
  then have i: "i < length nns" "nns ! i = Some (j, s)" "cfg_tau_merge c < s" using p by simp_all
  have ok: "neighbors_ok (length ls) nns" using assms(1) unfolding nns_def .
  have len: "length nns = length ls" using ok unfolding neighbors_ok_def by blast
  have "j < length ls \<and> j \<noteq> i" using ok i len unfolding neighbors_ok_def by metis
  then show "i < length ls" "j < length ls" "i \<noteq> j" "cfg_tau_merge c < s"
    using i len by simp_all
qed

lemma knn_merge_inv:
  assumes ids: "distinct (map loc_id ls)" and wf: "\<forall>l\<in>set ls. loc_wf d l"
    and ok: "neighbors_ok (length ls) (nearest_neighbors P ls (map (\<lambda>l. l2_norm (loc_address l)) ls))"
    and m: "knn_merge L P ls c = (r, ls')" and two: "2 \<le> length ls"
  obtains s where "merge_inv ls s" "r = \<lparr>mr_removed_ids = ms_removed s, mr_merge_map = ms_map s, mr_merge_count = ms_count s\<rparr>"
    "ls' = map snd (filter (\<lambda>(m, l). \<not> m) (zip (ms_merged s) (ms_locations s)))"
proof -
  let ?s0 = "\<lparr>ms_locations = ls, ms_merged = replicate (length ls) False,
                      ms_removed = [], ms_map = [], ms_count = 0\<rparr>"
  have "merge_inv ls ?s0"
    by (auto simp: merge_inv_def list_all2_refl resolve_def)
  then have "merge_inv ls (foldl (merge_pair L c) ?s0 ps)" if "set ps \<subseteq> set (merge_pairs P c ls)" for ps
    using that
  proof (induction ps rule: rev_induct)
    case Nil
    then show ?case by simp
  next
    case (snoc x ps)
    obtain i j y where x: "x = (i, j, y)" by (cases x)
    then have "(i, j, y) \<in> set (merge_pairs P c ls)" using snoc.prems by simp
    from merge_pairs_ok [OF ok this] show ?case
      using merge_pair_inv [OF _ ids wf] snoc x by simp
  qed
  from this [of "merge_pairs P c ls"] show ?thesis
    using that m two by (simp add: knn_merge_def Let_def)
qed

lemma surviving_ids:
  assumes "merge_inv ls s" "distinct (map loc_id ls)"
  shows "map loc_id (map snd (filter (\<lambda>(m, l). \<not> m) (zip (ms_merged s) (ms_locations s)))) =
     filter (\<lambda>i. i \<notin> set (ms_removed s)) (map loc_id ls)"
proof -
  have len: "length (ms_merged s) = length ls" "length (ms_locations s) = length ls"
    using assms(1) by (auto simp: merge_inv_def dest: list_all2_lengthD)
  have id: "loc_id (ms_locations s ! p) = loc_id (ls ! p)" if "p < length ls" for p
    using assms(1) that by (auto simp: merge_inv_def same_cell_def dest: list_all2_nthD)
  have rem: "loc_id (ls ! p) \<in> set (ms_removed s) \<longleftrightarrow> ms_merged s ! p" if "p < length ls" for p
    using assms that by (auto simp: merge_inv_def distinct_conv_nth)
  have z: "zip (ms_merged s) (ms_locations s) =
      map (\<lambda>p. (ms_merged s ! p, ms_locations s ! p)) [0..<length ls]"
    using len by (auto intro: nth_equalityI)
  have l: "map loc_id ls = map (\<lambda>p. loc_id (ls ! p)) [0..<length ls]"
    by (auto intro: nth_equalityI)
  show ?thesis
    unfolding z l by (auto simp: filter_map o_def id rem intro!: map_cong filter_cong)
qed

lemma resolve_survivor:
  assumes "merge_inv ls s" "distinct (map loc_id ls)" "i \<in> set (map loc_id ls)"
  shows "resolve (ms_map s) i \<in> set (map loc_id ls) - set (ms_removed s)"
proof -
  obtain p where p: "p < length ls" "i = loc_id (ls ! p)" using assms(3) by (auto simp: in_set_conv_nth)
  then obtain q where q: "q < length ls" "\<not> ms_merged s ! q" "resolve (ms_map s) i = loc_id (ls ! q)"
    using assms(1) by (auto simp: merge_inv_def)
  moreover have "loc_id (ls ! q) \<notin> set (ms_removed s)"
    using assms(1,2) q by (auto simp: merge_inv_def distinct_conv_nth)
  ultimately show ?thesis by simp
qed

section \<open>Properties\<close>

text \<open>The tiled search is the plain one: comparing a block of rows against a block of
  columns at a time gives every location the nearest other location, ties going to the lowest
  index, exactly as one scan per location does.\<close>

lemma tiled_search_is_plain_scan:
  "brute locations norms = map (brute_one locations norms) [0..<length locations]"
  by (rule brute_brute_one)

text \<open>A merge loses no location: the ids it reports as removed are distinct and are
  exactly the ids that are gone, the survivors keep their order, and following the merge map, in
  the order of the merges, leads from every id the memory had to a location it still has.\<close>

lemma merge_loses_no_location:
  assumes "distinct (map loc_id ls)" "\<forall>l\<in>set ls. loc_wf d l"
    and "neighbors_ok (length ls) (nearest_neighbors P ls (map (\<lambda>l. l2_norm (loc_address l)) ls))"
    and "knn_merge L P ls c = (r, ls')"
  shows "distinct (mr_removed_ids r) \<and> map fst (mr_merge_map r) = mr_removed_ids r \<and>
     mr_merge_count r = length (mr_removed_ids r) \<and>
     map loc_id ls' = filter (\<lambda>i. i \<notin> set (mr_removed_ids r)) (map loc_id ls) \<and>
     (\<forall>i\<in>set (map loc_id ls). resolve (mr_merge_map r) i \<in> set (map loc_id ls'))"
proof (cases "length ls < 2")
  case True
  with assms(4) show ?thesis by (auto simp: knn_merge_def resolve_def)
next
  case False
  with knn_merge_inv [OF assms] obtain s where s: "merge_inv ls s"
    "r = \<lparr>mr_removed_ids = ms_removed s, mr_merge_map = ms_map s, mr_merge_count = ms_count s\<rparr>"
    "ls' = map snd (filter (\<lambda>(m, l). \<not> m) (zip (ms_merged s) (ms_locations s)))"
    by auto
  have r: "map fst (ms_map s) = ms_removed s" "ms_count s = length (ms_map s)" "distinct (ms_removed s)"
    using s(1) by (simp_all add: merge_inv_def)
  have "length (ms_map s) = length (ms_removed s)" by (simp flip: r(1))
  with r surviving_ids [OF s(1) assms(1)] resolve_survivor [OF s(1) assms(1)] show ?thesis
    unfolding s(2,3) by auto
qed

end
