(* ===== verification/Keys.thy ===== *)
theory Keys
  imports Codec
begin

text \<open>
  The composite keys of heather_db/src/store.rs: a 4-byte big-endian collection id, then
  a location id, a document id or a metadata name. Their contract, the locale
  \<open>scoped_key\<close>, is that a collection's records are exactly the keys under its prefix;
  big-endian ids make the byte order of the keys the order of the ids.
\<close>

section \<open>Definitions\<close>

text \<open>A Rust \<open>&str\<close> by its bytes.\<close>

definition ascii :: "string \<Rightarrow> bytes" where
  "ascii s = map of_char s"

definition NEXT_COLLECTION_ID_KEY :: bytes where
  "NEXT_COLLECTION_ID_KEY = ascii ''_next_collection_id''"

definition location_key :: "u32 \<Rightarrow> u64 \<Rightarrow> bytes" where
  "location_key collection_id location_id = u32_to_be collection_id @ u64_to_be location_id"

definition document_key :: "u32 \<Rightarrow> u64 \<Rightarrow> bytes" where
  "document_key collection_id write_index = u32_to_be collection_id @ u64_to_be write_index"

definition metadata_key :: "u32 \<Rightarrow> bytes \<Rightarrow> bytes" where
  "metadata_key collection_id key = u32_to_be collection_id @ key"

definition collection_prefix :: "u32 \<Rightarrow> bytes" where
  "collection_prefix collection_id = u32_to_be collection_id"

definition key_id :: "bytes \<Rightarrow> u64" where
  "key_id key = (if 12 \<le> length key then u64_of_be (take 8 (drop 4 key)) else 0)"

section \<open>The contract of a key scheme\<close>

locale scoped_key =
  fixes key :: "u32 \<Rightarrow> 'k \<Rightarrow> bytes"
  assumes key_inject: "key c k = key c' k' \<longleftrightarrow> c = c' \<and> k = k'"
    and key_prefix: "prefix (collection_prefix c) (key c k)"
begin

lemma key_scope: "prefix (collection_prefix c') (key c k) \<longleftrightarrow> c' = c"
proof
  assume "prefix (collection_prefix c') (key c k)"
  then have "take 4 (key c k) = collection_prefix c'"
    by (metis append_eq_conv_conj collection_prefix_def length_u32_to_be prefix_def)
  moreover have "take 4 (key c k) = collection_prefix c"
    using key_prefix by (metis append_eq_conv_conj collection_prefix_def length_u32_to_be prefix_def)
  ultimately show "c' = c" by (simp add: collection_prefix_def)
next
  show "c' = c \<Longrightarrow> prefix (collection_prefix c') (key c k)" by (simp add: key_prefix)
qed

text \<open>What one collection sees of a database.\<close>

definition scoped :: "(bytes \<Rightarrow> bytes option) \<Rightarrow> u32 \<Rightarrow> 'k \<Rightarrow> bytes option" where
  "scoped m c k = m (key c k)"

lemma scoped_put: "scoped (m(key c k \<mapsto> v)) c' = (if c' = c then (scoped m c)(k \<mapsto> v) else scoped m c')"
  by (auto simp: scoped_def key_inject)

lemma scoped_delete: "scoped (m(key c k := None)) c' = (if c' = c then (scoped m c)(k := None) else scoped m c')"
  by (auto simp: scoped_def key_inject)

lemma scoped_drop:
  "scoped (\<lambda>b. if prefix (collection_prefix c) b then None else m b) c' =
   (if c' = c then Map.empty else scoped m c')"
  by (auto simp: scoped_def key_scope)

end

interpretation location_keys: scoped_key location_key
  by unfold_locales (auto simp: location_key_def collection_prefix_def)

interpretation document_keys: scoped_key document_key
  by unfold_locales (auto simp: document_key_def collection_prefix_def)

interpretation metadata_keys: scoped_key metadata_key
  by unfold_locales (auto simp: metadata_key_def collection_prefix_def)

section \<open>Reading ids back, and their order\<close>

lemma key_id_location [simp]: "key_id (location_key c i) = i"
  by (simp add: key_id_def location_key_def)

lemma key_id_document [simp]: "key_id (document_key c i) = i"
  by (simp add: key_id_def document_key_def)

lemma document_location_key: "document_key = location_key"
  by (intro ext) (simp add: document_key_def location_key_def)

text \<open>The bytes of a collection's 12-byte keys, and no others, are its location keys.\<close>

lemma location_key_of_prefix:
  assumes "prefix (collection_prefix c) b" "length b = 12"
  shows "b = location_key c (key_id b)"
proof -
  obtain r where b: "b = u32_to_be c @ r" using assms(1) by (auto simp: prefix_def collection_prefix_def)
  then have "length r = 8" using assms(2) by simp
  then show ?thesis
    by (simp add: b key_id_def location_key_def u64_to_be_def u64_of_be_def u64_to_le_of_le)
qed

definition be_int :: "bytes \<Rightarrow> int" where
  "be_int bs = le_int (rev bs)"

lemma le_int_append: "le_int (xs @ ys) = le_int xs + 256 ^ length xs * le_int ys"
  by (induction xs) (simp_all add: algebra_simps)

lemma be_int_Cons: "be_int (b # bs) = uint b * 256 ^ length bs + be_int bs"
  by (simp add: be_int_def le_int_append)

lemma be_int_bound: "0 \<le> be_int bs" "be_int bs < 256 ^ length bs"
  using le_int_nonneg [of "rev bs"] le_int_bound [of "rev bs"] by (simp_all add: be_int_def)

lemma less_be_int: "length xs = length ys \<Longrightarrow> xs < ys \<longleftrightarrow> be_int xs < be_int ys"
proof (induction xs ys rule: list_induct2)
  case Nil
  then show ?case by simp
next
  case (Cons x xs y ys)
  let ?P = "256 ^ length ys :: int"
  have b: "0 \<le> be_int xs" "be_int xs < ?P" "0 \<le> be_int ys" "be_int ys < ?P"
    using be_int_bound [of xs] be_int_bound [of ys] Cons.hyps by simp_all
  have lt: "uint a * ?P + be_int u < uint c * ?P + be_int v"
    if "a < c" "be_int u < ?P" "0 \<le> be_int v" for a c :: u8 and u v
  proof -
    have "uint a + 1 \<le> uint c" using that(1) by (simp add: word_less_def)
    then have "(uint a + 1) * ?P \<le> uint c * ?P" by (intro mult_right_mono) simp_all
    then show ?thesis using that by (simp add: algebra_simps)
  qed
  consider "x < y" | "x = y" | "y < x" by (rule linorder_cases)
  then show ?case
  proof cases
    case 1
    then show ?thesis using lt [of x y xs ys] b Cons.hyps by (simp add: be_int_Cons Cons_less_Cons)
  next
    case 2
    then show ?thesis using Cons by (simp add: be_int_Cons Cons_less_Cons)
  next
    case 3
    then have "\<not> x < y" "x \<noteq> y" by auto
    then show ?thesis using lt [of y x ys xs] b 3 Cons.hyps by (simp add: be_int_Cons Cons_less_Cons)
  qed
qed

lemma be_int_u64: "be_int (u64_to_be w) = uint w"
  using uint_bounded [of w] by (simp add: be_int_def u64_to_be_def u64_to_le_def le_int_le_bytes)

lemma append_less_append [simp]: "(p @ xs :: bytes) < p @ ys \<longleftrightarrow> xs < ys"
  by (induction p) (simp_all add: Cons_less_Cons)

lemma location_key_less: "location_key c i < location_key c j \<longleftrightarrow> i < j"
  by (simp add: location_key_def less_be_int be_int_u64 word_less_def)

end
