(* ===== verification/Kv.thy ===== *)
theory Kv
  imports Keys Std
begin

text \<open>
  The storage engine and serializer under heather_db/src/store.rs: LMDB (crate heed)
  and bincode. Both are third-party, so they are a parameter of the model, the record
  \<open>storage\<close> of their operations on an abstract type \<open>'db\<close> of databases. A transaction
  works on its own copy of the six databases; committing publishes the copy.
  \<open>storage_ok\<close> is their documented behaviour, over the abstraction \<open>view\<close> of a database
  as a finite map, and \<open>list_storage\<close> a concrete instance of it on sorted
  association lists, on which the witnesses evaluate. An iteration that fails at some
  item is the error of the whole iteration.
\<close>

section \<open>Operations\<close>

record 'db dbs =
  db_registry :: 'db
  db_locations :: 'db
  db_metadata :: 'db
  db_documents :: 'db
  db_doc_index :: 'db
  db_audit :: 'db

record 'db storage =
  sg_codec :: codec_env
  sg_write_txn :: "'db dbs \<Rightarrow> 'db dbs res"
  sg_read_txn :: "'db dbs \<Rightarrow> 'db dbs res"
  sg_commit :: "'db dbs \<Rightarrow> 'db dbs res"
  sg_get :: "'db \<Rightarrow> bytes \<Rightarrow> bytes option res"
  sg_put :: "'db \<Rightarrow> bytes \<Rightarrow> bytes \<Rightarrow> 'db res"
  sg_delete :: "'db \<Rightarrow> bytes \<Rightarrow> 'db res"
  sg_prefix_iter :: "'db \<Rightarrow> bytes \<Rightarrow> (bytes \<times> bytes) list res"
  sg_iter :: "'db \<Rightarrow> (bytes \<times> bytes) list res"
  sg_len :: "'db \<Rightarrow> nat res"
  sg_ser_u32 :: "u32 \<Rightarrow> bytes res"
  sg_de_u32 :: "bytes \<Rightarrow> u32 res"
  sg_ser_u64 :: "u64 \<Rightarrow> bytes res"
  sg_de_u64 :: "bytes \<Rightarrow> u64 res"
  sg_ser_f64 :: "f64 \<Rightarrow> bytes res"
  sg_de_f64 :: "bytes \<Rightarrow> f64 res"
  sg_ser_u64s :: "u64 list \<Rightarrow> bytes res"
  sg_de_u64s :: "bytes \<Rightarrow> u64 list res"

text \<open>A cursor from the end; the last entry.\<close>

definition sg_rev_iter :: "'db storage \<Rightarrow> 'db \<Rightarrow> (bytes \<times> bytes) list res" where
  "sg_rev_iter K d = rbind (sg_iter K d) (\<lambda>xs. Ok (rev xs))"

definition sg_last :: "'db storage \<Rightarrow> 'db \<Rightarrow> (bytes \<times> bytes) option res" where
  "sg_last K d = rbind (sg_iter K d) (\<lambda>xs. Ok (if xs = [] then None else Some (last xs)))"

section \<open>Documented behaviour\<close>

text \<open>The entries of a map whose key satisfies \<open>P\<close>, in ascending byte order of the key.\<close>

definition listing :: "(bytes \<Rightarrow> bytes option) \<Rightarrow> (bytes \<Rightarrow> bool) \<Rightarrow> (bytes \<times> bytes) list \<Rightarrow> bool" where
  "listing m P xs \<longleftrightarrow>
     sorted_wrt (<) (map fst xs) \<and> (\<forall>k v. (k, v) \<in> set xs \<longleftrightarrow> m k = Some v \<and> P k)"

definition storage_ok :: "'db storage \<Rightarrow> ('db \<Rightarrow> bytes \<Rightarrow> bytes option) \<Rightarrow> bool" where
  "storage_ok K view \<longleftrightarrow>
     (\<forall>s s'. sg_write_txn K s = Inr s' \<longrightarrow> s' = s) \<and>
     (\<forall>s s'. sg_read_txn K s = Inr s' \<longrightarrow> s' = s) \<and>
     (\<forall>s s'. sg_commit K s = Inr s' \<longrightarrow> s' = s) \<and>
     (\<forall>d k v. sg_get K d k = Inr v \<longrightarrow> v = view d k) \<and>
     (\<forall>d k v d'. sg_put K d k v = Inr d' \<longrightarrow> view d' = (view d)(k \<mapsto> v)) \<and>
     (\<forall>d k d'. sg_delete K d k = Inr d' \<longrightarrow> view d' = (view d)(k := None)) \<and>
     (\<forall>d p xs. sg_prefix_iter K d p = Inr xs \<longrightarrow> listing (view d) (prefix p) xs) \<and>
     (\<forall>d xs. sg_iter K d = Inr xs \<longrightarrow> listing (view d) (\<lambda>_. True) xs) \<and>
     (\<forall>d n. sg_len K d = Inr n \<longrightarrow> n = card (dom (view d))) \<and>
     (\<forall>x b. sg_ser_u32 K x = Inr b \<longrightarrow> sg_de_u32 K b = Inr x) \<and>
     (\<forall>x b. sg_ser_u64 K x = Inr b \<longrightarrow> sg_de_u64 K b = Inr x) \<and>
     (\<forall>x b. sg_ser_f64 K x = Inr b \<longrightarrow> sg_de_f64 K b = Inr x) \<and>
     (\<forall>x b. sg_ser_u64s K x = Inr b \<longrightarrow> sg_de_u64s K b = Inr x)"

lemma storage_okD:
  assumes "storage_ok K view"
  shows "sg_write_txn K s = Inr s' \<Longrightarrow> s' = s"
    and "sg_read_txn K s = Inr s' \<Longrightarrow> s' = s"
    and "sg_commit K s = Inr s' \<Longrightarrow> s' = s"
    and "sg_get K d k = Inr v \<Longrightarrow> v = view d k"
    and "sg_put K d k b = Inr d' \<Longrightarrow> view d' = (view d)(k \<mapsto> b)"
    and "sg_delete K d k = Inr d' \<Longrightarrow> view d' = (view d)(k := None)"
    and "sg_prefix_iter K d p = Inr xs \<Longrightarrow> listing (view d) (prefix p) xs"
    and "sg_iter K d = Inr xs \<Longrightarrow> listing (view d) (\<lambda>_. True) xs"
    and "sg_len K d = Inr n \<Longrightarrow> n = card (dom (view d))"
    and "sg_ser_u32 K x = Inr b \<Longrightarrow> sg_de_u32 K b = Inr x"
    and "sg_ser_u64 K y = Inr b \<Longrightarrow> sg_de_u64 K b = Inr y"
    and "sg_ser_f64 K z = Inr b \<Longrightarrow> sg_de_f64 K b = Inr z"
    and "sg_ser_u64s K ys = Inr b \<Longrightarrow> sg_de_u64s K b = Inr ys"
  using assms unfolding storage_ok_def by (metis)+

lemma listing_unique: "listing m P xs \<Longrightarrow> listing m P ys \<Longrightarrow> xs = ys"
proof -
  assume x: "listing m P xs" and y: "listing m P ys"
  have set: "set xs = set ys" using x y by (auto simp: listing_def)
  have inj: "inj_on fst (set xs \<union> set ys)"
    using x y by (auto simp: listing_def inj_on_def)
  show "xs = ys"
    by (rule map_sorted_distinct_set_unique [OF inj])
      (use x y set in \<open>simp_all add: listing_def strict_sorted_iff\<close>)
qed

lemma listing_distinct: "listing m P xs \<Longrightarrow> distinct (map fst xs)"
  by (simp add: listing_def strict_sorted_iff)

lemma listing_set: "listing m P xs \<Longrightarrow> (k, v) \<in> set xs \<longleftrightarrow> m k = Some v \<and> P k"
  by (simp add: listing_def)

section \<open>A concrete instance\<close>

text \<open>Association lists, the newest binding first; listings are sorted on demand.\<close>

definition al_listing :: "(bytes \<times> bytes) list \<Rightarrow> (bytes \<Rightarrow> bool) \<Rightarrow> (bytes \<times> bytes) list" where
  "al_listing d P = map (\<lambda>k. (k, the (map_of d k))) (filter P (sort (remdups (map fst d))))"

definition list_storage :: "codec_env \<Rightarrow> (bytes \<times> bytes) list storage" where
  "list_storage E =
     \<lparr>sg_codec = E, sg_write_txn = Inr, sg_read_txn = Inr, sg_commit = Inr,
      sg_get = (\<lambda>d k. Ok (map_of d k)),
      sg_put = (\<lambda>d k v. Ok ((k, v) # d)),
      sg_delete = (\<lambda>d k. Ok (filter (\<lambda>e. fst e \<noteq> k) d)),
      sg_prefix_iter = (\<lambda>d p. Ok (al_listing d (prefix p))),
      sg_iter = (\<lambda>d. Ok (al_listing d (\<lambda>_. True))),
      sg_len = (\<lambda>d. Ok (length (remdups (map fst d)))),
      sg_ser_u32 = (\<lambda>x. Ok (u32_to_le x)), sg_de_u32 = (\<lambda>b. Ok (u32_of_le b)),
      sg_ser_u64 = (\<lambda>x. Ok (u64_to_le x)), sg_de_u64 = (\<lambda>b. Ok (u64_of_le b)),
      sg_ser_f64 = (\<lambda>x. Ok (u64_to_le (f64_bits x))), sg_de_f64 = (\<lambda>b. Ok (F64 (u64_of_le b))),
      sg_ser_u64s = (\<lambda>xs. Ok (concat (map u64_to_le xs))),
      sg_de_u64s = (\<lambda>b. Ok (map u64_of_le (chunks 8 b)))\<rparr>"

lemma al_listing: "listing (map_of d) P (al_listing d P)"
proof -
  have keys: "map fst (al_listing d P) = filter P (sort (remdups (map fst d)))"
    by (simp add: al_listing_def o_def)
  have "sorted_wrt (<) (map fst (al_listing d P))"
    unfolding keys using sorted_filter [of "\<lambda>x. x" "sort (remdups (map fst d))" P] by (simp add: strict_sorted_iff)
  moreover have "(k, v) \<in> set (al_listing d P) \<longleftrightarrow> map_of d k = Some v \<and> P k" for k v
  proof -
    have "k \<in> fst ` set d \<longleftrightarrow> map_of d k \<noteq> None"
      using dom_map_of_conv_image_fst [of d] by (auto simp: dom_def)
    moreover have "(k, v) \<in> set (al_listing d P) \<longleftrightarrow> k \<in> fst ` set d \<and> P k \<and> v = the (map_of d k)"
      by (auto simp: al_listing_def)
    ultimately show ?thesis by auto
  qed
  ultimately show ?thesis by (simp add: listing_def)
qed

lemma map_of_filter_key: "map_of (filter (\<lambda>e. fst e \<noteq> k) d) = (map_of d)(k := None)"
  by (induction d) auto

lemma list_storage_ok: "storage_ok (list_storage E) map_of"
proof -
  have len: "length (remdups (map fst d)) = card (dom (map_of d))" for d :: "(bytes \<times> bytes) list"
    using length_remdups_card_conv [of "map fst d"] by (simp add: dom_map_of_conv_image_fst)
  have "map u64_of_le (chunks 8 (concat (map u64_to_le xs))) = xs" for xs
    by (subst chunks_concat) (auto simp: o_def)
  with len al_listing show ?thesis
    by (simp add: storage_ok_def list_storage_def map_of_filter_key)
qed

end
