(* ===== verification/Store.thy ===== *)
theory Store
  imports Kv
begin

text \<open>
  heather_db/src/store.rs and heather_db/src/verify.rs: the six sub-databases of a store
  and the operations on them. An operation that takes a transaction in the code takes
  the transaction's databases here and returns them updated; one that opens its own read
  transaction takes the committed databases. The \<open>skipped\<close> counter of tolerant reads is
  part of the store's state; an error drops the state, the counter included.
\<close>

record 'db store =
  st_dbs :: "'db dbs"      \<comment> \<open>committed\<close>
  st_skipped :: u64
  st_precision :: precision

section \<open>Transactions\<close>

definition write_txn :: "'db storage \<Rightarrow> 'db store \<Rightarrow> 'db dbs res" where
  "write_txn K s = sg_write_txn K (st_dbs s)"

definition read_txn :: "'db storage \<Rightarrow> 'db store \<Rightarrow> 'db dbs res" where
  "read_txn K s = sg_read_txn K (st_dbs s)"

definition commit :: "'db storage \<Rightarrow> 'db store \<Rightarrow> 'db dbs \<Rightarrow> 'db store res" where
  "commit K s txn = rbind (sg_commit K txn) (\<lambda>d. Ok (s\<lparr>st_dbs := d\<rparr>))"

section \<open>Collection registry\<close>

definition get_collection_id_txn :: "'db storage \<Rightarrow> 'db dbs \<Rightarrow> bytes \<Rightarrow> u32 option res" where
  "get_collection_id_txn K txn name =
     rbind (sg_get K (db_registry txn) name) (\<lambda>r. case r of
       Some data \<Rightarrow> rbind (sg_de_u32 K data) (\<lambda>i. Ok (Some i))
     | None \<Rightarrow> Ok None)"

definition load_next_collection_id_txn :: "'db storage \<Rightarrow> 'db dbs \<Rightarrow> u32 res" where
  "load_next_collection_id_txn K txn =
     rbind (sg_get K (db_registry txn) NEXT_COLLECTION_ID_KEY) (\<lambda>r. case r of
       Some data \<Rightarrow> sg_de_u32 K data
     | None \<Rightarrow> Ok 0)"

definition create_collection :: "'db storage \<Rightarrow> 'db dbs \<Rightarrow> bytes \<Rightarrow> (u32 \<times> 'db dbs) res" where
  "create_collection K txn name =
     rbind (get_collection_id_txn K txn name) (\<lambda>existing. case existing of
       Some i \<Rightarrow> Ok (i, txn)
     | None \<Rightarrow>
         rbind (load_next_collection_id_txn K txn) (\<lambda>next_id.
         rbind (sg_ser_u32 K next_id) (\<lambda>id_bytes.
         rbind (sg_put K (db_registry txn) name id_bytes) (\<lambda>reg.
         rbind (sg_ser_u32 K (next_id + 1)) (\<lambda>next_bytes.
         rbind (sg_put K reg NEXT_COLLECTION_ID_KEY next_bytes) (\<lambda>reg.
         Ok (next_id, txn\<lparr>db_registry := reg\<rparr>)))))))"

definition get_collection_id :: "'db storage \<Rightarrow> 'db store \<Rightarrow> bytes \<Rightarrow> u32 option res" where
  "get_collection_id K s name = rbind (read_txn K s) (\<lambda>txn. get_collection_id_txn K txn name)"

text \<open>\<open>std::str::from_utf8\<close>, by the well-formed byte sequences of UTF-8.\<close>

definition is_cont :: "u8 \<Rightarrow> bool" where
  "is_cont b \<longleftrightarrow> 0x80 \<le> b \<and> b \<le> 0xBF"

fun utf8_valid :: "bytes \<Rightarrow> bool" where
  "utf8_valid [] = True"
| "utf8_valid (a # bs) =
     (if a < 0x80 then utf8_valid bs
      else if 0xC2 \<le> a \<and> a \<le> 0xDF then
        (case bs of b # r \<Rightarrow> is_cont b \<and> utf8_valid r | _ \<Rightarrow> False)
      else if 0xE0 \<le> a \<and> a \<le> 0xEF then
        (case bs of b # c # r \<Rightarrow>
           is_cont b \<and> is_cont c \<and> (a = 0xE0 \<longrightarrow> 0xA0 \<le> b) \<and> (a = 0xED \<longrightarrow> b \<le> 0x9F) \<and> utf8_valid r
         | _ \<Rightarrow> False)
      else if 0xF0 \<le> a \<and> a \<le> 0xF4 then
        (case bs of b # c # d # r \<Rightarrow>
           is_cont b \<and> is_cont c \<and> is_cont d \<and> (a = 0xF0 \<longrightarrow> 0x90 \<le> b) \<and> (a = 0xF4 \<longrightarrow> b \<le> 0x8F) \<and>
           utf8_valid r
         | _ \<Rightarrow> False)
      else False)"

definition list_collections :: "'db storage \<Rightarrow> 'db store \<Rightarrow> (bytes \<times> u32) list res" where
  "list_collections K s =
     rbind (read_txn K s) (\<lambda>txn.
     rbind (sg_iter K (db_registry txn)) (\<lambda>entries.
     rfold (\<lambda>collections (key, value).
       if \<not> utf8_valid key then Err (Storage (msg ''invalid UTF-8 in registry key''))
       else if key = NEXT_COLLECTION_ID_KEY then Ok collections
       else rbind (sg_de_u32 K value) (\<lambda>i. Ok (collections @ [(key, i)]))) [] entries))"

text \<open>Collect the keys under a prefix, then delete them one by one.\<close>

definition delete_prefix :: "'db storage \<Rightarrow> 'db \<Rightarrow> bytes \<Rightarrow> 'db res" where
  "delete_prefix K d p =
     rbind (sg_prefix_iter K d p) (\<lambda>entries. rfold (sg_delete K) d (map fst entries))"

definition delete_collection :: "'db storage \<Rightarrow> 'db dbs \<Rightarrow> bytes \<Rightarrow> u32 \<Rightarrow> 'db dbs res" where
  "delete_collection K txn name collection_id =
     (let p = collection_prefix collection_id in
      rbind (sg_delete K (db_registry txn) name) (\<lambda>reg.
      rbind (delete_prefix K (db_locations txn) p) (\<lambda>locs.
      rbind (delete_prefix K (db_doc_index txn) p) (\<lambda>index.
      rbind (delete_prefix K (db_documents txn) p) (\<lambda>docs.
      rbind (delete_prefix K (db_metadata txn) p) (\<lambda>meta.
      Ok (txn\<lparr>db_registry := reg, db_locations := locs, db_doc_index := index,
              db_documents := docs, db_metadata := meta\<rparr>)))))))"

section \<open>Locations\<close>

definition put_location :: "'db storage \<Rightarrow> precision \<Rightarrow> 'db dbs \<Rightarrow> u32 \<Rightarrow> HardLocation \<Rightarrow> 'db dbs res" where
  "put_location K p txn collection_id l =
     rbind (encode_location (sg_codec K) l p) (\<lambda>data.
     rbind (sg_put K (db_locations txn) (location_key collection_id (loc_id l)) data) (\<lambda>d.
     Ok (txn\<lparr>db_locations := d\<rparr>)))"

definition delete_location :: "'db storage \<Rightarrow> 'db dbs \<Rightarrow> u32 \<Rightarrow> u64 \<Rightarrow> 'db dbs res" where
  "delete_location K txn collection_id i =
     rbind (sg_delete K (db_locations txn) (location_key collection_id i)) (\<lambda>d.
     Ok (txn\<lparr>db_locations := d\<rparr>))"

definition tolerate :: "'a res \<Rightarrow> u64 \<Rightarrow> ('a option \<times> u64) res" where
  "tolerate decoded skipped =
     (case decoded of
        Inr v \<Rightarrow> Ok (Some v, skipped)
      | Inl (Error (Corrupt _)) \<Rightarrow> Ok (None, skipped + 1)
      | Inl (Error (UnsupportedFormat _)) \<Rightarrow> Ok (None, skipped + 1)
      | Inl e \<Rightarrow> Inl e)"

definition load_all_locations ::
  "'db storage \<Rightarrow> 'db store \<Rightarrow> u32 \<Rightarrow> (HardLocation list \<times> 'db store) res" where
  "load_all_locations K s collection_id =
     rbind (read_txn K s) (\<lambda>txn.
     rbind (sg_prefix_iter K (db_locations txn) (collection_prefix collection_id)) (\<lambda>entries.
     rbind (rfold (\<lambda>(ls, skipped) (key, value).
              rbind (tolerate (decode_location (sg_codec K) value (st_precision s)) skipped) (\<lambda>(r, skipped).
              Ok (case r of Some l \<Rightarrow> ls @ [l] | None \<Rightarrow> ls, skipped)))
            ([], st_skipped s) entries) (\<lambda>(ls, skipped).
     Ok (ls, s\<lparr>st_skipped := skipped\<rparr>))))"

section \<open>Metadata and documents\<close>

definition put_metadata :: "'db storage \<Rightarrow> 'db dbs \<Rightarrow> u32 \<Rightarrow> bytes \<Rightarrow> bytes \<Rightarrow> 'db dbs res" where
  "put_metadata K txn collection_id key value =
     rbind (sg_put K (db_metadata txn) (metadata_key collection_id key) value) (\<lambda>d.
     Ok (txn\<lparr>db_metadata := d\<rparr>))"

definition load_metadata :: "'db storage \<Rightarrow> 'db store \<Rightarrow> u32 \<Rightarrow> bytes \<Rightarrow> bytes option res" where
  "load_metadata K s collection_id key =
     rbind (read_txn K s) (\<lambda>txn. sg_get K (db_metadata txn) (metadata_key collection_id key))"

definition put_document :: "'db storage \<Rightarrow> 'db dbs \<Rightarrow> u32 \<Rightarrow> u64 \<Rightarrow> bytes \<Rightarrow> 'db dbs res" where
  "put_document K txn collection_id write_index data =
     rbind (sg_put K (db_documents txn) (document_key collection_id write_index) data) (\<lambda>d.
     Ok (txn\<lparr>db_documents := d\<rparr>))"

definition get_document_txn :: "'db storage \<Rightarrow> 'db dbs \<Rightarrow> u32 \<Rightarrow> u64 \<Rightarrow> bytes option res" where
  "get_document_txn K txn collection_id write_index =
     sg_get K (db_documents txn) (document_key collection_id write_index)"

definition get_document :: "'db storage \<Rightarrow> 'db store \<Rightarrow> u32 \<Rightarrow> u64 \<Rightarrow> bytes option res" where
  "get_document K s collection_id write_index =
     rbind (read_txn K s) (\<lambda>txn. get_document_txn K txn collection_id write_index)"

text \<open>The id in a document key: \<open>key[4..12]\<close> panics on a shorter key.\<close>

definition document_key_index :: "bytes \<Rightarrow> u64 res" where
  "document_key_index key = rbind (slice key 4 12) (\<lambda>b. Ok (u64_of_be b))"

definition list_documents_page ::
  "'db storage \<Rightarrow> 'db store \<Rightarrow> u32 \<Rightarrow> nat \<Rightarrow> nat \<Rightarrow> ((u64 \<times> bytes) list \<times> nat) res" where
  "list_documents_page K s collection_id offset limit =
     rbind (read_txn K s) (\<lambda>txn.
     rbind (sg_prefix_iter K (db_documents txn) (collection_prefix collection_id)) (\<lambda>entries.
     rfold (\<lambda>(docs, total) (key, value).
       rbind (if total \<ge> offset \<and> length docs < limit
              then rbind (document_key_index key) (\<lambda>i. Ok (docs @ [(i, value)]))
              else Ok docs) (\<lambda>docs.
       Ok (docs, total + 1))) ([], 0) entries))"

definition list_documents :: "'db storage \<Rightarrow> 'db store \<Rightarrow> u32 \<Rightarrow> (u64 \<times> bytes) list res" where
  "list_documents K s collection_id =
     rbind (read_txn K s) (\<lambda>txn.
     rbind (sg_prefix_iter K (db_documents txn) (collection_prefix collection_id)) (\<lambda>entries.
     rmap (\<lambda>(key, value). rbind (document_key_index key) (\<lambda>i. Ok (i, value))) entries))"

section \<open>The document index: a posting list per location\<close>

definition get_doc_ids_for_location_txn :: "'db storage \<Rightarrow> 'db dbs \<Rightarrow> u32 \<Rightarrow> u64 \<Rightarrow> u64 list res" where
  "get_doc_ids_for_location_txn K txn collection_id location_id =
     rbind (sg_get K (db_doc_index txn) (location_key collection_id location_id)) (\<lambda>r. case r of
       Some data \<Rightarrow> sg_de_u64s K data
     | None \<Rightarrow> Ok [])"

definition get_doc_ids_for_location :: "'db storage \<Rightarrow> 'db store \<Rightarrow> u32 \<Rightarrow> u64 \<Rightarrow> u64 list res" where
  "get_doc_ids_for_location K s collection_id location_id =
     rbind (read_txn K s) (\<lambda>txn. get_doc_ids_for_location_txn K txn collection_id location_id)"

definition put_doc_index_entry :: "'db storage \<Rightarrow> 'db dbs \<Rightarrow> u32 \<Rightarrow> u64 \<Rightarrow> u64 list \<Rightarrow> 'db dbs res" where
  "put_doc_index_entry K txn collection_id location_id doc_ids =
     rbind (sg_ser_u64s K doc_ids) (\<lambda>data.
     rbind (sg_put K (db_doc_index txn) (location_key collection_id location_id) data) (\<lambda>d.
     Ok (txn\<lparr>db_doc_index := d\<rparr>)))"

definition append_docs_to_location :: "'db storage \<Rightarrow> 'db dbs \<Rightarrow> u32 \<Rightarrow> u64 \<Rightarrow> u64 list \<Rightarrow> 'db dbs res" where
  "append_docs_to_location K txn collection_id location_id new_doc_ids =
     (if new_doc_ids = [] then Ok txn
      else rbind (get_doc_ids_for_location_txn K txn collection_id location_id) (\<lambda>doc_ids.
           put_doc_index_entry K txn collection_id location_id (doc_ids @ new_doc_ids)))"

definition append_doc_to_location :: "'db storage \<Rightarrow> 'db dbs \<Rightarrow> u32 \<Rightarrow> u64 \<Rightarrow> u64 \<Rightarrow> 'db dbs res" where
  "append_doc_to_location K txn collection_id location_id doc_id =
     rbind (get_doc_ids_for_location_txn K txn collection_id location_id) (\<lambda>doc_ids.
     put_doc_index_entry K txn collection_id location_id (doc_ids @ [doc_id]))"

definition delete_doc_index_entry :: "'db storage \<Rightarrow> 'db dbs \<Rightarrow> u32 \<Rightarrow> u64 \<Rightarrow> 'db dbs res" where
  "delete_doc_index_entry K txn collection_id location_id =
     rbind (sg_delete K (db_doc_index txn) (location_key collection_id location_id)) (\<lambda>d.
     Ok (txn\<lparr>db_doc_index := d\<rparr>))"

definition doc_index_rewrites ::
  "'db storage \<Rightarrow> u64 \<Rightarrow> (bytes \<times> bytes) list \<Rightarrow> (bytes \<times> u64 list) list res" where
  "doc_index_rewrites K write_index entries =
     rfold (\<lambda>changes (k, v).
       rbind (sg_de_u64s K v) (\<lambda>ids.
       Ok (if write_index \<in> set ids then changes @ [(k, filter (\<lambda>d. d \<noteq> write_index) ids)]
           else changes))) [] entries"

definition delete_document_everywhere ::
  "'db storage \<Rightarrow> 'db dbs \<Rightarrow> u32 \<Rightarrow> u64 \<Rightarrow> (bool \<times> 'db dbs) res" where
  "delete_document_everywhere K txn collection_id write_index =
     (let key = document_key collection_id write_index in
      rbind (sg_get K (db_documents txn) key) (\<lambda>r.
      let existed = (r \<noteq> None) in
      rbind (if existed then sg_delete K (db_documents txn) key else Ok (db_documents txn)) (\<lambda>docs.
      rbind (sg_prefix_iter K (db_doc_index txn) (collection_prefix collection_id)) (\<lambda>entries.
      rbind (doc_index_rewrites K write_index entries) (\<lambda>changes.
      rbind (rfold (\<lambda>d (k, kept).
               if kept = [] then sg_delete K d k
               else rbind (sg_ser_u64s K kept) (\<lambda>v. sg_put K d k v)) (db_doc_index txn) changes) (\<lambda>index.
      Ok (existed, txn\<lparr>db_documents := docs, db_doc_index := index\<rparr>)))))))"

section \<open>The audit database\<close>

definition key_timestamp :: "bytes \<Rightarrow> u64" where
  "key_timestamp key = (if length key \<ge> 8 then u64_of_be (take 8 key) else 0)"

definition key_seq :: "bytes \<Rightarrow> u64" where
  "key_seq key = (if length key \<ge> 16 then u64_of_be (take 8 (drop 8 key)) else 0)"

definition append_audit :: "'db storage \<Rightarrow> 'db dbs \<Rightarrow> bytes \<Rightarrow> bytes \<Rightarrow> 'db dbs res" where
  "append_audit K txn key value =
     rbind (sg_put K (db_audit txn) key value) (\<lambda>d. Ok (txn\<lparr>db_audit := d\<rparr>))"

definition last_audit_seq :: "'db storage \<Rightarrow> 'db store \<Rightarrow> u64 option res" where
  "last_audit_seq K s =
     rbind (read_txn K s) (\<lambda>txn.
     rbind (sg_last K (db_audit txn)) (\<lambda>r.
     Ok (map_option (\<lambda>(key, _). key_seq key) r)))"

definition audit_len :: "'db storage \<Rightarrow> 'db store \<Rightarrow> nat res" where
  "audit_len K s = rbind (read_txn K s) (\<lambda>txn. sg_len K (db_audit txn))"

text \<open>
  The walk of \<open>scan_audit_desc\<close> with the visitor's own state \<open>'v\<close>; the visitor returns
  whether to go on.
\<close>

fun scan_desc ::
  "u64 option \<Rightarrow> u64 option \<Rightarrow> nat \<Rightarrow> ('v \<Rightarrow> bytes \<Rightarrow> bool \<times> 'v) \<Rightarrow> nat \<Rightarrow> 'v \<Rightarrow> (bytes \<times> bytes) list \<Rightarrow> 'v" where
  "scan_desc since_ms until_ms max_scan visit scanned v [] = v"
| "scan_desc since_ms until_ms max_scan visit scanned v ((key, value) # rest) =
     (let scanned = scanned + 1 in
      if scanned > max_scan then v
      else let ts = key_timestamp key in
      if (case until_ms of Some u \<Rightarrow> ts > u | None \<Rightarrow> False)
      then scan_desc since_ms until_ms max_scan visit scanned v rest
      else if (case since_ms of Some t \<Rightarrow> ts < t | None \<Rightarrow> False) then v
      else let (go_on, v) = visit v value
           in if go_on then scan_desc since_ms until_ms max_scan visit scanned v rest else v)"

definition scan_audit_desc ::
  "'db storage \<Rightarrow> 'db store \<Rightarrow> u64 option \<Rightarrow> u64 option \<Rightarrow> nat \<Rightarrow> ('v \<Rightarrow> bytes \<Rightarrow> bool \<times> 'v) \<Rightarrow> 'v \<Rightarrow> 'v res" where
  "scan_audit_desc K s since_ms until_ms max_scan visit v =
     rbind (read_txn K s) (\<lambda>txn.
     rbind (sg_rev_iter K (db_audit txn)) (\<lambda>entries.
     Ok (scan_desc since_ms until_ms max_scan visit 0 v entries)))"

fun doomed_keys :: "nat \<Rightarrow> u64 \<Rightarrow> (bytes \<times> bytes) list \<Rightarrow> bytes list" where
  "doomed_keys excess min_ts_ms [] = []"
| "doomed_keys excess min_ts_ms ((key, _) # rest) =
     (if excess > 0 then key # doomed_keys (excess - 1) min_ts_ms rest
      else if min_ts_ms > 0 \<and> key_timestamp key < min_ts_ms then key # doomed_keys excess min_ts_ms rest
      else [])"

definition prune_audit :: "'db storage \<Rightarrow> 'db dbs \<Rightarrow> nat \<Rightarrow> u64 \<Rightarrow> (nat \<times> 'db dbs) res" where
  "prune_audit K txn max_entries min_ts_ms =
     rbind (sg_len K (db_audit txn)) (\<lambda>total.
     let excess = total - max_entries in
     if excess = 0 \<and> min_ts_ms = 0 then Ok (0, txn)
     else rbind (sg_iter K (db_audit txn)) (\<lambda>entries.
          let doomed = doomed_keys excess min_ts_ms entries in
          rbind (rfold (sg_delete K) (db_audit txn) doomed) (\<lambda>d.
          Ok (length doomed, txn\<lparr>db_audit := d\<rparr>))))"

section \<open>Offline verification\<close>

record RecordCounts =
  rc_current :: u64
  rc_legacy :: u64
  rc_corrupt :: u64
  rc_unsupported :: u64

definition RecordCounts_default :: RecordCounts where
  "RecordCounts_default = \<lparr>rc_current = 0, rc_legacy = 0, rc_corrupt = 0, rc_unsupported = 0\<rparr>"

definition bad :: "RecordCounts \<Rightarrow> u64" where
  "bad r = rc_corrupt r + rc_unsupported r"

record CollectionReport =
  cr_collection :: bytes
  cr_locations :: RecordCounts
  cr_documents :: RecordCounts
  cr_problems :: "(string \<times> u64 \<times> fault) list"  \<comment> \<open>kind, id and error of a problem line\<close>

definition is_clean :: "CollectionReport \<Rightarrow> bool" where
  "is_clean r \<longleftrightarrow> bad (cr_locations r) + bad (cr_documents r) = 0"

definition MAX_PROBLEMS :: nat where
  "MAX_PROBLEMS = 20"

definition count_record ::
  "RecordCounts \<times> (string \<times> u64 \<times> fault) list \<Rightarrow> string \<Rightarrow> u64 \<Rightarrow> bytes \<Rightarrow> 'a res \<Rightarrow>
   RecordCounts \<times> (string \<times> u64 \<times> fault) list" where
  "count_record cp what i bs decoded =
     (let (counts, problems) = cp in
      case decoded of
        Inr _ \<Rightarrow>
          (if format bs = Ok Legacy then (counts\<lparr>rc_legacy := rc_legacy counts + 1\<rparr>, problems)
           else (counts\<lparr>rc_current := rc_current counts + 1\<rparr>, problems))
      | Inl e \<Rightarrow>
          (case e of
             Error (UnsupportedFormat _) \<Rightarrow> counts\<lparr>rc_unsupported := rc_unsupported counts + 1\<rparr>
           | _ \<Rightarrow> counts\<lparr>rc_corrupt := rc_corrupt counts + 1\<rparr>,
           if length problems < MAX_PROBLEMS then problems @ [(what, i, e)] else problems))"

definition verify_document ::
  "'db storage \<Rightarrow> precision \<Rightarrow> 'db dbs \<Rightarrow> u32 \<Rightarrow> bytes \<Rightarrow> (DocVector \<times> bytes) res res" where
  "verify_document K p txn collection_id value =
     (let decoded = decode_document_parts (sg_codec K) value p in
      case decoded of
        Inr (DocLocation target, m) \<Rightarrow>
          rbind (sg_get K (db_locations txn) (location_key collection_id target)) (\<lambda>r.
          Ok (if r = None then Err (Corrupt (Fmt ''refers to location {}, which does not exist'' [N (uint target)]))
              else decoded))
      | _ \<Rightarrow> Ok decoded)"

definition verify_collection ::
  "'db storage \<Rightarrow> 'db store \<Rightarrow> bytes \<Rightarrow> u32 \<Rightarrow> CollectionReport res" where
  "verify_collection K s name collection_id =
     rbind (read_txn K s) (\<lambda>txn.
     rbind (sg_prefix_iter K (db_locations txn) (collection_prefix collection_id)) (\<lambda>locs.
     let (lc, problems) = foldl (\<lambda>cp (key, value).
            count_record cp ''location'' (key_id key) value
              (decode_location (sg_codec K) value (st_precision s)))
          (RecordCounts_default, []) locs in
     rbind (sg_prefix_iter K (db_documents txn) (collection_prefix collection_id)) (\<lambda>docs.
     rbind (rfold (\<lambda>cp (key, value).
              rbind (verify_document K (st_precision s) txn collection_id value) (\<lambda>decoded.
              Ok (count_record cp ''document'' (key_id key) value decoded)))
            (RecordCounts_default, problems) docs) (\<lambda>(dc, problems).
     Ok \<lparr>cr_collection = name, cr_locations = lc, cr_documents = dc, cr_problems = problems\<rparr>))))"

section \<open>Opening a collection tolerates damaged records\<close>

definition record_error :: "fault \<Rightarrow> bool" where
  "record_error e \<longleftrightarrow> (\<exists>m. e = Error (Corrupt m) \<or> e = Error (UnsupportedFormat m))"

lemma record_error_simps [simp]:
  "record_error (Error (Corrupt m))" "record_error (Error (UnsupportedFormat m))" "\<not> record_error Panic"
  by (simp_all add: record_error_def)

lemma reads_record_error:
  "rd_bytes n bs = Inl e \<Longrightarrow> record_error e" "rd_u32 bs = Inl e \<Longrightarrow> record_error e"
  "rd_u64 bs = Inl e \<Longrightarrow> record_error e" "rd_f64 bs = Inl e \<Longrightarrow> record_error e"
  "rd_floats n p bs = Inl e \<Longrightarrow> record_error e" "rd_u64s n bs = Inl e \<Longrightarrow> record_error e"
  "rd_finish bs = Inl e \<Longrightarrow> record_error e" "precision_from b = Inl e \<Longrightarrow> record_error e"
  by (auto simp: rd_bytes_eq rd_word_eq rd_floats_def rd_u64s_def
      rd_finish_def checked_mul_def precision_from_def rbind_eq_Inl record_error_def split: if_splits)

lemma format_record_error: "format bs = Inl e \<Longrightarrow> record_error e"
  by (auto simp: format_eq codec_defs rbind_eq_Inl split: if_splits dest: reads_record_error)

lemma open_record_error: "16 \<le> length bs \<Longrightarrow> kinds \<noteq> [] \<Longrightarrow> open_env E bs kinds = Inl e \<Longrightarrow> record_error e"
  by (auto simp: open_env_long rbind_eq_Inl split: if_splits dest: reads_record_error)

lemma legacy_record_error:
  "legacy_location E bs p = Inl e \<Longrightarrow> record_error e" "legacy_document E bs p = Inl e \<Longrightarrow> record_error e"
  by (auto simp: legacy_location_def legacy_document_def Let_def split: sum.splits if_splits)

lemma decode_location_record_error: "decode_location E bs p = Inl e \<Longrightarrow> record_error e"
proof (cases "format bs")
  case (Inl f)
  assume "decode_location E bs p = Inl e"
  with Inl show ?thesis by (simp add: decode_location_def format_record_error)
next
  case (Inr f)
  assume a: "decode_location E bs p = Inl e"
  show ?thesis
  proof (cases f)
    case Legacy
    with a Inr show ?thesis
      by (auto simp: decode_location_def rbind_eq_Inl case_prod_beta dest: legacy_record_error)
  next
    case (Enveloped v k q)
    then have "16 \<le> length bs" using Inr format_Enveloped by blast
    with a Inr Enveloped show ?thesis
      by (auto simp: decode_location_def rbind_eq_Inl case_prod_beta split: if_splits
          dest: reads_record_error open_record_error)
  qed
qed

lemma decode_document_record_error: "decode_document_parts E bs p = Inl e \<Longrightarrow> record_error e"
proof (cases "format bs")
  case (Inl f)
  assume "decode_document_parts E bs p = Inl e"
  with Inl show ?thesis by (simp add: decode_document_parts_def format_record_error)
next
  case (Inr f)
  assume a: "decode_document_parts E bs p = Inl e"
  show ?thesis
  proof (cases f)
    case Legacy
    with a Inr show ?thesis
      by (auto simp: decode_document_parts_def rbind_eq_Inl case_prod_beta dest: legacy_record_error)
  next
    case (Enveloped v k q)
    then have "16 \<le> length bs" using Inr format_Enveloped by blast
    with a Inr Enveloped show ?thesis
      by (auto simp: decode_document_parts_def rbind_eq_Inl case_prod_beta split: if_splits
          dest: reads_record_error open_record_error)
  qed
qed

lemma tolerate_simps [simp]:
  "tolerate (Inr v) n = Ok (Some v, n)" "record_error e \<Longrightarrow> tolerate (Inl e) n = Ok (None, n + 1)"
  by (auto simp: tolerate_def record_error_def)

definition decoded_locations :: "codec_env \<Rightarrow> precision \<Rightarrow> (bytes \<times> bytes) list \<Rightarrow> HardLocation list" where
  "decoded_locations E p entries =
     List.map_filter (\<lambda>(k, v). case decode_location E v p of Inr l \<Rightarrow> Some l | Inl _ \<Rightarrow> None) entries"

definition undecodable :: "codec_env \<Rightarrow> precision \<Rightarrow> (bytes \<times> bytes) list \<Rightarrow> (bytes \<times> bytes) list" where
  "undecodable E p entries = filter (\<lambda>(k, v). \<exists>e. decode_location E v p = Inl e) entries"

lemma load_loop:
  "rfold (\<lambda>(ls, skipped) (key, value).
      rbind (tolerate (decode_location E value p) skipped) (\<lambda>(r, skipped).
      Ok (case r of Some l \<Rightarrow> ls @ [l] | None \<Rightarrow> ls, skipped))) (ls, n) entries =
   Ok (ls @ decoded_locations E p entries, n + of_nat (length (undecodable E p entries)))"
proof (induction entries arbitrary: ls n)
  case Nil
  then show ?case by (simp add: decoded_locations_def undecodable_def)
next
  case (Cons x entries)
  obtain k v where x: "x = (k, v)" by fastforce
  show ?case
  proof (cases "decode_location E v p")
    case (Inl e)
    then show ?thesis
      using Cons decode_location_record_error [OF Inl] by (simp add: x decoded_locations_def undecodable_def)
  next
    case (Inr l)
    then show ?thesis using Cons by (simp add: x decoded_locations_def undecodable_def)
  qed
qed

lemma load_all_locations_eq:
  "load_all_locations K s c =
     rbind (read_txn K s) (\<lambda>txn.
     rbind (sg_prefix_iter K (db_locations txn) (collection_prefix c)) (\<lambda>entries.
     Ok (decoded_locations (sg_codec K) (st_precision s) entries,
         s\<lparr>st_skipped := st_skipped s + of_nat (length (undecodable (sg_codec K) (st_precision s) entries))\<rparr>)))"
  by (simp add: load_all_locations_def load_loop)

section \<open>Deleting by prefix\<close>

lemma delete_keys_view:
  assumes "storage_ok K view"
  shows "rfold (sg_delete K) d ks = Inr d' \<Longrightarrow> view d' = (\<lambda>b. if b \<in> set ks then None else view d b)"
proof (induction ks arbitrary: d)
  case Nil
  then show ?case by simp
next
  case (Cons k ks)
  then obtain d1 where "sg_delete K d k = Inr d1" "rfold (sg_delete K) d1 ks = Inr d'"
    by (auto simp: rbind_eq_Inr)
  then show ?case using Cons.IH storage_okD(6) [OF assms] by auto
qed

lemma delete_prefix_view:
  assumes "storage_ok K view" "delete_prefix K d p = Inr d'"
  shows "view d' = (\<lambda>b. if prefix p b then None else view d b)"
proof -
  obtain entries where e: "sg_prefix_iter K d p = Inr entries" "rfold (sg_delete K) d (map fst entries) = Inr d'"
    using assms(2) by (auto simp: delete_prefix_def rbind_eq_Inr)
  have l: "listing (view d) (prefix p) entries" by (rule storage_okD(7) [OF assms(1) e(1)])
  have "b \<in> set (map fst entries) \<longleftrightarrow> (\<exists>v. (b, v) \<in> set entries)" for b
    by force
  then have "b \<in> set (map fst entries) \<longleftrightarrow> prefix p b \<and> view d b \<noteq> None" for b
    using listing_set [OF l, of b] by auto
  then show ?thesis using delete_keys_view [OF assms(1) e(2)] by auto
qed

text \<open>What a collection holds: its locations, documents, postings and metadata.\<close>

definition scope_view ::
  "('db \<Rightarrow> bytes \<Rightarrow> bytes option) \<Rightarrow> 'db dbs \<Rightarrow> u32 \<Rightarrow>
   (u64 \<Rightarrow> bytes option) \<times> (u64 \<Rightarrow> bytes option) \<times> (u64 \<Rightarrow> bytes option) \<times> (bytes \<Rightarrow> bytes option)" where
  "scope_view view s c =
     (location_keys.scoped (view (db_locations s)) c, document_keys.scoped (view (db_documents s)) c,
      location_keys.scoped (view (db_doc_index s)) c, metadata_keys.scoped (view (db_metadata s)) c)"

lemma delete_collection_scope:
  assumes "storage_ok K view" "delete_collection K s name c = Inr s'"
  shows "scope_view view s' c' =
     (if c' = c then (Map.empty, Map.empty, Map.empty, Map.empty) else scope_view view s c')"
    and "view (db_registry s') = (view (db_registry s))(name := None)" "db_audit s' = db_audit s"
proof -
  obtain reg locs index docs meta where d:
    "sg_delete K (db_registry s) name = Inr reg"
    "delete_prefix K (db_locations s) (collection_prefix c) = Inr locs"
    "delete_prefix K (db_doc_index s) (collection_prefix c) = Inr index"
    "delete_prefix K (db_documents s) (collection_prefix c) = Inr docs"
    "delete_prefix K (db_metadata s) (collection_prefix c) = Inr meta"
    "s' = s\<lparr>db_registry := reg, db_locations := locs, db_doc_index := index,
            db_documents := docs, db_metadata := meta\<rparr>"
    using assms(2) by (auto simp: delete_collection_def Let_def rbind_eq_Inr)
  note v = d(2-5) [THEN delete_prefix_view [OF assms(1)]]
  show "scope_view view s' c' =
     (if c' = c then (Map.empty, Map.empty, Map.empty, Map.empty) else scope_view view s c')"
    by (simp add: scope_view_def d(6) v location_keys.scoped_drop document_keys.scoped_drop
        metadata_keys.scoped_drop)
  show "view (db_registry s') = (view (db_registry s))(name := None)" "db_audit s' = db_audit s"
    using storage_okD(6) [OF assms(1) d(1)] by (simp_all add: d(6))
qed

section \<open>Every operation stays in its collection\<close>

text \<open>
  The frame of a collection's operations: nothing outside collection \<open>c\<close> changes, nor
  the registry, nor the audit log.
\<close>

definition only_scope :: "('db \<Rightarrow> bytes \<Rightarrow> bytes option) \<Rightarrow> u32 \<Rightarrow> 'db dbs \<Rightarrow> 'db dbs \<Rightarrow> bool" where
  "only_scope view c s s' \<longleftrightarrow>
     (\<forall>c'. c' \<noteq> c \<longrightarrow> scope_view view s' c' = scope_view view s c') \<and>
     db_registry s' = db_registry s \<and> db_audit s' = db_audit s"

named_theorems only_scope \<open>the operations that stay in their collection\<close>

lemma only_scope_refl [simp]: "only_scope view c s s"
  by (simp add: only_scope_def)

lemma only_scope_trans: "only_scope view c s t \<Longrightarrow> only_scope view c t u \<Longrightarrow> only_scope view c s u"
  by (simp add: only_scope_def)

text \<open>A database changed only at keys of the collection.\<close>

definition same_outside :: "u32 \<Rightarrow> (bytes \<Rightarrow> bytes option) \<Rightarrow> (bytes \<Rightarrow> bytes option) \<Rightarrow> bool" where
  "same_outside c m m' \<longleftrightarrow> (\<forall>b. \<not> prefix (collection_prefix c) b \<longrightarrow> m' b = m b)"

lemma same_outside_scoped:
  assumes "same_outside c m m'" "c' \<noteq> c"
  shows "location_keys.scoped m' c' = location_keys.scoped m c'"
    "document_keys.scoped m' c' = document_keys.scoped m c'"
    "metadata_keys.scoped m' c' = metadata_keys.scoped m c'"
  using assms by (auto simp: same_outside_def location_keys.scoped_def document_keys.scoped_def
      metadata_keys.scoped_def location_keys.key_scope document_keys.key_scope metadata_keys.key_scope)

lemma same_outside_refl [simp]: "same_outside c m m"
  by (simp add: same_outside_def)

lemma same_outside_upd [simp]:
  "prefix (collection_prefix c) k \<Longrightarrow> same_outside c m (m'(k := x)) \<longleftrightarrow> same_outside c m m'"
  by (auto simp: same_outside_def)

lemma only_scopeI:
  assumes "same_outside c (view (db_locations s)) (view (db_locations s'))"
    "same_outside c (view (db_documents s)) (view (db_documents s'))"
    "same_outside c (view (db_doc_index s)) (view (db_doc_index s'))"
    "same_outside c (view (db_metadata s)) (view (db_metadata s'))"
    "db_registry s' = db_registry s" "db_audit s' = db_audit s"
  shows "only_scope view c s s'"
  using assms by (simp add: only_scope_def scope_view_def same_outside_scoped)

lemma key_prefixes [simp]:
  "prefix (collection_prefix c) (location_key c i)" "prefix (collection_prefix c) (document_key c i)"
  "prefix (collection_prefix c) (metadata_key c n)"
  by (simp_all add: location_keys.key_prefix document_keys.key_prefix metadata_keys.key_prefix)

lemma same_outside_write:
  "storage_ok K view \<Longrightarrow> sg_put K d k v = Inr d' \<Longrightarrow> prefix (collection_prefix c) k \<Longrightarrow>
     same_outside c (view d) (view d')"
  "storage_ok K view \<Longrightarrow> sg_delete K d k = Inr d' \<Longrightarrow> prefix (collection_prefix c) k \<Longrightarrow>
     same_outside c (view d) (view d')"
  by (drule storage_okD(5), assumption, simp) (drule storage_okD(6), assumption, simp)

lemma put_location_only: "storage_ok K view \<Longrightarrow> put_location K p s c l = Inr s' \<Longrightarrow> only_scope view c s s'"
  by (auto simp: put_location_def rbind_eq_Inr intro!: only_scopeI intro: same_outside_write)

lemma delete_location_only: "storage_ok K view \<Longrightarrow> delete_location K s c i = Inr s' \<Longrightarrow> only_scope view c s s'"
  by (auto simp: delete_location_def rbind_eq_Inr intro!: only_scopeI intro: same_outside_write)

lemma put_metadata_only: "storage_ok K view \<Longrightarrow> put_metadata K s c n v = Inr s' \<Longrightarrow> only_scope view c s s'"
  by (auto simp: put_metadata_def rbind_eq_Inr intro!: only_scopeI intro: same_outside_write)

lemma put_document_only: "storage_ok K view \<Longrightarrow> put_document K s c i v = Inr s' \<Longrightarrow> only_scope view c s s'"
  by (auto simp: put_document_def rbind_eq_Inr intro!: only_scopeI intro: same_outside_write)

lemma put_doc_index_only: "storage_ok K view \<Longrightarrow> put_doc_index_entry K s c i ids = Inr s' \<Longrightarrow> only_scope view c s s'"
  by (auto simp: put_doc_index_entry_def rbind_eq_Inr intro!: only_scopeI intro: same_outside_write)

lemma append_doc_only: "storage_ok K view \<Longrightarrow> append_doc_to_location K s c i d = Inr s' \<Longrightarrow> only_scope view c s s'"
  by (auto simp: append_doc_to_location_def rbind_eq_Inr dest: put_doc_index_only)

lemma append_docs_only: "storage_ok K view \<Longrightarrow> append_docs_to_location K s c i ds = Inr s' \<Longrightarrow> only_scope view c s s'"
  by (auto simp: append_docs_to_location_def rbind_eq_Inr split: if_splits dest: put_doc_index_only)

lemma delete_doc_index_only: "storage_ok K view \<Longrightarrow> delete_doc_index_entry K s c i = Inr s' \<Longrightarrow> only_scope view c s s'"
  by (auto simp: delete_doc_index_entry_def rbind_eq_Inr intro!: only_scopeI intro: same_outside_write)

lemmas collection_ops_only = put_location_only delete_location_only put_metadata_only
  put_document_only put_doc_index_only append_doc_only append_docs_only delete_doc_index_only

section \<open>Posting lists\<close>

definition posting_of :: "'db storage \<Rightarrow> bytes option \<Rightarrow> u64 list res" where
  "posting_of K r = (case r of None \<Rightarrow> Ok [] | Some b \<Rightarrow> sg_de_u64s K b)"

definition postings :: "'db storage \<Rightarrow> ('db \<Rightarrow> bytes \<Rightarrow> bytes option) \<Rightarrow> 'db dbs \<Rightarrow> u32 \<Rightarrow> u64 \<Rightarrow> u64 list res" where
  "postings K view s c i = posting_of K (view (db_doc_index s) (location_key c i))"

lemma get_postings:
  "storage_ok K view \<Longrightarrow> get_doc_ids_for_location_txn K s c i = Inr ids \<Longrightarrow> postings K view s c i = Inr ids"
  by (auto simp: get_doc_ids_for_location_txn_def rbind_eq_Inr postings_def posting_of_def
      dest: storage_okD(4) split: option.splits)

lemma put_postings:
  assumes "storage_ok K view" "put_doc_index_entry K s c i ids = Inr s'"
  shows "postings K view s' c' j = (if c' = c \<and> j = i then Inr ids else postings K view s c' j)"
proof -
  obtain b d where b: "sg_ser_u64s K ids = Inr b" "sg_put K (db_doc_index s) (location_key c i) b = Inr d"
    "s' = s\<lparr>db_doc_index := d\<rparr>"
    using assms(2) by (auto simp: put_doc_index_entry_def rbind_eq_Inr)
  show ?thesis
    using storage_okD(5) [OF assms(1) b(2)] storage_okD(13) [OF assms(1) b(1)]
    by (simp add: postings_def posting_of_def b(3) location_keys.key_inject)
qed

lemma append_postings:
  assumes "storage_ok K view" "append_docs_to_location K s c i ds = Inr s'"
  shows "c' \<noteq> c \<or> j \<noteq> i \<Longrightarrow> postings K view s' c' j = postings K view s c' j"
    and "ds \<noteq> [] \<Longrightarrow> \<exists>ids. postings K view s c i = Inr ids \<and> postings K view s' c i = Inr (ids @ ds)"
  using assms get_postings [OF assms(1)] put_postings [OF assms(1)]
  by (auto simp: append_docs_to_location_def rbind_eq_Inr split: if_splits)

lemma delete_postings:
  assumes "storage_ok K view" "delete_doc_index_entry K s c i = Inr s'"
  shows "postings K view s' c' j = (if c' = c \<and> j = i then Inr [] else postings K view s c' j)"
  using assms(2) storage_okD(6) [OF assms(1)]
  by (auto simp: delete_doc_index_entry_def rbind_eq_Inr postings_def posting_of_def location_keys.key_inject)

section \<open>Deleting a document everywhere\<close>

definition posting_change :: "'db storage \<Rightarrow> u64 \<Rightarrow> bytes \<Rightarrow> u64 list option" where
  "posting_change K w v =
     (case sg_de_u64s K v of
        Inr ids \<Rightarrow> if w \<in> set ids then Some (filter (\<lambda>d. d \<noteq> w) ids) else None
      | Inl _ \<Rightarrow> None)"

lemma doc_index_rewrites_eq:
  "doc_index_rewrites K w entries = Inr changes \<Longrightarrow>
   (\<forall>(k, v)\<in>set entries. \<exists>ids. sg_de_u64s K v = Inr ids) \<and>
   changes = List.map_filter (\<lambda>(k, v). map_option (Pair k) (posting_change K w v)) entries"
proof -
  let ?step = "\<lambda>changes (k, v). rbind (sg_de_u64s K v) (\<lambda>ids.
       Ok (if w \<in> set ids then changes @ [(k, filter (\<lambda>d. d \<noteq> w) ids)] else changes))"
  let ?f = "\<lambda>(k, v). map_option (Pair k) (posting_change K w v)"
  have "rfold ?step acc entries = Inr r \<Longrightarrow>
      (\<forall>(k, v)\<in>set entries. \<exists>ids. sg_de_u64s K v = Inr ids) \<and> r = acc @ List.map_filter ?f entries" for acc r
  proof (induction entries arbitrary: acc)
    case Nil
    then show ?case by simp
  next
    case (Cons x entries)
    obtain k v where x: "x = (k, v)" by fastforce
    from Cons.prems obtain ids where ids: "sg_de_u64s K v = Inr ids"
      and r: "rfold ?step (if w \<in> set ids then acc @ [(k, filter (\<lambda>d. d \<noteq> w) ids)] else acc) entries = Inr r"
      by (auto simp: x rbind_eq_Inr)
    show ?case using Cons.IH [OF r] ids by (auto simp: x posting_change_def)
  qed
  from this [of "[]" changes] show "doc_index_rewrites K w entries = Inr changes \<Longrightarrow> ?thesis"
    by (simp add: doc_index_rewrites_def)
qed

lemma rewrite_loop_view:
  assumes K: "storage_ok K view"
  shows "rfold (\<lambda>d (k, kept). if kept = [] then sg_delete K d k
                   else rbind (sg_ser_u64s K kept) (\<lambda>v. sg_put K d k v)) d changes = Inr d' \<Longrightarrow>
    distinct (map fst changes) \<Longrightarrow>
    posting_of K (view d' b) = (case map_of changes b of Some kept \<Rightarrow> Inr kept | None \<Rightarrow> posting_of K (view d b)) \<and>
    (map_of changes b = None \<longrightarrow> view d' b = view d b)"
proof (induction changes arbitrary: d)
  case Nil
  then show ?case by simp
next
  case (Cons x changes)
  obtain k kept where x: "x = (k, kept)" by fastforce
  have fresh: "map_of changes k = None" using Cons.prems(2) by (simp add: x map_of_eq_None_iff)
  from Cons.prems(1) obtain d1 where d1:
    "(if kept = [] then sg_delete K d k else rbind (sg_ser_u64s K kept) (\<lambda>v. sg_put K d k v)) = Inr d1"
    and rest: "rfold (\<lambda>d (k, kept). if kept = [] then sg_delete K d k
                   else rbind (sg_ser_u64s K kept) (\<lambda>v. sg_put K d k v)) d1 changes = Inr d'"
    by (auto simp: x rbind_eq_Inr)
  have v1: "posting_of K (view d1 b) = (if b = k then Inr kept else posting_of K (view d b)) \<and>
      (b \<noteq> k \<longrightarrow> view d1 b = view d b)"
    using d1 storage_okD(5,6,13) [OF K]
    by (auto simp: rbind_eq_Inr posting_of_def split: if_splits)
  show ?case using Cons.IH [OF rest] Cons.prems(2) v1 fresh by (auto simp: x split: option.splits)
qed

lemma delete_document_everywhere_effect:
  assumes K: "storage_ok K view" and del: "delete_document_everywhere K s c w = Inr (existed, s')"
  shows "existed \<longleftrightarrow> view (db_documents s) (document_key c w) \<noteq> None"
    and "view (db_documents s') = (view (db_documents s))(document_key c w := None)"
    and "postings K view s c i = Inr ids \<Longrightarrow> postings K view s' c i = Inr (filter (\<lambda>d. d \<noteq> w) ids)"
    and "only_scope view c s s'"
proof -
  obtain r docs entries changes index where d:
    "sg_get K (db_documents s) (document_key c w) = Inr r"
    "(if r \<noteq> None then sg_delete K (db_documents s) (document_key c w) else Ok (db_documents s)) = Inr docs"
    "sg_prefix_iter K (db_doc_index s) (collection_prefix c) = Inr entries"
    "doc_index_rewrites K w entries = Inr changes"
    "rfold (\<lambda>d (k, kept). if kept = [] then sg_delete K d k
        else rbind (sg_ser_u64s K kept) (\<lambda>v. sg_put K d k v)) (db_doc_index s) changes = Inr index"
    "existed = (r \<noteq> None)" "s' = s\<lparr>db_documents := docs, db_doc_index := index\<rparr>"
    using del unfolding delete_document_everywhere_def Let_def rbind_eq_Inr by auto
  have r: "r = view (db_documents s) (document_key c w)" by (rule storage_okD(4) [OF K d(1)])
  then show "existed \<longleftrightarrow> view (db_documents s) (document_key c w) \<noteq> None" using d(6) by simp
  have docs: "view docs = (view (db_documents s))(document_key c w := None)"
    using d(2) r storage_okD(6) [OF K] by (auto split: if_splits)
  then show "view (db_documents s') = (view (db_documents s))(document_key c w := None)"
    by (simp add: d(7))
  have l: "listing (view (db_doc_index s)) (prefix (collection_prefix c)) entries"
    by (rule storage_okD(7) [OF K d(3)])
  let ?f = "\<lambda>(k, v). map_option (Pair k) (posting_change K w v)"
  have rw: "changes = List.map_filter ?f entries" using doc_index_rewrites_eq [OF d(4)] by blast
  have mo: "map_of entries b = (if prefix (collection_prefix c) b then view (db_doc_index s) b else None)" for b
  proof -
    have "map_of entries b = Some v \<longleftrightarrow> view (db_doc_index s) b = Some v \<and> prefix (collection_prefix c) b" for v
      using listing_set [OF l, of b v] listing_distinct [OF l] by simp
    then show ?thesis by (metis not_None_eq)
  qed
  have ch: "distinct (map fst changes)" "map_of changes b = Option.bind (map_of entries b) (posting_change K w)" for b
    using map_filter_keys [OF listing_distinct [OF l], of "posting_change K w" b] by (simp_all add: rw)
  note loop = rewrite_loop_view [OF K d(5) ch(1)]
  show "postings K view s' c i = Inr (filter (\<lambda>d. d \<noteq> w) ids)" if "postings K view s c i = Inr ids"
  proof -
    let ?k = "location_key c i"
    have p: "posting_of K (view (db_doc_index s) ?k) = Inr ids" using that by (simp add: postings_def)
    have "map_of changes ?k = Option.bind (view (db_doc_index s) ?k) (posting_change K w)"
      using ch(2) [of ?k] mo [of ?k] by simp
    moreover have "w \<notin> set ids \<Longrightarrow> filter (\<lambda>d. d \<noteq> w) ids = ids" by (auto simp: filter_id_conv)
    ultimately show ?thesis
      using loop [of ?k] p
      by (auto simp: postings_def d(7) posting_of_def posting_change_def split: option.splits if_splits)
  qed
  have "view index b = view (db_doc_index s) b" if "\<not> prefix (collection_prefix c) b" for b
    using loop [of b] ch(2) [of b] mo [of b] that by simp
  then show "only_scope view c s s'"
    by (intro only_scopeI) (simp_all add: d(7) docs same_outside_def [of c "view (db_doc_index s)"])
qed

section \<open>Loading what was put\<close>

lemma decoded_locations_set:
  "l \<in> set (decoded_locations E p entries) \<longleftrightarrow> (\<exists>k v. (k, v) \<in> set entries \<and> decode_location E v p = Inr l)"
proof
  show "l \<in> set (decoded_locations E p entries) \<Longrightarrow> \<exists>k v. (k, v) \<in> set entries \<and> decode_location E v p = Inr l"
    by (auto simp: decoded_locations_def set_map_filter split: sum.splits) blast
  assume "\<exists>k v. (k, v) \<in> set entries \<and> decode_location E v p = Inr l"
  then obtain k v where "(k, v) \<in> set entries" "decode_location E v p = Inr l" by blast
  then show "l \<in> set (decoded_locations E p entries)"
    unfolding decoded_locations_def set_map_filter by (intro bexI [of _ "(k, v)"]) simp_all
qed

lemma load_all_locations_set:
  assumes "storage_ok K view" "load_all_locations K s c = Inr (ls, s')"
  shows "l \<in> set ls \<longleftrightarrow>
     (\<exists>k v. prefix (collection_prefix c) k \<and> view (db_locations (st_dbs s)) k = Some v \<and>
       decode_location (sg_codec K) v (st_precision s) = Inr l)"
proof -
  obtain txn entries where t: "read_txn K s = Inr txn"
    "sg_prefix_iter K (db_locations txn) (collection_prefix c) = Inr entries"
    "ls = decoded_locations (sg_codec K) (st_precision s) entries"
    using assms(2) by (auto simp: load_all_locations_eq rbind_eq_Inr)
  have "txn = st_dbs s" using t(1) storage_okD(2) [OF assms(1)] by (simp add: read_txn_def)
  with storage_okD(7) [OF assms(1) t(2)] show ?thesis
    by (auto simp: t(3) decoded_locations_set listing_def)
qed

lemma decoded_undecodable:
  "length (decoded_locations E p es) + length (undecodable E p es) = length es"
  by (induction es) (auto simp: decoded_locations_def undecodable_def split: sum.splits)

text \<open>The counter grows by the records that did not decode; nothing else changes.\<close>

lemma load_all_locations_store:
  assumes "load_all_locations K s c = Inr (ls, s')"
  shows "\<exists>entries. ls = decoded_locations (sg_codec K) (st_precision s) entries \<and>
     s' = s\<lparr>st_skipped := st_skipped s + of_nat (length entries - length ls)\<rparr>"
proof -
  obtain entries where t:
    "ls = decoded_locations (sg_codec K) (st_precision s) entries"
    "s' = s\<lparr>st_skipped := st_skipped s + of_nat (length (undecodable (sg_codec K) (st_precision s) entries))\<rparr>"
    using assms by (auto simp: load_all_locations_eq rbind_eq_Inr)
  have "length (undecodable (sg_codec K) (st_precision s) entries) = length entries - length ls"
    using decoded_undecodable [of "sg_codec K" "st_precision s" entries] t(1) by simp
  then show ?thesis using t by auto
qed

section \<open>The registry\<close>

definition reg_entry :: "'db storage \<Rightarrow> (bytes \<Rightarrow> bytes option) \<Rightarrow> bytes \<Rightarrow> u32 option" where
  "reg_entry K m name =
     (case m name of None \<Rightarrow> None | Some b \<Rightarrow> (case sg_de_u32 K b of Inr i \<Rightarrow> Some i | Inl _ \<Rightarrow> None))"

text \<open>
  Every registered id is below the counter and no two collections share one. The counter
  lives in the same database, under a key that no collection may have.
\<close>

definition registry_ok :: "'db storage \<Rightarrow> (bytes \<Rightarrow> bytes option) \<Rightarrow> bool" where
  "registry_ok K m \<longleftrightarrow>
     (let next = (case reg_entry K m NEXT_COLLECTION_ID_KEY of Some n \<Rightarrow> n | None \<Rightarrow> 0)
      in (m NEXT_COLLECTION_ID_KEY = None \<or> reg_entry K m NEXT_COLLECTION_ID_KEY \<noteq> None) \<and>
         (\<forall>a i. a \<noteq> NEXT_COLLECTION_ID_KEY \<longrightarrow> reg_entry K m a = Some i \<longrightarrow> i < next) \<and>
         (\<forall>a b i. a \<noteq> NEXT_COLLECTION_ID_KEY \<longrightarrow> b \<noteq> NEXT_COLLECTION_ID_KEY \<longrightarrow>
            reg_entry K m a = Some i \<longrightarrow> reg_entry K m b = Some i \<longrightarrow> a = b))"

definition reg_next :: "'db storage \<Rightarrow> (bytes \<Rightarrow> bytes option) \<Rightarrow> u32" where
  "reg_next K m = (case reg_entry K m NEXT_COLLECTION_ID_KEY of Some n \<Rightarrow> n | None \<Rightarrow> 0)"

lemma create_collection_cases:
  assumes K: "storage_ok K view" and c: "create_collection K s name = Inr (i, s')"
  obtains (existing) "s' = s" "reg_entry K (view (db_registry s)) name = Some i"
  | (fresh) "view (db_registry s) name = None"
      "view (db_registry s) NEXT_COLLECTION_ID_KEY = None \<and> i = 0 \<or>
       reg_entry K (view (db_registry s)) NEXT_COLLECTION_ID_KEY = Some i"
      "s' = s\<lparr>db_registry := db_registry s'\<rparr>"
      "\<And>n. reg_entry K (view (db_registry s')) n =
         (if n = NEXT_COLLECTION_ID_KEY then Some (i + 1) else if n = name then Some i
          else reg_entry K (view (db_registry s)) n)"
proof -
  obtain r where r: "sg_get K (db_registry s) name = Inr r" using c
    by (auto simp: create_collection_def get_collection_id_txn_def rbind_eq_Inr)
  then have view: "r = view (db_registry s) name" using storage_okD(4) [OF K] by blast
  show thesis
  proof (cases r)
    case (Some b)
    then obtain j where "sg_de_u32 K b = Inr j" "i = j" "s' = s"
      using c r by (auto simp: create_collection_def get_collection_id_txn_def rbind_eq_Inr)
    then have "reg_entry K (view (db_registry s)) name = Some i"
      unfolding reg_entry_def view [symmetric] Some by simp
    then show thesis using existing \<open>s' = s\<close> by blast
  next
    case None
    then obtain next_id id_bytes reg1 next_bytes reg2 where f:
      "load_next_collection_id_txn K s = Inr next_id" "sg_ser_u32 K next_id = Inr id_bytes"
      "sg_put K (db_registry s) name id_bytes = Inr reg1" "sg_ser_u32 K (next_id + 1) = Inr next_bytes"
      "sg_put K reg1 NEXT_COLLECTION_ID_KEY next_bytes = Inr reg2"
      "i = next_id" "s' = s\<lparr>db_registry := reg2\<rparr>"
      using c r by (auto simp: create_collection_def get_collection_id_txn_def rbind_eq_Inr)
    have v: "view reg2 = ((view (db_registry s))(name \<mapsto> id_bytes))(NEXT_COLLECTION_ID_KEY \<mapsto> next_bytes)"
      using storage_okD(5) [OF K f(3)] storage_okD(5) [OF K f(5)] by simp
    have de: "sg_de_u32 K id_bytes = Inr next_id" "sg_de_u32 K next_bytes = Inr (next_id + 1)"
      using storage_okD(10) [OF K] f(2,4) by auto
    have "view (db_registry s) NEXT_COLLECTION_ID_KEY = None \<and> i = 0 \<or>
       reg_entry K (view (db_registry s)) NEXT_COLLECTION_ID_KEY = Some i"
      using f(1,6) storage_okD(4) [OF K]
      by (fastforce simp: load_next_collection_id_txn_def rbind_eq_Inr reg_entry_def split: option.splits)
    then show thesis
      using fresh view None f(6,7) v de by (auto simp: reg_entry_def)
  qed
qed

lemma create_collection_registry:
  assumes K: "storage_ok K view" and c: "create_collection K s name = Inr (i, s')"
    and ok: "registry_ok K (view (db_registry s))" and name: "name \<noteq> NEXT_COLLECTION_ID_KEY"
    and room: "reg_next K (view (db_registry s)) + 1 \<noteq> 0"
  shows "registry_ok K (view (db_registry s'))" "reg_entry K (view (db_registry s')) name = Some i"
    "\<And>n. n \<noteq> name \<Longrightarrow> n \<noteq> NEXT_COLLECTION_ID_KEY \<Longrightarrow>
       reg_entry K (view (db_registry s')) n = reg_entry K (view (db_registry s)) n \<and>
       reg_entry K (view (db_registry s')) n \<noteq> Some i"
proof -
  have "registry_ok K (view (db_registry s')) \<and> reg_entry K (view (db_registry s')) name = Some i \<and>
    (\<forall>n. n \<noteq> name \<longrightarrow> n \<noteq> NEXT_COLLECTION_ID_KEY \<longrightarrow>
       reg_entry K (view (db_registry s')) n = reg_entry K (view (db_registry s)) n \<and>
       reg_entry K (view (db_registry s')) n \<noteq> Some i)"
    using K c
  proof (cases rule: create_collection_cases)
    case existing
    then show ?thesis using ok name by (auto simp: registry_ok_def Let_def)
  next
    case fresh
    let ?m = "view (db_registry s)"
    have i: "i = reg_next K ?m" using fresh(2) by (auto simp: reg_next_def reg_entry_def)
    have lt: "i < i + 1" using room unfolding i [symmetric] by unat_arith
    have old: "j < i" if "a \<noteq> NEXT_COLLECTION_ID_KEY" "reg_entry K ?m a = Some j" for a j
      using ok that i by (auto simp: registry_ok_def reg_next_def Let_def)
    have inj: "a = b" if "a \<noteq> NEXT_COLLECTION_ID_KEY" "b \<noteq> NEXT_COLLECTION_ID_KEY"
      "reg_entry K ?m a = Some j" "reg_entry K ?m b = Some j" for a b j
      using ok that by (auto simp: registry_ok_def Let_def)
    show ?thesis
      using fresh(4) lt old inj name less_trans [OF _ lt]
      by (auto simp: registry_ok_def Let_def)
  qed
  then show "registry_ok K (view (db_registry s'))" "reg_entry K (view (db_registry s')) name = Some i"
    "\<And>n. n \<noteq> name \<Longrightarrow> n \<noteq> NEXT_COLLECTION_ID_KEY \<Longrightarrow>
       reg_entry K (view (db_registry s')) n = reg_entry K (view (db_registry s)) n \<and>
       reg_entry K (view (db_registry s')) n \<noteq> Some i"
    by blast+
qed

text \<open>The counter's key is not refused as a name: it gets the id of the next new collection.\<close>

lemma counter_name_collides:
  assumes K: "storage_ok K view" and n: "reg_entry K (view (db_registry s)) NEXT_COLLECTION_ID_KEY = Some n"
    and name: "view (db_registry s) name = None"
    and a: "create_collection K s NEXT_COLLECTION_ID_KEY = Inr (i, s')"
    and b: "create_collection K s' name = Inr (j, s'')"
  shows "i = j"
proof -
  have some: "view (db_registry s) NEXT_COLLECTION_ID_KEY \<noteq> None"
    using n by (auto simp: reg_entry_def split: option.splits)
  have "s' = s \<and> i = n" using K a by (cases rule: create_collection_cases) (use n some in auto)
  moreover have "j = n"
    using K b by (cases rule: create_collection_cases)
      (use calculation n some name in \<open>auto simp: reg_entry_def\<close>)
  ultimately show ?thesis by simp
qed

section \<open>Association lists never fail\<close>

lemma rfold_total:
  assumes "\<And>s x. \<exists>s'. f s x = Inr s'"
  shows "\<exists>s'. rfold f s xs = Inr s'"
proof (induction xs arbitrary: s)
  case (Cons x xs)
  obtain s1 where "f s x = Inr s1" using assms by blast
  then show ?case using Cons by simp
qed simp

lemma list_storage_total:
  shows "\<exists>d'. sg_delete (list_storage E) d k = Inr d'"
    and "\<exists>xs. sg_prefix_iter (list_storage E) d p = Inr xs"
    and "\<exists>d'. delete_prefix (list_storage E) d p = Inr d'"
    and "\<exists>cs. doc_index_rewrites (list_storage E) w entries = Inr cs"
    and "\<exists>s'. delete_collection (list_storage E) s name c = Inr s'"
    and "\<exists>e s'. delete_document_everywhere (list_storage E) s c w = Inr (e, s')"
    and "\<exists>i s'. create_collection (list_storage E) s name = Inr (i, s')"
proof -
  have del: "\<exists>d'. sg_delete (list_storage E) d k = Inr d'" for d k by (simp add: list_storage_def)
  show "\<exists>d'. sg_delete (list_storage E) d k = Inr d'" by (rule del)
  show it: "\<exists>xs. sg_prefix_iter (list_storage E) d p = Inr xs" for d p by (simp add: list_storage_def)
  have dp: "\<exists>d'. delete_prefix (list_storage E) d p = Inr d'" for d p
  proof -
    obtain xs where "sg_prefix_iter (list_storage E) d p = Inr xs" using it by blast
    moreover obtain d' where "rfold (sg_delete (list_storage E)) d (map fst xs) = Inr d'"
      using rfold_total [of "sg_delete (list_storage E)"] del by blast
    ultimately show ?thesis by (simp add: delete_prefix_def)
  qed
  then show "\<exists>d'. delete_prefix (list_storage E) d p = Inr d'" .
  show rw: "\<exists>cs. doc_index_rewrites (list_storage E) w entries = Inr cs" for w entries
    unfolding doc_index_rewrites_def by (rule rfold_total) (auto simp: list_storage_def)
  show "\<exists>s'. delete_collection (list_storage E) s name c = Inr s'"
    using del [of "db_registry s" name] dp [of "db_locations s" "collection_prefix c"]
      dp [of "db_doc_index s" "collection_prefix c"] dp [of "db_documents s" "collection_prefix c"]
      dp [of "db_metadata s" "collection_prefix c"]
    by (auto simp: delete_collection_def)
  show "\<exists>e s'. delete_document_everywhere (list_storage E) s c w = Inr (e, s')"
  proof -
    let ?K = "list_storage E" and ?k = "document_key c w"
    obtain r where r: "sg_get ?K (db_documents s) ?k = Inr r" by (simp add: list_storage_def)
    obtain docs where d: "(if r \<noteq> None then sg_delete ?K (db_documents s) ?k else Ok (db_documents s)) = Inr docs"
      using del by (cases r) auto
    obtain xs where x: "sg_prefix_iter ?K (db_doc_index s) (collection_prefix c) = Inr xs" using it by blast
    obtain cs where c: "doc_index_rewrites ?K w xs = Inr cs" using rw by blast
    have "\<exists>d'. rfold (\<lambda>d (k, kept). if kept = [] then sg_delete ?K d k
               else rbind (sg_ser_u64s ?K kept) (\<lambda>v. sg_put ?K d k v)) (db_doc_index s) cs = Inr d'"
      by (rule rfold_total) (auto simp: list_storage_def)
    then show ?thesis using r d x c by (auto simp: delete_document_everywhere_def Let_def)
  qed
  show "\<exists>i s'. create_collection (list_storage E) s name = Inr (i, s')"
    by (auto simp: create_collection_def get_collection_id_txn_def load_next_collection_id_txn_def
        list_storage_def split: option.splits)
qed

lemma chunks_u64s [simp]: "map u64_of_le (chunks 8 (concat (map u64_to_le xs))) = xs"
  by (subst chunks_concat) (auto simp: o_def)

section \<open>Properties\<close>

text \<open>C40: Loading a collection never fails because of its bytes: whenever the storage can be
  read, it returns exactly the locations that decode and adds the number of the others to the
  counter of skipped records.\<close>

theorem damage_does_not_stop_a_load:
  assumes "storage_ok K view" "sg_read_txn K (st_dbs s) = Inr txn"
    and "sg_prefix_iter K (db_locations txn) (collection_prefix c) = Inr entries"
  shows "\<exists>ls. load_all_locations K s c =
       Inr (ls, s\<lparr>st_skipped := st_skipped s + of_nat (length entries - length ls)\<rparr>) \<and>
     set ls = {l. \<exists>k v. prefix (collection_prefix c) k \<and>
       view (db_locations (st_dbs s)) k = Some v \<and> decode_location (sg_codec K) v (st_precision s) = Inr l}"
proof -
  obtain ls s' where l: "load_all_locations K s c = Inr (ls, s')"
    using assms(2,3) by (simp add: load_all_locations_eq read_txn_def)
  then have "ls = decoded_locations (sg_codec K) (st_precision s) entries"
    "s' = s\<lparr>st_skipped := st_skipped s + of_nat (length (undecodable (sg_codec K) (st_precision s) entries))\<rparr>"
    using assms(2,3) by (auto simp: load_all_locations_eq read_txn_def)
  moreover have "length entries - length (decoded_locations (sg_codec K) (st_precision s) entries) =
      length (undecodable (sg_codec K) (st_precision s) entries)"
    using decoded_undecodable [of "sg_codec K" "st_precision s" entries] by simp
  ultimately have "load_all_locations K s c =
       Inr (ls, s\<lparr>st_skipped := st_skipped s + of_nat (length entries - length ls)\<rparr>)"
    using l by (simp only:)
  moreover have "set ls = {l. \<exists>k v. prefix (collection_prefix c) k \<and>
       view (db_locations (st_dbs s)) k = Some v \<and> decode_location (sg_codec K) v (st_precision s) = Inr l}"
    by (rule set_eqI) (simp only: mem_Collect_eq load_all_locations_set [OF assms(1) l])
  ultimately show ?thesis by blast
qed

definition no_dbs :: "(bytes \<times> bytes) list dbs" where  \<comment> \<open>for the witnesses: a new store\<close>
  "no_dbs = \<lparr>db_registry = [], db_locations = [], db_metadata = [], db_documents = [],
             db_doc_index = [], db_audit = []\<rparr>"

abbreviation list_K :: "(bytes \<times> bytes) list storage" where
  "list_K \<equiv> list_storage zero_codec"

theorem damage_does_not_stop_a_load_witness:
  "let s = \<lparr>st_dbs = no_dbs\<lparr>db_locations := [(location_key 4 9, [1, 2, 3])]\<rparr>, st_skipped = 0, st_precision = PF64\<rparr>
   in load_all_locations list_K s 4 = Inr ([], s\<lparr>st_skipped := 1\<rparr>)"
proof -
  let ?s = "\<lparr>st_dbs = no_dbs\<lparr>db_locations := [(location_key 4 9, [1, 2, 3])]\<rparr>, st_skipped = 0, st_precision = PF64\<rparr>"
  have "isl (decode_location zero_codec [1, 2, 3] PF64)" by code_simp
  then have damaged: "decode_location zero_codec [1, 2, 3] PF64 \<noteq> Inr l" for l by (cases "decode_location zero_codec [1, 2, 3] PF64") auto
  have entries: "al_listing [(location_key 4 9, [1, 2, 3])] (prefix (collection_prefix 4)) =
      [(location_key 4 9, [1, 2, 3 :: u8])]" by code_simp
  have "\<exists>ls. load_all_locations list_K ?s 4 = Inr (ls, ?s\<lparr>st_skipped := of_nat (1 - length ls)\<rparr>) \<and> set ls = {}"
    using damage_does_not_stop_a_load [OF list_storage_ok, of zero_codec ?s "st_dbs ?s" 4
        "al_listing [(location_key 4 9, [1, 2, 3])] (prefix (collection_prefix 4))"] damaged
    by (auto simp: list_storage_def entries split: if_splits)
  then show ?thesis by (simp add: Let_def)
qed

text \<open>Dropping a collection removes its locations, documents, postings and metadata, all of
  them, and its name; every other collection, every other name and the audit log stay as they
  were.\<close>

lemma delete_collection_is_exact:
  assumes "storage_ok K view" "delete_collection K s name c = Inr s'"
  shows "scope_view view s' c = (Map.empty, Map.empty, Map.empty, Map.empty) \<and>
     (\<forall>c'. c' \<noteq> c \<longrightarrow> scope_view view s' c' = scope_view view s c') \<and>
     view (db_registry s') = (view (db_registry s))(name := None) \<and> db_audit s' = db_audit s"
  using delete_collection_scope [OF assms] by simp

text \<open>Deleting a document removes the document, if there was one, and its index from every
  posting list of its collection; the other postings keep their order, and nothing outside the
  collection changes.\<close>

lemma deleted_document_leaves_no_trace:
  assumes "storage_ok K view" "delete_document_everywhere K s c w = Inr (existed, s')"
  shows "(existed \<longleftrightarrow> view (db_documents s) (document_key c w) \<noteq> None) \<and>
     view (db_documents s') = (view (db_documents s))(document_key c w := None) \<and>
     (\<forall>i ids. postings K view s c i = Inr ids \<longrightarrow>
        postings K view s' c i = Inr (filter (\<lambda>d. d \<noteq> w) ids)) \<and>
     only_scope view c s s'"
  using delete_document_everywhere_effect [OF assms] by blast

text \<open>Collection ids are never shared: in a well-formed registry, registering a name gives
  it an id that no other name has, keeps every other name's id, and leaves the registry well
  formed (as long as fewer than \<open>2 ^ 32\<close> collections were ever made).\<close>

lemma collection_ids_are_unique:
  assumes "storage_ok K view" "create_collection K s name = Inr (i, s')"
    and "registry_ok K (view (db_registry s))" "name \<noteq> NEXT_COLLECTION_ID_KEY"
    and "reg_next K (view (db_registry s)) + 1 \<noteq> 0"
  shows "registry_ok K (view (db_registry s')) \<and> reg_entry K (view (db_registry s')) name = Some i \<and>
     (\<forall>n. n \<noteq> name \<longrightarrow> n \<noteq> NEXT_COLLECTION_ID_KEY \<longrightarrow>
       reg_entry K (view (db_registry s')) n = reg_entry K (view (db_registry s)) n \<and>
       reg_entry K (view (db_registry s')) n \<noteq> Some i)"
  using create_collection_registry [OF assms] by blast

text \<open>The registry's counter lives under a key that is also a legal collection name: asking
  for a collection of that name returns the counter as its id, and the next new collection is
  given the same id, so that two collections share their records.\<close>

lemma counter_key_is_a_collection_name:
  assumes "storage_ok K view" "reg_entry K (view (db_registry s)) NEXT_COLLECTION_ID_KEY = Some n"
    and "view (db_registry s) name = None"
    and "create_collection K s NEXT_COLLECTION_ID_KEY = Inr (i, s')"
    and "create_collection K s' name = Inr (j, s'')"
  shows "i = j"
  by (rule counter_name_collides [OF assms])

end
