(* ===== verification/Audit_Log.thy ===== *)
theory Audit_Log
  imports Store
begin

text \<open>
  heather_db/src/audit.rs: the access log of a database, staged in memory and flushed to
  the audit sub-database. Record keys are the timestamp and the sequence number, big
  endian, so byte order is time order. The encoding of a record (bincode) is the parameter
  \<open>audit_env\<close>; the clock is an argument of the operations that read it. A mutex that a
  panic poisoned is the flag \<open>al_poisoned\<close>. An operation that changes the log also when it
  fails returns its result beside the new state.
\<close>

section \<open>Records, settings and queries\<close>

record AuditRecord =
  au_seq :: u64
  au_timestamp_ms :: u64
  au_user :: string
  au_scope :: string
  au_database :: string
  au_collection :: string
  au_route :: string
  au_status :: u16
  au_result_count :: nat
  au_location_ids :: "u64 list"
  au_document_ids :: "u64 list"
  au_query_hash :: "string option"
  au_query_raw :: "f64 list option"

record audit_env =
  ae_ser :: "AuditRecord \<Rightarrow> bytes res"
  ae_de :: "bytes \<Rightarrow> AuditRecord option"

datatype AuditVisibility = VisRoot | VisDbUsers

record AuditConfig =
  ac_enabled :: bool
  ac_max_entries :: u64
  ac_retention_days :: u64
  ac_flush_threshold :: nat
  ac_flush_interval_secs :: u64
  ac_max_buffer :: nat
  ac_store_raw_query :: bool
  ac_visibility :: AuditVisibility

definition AuditConfig_default :: AuditConfig where
  "AuditConfig_default =
     \<lparr>ac_enabled = True, ac_max_entries = 1000000, ac_retention_days = 90, ac_flush_threshold = 256,
      ac_flush_interval_secs = 2, ac_max_buffer = 16384, ac_store_raw_query = False,
      ac_visibility = VisRoot\<rparr>"

definition retention_ms :: "AuditConfig \<Rightarrow> u64 option" where
  "retention_ms c =
     (if ac_retention_days c = 0 then None
      else Some (ac_retention_days c * 24 * 60 * 60 * 1000))"

record AuditQuery =
  aq_user :: "string option"
  aq_collection :: "string option"
  aq_route :: "string option"
  aq_since_ms :: "u64 option"
  aq_until_ms :: "u64 option"
  aq_limit :: nat
  aq_max_scan :: nat

definition DEFAULT_MAX_SCAN :: nat where
  "DEFAULT_MAX_SCAN = 200000"

definition AuditQuery_new :: "nat \<Rightarrow> AuditQuery" where
  "AuditQuery_new limit =
     \<lparr>aq_user = None, aq_collection = None, aq_route = None, aq_since_ms = None, aq_until_ms = None,
      aq_limit = limit, aq_max_scan = DEFAULT_MAX_SCAN\<rparr>"

definition none_or :: "('a \<Rightarrow> bool) \<Rightarrow> 'a option \<Rightarrow> bool" where
  "none_or P x = (case x of None \<Rightarrow> True | Some v \<Rightarrow> P v)"

definition audit_matches :: "AuditQuery \<Rightarrow> AuditRecord \<Rightarrow> bool" where
  "audit_matches q r \<longleftrightarrow>
     none_or (\<lambda>u. au_user r = u) (aq_user q) \<and>
     none_or (\<lambda>c. au_collection r = c) (aq_collection q) \<and>
     none_or (\<lambda>t. au_route r = t) (aq_route q)"

section \<open>Keys and hashes\<close>

definition audit_key :: "u64 \<Rightarrow> u64 \<Rightarrow> bytes" where
  "audit_key timestamp_ms seq = u64_to_be timestamp_ms @ u64_to_be seq"

text \<open>FNV-1a over the big-endian bits of each component, printed as 16 hex digits.\<close>

definition fnv_byte :: "u64 \<Rightarrow> u8 \<Rightarrow> u64" where
  "fnv_byte h b = (xor h (ucast b)) * 0x100000001b3"

definition fnv :: "f64 list \<Rightarrow> u64" where
  "fnv query = foldl (\<lambda>h v. foldl fnv_byte h (u64_to_be (f64_bits v))) 0xcbf29ce484222325 query"

definition hex_digit :: "nat \<Rightarrow> char" where
  "hex_digit n = ''0123456789abcdef'' ! n"

definition hex_byte :: "u8 \<Rightarrow> string" where
  "hex_byte b = [hex_digit (unat b div 16), hex_digit (unat b mod 16)]"

definition query_hash :: "f64 list \<Rightarrow> string" where
  "query_hash query = concat (map hex_byte (u64_to_be (fnv query)))"

section \<open>The log\<close>

record AuditLog =
  al_config :: AuditConfig
  al_buffer :: "AuditRecord list"
  al_poisoned :: bool
  al_seq :: u64
  al_dropped :: u64

definition AuditLog_open :: "'db storage \<Rightarrow> 'db store \<Rightarrow> AuditConfig \<Rightarrow> AuditLog res" where
  "AuditLog_open K s c =
     rbind (last_audit_seq K s) (\<lambda>last.
     Ok \<lparr>al_config = c, al_buffer = [], al_poisoned = False,
         al_seq = (case last of Some n \<Rightarrow> n + 1 | None \<Rightarrow> 0), al_dropped = 0\<rparr>)"

definition pending :: "AuditLog \<Rightarrow> nat" where
  "pending a = (if al_poisoned a then 0 else length (al_buffer a))"

definition record_access :: "u64 \<Rightarrow> AuditLog \<Rightarrow> AuditRecord \<Rightarrow> bool \<times> AuditLog" where
  "record_access now a r =
     (if \<not> ac_enabled (al_config a) then (False, a)
      else let r = r\<lparr>au_seq := al_seq a, au_timestamp_ms := now\<rparr>;
               a = a\<lparr>al_seq := al_seq a + 1\<rparr>
           in if al_poisoned a then (False, a)
              else if ac_max_buffer (al_config a) \<le> length (al_buffer a)
              then (True, a\<lparr>al_dropped := al_dropped a + 1\<rparr>)
              else let buf = al_buffer a @ [r]
                   in (ac_flush_threshold (al_config a) \<le> length buf, a\<lparr>al_buffer := buf\<rparr>))"

definition min_ts :: "u64 \<Rightarrow> AuditConfig \<Rightarrow> u64" where
  "min_ts now c = (case retention_ms c of Some ms \<Rightarrow> if ms \<le> now then now - ms else 0 | None \<Rightarrow> 0)"

definition prune_log :: "'db storage \<Rightarrow> u64 \<Rightarrow> AuditLog \<Rightarrow> 'db store \<Rightarrow> 'db store res" where
  "prune_log K now a s =
     rbind (write_txn K s) (\<lambda>txn.
     rbind (prune_audit K txn (unat (ac_max_entries (al_config a))) (min_ts now (al_config a))) (\<lambda>(pruned, txn).
     if pruned = 0 then Ok s else commit K s txn))"

definition append_batch ::
  "'db storage \<Rightarrow> audit_env \<Rightarrow> 'db dbs \<Rightarrow> AuditRecord list \<Rightarrow> 'db dbs res" where
  "append_batch K A txn batch =
     rfold (\<lambda>txn r. rbind (ae_ser A r) (\<lambda>value.
       append_audit K txn (audit_key (au_timestamp_ms r) (au_seq r)) value)) txn batch"

text \<open>The batch has left the buffer before the transaction opens: an error below loses it.\<close>

definition flush_log ::
  "'db storage \<Rightarrow> audit_env \<Rightarrow> u64 \<Rightarrow> AuditLog \<Rightarrow> 'db store \<Rightarrow> nat res \<times> AuditLog \<times> 'db store" where
  "flush_log K A now a s =
     (if al_poisoned a then (Err LockPoisoned, a, s)
      else if al_buffer a = [] then
        (case prune_log K now a s of Inl e \<Rightarrow> (Inl e, a, s) | Inr s' \<Rightarrow> (Ok 0, a, s'))
      else let batch = al_buffer a; a = a\<lparr>al_buffer := []\<rparr> in
        case rbind (write_txn K s) (\<lambda>txn.
             rbind (append_batch K A txn batch) (\<lambda>txn.
             rbind (prune_audit K txn (unat (ac_max_entries (al_config a))) (min_ts now (al_config a)))
               (\<lambda>(_, txn). commit K s txn))) of
          Inl e \<Rightarrow> (Inl e, a, s)
        | Inr s' \<Rightarrow> (Ok (length batch), a, s'))"

text \<open>The closure of \<open>query\<close>: keep a matching record, go on while there are fewer than the limit.\<close>

definition visit_record ::
  "audit_env \<Rightarrow> AuditQuery \<Rightarrow> AuditRecord list \<Rightarrow> bytes \<Rightarrow> bool \<times> AuditRecord list" where
  "visit_record A q out value =
     (case ae_de A value of
        Some r \<Rightarrow> if audit_matches q r then (length (out @ [r]) < aq_limit q, out @ [r]) else (True, out)
      | None \<Rightarrow> (True, out))"

definition query_log ::
  "'db storage \<Rightarrow> audit_env \<Rightarrow> 'db store \<Rightarrow> AuditQuery \<Rightarrow> AuditRecord list res" where
  "query_log K A s q =
     scan_audit_desc K s (aq_since_ms q) (aq_until_ms q) (aq_max_scan q) (visit_record A q) []"

section \<open>Pruning\<close>

lemma take_less_take: "(xs :: bytes) < ys \<Longrightarrow> take n xs \<le> take n ys"
proof (induction n arbitrary: xs ys)
  case (Suc n)
  then show ?case
    by (cases xs; cases ys) (auto simp: Cons_less_Cons Cons_le_Cons)
qed simp

lemma timestamp_mono:
  assumes "k < k'" "8 \<le> length k" "8 \<le> length k'"
  shows "key_timestamp k \<le> key_timestamp k'"
proof -
  have be: "be_int (take 8 x) = uint (key_timestamp x)" if "8 \<le> length x" for x
    using that be_int_u64 [of "u64_of_be (take 8 x)"]
    by (simp add: key_timestamp_def u64_to_be_def u64_of_be_def u64_to_le_of_le)
  have "take 8 k \<le> take 8 k'" by (rule take_less_take [OF assms(1)])
  then have "be_int (take 8 k) \<le> be_int (take 8 k')"
    using less_be_int [of "take 8 k" "take 8 k'"] assms(2,3) by (auto simp: le_less)
  then show ?thesis using be assms(2,3) by (simp add: word_le_def)
qed

abbreviation too_old :: "u64 \<Rightarrow> bytes \<times> bytes \<Rightarrow> bool" where
  "too_old m e \<equiv> 0 < m \<and> key_timestamp (fst e) < m"

lemma doomed_keys_take:
  assumes "sorted_wrt (\<lambda>a b. key_timestamp (fst a) \<le> key_timestamp (fst b)) entries" "ex \<le> length entries"
  shows "doomed_keys ex m entries = map fst (take (max ex (length (filter (too_old m) entries))) entries)"
  using assms
proof (induction entries arbitrary: ex)
  case (Cons e entries)
  obtain k v where e: "e = (k, v)" by fastforce
  have none: "filter (too_old m) entries = []" if "\<not> too_old m e"
    using that Cons.prems(1) by (auto simp: filter_empty_conv)
  show ?case
  proof (cases "too_old m e")
    case True
    then show ?thesis using Cons by (cases ex) (auto simp: e)
  next
    case False
    then show ?thesis using Cons none [OF False] by (cases ex) (auto simp: e)
  qed
qed simp

lemma keys_of_listing:
  assumes "listing m (\<lambda>_. True) xs"
  shows "set (map fst xs) = dom m" "card (dom m) = length xs" "finite (dom m)"
proof -
  show keys: "set (map fst xs) = dom m"
    using listing_set [OF assms] by (force simp: dom_def)
  show "card (dom m) = length xs"
    using distinct_card [OF listing_distinct [OF assms]] by (simp only: keys length_map)
  show "finite (dom m)" by (simp flip: keys)
qed

lemma prune_audit_view:
  assumes K: "storage_ok K view" and p: "prune_audit K t n m = Inr (k, t')"
    and keys: "\<forall>b\<in>dom (view (db_audit t)). 8 \<le> length b"
  shows "\<exists>gone. view (db_audit t') = view (db_audit t) |` (- gone) \<and> gone \<subseteq> dom (view (db_audit t)) \<and>
      (\<forall>b\<in>gone. \<forall>b'\<in>dom (view (db_audit t')). b < b') \<and> k = card gone \<and>
      k = max (card (dom (view (db_audit t))) - n)
            (card {b \<in> dom (view (db_audit t)). 0 < m \<and> key_timestamp b < m}) \<and>
      t' = t\<lparr>db_audit := db_audit t'\<rparr>"
proof -
  let ?m = "view (db_audit t)"
  obtain total where total: "sg_len K (db_audit t) = Inr total"
    using p by (auto simp: prune_audit_def rbind_eq_Inr)
  then have card: "total = card (dom ?m)" by (rule storage_okD(9) [OF K])
  show ?thesis
  proof (cases "total - n = 0 \<and> m = 0")
    case True
    with p total have "k = 0" "t' = t" by (simp_all add: prune_audit_def)
    with True card show ?thesis by (intro exI [of _ "{}"]) (simp add: restrict_map_def fun_eq_iff)
  next
    case False
    then obtain entries d where e: "sg_iter K (db_audit t) = Inr entries"
      "rfold (sg_delete K) (db_audit t) (doomed_keys (total - n) m entries) = Inr d"
      "k = length (doomed_keys (total - n) m entries)" "t' = t\<lparr>db_audit := d\<rparr>"
      using p total by (auto simp: prune_audit_def Let_def rbind_eq_Inr)
    have l: "listing ?m (\<lambda>_. True) entries" by (rule storage_okD(8) [OF K e(1)])
    note dom = keys_of_listing [OF l]
    have len8: "8 \<le> length (fst x)" if "x \<in> set entries" for x
      using keys dom(1) that by (metis image_eqI set_map)
    have sorted: "sorted_wrt (<) (map fst entries)" using l by (simp add: listing_def)
    have ts: "sorted_wrt (\<lambda>a b. key_timestamp (fst a) \<le> key_timestamp (fst b)) entries"
      using sorted unfolding sorted_wrt_map
      by (rule sorted_wrt_mono_rel [rotated]) (use timestamp_mono len8 in blast)
    define j where "j = max (total - n) (length (filter (too_old m) entries))"
    have j: "j \<le> length entries" using card dom(2) by (simp add: j_def)
    have doomed: "doomed_keys (total - n) m entries = map fst (take j entries)"
      unfolding j_def by (rule doomed_keys_take [OF ts]) (simp add: card dom(2))
    let ?gone = "set (map fst (take j entries))"
    have split: "map fst entries = map fst (take j entries) @ map fst (drop j entries)"
      by (simp flip: map_append)
    have view: "view d = (\<lambda>b. if b \<in> ?gone then None else ?m b)"
      using delete_keys_view [OF K e(2)] by (simp add: doomed)
    have old: "card {b \<in> dom ?m. 0 < m \<and> key_timestamp b < m} = length (filter (too_old m) entries)"
    proof -
      have "{b \<in> dom ?m. 0 < m \<and> key_timestamp b < m} = set (map fst (filter (too_old m) entries))"
        by (auto simp flip: dom(1))
      moreover have "distinct (map fst (filter (too_old m) entries))"
        using listing_distinct [OF l] by (rule distinct_map_filter)
      ultimately show ?thesis by (simp only: distinct_card length_map)
    qed
    have "dom (view d) = set (map fst (drop j entries))"
    proof -
      have "dom (view d) = dom ?m - ?gone" unfolding view by (auto simp del: set_map split: if_splits)
      also have "\<dots> = set (map fst (drop j entries))"
        using listing_distinct [OF l] unfolding dom(1) [symmetric] split distinct_append by auto
      finally show ?thesis .
    qed
    then have "\<forall>b\<in>?gone. \<forall>b'\<in>dom (view d). b < b'"
      using sorted unfolding split sorted_wrt_append by simp
    moreover have "card ?gone = j"
      using distinct_card [of "map fst (take j entries)"] listing_distinct [OF l] j
      unfolding split distinct_append by simp
    moreover have "?gone \<subseteq> dom ?m" unfolding dom(1) [symmetric] split by simp
    moreover have "view d = ?m |` (- ?gone)" unfolding view by (rule ext) (simp add: restrict_map_def del: set_map)
    moreover have kj: "k = j" unfolding e(3) doomed using j by simp
    moreover have "k = max (card (dom ?m) - n) (card {b \<in> dom ?m. 0 < m \<and> key_timestamp b < m})"
      by (simp only: kj j_def card old)
    ultimately show ?thesis by (intro exI [of _ ?gone] conjI) (simp_all add: e(4) del: set_map)
  qed
qed

section \<open>Querying\<close>

text \<open>The records a query looks at: the newest \<open>max_scan\<close>, those in the time window.\<close>

definition audit_window :: "AuditQuery \<Rightarrow> (bytes \<times> bytes) list \<Rightarrow> bytes list" where
  "audit_window q newest_first =
     map snd (takeWhile (\<lambda>e. none_or (\<lambda>t. t \<le> key_timestamp (fst e)) (aq_since_ms q))
       (filter (\<lambda>e. none_or (\<lambda>u. key_timestamp (fst e) \<le> u) (aq_until_ms q))
         (take (aq_max_scan q) newest_first)))"

definition hits :: "audit_env \<Rightarrow> AuditQuery \<Rightarrow> bytes list \<Rightarrow> AuditRecord list" where
  "hits A q values = filter (audit_matches q) (List.map_filter (ae_de A) values)"

lemma hits_simps [simp]:
  "hits A q [] = []"
  "hits A q (v # vs) = (case ae_de A v of
     Some r \<Rightarrow> if audit_matches q r then r # hits A q vs else hits A q vs | None \<Rightarrow> hits A q vs)"
  by (simp_all add: hits_def split: option.splits)

lemma audit_window_Cons:
  "audit_window (q\<lparr>aq_max_scan := Suc n\<rparr>) ((k, v) # es) =
     (if (case aq_until_ms q of Some u \<Rightarrow> key_timestamp k > u | None \<Rightarrow> False)
      then audit_window (q\<lparr>aq_max_scan := n\<rparr>) es
      else if (case aq_since_ms q of Some t \<Rightarrow> key_timestamp k < t | None \<Rightarrow> False) then []
      else v # audit_window (q\<lparr>aq_max_scan := n\<rparr>) es)"
  by (cases "aq_until_ms q"; cases "aq_since_ms q") (auto simp: audit_window_def none_or_def not_le)

lemma visit_record_hits:
  assumes "length out < max 1 (aq_limit q)" "visit_record A q out v = (go_on, out')"
  shows "\<not> go_on \<Longrightarrow> out' = take (max 1 (aq_limit q)) (out @ hits A q (v # vs))"
    and "go_on \<Longrightarrow> length out' < max 1 (aq_limit q) \<and> out' @ hits A q vs = out @ hits A q (v # vs)"
  using assms by (auto simp: visit_record_def max_def take_Cons' split: option.splits if_splits)

lemma scan_desc_hits:
  assumes "length out < max 1 (aq_limit q)" "scanned + n = aq_max_scan q"
  shows "scan_desc (aq_since_ms q) (aq_until_ms q) (aq_max_scan q) (visit_record A q) scanned out entries =
     take (max 1 (aq_limit q)) (out @ hits A q (audit_window (q\<lparr>aq_max_scan := n\<rparr>) entries))"
  using assms
proof (induction entries arbitrary: out scanned n)
  case Nil
  then show ?case by (simp add: audit_window_def)
next
  case (Cons e entries)
  obtain k v where e: "e = (k, v)" by fastforce
  obtain go_on out' where v: "visit_record A q out v = (go_on, out')" by fastforce
  show ?case
  proof (cases n)
    case 0
    then show ?thesis using Cons.prems by (simp add: e audit_window_def)
  next
    case (Suc m)
    note IH = Cons.IH [of _ "Suc scanned" m]
    note visit = visit_record_hits [OF Cons.prems(1) v, of "audit_window (q\<lparr>aq_max_scan := m\<rparr>) entries"]
    have le: "\<not> aq_max_scan q < Suc scanned" using Cons.prems(2) Suc by simp
    have now: "Suc scanned + m = aq_max_scan q" using Cons.prems(2) Suc by simp
    have fits: "take (max 1 (aq_limit q)) out = out" using Cons.prems(1) by simp
    show ?thesis
      unfolding Suc e audit_window_Cons
      using le IH [OF Cons.prems(1) now] IH [OF _ now, of out'] visit fits
      by (cases go_on) (simp_all add: Let_def v del: hits_simps(2))
  qed
qed

lemma query_log_hits:
  "query_log K A s q =
     rbind (read_txn K s) (\<lambda>txn. rbind (sg_iter K (db_audit txn)) (\<lambda>entries.
       Ok (take (max 1 (aq_limit q)) (hits A q (audit_window q (rev entries))))))"
  using scan_desc_hits [of "[]" q 0 "aq_max_scan q" A]
  by (simp add: query_log_def scan_audit_desc_def sg_rev_iter_def rbind_assoc)

section \<open>Staging and flushing\<close>

text \<open>Buffered records are numbered in order, below the counter, and fit the buffer.\<close>

definition log_ok :: "AuditLog \<Rightarrow> bool" where
  "log_ok a \<longleftrightarrow>
     sorted_wrt (<) (map au_seq (al_buffer a)) \<and> (\<forall>r\<in>set (al_buffer a). au_seq r < al_seq a) \<and>
     length (al_buffer a) \<le> ac_max_buffer (al_config a)"

lemma record_access_ok:
  assumes "log_ok a" "al_seq a + 1 \<noteq> 0"
  shows "log_ok (snd (record_access now a r))"
proof -
  have lt: "al_seq a < al_seq a + 1" using assms(2) by unat_arith
  then have "s < al_seq a + 1" if "s < al_seq a" for s using that by (rule less_trans [rotated])
  then show ?thesis
    using assms(1) lt by (auto simp: log_ok_def record_access_def Let_def sorted_wrt_append)
qed

lemma append_batch_view:
  assumes K: "storage_ok K view"
  shows "append_batch K A t batch = Inr t' \<Longrightarrow> distinct (map au_seq batch) \<Longrightarrow>
    t' = t\<lparr>db_audit := db_audit t'\<rparr> \<and>
    (\<forall>r\<in>set batch. \<exists>v. ae_ser A r = Inr v \<and>
       view (db_audit t') (audit_key (au_timestamp_ms r) (au_seq r)) = Some v) \<and>
    (\<forall>b. b \<notin> (\<lambda>r. audit_key (au_timestamp_ms r) (au_seq r)) ` set batch \<longrightarrow>
       view (db_audit t') b = view (db_audit t) b)"
proof (induction batch arbitrary: t)
  case Nil
  then show ?case by (simp add: append_batch_def)
next
  case (Cons r batch)
  obtain v d where d: "ae_ser A r = Inr v"
    "sg_put K (db_audit t) (audit_key (au_timestamp_ms r) (au_seq r)) v = Inr d"
    "append_batch K A (t\<lparr>db_audit := d\<rparr>) batch = Inr t'"
    using Cons.prems(1) by (auto simp: append_batch_def append_audit_def rbind_eq_Inr)
  have v: "view d = (view (db_audit t))(audit_key (au_timestamp_ms r) (au_seq r) \<mapsto> v)"
    by (rule storage_okD(5) [OF K d(2)])
  have new: "audit_key (au_timestamp_ms r) (au_seq r) \<notin> (\<lambda>r. audit_key (au_timestamp_ms r) (au_seq r)) ` set batch"
    using Cons.prems(2) by (auto simp: audit_key_def)
  show ?case using Cons.IH [OF d(3)] Cons.prems(2) new d(1) by (auto simp: v)
qed

lemma prune_total: "\<exists>k t'. prune_audit (list_storage E) t n m = Inr (k, t')"
proof -
  let ?K = "list_storage E"
  obtain l xs where it: "sg_len ?K (db_audit t) = Inr l" "sg_iter ?K (db_audit t) = Inr xs"
    by (simp add: list_storage_def)
  obtain d where "rfold (sg_delete ?K) (db_audit t) (doomed_keys (l - n) m xs) = Inr d"
    using rfold_total [of "sg_delete ?K"] list_storage_total(1) by blast
  then show ?thesis by (simp add: prune_audit_def Let_def it)
qed

lemma log_ok_distinct: "log_ok a \<Longrightarrow> distinct (map au_seq (al_buffer a))"
  by (simp add: log_ok_def strict_sorted_iff)

section \<open>Properties\<close>

text \<open>Pruning is exact: it removes the oldest records, and as many as the larger of the
  excess over the maximum and the number of records past the age bound; the records it keeps are
  unchanged, every one of them newer than every one removed.\<close>

lemma prune_is_exact:
  assumes "storage_ok K view" "prune_audit K t n m = Inr (k, t')"
    and "\<forall>b\<in>dom (view (db_audit t)). 8 \<le> length b"
  shows "\<exists>gone. view (db_audit t') = view (db_audit t) |` (- gone) \<and> gone \<subseteq> dom (view (db_audit t)) \<and>
      (\<forall>b\<in>gone. \<forall>b'\<in>dom (view (db_audit t')). b < b') \<and> k = card gone \<and>
      k = max (card (dom (view (db_audit t))) - n)
            (card {b \<in> dom (view (db_audit t)). 0 < m \<and> key_timestamp b < m}) \<and>
      t' = t\<lparr>db_audit := db_audit t'\<rparr>"
  by (rule prune_audit_view [OF assms])

definition two_records :: "(bytes \<times> bytes) list dbs" where
  "two_records = no_dbs\<lparr>db_audit := [(audit_key 5 0, [1]), (audit_key 3 1, [2])]\<rparr>"

text \<open>A query answers with the newest matching records: of the newest \<open>max_scan\<close> records in
  the time window it returns, newest first, the first \<open>limit\<close> that decode and match (and one
  when the limit is 0); records that do not decode are passed over.\<close>

lemma query_returns_newest_matches:
  "query_log K A s q =
     rbind (read_txn K s) (\<lambda>txn. rbind (sg_iter K (db_audit txn)) (\<lambda>entries.
       Ok (take (max 1 (aq_limit q)) (hits A q (audit_window q (rev entries))))))"
  by (rule query_log_hits)

text \<open>A successful flush persists every staged record and empties the buffer: each record is
  found under its key, unless the retention bound removed it again, and then every record left is
  newer.\<close>

lemma flush_persists_the_batch:
  assumes "storage_ok K view" "flush_log K A now a s = (Inr n, a', s')" "log_ok a"
    and "\<forall>b\<in>dom (view (db_audit (st_dbs s))). 8 \<le> length b"
  shows "al_buffer a' = [] \<and> n = length (al_buffer a) \<and>
     (\<forall>r\<in>set (al_buffer a). let k = audit_key (au_timestamp_ms r) (au_seq r) in
       (\<exists>v. ae_ser A r = Inr v \<and> view (db_audit (st_dbs s')) k = Some v) \<or>
       (\<forall>k'\<in>dom (view (db_audit (st_dbs s'))). k < k'))"
proof (cases "al_buffer a = []")
  case True
  then show ?thesis using assms(2) by (auto simp: flush_log_def split: if_splits sum.splits)
next
  case False
  obtain t k t' where t: "append_batch K A (st_dbs s) (al_buffer a) = Inr t"
    "prune_audit K t (unat (ac_max_entries (al_config a))) (min_ts now (al_config a)) = Inr (k, t')"
    "s' = s\<lparr>st_dbs := t'\<rparr>" "al_buffer a' = []" "n = length (al_buffer a)"
    using assms(2) False storage_okD(1,3) [OF assms(1)]
    by (fastforce simp: flush_log_def Let_def rbind_eq_Inr write_txn_def commit_def
        split: if_splits sum.splits prod.splits)
  note batch = append_batch_view [OF assms(1) t(1) log_ok_distinct [OF assms(3)]]
  have "8 \<le> length b" if "b \<in> dom (view (db_audit t))" for b
    using batch assms(4) that
    by (cases "b \<in> (\<lambda>r. audit_key (au_timestamp_ms r) (au_seq r)) ` set (al_buffer a)")
      (auto simp: audit_key_def domIff)
  then obtain gone where gone: "view (db_audit t') = view (db_audit t) |` (- gone)"
    "\<forall>b\<in>gone. \<forall>b'\<in>dom (view (db_audit t')). b < b'"
    using prune_audit_view [OF assms(1) t(2)] by blast
  show ?thesis
    using batch gone by (fastforce simp: t(3-5) Let_def restrict_map_def)
qed

definition plain_audit :: audit_env where  \<comment> \<open>for the witnesses: only the user survives\<close>
  "plain_audit = \<lparr>ae_ser = (\<lambda>r. Ok (map (\<lambda>c. of_nat (of_char c)) (au_user r))), ae_de = (\<lambda>_. None)\<rparr>"

definition sample_record :: AuditRecord where
  "sample_record = \<lparr>au_seq = 0, au_timestamp_ms = 0, au_user = ''ann'', au_scope = ''db'', au_database = ''main'',
     au_collection = ''notes'', au_route = ''query'', au_status = 200, au_result_count = 1, au_location_ids = [3],
     au_document_ids = [], au_query_hash = None, au_query_raw = None\<rparr>"

definition sample_log :: AuditLog where
  "sample_log = \<lparr>al_config = AuditConfig_default, al_buffer = [], al_poisoned = False, al_seq = 0, al_dropped = 0\<rparr>"

text \<open>Staging keeps the log in order and within its memory bound: the buffered records are
  numbered in the order they came, below the counter, and never more than \<open>max_buffer\<close>; past
  that they are dropped and counted.\<close>

lemma staging_is_bounded:
  assumes "log_ok a" "al_seq a + 1 \<noteq> 0"
  shows "log_ok (snd (record_access now a r))"
  by (rule record_access_ok [OF assms])

end
