(* ===== verification/Collection.thy ===== *)
theory Collection
  imports Store Write Merge
begin

text \<open>
  heather_db/src/collection.rs, the state of a collection: the memory held under the lock
  with its caches, its creation and its recovery from the store, and the discipline of
  every mutation (\<open>AtomicMutation\<close>): an error after the first mutable access reloads the
  last committed state before the lock is released; if the store cannot be read, the
  collection refuses every later operation. The lock's poison flag is part of the state: a
  panic under the write lock sets it. The store is shared and threaded beside the
  collection; what is not under src/ is one record, \<open>machine\<close>.
\<close>

record ('r, 'db) machine =
  mc_libm :: libm
  mc_normal :: "'r \<Rightarrow> f64 \<times> 'r"
  mc_storage :: "'db storage"
  mc_projected :: projected
  mc_fft :: rfft

section \<open>The memory and its caches\<close>

record EAMInner =
  in_valid :: bool
  in_config :: EAMConfig
  in_locations :: "HardLocation list"
  in_next_id :: u64
  in_eta :: f64
  in_doc_next_id :: u64
  in_landmarks :: "nat list"
  in_landmarks_at :: nat
  in_id_lookup :: "u32 list"
  in_address_matrix :: "f64 list"
  in_matrix32 :: "f32 list"
  in_max_norm :: f64
  in_version :: u64

definition f32_rows :: "HardLocation list \<Rightarrow> f32 list \<times> f64" where
  "f32_rows locations =
     (concat (map (\<lambda>l. to_f32 (loc_address l)) locations),
      foldl (\<lambda>m l. f64_max m (l2_norm (loc_address l))) 0 locations)"

definition write_scan :: "f32 list \<Rightarrow> f64 \<Rightarrow> scan" where
  "write_scan matrix32 max_norm = \<lparr>sc_matrix = matrix32, sc_max_norm = max_norm\<rparr>"

definition rebuild_address_matrix :: "EAMInner \<Rightarrow> EAMInner" where
  "rebuild_address_matrix inner =
     (let (matrix32, max_norm) = f32_rows (in_locations inner)
      in inner\<lparr>in_address_matrix := concat (map loc_address (in_locations inner)),
               in_matrix32 := matrix32, in_max_norm := max_norm\<rparr>)"

definition rebuild_graph_cache :: "EAMInner \<Rightarrow> EAMInner" where
  "rebuild_graph_cache inner =
     rebuild_address_matrix
       (inner\<lparr>in_id_lookup := build_id_lookup (in_locations inner),
              in_landmarks := select_landmarks (in_locations inner) (cfg_num_landmarks (in_config inner)),
              in_landmarks_at := length (in_locations inner)\<rparr>)"

definition refresh_landmarks :: "EAMInner \<Rightarrow> EAMInner" where
  "refresh_landmarks inner =
     (let len = length (in_locations inner);
          n = cfg_num_landmarks (in_config inner);
          wanted = min n len;
          grown = (in_landmarks_at inner + max (in_landmarks_at inner div 4) 256 \<le> len)
      in if 0 < n \<and> (length (in_landmarks inner) < wanted \<or> grown)
         then inner\<lparr>in_landmarks := select_landmarks (in_locations inner) n, in_landmarks_at := len\<rparr>
         else inner)"

text \<open>A slice that is out of range, or of another length than its source, panics.\<close>

definition sync_row :: "EAMInner \<Rightarrow> nat \<Rightarrow> EAMInner res" where
  "sync_row inner idx =
     (let d = cfg_d (in_config inner); start = idx * d;
          address = loc_address (in_locations inner ! idx)
      in if idx < length (in_locations inner) \<and> length address = d \<and>
            start + d \<le> length (in_address_matrix inner) \<and> start + d \<le> length (in_matrix32 inner)
         then Ok (inner\<lparr>in_address_matrix := take start (in_address_matrix inner) @ address @
                          drop (start + d) (in_address_matrix inner),
                        in_matrix32 := take start (in_matrix32 inner) @ to_f32 address @
                          drop (start + d) (in_matrix32 inner),
                        in_max_norm := f64_max (in_max_norm inner) (l2_norm address)\<rparr>)
         else Inl Panic)"

definition sync_addresses :: "nat list \<Rightarrow> EAMInner \<Rightarrow> EAMInner res" where
  "sync_addresses indices inner = rfold sync_row inner indices"

definition append_addresses :: "nat \<Rightarrow> EAMInner \<Rightarrow> EAMInner" where
  "append_addresses start_idx inner =
     refresh_landmarks (foldl (\<lambda>inner l.
       inner\<lparr>in_address_matrix := in_address_matrix inner @ loc_address l,
             in_matrix32 := in_matrix32 inner @ to_f32 (loc_address l),
             in_max_norm := f64_max (in_max_norm inner) (l2_norm (loc_address l))\<rparr>)
       inner (drop start_idx (in_locations inner)))"

definition location_address :: "EAMInner \<Rightarrow> u64 \<Rightarrow> f64 list option" where
  "location_address inner i =
     (if unat i < length (in_id_lookup inner)
      then let idx = unat (in_id_lookup inner ! unat i)
           in if idx < length (in_locations inner) \<and> loc_id (in_locations inner ! idx) = i
              then Some (loc_address (in_locations inner ! idx)) else None
      else None)"

definition extend_id_lookup :: "nat \<Rightarrow> EAMInner \<Rightarrow> EAMInner" where
  "extend_id_lookup start_idx inner =
     inner\<lparr>in_id_lookup := foldl (\<lambda>lookup i.
       let n = unat (loc_id (in_locations inner ! i));
           lookup = (if length lookup \<le> n then lookup @ replicate (n + 1 - length lookup) (-1) else lookup)
       in lookup[n := of_nat i]) (in_id_lookup inner) [start_idx..<length (in_locations inner)]\<rparr>"

section \<open>A collection\<close>

record Collection =
  co_id :: u32
  co_name :: bytes
  co_inner :: EAMInner
  co_poisoned :: bool

definition inner_of :: "EAMConfig \<Rightarrow> HardLocation list \<Rightarrow> u64 \<Rightarrow> f64 \<Rightarrow> u64 \<Rightarrow> EAMInner" where
  "inner_of c locations next_id eta doc_next_id =
     (let (matrix32, max_norm) = f32_rows locations
      in \<lparr>in_valid = True, in_config = c, in_locations = locations, in_next_id = next_id,
          in_eta = eta, in_doc_next_id = doc_next_id,
          in_landmarks = select_landmarks locations (cfg_num_landmarks c),
          in_landmarks_at = length locations, in_id_lookup = build_id_lookup locations,
          in_address_matrix = concat (map loc_address locations),
          in_matrix32 = matrix32, in_max_norm = max_norm, in_version = 0\<rparr>)"

definition put_locations ::
  "('r, 'db) machine \<Rightarrow> precision \<Rightarrow> 'db dbs \<Rightarrow> u32 \<Rightarrow> HardLocation list \<Rightarrow> 'db dbs res" where
  "put_locations M p txn i ls = rfold (\<lambda>txn l. put_location (mc_storage M) p txn i l) txn ls"

definition put_u64 :: "('r, 'db) machine \<Rightarrow> 'db dbs \<Rightarrow> u32 \<Rightarrow> string \<Rightarrow> u64 \<Rightarrow> 'db dbs res" where
  "put_u64 M txn i key v =
     rbind (sg_ser_u64 (mc_storage M) v) (\<lambda>data. put_metadata (mc_storage M) txn i (ascii key) data)"

definition put_eta :: "('r, 'db) machine \<Rightarrow> 'db dbs \<Rightarrow> u32 \<Rightarrow> f64 \<Rightarrow> 'db dbs res" where
  "put_eta M txn i v =
     rbind (sg_ser_f64 (mc_storage M) v) (\<lambda>data. put_metadata (mc_storage M) txn i (ascii ''eta'') data)"

definition Collection_new ::
  "('r, 'db) machine \<Rightarrow> u32 \<Rightarrow> bytes \<Rightarrow> 'db store \<Rightarrow> EAMConfig \<Rightarrow> 'r \<Rightarrow> (Collection \<times> 'db store) res \<times> 'r" where
  "Collection_new M i name s c rng =
     (let (locations, rng) = foldl (\<lambda>(ls, rng) n.
            let (addr, rng) = random_unit_vector (mc_normal M) (cfg_d c) rng
            in (ls @ [HardLocation_new (of_nat n) addr], rng)) ([], rng) [0..<cfg_l_0 c];
          next_id = of_nat (cfg_l_0 c); eta = cfg_eta_0 c
      in (rbind (write_txn (mc_storage M) s) (\<lambda>txn.
          rbind (put_locations M (st_precision s) txn i locations) (\<lambda>txn.
          rbind (put_u64 M txn i ''next_id'' next_id) (\<lambda>txn.
          rbind (put_eta M txn i eta) (\<lambda>txn.
          rbind (put_u64 M txn i ''config_d'' (of_nat (cfg_d c))) (\<lambda>txn.
          rbind (commit (mc_storage M) s txn) (\<lambda>s.
          Ok (\<lparr>co_id = i, co_name = name, co_inner = inner_of c locations next_id eta 0,
               co_poisoned = False\<rparr>, s))))))), rng))"

definition load_value ::
  "('r, 'db) machine \<Rightarrow> (bytes \<Rightarrow> 'v res) \<Rightarrow> 'db store \<Rightarrow> u32 \<Rightarrow> string \<Rightarrow> 'v \<Rightarrow> 'v res" where
  "load_value M de s i key dflt =
     rbind (load_metadata (mc_storage M) s i (ascii key)) (\<lambda>r. case r of
       Some data \<Rightarrow> de data
     | None \<Rightarrow> Ok dflt)"

definition Collection_load ::
  "('r, 'db) machine \<Rightarrow> u32 \<Rightarrow> bytes \<Rightarrow> 'db store \<Rightarrow> EAMConfig \<Rightarrow> (Collection \<times> 'db store) res" where
  "Collection_load M i name s c =
     (let K = mc_storage M in
      rbind (load_all_locations K s i) (\<lambda>(locations, s).
      rbind (load_value M (sg_de_u64 K) s i ''next_id'' (of_nat (length locations))) (\<lambda>next_id.
      rbind (load_value M (sg_de_f64 K) s i ''eta'' (cfg_eta_0 c)) (\<lambda>eta.
      rbind (load_value M (sg_de_u64 K) s i ''doc_next_id'' 0) (\<lambda>doc_next_id.
      rbind (case locations of
               first # _ \<Rightarrow> ensure (length (loc_address first) = cfg_d c)
                             (DimensionMismatch (cfg_d c) (length (loc_address first)))
             | [] \<Rightarrow> Ok ()) (\<lambda>_.
      Ok (\<lparr>co_id = i, co_name = name, co_inner = inner_of c locations next_id eta doc_next_id,
           co_poisoned = False\<rparr>, s)))))))"

section \<open>The lock\<close>

definition recovery_failed :: herror where
  "recovery_failed = Storage (msg ''collection recovery failed; restart after repairing storage'')"

definition read_inner :: "Collection \<Rightarrow> EAMInner res" where
  "read_inner c =
     rbind (ensure (\<not> co_poisoned c) LockPoisoned) (\<lambda>_.
     rbind (ensure (in_valid (co_inner c)) recovery_failed) (\<lambda>_. Ok (co_inner c)))"

definition write_inner :: "Collection \<Rightarrow> EAMInner res" where
  "write_inner c = read_inner c"

text \<open>
  How the body of a mutation ends: an error before the first mutable access (\<open>Clean\<close>),
  one after it with the memory as it then is (\<open>Dirty\<close>), or its result with the new
  memory. The body also returns the store: what it committed stays committed.
\<close>

datatype 'a ending = Clean fault | Dirty fault EAMInner | Done 'a EAMInner

definition recover :: "('r, 'db) machine \<Rightarrow> Collection \<Rightarrow> EAMInner \<Rightarrow> 'db store \<Rightarrow> EAMInner \<times> 'db store" where
  "recover M c inner s =
     (case Collection_load M (co_id c) (co_name c) s (in_config inner) of
        Inr (restored, s') \<Rightarrow> ((co_inner restored)\<lparr>in_version := in_version inner\<rparr>, s')
      | Inl _ \<Rightarrow> (inner\<lparr>in_valid := False\<rparr>, s))"

text \<open>An operation works on the collection, the store and the state of the random generator.\<close>

type_synonym ('r, 'db) world = "Collection \<times> 'db store \<times> 'r"

definition atomic_mutation ::
  "('r, 'db) machine \<Rightarrow> (u32 \<Rightarrow> EAMInner \<Rightarrow> 'db store \<Rightarrow> 'r \<Rightarrow> 'a ending \<times> 'db store \<times> 'r) \<Rightarrow>
   ('r, 'db) world \<Rightarrow> 'a res \<times> ('r, 'db) world" where
  "atomic_mutation M body w =
     (let (c, s, rng) = w in
      case write_inner c of
        Inl e \<Rightarrow> (Inl e, w)
      | Inr inner \<Rightarrow>
         (case body (co_id c) inner s rng of
            (Clean e, s', rng') \<Rightarrow> (Inl e, c\<lparr>co_poisoned := (e = Panic)\<rparr>, s', rng')
          | (Done v inner', s', rng') \<Rightarrow> (Ok v, c\<lparr>co_inner := inner'\<rparr>, s', rng')
          | (Dirty e inner', s', rng') \<Rightarrow>
              let (inner', s') = recover M c inner' s'
              in (Inl e, c\<lparr>co_inner := inner', co_poisoned := (e = Panic)\<rparr>, s', rng')))"

end
