(* ===== verification/Collection_Write.thy ===== *)
theory Collection_Write
  imports Collection
begin

text \<open>
  heather_db/src/collection.rs, the writes: one pattern, an address with its own counter, a
  batch of patterns, a pattern with its document, a batch of documents. Each runs the
  adaptive write on the memory, persists the locations it touched with the counters in one
  transaction, and then brings the caches up to date. A hash set of indices is the list of
  its elements in the order they came (their records have different keys, so the order of
  the puts does not show); ordered sets and maps are sorted lists.
\<close>

section \<open>Steps shared by the writes\<close>

definition apply_write ::
  "('r, 'db) machine \<Rightarrow> f64 list \<Rightarrow> f64 list \<Rightarrow> WriteOpts \<Rightarrow> EAMInner \<Rightarrow> 'r \<Rightarrow>
   WriteResult \<times> EAMInner \<times> 'r" where
  "apply_write M address counter opts inner rng =
     (let (r, locations, next_id, rng) =
            adaptive_write_two (mc_libm M) (mc_normal M) address counter (in_locations inner)
              (in_config inner) (in_eta inner) (in_next_id inner) rng
              (write_scan (in_matrix32 inner) (in_max_norm inner)) opts
      in (r, inner\<lparr>in_locations := locations, in_next_id := next_id, in_eta := wr_eta r\<rparr>, rng))"

definition extend_locations :: "HardLocation list \<Rightarrow> EAMInner \<Rightarrow> EAMInner" where
  "extend_locations new_locs inner =
     (if new_locs = [] then inner
      else let start = length (in_locations inner)
           in append_addresses start (extend_id_lookup start
                (inner\<lparr>in_locations := in_locations inner @ new_locs\<rparr>)))"

definition put_counters :: "('r, 'db) machine \<Rightarrow> 'db dbs \<Rightarrow> u32 \<Rightarrow> EAMInner \<Rightarrow> 'db dbs res" where
  "put_counters M txn i inner =
     rbind (put_u64 M txn i ''next_id'' (in_next_id inner)) (\<lambda>txn. put_eta M txn i (in_eta inner))"

definition locations_at :: "EAMInner \<Rightarrow> nat list \<Rightarrow> HardLocation list" where
  "locations_at inner indices = map (\<lambda>i. in_locations inner ! i) indices"

definition bump :: "EAMInner \<Rightarrow> EAMInner" where
  "bump inner = inner\<lparr>in_version := in_version inner + 1\<rparr>"

definition check_dim :: "EAMInner \<Rightarrow> f64 list \<Rightarrow> unit res" where
  "check_dim inner v =
     ensure (length v = cfg_d (in_config inner)) (DimensionMismatch (cfg_d (in_config inner)) (length v))"

section \<open>Writing a pattern\<close>

definition persist_write ::
  "('r, 'db) machine \<Rightarrow> u32 \<Rightarrow> EAMInner \<Rightarrow> WriteResult \<Rightarrow> 'db store \<Rightarrow> 'db store res" where
  "persist_write M i inner r s =
     rbind (write_txn (mc_storage M) s) (\<lambda>txn.
     rbind (put_locations M (st_precision s) txn i (locations_at inner (wr_modified_indices r))) (\<lambda>txn.
     rbind (put_locations M (st_precision s) txn i (wr_new_locations r)) (\<lambda>txn.
     rbind (put_counters M txn i inner) (\<lambda>txn.
     commit (mc_storage M) s txn))))"

definition write_body ::
  "('r, 'db) machine \<Rightarrow> f64 list \<Rightarrow> f64 list \<Rightarrow> WriteOpts \<Rightarrow>
   u32 \<Rightarrow> EAMInner \<Rightarrow> 'db store \<Rightarrow> 'r \<Rightarrow> unit ending \<times> 'db store \<times> 'r" where
  "write_body M address counter opts i inner s rng =
     (case rbind (check_dim inner address) (\<lambda>_. check_dim inner counter) of
        Inl e \<Rightarrow> (Clean e, s, rng)
      | Inr _ \<Rightarrow>
         let (r, inner, rng) = apply_write M address counter opts (bump inner) rng in
         (case persist_write M i inner r s of
            Inl e \<Rightarrow> (Dirty e inner, s, rng)
          | Inr s \<Rightarrow>
             (case sync_addresses (wr_modified_indices r) inner of
                Inl e \<Rightarrow> (Dirty e inner, s, rng)
              | Inr inner \<Rightarrow> (Done () (extend_locations (wr_new_locations r) inner), s, rng))))"

definition Collection_write ::
  "('r, 'db) machine \<Rightarrow> f64 list \<Rightarrow> ('r, 'db) world \<Rightarrow> unit res \<times> ('r, 'db) world" where
  "Collection_write M input w =
     (case validate_vector input of
        Inl e \<Rightarrow> (Inl e, w)
      | Inr _ \<Rightarrow> atomic_mutation M (write_body M input input WriteOpts_default) w)"

definition Collection_write_two ::
  "('r, 'db) machine \<Rightarrow> f64 list \<Rightarrow> f64 list \<Rightarrow> WriteOpts \<Rightarrow> ('r, 'db) world \<Rightarrow>
   unit res \<times> ('r, 'db) world" where
  "Collection_write_two M address counter opts w =
     (case rbind (validate_vector address) (\<lambda>_. validate_vector counter) of
        Inl e \<Rightarrow> (Inl e, w)
      | Inr _ \<Rightarrow> atomic_mutation M (write_body M address counter opts) w)"

section \<open>Writing a batch\<close>

record 'r batch =
  ba_inner :: EAMInner
  ba_modified :: "nat list"
  ba_new_locs :: "HardLocation list"
  ba_rng :: 'r

definition insert_index :: "nat list \<Rightarrow> nat \<Rightarrow> nat list" where
  "insert_index xs i = (if i \<in> set xs then xs else xs @ [i])"

text \<open>On an error the memory is returned as it then is.\<close>

fun batch_writes ::
  "('r, 'db) machine \<Rightarrow> f64 list list \<Rightarrow> 'r batch \<Rightarrow> fault option \<times> 'r batch" where
  "batch_writes M [] b = (None, b)"
| "batch_writes M (input # inputs) b =
     (let (r, inner, rng) = apply_write M input input WriteOpts_default (ba_inner b) (ba_rng b) in
      case sync_addresses (wr_modified_indices r) inner of
        Inl e \<Rightarrow> (Some e, b\<lparr>ba_inner := inner, ba_rng := rng\<rparr>)
      | Inr inner \<Rightarrow> batch_writes M inputs
          \<lparr>ba_inner = extend_locations (wr_new_locations r) inner,
           ba_modified = foldl insert_index (ba_modified b) (wr_modified_indices r),
           ba_new_locs = ba_new_locs b @ wr_new_locations r, ba_rng = rng\<rparr>)"

definition persist_batch ::
  "('r, 'db) machine \<Rightarrow> u32 \<Rightarrow> 'r batch \<Rightarrow> 'db store \<Rightarrow> 'db store res" where
  "persist_batch M i b s =
     rbind (write_txn (mc_storage M) s) (\<lambda>txn.
     rbind (put_locations M (st_precision s) txn i (locations_at (ba_inner b)
             (filter (\<lambda>j. j < length (in_locations (ba_inner b))) (ba_modified b)))) (\<lambda>txn.
     rbind (put_locations M (st_precision s) txn i (ba_new_locs b)) (\<lambda>txn.
     rbind (put_counters M txn i (ba_inner b)) (\<lambda>txn.
     commit (mc_storage M) s txn))))"

definition check_dims :: "EAMInner \<Rightarrow> f64 list list \<Rightarrow> unit res" where
  "check_dims inner vs = rfold (\<lambda>_ v. check_dim inner v) () vs"

definition write_batch_body ::
  "('r, 'db) machine \<Rightarrow> f64 list list \<Rightarrow>
   u32 \<Rightarrow> EAMInner \<Rightarrow> 'db store \<Rightarrow> 'r \<Rightarrow> unit ending \<times> 'db store \<times> 'r" where
  "write_batch_body M inputs i inner s rng =
     (case check_dims inner inputs of
        Inl e \<Rightarrow> (Clean e, s, rng)
      | Inr _ \<Rightarrow>
         let (failed, b) = batch_writes M inputs
               \<lparr>ba_inner = bump inner, ba_modified = [], ba_new_locs = [], ba_rng = rng\<rparr> in
         (case failed of
            Some e \<Rightarrow> (Dirty e (ba_inner b), s, ba_rng b)
          | None \<Rightarrow>
             (case persist_batch M i b s of
                Inl e \<Rightarrow> (Dirty e (ba_inner b), s, ba_rng b)
              | Inr s \<Rightarrow> (Done () (ba_inner b), s, ba_rng b))))"

definition validate_all :: "f64 list list \<Rightarrow> unit res" where
  "validate_all vs = rfold (\<lambda>_ v. validate_vector v) () vs"

definition Collection_write_batch ::
  "('r, 'db) machine \<Rightarrow> f64 list list \<Rightarrow> ('r, 'db) world \<Rightarrow> unit res \<times> ('r, 'db) world" where
  "Collection_write_batch M inputs w =
     (case validate_all inputs of
        Inl e \<Rightarrow> (Inl e, w)
      | Inr _ \<Rightarrow> atomic_mutation M (write_batch_body M inputs) w)"

section \<open>Writing a document\<close>

definition plain_location :: "EAMConfig \<Rightarrow> nat list \<Rightarrow> HardLocation list \<Rightarrow> f64 list \<Rightarrow> u64 option" where
  "plain_location c modified created input =
     (case created of
        [l] \<Rightarrow> if \<not> cfg_competitive c \<and> modified = [] \<and> vec_feq (loc_address l) input
               then Some (loc_id l) else None
      | _ \<Rightarrow> None)"

definition document_data ::
  "('r, 'db) machine \<Rightarrow> 'db store \<Rightarrow> EAMInner \<Rightarrow> WriteResult \<Rightarrow> f64 list \<Rightarrow> bytes \<Rightarrow> bytes res" where
  "document_data M s inner r input metadata =
     (case plain_location (in_config inner) (wr_modified_indices r) (wr_new_locations r) input of
        Some i \<Rightarrow> encode_document_ref (sg_codec (mc_storage M)) i metadata (st_precision s)
      | None \<Rightarrow> encode_document (sg_codec (mc_storage M)) input metadata (st_precision s))"

definition put_doc_counters :: "('r, 'db) machine \<Rightarrow> 'db dbs \<Rightarrow> u32 \<Rightarrow> EAMInner \<Rightarrow> 'db dbs res" where
  "put_doc_counters M txn i inner =
     rbind (put_counters M txn i inner) (\<lambda>txn.
     put_u64 M txn i ''doc_next_id'' (in_doc_next_id inner))"

text \<open>The ids of the locations a write joined and created, in that order.\<close>

definition activated_ids :: "EAMInner \<Rightarrow> WriteResult \<Rightarrow> u64 list" where
  "activated_ids inner r =
     map loc_id (locations_at inner (wr_modified_indices r)) @ map loc_id (wr_new_locations r)"

definition persist_document ::
  "('r, 'db) machine \<Rightarrow> u32 \<Rightarrow> EAMInner \<Rightarrow> WriteResult \<Rightarrow> u64 \<Rightarrow> f64 list \<Rightarrow> bytes \<Rightarrow>
   'db store \<Rightarrow> 'db store res" where
  "persist_document M i inner r doc_id input metadata s =
     (let K = mc_storage M in
      rbind (write_txn K s) (\<lambda>txn.
      rbind (put_locations M (st_precision s) txn i (locations_at inner (wr_modified_indices r))) (\<lambda>txn.
      rbind (put_locations M (st_precision s) txn i (wr_new_locations r)) (\<lambda>txn.
      rbind (document_data M s inner r input metadata) (\<lambda>doc_data.
      rbind (put_document K txn i doc_id doc_data) (\<lambda>txn.
      rbind (rfold (\<lambda>txn loc. append_doc_to_location K txn i loc doc_id) txn (activated_ids inner r)) (\<lambda>txn.
      rbind (put_doc_counters M txn i inner) (\<lambda>txn.
      commit K s txn))))))))"

definition document_body ::
  "('r, 'db) machine \<Rightarrow> f64 list \<Rightarrow> bytes \<Rightarrow>
   u32 \<Rightarrow> EAMInner \<Rightarrow> 'db store \<Rightarrow> 'r \<Rightarrow> u64 ending \<times> 'db store \<times> 'r" where
  "document_body M input metadata i inner s rng =
     (case check_dim inner input of
        Inl e \<Rightarrow> (Clean e, s, rng)
      | Inr _ \<Rightarrow>
         let (r, inner, rng) = apply_write M input input WriteOpts_default (bump inner) rng;
             doc_id = in_doc_next_id inner;
             inner = inner\<lparr>in_doc_next_id := doc_id + 1\<rparr> in
         (case persist_document M i inner r doc_id input metadata s of
            Inl e \<Rightarrow> (Dirty e inner, s, rng)
          | Inr s \<Rightarrow>
             (case sync_addresses (wr_modified_indices r) inner of
                Inl e \<Rightarrow> (Dirty e inner, s, rng)
              | Inr inner \<Rightarrow> (Done doc_id (extend_locations (wr_new_locations r) inner), s, rng))))"

definition write_with_metadata ::
  "('r, 'db) machine \<Rightarrow> f64 list \<Rightarrow> bytes \<Rightarrow> ('r, 'db) world \<Rightarrow> u64 res \<times> ('r, 'db) world" where
  "write_with_metadata M input metadata w =
     (case validate_vector input of
        Inl e \<Rightarrow> (Inl e, w)
      | Inr _ \<Rightarrow> atomic_mutation M (document_body M input metadata) w)"

section \<open>Writing a batch of documents\<close>

record 'r doc_batch =
  bd_inner :: EAMInner
  bd_touched :: "nat list"
  bd_postings :: "(u64 \<times> u64) list"   \<comment> \<open>location and document, in the order pushed\<close>
  bd_docs :: "(u64 \<times> bytes) list"
  bd_rng :: 'r

fun doc_batch_writes ::
  "('r, 'db) machine \<Rightarrow> 'db store \<Rightarrow> (f64 list \<times> bytes) list \<Rightarrow> 'r doc_batch \<Rightarrow>
   fault option \<times> 'r doc_batch" where
  "doc_batch_writes M s [] b = (None, b)"
| "doc_batch_writes M s ((input, metadata) # items) b =
     (let (r, inner, rng) = apply_write M input input WriteOpts_default (bd_inner b) (bd_rng b);
          doc_id = in_doc_next_id inner;
          inner = inner\<lparr>in_doc_next_id := doc_id + 1\<rparr> in
      case sync_addresses (wr_modified_indices r) inner of
        Inl e \<Rightarrow> (Some e, b\<lparr>bd_inner := inner, bd_rng := rng\<rparr>)
      | Inr synced \<Rightarrow>
         let start = length (in_locations synced);
             grown = extend_locations (wr_new_locations r) synced;
             b = \<lparr>bd_inner = grown,
                  bd_touched = bd_touched b @ wr_modified_indices r @
                    (if wr_new_locations r = [] then [] else [start..<length (in_locations grown)]),
                  bd_postings = bd_postings b @ map (\<lambda>l. (l, doc_id)) (activated_ids inner r),
                  bd_docs = bd_docs b, bd_rng = rng\<rparr> in
         case document_data M s grown r input metadata of
           Inl e \<Rightarrow> (Some e, b)
         | Inr data \<Rightarrow> doc_batch_writes M s items (b\<lparr>bd_docs := bd_docs b @ [(doc_id, data)]\<rparr>))"

definition sorted_set :: "'a::linorder list \<Rightarrow> 'a list" where
  "sorted_set xs = sort (remdups xs)"

definition group_postings :: "(u64 \<times> u64) list \<Rightarrow> (u64 \<times> u64 list) list" where
  "group_postings ps =
     map (\<lambda>l. (l, map snd (filter (\<lambda>p. fst p = l) ps))) (sorted_set (map fst ps))"

definition persist_documents ::
  "('r, 'db) machine \<Rightarrow> u32 \<Rightarrow> 'r doc_batch \<Rightarrow> 'db store \<Rightarrow> 'db store res" where
  "persist_documents M i b s =
     (let K = mc_storage M in
      rbind (write_txn K s) (\<lambda>txn.
      rbind (put_locations M (st_precision s) txn i
              (locations_at (bd_inner b) (sorted_set (bd_touched b)))) (\<lambda>txn.
      rbind (rfold (\<lambda>txn (doc_id, data). put_document K txn i doc_id data) txn (bd_docs b)) (\<lambda>txn.
      rbind (rfold (\<lambda>txn (l, ds). append_docs_to_location K txn i l ds) txn
              (group_postings (bd_postings b))) (\<lambda>txn.
      rbind (put_doc_counters M txn i (bd_inner b)) (\<lambda>txn.
      commit K s txn))))))"

definition document_batch_body ::
  "('r, 'db) machine \<Rightarrow> (f64 list \<times> bytes) list \<Rightarrow>
   u32 \<Rightarrow> EAMInner \<Rightarrow> 'db store \<Rightarrow> 'r \<Rightarrow> u64 list ending \<times> 'db store \<times> 'r" where
  "document_batch_body M items i inner s rng =
     (case check_dims inner (map fst items) of
        Inl e \<Rightarrow> (Clean e, s, rng)
      | Inr _ \<Rightarrow>
         if items = [] then (Done [] inner, s, rng)
         else let (failed, b) = doc_batch_writes M s items
               \<lparr>bd_inner = bump inner, bd_touched = [], bd_postings = [], bd_docs = [], bd_rng = rng\<rparr> in
         (case failed of
            Some e \<Rightarrow> (Dirty e (bd_inner b), s, bd_rng b)
          | None \<Rightarrow>
             (case persist_documents M i b s of
                Inl e \<Rightarrow> (Dirty e (bd_inner b), s, bd_rng b)
              | Inr s \<Rightarrow> (Done (map fst (bd_docs b)) (bd_inner b), s, bd_rng b))))"

definition write_batch_with_metadata ::
  "('r, 'db) machine \<Rightarrow> (f64 list \<times> bytes) list \<Rightarrow> ('r, 'db) world \<Rightarrow>
   u64 list res \<times> ('r, 'db) world" where
  "write_batch_with_metadata M items w =
     (case validate_all (map fst items) of
        Inl e \<Rightarrow> (Inl e, w)
      | Inr _ \<Rightarrow> atomic_mutation M (document_batch_body M items) w)"

end
