(* ===== verification/Collection_Read.thy ===== *)
theory Collection_Read
  imports Collection_Write
begin

text \<open>
  heather_db/src/collection.rs, the reads of a collection: Hopfield reads and their trace,
  attention reads (plain, leave-one-out, with barred locations, batched, self-calibrating),
  the selection of the temperature, statistics, summaries, the fingerprint and snapshots.
  A read holds the read lock and changes nothing, so it maps the collection to its result.
\<close>

section \<open>Temperature by description length\<close>

text \<open>The exponents of the other keys' kernels at key \<open>j\<close>.\<close>

definition kernel_logits :: "f64 list list \<Rightarrow> f64 \<Rightarrow> nat \<Rightarrow> f64 list" where
  "kernel_logits keys beta j =
     map (\<lambda>i. beta * (dot (keys ! i) (keys ! j) - 1)) (filter (\<lambda>i. i \<noteq> j) [0..<length keys])"

definition neg_dl :: "libm \<Rightarrow> f64 list list \<Rightarrow> nat \<Rightarrow> f64 \<Rightarrow> f64" where
  "neg_dl L keys d beta =
     (let half_d_ln_beta = f64_of_nat d / f64_dec 2 0 * lm_ln L beta
      in foldl (\<lambda>total j.
           let ls = kernel_logits keys beta j;
               max_l = foldl (\<lambda>m l. if m < l then l else m) f64_neg_infinity ls;
               sum = foldl (\<lambda>s l. s + lm_exp L (l - max_l)) 0 ls
           in total + (max_l + lm_ln L sum + half_d_ln_beta)) 0 [0..<length keys])"

definition beta_grid :: "libm \<Rightarrow> f64 list" where
  "beta_grid L =
     (let ln_lo = lm_ln L (f64_dec 1 1); ln_hi = lm_ln L (f64_dec 500 0); steps = f64_of_nat 60
      in map (\<lambda>s. lm_exp L (ln_lo + (ln_hi - ln_lo) * f64_of_nat s / steps)) [0..<61])"

definition select_beta_mdl :: "libm \<Rightarrow> f64 list list \<Rightarrow> nat \<Rightarrow> f64 \<Rightarrow> f64" where
  "select_beta_mdl L keys d default_beta =
     (if length keys < 2 then default_beta
      else fst (foldl (\<lambda>(best_beta, best_score) beta.
             let score = neg_dl L keys d beta
             in if is_finite score \<and> best_score < score then (beta, score) else (best_beta, best_score))
             (default_beta, f64_neg_infinity) (beta_grid L)))"

section \<open>Reads\<close>

datatype ReadStrategy = HopfieldIter | HopfieldSS

definition inner_activate :: "EAMInner \<Rightarrow> f64 list \<Rightarrow> nat \<Rightarrow> nat list \<times> f64 list" where
  "inner_activate inner query k =
     activate_auto_full query (in_locations inner) k (in_address_matrix inner) (cfg_d (in_config inner))"

definition check_query :: "EAMInner \<Rightarrow> f64 list \<Rightarrow> unit res" where
  "check_query inner query =
     rbind (check_dim inner query) (\<lambda>_. ensure (in_locations inner \<noteq> []) EmptyMemory)"

definition query_inner :: "Collection \<Rightarrow> f64 list \<Rightarrow> EAMInner res" where
  "query_inner c query =
     rbind (validate_vector query) (\<lambda>_.
     rbind (read_inner c) (\<lambda>inner.
     rbind (check_query inner query) (\<lambda>_. Ok inner)))"

definition Collection_read ::
  "libm \<Rightarrow> Collection \<Rightarrow> f64 list \<Rightarrow> ReadStrategy \<Rightarrow> f64 list res" where
  "Collection_read L c query strategy =
     rbind (query_inner c query) (\<lambda>inner.
     let ls = in_locations inner; cfg = in_config inner; k = min (cfg_k cfg) (length ls);
         (indices, _) = inner_activate inner query k
     in case strategy of
          HopfieldIter \<Rightarrow> hopfield_iter_from L query ls cfg indices
        | HopfieldSS \<Rightarrow>
            let sims = map (\<lambda>i. cosine_similarity query (loc_address (ls ! i))) indices;
                alpha = softmax L sims (cfg_beta cfg);
                patterns = map (\<lambda>i. normalized_pattern (ls ! i)) indices
            in Ok (normalize (weighted_sum patterns alpha)))"

definition analyze_read ::
  "libm \<Rightarrow> Collection \<Rightarrow> f64 list \<Rightarrow> ReadStrategy \<Rightarrow> ReadTrace res" where
  "analyze_read L c query strategy =
     rbind (query_inner c query) (\<lambda>inner.
     let ls = in_locations inner; cfg = in_config inner; k = min (cfg_k cfg) (length ls);
         (indices, sims) = inner_activate inner query k
     in case strategy of
          HopfieldIter \<Rightarrow>
            let patterns = map (\<lambda>i. unit_pattern (ls ! i)) indices;
                addresses = map (\<lambda>i. loc_address (ls ! i)) indices;
                (iterations, converged, weights, xi) =
                  hopfield_traced_loop L cfg addresses patterns (cfg_t_max cfg) 0
                    (softmax L sims (cfg_beta cfg)) (normalize query)
            in Ok \<lparr>rt_iterations = iterations, rt_converged = converged,
                   rt_activated_locations = map2 (\<lambda>i w.
                     \<lparr>al_id = i, al_similarity = cosine_similarity xi (loc_address (ls ! i)), al_weight = w\<rparr>)
                     indices weights,
                   rt_result = xi\<rparr>
        | HopfieldSS \<Rightarrow>
            let alpha = softmax L sims (cfg_beta cfg);
                patterns = map (\<lambda>i. normalized_pattern (ls ! i)) indices
            in Ok \<lparr>rt_iterations = 1, rt_converged = True,
                   rt_activated_locations = map (\<lambda>(i, sim, w).
                     \<lparr>al_id = i, al_similarity = sim, al_weight = w\<rparr>) (zip indices (zip sims alpha)),
                   rt_result = normalize (weighted_sum patterns alpha)\<rparr>)"

section \<open>Attention\<close>

definition activate_locked :: "EAMInner \<Rightarrow> f64 list \<Rightarrow> nat option \<Rightarrow> nat list option \<Rightarrow> nat list" where
  "activate_locked inner query exclude allowed =
     (let ls = in_locations inner; cfg_k = cfg_k (in_config inner);
          want = cfg_k + (if exclude \<noteq> None then 1 else 0);
          k = min want (length ls);
          (indices, _) = (case allowed of
             Some allowed \<Rightarrow> activate_subset query ls allowed k
           | None \<Rightarrow> inner_activate inner query k)
      in case exclude of
           Some ex \<Rightarrow> take cfg_k (filter (\<lambda>i. i \<noteq> ex) indices)
         | None \<Rightarrow> indices)"

text \<open>Weights, value and contributors of an attention read over the activated locations.\<close>

definition attention_over :: "libm \<Rightarrow> HardLocation list \<Rightarrow> f64 list \<Rightarrow> f64 \<Rightarrow> nat list \<Rightarrow> AttentionTrace" where
  "attention_over L ls query scale indices =
     (let dots = map (\<lambda>i. dot query (loc_address (ls ! i))) indices;
          logits = map2 (\<lambda>i x. scale * x + lm_ln L (f64_max (loc_write_count (ls ! i)) 0)) indices dots;
          alpha = softmax L logits 1;
          values = map (\<lambda>i. normalized_pattern (ls ! i)) indices
      in \<lparr>at_result = weighted_sum values alpha,
          at_contributors = sort_by (\<lambda>a b. total_key (al_weight b) < total_key (al_weight a))
            (map (\<lambda>(i, x, w). \<lparr>al_id = i, al_similarity = x, al_weight = w\<rparr>)
              (zip indices (zip dots alpha)))\<rparr>)"

definition attention_locked ::
  "libm \<Rightarrow> EAMInner \<Rightarrow> f64 list \<Rightarrow> f64 \<Rightarrow> nat option \<Rightarrow> nat list option \<Rightarrow> AttentionTrace" where
  "attention_locked L inner query scale exclude allowed =
     attention_over L (in_locations inner) query scale (activate_locked inner query exclude allowed)"

definition read_attention_traced ::
  "libm \<Rightarrow> Collection \<Rightarrow> f64 list \<Rightarrow> f64 \<Rightarrow> nat option \<Rightarrow> AttentionTrace res" where
  "read_attention_traced L c query scale exclude =
     rbind (query_inner c query) (\<lambda>inner. Ok (attention_locked L inner query scale exclude None))"

definition read_attention_ex ::
  "libm \<Rightarrow> Collection \<Rightarrow> f64 list \<Rightarrow> f64 \<Rightarrow> nat option \<Rightarrow> f64 list res" where
  "read_attention_ex L c query scale exclude =
     rbind (read_attention_traced L c query scale exclude) (\<lambda>t. Ok (at_result t))"

definition read_attention :: "libm \<Rightarrow> Collection \<Rightarrow> f64 list \<Rightarrow> f64 \<Rightarrow> f64 list res" where
  "read_attention L c query scale = read_attention_ex L c query scale None"

definition read_attention_excluding ::
  "libm \<Rightarrow> Collection \<Rightarrow> f64 list \<Rightarrow> f64 \<Rightarrow> nat list \<Rightarrow> AttentionTrace res" where
  "read_attention_excluding L c query scale barred =
     rbind (query_inner c query) (\<lambda>inner.
     let allowed = filter (\<lambda>i. i \<notin> set barred) [0..<length (in_locations inner)]
     in if allowed = [] then Err EmptyMemory
        else Ok (attention_locked L inner query scale None (Some allowed)))"

text \<open>A batch fails when some query does; which of several errors it reports is left to rayon.\<close>

definition read_attention_batch ::
  "libm \<Rightarrow> Collection \<Rightarrow> f64 list list \<Rightarrow> f64 \<Rightarrow> nat option list option \<Rightarrow> f64 list list res" where
  "read_attention_batch L c queries scale excludes =
     (if queries = [] then Ok []
      else rbind (case excludes of
              Some ex \<Rightarrow> ensure (length ex = length queries)
                (InvalidInput (Fmt ''excludes length {} does not match queries length {}''
                  [N (int (length ex)), N (int (length queries))]))
            | None \<Rightarrow> Ok ()) (\<lambda>_.
      rbind (read_inner c) (\<lambda>inner.
      rmap (\<lambda>(qi, query).
        rbind (validate_vector query) (\<lambda>_.
        rbind (check_query inner query) (\<lambda>_.
        let exclude = (case excludes of Some ex \<Rightarrow> ex ! qi | None \<Rightarrow> None)
        in Ok (at_result (attention_locked L inner query scale exclude None)))))
        (zip [0..<length queries] queries))))"

definition top_location_locked :: "EAMInner \<Rightarrow> f64 list \<Rightarrow> nat res" where
  "top_location_locked inner query =
     (case activate_locked inner query None None of
        i # _ \<Rightarrow> Ok i
      | [] \<Rightarrow> Err EmptyMemory)"

definition top_location :: "Collection \<Rightarrow> f64 list \<Rightarrow> nat res" where
  "top_location c query = rbind (query_inner c query) (\<lambda>inner. top_location_locked inner query)"

definition top_locations_batch :: "Collection \<Rightarrow> f64 list list \<Rightarrow> nat list res" where
  "top_locations_batch c queries =
     (if queries = [] then Ok []
      else rbind (read_inner c) (\<lambda>inner.
      rmap (\<lambda>query.
        rbind (validate_vector query) (\<lambda>_.
        rbind (check_query inner query) (\<lambda>_.
        top_location_locked inner query))) queries))"

definition read_attention_loo_batch ::
  "libm \<Rightarrow> Collection \<Rightarrow> f64 list list \<Rightarrow> f64 \<Rightarrow> f64 list list res" where
  "read_attention_loo_batch L c queries scale =
     (if queries = [] then Ok []
      else rbind (read_inner c) (\<lambda>inner.
      rmap (\<lambda>query.
        rbind (validate_vector query) (\<lambda>_.
        rbind (check_query inner query) (\<lambda>_.
        rbind (top_location_locked inner query) (\<lambda>own.
        Ok (at_result (attention_locked L inner query scale (Some own) None)))))) queries))"

definition read_attention_mdl_traced ::
  "libm \<Rightarrow> Collection \<Rightarrow> f64 list \<Rightarrow> (AttentionTrace \<times> f64) res" where
  "read_attention_mdl_traced L c query =
     rbind (query_inner c query) (\<lambda>inner.
     let ls = in_locations inner; cfg = in_config inner; k = min (cfg_k cfg) (length ls);
         (indices, _) = inner_activate inner query k;
         keys = map (\<lambda>i. normalize (loc_address (ls ! i))) indices;
         beta = select_beta_mdl L keys (cfg_d cfg) (cfg_beta cfg)
     in Ok (attention_over L ls query beta indices, beta))"

definition read_attention_mdl :: "libm \<Rightarrow> Collection \<Rightarrow> f64 list \<Rightarrow> (f64 list \<times> f64) res" where
  "read_attention_mdl L c query =
     rbind (read_attention_mdl_traced L c query) (\<lambda>(t, beta). Ok (at_result t, beta))"

section \<open>Calibration\<close>

definition key_neighbours :: "HardLocation list \<Rightarrow> nat \<Rightarrow> nat \<Rightarrow> (nat \<times> f64) list" where
  "key_neighbours ls k j =
     take k (sort_by (\<lambda>a b. total_key (snd b) < total_key (snd a))
       (map (\<lambda>i. (i, dot (loc_address (ls ! j)) (loc_address (ls ! i))))
         (filter (\<lambda>i. i \<noteq> j) [0..<length ls])))"

definition value_dl :: "libm \<Rightarrow> f64 list list \<Rightarrow> (nat \<times> f64) list list \<Rightarrow> f64 \<Rightarrow> f64" where
  "value_dl L vals neighbours beta =
     foldl (\<lambda>dl (j, nb).
       let alpha = softmax L (map (\<lambda>(_, s). beta * s) nb) 1;
           recon = weighted_sum (map (\<lambda>(i, _). vals ! i) nb) alpha;
           p = f64_max (dot (vals ! j) recon) (f64_dec 1 12)
       in dl - lm_ln L p) 0 (zip [0..<length neighbours] neighbours)"

definition calibrate_beta :: "libm \<Rightarrow> Collection \<Rightarrow> f64 list \<Rightarrow> (f64 \<times> f64) res" where
  "calibrate_beta L c betas =
     rbind (read_inner c) (\<lambda>inner.
     let ls = in_locations inner; cfg = in_config inner; n = length ls in
     if n < 2 then Ok (cfg_beta cfg, 0)
     else let k = min (cfg_k cfg) (n - 1);
              vals = map normalized_pattern ls;
              neighbours = map (key_neighbours ls k) [0..<n];
              start = (case betas of b # _ \<Rightarrow> b | [] \<Rightarrow> cfg_beta cfg)
          in Ok (foldl (\<lambda>best beta. let dl = value_dl L vals neighbours beta
                                   in if dl < snd best then (beta, dl) else best)
                   (start, f64_infinity) betas))"

section \<open>Statistics\<close>

record EAMStats =
  es_num_locations :: nat
  es_total_writes :: f64
  es_current_eta :: f64
  es_avg_write_count :: f64
  es_max_write_count :: f64

definition Collection_stats :: "Collection \<Rightarrow> EAMStats res" where
  "Collection_stats c =
     rbind (read_inner c) (\<lambda>inner.
     let counts = map loc_write_count (in_locations inner); total = f64_sum counts
     in Ok \<lparr>es_num_locations = length (in_locations inner), es_total_writes = total,
            es_current_eta = in_eta inner,
            es_avg_write_count = (if in_locations inner = [] then 0
                                  else total / f64_of_nat (length (in_locations inner))),
            es_max_write_count = foldl f64_max 0 counts\<rparr>)"

definition Collection_config :: "Collection \<Rightarrow> EAMConfig res" where
  "Collection_config c =
     rbind (ensure (\<not> co_poisoned c) LockPoisoned) (\<lambda>_. Ok (in_config (co_inner c)))"

definition num_locations :: "Collection \<Rightarrow> nat res" where
  "num_locations c =
     rbind (ensure (\<not> co_poisoned c) LockPoisoned) (\<lambda>_. Ok (length (in_locations (co_inner c))))"

definition location_ids :: "Collection \<Rightarrow> u64 list res" where
  "location_ids c = rbind (read_inner c) (\<lambda>inner. Ok (map loc_id (in_locations inner)))"

record LocationSummary =
  ls_id :: nat
  ls_write_count :: f64
  ls_avg_counter_magnitude :: f64

definition locations_summary :: "Collection \<Rightarrow> LocationSummary list res" where
  "locations_summary c =
     rbind (read_inner c) (\<lambda>inner.
     Ok (map (\<lambda>(i, l).
           \<lparr>ls_id = i, ls_write_count = loc_write_count l,
            ls_avg_counter_magnitude =
              (if loc_counter l = [] then 0
               else f64_sum (map f64_abs (loc_counter l)) / f64_of_nat (length (loc_counter l)))\<rparr>)
         (zip [0..<length (in_locations inner)] (in_locations inner))))"

definition weighted_centroid :: "nat \<Rightarrow> HardLocation list \<Rightarrow> f64 list" where
  "weighted_centroid d ls =
     foldl (\<lambda>centroid l.
       if loc_write_count l < f64_dec 1 10 then centroid
       else add_scaled centroid (normalized_pattern l) (loc_write_count l)) (replicate d 0) ls"

definition fingerprint :: "libm \<Rightarrow> Collection \<Rightarrow> f64 list option res" where
  "fingerprint L c =
     rbind (read_inner c) (\<lambda>inner.
     let ls = in_locations inner in
     if f64_sum (map loc_write_count ls) < f64_dec 1 10 then Ok None
     else rbind (hopfield_iter L (normalize (weighted_centroid (cfg_d (in_config inner)) ls)) ls (in_config inner))
            (\<lambda>refined. Ok (Some refined)))"

definition snapshot_versioned :: "Collection \<Rightarrow> (HardLocation list \<times> EAMConfig \<times> u64) res" where
  "snapshot_versioned c =
     rbind (read_inner c) (\<lambda>inner. Ok (in_locations inner, in_config inner, in_version inner))"

definition Collection_snapshot :: "Collection \<Rightarrow> (HardLocation list \<times> EAMConfig) res" where
  "Collection_snapshot c = rbind (read_inner c) (\<lambda>inner. Ok (in_locations inner, in_config inner))"

definition Collection_version :: "Collection \<Rightarrow> u64 res" where
  "Collection_version c = rbind (read_inner c) (\<lambda>inner. Ok (in_version inner))"

definition description_length :: "libm \<Rightarrow> Collection \<Rightarrow> f64 \<Rightarrow> f64 res" where
  "description_length L c kappa =
     rbind (read_inner c) (\<lambda>inner.
     let l = f64_of_nat (max (length (in_locations inner)) 1);
         w = f64_max (f64_sum (map loc_write_count (in_locations inner))) 1
     in Ok (l * kappa + w * lm_log2 L l))"

end
