(* ===== verification/Collection_Docs.thy ===== *)
theory Collection_Docs
  imports Collection_Read
begin

text \<open>
  heather_db/src/collection.rs, the documents of a collection: fetching, listing and
  deleting them, resolving a document stored by reference to its location's address,
  turning such references into copies before locations change, and the document queries
  (by similarity, by one role, by several roles). A query gathers its candidates in a hash
  set; the order in which that set is walked is the parameter \<open>order\<close>.
\<close>

section \<open>Resolving a document\<close>

definition missing_location :: "u64 \<Rightarrow> herror" where
  "missing_location i =
     Corrupt (Fmt ''document refers to location {}, which does not exist'' [N (uint i)])"

definition resolve_document ::
  "('r, 'db) machine \<Rightarrow> precision \<Rightarrow> EAMInner \<Rightarrow> bytes \<Rightarrow> (f64 list \<times> bytes) res" where
  "resolve_document M p inner data =
     rbind (decode_document_parts (sg_codec (mc_storage M)) data p) (\<lambda>(v, metadata).
     case v of
       Inline vector \<Rightarrow> Ok (vector, metadata)
     | DocLocation i \<Rightarrow>
        (case location_address inner i of
           Some address \<Rightarrow> Ok (address, metadata)
         | None \<Rightarrow> Err (missing_location i)))"

definition Collection_get_document ::
  "('r, 'db) machine \<Rightarrow> Collection \<Rightarrow> 'db store \<Rightarrow> u64 \<Rightarrow> (f64 list \<times> bytes) option res" where
  "Collection_get_document M c s write_index =
     rbind (get_document (mc_storage M) s (co_id c) write_index) (\<lambda>r. case r of
       Some data \<Rightarrow>
         rbind (read_inner c) (\<lambda>inner.
         rbind (resolve_document M (st_precision s) inner data) (\<lambda>doc. Ok (Some doc)))
     | None \<Rightarrow> Ok None)"

text \<open>The copies to store for the documents that refer to a location.\<close>

definition materialized ::
  "('r, 'db) machine \<Rightarrow> precision \<Rightarrow> EAMInner \<Rightarrow> u64 \<Rightarrow> (u64 \<times> bytes) list \<Rightarrow>
   ((u64 \<times> bytes) list \<times> u64) res" where
  "materialized M p inner skipped docs =
     rfold (\<lambda>(rewritten, skipped) (doc_id, data).
       case decode_document_parts (sg_codec (mc_storage M)) data p of
         Inr (DocLocation _, _) \<Rightarrow>
           rbind (tolerate (resolve_document M p inner data) skipped) (\<lambda>(r, skipped). case r of
             Some (vector, metadata) \<Rightarrow>
               rbind (encode_document (sg_codec (mc_storage M)) vector metadata p) (\<lambda>copy.
               Ok (rewritten @ [(doc_id, copy)], skipped))
           | None \<Rightarrow> Ok (rewritten, skipped))
       | Inl Panic \<Rightarrow> Inl Panic
       | _ \<Rightarrow> Ok (rewritten, skipped)) ([], skipped) docs"

definition put_documents ::
  "('r, 'db) machine \<Rightarrow> 'db dbs \<Rightarrow> u32 \<Rightarrow> (u64 \<times> bytes) list \<Rightarrow> 'db dbs res" where
  "put_documents M txn i docs =
     rfold (\<lambda>txn (doc_id, data). put_document (mc_storage M) txn i doc_id data) txn docs"

definition materialize_document_refs ::
  "('r, 'db) machine \<Rightarrow> u32 \<Rightarrow> EAMInner \<Rightarrow> 'db store \<Rightarrow> (nat \<times> 'db store) res" where
  "materialize_document_refs M i inner s =
     (let K = mc_storage M in
      rbind (list_documents K s i) (\<lambda>docs.
      rbind (materialized M (st_precision s) inner (st_skipped s) docs) (\<lambda>(rewritten, skipped).
      let s = s\<lparr>st_skipped := skipped\<rparr> in
      if rewritten = [] then Ok (0, s)
      else rbind (write_txn K s) (\<lambda>txn.
           rbind (put_documents M txn i rewritten) (\<lambda>txn.
           rbind (commit K s txn) (\<lambda>s. Ok (length rewritten, s)))))))"

section \<open>Deleting and listing\<close>

text \<open>The write guard is held, so a panic poisons the lock; there is nothing to recover.\<close>

definition delete_document ::
  "('r, 'db) machine \<Rightarrow> u64 \<Rightarrow> Collection \<times> 'db store \<Rightarrow> bool res \<times> Collection \<times> 'db store" where
  "delete_document M write_index cs =
     (let (c, s) = cs; K = mc_storage M in
      case write_inner c of
        Inl e \<Rightarrow> (Inl e, c, s)
      | Inr _ \<Rightarrow>
         (case rbind (write_txn K s) (\<lambda>txn.
               rbind (delete_document_everywhere K txn (co_id c) write_index) (\<lambda>(existed, txn).
               rbind (commit K s txn) (\<lambda>s. Ok (existed, s)))) of
            Inl e \<Rightarrow> (Inl e, c\<lparr>co_poisoned := (e = Panic)\<rparr>, s)
          | Inr (existed, s') \<Rightarrow> (Ok existed, c, s')))"

definition decode_all ::
  "('r, 'db) machine \<Rightarrow> Collection \<Rightarrow> 'db store \<Rightarrow> (u64 \<times> bytes) list \<Rightarrow>
   ((u64 \<times> f64 list \<times> bytes) list \<times> nat \<times> 'db store) res" where
  "decode_all M c s raw =
     rbind (read_inner c) (\<lambda>inner.
     rbind (rfold (\<lambda>(docs, skipped, count) (doc_id, data).
              rbind (tolerate (resolve_document M (st_precision s) inner data) count) (\<lambda>(r, count). case r of
                Some (v, meta) \<Rightarrow> Ok (docs @ [(doc_id, v, meta)], skipped, count)
              | None \<Rightarrow> Ok (docs, skipped + 1, count))) ([], 0, st_skipped s) raw) (\<lambda>(docs, skipped, count).
     Ok (docs, skipped, s\<lparr>st_skipped := count\<rparr>)))"

definition Collection_list_documents_page ::
  "('r, 'db) machine \<Rightarrow> Collection \<Rightarrow> 'db store \<Rightarrow> nat \<Rightarrow> nat \<Rightarrow>
   ((u64 \<times> f64 list \<times> bytes) list \<times> nat \<times> nat \<times> 'db store) res" where
  "Collection_list_documents_page M c s offset limit =
     rbind (list_documents_page (mc_storage M) s (co_id c) offset limit) (\<lambda>(raw, total).
     rbind (decode_all M c s raw) (\<lambda>(docs, skipped, s). Ok (docs, total, skipped, s)))"

definition Collection_list_documents ::
  "('r, 'db) machine \<Rightarrow> Collection \<Rightarrow> 'db store \<Rightarrow>
   ((u64 \<times> f64 list \<times> bytes) list \<times> 'db store) res" where
  "Collection_list_documents M c s =
     rbind (list_documents (mc_storage M) s (co_id c)) (\<lambda>raw.
     rbind (decode_all M c s raw) (\<lambda>(docs, _, s). Ok (docs, s)))"

definition doc_ids_for_location ::
  "('r, 'db) machine \<Rightarrow> Collection \<Rightarrow> 'db store \<Rightarrow> u64 \<Rightarrow> u64 list res" where
  "doc_ids_for_location M c s location_id =
     get_doc_ids_for_location (mc_storage M) s (co_id c) location_id"

section \<open>Querying by similarity\<close>

definition QUERY_CANDIDATE_FACTOR :: nat where
  "QUERY_CANDIDATE_FACTOR = 4"

definition query_width :: "EAMInner \<Rightarrow> nat \<Rightarrow> nat" where
  "query_width inner n =
     min (max (cfg_k (in_config inner) * QUERY_CANDIDATE_FACTOR mod 2 ^ 64) n)
       (length (in_locations inner))"

definition gather_candidates ::
  "('r, 'db) machine \<Rightarrow> 'db dbs \<Rightarrow> u32 \<Rightarrow> EAMInner \<Rightarrow> nat list \<Rightarrow> u64 list res" where
  "gather_candidates M txn i inner indices =
     rfold (\<lambda>ids idx.
       rbind (get_doc_ids_for_location_txn (mc_storage M) txn i (loc_id (in_locations inner ! idx))) (\<lambda>more.
       Ok (remdups (ids @ more)))) [] indices"

text \<open>Fetch and score the candidates; \<open>score\<close> may pass over a document.\<close>

definition score_candidates ::
  "('r, 'db) machine \<Rightarrow> 'db dbs \<Rightarrow> precision \<Rightarrow> u32 \<Rightarrow> EAMInner \<Rightarrow>
   (u64 \<Rightarrow> f64 list \<Rightarrow> bytes \<Rightarrow> 'hit option) \<Rightarrow> u64 \<Rightarrow> u64 list \<Rightarrow> ('hit list \<times> u64) res" where
  "score_candidates M txn p i inner score skipped ids =
     rfold (\<lambda>(hits, skipped) doc_id.
       rbind (get_document_txn (mc_storage M) txn i doc_id) (\<lambda>r. case r of
         None \<Rightarrow> Ok (hits, skipped)
       | Some data \<Rightarrow>
           rbind (tolerate (resolve_document M p inner data) skipped) (\<lambda>(r, skipped). case r of
             None \<Rightarrow> Ok (hits, skipped)
           | Some (v, meta) \<Rightarrow>
              (case score doc_id v meta of
                 Some hit \<Rightarrow> Ok (hits @ [hit], skipped)
               | None \<Rightarrow> Ok (hits, skipped))))) ([], skipped) ids"

definition query_documents_scoped ::
  "('r, 'db) machine \<Rightarrow> (u64 list \<Rightarrow> u64 list) \<Rightarrow> Collection \<Rightarrow> 'db store \<Rightarrow> f64 list \<Rightarrow> nat \<Rightarrow>
   f64 list option \<Rightarrow> ((u64 \<times> f64 \<times> bytes) list \<times> 'db store) res" where
  "query_documents_scoped M order c s query n unbind_role =
     rbind (validate_vector query) (\<lambda>_.
     rbind (case unbind_role of
              None \<Rightarrow> Ok ()
            | Some role \<Rightarrow>
                rbind (validate_vector role) (\<lambda>_.
                rbind (ensure (\<not> co_poisoned c) LockPoisoned) (\<lambda>_.
                check_dim (co_inner c) role))) (\<lambda>_.
     rbind (read_inner c) (\<lambda>inner.
     rbind (check_dim inner query) (\<lambda>_.
     if in_locations inner = [] then Ok ([], s)
     else let (indices, _) = inner_activate inner query (query_width inner n) in
     rbind (read_txn (mc_storage M) s) (\<lambda>txn.
     rbind (gather_candidates M txn (co_id c) inner indices) (\<lambda>ids.
     rbind (score_candidates M txn (st_precision s) (co_id c) inner
              (\<lambda>doc_id v meta.
                 let sim = (case unbind_role of
                       Some role \<Rightarrow> role_scoped_similarity (mc_fft M) v role query
                     | None \<Rightarrow> cosine_similarity query v)
                 in Some (doc_id, sim, meta))
              (st_skipped s) (order ids)) (\<lambda>(scored, skipped).
     Ok (take n (sort_by (\<lambda>a b. fst (snd b) < fst (snd a)) scored), s\<lparr>st_skipped := skipped\<rparr>))))))))"

definition query_documents ::
  "('r, 'db) machine \<Rightarrow> (u64 list \<Rightarrow> u64 list) \<Rightarrow> Collection \<Rightarrow> 'db store \<Rightarrow> f64 list \<Rightarrow> nat \<Rightarrow>
   ((u64 \<times> f64 \<times> bytes) list \<times> 'db store) res" where
  "query_documents M order c s query n = query_documents_scoped M order c s query n None"

section \<open>Querying by several roles\<close>

datatype RoleCleanup = Mdl | Beta f64 | Off

definition MIN_CLEANUP_BETA :: f64 where
  "MIN_CLEANUP_BETA = f64_dec 30 0"

record MultiRoleHit =
  mh_doc_id :: u64
  mh_recall_score :: f64
  mh_metadata :: bytes
  mh_role_scores :: "f64 list"

record MultiRoleResults =
  mm_cleanup_beta :: "f64 option"
  mm_hits :: "MultiRoleHit list"

definition cleanup_read :: "libm \<Rightarrow> EAMInner \<Rightarrow> f64 list \<Rightarrow> f64 \<Rightarrow> f64 list" where
  "cleanup_read L inner v beta =
     (let ls = in_locations inner; k = min (cfg_k (in_config inner)) (length ls);
          (indices, _) = inner_activate inner v k;
          logits = map (\<lambda>i. beta * dot v (loc_address (ls ! i)) +
                            lm_ln L (f64_max (loc_write_count (ls ! i)) 0)) indices;
          alpha = softmax L logits 1
      in weighted_sum (map (\<lambda>i. normalized_pattern (ls ! i)) indices) alpha)"

definition cleanup_temperature :: "libm \<Rightarrow> EAMInner \<Rightarrow> nat list \<Rightarrow> RoleCleanup \<Rightarrow> f64 option" where
  "cleanup_temperature L inner indices cleanup =
     (case cleanup of
        Off \<Rightarrow> None
      | Mdl \<Rightarrow> Some (select_beta_mdl L (map (\<lambda>i. normalize (loc_address (in_locations inner ! i))) indices)
                      (cfg_d (in_config inner)) (cfg_beta (in_config inner)))
      | Beta b \<Rightarrow> Some (f64_max b MIN_CLEANUP_BETA))"

definition role_score ::
  "('r, 'db) machine \<Rightarrow> EAMInner \<Rightarrow> f64 option \<Rightarrow> complex64 list \<Rightarrow> f64 list \<Rightarrow> f64 list \<Rightarrow> f64" where
  "role_score M inner cleanup_beta doc_spectrum role filler =
     (let d = cfg_d (in_config inner); role_spectrum = rfft_forward (mc_fft M) role
      in case cleanup_beta of
           Some beta \<Rightarrow>
             let recovered = unbind_by_spectra (mc_fft M) doc_spectrum role_spectrum d;
                 cleaned = cleanup_read (mc_libm M) inner recovered beta
             in cosine_similarity cleaned filler
         | None \<Rightarrow> role_scoped_similarity_spectra doc_spectrum role_spectrum
                     (rfft_forward (mc_fft M) filler) (l2_norm filler) d)"

definition check_pairs :: "EAMInner \<Rightarrow> (f64 list \<times> f64 list) list \<Rightarrow> unit res" where
  "check_pairs inner pairs =
     rfold (\<lambda>_ (role, filler).
       rbind (validate_vector role) (\<lambda>_.
       rbind (validate_vector filler) (\<lambda>_.
       rbind (check_dim inner role) (\<lambda>_.
       check_dim inner filler)))) () pairs"

definition query_documents_multi_role ::
  "('r, 'db) machine \<Rightarrow> (u64 list \<Rightarrow> u64 list) \<Rightarrow> Collection \<Rightarrow> 'db store \<Rightarrow> f64 list \<Rightarrow> nat \<Rightarrow>
   (f64 list \<times> f64 list) list \<Rightarrow> RoleCleanup \<Rightarrow> (MultiRoleResults \<times> 'db store) res" where
  "query_documents_multi_role M order c s query n pairs cleanup =
     rbind (validate_vector query) (\<lambda>_.
     rbind (read_inner c) (\<lambda>inner.
     rbind (check_dim inner query) (\<lambda>_.
     rbind (check_pairs inner pairs) (\<lambda>_.
     if in_locations inner = [] then Ok (\<lparr>mm_cleanup_beta = None, mm_hits = []\<rparr>, s)
     else let (indices, _) = inner_activate inner query (query_width inner n);
              beta = cleanup_temperature (mc_libm M) inner indices cleanup in
     rbind (read_txn (mc_storage M) s) (\<lambda>txn.
     rbind (gather_candidates M txn (co_id c) inner indices) (\<lambda>ids.
     rbind (score_candidates M txn (st_precision s) (co_id c) inner
              (\<lambda>doc_id v meta.
                 if length v \<noteq> cfg_d (in_config inner) then None
                 else let doc_spectrum = rfft_forward (mc_fft M) v
                      in Some \<lparr>mh_doc_id = doc_id, mh_recall_score = cosine_similarity query v,
                               mh_metadata = meta,
                               mh_role_scores = map (\<lambda>(role, filler).
                                 role_score M inner beta doc_spectrum role filler) pairs\<rparr>)
              (st_skipped s) (order ids)) (\<lambda>(hits, skipped).
     Ok (\<lparr>mm_cleanup_beta = beta,
          mm_hits = take n (sort_by (\<lambda>a b. mh_recall_score b < mh_recall_score a) hits)\<rparr>,
         s\<lparr>st_skipped := skipped\<rparr>))))))))"

end
