(* ===== verification/Collection_Reorg.thy ===== *)
theory Collection_Reorg
  imports Collection_Docs
begin

text \<open>
  heather_db/src/collection.rs, what reorganises a whole collection: merging, compression
  by description length, flushing, and replacing the memory by a snapshot. The chain of
  parents that compression follows to a surviving location is a loop that may not end
  when ids repeat; not returning is \<open>None\<close>.
\<close>

section \<open>Postings of a removed location\<close>

definition migrate_postings :: "'db storage \<Rightarrow> u32 \<Rightarrow> 'db dbs \<Rightarrow> u64 \<Rightarrow> u64 \<Rightarrow> 'db dbs res" where
  "migrate_postings K i txn removed survivor =
     rbind (get_doc_ids_for_location_txn K txn i removed) (\<lambda>removed_docs.
     rbind (if removed_docs = [] then Ok txn
            else rbind (get_doc_ids_for_location_txn K txn i survivor) (\<lambda>survivor_docs.
                 put_doc_index_entry K txn i survivor (survivor_docs @ removed_docs))) (\<lambda>txn.
     delete_doc_index_entry K txn i removed))"

section \<open>Merge\<close>

definition persist_merge ::
  "('r, 'db) machine \<Rightarrow> u32 \<Rightarrow> MergeResult \<Rightarrow> 'db store \<Rightarrow> 'db store res" where
  "persist_merge M i r s =
     (let K = mc_storage M in
      rbind (write_txn K s) (\<lambda>txn.
      rbind (rfold (\<lambda>txn (removed, survivor). migrate_postings K i txn removed survivor) txn
              (mr_merge_map r)) (\<lambda>txn.
      rbind (rfold (\<lambda>txn l. delete_location K txn i l) txn (mr_removed_ids r)) (\<lambda>txn.
      commit K s txn))))"

definition merge_body ::
  "('r, 'db) machine \<Rightarrow> u32 \<Rightarrow> EAMInner \<Rightarrow> 'db store \<Rightarrow> 'r \<Rightarrow> nat ending \<times> 'db store \<times> 'r" where
  "merge_body M i inner s rng =
     (case materialize_document_refs M i inner s of
        Inl e \<Rightarrow> (Clean e, s, rng)
      | Inr (_, s) \<Rightarrow>
         let (r, locations) = knn_merge (mc_libm M) (mc_projected M) (in_locations inner) (in_config inner);
             inner = (bump inner)\<lparr>in_locations := locations\<rparr> in
         if mr_removed_ids r = [] then (Done (mr_merge_count r) inner, s, rng)
         else (case persist_merge M i r s of
                 Inl e \<Rightarrow> (Dirty e inner, s, rng)
               | Inr s \<Rightarrow> (Done (mr_merge_count r) (rebuild_graph_cache inner), s, rng)))"

definition Collection_merge ::
  "('r, 'db) machine \<Rightarrow> ('r, 'db) world \<Rightarrow> nat res \<times> ('r, 'db) world" where
  "Collection_merge M w = atomic_mutation M (merge_body M) w"

section \<open>Compression\<close>

record CompressResult =
  cr_locations_before :: nat
  cr_locations_after :: nat
  cr_description_length_before :: f64
  cr_description_length_after :: f64
  cr_merges :: nat

text \<open>The closest pair by raw dot product; the first of equals.\<close>

definition closest_pair :: "HardLocation list \<Rightarrow> nat \<times> nat \<times> f64" where
  "closest_pair ls =
     foldl (\<lambda>(bi, bj, bc) (i, j).
       let c = dot (loc_address (ls ! i)) (loc_address (ls ! j))
       in if bc < c then (i, j, c) else (bi, bj, bc))
       (0, 1, f64_dec (-2) 0)
       (concat (map (\<lambda>i. map (Pair i) [Suc i..<length ls]) [0..<length ls]))"

fun add_into :: "f64 list \<Rightarrow> f64 list \<Rightarrow> f64 list" where
  "add_into (a # as) (b # bs) = (a + b) # add_into as bs"
| "add_into as bs = as"

definition compress_into :: "f64 \<Rightarrow> f64 \<Rightarrow> HardLocation \<Rightarrow> HardLocation \<Rightarrow> HardLocation" where
  "compress_into wi wj a b =
     a\<lparr>loc_address := normalize (map2 (\<lambda>x y. wi * x + wj * y) (loc_address a) (loc_address b)),
       loc_counter := add_into (loc_counter a) (loc_counter b),
       loc_write_count := wi + wj, loc_neighbors := loc_neighbors a @ loc_neighbors b\<rparr>"

text \<open>The merge to make, as indices and clamped weights, while it pays.\<close>

definition compress_choice ::
  "libm \<Rightarrow> f64 \<Rightarrow> f64 \<Rightarrow> f64 \<Rightarrow> HardLocation list \<Rightarrow> (nat \<times> nat \<times> f64 \<times> f64) option" where
  "compress_choice L kappa lambda w ls =
     (let n = length ls in
      if n \<le> 2 then None
      else let (bi, bj, bc) = closest_pair ls;
               wi = f64_max (loc_write_count (ls ! bi)) (f64_dec 1 9);
               wj = f64_max (loc_write_count (ls ! bj)) (f64_dec 1 9);
               inertia = (wi * wj / (wi + wj)) * f64_dec 2 0 * f64_max (1 - bc) 0;
               model_saving = kappa + w * (lm_log2 L (f64_of_nat n) - lm_log2 L (f64_of_nat (n - 1)))
           in if model_saving \<le> inertia * lambda then None else Some (bi, bj, wi, wj))"

definition compress_merge :: "nat \<Rightarrow> nat \<Rightarrow> f64 \<Rightarrow> f64 \<Rightarrow> HardLocation list \<Rightarrow> HardLocation list" where
  "compress_merge bi bj wi wj ls =
     (let ls = ls[bi := compress_into wi wj (ls ! bi) (ls ! bj)] in take bj ls @ drop (Suc bj) ls)"

lemma closest_pair_range:
  assumes "2 \<le> length ls" "closest_pair ls = (bi, bj, bc)"
  shows "bi < bj" "bj < length ls"
proof -
  let ?f = "\<lambda>(bi, bj, bc) (i, j).
      let c = dot (loc_address (ls ! i)) (loc_address (ls ! j))
      in if bc < c then (i, j, c) else (bi, bj, bc)"
  let ?S = "{(i, j, c). i < j \<and> j < length ls}"
  have step: "?f x p \<in> ?S" if "x \<in> ?S" "fst p < snd p \<and> snd p < length ls" for x :: "nat \<times> nat \<times> f64" and p
    using that by (auto simp: Let_def split: prod.splits)
  have "foldl ?f x ps \<in> ?S" if "\<forall>p\<in>set ps. fst p < snd p \<and> snd p < length ls" "x \<in> ?S" for x ps
    using that step by (induction ps arbitrary: x) (simp_all del: split_paired_All)
  from this [of "concat (map (\<lambda>i. map (Pair i) [Suc i..<length ls]) [0..<length ls])" "(0, 1, f64_dec (-2) 0)"]
  show "bi < bj" "bj < length ls"
    using assms unfolding closest_pair_def by auto
qed

lemma compress_choice_range:
  assumes "compress_choice L kappa lambda w ls = Some (bi, bj, wi, wj)"
  shows "bi < bj" "bj < length ls" "2 < length ls"
  using assms closest_pair_range [of ls]
  by (auto simp: compress_choice_def Let_def split: if_splits prod.splits)

lemma length_compress_merge: "bj < length ls \<Longrightarrow> length (compress_merge bi bj wi wj ls) = length ls - 1"
  by (simp add: compress_merge_def Let_def)

text \<open>The memory, the removed ids in order, and the parent of each.\<close>

function compress_loop ::
  "libm \<Rightarrow> f64 \<Rightarrow> f64 \<Rightarrow> f64 \<Rightarrow> HardLocation list \<Rightarrow> u64 list \<Rightarrow> (u64 \<times> u64) list \<Rightarrow>
   HardLocation list \<times> u64 list \<times> (u64 \<times> u64) list" where
  "compress_loop L kappa lambda w ls removed parent =
     (case compress_choice L kappa lambda w ls of
        None \<Rightarrow> (ls, removed, parent)
      | Some (bi, bj, wi, wj) \<Rightarrow>
          compress_loop L kappa lambda w (compress_merge bi bj wi wj ls)
            (removed @ [loc_id (ls ! bj)]) ((loc_id (ls ! bj), loc_id (ls ! bi)) # parent))"
  by pat_completeness auto
termination
  by (relation "measure (\<lambda>(_, _, _, _, ls, _, _). length ls)")
    (auto simp: length_compress_merge dest: compress_choice_range(2,3))

declare compress_loop.simps [simp del]

partial_function (option) final_survivor :: "(u64 \<times> u64) list \<Rightarrow> u64 \<Rightarrow> u64 option" where
  "final_survivor parent i =
     (case map_of parent i of None \<Rightarrow> Some i | Some p \<Rightarrow> final_survivor parent p)"

fun compress_postings ::
  "'db storage \<Rightarrow> u32 \<Rightarrow> (u64 \<times> u64) list \<Rightarrow> u64 list \<Rightarrow> 'db dbs \<Rightarrow> 'db dbs res option" where
  "compress_postings K i parent [] txn = Some (Ok txn)"
| "compress_postings K i parent (removed # rest) txn =
     (case final_survivor parent removed of
        None \<Rightarrow> None
      | Some survivor \<Rightarrow>
         (case rbind (migrate_postings K i txn removed survivor) (\<lambda>txn. delete_location K txn i removed) of
            Inl e \<Rightarrow> Some (Inl e)
          | Inr txn \<Rightarrow> compress_postings K i parent rest txn))"

definition persist_compress ::
  "('r, 'db) machine \<Rightarrow> u32 \<Rightarrow> HardLocation list \<Rightarrow> u64 list \<Rightarrow> (u64 \<times> u64) list \<Rightarrow> 'db store \<Rightarrow>
   'db store res option" where
  "persist_compress M i ls removed parent s =
     (case write_txn (mc_storage M) s of
        Inl e \<Rightarrow> Some (Inl e)
      | Inr txn \<Rightarrow>
          map_option (\<lambda>r. rbind r (\<lambda>txn.
            rbind (put_locations M (st_precision s) txn i ls) (\<lambda>txn.
            commit (mc_storage M) s txn)))
          (compress_postings (mc_storage M) i parent removed txn))"

definition dl_bits :: "libm \<Rightarrow> f64 \<Rightarrow> f64 \<Rightarrow> nat \<Rightarrow> f64" where
  "dl_bits L kappa w n = f64_of_nat (max n 1) * kappa + w * lm_log2 L (f64_of_nat (max n 1))"

definition compress_body ::
  "('r, 'db) machine \<Rightarrow> f64 \<Rightarrow> f64 \<Rightarrow> u32 \<Rightarrow> EAMInner \<Rightarrow> 'db store \<Rightarrow> 'r \<Rightarrow>
   (CompressResult ending \<times> 'db store \<times> 'r) option" where
  "compress_body M kappa lambda i inner s rng =
     (case materialize_document_refs M i inner s of
        Inl e \<Rightarrow> Some (Clean e, s, rng)
      | Inr (_, s) \<Rightarrow>
         let L = mc_libm M; before = in_locations inner;
             w = f64_max (f64_sum (map loc_write_count before)) 1;
             (ls, removed, parent) = compress_loop L kappa lambda w before [] [];
             inner = inner\<lparr>in_locations := ls\<rparr>;
             result = \<lparr>cr_locations_before = length before, cr_locations_after = length ls,
                       cr_description_length_before = dl_bits L kappa w (length before),
                       cr_description_length_after = dl_bits L kappa w (length ls),
                       cr_merges = length removed\<rparr>
         in if removed = [] then Some (Done result inner, s, rng)
            else map_option (\<lambda>r. case r of
                   Inl e \<Rightarrow> (Dirty e inner, s, rng)
                 | Inr s \<Rightarrow> (Done result (rebuild_graph_cache inner), s, rng))
                 (persist_compress M i ls removed parent s))"

definition Collection_compress ::
  "('r, 'db) machine \<Rightarrow> f64 \<Rightarrow> f64 \<Rightarrow> ('r, 'db) world \<Rightarrow> (CompressResult res \<times> ('r, 'db) world) option" where
  "Collection_compress M kappa lambda w =
     (let (c, s, rng) = w in
      case write_inner c of
        Inl e \<Rightarrow> Some (Inl e, w)
      | Inr inner \<Rightarrow>
          map_option (\<lambda>e. atomic_mutation M (\<lambda>_ _ _ _. e) w)
            (compress_body M kappa lambda (co_id c) inner s rng))"

section \<open>Flush\<close>

definition Collection_flush ::
  "('r, 'db) machine \<Rightarrow> Collection \<Rightarrow> 'db store \<Rightarrow> 'db store res" where
  "Collection_flush M c s =
     rbind (read_inner c) (\<lambda>inner.
     rbind (write_txn (mc_storage M) s) (\<lambda>txn.
     rbind (put_locations M (st_precision s) txn (co_id c) (in_locations inner)) (\<lambda>txn.
     rbind (put_counters M txn (co_id c) inner) (\<lambda>txn.
     commit (mc_storage M) s txn))))"

section \<open>Loading a snapshot\<close>

definition snapshot_next_id :: "HardLocation list \<Rightarrow> u64" where
  "snapshot_next_id locations =
     (case locations of
        [] \<Rightarrow> 0
      | l # ls \<Rightarrow> foldl max (loc_id l) (map loc_id ls) + 1)"

definition persist_snapshot ::
  "('r, 'db) machine \<Rightarrow> u32 \<Rightarrow> HardLocation list \<Rightarrow> HardLocation list \<Rightarrow> u64 \<Rightarrow> nat \<Rightarrow>
   'db store \<Rightarrow> 'db store res" where
  "persist_snapshot M i old locations next_id d s =
     (let K = mc_storage M in
      rbind (write_txn K s) (\<lambda>txn.
      rbind (rfold (\<lambda>txn l. delete_location K txn i (loc_id l)) txn old) (\<lambda>txn.
      rbind (put_locations M (st_precision s) txn i locations) (\<lambda>txn.
      rbind (put_u64 M txn i ''next_id'' next_id) (\<lambda>txn.
      rbind (put_u64 M txn i ''config_d'' (of_nat d)) (\<lambda>txn.
      commit K s txn))))))"

definition snapshot_conflict :: "bytes \<Rightarrow> u64 \<Rightarrow> u64 \<Rightarrow> herror" where
  "snapshot_conflict name version expected =
     Conflict (Fmt ''collection '{}' was modified concurrently (version {} != expected {}); retry''
       [S (map (\<lambda>b. char_of (unat b)) name), N (uint version), N (uint expected)])"

definition snapshot_body ::
  "('r, 'db) machine \<Rightarrow> bytes \<Rightarrow> HardLocation list \<Rightarrow> EAMConfig \<Rightarrow> u64 option \<Rightarrow>
   u32 \<Rightarrow> EAMInner \<Rightarrow> 'db store \<Rightarrow> 'r \<Rightarrow> unit ending \<times> 'db store \<times> 'r" where
  "snapshot_body M name locations c expected_version i inner s rng =
     (let checked = (case expected_version of
            Some v \<Rightarrow> ensure (in_version inner = v) (snapshot_conflict name (in_version inner) v)
          | None \<Rightarrow> Ok ()) in
      case rbind checked (\<lambda>_. materialize_document_refs M i inner s) of
        Inl e \<Rightarrow> (Clean e, s, rng)
      | Inr (_, s) \<Rightarrow>
         let inner = bump inner; next_id = snapshot_next_id locations in
         (case persist_snapshot M i (in_locations inner) locations next_id (cfg_d c) s of
            Inl e \<Rightarrow> (Dirty e inner, s, rng)
          | Inr s \<Rightarrow>
              (Done () (rebuild_graph_cache
                 (inner\<lparr>in_locations := locations, in_config := c, in_next_id := next_id\<rparr>)), s, rng)))"

definition load_snapshot_checked ::
  "('r, 'db) machine \<Rightarrow> HardLocation list \<Rightarrow> EAMConfig \<Rightarrow> u64 option \<Rightarrow>
   ('r, 'db) world \<Rightarrow> unit res \<times> ('r, 'db) world" where
  "load_snapshot_checked M locations c expected_version w =
     (case rbind (validate c) (\<lambda>_.
           rfold (\<lambda>_ l. ensure (length (loc_address l) = cfg_d c)
             (DimensionMismatch (cfg_d c) (length (loc_address l)))) () locations) of
        Inl e \<Rightarrow> (Inl e, w)
      | Inr _ \<Rightarrow> atomic_mutation M (snapshot_body M (co_name (fst w)) locations c expected_version) w)"

definition load_snapshot ::
  "('r, 'db) machine \<Rightarrow> HardLocation list \<Rightarrow> EAMConfig \<Rightarrow> ('r, 'db) world \<Rightarrow>
   unit res \<times> ('r, 'db) world" where
  "load_snapshot M locations c w = load_snapshot_checked M locations c None w"

end
