(* ===== verification/Collection_Inv.thy ===== *)
theory Collection_Inv
  imports Collection_Reorg
begin

text \<open>
  The invariant of a collection's memory: locations of the collection's dimension, with ids
  in increasing order below the next id, and caches that mirror them (the packed addresses
  in both precisions, row by row, and the lookup from ids to indices). Every write keeps it,
  and under it no write panics.
\<close>

section \<open>Packed rows\<close>

lemma concat_update:
  assumes "\<forall>r\<in>set rs. length r = d" "i < length rs"
  shows "take (i * d) (concat rs) @ x @ drop (i * d + d) (concat rs) = concat (rs[i := x])"
  using assms
proof (induction rs arbitrary: i)
  case Nil
  then show ?case by simp
next
  case (Cons r rs)
  then show ?case by (cases i) (auto simp: add.assoc)
qed

text \<open>The matrix has a row for each location, up to date outside \<open>R\<close>.\<close>

definition rows_ok :: "nat \<Rightarrow> ('x list \<Rightarrow> 'y list) \<Rightarrow> 'x list list \<Rightarrow> 'y list \<Rightarrow> nat set \<Rightarrow> bool" where
  "rows_ok d f vs m R \<longleftrightarrow>
     (\<exists>rs. m = concat rs \<and> length rs = length vs \<and> (\<forall>r\<in>set rs. length r = d) \<and>
        (\<forall>i<length vs. i \<notin> R \<longrightarrow> rs ! i = f (vs ! i)))"

lemma rows_ok_length: "rows_ok d f vs m R \<Longrightarrow> length m = length vs * d"
  unfolding rows_ok_def by (metis length_concat_rows)

lemma rows_ok_update:
  assumes "rows_ok d f vs m R" "i < length vs" "length (f (vs ! i)) = d"
  shows "rows_ok d f vs (take (i * d) m @ f (vs ! i) @ drop (i * d + d) m) (R - {i})"
proof -
  obtain rs where rs: "m = concat rs" "length rs = length vs" "\<forall>r\<in>set rs. length r = d"
    "\<forall>i<length vs. i \<notin> R \<longrightarrow> rs ! i = f (vs ! i)"
    using assms(1) by (auto simp: rows_ok_def)
  have "\<forall>r\<in>set (rs[i := f (vs ! i)]). length r = d"
    using rs(3) assms(3) by (auto dest: set_update_subset_insert [THEN subsetD])
  then show ?thesis
    unfolding rows_ok_def rs(1) using concat_update [OF rs(3), of i "f (vs ! i)"] rs assms(2)
    by (intro exI [of _ "rs[i := f (vs ! i)]"]) (auto simp: nth_list_update)
qed

lemma rows_ok_empty: "rows_ok d f vs m {} \<Longrightarrow> m = concat (map f vs)"
proof -
  assume "rows_ok d f vs m {}"
  then obtain rs where "m = concat rs" "length rs = length vs" "\<forall>i<length vs. rs ! i = f (vs ! i)"
    by (auto simp: rows_ok_def)
  moreover from this have "rs = map f vs" by (auto intro: nth_equalityI)
  ultimately show ?thesis by simp
qed

lemma rows_ok_concat:
  "\<forall>v\<in>set vs. length (f v) = d \<Longrightarrow> rows_ok d f vs (concat (map f vs)) R"
  by (auto simp: rows_ok_def intro!: exI [of _ "map f vs"])

lemma rows_ok_change:
  assumes "rows_ok d f vs m {}" "length ws = length vs" "\<And>i. i < length vs \<Longrightarrow> i \<notin> R \<Longrightarrow> ws ! i = vs ! i"
  shows "rows_ok d f ws m R"
  using assms by (auto simp: rows_ok_def)

section \<open>The invariant\<close>

definition lookup_ok :: "HardLocation list \<Rightarrow> u32 list \<Rightarrow> bool" where
  "lookup_ok ls t \<longleftrightarrow>
     (\<forall>i<length ls. unat (loc_id (ls ! i)) < length t \<and> t ! unat (loc_id (ls ! i)) = of_nat i)"

definition memory_ok :: "nat \<Rightarrow> u64 \<Rightarrow> HardLocation list \<Rightarrow> bool" where
  "memory_ok d next_id ls \<longleftrightarrow>
     (\<forall>l\<in>set ls. loc_wf d l) \<and> sorted_wrt (<) (map loc_id ls) \<and> (\<forall>l\<in>set ls. loc_id l < next_id)"

abbreviation addresses :: "HardLocation list \<Rightarrow> f64 list list" where
  "addresses ls \<equiv> map loc_address ls"

definition inner_ok :: "EAMInner \<Rightarrow> bool" where
  "inner_ok inner \<longleftrightarrow>
     (let ls = in_locations inner; d = cfg_d (in_config inner)
      in memory_ok d (in_next_id inner) ls \<and> lookup_ok ls (in_id_lookup inner) \<and>
         rows_ok d id (addresses ls) (in_address_matrix inner) {} \<and>
         rows_ok d to_f32 (addresses ls) (in_matrix32 inner) {} \<and>
         (\<forall>i\<in>set (in_landmarks inner). i < length ls))"

text \<open>Between a write and the update of the caches, the rows of \<open>R\<close> are out of date.\<close>

definition caches_ok :: "nat set \<Rightarrow> EAMInner \<Rightarrow> bool" where
  "caches_ok R inner \<longleftrightarrow>
     (let ls = in_locations inner; d = cfg_d (in_config inner)
      in (\<forall>l\<in>set ls. loc_wf d l) \<and> lookup_ok ls (in_id_lookup inner) \<and>
         rows_ok d id (addresses ls) (in_address_matrix inner) R \<and>
         rows_ok d to_f32 (addresses ls) (in_matrix32 inner) R \<and>
         (\<forall>i\<in>set (in_landmarks inner). i < length ls))"

lemma inner_ok_caches:
  "inner_ok inner \<longleftrightarrow> memory_ok (cfg_d (in_config inner)) (in_next_id inner) (in_locations inner) \<and>
     caches_ok {} inner"
  by (auto simp: inner_ok_def caches_ok_def memory_ok_def Let_def)

lemma memory_ok_distinct: "memory_ok d n ls \<Longrightarrow> distinct (map loc_id ls)"
  by (simp add: memory_ok_def strict_sorted_iff)

lemma length_to_f32 [simp]: "length (to_f32 v) = length v"
  by (simp add: to_f32_def)

section \<open>Updating the caches\<close>

lemma sync_row_ok:
  assumes "caches_ok R inner" "i < length (in_locations inner)"
  obtains inner' where "sync_row inner i = Inr inner'" "caches_ok (R - {i}) inner'"
    "in_locations inner' = in_locations inner" "in_config inner' = in_config inner"
    "in_next_id inner' = in_next_id inner" "in_eta inner' = in_eta inner"
    "in_doc_next_id inner' = in_doc_next_id inner" "in_valid inner' = in_valid inner"
    "in_version inner' = in_version inner"
proof -
  let ?ls = "in_locations inner" and ?d = "cfg_d (in_config inner)"
  have wf: "length (loc_address (?ls ! i)) = ?d"
    using assms by (auto simp: caches_ok_def Let_def loc_wf_def)
  have rows: "rows_ok ?d id (addresses ?ls) (in_address_matrix inner) R"
    "rows_ok ?d to_f32 (addresses ?ls) (in_matrix32 inner) R"
    using assms(1) by (simp_all add: caches_ok_def Let_def)
  have "i * ?d + ?d \<le> length ?ls * ?d"
    using mult_le_mono1 [of "Suc i" "length ?ls" ?d] assms(2) by simp
  then have fits: "i * ?d + ?d \<le> length (in_address_matrix inner)" "i * ?d + ?d \<le> length (in_matrix32 inner)"
    using rows_ok_length [OF rows(1)] rows_ok_length [OF rows(2)] by simp_all
  note new = rows_ok_update [OF rows(1), of i] rows_ok_update [OF rows(2), of i]
  show ?thesis
    by (rule that [of "inner\<lparr>in_address_matrix := take (i * ?d) (in_address_matrix inner) @
          loc_address (?ls ! i) @ drop (i * ?d + ?d) (in_address_matrix inner),
        in_matrix32 := take (i * ?d) (in_matrix32 inner) @ to_f32 (loc_address (?ls ! i)) @
          drop (i * ?d + ?d) (in_matrix32 inner),
        in_max_norm := f64_max (in_max_norm inner) (l2_norm (loc_address (?ls ! i)))\<rparr>"])
      (use assms wf fits new in \<open>simp_all add: sync_row_def Let_def caches_ok_def\<close>)
qed

lemma sync_addresses_ok:
  assumes "caches_ok R inner" "set js \<subseteq> {..<length (in_locations inner)}"
  obtains inner' where "sync_addresses js inner = Inr inner'" "caches_ok (R - set js) inner'"
    "in_locations inner' = in_locations inner" "in_config inner' = in_config inner"
    "in_next_id inner' = in_next_id inner" "in_eta inner' = in_eta inner"
    "in_doc_next_id inner' = in_doc_next_id inner" "in_valid inner' = in_valid inner"
    "in_version inner' = in_version inner"
  using assms
proof (induction "js" arbitrary: inner R thesis)
  case Nil
  then show ?case by (simp add: sync_addresses_def)
next
  case (Cons i js)
  obtain a where a: "sync_row inner i = Inr a" "caches_ok (R - {i}) a"
    "in_locations a = in_locations inner" "in_config a = in_config inner"
    "in_next_id a = in_next_id inner" "in_eta a = in_eta inner"
    "in_doc_next_id a = in_doc_next_id inner" "in_valid a = in_valid inner" "in_version a = in_version inner"
    using sync_row_ok [OF Cons.prems(2)] Cons.prems(3) by auto
  have "set js \<subseteq> {..<length (in_locations a)}" using Cons.prems(3) a(3) by simp
  from Cons.IH [OF _ a(2) this] obtain b where b: "sync_addresses js a = Inr b" "caches_ok (R - {i} - set js) b"
    "in_locations b = in_locations a" "in_config b = in_config a"
    "in_next_id b = in_next_id a" "in_eta b = in_eta a"
    "in_doc_next_id b = in_doc_next_id a" "in_valid b = in_valid a" "in_version b = in_version a"
    by blast
  have "R - {i} - set js = R - set (i # js)" by auto
  then show ?case
    using Cons.prems(1) [of b] a b by (simp add: sync_addresses_def)
qed

lemma select_landmarks_range: "i \<in> set (select_landmarks ls n) \<Longrightarrow> i < length ls"
  by (auto simp: select_landmarks_def set_sort_by dest!: in_set_takeD set_zip_leftD split: if_splits)

lemma distinct_ids:
  assumes "distinct (map loc_id ls)" "i < length ls" "j < length ls" "i \<noteq> j"
  shows "unat (loc_id (ls ! i)) \<noteq> unat (loc_id (ls ! j))"
  using assms unsigned_word_eqI [of "loc_id (ls ! i)" "loc_id (ls ! j)"] by (auto simp: distinct_conv_nth)

lemma lookup_ok_step:
  assumes "lookup_ok (take k ls) t" "k < length ls" "unat (loc_id (ls ! k)) < length t"
    and "\<And>i. i < k \<Longrightarrow> unat (loc_id (ls ! i)) \<noteq> unat (loc_id (ls ! k))"
  shows "lookup_ok (take (Suc k) ls) (t[unat (loc_id (ls ! k)) := of_nat k])"
  using assms(1-3) assms(4) [THEN not_sym] unfolding lookup_ok_def by (auto simp: less_Suc_eq nth_list_update)

lemma build_id_lookup_ok:
  assumes "distinct (map loc_id ls)"
  shows "lookup_ok ls (build_id_lookup ls)"
proof -
  let ?n = "foldl max 0 (map (\<lambda>l. unat (loc_id l)) ls) + 1"
  let ?f = "\<lambda>(t :: u32 list) (i, l). t[unat (loc_id l) := of_nat i]"
  have max: "unat (loc_id l) < ?n" if "l \<in> set ls" for l
  proof -
    have m: "a \<le> foldl max a xs \<and> (\<forall>y\<in>set xs. y \<le> foldl max a xs)" for a :: nat and xs
    proof (induction xs arbitrary: a)
      case (Cons x xs)
      from Cons.IH [of "max a x"] show ?case by auto
    qed simp
    from m [of 0 "map (\<lambda>l. unat (loc_id l)) ls"] that show ?thesis by (auto simp: less_Suc_eq_le)
  qed
  have "k \<le> length ls \<Longrightarrow> lookup_ok (take k ls) (foldl ?f (replicate ?n (-1)) (take k (zip [0..<length ls] ls))) \<and>
      length (foldl ?f (replicate ?n (-1)) (take k (zip [0..<length ls] ls))) = ?n" for k
  proof (induction k)
    case 0
    then show ?case by (simp add: lookup_ok_def)
  next
    case (Suc k)
    let ?t = "foldl ?f (replicate ?n (-1)) (take k (zip [0..<length ls] ls))"
    have t: "lookup_ok (take k ls) ?t" "length ?t = ?n" using Suc.IH Suc_leD [OF Suc.prems] by blast+
    have ok: "lookup_ok (take (Suc k) ls) (?t[unat (loc_id (ls ! k)) := of_nat k])"
      by (rule lookup_ok_step) (use t max [of "ls ! k"] Suc.prems distinct_ids [OF assms] in auto)
    have z: "take (Suc k) (zip [0..<length ls] ls) = take k (zip [0..<length ls] ls) @ [(k, ls ! k)]"
      using Suc.prems by (simp add: take_Suc_conv_app_nth)
    have "foldl ?f (replicate ?n (-1)) (take (Suc k) (zip [0..<length ls] ls)) = ?t[unat (loc_id (ls ! k)) := of_nat k]"
      unfolding z by (simp only: foldl_append foldl.simps split)
    with ok t(2) show ?case by (simp only: length_list_update simp_thms)
  qed
  from this [of "length ls"] show ?thesis by (simp add: build_id_lookup_def Let_def)
qed

lemma extend_id_lookup_ok:
  assumes "lookup_ok (take k (in_locations inner)) (in_id_lookup inner)" "k \<le> length (in_locations inner)"
    and "distinct (map loc_id (in_locations inner))"
  shows "lookup_ok (in_locations inner) (in_id_lookup (extend_id_lookup k inner))"
proof -
  let ?ls = "in_locations inner"
  let ?f = "\<lambda>(t :: u32 list) i. let n = unat (loc_id (?ls ! i));
           t = (if length t \<le> n then t @ replicate (n + 1 - length t) (-1) else t)
       in t[n := of_nat i]"
  have "lookup_ok ?ls (foldl ?f t [k..<length ?ls])" if "lookup_ok (take k ?ls) t" "k \<le> length ?ls" for t k
    using that
  proof (induction "length ?ls - k" arbitrary: t k)
    case 0
    then show ?case by simp
  next
    case (Suc m)
    then have k: "k < length ?ls" by simp
    have ne: "unat (loc_id (?ls ! i)) \<noteq> unat (loc_id (?ls ! k))" if "i < k" for i
      using distinct_ids [OF assms(3)] k that by simp
    let ?t = "if length t \<le> unat (loc_id (?ls ! k))
        then t @ replicate (unat (loc_id (?ls ! k)) + 1 - length t) (-1) else t"
    have "lookup_ok (take k ?ls) ?t"
      using Suc.prems(1) by (auto simp: lookup_ok_def nth_append)
    then have "lookup_ok (take (Suc k) ?ls) (?f t k)"
      unfolding Let_def by (rule lookup_ok_step) (use k ne in auto)
    from Suc.hyps(1) [OF _ this] Suc.hyps(2) k show ?case by (simp add: upt_conv_Cons)
  qed
  from this [OF assms(1,2)] show ?thesis by (simp add: extend_id_lookup_def)
qed

lemma append_addresses_fields:
  "in_locations (append_addresses k inner) = in_locations inner"
  "in_config (append_addresses k inner) = in_config inner"
  "in_next_id (append_addresses k inner) = in_next_id inner"
  "in_eta (append_addresses k inner) = in_eta inner"
  "in_doc_next_id (append_addresses k inner) = in_doc_next_id inner"
  "in_valid (append_addresses k inner) = in_valid inner"
  "in_version (append_addresses k inner) = in_version inner"
  "in_id_lookup (append_addresses k inner) = in_id_lookup inner"
  "in_address_matrix (append_addresses k inner) =
     in_address_matrix inner @ concat (addresses (drop k (in_locations inner)))"
  "in_matrix32 (append_addresses k inner) =
     in_matrix32 inner @ concat (map to_f32 (addresses (drop k (in_locations inner))))"
  "\<forall>i\<in>set (in_landmarks inner). i < length (in_locations inner) \<Longrightarrow>
     \<forall>i\<in>set (in_landmarks (append_addresses k inner)). i < length (in_locations inner)"
proof -
  let ?f = "\<lambda>inner l.
       inner\<lparr>in_address_matrix := in_address_matrix inner @ loc_address l,
             in_matrix32 := in_matrix32 inner @ to_f32 (loc_address l),
             in_max_norm := f64_max (in_max_norm inner) (l2_norm (loc_address l))\<rparr>"
  have f: "\<exists>m. foldl ?f inner ls = inner\<lparr>in_address_matrix := in_address_matrix inner @ concat (addresses ls),
      in_matrix32 := in_matrix32 inner @ concat (map to_f32 (addresses ls)), in_max_norm := m\<rparr>" for inner ls
  proof (induction ls arbitrary: inner)
    case Nil
    show ?case by (rule exI [of _ "in_max_norm inner"]) simp
  next
    case (Cons l ls)
    from Cons.IH [of "?f inner l"] show ?case by auto
  qed
  obtain m where m: "foldl ?f inner (drop k (in_locations inner)) =
      inner\<lparr>in_address_matrix := in_address_matrix inner @ concat (addresses (drop k (in_locations inner))),
      in_matrix32 := in_matrix32 inner @ concat (map to_f32 (addresses (drop k (in_locations inner)))), in_max_norm := m\<rparr>"
    using f by blast
  show "in_locations (append_addresses k inner) = in_locations inner"
    "in_config (append_addresses k inner) = in_config inner"
    "in_next_id (append_addresses k inner) = in_next_id inner"
    "in_eta (append_addresses k inner) = in_eta inner"
    "in_doc_next_id (append_addresses k inner) = in_doc_next_id inner"
    "in_valid (append_addresses k inner) = in_valid inner"
    "in_version (append_addresses k inner) = in_version inner"
    "in_id_lookup (append_addresses k inner) = in_id_lookup inner"
    "in_address_matrix (append_addresses k inner) =
       in_address_matrix inner @ concat (addresses (drop k (in_locations inner)))"
    "in_matrix32 (append_addresses k inner) =
       in_matrix32 inner @ concat (map to_f32 (addresses (drop k (in_locations inner))))"
    "\<forall>i\<in>set (in_landmarks inner). i < length (in_locations inner) \<Longrightarrow>
       \<forall>i\<in>set (in_landmarks (append_addresses k inner)). i < length (in_locations inner)"
    by (auto simp: append_addresses_def refresh_landmarks_def Let_def m dest: select_landmarks_range)
qed

lemma rows_ok_append:
  assumes "rows_ok d f vs m {}" "\<forall>v\<in>set ws. length (f v) = d"
  shows "rows_ok d f (vs @ ws) (m @ concat (map f ws)) {}"
proof -
  obtain rs where "m = concat rs" "length rs = length vs" "\<forall>r\<in>set rs. length r = d"
    "\<forall>i<length vs. rs ! i = f (vs ! i)"
    using assms(1) by (auto simp: rows_ok_def)
  then show ?thesis
    using assms(2) unfolding rows_ok_def by (intro exI [of _ "rs @ map f ws"]) (auto simp: nth_append)
qed

lemma extend_locations_ok:
  assumes "caches_ok {} inner" "memory_ok (cfg_d (in_config inner)) (in_next_id inner) (in_locations inner @ new)"
  shows "inner_ok (extend_locations new inner)"
    and "in_locations (extend_locations new inner) = in_locations inner @ new"
    and "in_config (extend_locations new inner) = in_config inner"
    "in_next_id (extend_locations new inner) = in_next_id inner"
    "in_eta (extend_locations new inner) = in_eta inner"
    "in_doc_next_id (extend_locations new inner) = in_doc_next_id inner"
    "in_valid (extend_locations new inner) = in_valid inner"
    "in_version (extend_locations new inner) = in_version inner"
proof -
  let ?a = "inner\<lparr>in_locations := in_locations inner @ new\<rparr>" and ?k = "length (in_locations inner)"
  let ?b = "extend_id_lookup ?k ?a"
  have b: "in_locations ?b = in_locations inner @ new" "in_config ?b = in_config inner"
    "in_next_id ?b = in_next_id inner" "in_eta ?b = in_eta inner" "in_doc_next_id ?b = in_doc_next_id inner"
    "in_valid ?b = in_valid inner" "in_version ?b = in_version inner" "in_landmarks ?b = in_landmarks inner"
    "in_address_matrix ?b = in_address_matrix inner" "in_matrix32 ?b = in_matrix32 inner"
    by (simp_all add: extend_id_lookup_def)
  have nil: "extend_locations [] inner = inner" by (simp add: extend_locations_def)
  have e: "extend_locations new inner = (if new = [] then inner else append_addresses ?k ?b)"
    by (simp add: extend_locations_def Let_def)
  show "in_locations (extend_locations new inner) = in_locations inner @ new"
    "in_config (extend_locations new inner) = in_config inner"
    "in_next_id (extend_locations new inner) = in_next_id inner"
    "in_eta (extend_locations new inner) = in_eta inner"
    "in_doc_next_id (extend_locations new inner) = in_doc_next_id inner"
    "in_valid (extend_locations new inner) = in_valid inner"
    "in_version (extend_locations new inner) = in_version inner"
    by (simp_all add: e append_addresses_fields b)
  show "inner_ok (extend_locations new inner)"
  proof (cases "new = []")
    case True
    then show ?thesis using assms nil by (simp add: inner_ok_caches)
  next
    case False
    let ?d = "cfg_d (in_config inner)"
    have lookup: "lookup_ok (in_locations ?a) (in_id_lookup ?b)"
      by (rule extend_id_lookup_ok)
        (use assms memory_ok_distinct [OF assms(2)] in \<open>auto simp: caches_ok_def Let_def\<close>)
    have lens: "\<forall>v\<in>set (addresses new). length v = ?d"
      using assms(2) by (auto simp: memory_ok_def loc_wf_def)
    have rows: "rows_ok ?d id (addresses (in_locations inner)) (in_address_matrix inner) {}"
      "rows_ok ?d to_f32 (addresses (in_locations inner)) (in_matrix32 inner) {}"
      using assms(1) by (simp_all add: caches_ok_def Let_def)
    have "rows_ok ?d id (addresses (in_locations inner @ new)) (in_address_matrix inner @ concat (addresses new)) {}"
      "rows_ok ?d to_f32 (addresses (in_locations inner @ new))
         (in_matrix32 inner @ concat (map to_f32 (addresses new))) {}"
      using rows_ok_append [OF rows(1), of "addresses new"] rows_ok_append [OF rows(2), of "addresses new"] lens
      by simp_all
    moreover have "\<forall>i\<in>set (in_landmarks ?b). i < length (in_locations ?b)"
      using assms(1) by (auto simp: b caches_ok_def Let_def)
    ultimately show ?thesis
      using assms(2) lookup False append_addresses_fields(11) [of ?b ?k]
      by (simp add: e inner_ok_def Let_def append_addresses_fields b)
  qed
qed

section \<open>A write on the memory\<close>

lemma memory_ok_extend:
  assumes "memory_ok d n ls" "map loc_id ls' = map loc_id ls" "\<forall>l\<in>set (ls' @ new). loc_wf d l"
    "length new \<le> 1" "\<forall>l\<in>set new. loc_id l = n" "unat n + 1 < 2 ^ 64"
  shows "memory_ok d (n + of_nat (length new)) (ls' @ new)"
proof -
  have "i < n" if "i \<in> set (map loc_id ls')" for i
    using assms(1) that unfolding assms(2) by (auto simp: memory_ok_def)
  then have below: "loc_id l < n" if "l \<in> set ls'" for l using that by simp
  have step: "n < n + 1" using assms(6) by (simp add: word_less_nat_alt unat_word_ariths)
  have "loc_id l < n + 1" if "l \<in> set ls'" for l using below [OF that] step by (rule less_trans)
  then show ?thesis
    using assms below step by (cases new) (auto simp: memory_ok_def sorted_wrt_append)
qed

lemma apply_write_ok:
  assumes ok: "inner_ok inner" and w: "apply_write M a k opts inner rng = (r, inner', rng')"
    and dims: "length a = cfg_d (in_config inner)" "length k = cfg_d (in_config inner)" "0 < cfg_d (in_config inner)"
    and room: "unat (in_next_id inner) + 1 < 2 ^ 64"
  shows "memory_ok (cfg_d (in_config inner)) (in_next_id inner') (in_locations inner' @ wr_new_locations r)"
    "caches_ok (set (wr_modified_indices r)) inner'"
    "set (wr_modified_indices r) \<subseteq> {..<length (in_locations inner)}"
    "map loc_id (in_locations inner') = map loc_id (in_locations inner)"
    "\<And>i. i \<notin> set (wr_modified_indices r) \<Longrightarrow> in_locations inner' ! i = in_locations inner ! i"
    "in_next_id inner' = in_next_id inner + of_nat (length (wr_new_locations r))"
    "length (wr_new_locations r) \<le> 1" "in_config inner' = in_config inner"
    "in_doc_next_id inner' = in_doc_next_id inner" "in_valid inner' = in_valid inner"
    "in_version inner' = in_version inner"
proof -
  let ?ls = "in_locations inner" and ?d = "cfg_d (in_config inner)"
  obtain ls' nid' where e: "adaptive_write_two (mc_libm M) (mc_normal M) a k ?ls (in_config inner) (in_eta inner)
      (in_next_id inner) rng (write_scan (in_matrix32 inner) (in_max_norm inner)) opts = (r, ls', nid', rng')"
    and i': "inner' = inner\<lparr>in_locations := ls', in_next_id := nid', in_eta := wr_eta r\<rparr>"
    using w by (auto simp: apply_write_def Let_def split: prod.splits)
  have ne: "a \<noteq> []" using dims by auto
  note cells = adaptive_write_cells [OF e ne]
  have wf: "\<forall>l\<in>set ?ls. loc_wf ?d l" using ok by (simp add: inner_ok_def memory_ok_def Let_def)
  have wf': "\<forall>l\<in>set ls'. loc_wf ?d l" using same_cells_wf [OF cells(1)] wf by blast
  have other: "ls' ! i = ?ls ! i" if "i \<notin> set (wr_modified_indices r)" for i
    using adaptive_write_untouched [OF e ne that] .
  have ids: "map loc_id ls' = map loc_id ?ls" by (rule same_cells_ids [OF cells(1)])
  then have len: "length ls' = length ?ls" using map_eq_imp_length_eq by metis
  show "memory_ok ?d (in_next_id inner') (in_locations inner' @ wr_new_locations r)"
    unfolding i' using ok cells ids wf wf' dims room
    by (auto simp: inner_ok_def Let_def intro!: memory_ok_extend)
  have "lookup_ok ls' (in_id_lookup inner)"
    using ok ids len nth_map [of _ ls' loc_id] nth_map [of _ ?ls loc_id]
    by (simp add: inner_ok_def lookup_ok_def Let_def)
  moreover have "rows_ok ?d id (addresses ls') (in_address_matrix inner) (set (wr_modified_indices r))"
    "rows_ok ?d to_f32 (addresses ls') (in_matrix32 inner) (set (wr_modified_indices r))"
    using ok by (auto simp: inner_ok_def Let_def len other intro: rows_ok_change)
  ultimately show "caches_ok (set (wr_modified_indices r)) inner'"
    using ok wf' len by (simp add: i' inner_ok_def caches_ok_def Let_def)
  show "set (wr_modified_indices r) \<subseteq> {..<length ?ls}" by (rule cells(6))
  show "map loc_id (in_locations inner') = map loc_id ?ls"
    "\<And>i. i \<notin> set (wr_modified_indices r) \<Longrightarrow> in_locations inner' ! i = ?ls ! i"
    "in_next_id inner' = in_next_id inner + of_nat (length (wr_new_locations r))"
    "length (wr_new_locations r) \<le> 1" "in_config inner' = in_config inner"
    "in_doc_next_id inner' = in_doc_next_id inner" "in_valid inner' = in_valid inner"
    "in_version inner' = in_version inner"
    using ids other cells(2,3) by (simp_all add: i')
qed

text \<open>After it the caches are brought up to date, which never fails.\<close>

lemma finish_write:
  assumes "memory_ok (cfg_d (in_config inner)) (in_next_id inner) (in_locations inner @ new)"
    and "caches_ok (set js) inner" "set js \<subseteq> {..<length (in_locations inner)}"
  obtains synced where "sync_addresses js inner = Inr synced" "inner_ok (extend_locations new synced)"
    "in_locations synced = in_locations inner"
    "in_locations (extend_locations new synced) = in_locations inner @ new"
    "in_config (extend_locations new synced) = in_config inner"
    "in_next_id (extend_locations new synced) = in_next_id inner"
    "in_eta (extend_locations new synced) = in_eta inner"
    "in_doc_next_id (extend_locations new synced) = in_doc_next_id inner"
    "in_valid (extend_locations new synced) = in_valid inner"
    "in_version (extend_locations new synced) = in_version inner"
proof -
  obtain synced where s: "sync_addresses js inner = Inr synced" "caches_ok (set js - set js) synced"
    "in_locations synced = in_locations inner" "in_config synced = in_config inner"
    "in_next_id synced = in_next_id inner" "in_eta synced = in_eta inner"
    "in_doc_next_id synced = in_doc_next_id inner" "in_valid synced = in_valid inner"
    "in_version synced = in_version inner"
    using sync_addresses_ok [OF assms(2,3)] by blast
  have c: "caches_ok {} synced" using s(2) by simp
  have m: "memory_ok (cfg_d (in_config synced)) (in_next_id synced) (in_locations synced @ new)"
    using assms(1) s by simp
  show thesis using that [OF s(1)] extend_locations_ok [OF c m] s by simp
qed

end
