(* ===== verification/Collection_Durable.thy ===== *)
theory Collection_Durable
  imports Collection_Inv
begin

text \<open>
  The store beside the memory. \<open>durable\<close> says that the committed records of a collection
  are those of its memory: a location record under each id and no other, decoding to the
  location or to what the storage precision keeps of it, and the counters. Loading a durable
  state gives the memory back, and a mutation keeps memory and store together, whether it
  succeeds or fails: this is the contract \<open>durable_body\<close> of a mutation's body, proved once
  for \<open>atomic_mutation\<close> and discharged for the bodies of the code.
\<close>

section \<open>Records of locations\<close>

definition by_id :: "HardLocation list \<Rightarrow> u64 \<Rightarrow> HardLocation option" where
  "by_id ls = map_of (map (\<lambda>l. (loc_id l, l)) ls)"

lemma by_id_Some:
  "distinct (map loc_id ls) \<Longrightarrow> by_id ls i = Some l \<longleftrightarrow> l \<in> set ls \<and> loc_id l = i"
  unfolding by_id_def by (subst map_of_eq_Some_iff) (auto simp: o_def)

lemma by_id_None: "by_id ls i = None \<longleftrightarrow> i \<notin> loc_id ` set ls"
  unfolding by_id_def by (auto simp: map_of_eq_None_iff image_image)

definition kept :: "precision \<Rightarrow> HardLocation \<Rightarrow> HardLocation \<Rightarrow> bool" where
  "kept p l l' \<longleftrightarrow> l' = l \<or> l' = stored_location p l"

lemma kept_id: "kept p l l' \<Longrightarrow> loc_id l' = loc_id l"
  by (auto simp: kept_def stored_location_def)

lemma kept_wf: "kept p l l' \<Longrightarrow> loc_wf d l \<Longrightarrow> loc_wf d l'"
  by (auto simp: kept_def stored_location_def loc_wf_def stored_vector_def)

definition holds ::
  "codec_env \<Rightarrow> precision \<Rightarrow> bytes \<Rightarrow> HardLocation \<Rightarrow> bool" where
  "holds E p b l \<longleftrightarrow> (\<exists>l'. decode_location E b p = Inr l' \<and> kept p l l')"

definition records ::
  "codec_env \<Rightarrow> precision \<Rightarrow> u32 \<Rightarrow> (bytes \<Rightarrow> bytes option) \<Rightarrow> (u64 \<Rightarrow> HardLocation option) \<Rightarrow> bool" where
  "records E p c m t \<longleftrightarrow>
     (\<forall>b. prefix (collection_prefix c) b \<longrightarrow> m b \<noteq> None \<longrightarrow> length b = 12) \<and>
     (\<forall>i. rel_option (holds E p) (m (location_key c i)) (t i))"

lemma length_location_key [simp]: "length (location_key c i) = 12"
  by (simp add: location_key_def collection_prefix_def)

lemma records_put:
  "records E p c m t \<Longrightarrow> holds E p b l \<Longrightarrow> records E p c (m(location_key c i \<mapsto> b)) (t(i \<mapsto> l))"
  by (auto simp: records_def location_keys.key_inject)

lemma records_delete:
  "records E p c m t \<Longrightarrow> records E p c (m(location_key c i := None)) (t(i := None))"
  by (auto simp: records_def location_keys.key_inject)

lemma put_location_records:
  assumes "storage_ok K view" "put_location K p s c l = Inr s'" "loc_wf d l"
    "records (sg_codec K) p c (view (db_locations s)) t"
  shows "records (sg_codec K) p c (view (db_locations s')) (t(loc_id l \<mapsto> l))"
    "db_metadata s' = db_metadata s" "db_documents s' = db_documents s" "db_doc_index s' = db_doc_index s"
proof -
  obtain b D where e: "encode_location (sg_codec K) l p = Inr b"
    "sg_put K (db_locations s) (location_key c (loc_id l)) b = Inr D" "s' = s\<lparr>db_locations := D\<rparr>"
    using assms(2) by (auto simp: put_location_def rbind_eq_Inr)
  have "holds (sg_codec K) p b l"
    using decode_encode_location [OF e(1), of p] assms(3) by (auto simp: holds_def kept_def loc_wf_def)
  then show "records (sg_codec K) p c (view (db_locations s')) (t(loc_id l \<mapsto> l))"
    using storage_okD(5) [OF assms(1) e(2)] assms(4) by (simp add: e(3) records_put)
  show "db_metadata s' = db_metadata s" "db_documents s' = db_documents s" "db_doc_index s' = db_doc_index s"
    by (simp_all add: e(3))
qed

lemma delete_location_records:
  assumes "storage_ok K view" "delete_location K s c i = Inr s'"
    "records (sg_codec K) p c (view (db_locations s)) t"
  shows "records (sg_codec K) p c (view (db_locations s')) (t(i := None))"
    "db_metadata s' = db_metadata s" "db_documents s' = db_documents s" "db_doc_index s' = db_doc_index s"
  using assms storage_okD(6) [OF assms(1)]
  by (auto simp: delete_location_def rbind_eq_Inr records_delete)

text \<open>A run of puts that only states what is in \<open>t'\<close>, and all that differs from \<open>t\<close>.\<close>

lemma put_locations_records:
  assumes "storage_ok (mc_storage M) view" "put_locations M p s c ls = Inr s'" "\<forall>l\<in>set ls. loc_wf d l"
    and "records (sg_codec (mc_storage M)) p c (view (db_locations s)) t"
    and "\<forall>l\<in>set ls. t' (loc_id l) = Some l"
  shows "records (sg_codec (mc_storage M)) p c (view (db_locations s'))
      (\<lambda>i. if i \<in> loc_id ` set ls then t' i else t i)"
    "db_metadata s' = db_metadata s" "db_documents s' = db_documents s" "db_doc_index s' = db_doc_index s"
proof -
  have "records (sg_codec (mc_storage M)) p c (view (db_locations s'))
      (\<lambda>i. if i \<in> loc_id ` set ls then t' i else t i) \<and> db_metadata s' = db_metadata s \<and>
      db_documents s' = db_documents s \<and> db_doc_index s' = db_doc_index s"
    using assms(2-5)
  proof (induction ls arbitrary: s t)
    case Nil
    then show ?case by (simp add: put_locations_def)
  next
    case (Cons l ls)
    obtain s1 where s1: "put_location (mc_storage M) p s c l = Inr s1" "put_locations M p s1 c ls = Inr s'"
      using Cons.prems(1) by (auto simp: put_locations_def rbind_eq_Inr)
    note one = put_location_records [OF assms(1) s1(1) _ Cons.prems(3), of d]
    have "(\<lambda>i. if i \<in> loc_id ` set ls then t' i else (t(loc_id l \<mapsto> l)) i) =
        (\<lambda>i. if i \<in> loc_id ` set (l # ls) then t' i else t i)"
      using Cons.prems(4) by (auto simp: fun_eq_iff)
    with Cons.IH [OF s1(2) _ one(1)] one(2-4) Cons.prems(2,4) show ?case by simp
  qed
  then show "records (sg_codec (mc_storage M)) p c (view (db_locations s'))
      (\<lambda>i. if i \<in> loc_id ` set ls then t' i else t i)"
    "db_metadata s' = db_metadata s" "db_documents s' = db_documents s" "db_doc_index s' = db_doc_index s"
    by simp_all
qed

section \<open>Counters\<close>

definition counter_is ::
  "(bytes \<Rightarrow> 'v res) \<Rightarrow> u32 \<Rightarrow> (bytes \<Rightarrow> bytes option) \<Rightarrow> string \<Rightarrow> 'v option \<Rightarrow> 'v \<Rightarrow> bool" where
  "counter_is de c m key dflt v \<longleftrightarrow>
     (case m (metadata_key c (ascii key)) of None \<Rightarrow> dflt = Some v | Some b \<Rightarrow> de b = Inr v)"

lemma counter_keys:
  "metadata_key c (ascii ''next_id'') \<noteq> metadata_key c (ascii ''eta'')"
  "metadata_key c (ascii ''next_id'') \<noteq> metadata_key c (ascii ''doc_next_id'')"
  "metadata_key c (ascii ''eta'') \<noteq> metadata_key c (ascii ''doc_next_id'')"
  "metadata_key c (ascii ''config_d'') \<noteq> metadata_key c (ascii ''doc_next_id'')"
  "metadata_key c (ascii ''config_d'') \<noteq> metadata_key c (ascii ''next_id'')"
  "metadata_key c (ascii ''config_d'') \<noteq> metadata_key c (ascii ''eta'')"
  by (simp_all add: metadata_keys.key_inject ascii_def)

lemma put_u64_view:
  assumes "storage_ok (mc_storage M) view" "put_u64 M s c key v = Inr s'"
  obtains b D where "s' = s\<lparr>db_metadata := D\<rparr>" "sg_de_u64 (mc_storage M) b = Inr v"
    "view D = (view (db_metadata s))(metadata_key c (ascii key) \<mapsto> b)"
proof -
  obtain b D where "sg_ser_u64 (mc_storage M) v = Inr b"
    "sg_put (mc_storage M) (db_metadata s) (metadata_key c (ascii key)) b = Inr D" "s' = s\<lparr>db_metadata := D\<rparr>"
    using assms(2) by (auto simp: put_u64_def put_metadata_def rbind_eq_Inr)
  then show thesis using that storage_okD(5,11) [OF assms(1)] by blast
qed

lemma put_eta_view:
  assumes "storage_ok (mc_storage M) view" "put_eta M s c v = Inr s'"
  obtains b D where "s' = s\<lparr>db_metadata := D\<rparr>" "sg_de_f64 (mc_storage M) b = Inr v"
    "view D = (view (db_metadata s))(metadata_key c (ascii ''eta'') \<mapsto> b)"
proof -
  obtain b D where "sg_ser_f64 (mc_storage M) v = Inr b"
    "sg_put (mc_storage M) (db_metadata s) (metadata_key c (ascii ''eta'')) b = Inr D" "s' = s\<lparr>db_metadata := D\<rparr>"
    using assms(2) by (auto simp: put_eta_def put_metadata_def rbind_eq_Inr)
  then show thesis using that storage_okD(5,12) [OF assms(1)] by blast
qed

definition counters_ok ::
  "'db storage \<Rightarrow> u32 \<Rightarrow> (bytes \<Rightarrow> bytes option) \<Rightarrow> u64 \<Rightarrow> f64 \<Rightarrow> u64 \<Rightarrow> bool" where
  "counters_ok K c m next_id eta doc_next_id \<longleftrightarrow>
     counter_is (sg_de_u64 K) c m ''next_id'' None next_id \<and>
     counter_is (sg_de_f64 K) c m ''eta'' None eta \<and>
     counter_is (sg_de_u64 K) c m ''doc_next_id'' (Some 0) doc_next_id"

lemma put_counters_ok:
  assumes K: "storage_ok (mc_storage M) view" and p: "put_counters M s c inner = Inr s'"
    and "counters_ok (mc_storage M) c (view (db_metadata s)) n eta (in_doc_next_id inner)"
  shows "counters_ok (mc_storage M) c (view (db_metadata s')) (in_next_id inner) (in_eta inner) (in_doc_next_id inner)"
    "db_locations s' = db_locations s" "db_documents s' = db_documents s" "db_doc_index s' = db_doc_index s"
proof -
  obtain s1 where s1: "put_u64 M s c ''next_id'' (in_next_id inner) = Inr s1" "put_eta M s1 c (in_eta inner) = Inr s'"
    using p by (auto simp: put_counters_def rbind_eq_Inr)
  obtain b D where one: "s1 = s\<lparr>db_metadata := D\<rparr>" "sg_de_u64 (mc_storage M) b = Inr (in_next_id inner)"
    "view D = (view (db_metadata s))(metadata_key c (ascii ''next_id'') \<mapsto> b)"
    using put_u64_view [OF K s1(1)] .
  obtain b' D' where two: "s' = s1\<lparr>db_metadata := D'\<rparr>" "sg_de_f64 (mc_storage M) b' = Inr (in_eta inner)"
    "view D' = (view (db_metadata s1))(metadata_key c (ascii ''eta'') \<mapsto> b')"
    using put_eta_view [OF K s1(2)] .
  show "counters_ok (mc_storage M) c (view (db_metadata s')) (in_next_id inner) (in_eta inner) (in_doc_next_id inner)"
    using assms(3) one two counter_keys [of c] counter_keys [of c, symmetric]
    by (simp add: counters_ok_def counter_is_def)
  show "db_locations s' = db_locations s" "db_documents s' = db_documents s" "db_doc_index s' = db_doc_index s"
    by (simp_all add: one two)
qed

lemma put_doc_counters_ok:
  assumes K: "storage_ok (mc_storage M) view" and p: "put_doc_counters M s c inner = Inr s'"
    and "counters_ok (mc_storage M) c (view (db_metadata s)) n eta k"
  shows "counters_ok (mc_storage M) c (view (db_metadata s')) (in_next_id inner) (in_eta inner) (in_doc_next_id inner)"
    "db_locations s' = db_locations s" "db_documents s' = db_documents s" "db_doc_index s' = db_doc_index s"
proof -
  obtain s1 where s1: "put_counters M s c inner = Inr s1" "put_u64 M s1 c ''doc_next_id'' (in_doc_next_id inner) = Inr s'"
    using p by (auto simp: put_doc_counters_def rbind_eq_Inr)
  have one: "counters_ok (mc_storage M) c (view (db_metadata s1)) (in_next_id inner) (in_eta inner) k"
    "db_locations s1 = db_locations s" "db_documents s1 = db_documents s" "db_doc_index s1 = db_doc_index s"
    using put_counters_ok [OF K, of s c "inner\<lparr>in_doc_next_id := k\<rparr>" s1] s1(1) assms(3)
    by (simp_all add: put_counters_def)
  obtain b D where two: "s' = s1\<lparr>db_metadata := D\<rparr>" "sg_de_u64 (mc_storage M) b = Inr (in_doc_next_id inner)"
    "view D = (view (db_metadata s1))(metadata_key c (ascii ''doc_next_id'') \<mapsto> b)"
    using put_u64_view [OF K s1(2)] .
  show "counters_ok (mc_storage M) c (view (db_metadata s')) (in_next_id inner) (in_eta inner) (in_doc_next_id inner)"
    using one two counter_keys [of c] counter_keys [of c, symmetric]
    by (simp add: counters_ok_def counter_is_def)
  show "db_locations s' = db_locations s" "db_documents s' = db_documents s" "db_doc_index s' = db_doc_index s"
    by (simp_all add: one two)
qed

section \<open>Loading\<close>

definition durable ::
  "'db storage \<Rightarrow> ('db \<Rightarrow> bytes \<Rightarrow> bytes option) \<Rightarrow> u32 \<Rightarrow> 'db store \<Rightarrow> EAMInner \<Rightarrow> bool" where
  "durable K view c s inner \<longleftrightarrow>
     records (sg_codec K) (st_precision s) c (view (db_locations (st_dbs s))) (by_id (in_locations inner)) \<and>
     counters_ok K c (view (db_metadata (st_dbs s))) (in_next_id inner) (in_eta inner) (in_doc_next_id inner)"

lemma decoded_map:
  "\<forall>l\<in>set ls. \<exists>l'. decode_location E (f l) p = Inr l' \<and> P l l' \<Longrightarrow>
   list_all2 P ls (decoded_locations E p (map (\<lambda>l. (g l, f l)) ls)) \<and>
   undecodable E p (map (\<lambda>l. (g l, f l)) ls) = []"
proof (induction ls)
  case Nil
  then show ?case by (simp add: decoded_locations_def undecodable_def)
next
  case (Cons l ls)
  then obtain l' where "decode_location E (f l) p = Inr l'" "P l l'" by auto
  with Cons show ?case by (simp add: decoded_locations_def undecodable_def)
qed

lemma records_listing:
  assumes r: "records E p c m (by_id ls)" and ids: "sorted_wrt (<) (map loc_id ls)"
    and l: "listing m (prefix (collection_prefix c)) entries"
  shows "entries = map (\<lambda>l. (location_key c (loc_id l), the (m (location_key c (loc_id l))))) ls"
proof (rule listing_unique [OF l])
  let ?es = "map (\<lambda>l. (location_key c (loc_id l), the (m (location_key c (loc_id l))))) ls"
  have dist: "distinct (map loc_id ls)" using ids by (simp add: strict_sorted_iff)
  have "sorted_wrt (<) (map fst ?es)"
    using ids by (simp add: o_def sorted_wrt_map location_key_less)
  moreover have "(k, v) \<in> set ?es \<longleftrightarrow> m k = Some v \<and> prefix (collection_prefix c) k" for k v
  proof
    assume "(k, v) \<in> set ?es"
    then obtain x where x: "x \<in> set ls" "k = location_key c (loc_id x)" "v = the (m k)" by auto
    then have "by_id ls (loc_id x) = Some x" by (simp add: by_id_Some [OF dist])
    then have "m k \<noteq> None" using r x(2) unfolding records_def by (metis option.rel_distinct(1))
    then show "m k = Some v \<and> prefix (collection_prefix c) k" using x by auto
  next
    assume k: "m k = Some v \<and> prefix (collection_prefix c) k"
    then have key: "k = location_key c (key_id k)"
      using r by (intro location_key_of_prefix) (auto simp: records_def)
    then have "rel_option (holds E p) (Some v) (by_id ls (key_id k))"
      using r k unfolding records_def by metis
    then obtain x where "by_id ls (key_id k) = Some x" by (auto simp: option_rel_Some1)
    then have "x \<in> set ls" "loc_id x = key_id k" by (simp_all add: by_id_Some [OF dist])
    then show "(k, v) \<in> set ?es" using k key by (force simp: image_iff)
  qed
  ultimately show "listing m (prefix (collection_prefix c)) ?es" unfolding listing_def by blast
qed

text \<open>What loading makes of a location.\<close>

definition loaded ::
  "codec_env \<Rightarrow> precision \<Rightarrow> u32 \<Rightarrow> (bytes \<Rightarrow> bytes option) \<Rightarrow> HardLocation \<Rightarrow> HardLocation \<Rightarrow> bool" where
  "loaded E p c m l l' \<longleftrightarrow> decode_location E (the (m (location_key c (loc_id l)))) p = Inr l' \<and> kept p l l'"

lemma list_all2_right: "list_all2 P xs ys \<Longrightarrow> y \<in> set ys \<Longrightarrow> \<exists>x\<in>set xs. P x y"
  by (induction rule: list_all2_induct) auto

lemma load_durable_locations:
  assumes K: "storage_ok K view" and d: "durable K view c s inner"
    and ids: "sorted_wrt (<) (map loc_id (in_locations inner))"
    and l: "load_all_locations K s c = Inr (ls, s')"
  shows "list_all2 (loaded (sg_codec K) (st_precision s) c (view (db_locations (st_dbs s)))) (in_locations inner) ls"
    "s' = s"
proof -
  let ?m = "view (db_locations (st_dbs s))" and ?E = "sg_codec K" and ?p = "st_precision s"
  let ?ls = "in_locations inner"
  obtain txn entries where t: "read_txn K s = Inr txn"
    "sg_prefix_iter K (db_locations txn) (collection_prefix c) = Inr entries"
    "ls = decoded_locations ?E ?p entries"
    "s' = s\<lparr>st_skipped := st_skipped s + of_nat (length (undecodable ?E ?p entries))\<rparr>"
    using l by (auto simp: load_all_locations_eq rbind_eq_Inr)
  have "txn = st_dbs s" using t(1) storage_okD(2) [OF K] by (simp add: read_txn_def)
  then have "listing ?m (prefix (collection_prefix c)) entries" using storage_okD(7) [OF K t(2)] by simp
  then have e: "entries = map (\<lambda>l. (location_key c (loc_id l), the (?m (location_key c (loc_id l))))) ?ls"
    by (rule records_listing [rotated 2]) (use d ids in \<open>auto simp: durable_def\<close>)
  have "\<exists>l'. decode_location ?E (the (?m (location_key c (loc_id x)))) ?p = Inr l' \<and> kept ?p x l'" if "x \<in> set ?ls" for x
  proof -
    have "by_id ?ls (loc_id x) = Some x" using that ids by (simp add: by_id_Some strict_sorted_iff)
    moreover have "rel_option (holds ?E ?p) (?m (location_key c (loc_id x))) (by_id ?ls (loc_id x))"
      using d by (simp add: durable_def records_def)
    ultimately show ?thesis by (auto simp: option_rel_Some2 holds_def)
  qed
  then have "list_all2 (loaded ?E ?p c ?m) ?ls (decoded_locations ?E ?p entries) \<and> undecodable ?E ?p entries = []"
    unfolding e by (intro decoded_map) (auto simp: loaded_def)
  then show "list_all2 (loaded ?E ?p c ?m) ?ls ls" "s' = s" using t(3,4) by simp_all
qed

lemma load_counter:
  assumes K: "storage_ok (mc_storage M) view" and l: "load_value M de s c key dflt = Inr v"
    and "counter_is de c (view (db_metadata (st_dbs s))) key d w" "d = None \<or> d = Some dflt"
  shows "v = w"
proof -
  obtain r txn where r: "read_txn (mc_storage M) s = Inr txn"
    "sg_get (mc_storage M) (db_metadata txn) (metadata_key c (ascii key)) = Inr r"
    "(case r of Some data \<Rightarrow> de data | None \<Rightarrow> Ok dflt) = Inr v"
    using l by (auto simp: load_value_def load_metadata_def rbind_eq_Inr)
  have "txn = st_dbs s" using r(1) storage_okD(2) [OF K] by (simp add: read_txn_def)
  then have "r = view (db_metadata (st_dbs s)) (metadata_key c (ascii key))"
    using storage_okD(4) [OF K r(2)] by simp
  then show ?thesis using r(3) assms(3,4) by (auto simp: counter_is_def split: option.splits)
qed

lemma load_durable:
  assumes K: "storage_ok (mc_storage M) view" and d: "durable (mc_storage M) view c s inner"
    and ids: "sorted_wrt (<) (map loc_id (in_locations inner))"
    and l: "Collection_load M c name s cfg = Inr (C, s')"
  obtains ls where "s' = s" "co_id C = c"
    "list_all2 (loaded (sg_codec (mc_storage M)) (st_precision s) c (view (db_locations (st_dbs s)))) (in_locations inner) ls"
    "co_name C = name" "co_inner C = inner_of cfg ls (in_next_id inner) (in_eta inner) (in_doc_next_id inner)"
proof -
  obtain ls s1 n eta k where l': "load_all_locations (mc_storage M) s c = Inr (ls, s1)"
    "load_value M (sg_de_u64 (mc_storage M)) s1 c ''next_id'' (of_nat (length ls)) = Inr n"
    "load_value M (sg_de_f64 (mc_storage M)) s1 c ''eta'' (cfg_eta_0 cfg) = Inr eta"
    "load_value M (sg_de_u64 (mc_storage M)) s1 c ''doc_next_id'' 0 = Inr k"
    "C = \<lparr>co_id = c, co_name = name, co_inner = inner_of cfg ls n eta k, co_poisoned = False\<rparr>" "s' = s1"
    using l by (auto simp: Collection_load_def Let_def rbind_eq_Inr)
  note locs = load_durable_locations [OF K d ids l'(1)]
  have counters: "counter_is (sg_de_u64 (mc_storage M)) c (view (db_metadata (st_dbs s1))) ''next_id'' None (in_next_id inner)"
    "counter_is (sg_de_f64 (mc_storage M)) c (view (db_metadata (st_dbs s1))) ''eta'' None (in_eta inner)"
    "counter_is (sg_de_u64 (mc_storage M)) c (view (db_metadata (st_dbs s1))) ''doc_next_id'' (Some 0) (in_doc_next_id inner)"
    using d by (simp_all add: durable_def counters_ok_def locs(2))
  have "n = in_next_id inner" "eta = in_eta inner" "k = in_doc_next_id inner"
    using load_counter [OF K l'(2) counters(1)] load_counter [OF K l'(3) counters(2)]
      load_counter [OF K l'(4) counters(3)] by simp_all
  then show thesis using that locs l'(5,6) by simp
qed

lemma inner_of_fields [simp]:
  "in_locations (inner_of c ls n eta k) = ls" "in_config (inner_of c ls n eta k) = c"
  "in_next_id (inner_of c ls n eta k) = n" "in_eta (inner_of c ls n eta k) = eta"
  "in_doc_next_id (inner_of c ls n eta k) = k" "in_valid (inner_of c ls n eta k)"
  by (simp_all add: inner_of_def Let_def f32_rows_def)

lemma inner_of_ok: "memory_ok (cfg_d c) n ls \<Longrightarrow> inner_ok (inner_of c ls n eta k)"
proof -
  assume m: "memory_ok (cfg_d c) n ls"
  then have lens: "\<forall>v\<in>set (addresses ls). length v = cfg_d c" by (auto simp: memory_ok_def loc_wf_def)
  have "lookup_ok ls (build_id_lookup ls)" by (rule build_id_lookup_ok [OF memory_ok_distinct [OF m]])
  moreover have "rows_ok (cfg_d c) id (addresses ls) (concat (addresses ls)) {}"
    "rows_ok (cfg_d c) to_f32 (addresses ls) (concat (map to_f32 (addresses ls))) {}"
    using rows_ok_concat [of "addresses ls" id] rows_ok_concat [of "addresses ls" to_f32] lens by simp_all
  ultimately show ?thesis
    using m by (auto simp: inner_ok_def inner_of_def f32_rows_def o_def dest: select_landmarks_range)
qed

lemma kept_memory_ok:
  assumes "list_all2 (kept p) ls ls'" "memory_ok d n ls"
  shows "memory_ok d n ls'" "map loc_id ls' = map loc_id ls"
proof -
  show ids: "map loc_id ls' = map loc_id ls"
    using assms(1) by (induction rule: list_all2_induct) (simp_all add: kept_id)
  have "loc_wf d l' \<and> loc_id l' < n" if "l' \<in> set ls'" for l'
  proof -
    obtain l where "l \<in> set ls" "kept p l l'" using list_all2_right [OF assms(1) \<open>l' \<in> set ls'\<close>] by blast
    then show ?thesis using assms(2) by (auto simp: memory_ok_def kept_id kept_wf)
  qed
  then show "memory_ok d n ls'" using assms(2) by (simp add: memory_ok_def ids)
qed

section \<open>The contract of a mutation\<close>

definition consistent ::
  "('r, 'db) machine \<Rightarrow> ('db \<Rightarrow> bytes \<Rightarrow> bytes option) \<Rightarrow> u32 \<Rightarrow> 'db store \<Rightarrow> EAMInner \<Rightarrow> bool" where
  "consistent M view c s inner \<longleftrightarrow>
     inner_ok inner \<and> 0 < cfg_d (in_config inner) \<and> in_valid inner \<and> durable (mc_storage M) view c s inner"

text \<open>A collection is sound when it refuses to work or its memory and store agree.\<close>

definition sound ::
  "('r, 'db) machine \<Rightarrow> ('db \<Rightarrow> bytes \<Rightarrow> bytes option) \<Rightarrow> Collection \<Rightarrow> 'db store \<Rightarrow> bool" where
  "sound M view c s \<longleftrightarrow> (in_valid (co_inner c) \<longrightarrow> consistent M view (co_id c) s (co_inner c))"

text \<open>The same memory, up to what the storage precision keeps of each location.\<close>

definition same_memory :: "precision \<Rightarrow> EAMInner \<Rightarrow> EAMInner \<Rightarrow> bool" where
  "same_memory p a b \<longleftrightarrow>
     list_all2 (kept p) (in_locations a) (in_locations b) \<and> in_next_id b = in_next_id a \<and>
     in_eta b = in_eta a \<and> in_doc_next_id b = in_doc_next_id a \<and> in_config b = in_config a"

lemma records_loaded:
  assumes r: "records E p c m (by_id ls)" and ids: "distinct (map loc_id ls)"
    and l: "list_all2 (loaded E p c m) ls ls'"
  shows "records E p c m (by_id ls')"
proof -
  have ids': "map loc_id ls' = map loc_id ls"
    using l by (induction rule: list_all2_induct) (auto simp: loaded_def kept_id)
  have "rel_option (holds E p) (m (location_key c i)) (by_id ls' i)" for i
  proof (cases "by_id ls' i")
    case None
    then have "by_id ls i = None" using ids' by (metis by_id_None image_set)
    then show ?thesis using r None unfolding records_def by metis
  next
    case (Some l')
    then have l': "l' \<in> set ls'" "loc_id l' = i" using ids ids' by (simp_all add: by_id_Some)
    obtain x where x: "x \<in> set ls" "loaded E p c m x l'" using list_all2_right [OF l l'(1)] by blast
    then have i: "loc_id x = i" using l'(2) by (auto simp: loaded_def kept_id)
    then have "by_id ls i = Some x" using x(1) by (simp add: by_id_Some [OF ids])
    then obtain b where "m (location_key c i) = Some b"
      using r unfolding records_def by (metis option_rel_Some2)
    then show ?thesis using x(2) by (simp add: Some i loaded_def holds_def kept_def)
  qed
  then show ?thesis using r by (simp add: records_def)
qed

text \<open>Recovery from a store that holds the memory \<open>old\<close>.\<close>

lemma recover_consistent:
  assumes K: "storage_ok (mc_storage M) view" and ok: "consistent M view (co_id c) s old"
    and inner: "in_config inner = in_config old" and r: "recover M c inner s = (inner', s')"
    and valid: "in_valid inner'"
  shows "consistent M view (co_id c) s' inner'" "s' = s" "same_memory (st_precision s) old inner'"
    "in_version inner' = in_version inner"
proof -
  obtain C where C: "Collection_load M (co_id c) (co_name c) s (in_config inner) = Inr (C, s')"
    "inner' = (co_inner C)\<lparr>in_version := in_version inner\<rparr>"
    using r valid by (auto simp: recover_def split: sum.splits)
  have mem: "memory_ok (cfg_d (in_config old)) (in_next_id old) (in_locations old)"
    and d: "durable (mc_storage M) view (co_id c) s old"
    using ok by (simp_all add: consistent_def inner_ok_def Let_def)
  have sorted: "sorted_wrt (<) (map loc_id (in_locations old))" using mem by (simp add: memory_ok_def)
  obtain ls where ls: "s' = s"
    "list_all2 (loaded (sg_codec (mc_storage M)) (st_precision s) (co_id c) (view (db_locations (st_dbs s)))) (in_locations old) ls"
    "co_inner C = inner_of (in_config inner) ls (in_next_id old) (in_eta old) (in_doc_next_id old)"
    using load_durable [OF K d sorted C(1)] by metis
  have k: "list_all2 (kept (st_precision s)) (in_locations old) ls"
    using ls(2) by (rule list_all2_mono) (simp add: loaded_def)
  have "records (sg_codec (mc_storage M)) (st_precision s) (co_id c) (view (db_locations (st_dbs s))) (by_id ls)"
    by (rule records_loaded [OF _ _ ls(2)]) (use d memory_ok_distinct [OF mem] in \<open>simp_all add: durable_def\<close>)
  then show "consistent M view (co_id c) s' inner'"
    using ok d inner inner_of_ok [OF kept_memory_ok(1) [OF k mem], of "in_eta old" "in_doc_next_id old"]
    by (simp add: C(2) ls(1,3) consistent_def durable_def inner_ok_def Let_def)
  show "s' = s" by (rule ls(1))
  show "same_memory (st_precision s) old inner'" "in_version inner' = in_version inner"
    using k inner by (simp_all add: C(2) ls(3) same_memory_def)
qed

locale mutation =
  fixes body :: "('r, 'db) machine \<Rightarrow> u32 \<Rightarrow> EAMInner \<Rightarrow> 'db store \<Rightarrow> 'r \<Rightarrow> 'a ending \<times> 'db store \<times> 'r"
    and pre :: "EAMInner \<Rightarrow> bool"
  assumes on_clean: "storage_ok (mc_storage M) view \<Longrightarrow> consistent M view i s inner \<Longrightarrow>
      body M i inner s rng = (Clean e, s', rng') \<Longrightarrow>
      consistent M view i s' inner \<and> st_precision s' = st_precision s"
    and on_dirty: "storage_ok (mc_storage M) view \<Longrightarrow> consistent M view i s inner \<Longrightarrow>
      pre inner \<Longrightarrow> body M i inner s rng = (Dirty e inner', s', rng') \<Longrightarrow>
      consistent M view i s' inner \<and> st_precision s' = st_precision s \<and> in_config inner' = in_config inner"
    and on_done: "storage_ok (mc_storage M) view \<Longrightarrow> consistent M view i s inner \<Longrightarrow>
      pre inner \<Longrightarrow> body M i inner s rng = (Done v inner', s', rng') \<Longrightarrow> consistent M view i s' inner'"
begin

text \<open>Whatever comes of it, the collection is sound afterwards.\<close>

lemma keeps_sound:
  assumes "storage_ok (mc_storage M) view" "sound M view c s" "pre (co_inner c)"
    and "atomic_mutation M (body M) (c, s, rng) = (r, c', s', rng')"
  shows "sound M view c' s'"
proof (cases "write_inner c")
  case (Inl e)
  then show ?thesis using assms(2,4) by (simp add: atomic_mutation_def)
next
  case (Inr inner)
  then have inner: "inner = co_inner c" "in_valid inner"
    by (auto simp: write_inner_def read_inner_def rbind_eq_Inr)
  have ok: "consistent M view (co_id c) s inner" using assms(2) inner by (simp add: sound_def)
  obtain out s1 rng1 where b: "body M (co_id c) inner s rng = (out, s1, rng1)" by (metis prod_cases3)
  show ?thesis
  proof (cases out)
    case (Clean e)
    then show ?thesis
      using assms(4) Inr b on_clean [OF assms(1) ok] inner by (auto simp: atomic_mutation_def sound_def)
  next
    case (Done v inner1)
    then show ?thesis
      using assms(3,4) Inr b on_done [OF assms(1) ok] inner by (auto simp: atomic_mutation_def sound_def)
  next
    case (Dirty e inner1)
    obtain inner2 s2 where rec: "recover M c inner1 s1 = (inner2, s2)" by fastforce
    have "consistent M view (co_id c) s1 inner" "in_config inner1 = in_config inner"
      using on_dirty [OF assms(1) ok] b Dirty inner assms(3) by auto
    from recover_consistent [OF assms(1) this rec] show ?thesis
      using assms(4) Inr b Dirty rec by (auto simp: atomic_mutation_def sound_def)
  qed
qed

text \<open>A failure leaves the memory as it was, or a collection that refuses to work.\<close>

lemma failure_rolls_back:
  assumes "storage_ok (mc_storage M) view" "consistent M view (co_id c) s (co_inner c)"
    and "atomic_mutation M (body M) (c, s, rng) = (Inl e, c', s', rng')"
    and "in_valid (co_inner c')" "pre (co_inner c)"
  shows "same_memory (st_precision s) (co_inner c) (co_inner c')"
    "consistent M view (co_id c) s' (co_inner c')"
proof -
  have refl: "same_memory p a a" for p a
    by (simp add: same_memory_def list_all2_refl kept_def)
  have "same_memory (st_precision s) (co_inner c) (co_inner c') \<and> consistent M view (co_id c) s' (co_inner c')"
  proof (cases "write_inner c")
    case (Inl e')
    then show ?thesis using assms(2,3) by (simp add: atomic_mutation_def refl)
  next
    case (Inr inner)
    then have inner: "inner = co_inner c" by (auto simp: write_inner_def read_inner_def rbind_eq_Inr)
    obtain out s1 rng1 where b: "body M (co_id c) inner s rng = (out, s1, rng1)" by (metis prod_cases3)
    show ?thesis
    proof (cases out)
      case (Clean e1)
      then show ?thesis
        using assms(3) Inr b on_clean [OF assms(1,2)] inner by (auto simp: atomic_mutation_def refl)
    next
      case (Done v inner1)
      then show ?thesis using assms(3) Inr b by (simp add: atomic_mutation_def)
    next
      case (Dirty e1 inner1)
      obtain inner2 s2 where rec: "recover M c inner1 s1 = (inner2, s2)" by fastforce
      have d: "consistent M view (co_id c) s1 inner" "st_precision s1 = st_precision s"
        "in_config inner1 = in_config inner"
        using on_dirty [OF assms(1,2)] b Dirty inner assms(5) by auto
      from recover_consistent [OF assms(1) d(1,3) rec] d(2) show ?thesis
        using assms(3,4) Inr b Dirty rec inner by (auto simp: atomic_mutation_def)
    qed
  qed
  then show "same_memory (st_precision s) (co_inner c) (co_inner c')"
    "consistent M view (co_id c) s' (co_inner c')" by simp_all
qed

end

section \<open>Writing a pattern\<close>

lemma put_locations_append:
  "put_locations M p s c (xs @ ys) = rbind (put_locations M p s c xs) (\<lambda>s. put_locations M p s c ys)"
  by (simp add: put_locations_def rfold_append)

text \<open>Storing what has changed of the memory stores the memory.\<close>

lemma put_changed:
  assumes K: "storage_ok (mc_storage M) view"
    and r: "records (sg_codec (mc_storage M)) p c (view (db_locations s)) (by_id old)"
    and new: "memory_ok d n new" and old: "distinct (map loc_id old)"
    and put: "put_locations M p s c xs = Inr s'"
    and xs: "set xs \<subseteq> set new" "\<And>l. l \<in> set new \<Longrightarrow> loc_id l \<notin> loc_id ` set xs \<Longrightarrow> l \<in> set old"
    and ids: "loc_id ` set old \<subseteq> loc_id ` set new"
  shows "records (sg_codec (mc_storage M)) p c (view (db_locations s')) (by_id new)"
    "db_metadata s' = db_metadata s" "db_documents s' = db_documents s" "db_doc_index s' = db_doc_index s"
proof -
  note dist = memory_ok_distinct [OF new]
  have stated: "\<forall>l\<in>set xs. by_id new (loc_id l) = Some l" and wf: "\<forall>l\<in>set xs. loc_wf d l"
    using xs(1) new by (auto simp: by_id_Some [OF dist] memory_ok_def)
  note P = put_locations_records [OF K put wf r stated]
  have "(if i \<in> loc_id ` set xs then by_id new i else by_id old i) = by_id new i" for i
  proof (cases "i \<in> loc_id ` set xs")
    case False
    show ?thesis
    proof (cases "by_id new i")
      case None
      then have "i \<notin> loc_id ` set old" using ids by (auto simp: by_id_None)
      then show ?thesis using False None by_id_None [of old i] by simp
    next
      case (Some l)
      then have "l \<in> set old" "loc_id l = i" using xs(2) [of l] False by (simp_all add: by_id_Some [OF dist])
      then show ?thesis using False Some by (simp add: by_id_Some [OF old])
    qed
  qed simp
  then show "records (sg_codec (mc_storage M)) p c (view (db_locations s')) (by_id new)" using P(1) by simp
  show "db_metadata s' = db_metadata s" "db_documents s' = db_documents s" "db_doc_index s' = db_doc_index s"
    by (rule P)+
qed

lemma txn_eq:
  "storage_ok K view \<Longrightarrow> write_txn K s = Inr t \<Longrightarrow> t = st_dbs s"
  "storage_ok K view \<Longrightarrow> commit K s t = Inr s' \<Longrightarrow> s' = s\<lparr>st_dbs := t\<rparr>"
  by (auto simp: write_txn_def commit_def rbind_eq_Inr dest: storage_okD(1,3))

text \<open>Room for the next location id.\<close>

abbreviation id_left :: "EAMInner \<Rightarrow> bool" where
  "id_left inner \<equiv> unat (in_next_id inner) + 1 < 2 ^ 64"

text \<open>What a write changed: the locations it modified and those it created.\<close>

lemma write_changes:
  assumes "map loc_id ls' = map loc_id ls" "set js \<subseteq> {..<length ls}" "\<And>i. i \<notin> set js \<Longrightarrow> ls' ! i = ls ! i"
  shows "set (map (\<lambda>i. ls' ! i) js @ new) \<subseteq> set (ls' @ new)"
    "l \<in> set (ls' @ new) \<Longrightarrow> loc_id l \<notin> loc_id ` set (map (\<lambda>i. ls' ! i) js @ new) \<Longrightarrow> l \<in> set ls"
    "loc_id ` set ls \<subseteq> loc_id ` set (ls' @ new)"
proof -
  have len: "length ls' = length ls" using assms(1) map_eq_imp_length_eq by metis
  show "set (map (\<lambda>i. ls' ! i) js @ new) \<subseteq> set (ls' @ new)" using assms(2) len by auto
  show "loc_id ` set ls \<subseteq> loc_id ` set (ls' @ new)" using assms(1) by (metis image_Un image_set set_append Un_upper1)
  show "l \<in> set ls" if "l \<in> set (ls' @ new)" "loc_id l \<notin> loc_id ` set (map (\<lambda>i. ls' ! i) js @ new)"
  proof -
    have "l \<in> set ls'" using that by auto
    then obtain i where i: "i < length ls" "l = ls' ! i" using len by (auto simp: in_set_conv_nth)
    then have "i \<notin> set js" using that(2) by auto
    then show ?thesis using assms(3) i by simp
  qed
qed

lemma consistent_bump: "consistent M view c s inner \<Longrightarrow> consistent M view c s (bump inner)"
  by (simp add: consistent_def bump_def durable_def inner_ok_def Let_def)

lemma bump_fields [simp]:
  "in_config (bump inner) = in_config inner" "in_locations (bump inner) = in_locations inner"
  "in_next_id (bump inner) = in_next_id inner" "in_doc_next_id (bump inner) = in_doc_next_id inner"
  "in_eta (bump inner) = in_eta inner" "in_valid (bump inner) = in_valid inner"
  "in_version (bump inner) = in_version inner + 1"
  by (simp_all add: bump_def)

lemma check_dim_Inr [simp]: "check_dim inner v = Inr u \<longleftrightarrow> length v = cfg_d (in_config inner)"
  by (simp add: check_dim_def)

lemma persist_write_durable:
  assumes K: "storage_ok (mc_storage M) view" and ok: "consistent M view c s old"
    and w: "apply_write M a k opts old rng = (r, inner, rng')"
    and dims: "length a = cfg_d (in_config old)" "length k = cfg_d (in_config old)"
    and room: "unat (in_next_id old) + 1 < 2 ^ 64" and p: "persist_write M c inner r s = Inr s'"
  shows "records (sg_codec (mc_storage M)) (st_precision s) c (view (db_locations (st_dbs s')))
      (by_id (in_locations inner @ wr_new_locations r))"
    "counters_ok (mc_storage M) c (view (db_metadata (st_dbs s'))) (in_next_id inner) (in_eta inner) (in_doc_next_id old)"
    "st_precision s' = st_precision s"
proof -
  obtain t1 t2 where t: "put_locations M (st_precision s) (st_dbs s) c
      (locations_at inner (wr_modified_indices r) @ wr_new_locations r) = Inr t1"
    "put_counters M t1 c inner = Inr t2" "s' = s\<lparr>st_dbs := t2\<rparr>"
    using p txn_eq [OF K] by (fastforce simp: persist_write_def rbind_eq_Inr put_locations_append)
  have inner_ok: "inner_ok old" "0 < cfg_d (in_config old)" and d: "durable (mc_storage M) view c s old"
    using ok by (simp_all add: consistent_def)
  note W = apply_write_ok [OF inner_ok(1) w dims inner_ok(2) room]
  note ch = write_changes [OF W(4,3,5)]
  have old: "distinct (map loc_id (in_locations old))"
    using inner_ok(1) by (auto simp: inner_ok_def Let_def intro: memory_ok_distinct)
  note P = put_changed [OF K _ W(1) old t(1) [unfolded locations_at_def] ch(1) ch(2) ch(3)]
  have P': "records (sg_codec (mc_storage M)) (st_precision s) c (view (db_locations t1)) (by_id (in_locations inner @ wr_new_locations r))"
    "db_metadata t1 = db_metadata (st_dbs s)"
    using P d by (simp_all add: durable_def)
  have "counters_ok (mc_storage M) c (view (db_metadata t1)) (in_next_id old) (in_eta old) (in_doc_next_id inner)"
    using d W(9) by (simp add: durable_def P'(2))
  from put_counters_ok [OF K t(2) this] P'(1) W(9)
  show "records (sg_codec (mc_storage M)) (st_precision s) c (view (db_locations (st_dbs s')))
      (by_id (in_locations inner @ wr_new_locations r))"
    "counters_ok (mc_storage M) c (view (db_metadata (st_dbs s'))) (in_next_id inner) (in_eta inner) (in_doc_next_id old)"
    "st_precision s' = st_precision s"
    by (simp_all add: t(3))
qed

lemma write_body_cases:
  assumes K: "storage_ok (mc_storage M) view" and ok: "consistent M view i s inner"
    and room: "unat (in_next_id inner) + 1 < 2 ^ 64"
    and b: "write_body M address counter opts i inner s rng = (out, s', rng')"
  obtains (Clean) e where "out = Clean e" "s' = s"
  | (Dirty) e inner' where "out = Dirty e inner'" "s' = s" "in_config inner' = in_config inner"
  | (Done) inner' where "out = Done () inner'" "consistent M view i s' inner'"
proof (cases "length address = cfg_d (in_config inner) \<and> length counter = cfg_d (in_config inner)")
  case False
  then show thesis
    using b Clean by (auto simp: write_body_def check_dim_def ensure_def split: if_splits)
next
  case dims: True
  obtain r inner1 rng1 where w: "apply_write M address counter opts (bump inner) rng = (r, inner1, rng1)"
    by (metis prod_cases3)
  have ok': "consistent M view i s (bump inner)" by (rule consistent_bump [OF ok])
  then have i': "inner_ok (bump inner)" "0 < cfg_d (in_config (bump inner))" by (simp_all add: consistent_def)
  have dims': "length address = cfg_d (in_config (bump inner))" "length counter = cfg_d (in_config (bump inner))"
    and room': "unat (in_next_id (bump inner)) + 1 < 2 ^ 64" using dims room by simp_all
  note W = apply_write_ok [OF i'(1) w dims' i'(2) room']
  have checks: "rbind (check_dim inner address) (\<lambda>_. check_dim inner counter) = Inr ()"
    using dims by (simp add: check_dim_def)
  show thesis
  proof (cases "persist_write M i inner1 r s")
    case (Inl e)
    then show thesis using Dirty b w checks W(8) by (auto simp: write_body_def)
  next
    case (Inr s1)
    note P = persist_write_durable [OF K ok' w dims' room' Inr]
    have mem: "memory_ok (cfg_d (in_config inner1)) (in_next_id inner1) (in_locations inner1 @ wr_new_locations r)"
      using W(1,8) by simp
    have js: "set (wr_modified_indices r) \<subseteq> {..<length (in_locations inner1)}"
      using W(3,4) map_eq_imp_length_eq by metis
    obtain synced where y: "sync_addresses (wr_modified_indices r) inner1 = Inr synced"
      "inner_ok (extend_locations (wr_new_locations r) synced)"
      "in_locations (extend_locations (wr_new_locations r) synced) = in_locations inner1 @ wr_new_locations r"
      "in_config (extend_locations (wr_new_locations r) synced) = in_config inner1"
      "in_next_id (extend_locations (wr_new_locations r) synced) = in_next_id inner1"
      "in_eta (extend_locations (wr_new_locations r) synced) = in_eta inner1"
      "in_doc_next_id (extend_locations (wr_new_locations r) synced) = in_doc_next_id inner1"
      "in_valid (extend_locations (wr_new_locations r) synced) = in_valid inner1"
      using finish_write [OF mem W(2) js] by metis
    have "consistent M view i s1 (extend_locations (wr_new_locations r) synced)"
      using y P W(8-10) ok by (simp add: consistent_def durable_def)
    then show thesis using Done b w checks Inr y(1) by (auto simp: write_body_def)
  qed
qed

interpretation write_pattern: mutation "\<lambda>M. write_body M address counter opts" id_left for address counter opts
proof
  fix M :: "('r, 'db) machine" and view i s inner rng e s' rng'
  assume "storage_ok (mc_storage M) view" "consistent M view i s inner"
    and b: "write_body M address counter opts i inner s rng = (Clean e, s', rng')"
  then show "consistent M view i s' inner \<and> st_precision s' = st_precision s"
    by (auto simp: write_body_def Let_def split: sum.splits prod.splits)
next
  fix M :: "('r, 'db) machine" and view i s inner rng e inner' s' rng'
  assume K: "storage_ok (mc_storage M) view" and ok: "consistent M view i s inner"
    and "unat (in_next_id inner) + 1 < 2 ^ 64"
    "write_body M address counter opts i inner s rng = (Dirty e inner', s', rng')"
  from K ok this(3,4)
  show "consistent M view i s' inner \<and> st_precision s' = st_precision s \<and> in_config inner' = in_config inner"
    by (cases rule: write_body_cases) (simp_all add: ok)
next
  fix M :: "('r, 'db) machine" and view i s inner rng v inner' s' rng'
  assume "storage_ok (mc_storage M) view" "consistent M view i s inner" "unat (in_next_id inner) + 1 < 2 ^ 64"
    "write_body M address counter opts i inner s rng = (Done v inner', s', rng')"
  then show "consistent M view i s' inner'"
    by (cases rule: write_body_cases) simp_all
qed

section \<open>Writing a document\<close>

lemma put_document_fields:
  assumes "storage_ok K view" "put_document K s c i v = Inr s'"
  shows "view (db_documents s') = (view (db_documents s))(document_key c i \<mapsto> v)"
    "db_locations s' = db_locations s" "db_metadata s' = db_metadata s" "db_doc_index s' = db_doc_index s"
  using assms(2) storage_okD(5) [OF assms(1)] by (auto simp: put_document_def rbind_eq_Inr)

lemma append_doc_fields:
  assumes "append_doc_to_location K s c i d = Inr s'"
  shows "db_locations s' = db_locations s" "db_metadata s' = db_metadata s" "db_documents s' = db_documents s"
  using assms by (auto simp: append_doc_to_location_def put_doc_index_entry_def rbind_eq_Inr)

lemma append_doc_postings:
  assumes K: "storage_ok K view" and a: "append_doc_to_location K s c i d = Inr s'"
  shows "\<exists>ids. postings K view s c i = Inr ids \<and> postings K view s' c i = Inr (ids @ [d])"
    "j \<noteq> i \<Longrightarrow> postings K view s' c j = postings K view s c j"
  using a get_postings [OF K] put_postings [OF K] by (auto simp: append_doc_to_location_def rbind_eq_Inr)

definition posted ::
  "'db storage \<Rightarrow> ('db \<Rightarrow> bytes \<Rightarrow> bytes option) \<Rightarrow> 'db dbs \<Rightarrow> u32 \<Rightarrow> u64 \<Rightarrow> u64 \<Rightarrow> bool" where
  "posted K view s c i d \<longleftrightarrow> (\<exists>ids. postings K view s c i = Inr ids \<and> d \<in> set ids)"

lemma append_docs_all:
  assumes K: "storage_ok K view" and a: "rfold (\<lambda>s l. append_doc_to_location K s c l d) s ls = Inr s'"
  shows "db_locations s' = db_locations s" "db_metadata s' = db_metadata s" "db_documents s' = db_documents s"
    "\<forall>l\<in>set ls. posted K view s' c l d"
proof -
  have "db_locations s' = db_locations s \<and> db_metadata s' = db_metadata s \<and> db_documents s' = db_documents s \<and>
      (\<forall>l. l \<in> set ls \<or> posted K view s c l d \<longrightarrow> posted K view s' c l d)"
    using a
  proof (induction ls arbitrary: s)
    case Nil
    then show ?case by simp
  next
    case (Cons l ls)
    obtain s1 where s1: "append_doc_to_location K s c l d = Inr s1"
      "rfold (\<lambda>s l. append_doc_to_location K s c l d) s1 ls = Inr s'"
      using Cons.prems by (auto simp: rbind_eq_Inr)
    have "posted K view s1 c l d" and "posted K view s c j d \<Longrightarrow> posted K view s1 c j d" for j
      using append_doc_postings [OF K s1(1)] by (auto simp: posted_def) (metis Un_iff set_append sum.inject(2))
    then show ?case using Cons.IH [OF s1(2)] append_doc_fields [OF s1(1)] by auto
  qed
  then show "db_locations s' = db_locations s" "db_metadata s' = db_metadata s" "db_documents s' = db_documents s"
    "\<forall>l\<in>set ls. posted K view s' c l d" by simp_all
qed

lemma persist_document_durable:
  assumes K: "storage_ok (mc_storage M) view" and ok: "consistent M view c s old"
    and w: "apply_write M a a opts old rng = (r, inner, rng')"
    and dims: "length a = cfg_d (in_config old)"
    and room: "unat (in_next_id old) + 1 < 2 ^ 64"
    and p: "persist_document M c (inner\<lparr>in_doc_next_id := k\<rparr>) r doc_id a metadata s = Inr s'"
  shows "records (sg_codec (mc_storage M)) (st_precision s) c (view (db_locations (st_dbs s')))
      (by_id (in_locations inner @ wr_new_locations r))"
    "counters_ok (mc_storage M) c (view (db_metadata (st_dbs s'))) (in_next_id inner) (in_eta inner) k"
    "st_precision s' = st_precision s"
    "\<exists>data. document_data M s inner r a metadata = Inr data \<and>
       view (db_documents (st_dbs s')) = (view (db_documents (st_dbs s)))(document_key c doc_id \<mapsto> data)"
    "\<forall>l\<in>set (activated_ids inner r). posted (mc_storage M) view (st_dbs s') c l doc_id"
proof -
  let ?K = "mc_storage M" and ?i = "inner\<lparr>in_doc_next_id := k\<rparr>"
  have same: "locations_at ?i = locations_at inner" "document_data M s ?i = document_data M s inner"
    "activated_ids ?i = activated_ids inner"
    by (simp_all add: fun_eq_iff locations_at_def document_data_def activated_ids_def)
  obtain t1 data t2 t3 t4 where t: "put_locations M (st_precision s) (st_dbs s) c
      (locations_at inner (wr_modified_indices r) @ wr_new_locations r) = Inr t1"
    "document_data M s inner r a metadata = Inr data" "put_document ?K t1 c doc_id data = Inr t2"
    "rfold (\<lambda>t l. append_doc_to_location ?K t c l doc_id) t2 (activated_ids inner r) = Inr t3"
    "put_doc_counters M t3 c ?i = Inr t4" "s' = s\<lparr>st_dbs := t4\<rparr>"
    using p txn_eq [OF K] unfolding persist_document_def Let_def same
    by (fastforce simp: rbind_eq_Inr put_locations_append)
  have inner_ok: "inner_ok old" "0 < cfg_d (in_config old)" and d: "durable ?K view c s old"
    using ok by (simp_all add: consistent_def)
  note W = apply_write_ok [OF inner_ok(1) w dims dims inner_ok(2) room]
  note ch = write_changes [OF W(4,3,5)]
  have old: "distinct (map loc_id (in_locations old))"
    using inner_ok(1) by (auto simp: inner_ok_def Let_def intro: memory_ok_distinct)
  note P = put_changed [OF K _ W(1) old t(1) [unfolded locations_at_def] ch(1) ch(2) ch(3)]
  have P1: "records (sg_codec ?K) (st_precision s) c (view (db_locations t1)) (by_id (in_locations inner @ wr_new_locations r))"
    and P2: "db_metadata t1 = db_metadata (st_dbs s)" "db_documents t1 = db_documents (st_dbs s)"
    using P d by (simp_all add: durable_def)
  note D = put_document_fields [OF K t(3)] and A = append_docs_all [OF K t(4)]
  have "counters_ok ?K c (view (db_metadata t3)) (in_next_id old) (in_eta old) (in_doc_next_id old)"
    using d by (simp add: durable_def P2 D A)
  note C = put_doc_counters_ok [OF K t(5) this]
  show "records (sg_codec ?K) (st_precision s) c (view (db_locations (st_dbs s')))
      (by_id (in_locations inner @ wr_new_locations r))" "st_precision s' = st_precision s"
    "counters_ok ?K c (view (db_metadata (st_dbs s'))) (in_next_id inner) (in_eta inner) k"
    using P1 C by (simp_all add: t(6) D A)
  show "\<exists>data. document_data M s inner r a metadata = Inr data \<and>
       view (db_documents (st_dbs s')) = (view (db_documents (st_dbs s)))(document_key c doc_id \<mapsto> data)"
    using t(2) D(1) by (simp add: t(6) C A P2)
  show "\<forall>l\<in>set (activated_ids inner r). posted ?K view (st_dbs s') c l doc_id"
    using A(4) by (simp add: t(6) posted_def postings_def C)
qed

lemma location_address_ok:
  assumes "inner_ok inner" "l \<in> set (in_locations inner)" "length (in_locations inner) < 2 ^ 32"
  shows "location_address inner (loc_id l) = Some (loc_address l)"
proof -
  obtain j where j: "j < length (in_locations inner)" "l = in_locations inner ! j"
    using assms(2) by (auto simp: in_set_conv_nth)
  then have u: "unat (of_nat j :: u32) = j" using assms(3) by (simp add: unat_of_nat)
  have "unat (loc_id l) < length (in_id_lookup inner)" "in_id_lookup inner ! unat (loc_id l) = of_nat j"
    using assms(1) j by (auto simp: inner_ok_def lookup_ok_def Let_def)
  then show ?thesis using j by (simp add: location_address_def Let_def u)
qed

lemma document_data_resolves:
  assumes "document_data M s inner r a metadata = Inr data" "inner_ok inner'"
    and "set (wr_new_locations r) \<subseteq> set (in_locations inner')" "length (in_locations inner') < 2 ^ 32"
  shows "\<exists>v. resolve_document M q inner' data = Ok (v, metadata) \<and>
     (v = stored_vector (st_precision s) a \<or> vec_feq v a)"
proof (cases "plain_location (in_config inner) (wr_modified_indices r) (wr_new_locations r) a")
  case None
  then show ?thesis
    using assms(1) decode_encode_document(1)
    by (simp add: document_data_def resolve_document_def)
next
  case (Some i)
  then obtain l where l: "wr_new_locations r = [l]" "loc_id l = i" "vec_feq (loc_address l) a"
    by (auto simp: plain_location_def split: list.splits if_splits)
  then have "location_address inner' i = Some (loc_address l)"
    using location_address_ok [OF assms(2) _ assms(4), of l] assms(3) by simp
  then show ?thesis
    using assms(1) Some l decode_encode_document_ref
    by (simp add: document_data_def resolve_document_def)
qed

lemma write_touches:
  assumes "apply_write M a k opts inner rng = (r, inner', rng')" "a \<noteq> []"
  shows "wr_modified_indices r \<noteq> [] \<or> wr_new_locations r \<noteq> []"
proof -
  obtain ls' nid' where e: "adaptive_write_two (mc_libm M) (mc_normal M) a k (in_locations inner) (in_config inner)
      (in_eta inner) (in_next_id inner) rng (write_scan (in_matrix32 inner) (in_max_norm inner)) opts = (r, ls', nid', rng')"
    using assms(1) by (auto simp: apply_write_def Let_def split: prod.splits)
  show ?thesis by (cases rule: adaptive_write_two_cases [OF e assms(2)]) simp_all
qed

text \<open>A stored document: its vector and metadata as they resolve, and where it is posted.\<close>

definition stored_document ::
  "('r, 'db) machine \<Rightarrow> ('db \<Rightarrow> bytes \<Rightarrow> bytes option) \<Rightarrow> u32 \<Rightarrow> 'db store \<Rightarrow> EAMInner \<Rightarrow>
   u64 \<Rightarrow> f64 list \<Rightarrow> bytes \<Rightarrow> bool" where
  "stored_document M view i s inner doc_id v metadata \<longleftrightarrow>
     (\<exists>data. view (db_documents (st_dbs s)) (document_key i doc_id) = Some data \<and>
        resolve_document M (st_precision s) inner data = Ok (v, metadata)) \<and>
     (\<exists>l\<in>set (in_locations inner). posted (mc_storage M) view (st_dbs s) i (loc_id l) doc_id)"

lemma document_body_cases:
  assumes K: "storage_ok (mc_storage M) view" and ok: "consistent M view i s inner"
    and room: "unat (in_next_id inner) + 1 < 2 ^ 64"
    and b: "document_body M input metadata i inner s rng = (out, s', rng')"
  obtains (Clean) e where "out = Clean e" "s' = s"
  | (Dirty) e inner' where "out = Dirty e inner'" "s' = s" "in_config inner' = in_config inner"
  | (Done) inner' where "out = Done (in_doc_next_id inner) inner'" "consistent M view i s' inner'"
      "in_doc_next_id inner' = in_doc_next_id inner + 1"
      "length (in_locations inner') < 2 ^ 32 \<Longrightarrow>
       \<exists>v. stored_document M view i s' inner' (in_doc_next_id inner) v metadata \<and>
         (v = stored_vector (st_precision s) input \<or> vec_feq v input)"
proof (cases "length input = cfg_d (in_config inner)")
  case False
  then show thesis
    using b Clean by (auto simp: document_body_def check_dim_def ensure_def split: if_splits)
next
  case dim: True
  obtain r inner1 rng1 where w: "apply_write M input input WriteOpts_default (bump inner) rng = (r, inner1, rng1)"
    by (metis prod_cases3)
  have ok': "consistent M view i s (bump inner)" by (rule consistent_bump [OF ok])
  then have i': "inner_ok (bump inner)" "0 < cfg_d (in_config (bump inner))" by (simp_all add: consistent_def)
  have dim': "length input = cfg_d (in_config (bump inner))"
    and room': "unat (in_next_id (bump inner)) + 1 < 2 ^ 64" using dim room by simp_all
  note W = apply_write_ok [OF i'(1) w dim' dim' i'(2) room']
  let ?k = "in_doc_next_id inner" let ?in2 = "inner1\<lparr>in_doc_next_id := ?k + 1\<rparr>"
  have check: "check_dim inner input = Inr ()" using dim by simp
  have docs: "in_doc_next_id inner1 = ?k" using W(9) by simp
  show thesis
  proof (cases "persist_document M i ?in2 r ?k input metadata s")
    case (Inl e)
    then show thesis using Dirty b w check W(8) docs by (auto simp: document_body_def Let_def)
  next
    case (Inr s1)
    note P = persist_document_durable [OF K ok' w dim' room' Inr]
    have mem: "memory_ok (cfg_d (in_config ?in2)) (in_next_id ?in2) (in_locations ?in2 @ wr_new_locations r)"
      using W(1,8) by simp
    have len: "length (in_locations inner1) = length (in_locations inner)"
      using W(4) map_eq_imp_length_eq by fastforce
    have js: "set (wr_modified_indices r) \<subseteq> {..<length (in_locations ?in2)}" using W(3) len by simp
    have caches: "caches_ok (set (wr_modified_indices r)) ?in2" using W(2) by (simp add: caches_ok_def Let_def)
    let ?new = "wr_new_locations r"
    obtain synced where y: "sync_addresses (wr_modified_indices r) ?in2 = Inr synced"
      "inner_ok (extend_locations ?new synced)"
      "in_locations (extend_locations ?new synced) = in_locations inner1 @ ?new"
      "in_config (extend_locations ?new synced) = in_config inner1"
      "in_next_id (extend_locations ?new synced) = in_next_id inner1"
      "in_eta (extend_locations ?new synced) = in_eta inner1"
      "in_doc_next_id (extend_locations ?new synced) = ?k + 1"
      "in_valid (extend_locations ?new synced) = in_valid inner1"
      by (rule finish_write [OF mem caches js]) (simp_all add: that)
    let ?in3 = "extend_locations ?new synced"
    have cons: "consistent M view i s1 ?in3"
      using y P W(8-10) ok by (simp add: consistent_def durable_def)
    have found: "\<exists>v. stored_document M view i s1 ?in3 ?k v metadata \<and>
         (v = stored_vector (st_precision s) input \<or> vec_feq v input)" if len3: "length (in_locations ?in3) < 2 ^ 32"
    proof -
      obtain data where data: "document_data M s inner1 r input metadata = Inr data"
        "view (db_documents (st_dbs s1)) (document_key i ?k) = Some data"
        using P(4) by auto
      have "set ?new \<subseteq> set (in_locations ?in3)" by (simp add: y(3))
      from document_data_resolves [OF data(1) y(2) this len3]
      obtain v where v: "resolve_document M (st_precision s1) ?in3 data = Ok (v, metadata)"
        "v = stored_vector (st_precision s) input \<or> vec_feq v input" by blast
      have "input \<noteq> []" using dim' i'(2) by auto
      then have "activated_ids inner1 r \<noteq> []"
        using write_touches [OF w] by (auto simp: activated_ids_def locations_at_def)
      moreover have "set (activated_ids inner1 r) \<subseteq> loc_id ` set (in_locations ?in3)"
        using js by (auto simp: activated_ids_def locations_at_def y(3))
      moreover note P(5)
      ultimately have "\<exists>l\<in>set (in_locations ?in3). posted (mc_storage M) view (st_dbs s1) i (loc_id l) ?k"
        by (cases "activated_ids inner1 r") auto
      then show ?thesis using v data(2) unfolding stored_document_def by blast
    qed
    have out: "out = Done ?k ?in3" and s1: "s' = s1"
      using b w check Inr y(1) docs by (simp_all add: document_body_def Let_def)
    show thesis by (rule Done [OF out]) (use cons y(7) found in \<open>simp_all add: s1\<close>)
  qed
qed

interpretation write_document: mutation "\<lambda>M. document_body M input metadata" id_left for input metadata
proof
  fix M :: "('r, 'db) machine" and view i s inner rng e s' rng'
  assume "storage_ok (mc_storage M) view" "consistent M view i s inner"
    and b: "document_body M input metadata i inner s rng = (Clean e, s', rng')"
  then show "consistent M view i s' inner \<and> st_precision s' = st_precision s"
    by (auto simp: document_body_def Let_def split: sum.splits prod.splits)
next
  fix M :: "('r, 'db) machine" and view i s inner rng e inner' s' rng'
  assume K: "storage_ok (mc_storage M) view" and ok: "consistent M view i s inner"
    and "unat (in_next_id inner) + 1 < 2 ^ 64"
    "document_body M input metadata i inner s rng = (Dirty e inner', s', rng')"
  from K ok this(3,4)
  show "consistent M view i s' inner \<and> st_precision s' = st_precision s \<and> in_config inner' = in_config inner"
    by (cases rule: document_body_cases) (simp_all add: ok)
next
  fix M :: "('r, 'db) machine" and view i s inner rng v inner' s' rng'
  assume "storage_ok (mc_storage M) view" "consistent M view i s inner" "unat (in_next_id inner) + 1 < 2 ^ 64"
    "document_body M input metadata i inner s rng = (Done v inner', s', rng')"
  then show "consistent M view i s' inner'"
    by (cases rule: document_body_cases) simp_all
qed

end
