(* ===== verification/Collection_Sound.thy ===== *)
theory Collection_Sound
  imports Collection_Durable
begin

text \<open>
  The state invariant of collection.rs over the whole life of a collection: creation
  establishes it, every write and every snapshot keeps it, and so does compression;
  reloading gives the same memory. The two exceptions are \<open>merge\<close> and \<open>write_batch\<close>, which
  leave locations in the store in an earlier state than in memory.
\<close>

section \<open>Creation\<close>

definition fresh_scope ::
  "('db \<Rightarrow> bytes \<Rightarrow> bytes option) \<Rightarrow> u32 \<Rightarrow> 'db store \<Rightarrow> bool" where
  "fresh_scope view i s \<longleftrightarrow>
     (\<forall>b. prefix (collection_prefix i) b \<longrightarrow>
        view (db_locations (st_dbs s)) b = None \<and> view (db_metadata (st_dbs s)) b = None)"

text \<open>The locations of a new collection.\<close>

definition seeds :: "('r \<Rightarrow> f64 \<times> 'r) \<Rightarrow> nat \<Rightarrow> nat \<Rightarrow> 'r \<Rightarrow> HardLocation list \<times> 'r" where
  "seeds normal d k rng =
     foldl (\<lambda>(ls, rng) n.
            let (addr, rng) = random_unit_vector normal d rng
            in (ls @ [HardLocation_new (of_nat n) addr], rng)) ([], rng) [0..<k]"

lemma seeds_wf:
  "seeds normal d k rng = (ls, rng') \<Longrightarrow>
   map loc_id ls = map of_nat [0..<k] \<and> (\<forall>l\<in>set ls. loc_wf d l)"
proof (induction k arbitrary: ls rng')
  case 0
  then show ?case by (simp add: seeds_def)
next
  case (Suc k)
  obtain ls1 rng1 where one: "seeds normal d k rng = (ls1, rng1)" by fastforce
  obtain addr rng2 where two: "random_unit_vector normal d rng1 = (addr, rng2)" by fastforce
  have "length addr = d" using length_random_unit_vector [of normal d rng1] two by simp
  moreover have "ls = ls1 @ [HardLocation_new (of_nat k) addr]"
    using Suc.prems one two by (simp add: seeds_def)
  ultimately show ?case using Suc.IH [OF one] by (auto simp: HardLocation_new_def loc_wf_def)
qed

lemma seeds_memory_ok:
  assumes "seeds normal d k rng = (ls, rng')" "k < 2 ^ 64"
  shows "memory_ok d (of_nat k) ls"
proof -
  have lt: "(of_nat i :: u64) < of_nat j" if "i < j" "j \<le> k" for i j
    using that assms(2) by (simp add: word_less_nat_alt unat_of_nat)
  have "sorted_wrt (<) (map (of_nat :: nat \<Rightarrow> u64) [0..<k])"
    by (auto simp: sorted_wrt_iff_nth_less intro: lt)
  moreover have "loc_id l < of_nat k" if "l \<in> set ls" for l
  proof -
    have "loc_id l \<in> set (map of_nat [0..<k])" using seeds_wf [OF assms(1)] that by (metis image_eqI list.set_map)
    then show ?thesis by (auto intro: lt)
  qed
  ultimately show ?thesis using seeds_wf [OF assms(1)] by (simp add: memory_ok_def)
qed

lemma Collection_new_consistent:
  assumes K: "storage_ok (mc_storage M) view" and fresh: "fresh_scope view i s"
    and d: "0 < cfg_d c" and l0: "cfg_l_0 c < 2 ^ 64"
    and new: "Collection_new M i name s c rng = (Inr (C, s'), rng')"
  shows "consistent M view i s' (co_inner C)" "co_id C = i" "\<not> co_poisoned C"
    "in_doc_next_id (co_inner C) = 0" "in_next_id (co_inner C) = of_nat (cfg_l_0 c)"
    "length (in_locations (co_inner C)) = cfg_l_0 c"
proof -
  let ?K = "mc_storage M"
  obtain ls rng1 where seeds: "seeds (mc_normal M) (cfg_d c) (cfg_l_0 c) rng = (ls, rng1)" by fastforce
  obtain t1 t2 t3 t4 where t: "put_locations M (st_precision s) (st_dbs s) i ls = Inr t1"
    "put_u64 M t1 i ''next_id'' (of_nat (cfg_l_0 c)) = Inr t2" "put_eta M t2 i (cfg_eta_0 c) = Inr t3"
    "put_u64 M t3 i ''config_d'' (of_nat (cfg_d c)) = Inr t4" "s' = s\<lparr>st_dbs := t4\<rparr>"
    "C = \<lparr>co_id = i, co_name = name,
       co_inner = inner_of c ls (of_nat (cfg_l_0 c)) (cfg_eta_0 c) 0, co_poisoned = False\<rparr>"
    using new seeds txn_eq [OF K] unfolding Collection_new_def seeds_def [symmetric]
    by (fastforce simp: Let_def rbind_eq_Inr)
  note mem = seeds_memory_ok [OF seeds l0]
  have none: "records (sg_codec ?K) (st_precision s) i (view (db_locations (st_dbs s))) (by_id [])"
    using fresh by (simp add: records_def fresh_scope_def by_id_def)
  note P = put_changed [OF K none mem _ t(1)]
  have locs: "records (sg_codec ?K) (st_precision s) i (view (db_locations t1)) (by_id ls)"
    "db_metadata t1 = db_metadata (st_dbs s)"
    using P by auto
  obtain b2 D2 where two: "t2 = t1\<lparr>db_metadata := D2\<rparr>" "sg_de_u64 ?K b2 = Inr (of_nat (cfg_l_0 c))"
    "view D2 = (view (db_metadata t1))(metadata_key i (ascii ''next_id'') \<mapsto> b2)"
    using put_u64_view [OF K t(2)] .
  obtain b3 D3 where three: "t3 = t2\<lparr>db_metadata := D3\<rparr>" "sg_de_f64 ?K b3 = Inr (cfg_eta_0 c)"
    "view D3 = (view (db_metadata t2))(metadata_key i (ascii ''eta'') \<mapsto> b3)"
    using put_eta_view [OF K t(3)] .
  obtain b4 D4 where four: "t4 = t3\<lparr>db_metadata := D4\<rparr>"
    "view D4 = (view (db_metadata t3))(metadata_key i (ascii ''config_d'') \<mapsto> b4)"
    using put_u64_view [OF K t(4)] .
  have "view (db_metadata (st_dbs s)) (metadata_key i (ascii ''doc_next_id'')) = None"
    using fresh by (simp add: fresh_scope_def)
  then have "counters_ok ?K i (view (db_metadata t4)) (of_nat (cfg_l_0 c)) (cfg_eta_0 c) 0"
    using two three four locs(2) counter_keys [of i] counter_keys [of i, symmetric]
    by (simp add: counters_ok_def counter_is_def)
  then show "consistent M view i s' (co_inner C)"
    using inner_of_ok [OF mem] locs(1) d two(1) three(1) four(1)
    by (simp add: consistent_def durable_def t(5,6))
  have "length ls = cfg_l_0 c" using seeds_wf [OF seeds] by (metis length_map length_upt minus_nat.diff_0)
  then show "co_id C = i" "\<not> co_poisoned C" "in_doc_next_id (co_inner C) = 0"
    "in_next_id (co_inner C) = of_nat (cfg_l_0 c)" "length (in_locations (co_inner C)) = cfg_l_0 c"
    by (simp_all add: t(6))
qed

section \<open>Turning references into copies\<close>

lemma put_documents_fields:
  assumes "storage_ok (mc_storage M) view" "put_documents M s c docs = Inr s'"
  shows "db_locations s' = db_locations s" "db_metadata s' = db_metadata s" "db_doc_index s' = db_doc_index s"
proof -
  have "db_locations s' = db_locations s \<and> db_metadata s' = db_metadata s \<and> db_doc_index s' = db_doc_index s"
    using assms(2) unfolding put_documents_def
    by (rule rfold_invariant) (auto dest: put_document_fields [OF assms(1)])
  then show "db_locations s' = db_locations s" "db_metadata s' = db_metadata s" "db_doc_index s' = db_doc_index s"
    by simp_all
qed

lemma materialize_fields:
  assumes K: "storage_ok (mc_storage M) view" and m: "materialize_document_refs M i inner s = Inr (n, s')"
  shows "db_locations (st_dbs s') = db_locations (st_dbs s)" "db_metadata (st_dbs s') = db_metadata (st_dbs s)"
    "db_doc_index (st_dbs s') = db_doc_index (st_dbs s)" "st_precision s' = st_precision s"
proof -
  obtain docs rewritten skipped where r: "list_documents (mc_storage M) s i = Inr docs"
    "materialized M (st_precision s) inner (st_skipped s) docs = Inr (rewritten, skipped)"
    using m by (auto simp: materialize_document_refs_def Let_def rbind_eq_Inr)
  have "db_locations (st_dbs s') = db_locations (st_dbs s) \<and> db_metadata (st_dbs s') = db_metadata (st_dbs s) \<and>
      db_doc_index (st_dbs s') = db_doc_index (st_dbs s) \<and> st_precision s' = st_precision s"
  proof (cases "rewritten = []")
    case True
    then show ?thesis using m r by (auto simp: materialize_document_refs_def Let_def)
  next
    case False
    obtain t where t: "put_documents M (st_dbs s) i rewritten = Inr t" "s' = s\<lparr>st_skipped := skipped, st_dbs := t\<rparr>"
      using m r False txn_eq [OF K]
      by (fastforce simp: materialize_document_refs_def Let_def rbind_eq_Inr)
    show ?thesis using put_documents_fields [OF K t(1)] by (simp add: t(2))
  qed
  then show "db_locations (st_dbs s') = db_locations (st_dbs s)" "db_metadata (st_dbs s') = db_metadata (st_dbs s)"
    "db_doc_index (st_dbs s') = db_doc_index (st_dbs s)" "st_precision s' = st_precision s"
    by simp_all
qed

lemma materialize_consistent:
  assumes K: "storage_ok (mc_storage M) view" and ok: "consistent M view i s inner"
    and m: "materialize_document_refs M i inner s = Inr (n, s')"
  shows "consistent M view i s' inner" "st_precision s' = st_precision s"
    "db_doc_index (st_dbs s') = db_doc_index (st_dbs s)"
  using ok materialize_fields [OF K m] by (simp_all add: consistent_def durable_def)

section \<open>Loading a snapshot\<close>

lemma delete_locations_records:
  assumes K: "storage_ok K view"
    and r: "records (sg_codec K) p c (view (db_locations s)) t"
    and d: "rfold (\<lambda>s l. delete_location K s c (loc_id l)) s old = Inr s'"
  shows "records (sg_codec K) p c (view (db_locations s')) (\<lambda>i. if i \<in> loc_id ` set old then None else t i)"
    "db_metadata s' = db_metadata s" "db_documents s' = db_documents s" "db_doc_index s' = db_doc_index s"
proof -
  have "records (sg_codec K) p c (view (db_locations s')) (\<lambda>i. if i \<in> loc_id ` set old then None else t i) \<and>
      db_metadata s' = db_metadata s \<and> db_documents s' = db_documents s \<and> db_doc_index s' = db_doc_index s"
    using d r
  proof (induction old arbitrary: s t)
    case Nil
    then show ?case by simp
  next
    case (Cons l old)
    obtain s1 where s1: "delete_location K s c (loc_id l) = Inr s1"
      "rfold (\<lambda>s l. delete_location K s c (loc_id l)) s1 old = Inr s'"
      using Cons.prems(1) by (auto simp: rbind_eq_Inr)
    note one = delete_location_records [OF K s1(1) Cons.prems(2)]
    have "(\<lambda>i. if i \<in> loc_id ` set old then None else (t(loc_id l := None)) i) =
        (\<lambda>i. if i \<in> loc_id ` set (l # old) then None else t i)" by auto
    with Cons.IH [OF s1(2) one(1)] one(2-4) show ?case by simp
  qed
  then show "records (sg_codec K) p c (view (db_locations s')) (\<lambda>i. if i \<in> loc_id ` set old then None else t i)"
    "db_metadata s' = db_metadata s" "db_documents s' = db_documents s" "db_doc_index s' = db_doc_index s"
    by simp_all
qed

text \<open>Storing all of a memory over records of fewer ids.\<close>

lemma put_all:
  assumes K: "storage_ok (mc_storage M) view"
    and r: "records (sg_codec (mc_storage M)) p c (view (db_locations s)) t"
    and new: "memory_ok d n new" and put: "put_locations M p s c new = Inr s'"
    and t: "\<And>i. i \<notin> loc_id ` set new \<Longrightarrow> t i = None"
  shows "records (sg_codec (mc_storage M)) p c (view (db_locations s')) (by_id new)"
    "db_metadata s' = db_metadata s" "db_documents s' = db_documents s" "db_doc_index s' = db_doc_index s"
proof -
  have stated: "\<forall>l\<in>set new. by_id new (loc_id l) = Some l" and wf: "\<forall>l\<in>set new. loc_wf d l"
    using new by (auto simp: by_id_Some [OF memory_ok_distinct [OF new]] memory_ok_def)
  note P = put_locations_records [OF K put wf r stated]
  have "(\<lambda>i. if i \<in> loc_id ` set new then by_id new i else t i) = by_id new"
    by (rule ext) (use t by_id_None [of new] in \<open>simp add: eq_commute [of None]\<close>)
  then show "records (sg_codec (mc_storage M)) p c (view (db_locations s')) (by_id new)" using P(1) by simp
  show "db_metadata s' = db_metadata s" "db_documents s' = db_documents s" "db_doc_index s' = db_doc_index s"
    by (rule P)+
qed

lemma rebuild_graph_cache_fields [simp]:
  "in_locations (rebuild_graph_cache inner) = in_locations inner"
  "in_config (rebuild_graph_cache inner) = in_config inner"
  "in_next_id (rebuild_graph_cache inner) = in_next_id inner" "in_eta (rebuild_graph_cache inner) = in_eta inner"
  "in_doc_next_id (rebuild_graph_cache inner) = in_doc_next_id inner"
  "in_valid (rebuild_graph_cache inner) = in_valid inner"
  "in_version (rebuild_graph_cache inner) = in_version inner"
  by (simp_all add: rebuild_graph_cache_def rebuild_address_matrix_def Let_def case_prod_beta)

lemma rebuild_graph_cache_ok:
  assumes m: "memory_ok (cfg_d (in_config inner)) (in_next_id inner) (in_locations inner)"
  shows "inner_ok (rebuild_graph_cache inner)"
proof -
  let ?ls = "in_locations inner" and ?d = "cfg_d (in_config inner)"
  have lens: "\<forall>v\<in>set (addresses ?ls). length v = ?d" using m by (auto simp: memory_ok_def loc_wf_def)
  have "lookup_ok ?ls (build_id_lookup ?ls)" by (rule build_id_lookup_ok [OF memory_ok_distinct [OF m]])
  moreover have "rows_ok ?d id (addresses ?ls) (concat (addresses ?ls)) {}"
    "rows_ok ?d to_f32 (addresses ?ls) (concat (map to_f32 (addresses ?ls))) {}"
    using rows_ok_concat [of "addresses ?ls" id] rows_ok_concat [of "addresses ?ls" to_f32] lens by simp_all
  ultimately show ?thesis
    using m by (auto simp: inner_ok_def rebuild_graph_cache_def rebuild_address_matrix_def f32_rows_def o_def
        Let_def dest: select_landmarks_range)
qed

lemma persist_snapshot_durable:
  assumes K: "storage_ok (mc_storage M) view" and ok: "consistent M view c s old"
    and new: "memory_ok d next_id locations"
    and p: "persist_snapshot M c (in_locations old) locations next_id d' s = Inr s'"
  shows "records (sg_codec (mc_storage M)) (st_precision s) c (view (db_locations (st_dbs s'))) (by_id locations)"
    "counters_ok (mc_storage M) c (view (db_metadata (st_dbs s'))) next_id (in_eta old) (in_doc_next_id old)"
    "st_precision s' = st_precision s"
proof -
  let ?K = "mc_storage M"
  obtain t1 t2 t3 t4 where t:
    "rfold (\<lambda>s l. delete_location ?K s c (loc_id l)) (st_dbs s) (in_locations old) = Inr t1"
    "put_locations M (st_precision s) t1 c locations = Inr t2" "put_u64 M t2 c ''next_id'' next_id = Inr t3"
    "put_u64 M t3 c ''config_d'' (of_nat d') = Inr t4" "s' = s\<lparr>st_dbs := t4\<rparr>"
    using p txn_eq [OF K] by (fastforce simp: persist_snapshot_def Let_def rbind_eq_Inr)
  have d: "durable ?K view c s old" using ok by (simp add: consistent_def)
  then have "records (sg_codec ?K) (st_precision s) c (view (db_locations (st_dbs s))) (by_id (in_locations old))"
    by (simp add: durable_def)
  note D = delete_locations_records [OF K this t(1)]
  note P = put_all [OF K D(1) new t(2)]
  have P': "records (sg_codec ?K) (st_precision s) c (view (db_locations t2)) (by_id locations)"
    "db_metadata t2 = db_metadata (st_dbs s)"
    using P by_id_None [of "in_locations old"] D(2) by auto
  obtain b3 D3 where three: "t3 = t2\<lparr>db_metadata := D3\<rparr>" "sg_de_u64 ?K b3 = Inr next_id"
    "view D3 = (view (db_metadata t2))(metadata_key c (ascii ''next_id'') \<mapsto> b3)"
    using put_u64_view [OF K t(3)] .
  obtain b4 D4 where four: "t4 = t3\<lparr>db_metadata := D4\<rparr>"
    "view D4 = (view (db_metadata t3))(metadata_key c (ascii ''config_d'') \<mapsto> b4)"
    using put_u64_view [OF K t(4)] .
  show "counters_ok ?K c (view (db_metadata (st_dbs s'))) next_id (in_eta old) (in_doc_next_id old)"
    using d three four P'(2) counter_keys [of c] counter_keys [of c, symmetric]
    by (simp add: durable_def counters_ok_def counter_is_def t(5))
  show "records (sg_codec ?K) (st_precision s) c (view (db_locations (st_dbs s'))) (by_id locations)"
    "st_precision s' = st_precision s"
    using P'(1) three(1) four(1) by (simp_all add: t(5))
qed

lemma snapshot_body_cases:
  assumes K: "storage_ok (mc_storage M) view" and ok: "consistent M view i s inner"
    and b: "snapshot_body M name locations cfg expected i inner s rng = (out, s', rng')"
  obtains (Clean) e where "out = Clean e" "s' = s"
  | (Dirty) e where "out = Dirty e (bump inner)" "consistent M view i s' inner" "st_precision s' = st_precision s"
  | (Done) inner' where "out = Done () inner'" "in_locations inner' = locations" "in_config inner' = cfg"
      "in_version inner' = in_version inner + 1" "case expected of None \<Rightarrow> True | Some v \<Rightarrow> in_version inner = v"
      "memory_ok (cfg_d cfg) (snapshot_next_id locations) locations \<and> 0 < cfg_d cfg \<Longrightarrow> consistent M view i s' inner'"
proof -
  let ?checked = "case expected of
       Some v \<Rightarrow> ensure (in_version inner = v) (snapshot_conflict name (in_version inner) v) | None \<Rightarrow> Ok ()"
  let ?n = "snapshot_next_id locations"
  show thesis
  proof (cases "rbind ?checked (\<lambda>_. materialize_document_refs M i inner s)")
    case (Inl e)
    then show thesis using b by (intro Clean [of e]) (simp_all add: snapshot_body_def Let_def)
  next
    case (Inr ns)
    obtain k s1 where ns: "ns = (k, s1)" by fastforce
    have m: "materialize_document_refs M i inner s = Inr (k, s1)"
      and v: "case expected of None \<Rightarrow> True | Some v \<Rightarrow> in_version inner = v"
      using Inr ns by (auto simp: rbind_eq_Inr split: option.splits)
    note M1 = materialize_consistent [OF K ok m]
    show thesis
    proof (cases "persist_snapshot M i (in_locations (bump inner)) locations ?n (cfg_d cfg) s1")
      case (Inl e)
      then show thesis using b Inr ns M1 by (intro Dirty [of e]) (simp_all add: snapshot_body_def Let_def)
    next
      case inr: (Inr s2)
      let ?inner' = "rebuild_graph_cache ((bump inner)\<lparr>in_locations := locations, in_config := cfg, in_next_id := ?n\<rparr>)"
      have out: "out = Done () ?inner'" and s2: "s' = s2"
        using b Inr ns inr by (simp_all add: snapshot_body_def Let_def)
      have "consistent M view i s' ?inner'"
        if "memory_ok (cfg_d cfg) ?n locations \<and> 0 < cfg_d cfg"
      proof -
        have mem: "memory_ok (cfg_d cfg) ?n locations" using that by blast
        note P = persist_snapshot_durable [OF K M1(1) mem inr [unfolded bump_fields]]
        show ?thesis
          using P that M1(2) ok rebuild_graph_cache_ok [of "(bump inner)\<lparr>in_locations := locations, in_config := cfg, in_next_id := ?n\<rparr>"]
          by (simp add: consistent_def durable_def s2)
      qed
      then show thesis by (intro Done [OF out]) (use v in simp_all)
    qed
  qed
qed

interpretation snapshot: mutation "\<lambda>M. snapshot_body M name locations cfg expected"
  "\<lambda>_. memory_ok (cfg_d cfg) (snapshot_next_id locations) locations \<and> 0 < cfg_d cfg"
  for name locations cfg expected
proof
  fix M :: "('r, 'db) machine" and view i s inner rng e s' rng'
  assume K: "storage_ok (mc_storage M) view" and ok: "consistent M view i s inner"
    and "snapshot_body M name locations cfg expected i inner s rng = (Clean e, s', rng')"
  from K ok this(3) show "consistent M view i s' inner \<and> st_precision s' = st_precision s"
    by (cases rule: snapshot_body_cases) (simp_all add: ok)
next
  fix M :: "('r, 'db) machine" and view i s inner rng e inner' s' rng'
  assume K: "storage_ok (mc_storage M) view" and ok: "consistent M view i s inner"
    and "snapshot_body M name locations cfg expected i inner s rng = (Dirty e inner', s', rng')"
  from K ok this(3)
  show "consistent M view i s' inner \<and> st_precision s' = st_precision s \<and> in_config inner' = in_config inner"
    by (cases rule: snapshot_body_cases) simp_all
next
  fix M :: "('r, 'db) machine" and view i s inner rng v inner' s' rng'
  assume K: "storage_ok (mc_storage M) view" and ok: "consistent M view i s inner"
    and pre: "memory_ok (cfg_d cfg) (snapshot_next_id locations) locations \<and> 0 < cfg_d cfg"
    and "snapshot_body M name locations cfg expected i inner s rng = (Done v inner', s', rng')"
  from K ok this(4) show "consistent M view i s' inner'"
    by (cases rule: snapshot_body_cases) (use pre in simp_all)
qed

section \<open>A concrete collection\<close>

text \<open>For the witnesses: a machine over list storage, a configuration of dimension 1, a new collection.\<close>

definition list_machine :: "(unit, (bytes \<times> bytes) list) machine" where
  "list_machine = \<lparr>mc_libm = flat_libm, mc_normal = (\<lambda>r. (0, r)), mc_storage = list_K,
     mc_projected = (\<lambda>_ _. None), mc_fft = \<lparr>rf_forward = (\<lambda>_ _. None), rf_inverse = (\<lambda>_ _. None)\<rparr>\<rparr>"

definition one_config :: EAMConfig where
  "one_config = \<lparr>cfg_d = 1, cfg_l_0 = 0, cfg_k = 1, cfg_eta_0 = 1, cfg_lambda = 1, cfg_eta_min = 1,
      cfg_tau_split = 0, cfg_tau_merge = 1, cfg_gamma = 0, cfg_tau_damp = 1,
      cfg_tau_overload = F64 0x4024000000000000, cfg_beta = 1, cfg_t_max = 1, cfg_epsilon = 1,
      cfg_neighbor_cap = 0, cfg_num_landmarks = 0, cfg_mdl_gate = False, cfg_competitive = True,
      cfg_precision = PF64\<rparr>"

definition empty_store :: "(bytes \<times> bytes) list store" where
  "empty_store = \<lparr>st_dbs = no_dbs, st_skipped = 0, st_precision = PF64\<rparr>"

lemma one_config_fields:
  "cfg_competitive one_config" "cfg_k one_config = 1" "cfg_lambda one_config = 1" "cfg_eta_min one_config = 1"
  "cfg_d one_config = 1" "cfg_num_landmarks one_config = 0"
  by (simp_all add: one_config_def)

abbreviation first_collection :: Collection where
  "first_collection \<equiv> \<lparr>co_id = 7, co_name = [97], co_inner = inner_of one_config [] 0 1 0, co_poisoned = False\<rparr>"

definition first_store :: "(bytes \<times> bytes) list store" where
  "first_store = empty_store\<lparr>st_dbs := no_dbs\<lparr>db_metadata :=
     [(metadata_key 7 (ascii ''config_d''), u64_to_le 1), (metadata_key 7 (ascii ''eta''), u64_to_le (f64_bits 1)),
      (metadata_key 7 (ascii ''next_id''), u64_to_le 0)]\<rparr>\<rparr>"

lemma list_K_ops:
  "sg_write_txn list_K t = Inr t" "sg_read_txn list_K t = Inr t" "sg_commit list_K t = Inr t"
  "sg_put list_K d k v = Inr ((k, v) # d)" "sg_ser_u64 list_K x = Inr (u64_to_le x)"
  "sg_ser_f64 list_K y = Inr (u64_to_le (f64_bits y))" "sg_codec list_K = zero_codec"
  "sg_prefix_iter list_K d p = Inr (al_listing d (prefix p))"
  by (simp_all add: list_storage_def)

lemma list_machine_storage [simp]: "mc_storage list_machine = list_K"
  by (simp add: list_machine_def)

lemma first_collection_new:
  "Collection_new list_machine 7 [97] empty_store one_config () = (Inr (first_collection, first_store), ())"
  by (simp add: Collection_new_def Let_def write_txn_def commit_def list_K_ops put_locations_def put_u64_def
      put_eta_def put_metadata_def empty_store_def no_dbs_def first_store_def one_config_def)

lemma first_collection_consistent: "consistent list_machine map_of 7 first_store (co_inner first_collection)"
  by (rule Collection_new_consistent [OF _ _ _ _ first_collection_new])
    (simp_all add: list_storage_ok one_config_def fresh_scope_def empty_store_def no_dbs_def)

lemma first_collection_sound: "sound list_machine map_of first_collection first_store"
  using first_collection_consistent by (simp add: sound_def)

text \<open>A vector of dimension 1, as its first write leaves it.\<close>

definition once :: HardLocation where
  "once = \<lparr>loc_id = 0, loc_address = [1], loc_counter = [1], loc_write_count = 1,
     loc_neighbors = [], loc_surprise_mass = 0\<rparr>"

abbreviation empty_inner :: EAMInner where
  "empty_inner \<equiv> bump (inner_of one_config [] 0 1 0)"

lemma unit_vector_arith:
  "normalize [1 :: f64] = [1]" "l2_norm [1 :: f64] = 1" "to_f32 [1 :: f64] = [F32 0x3f800000]"
  "f64_max 0 1 = (1 :: f64)" "f64_max (1 * 1) 1 = (1 :: f64)"
  by code_simp+

lemma no_nearest: "nearest [1 :: f64] [] 0 (write_scan [] 0) = ([], [])"
  by code_simp

lemma first_write:
  "apply_write list_machine [1] [1] WriteOpts_default empty_inner () =
     (\<lparr>wr_modified_indices = [], wr_new_locations = [once], wr_eta = 1\<rparr>, empty_inner\<lparr>in_next_id := 1\<rparr>, ())"
  by (simp add: apply_write_def adaptive_write_two_def Let_def inner_of_def list_machine_def one_config_fields
      f32_rows_def bump_def no_nearest HardLocation_new_def once_def unit_vector_arith)

lemma first_encodings:
  "encode_location zero_codec once PF64 = Inr (projr (encode_location zero_codec once PF64))"
  "encode_document_ref zero_codec i [] PF64 = Inr (projr (encode_document_ref zero_codec i [] PF64))"
  "encode_document zero_codec [1] [] PF64 = Inr (projr (encode_document zero_codec [1] [] PF64))"
proof -
  show "encode_location zero_codec once PF64 = Inr (projr (encode_location zero_codec once PF64))"
    "encode_document zero_codec [1] [] PF64 = Inr (projr (encode_document zero_codec [1] [] PF64))"
    by code_simp+
  show "encode_document_ref zero_codec i [] PF64 = Inr (projr (encode_document_ref zero_codec i [] PF64))"
    by (simp add: encode_document_ref_def len_u32_def envelope_def zero_codec_def)
qed

text \<open>The first document: the vector with no metadata.\<close>

abbreviation document_inner :: EAMInner where
  "document_inner \<equiv> empty_inner\<lparr>in_next_id := 1, in_doc_next_id := 1\<rparr>"

abbreviation after_document :: EAMInner where
  "after_document \<equiv> extend_locations [once] document_inner"

abbreviation first_result :: WriteResult where
  "first_result \<equiv> \<lparr>wr_modified_indices = [], wr_new_locations = [once], wr_eta = 1\<rparr>"

lemma after_document_fields: "in_locations after_document = [once]" "in_config after_document = one_config"
  by (simp_all add: extend_locations_def append_addresses_def refresh_landmarks_def extend_id_lookup_def
      one_config_fields Let_def)

lemma sync_no_addresses: "sync_addresses [] inner = Inr inner"
  by (simp add: sync_addresses_def)

lemma first_document_data: "\<exists>data. document_data list_machine first_store inner first_result [1] [] = Inr data"
  by (cases "plain_location (in_config inner) [] [once] [1]")
    (simp_all add: document_data_def list_K_ops first_store_def empty_store_def, (metis first_encodings(2,3))+)

lemma first_document_store:
  "\<exists>s' data. write_with_metadata list_machine [1] [] (first_collection, first_store, ()) =
     (Ok 0, first_collection\<lparr>co_inner := after_document\<rparr>, s', ()) \<and>
     document_data list_machine first_store document_inner first_result [1] [] = Inr data \<and>
     db_documents (st_dbs s') = [(document_key 7 0, data)] \<and>
     db_doc_index (st_dbs s') = [(location_key 7 0, u64_to_le 0)]"
proof -
  have fin: "is_finite (1 :: f64)" by code_simp
  obtain a where a: "encode_location zero_codec once PF64 = Inr a" using first_encodings(1) by blast
  obtain d where d: "document_data list_machine first_store document_inner first_result [1] [] = Inr d"
    using first_document_data by blast
  have "loc_id once = 0" by (simp add: once_def)
  then obtain s' where p: "persist_document list_machine 7 document_inner first_result 0 [1] [] first_store = Inr s'"
    "db_documents (st_dbs s') = [(document_key 7 0, d)]" "db_doc_index (st_dbs s') = [(location_key 7 0, u64_to_le 0)]"
    using d
    by (auto simp: persist_document_def write_txn_def commit_def list_K_ops put_locations_def put_location_def a
        locations_at_def activated_ids_def append_doc_to_location_def get_doc_ids_for_location_txn_def
        put_doc_index_entry_def put_document_def put_doc_counters_def put_counters_def put_u64_def put_eta_def
        put_metadata_def first_store_def empty_store_def no_dbs_def Let_def,
        auto simp: list_storage_def)
  show ?thesis
    by (rule exI [of _ s'], rule exI [of _ d]) (use p d first_write fin in
      \<open>simp add: write_with_metadata_def validate_vector_def atomic_mutation_def write_inner_def read_inner_def
        document_body_def check_dim_def one_config_fields Let_def sync_no_addresses\<close>)
qed

lemma first_document:
  "\<exists>s'. write_with_metadata list_machine [1] [] (first_collection, first_store, ()) =
     (Ok 0, first_collection\<lparr>co_inner := after_document\<rparr>, s', ())"
  using first_document_store by blast

text \<open>A first snapshot of one location.\<close>

lemma once_memory: "memory_ok 1 (snapshot_next_id [once]) [once]"
proof -
  have n: "snapshot_next_id [once] = 1" by code_simp
  show ?thesis by (simp add: n memory_ok_def loc_wf_def) (simp add: once_def)
qed

lemma first_snapshot:
  "\<exists>c s. load_snapshot_checked list_machine [once] one_config (Some 0) (first_collection, first_store, ()) = (Ok (), c, s, ())"
proof -
  have v: "validate one_config = Inr ()" by code_simp
  have "materialize_document_refs list_machine 7 (co_inner first_collection) first_store =
      Inr (fst (projr (materialize_document_refs list_machine 7 (co_inner first_collection) first_store)), first_store)"
    by code_simp
  then obtain k where m: "materialize_document_refs list_machine 7 (co_inner first_collection) first_store = Inr (k, first_store)"
    by blast
  obtain a where a: "encode_location zero_codec once PF64 = Inr a" using first_encodings(1) by blast
  obtain s where p: "persist_snapshot list_machine 7 [] [once] 1 1 first_store = Inr s"
    by (auto simp: persist_snapshot_def write_txn_def commit_def list_K_ops put_locations_def put_location_def a
        put_u64_def put_metadata_def first_store_def empty_store_def no_dbs_def Let_def)
  have f: "in_version (co_inner first_collection) = 0" "in_locations (bump (co_inner first_collection)) = []" by code_simp+
  have n: "snapshot_next_id [once] = 1" by code_simp
  show ?thesis
    using p m
    by (auto simp: load_snapshot_checked_def v f [simplified] atomic_mutation_def snapshot_body_def write_inner_def read_inner_def n Let_def
       once_def [THEN arg_cong [of _ _ loc_address]] one_config_fields)
qed

section \<open>Properties\<close>

text \<open>A new collection starts sound: its memory is well formed with its caches in step, its
  ids are below the next id, and the store already holds exactly the memory's locations and
  counters, as long as no records lay under its id before.\<close>

lemma new_collection_is_sound:
  assumes "storage_ok (mc_storage M) view" "fresh_scope view i s" "0 < cfg_d c" "cfg_l_0 c < 2 ^ 64"
    and "Collection_new M i name s c rng = (Inr (C, s'), rng')"
  shows "sound M view C s' \<and> inner_ok (co_inner C) \<and> length (in_locations (co_inner C)) = cfg_l_0 c"
  using Collection_new_consistent [OF assms] by (simp add: sound_def consistent_def)

text \<open>C1: A write keeps memory and store together whatever comes of it: after a success, an
  error or a panic in \<open>write\<close> or \<open>write_two\<close>, a collection that still works has a well-formed
  memory, caches that mirror it row by row, and a store that holds exactly that memory.\<close>

theorem writes_keep_the_collection_sound:
  assumes "storage_ok (mc_storage M) view" "sound M view c s" "id_left (co_inner c)"
    and "Collection_write_two M address counter opts (c, s, rng) = (r, c', s', rng')"
  shows "sound M view c' s'"
  using assms write_pattern.keeps_sound [OF assms(1-3)]
  by (auto simp: Collection_write_two_def split: sum.splits)

theorem writes_keep_the_collection_sound_witness:
  "\<exists>r c' s' rng'. Collection_write_two list_machine [1] [1] WriteOpts_default (first_collection, first_store, ()) =
     (r, c', s', rng') \<and> sound list_machine map_of c' s'"
proof -
  obtain r c' s' rng' where run: "Collection_write_two list_machine [1] [1] WriteOpts_default
      (first_collection, first_store, ()) = (r, c', s', rng')" by (metis prod_cases4)
  show ?thesis
    using writes_keep_the_collection_sound [OF _ first_collection_sound _ run] run
    by (simp add: list_storage_ok)
qed

text \<open>C2: A write that fails changes nothing that can be seen: if the collection still works
  afterwards, its memory is the one before (each location as it was, or as the storage
  precision keeps it), with the same counters, and the store still holds it.\<close>

theorem failed_write_rolls_back:
  assumes "storage_ok (mc_storage M) view" "consistent M view (co_id c) s (co_inner c)" "id_left (co_inner c)"
    and "Collection_write M input (c, s, rng) = (Inl e, c', s', rng')" "in_valid (co_inner c')"
  shows "same_memory (st_precision s) (co_inner c) (co_inner c') \<and>
     consistent M view (co_id c) s' (co_inner c')"
proof (cases "validate_vector input")
  case (Inl e')
  then show ?thesis
    using assms(2,4) by (simp add: Collection_write_def same_memory_def list_all2_refl kept_def)
next
  case (Inr u)
  then have "atomic_mutation M (write_body M input input WriteOpts_default) (c, s, rng) = (Inl e, c', s', rng')"
    using assms(4) unfolding Collection_write_def by (simp del: validate_vector_Inr)
  with write_pattern.failure_rolls_back [OF assms(1,2) _ assms(5,3)] show ?thesis by simp
qed

text \<open>For the witness: a storage that cannot begin a write transaction.\<close>

definition full_machine :: "(unit, (bytes \<times> bytes) list) machine" where
  "full_machine = list_machine\<lparr>mc_storage := list_K\<lparr>sg_write_txn := (\<lambda>_. Err (Storage (msg ''full'')))\<rparr>\<rparr>"

theorem failed_write_rolls_back_witness:
  "\<exists>c' s'. Collection_write full_machine [1] (first_collection, first_store, ()) =
      (Inl (Error (Storage (msg ''full''))), c', s', ()) \<and>
    same_memory PF64 (co_inner first_collection) (co_inner c')"
proof -
  let ?K = "list_K\<lparr>sg_write_txn := (\<lambda>_. Err (Storage (msg ''full'')))\<rparr>" and ?e = "Error (Storage (msg ''full''))"
  have K: "storage_ok (mc_storage full_machine) map_of"
    using list_storage_ok [of zero_codec] by (simp add: storage_ok_def full_machine_def)
  have ok: "consistent full_machine map_of 7 first_store (co_inner first_collection)"
    using first_collection_consistent by (simp add: consistent_def durable_def full_machine_def counters_ok_def)
  obtain r inner rng where w: "apply_write full_machine [1] [1] WriteOpts_default (bump (co_inner first_collection)) () =
      (r, inner, rng)" by (metis prod_cases3)
  have cfg: "in_config inner = one_config" using w by (auto simp: apply_write_def split: prod.splits)
  have "\<exists>C. Collection_load full_machine 7 [97] first_store one_config = Inr (C, first_store) \<and> in_valid (co_inner C)"
    by (simp add: Collection_load_def load_all_locations_def read_txn_def full_machine_def list_storage_def
        load_value_def load_metadata_def first_store_def empty_store_def no_dbs_def al_listing_def
        metadata_keys.key_inject ascii_def)
  then obtain C where C: "Collection_load full_machine 7 [97] first_store one_config = Inr (C, first_store)"
    "in_valid (co_inner C)" by blast
  have fin: "is_finite (1 :: f64)" by code_simp
  then have run: "Collection_write full_machine [1] (first_collection, first_store, ()) =
      (Inl ?e, first_collection\<lparr>co_inner := (co_inner C)\<lparr>in_version := in_version inner\<rparr>\<rparr>, first_store, ())"
    using w C cfg
    by (simp add: Collection_write_def validate_vector_def atomic_mutation_def write_inner_def read_inner_def write_body_def check_dim_def
        one_config_fields persist_write_def write_txn_def full_machine_def recover_def)
  show ?thesis
    using failed_write_rolls_back [OF K _ _ run] ok C(2) run
    by (simp add: first_store_def empty_store_def)
qed

text \<open>C3: A document that was written is found again: its id is the next document id, its record
  decodes in the new memory to its metadata and its vector (as stored, or equal to the
  input when it is kept as a location's address), and it is in the posting list of a location.\<close>

theorem written_document_is_found:
  assumes "storage_ok (mc_storage M) view" "consistent M view (co_id c) s (co_inner c)" "id_left (co_inner c)"
    and "write_with_metadata M input metadata (c, s, rng) = (Ok i, c', s', rng')"
    and "length (in_locations (co_inner c')) < 2 ^ 32"
  shows "i = in_doc_next_id (co_inner c) \<and> consistent M view (co_id c) s' (co_inner c') \<and>
     (\<exists>v. stored_document M view (co_id c) s' (co_inner c') i v metadata \<and>
        (v = stored_vector (st_precision s) input \<or> vec_feq v input))"
proof -
  have v: "validate_vector input = Inr ()" and m: "atomic_mutation M (document_body M input metadata) (c, s, rng) =
      (Ok i, c', s', rng')"
    using assms(4) by (auto simp: write_with_metadata_def split: sum.splits)
  then have w: "write_inner c = Inr (co_inner c)"
    by (auto simp: atomic_mutation_def write_inner_def read_inner_def rbind_eq_Inr split: sum.splits)
  obtain out s1 rng1 where b: "document_body M input metadata (co_id c) (co_inner c) s rng = (out, s1, rng1)"
    by (metis prod_cases3)
  from assms(1-3) b show ?thesis
  proof (cases rule: document_body_cases)
    case (Clean e)
    then show ?thesis using m w b by (simp add: atomic_mutation_def)
  next
    case (Dirty e inner')
    then show ?thesis using m w b by (auto simp: atomic_mutation_def split: prod.splits)
  next
    case (Done inner')
    then show ?thesis using m w b assms(5) by (auto simp: atomic_mutation_def)
  qed
qed

theorem written_document_is_found_witness:
  "\<exists>c' s'. write_with_metadata list_machine [1] [] (first_collection, first_store, ()) = (Ok 0, c', s', ()) \<and>
     consistent list_machine map_of 7 s' (co_inner c') \<and>
     (\<exists>v. stored_document list_machine map_of 7 s' (co_inner c') 0 v [])"
proof -
  obtain s' where run: "write_with_metadata list_machine [1] [] (first_collection, first_store, ()) =
      (Ok 0, first_collection\<lparr>co_inner := after_document\<rparr>, s', ())" using first_document by blast
  show ?thesis
    using written_document_is_found [where view = map_of, OF _ _ _ run] first_collection_consistent run
      after_document_fields
    by (auto simp: list_storage_ok)
qed

text \<open>C4: Restarting loses nothing: loading a collection whose store is in step gives back its
  locations in order (as the storage precision keeps them) and its counters, sound again.\<close>

theorem reload_restores_the_memory:
  assumes "storage_ok (mc_storage M) view" "consistent M view i s inner"
    and "Collection_load M i name s (in_config inner) = Inr (C, s')"
  shows "same_memory (st_precision s) inner (co_inner C) \<and> sound M view C s' \<and> s' = s"
proof -
  let ?c = "\<lparr>co_id = i, co_name = name, co_inner = inner, co_poisoned = False\<rparr>"
  have C: "co_id C = i" "in_valid (co_inner C)"
    using assms(3) by (auto simp: Collection_load_def Let_def rbind_eq_Inr)
  have r: "recover M ?c inner s = ((co_inner C)\<lparr>in_version := in_version inner\<rparr>, s')"
    using assms(3) by (simp add: recover_def)
  note R = recover_consistent [OF assms(1) _ refl r]
  have "same_memory (st_precision s) inner ((co_inner C)\<lparr>in_version := in_version inner\<rparr>)" "s' = s"
    "consistent M view i s' ((co_inner C)\<lparr>in_version := in_version inner\<rparr>)"
    using R assms(2) C(2) by simp_all
  then show ?thesis
    using C(1) by (simp add: same_memory_def sound_def consistent_def durable_def inner_ok_def Let_def)
qed

theorem reload_restores_the_memory_witness:
  "\<exists>C. Collection_load list_machine 7 [97] first_store one_config = Inr (C, first_store) \<and>
     same_memory PF64 (co_inner first_collection) (co_inner C)"
proof -
  have "\<exists>C. Collection_load list_machine 7 [97] first_store one_config = Inr (C, first_store)"
    by (simp add: Collection_load_def load_all_locations_def read_txn_def list_storage_def
        load_value_def load_metadata_def first_store_def empty_store_def no_dbs_def al_listing_def
        metadata_keys.key_inject ascii_def)
  then obtain C where C: "Collection_load list_machine 7 [97] first_store (in_config (co_inner first_collection)) =
      Inr (C, first_store)" by auto
  show ?thesis
    using reload_restores_the_memory [OF _ first_collection_consistent C] C
    by (simp add: list_storage_ok first_store_def empty_store_def)
qed

text \<open>C10: Replacing the memory by a snapshot is optimistic: when it is told a version that is no
  longer the collection's it answers a conflict and changes nothing, and when it succeeds the
  version was that one, the memory is the snapshot, and the version has moved on.\<close>

theorem snapshot_detects_concurrent_writes:
  assumes "storage_ok (mc_storage M) view" "consistent M view (co_id c) s (co_inner c)"
    and "load_snapshot_checked M locations cfg (Some v) (c, s, rng) = (r, c', s', rng')"
  shows "(r = Ok () \<longrightarrow> in_version (co_inner c) = v \<and> in_locations (co_inner c') = locations \<and>
       in_config (co_inner c') = cfg \<and> in_version (co_inner c') = v + 1) \<and>
     (in_version (co_inner c) \<noteq> v \<longrightarrow> r \<noteq> Ok () \<and> co_inner c' = co_inner c \<and> s' = s)"
proof (cases "rbind (validate cfg) (\<lambda>_. rfold (\<lambda>_ l. ensure (length (loc_address l) = cfg_d cfg)
             (DimensionMismatch (cfg_d cfg) (length (loc_address l)))) () locations)")
  case (Inl e)
  then have "(r, c', s', rng') = (Inl e, c, s, rng)"
    using assms(3) unfolding load_snapshot_checked_def by simp
  then show ?thesis by simp
next
  case (Inr u)
  then have m: "atomic_mutation M (snapshot_body M (co_name c) locations cfg (Some v)) (c, s, rng) = (r, c', s', rng')"
    using assms(3) unfolding load_snapshot_checked_def by simp
  show ?thesis
  proof (cases "write_inner c")
    case (Inl e)
    then have "r = Inl e" "c' = c" "s' = s" using m by (simp_all add: atomic_mutation_def)
    then show ?thesis by simp
  next
    case w: (Inr inner)
    then have inner: "inner = co_inner c" by (auto simp: write_inner_def read_inner_def rbind_eq_Inr)
    obtain out s1 rng1 where b: "snapshot_body M (co_name c) locations cfg (Some v) (co_id c) (co_inner c) s rng = (out, s1, rng1)"
      by (metis prod_cases3)
    from assms(1,2) b show ?thesis
    proof (cases rule: snapshot_body_cases)
      case (Clean e)
      then show ?thesis using m w b inner by (auto simp: atomic_mutation_def)
    next
      case (Dirty e)
      then have "in_version (co_inner c) = v"
        using b by (auto simp: snapshot_body_def Let_def rbind_eq_Inl rbind_eq_Inr ensure_def split: sum.splits if_splits)
      then show ?thesis using m w b inner Dirty by (auto simp: atomic_mutation_def split: prod.splits)
    next
      case (Done inner')
      then show ?thesis using m w b inner by (auto simp: atomic_mutation_def)
    qed
  qed
qed

theorem snapshot_detects_concurrent_writes_witness:
  "\<exists>r c' s' rng'. load_snapshot_checked list_machine [] one_config (Some 5) (first_collection, first_store, ()) =
     (r, c', s', rng') \<and> r \<noteq> Ok () \<and> s' = first_store"
proof -
  obtain r c' s' rng' where run: "load_snapshot_checked list_machine [] one_config (Some 5)
      (first_collection, first_store, ()) = (r, c', s', rng')" by (metis prod_cases4)
  have "in_version (co_inner first_collection) \<noteq> 5" by (simp add: inner_of_def f32_rows_def)
  then show ?thesis
    using snapshot_detects_concurrent_writes [where view = map_of, OF _ _ run] first_collection_consistent run
    by (simp add: list_storage_ok)
qed

text \<open>C9: A snapshot of well-formed locations keeps the collection sound, whether it is loaded,
  refused or fails on the way: in particular no record of a replaced location is left behind.\<close>

theorem snapshot_keeps_the_collection_sound:
  assumes "storage_ok (mc_storage M) view" "sound M view c s"
    and "memory_ok (cfg_d cfg) (snapshot_next_id locations) locations" "0 < cfg_d cfg"
    and "load_snapshot_checked M locations cfg expected (c, s, rng) = (r, c', s', rng')"
  shows "sound M view c' s'"
  using assms snapshot.keeps_sound [OF assms(1,2), of cfg locations]
  by (auto simp: load_snapshot_checked_def split: sum.splits)

theorem snapshot_keeps_the_collection_sound_witness:
  "\<exists>c' s'. load_snapshot_checked list_machine [once] one_config (Some 0) (first_collection, first_store, ()) =
     (Ok (), c', s', ()) \<and> sound list_machine map_of c' s'"
proof -
  obtain c' s' where run: "load_snapshot_checked list_machine [once] one_config (Some 0)
      (first_collection, first_store, ()) = (Ok (), c', s', ())" using first_snapshot by blast
  show ?thesis
    using snapshot_keeps_the_collection_sound [OF _ first_collection_sound _ _ run] run once_memory
    by (simp add: list_storage_ok one_config_fields)
qed

end
