(* ===== verification/Collection_Queries.thy ===== *)
theory Collection_Queries
  imports Collection_Sound
begin

text \<open>
  What the reads of a collection return (collection.rs, from \<open>read\<close> to
  \<open>query_documents_multi_role\<close>): in a well-formed memory they see through the packed matrix
  exactly the locations, excluded locations never contribute, a document query answers with
  stored documents, and a deleted document is gone for every read.
\<close>

section \<open>Activation\<close>

lemma inner_activate_reference:
  assumes "inner_ok inner" "0 < cfg_d (in_config inner)"
  shows "inner_activate inner query k = activate query (in_locations inner) k"
proof -
  have rows: "rows_ok (cfg_d (in_config inner)) id (addresses (in_locations inner)) (in_address_matrix inner) {}"
    and wf: "\<forall>l\<in>set (in_locations inner). length (loc_address l) = cfg_d (in_config inner)"
    using assms(1) by (auto simp: inner_ok_def memory_ok_def loc_wf_def Let_def)
  have "in_address_matrix inner = concat (map loc_address (in_locations inner))"
    using rows_ok_empty [OF rows] by simp
  then show ?thesis
    using activate_soa_activate [OF assms(2) wf] by (simp add: inner_activate_def activate_auto_full_def)
qed

lemma offer_entry_set: "set (offer_entry k h e) \<subseteq> insert e (set h)"
proof (cases rule: offer_entry_cases [where k = k and h = h and e = e])
  case push
  then show ?thesis by (metis set_mset_add_mset_insert set_mset_mset subset_refl)
next
  case keep
  then show ?thesis by auto
next
  case (swap x t)
  then have "set (offer_entry k h e) = insert e (set t)"
    by (metis set_mset_add_mset_insert set_mset_mset)
  then show ?thesis using swap by auto
qed

lemma drain_sorted_indices: "set (fst (drain_sorted h)) = me_index ` set h"
proof -
  have "fst (drain_sorted h) = map fst (zip (fst (drain_sorted h)) (snd (drain_sorted h)))"
    using drain_sorted_pairs(2) [of h] by (simp add: map_fst_zip)
  then have "set (fst (drain_sorted h)) = fst ` set (sort_by by_similarity (map (\<lambda>e. (me_index e, me_similarity e)) h))"
    by (metis drain_sorted_pairs(1) list.set_map)
  then show ?thesis by (simp add: image_image)
qed

lemma offer_within:
  assumes "me_index ` set h \<subseteq> A"
  shows "me_index ` set (if n \<le> i then h else offer_entry k h (entry (i, x))) \<subseteq> A \<union> ({i} \<inter> {..<n})"
proof (cases "n \<le> i")
  case False
  have "me_index ` set (offer_entry k h (entry (i, x))) \<subseteq> insert i (me_index ` set h)"
    using image_mono [OF offer_entry_set [of k h "entry (i, x)"], of me_index] by (simp add: entry_def)
  then have "me_index ` set (offer_entry k h (entry (i, x))) \<subseteq> insert i A" using assms by blast
  with False show ?thesis by (simp add: not_le)
qed (use assms in auto)

lemma offers_within:
  assumes "me_index ` set h \<subseteq> A"
  shows "me_index ` set (foldl (\<lambda>h i. if n \<le> i then h else offer_entry k h (entry (i, f i))) h js)
    \<subseteq> A \<union> (set js \<inter> {..<n})"
  using assms
proof (induction js arbitrary: h A)
  case (Cons i js)
  from Cons.IH [OF offer_within [OF Cons.prems, of n i k "f i"]] show ?case
    by (simp only: foldl.simps list.set) blast
qed auto

lemma activate_subset_within: "set (fst (activate_subset query ls allowed k)) \<subseteq> set allowed \<inter> {..<length ls}"
  using offers_within [of "[]" "{}" "length ls" k "\<lambda>i. dot (normalize query) (loc_address (ls ! i))" allowed]
  by (simp add: activate_subset_def Let_def drain_sorted_indices)

lemma activate_locked_allowed:
  "set (activate_locked inner query None (Some allowed)) \<subseteq> set allowed \<inter> {..<length (in_locations inner)}"
  using activate_subset_within [of query "in_locations inner" allowed "min (cfg_k (in_config inner)) (length (in_locations inner))"]
  by (simp add: activate_locked_def Let_def case_prod_beta)

lemma attention_contributors:
  "al_id ` set (at_contributors (attention_over L ls query scale indices)) \<subseteq> set indices"
  by (auto simp: attention_over_def Let_def dest: set_zip_leftD)

section \<open>Candidates of a document query\<close>

lemma gather_candidates_set:
  assumes K: "storage_ok (mc_storage M) view" and g: "gather_candidates M txn i inner indices = Inr ids"
  shows "distinct ids"
    "d \<in> set ids \<longleftrightarrow> (\<exists>idx\<in>set indices. posted (mc_storage M) view txn i (loc_id (in_locations inner ! idx)) d)"
proof -
  have "distinct ids' \<and> (\<forall>d. d \<in> set ids' \<longleftrightarrow> d \<in> set ids0 \<or>
      (\<exists>idx\<in>set indices. posted (mc_storage M) view txn i (loc_id (in_locations inner ! idx)) d))"
    if "rfold (\<lambda>ids idx.
         rbind (get_doc_ids_for_location_txn (mc_storage M) txn i (loc_id (in_locations inner ! idx))) (\<lambda>more.
         Ok (remdups (ids @ more)))) ids0 indices = Inr ids'" "distinct ids0" for ids0 ids'
    using that
  proof (induction indices arbitrary: ids0)
    case (Cons idx indices)
    obtain more where m: "get_doc_ids_for_location_txn (mc_storage M) txn i (loc_id (in_locations inner ! idx)) = Inr more"
      using Cons.prems(1) by (auto simp: rbind_eq_Inr)
    have "posted (mc_storage M) view txn i (loc_id (in_locations inner ! idx)) d \<longleftrightarrow> d \<in> set more" for d
      using get_postings [OF K m] by (simp add: posted_def)
    then show ?case using Cons.IH [of "remdups (ids0 @ more)"] Cons.prems m by auto
  qed simp
  from this [of "[]" ids] g show "distinct ids"
    "d \<in> set ids \<longleftrightarrow> (\<exists>idx\<in>set indices. posted (mc_storage M) view txn i (loc_id (in_locations inner ! idx)) d)"
    by (simp_all add: gather_candidates_def)
qed

text \<open>The hit a document makes, if it is there, resolves and is scored.\<close>

definition candidate_hit ::
  "('r, 'db) machine \<Rightarrow> ('db \<Rightarrow> bytes \<Rightarrow> bytes option) \<Rightarrow> precision \<Rightarrow> 'db dbs \<Rightarrow> u32 \<Rightarrow> EAMInner \<Rightarrow>
   (u64 \<Rightarrow> f64 list \<Rightarrow> bytes \<Rightarrow> 'hit option) \<Rightarrow> u64 \<Rightarrow> 'hit option" where
  "candidate_hit M view p txn i inner score d =
     (case view (db_documents txn) (document_key i d) of
        None \<Rightarrow> None
      | Some data \<Rightarrow>
         (case resolve_document M p inner data of Inl _ \<Rightarrow> None | Inr (v, m) \<Rightarrow> score d v m))"

lemma candidate_hit_iff:
  "candidate_hit M view p txn i inner score d = Some hit \<longleftrightarrow>
     (\<exists>data v m. view (db_documents txn) (document_key i d) = Some data \<and>
        resolve_document M p inner data = Ok (v, m) \<and> score d v m = Some hit)"
  by (auto simp: candidate_hit_def split: option.splits sum.splits)

lemma tolerate_Inr: "tolerate r k = Inr (x, k') \<Longrightarrow> x = (case r of Inr v \<Rightarrow> Some v | Inl _ \<Rightarrow> None)"
  by (auto simp: tolerate_def split: sum.splits fault.splits herror.splits)

lemma score_candidates_hits:
  assumes K: "storage_ok (mc_storage M) view"
    and s: "score_candidates M txn p i inner score skipped ids = Inr (hits, skipped')"
  shows "hits = List.map_filter (candidate_hit M view p txn i inner score) ids"
proof -
  let ?f = "\<lambda>(hits, skipped) doc_id.
       rbind (get_document_txn (mc_storage M) txn i doc_id) (\<lambda>r. case r of
         None \<Rightarrow> Ok (hits, skipped)
       | Some data \<Rightarrow>
           rbind (tolerate (resolve_document M p inner data) skipped) (\<lambda>(r, skipped). case r of
             None \<Rightarrow> Ok (hits, skipped)
           | Some (v, meta) \<Rightarrow>
              (case score doc_id v meta of
                 Some hit \<Rightarrow> Ok (hits @ [hit], skipped)
               | None \<Rightarrow> Ok (hits, skipped))))"
  let ?hit = "candidate_hit M view p txn i inner score"
  have step: "h1 = h0 @ List.map_filter ?hit [d]" if st: "?f (h0, k0) d = Inr (h1, k1)" for h0 k0 d h1 k1
  proof -
    obtain r where r: "get_document_txn (mc_storage M) txn i d = Inr r" using st by (auto simp: rbind_eq_Inr)
    then have v: "r = view (db_documents txn) (document_key i d)"
      using storage_okD(4) [OF K] by (simp add: get_document_txn_def)
    show ?thesis
    proof (cases r)
      case None
      then show ?thesis using st r v by (simp add: candidate_hit_def)
    next
      case (Some data)
      then obtain x k' where x: "tolerate (resolve_document M p inner data) k0 = Inr (x, k')"
        using st r by (auto simp: rbind_eq_Inr)
      show ?thesis
        using st r x tolerate_Inr [OF x] Some v
        by (auto simp: candidate_hit_def split: sum.splits option.splits prod.splits)
    qed
  qed
  have "rfold ?f (h0, k0) ids = Inr (hits, skipped') \<Longrightarrow> hits = h0 @ List.map_filter ?hit ids" for h0 k0
  proof (induction ids arbitrary: h0 k0)
    case (Cons d ids)
    obtain h1 k1 where 1: "?f (h0, k0) d = Inr (h1, k1)" "rfold ?f (h1, k1) ids = Inr (hits, skipped')"
      using Cons.prems unfolding rfold.simps rbind_eq_Inr by fastforce
    show ?case using Cons.IH [OF 1(2)] step [OF 1(1)] by (simp split: option.splits)
  qed simp
  then show ?thesis using s unfolding score_candidates_def by fastforce
qed

lemma distinct_map_filter:
  assumes "\<And>d hit. f d = Some hit \<Longrightarrow> key hit = d" "distinct ids"
  shows "distinct (map key (List.map_filter f ids))"
  using assms(2)
proof (induction ids)
  case (Cons d ids)
  have "set (map key (List.map_filter f ids)) \<subseteq> set ids" using assms(1) by (auto simp: set_map_filter)
  then show ?case using Cons assms(1) by (auto split: option.splits)
qed simp

section \<open>Deleting a document\<close>

lemma delete_document_everywhere_fields:
  "delete_document_everywhere K s c w = Inr (existed, s') \<Longrightarrow>
   db_locations s' = db_locations s \<and> db_metadata s' = db_metadata s"
  by (auto simp: delete_document_everywhere_def Let_def rbind_eq_Inr)

lemma delete_document_everywhere_postings:
  assumes K: "storage_ok K view" and "delete_document_everywhere K s c w = Inr (existed, s')"
  shows "\<exists>ids. postings K view s c i = Inr ids"
proof -
  obtain entries changes where e: "sg_prefix_iter K (db_doc_index s) (collection_prefix c) = Inr entries"
    "doc_index_rewrites K w entries = Inr changes"
    using assms(2) by (auto simp: delete_document_everywhere_def Let_def rbind_eq_Inr)
  show ?thesis
  proof (cases "view (db_doc_index s) (location_key c i)")
    case None
    then show ?thesis by (simp add: postings_def posting_of_def)
  next
    case (Some v)
    then have "(location_key c i, v) \<in> set entries"
      using listing_set [OF storage_okD(7) [OF K e(1)]] by simp
    then show ?thesis using doc_index_rewrites_eq [OF e(2)] Some by (fastforce simp: postings_def posting_of_def)
  qed
qed

lemma delete_document_result:
  assumes K: "storage_ok (mc_storage M) view" and d: "delete_document M k (c, s) = (Ok existed, c', s')"
  obtains t where "delete_document_everywhere (mc_storage M) (st_dbs s) (co_id c) k = Inr (existed, t)"
    "s' = s\<lparr>st_dbs := t\<rparr>" "c' = c"
proof -
  obtain txn where "write_txn (mc_storage M) s = Inr txn"
    "rbind (delete_document_everywhere (mc_storage M) txn (co_id c) k) (\<lambda>(existed, txn).
       rbind (commit (mc_storage M) s txn) (\<lambda>s. Ok (existed, s))) = Inr (existed, s')" "c' = c"
    using d by (auto simp: delete_document_def Let_def rbind_eq_Inr split: sum.splits)
  then show thesis using that txn_eq [OF K] by (fastforce simp: rbind_eq_Inr)
qed

section \<open>A collection with one document\<close>

lemma one_activation: "activate [1] [once] 1 = ([0], [1])"
  by code_simp

lemma after_document_ok: "inner_ok after_document" "in_valid after_document"
proof -
  obtain s' where run: "write_with_metadata list_machine [1] [] (first_collection, first_store, ()) =
      (Ok 0, first_collection\<lparr>co_inner := after_document\<rparr>, s', ())" using first_document by blast
  obtain out s1 rng1 where b: "document_body list_machine [1] [] 7 (co_inner first_collection) first_store () = (out, s1, rng1)"
    by (metis prod_cases3)
  have "atomic_mutation list_machine (document_body list_machine [1] []) (first_collection, first_store, ()) =
      (Ok 0, first_collection\<lparr>co_inner := after_document\<rparr>, s', ())"
    using run by (auto simp: write_with_metadata_def split: sum.splits)
  then have "\<exists>k. out = Done k after_document \<and> s1 = s'"
    using b by (auto simp: atomic_mutation_def write_inner_def read_inner_def split: ending.splits prod.splits)
  then have "consistent list_machine map_of 7 s' after_document"
    using document_body_cases [OF _ first_collection_consistent _ b] by (force simp: list_storage_ok)
  then show "inner_ok after_document" "in_valid after_document" by (simp_all add: consistent_def)
qed

section \<open>Properties\<close>

text \<open>C12: Reads see the locations: in a well-formed memory the iterative read of a collection,
  which scans the packed address matrix, returns exactly what the reference read over the
  locations returns, and its trace ends with the same vector.\<close>

theorem reads_agree_with_the_reference:
  assumes "inner_ok inner" "0 < cfg_d (in_config inner)" "0 < cfg_k (in_config inner)"
    and "query_inner c query = Ok inner"
  shows "Collection_read L c query HopfieldIter = hopfield_iter L query (in_locations inner) (in_config inner) \<and>
     rbind (analyze_read L c query HopfieldIter) (\<lambda>t. Ok (rt_result t)) = Collection_read L c query HopfieldIter"
proof -
  let ?ls = "in_locations inner" let ?k = "min (cfg_k (in_config inner)) (length ?ls)"
  note ref = inner_activate_reference [OF assms(1,2)]
  have ne: "?ls \<noteq> []" using assms(4) by (auto simp: query_inner_def check_query_def rbind_eq_Inr)
  obtain indices sims where a: "activate query ?ls ?k = (indices, sims)" by fastforce
  have "indices \<noteq> []" using activate_bounds(2) [OF a] assms(3) ne by (cases "in_locations inner") auto
  then show ?thesis
    using a ne hopfield_traced_result
    by (simp add: Collection_read_def analyze_read_def assms(4) ref hopfield_iter_def hopfield_iter_from_def Let_def
        case_prod_beta)
qed

theorem reads_agree_with_the_reference_witness:
  "Collection_read flat_libm (first_collection\<lparr>co_inner := after_document\<rparr>) [1] HopfieldIter =
     hopfield_iter flat_libm [1] [once] one_config"
proof -
  have fin: "is_finite (1 :: f64)" by code_simp
  have q: "query_inner (first_collection\<lparr>co_inner := after_document\<rparr>) [1] = Ok after_document"
    using fin by (simp add: query_inner_def validate_vector_def check_query_def check_dim_def read_inner_def after_document_fields
        one_config_fields after_document_ok)
  show ?thesis
    using reads_agree_with_the_reference [OF _ _ _ q] after_document_ok
    by (simp add: after_document_fields one_config_fields)
qed

text \<open>Locations that are barred from an attention read never contribute to it, and everyone
  who does is a location of the memory.\<close>

lemma barred_locations_never_contribute:
  assumes "read_attention_excluding L c query scale barred = Ok t"
  shows "al_id ` set (at_contributors t) \<inter> set barred = {} \<and>
     al_id ` set (at_contributors t) \<subseteq> {..<length (in_locations (co_inner c))}"
proof -
  let ?ls = "in_locations (co_inner c)"
  let ?allowed = "filter (\<lambda>i. i \<notin> set barred) [0..<length ?ls]"
  have "t = attention_locked L (co_inner c) query scale None (Some ?allowed)"
    using assms by (auto simp: read_attention_excluding_def query_inner_def read_inner_def rbind_eq_Inr Let_def
        split: if_splits)
  then have "al_id ` set (at_contributors t) \<subseteq> set ?allowed \<inter> {..<length ?ls}"
    using attention_contributors activate_locked_allowed unfolding attention_locked_def by (meson subset_trans)
  then show ?thesis by auto
qed

text \<open>Barring no location is no different from a plain attention read.\<close>

lemma excluding_nothing_is_plain:
  assumes "inner_ok (co_inner c)" "0 < cfg_d (in_config (co_inner c))"
  shows "read_attention_excluding L c query scale [] = read_attention_traced L c query scale None"
proof (cases "query_inner c query")
  case (Inl e)
  then show ?thesis by (simp add: read_attention_excluding_def read_attention_traced_def)
next
  case (Inr inner)
  then have i: "inner = co_inner c" "in_locations inner \<noteq> []"
    by (auto simp: query_inner_def check_query_def read_inner_def rbind_eq_Inr)
  have "activate_locked inner query None (Some [0..<length (in_locations inner)]) = activate_locked inner query None None"
    using inner_activate_reference [OF assms] i(1) by (simp add: activate_locked_def activate_subset_all Let_def)
  then show ?thesis using Inr i(2)
    by (simp add: read_attention_excluding_def read_attention_traced_def attention_locked_def Let_def)
qed

text \<open>C7: A document query answers with the best \<open>n\<close>, by similarity, of exactly these documents:
  those posted by one of the locations that the query activates, still stored and decodable,
  each with the similarity of its own vector and its own metadata, and none twice; in whatever
  order the candidate set is walked.\<close>

theorem query_ranks_the_posted_documents:
  assumes "storage_ok (mc_storage M) view" "inner_ok (co_inner c)" "0 < cfg_d (in_config (co_inner c))"
    and "\<forall>ids. mset (order ids) = mset ids"
    and "query_documents M order c s query n = Ok (hits, s')"
  shows "\<exists>found. hits = take n (sort_by (\<lambda>a b. fst (snd b) < fst (snd a)) found) \<and> distinct (map fst found) \<and>
     (\<forall>d sim meta. (d, sim, meta) \<in> set found \<longleftrightarrow>
        (\<exists>j\<in>set (fst (activate query (in_locations (co_inner c)) (query_width (co_inner c) n))).
           posted (mc_storage M) view (st_dbs s) (co_id c) (loc_id (in_locations (co_inner c) ! j)) d) \<and>
        (\<exists>data v. view (db_documents (st_dbs s)) (document_key (co_id c) d) = Some data \<and>
           resolve_document M (st_precision s) (co_inner c) data = Ok (v, meta) \<and> sim = cosine_similarity query v))"
proof (cases "in_locations (co_inner c) = []")
  case True
  have "fst (activate query [] k) = []" for k
    using activate_bounds(3) [of query "[]" k] by (cases "activate query [] k") auto
  moreover have "hits = []"
    using assms(5) True by (auto simp: query_documents_def query_documents_scoped_def read_inner_def rbind_eq_Inr)
  ultimately show ?thesis using True by (intro exI [of _ "[]"]) simp
next
  case False
  let ?inner = "co_inner c"
  let ?score = "\<lambda>d v meta. Some (d, cosine_similarity query v, meta)"
  define indices where "indices = fst (activate query (in_locations ?inner) (query_width ?inner n))"
  obtain txn ids scored skipped where r: "read_txn (mc_storage M) s = Inr txn"
    "gather_candidates M txn (co_id c) ?inner indices = Inr ids"
    "score_candidates M txn (st_precision s) (co_id c) ?inner ?score (st_skipped s) (order ids) = Inr (scored, skipped)"
    "hits = take n (sort_by (\<lambda>a b. fst (snd b) < fst (snd a)) scored)"
    using assms(5) False inner_activate_reference [OF assms(2,3)]
    by (auto simp: query_documents_def query_documents_scoped_def read_inner_def rbind_eq_Inr indices_def case_prod_beta)
  have txn: "txn = st_dbs s" using r(1) storage_okD(2) [OF assms(1)] by (auto simp: read_txn_def rbind_eq_Inr)
  note G = gather_candidates_set [OF assms(1) r(2)] and S = score_candidates_hits [OF assms(1) r(3)]
  have order: "set (order ids) = set ids" "distinct (order ids)"
    using assms(4) G(1) by (metis set_mset_mset, metis mset_eq_imp_distinct_iff)
  have "distinct (map fst scored)"
    unfolding S by (rule distinct_map_filter [OF _ order(2)]) (auto simp: candidate_hit_iff)
  moreover have "(d, sim, meta) \<in> set scored \<longleftrightarrow>
      (\<exists>j\<in>set indices. posted (mc_storage M) view (st_dbs s) (co_id c) (loc_id (in_locations ?inner ! j)) d) \<and>
      (\<exists>data v. view (db_documents (st_dbs s)) (document_key (co_id c) d) = Some data \<and>
         resolve_document M (st_precision s) ?inner data = Ok (v, meta) \<and> sim = cosine_similarity query v)" for d sim meta
    unfolding S set_map_filter order(1) using G(2) by (auto simp: candidate_hit_iff txn)
  ultimately show ?thesis using r(4) unfolding indices_def by blast
qed

theorem query_ranks_the_posted_documents_witness:
  "\<exists>s hits v s' found. query_documents list_machine id (first_collection\<lparr>co_inner := after_document\<rparr>) s [1] 5 =
       Ok (hits, s') \<and> hits = [(0, cosine_similarity [1] v, [])] \<and>
     hits = take 5 (sort_by (\<lambda>a b. fst (snd b) < fst (snd a)) found) \<and> distinct (map fst found)"
proof -
  let ?c = "first_collection\<lparr>co_inner := after_document\<rparr>"
  obtain s :: "(bytes \<times> bytes) list store" and data where s: "document_data list_machine first_store document_inner first_result [1] [] = Inr data"
    "db_documents (st_dbs s) = [(document_key 7 0, data)]" "db_doc_index (st_dbs s) = [(location_key 7 0, u64_to_le 0)]"
    using first_document_store by blast
  obtain v where v: "resolve_document list_machine (st_precision s) after_document data = Ok (v, [])"
    using document_data_resolves [OF s(1) after_document_ok(1)] after_document_fields by auto
  have w: "query_width after_document 5 = 1"
    by (simp add: query_width_def after_document_fields one_config_fields QUERY_CANDIDATE_FACTOR_def)
  have a: "inner_activate after_document [1] 1 = ([0], [1])"
    using inner_activate_reference [OF after_document_ok(1), of "[1]" 1] one_activation
    by (simp add: after_document_fields one_config_fields)
  have fin: "is_finite (1 :: f64)" by code_simp
  have "loc_id once = 0" by (simp add: once_def)
  then have ids: "gather_candidates list_machine (st_dbs s) 7 after_document [0] = Inr [0]"
    by (simp add: gather_candidates_def get_doc_ids_for_location_txn_def after_document_fields s(3))
      (use chunks_u64s [of "[0]"] in \<open>simp add: list_storage_def\<close>)
  have "query_documents list_machine id ?c s [1] 5 = Ok ([(0, cosine_similarity [1] v, [])], s)"
    using fin ids v
    by (simp add: query_documents_def query_documents_scoped_def validate_vector_def read_inner_def check_dim_def
        after_document_fields after_document_ok one_config_fields w a [unfolded One_nat_def] read_txn_def list_K_ops score_candidates_def
        get_document_txn_def)
      (simp add: list_storage_def s(2))
  then have run: "query_documents list_machine id ?c s [1] 5 = Ok ([(0, cosine_similarity [1] v, [])], s)" .
  show ?thesis
    using query_ranks_the_posted_documents [where view = map_of, OF _ _ _ _ run] after_document_ok run
    by (simp add: list_storage_ok after_document_fields one_config_fields) metis
qed

text \<open>For the witness: two documents of collection 7, both posted at the location 3.\<close>

definition posted_store :: "(bytes \<times> bytes) list store" where
  "posted_store = first_store\<lparr>st_dbs := (st_dbs first_store)\<lparr>
     db_documents := [(document_key 7 0, [1]), (document_key 7 5, [2])],
     db_doc_index := [(location_key 7 3, u64_to_le 0 @ u64_to_le 5)]\<rparr>\<rparr>"

lemma delete_document_gone:
  assumes "storage_ok (mc_storage M) view" "delete_document M k (c, s) = (Ok existed, c', s')"
  shows "c' = c \<and> (existed \<longleftrightarrow> view (db_documents (st_dbs s)) (document_key (co_id c) k) \<noteq> None) \<and>
     (consistent M view (co_id c) s (co_inner c) \<longrightarrow> consistent M view (co_id c) s' (co_inner c)) \<and>
     (\<forall>r. Collection_get_document M c s' k = Inr r \<longrightarrow> r = None) \<and>
     \<not> posted (mc_storage M) view (st_dbs s') (co_id c) l k \<and>
     (d \<noteq> k \<longrightarrow> view (db_documents (st_dbs s')) (document_key (co_id c) d) =
        view (db_documents (st_dbs s)) (document_key (co_id c) d) \<and>
        posted (mc_storage M) view (st_dbs s') (co_id c) l d =
        posted (mc_storage M) view (st_dbs s) (co_id c) l d)"
proof -
  let ?K = "mc_storage M"
  obtain t where t: "delete_document_everywhere ?K (st_dbs s) (co_id c) k = Inr (existed, t)" "s' = s\<lparr>st_dbs := t\<rparr>" "c' = c"
    by (rule delete_document_result [OF assms])
  note E = delete_document_everywhere_effect [OF assms(1) t(1)] and F = delete_document_everywhere_fields [OF t(1)]
  obtain ids where ids: "postings ?K view (st_dbs s) (co_id c) l = Inr ids"
    using delete_document_everywhere_postings [OF assms(1) t(1)] by blast
  have "r = None" if g: "Collection_get_document M c s' k = Inr r" for r
  proof -
    obtain txn x where x: "read_txn ?K s' = Inr txn" "get_document_txn ?K txn (co_id c) k = Inr x"
      "x = None \<longrightarrow> r = None"
      using g by (auto simp: Collection_get_document_def get_document_def rbind_eq_Inr split: option.splits)
    then have "txn = t" "x = view (db_documents txn) (document_key (co_id c) k)"
      using storage_okD(2,4) [OF assms(1)] by (auto simp: read_txn_def get_document_txn_def t(2) rbind_eq_Inr)
    then show ?thesis using x(3) E(2) by simp
  qed
  moreover have "consistent M view (co_id c) s' (co_inner c)" if "consistent M view (co_id c) s (co_inner c)"
    using that F by (simp add: consistent_def durable_def t(2))
  moreover have "view (db_documents t) (document_key (co_id c) d) = view (db_documents (st_dbs s)) (document_key (co_id c) d)"
    if "d \<noteq> k"
    using that by (simp add: E(2) document_keys.key_inject)
  ultimately show ?thesis
    using t(3) E(1) E(3) [OF ids] ids by (auto simp: t(2) posted_def)
qed

text \<open>C11: A deleted document is gone: the call says whether there was one, the collection's memory
  is untouched and still what the store holds, fetching the document finds nothing, no
  location posts it, and every other document is as it was.\<close>

theorem deleted_document_is_gone:
  assumes "storage_ok (mc_storage M) view" "delete_document M k (c, s) = (Ok existed, c', s')"
  shows "c' = c \<and> (existed \<longleftrightarrow> view (db_documents (st_dbs s)) (document_key (co_id c) k) \<noteq> None) \<and>
     (consistent M view (co_id c) s (co_inner c) \<longrightarrow> consistent M view (co_id c) s' (co_inner c)) \<and>
     (\<forall>r. Collection_get_document M c s' k = Inr r \<longrightarrow> r = None) \<and>
     \<not> posted (mc_storage M) view (st_dbs s') (co_id c) l k \<and>
     (d \<noteq> k \<longrightarrow> view (db_documents (st_dbs s')) (document_key (co_id c) d) =
        view (db_documents (st_dbs s)) (document_key (co_id c) d) \<and>
        posted (mc_storage M) view (st_dbs s') (co_id c) l d =
        posted (mc_storage M) view (st_dbs s) (co_id c) l d)"
  by (rule delete_document_gone [OF assms])

theorem deleted_document_is_gone_witness:
  "\<exists>s'. delete_document list_machine 0 (first_collection, posted_store) = (Ok True, first_collection, s') \<and>
     posted list_K map_of (st_dbs posted_store) 7 3 0 \<and> \<not> posted list_K map_of (st_dbs s') 7 3 0 \<and>
     posted list_K map_of (st_dbs s') 7 3 5 \<and>
     map_of (db_documents (st_dbs s')) (document_key 7 5) = map_of (db_documents (st_dbs posted_store)) (document_key 7 5)"
proof -
  have "(\<lambda>(r, c, s). r = Ok True \<and> c = first_collection) (delete_document list_machine 0 (first_collection, posted_store))"
    by code_simp
  then obtain s' where run: "delete_document list_machine 0 (first_collection, posted_store) = (Ok True, first_collection, s')"
    by auto
  have before: "postings list_K map_of (st_dbs posted_store) 7 3 = Inr [0, 5]" by code_simp
  show ?thesis
    using deleted_document_is_gone [where view = map_of and l = 3 and d = 5, OF _ run] run before
    by (simp add: list_storage_ok posted_def)
qed

end
