(* ===== verification/Collection_Compress.thy ===== *)
theory Collection_Compress
  imports Collection_Sound
begin

text \<open>
  Compression (collection.rs, \<open>compress\<close>): the loop removes one location at a time and its
  parents always have smaller ids, so the walk from a removed location to the one that
  survives it ends; the memory stays well formed, and the store afterwards holds the
  compressed memory and no removed location.
\<close>

section \<open>The loop\<close>

lemma length_add_into [simp]: "length (add_into as bs) = length as"
  by (induction "as" bs rule: add_into.induct) simp_all

lemma length_normalize_vec: "length (normalize v) = length v"
  by simp

lemma compress_into_wf:
  "loc_wf d a \<Longrightarrow> loc_wf d b \<Longrightarrow> loc_wf d (compress_into wi wj a b)"
  "loc_id (compress_into wi wj a b) = loc_id a"
  by (simp_all add: loc_wf_def compress_into_def)

lemma without_nth:
  fixes xs :: "u64 list"
  assumes "j < length xs" "sorted_wrt (<) xs"
  shows "set (take j xs @ drop (Suc j) xs) = set xs - {xs ! j}" "sorted_wrt (<) (take j xs @ drop (Suc j) xs)"
proof -
  define ys x zs where v: "ys = take j xs" "x = xs ! j" "zs = drop (Suc j) xs"
  have xs: "xs = ys @ x # zs" unfolding v by (rule id_take_nth_drop [OF assms(1)])
  then have s: "sorted_wrt (<) (ys @ x # zs)" using assms(2) by simp
  then have "x \<notin> set ys" "x \<notin> set zs" by (auto simp: sorted_wrt_append)
  then show "set (take j xs @ drop (Suc j) xs) = set xs - {xs ! j}"
    unfolding v [symmetric] by (subst xs) auto
  show "sorted_wrt (<) (take j xs @ drop (Suc j) xs)"
    unfolding v [symmetric] using s by (simp add: sorted_wrt_append)
qed

lemma compress_merge_ids:
  assumes "bi < bj" "bj < length ls"
  shows "map loc_id (compress_merge bi bj wi wj ls) = take bj (map loc_id ls) @ drop (Suc bj) (map loc_id ls)"
proof -
  have "map loc_id (ls[bi := compress_into wi wj (ls ! bi) (ls ! bj)]) = map loc_id ls"
    using assms by (intro nth_equalityI) (auto simp: nth_list_update compress_into_wf(2))
  then show ?thesis by (simp add: compress_merge_def Let_def take_map [symmetric] drop_map [symmetric])
qed

lemma compress_merge_ok:
  assumes ij: "bi < bj" "bj < length ls" and m: "memory_ok d n ls"
  shows "memory_ok d n (compress_merge bi bj wi wj ls)"
    "loc_id ` set (compress_merge bi bj wi wj ls) = loc_id ` set ls - {loc_id (ls ! bj)}"
proof -
  let ?ids = "map loc_id ls" and ?ms = "compress_merge bi bj wi wj ls"
  have sorted: "sorted_wrt (<) ?ids" and j: "bj < length ?ids" using m ij by (simp_all add: memory_ok_def)
  note ids = compress_merge_ids [OF ij, of wi wj] and without = without_nth [OF j sorted]
  have "set (map loc_id ?ms) = set ?ids - {?ids ! bj}" unfolding ids by (rule without(1))
  then show set: "loc_id ` set ?ms = loc_id ` set ls - {loc_id (ls ! bj)}" using ij by simp
  have s: "sorted_wrt (<) (map loc_id ?ms)" unfolding ids by (rule without(2))
  have "set ?ms \<subseteq> insert (compress_into wi wj (ls ! bi) (ls ! bj)) (set ls)"
    by (auto simp: compress_merge_def Let_def dest!: in_set_takeD in_set_dropD set_update_subset_insert [THEN subsetD])
  moreover have "loc_wf d (compress_into wi wj (ls ! bi) (ls ! bj))"
    using m ij by (intro compress_into_wf) (auto simp: memory_ok_def)
  ultimately have "\<forall>l\<in>set ?ms. loc_wf d l" using m by (auto simp: memory_ok_def)
  moreover have "\<forall>l\<in>set ?ms. loc_id l < n"
  proof
    fix l assume "l \<in> set ?ms"
    then have "loc_id l \<in> loc_id ` set ls" using set by blast
    then show "loc_id l < n" using m by (auto simp: memory_ok_def)
  qed
  ultimately show "memory_ok d n ?ms" using s by (simp add: memory_ok_def)
qed

text \<open>The removed ids, their parents, and what is left.\<close>

definition compressed ::
  "nat \<Rightarrow> u64 \<Rightarrow> HardLocation list \<Rightarrow> HardLocation list \<Rightarrow> u64 list \<Rightarrow> (u64 \<times> u64) list \<Rightarrow> bool" where
  "compressed d n before ls removed parent \<longleftrightarrow>
     memory_ok d n ls \<and> loc_id ` set ls = loc_id ` set before - set removed \<and>
     set removed \<subseteq> loc_id ` set before \<and> distinct removed \<and> map fst parent = rev removed \<and>
     (\<forall>(a, b)\<in>set parent. b < a \<and> b \<in> loc_id ` set before)"

lemma compressed_lengths:
  assumes "compressed d n before ls removed parent" "memory_ok d n before"
  shows "length before = length ls + length removed"
proof -
  have "distinct (map loc_id ls)" "distinct (map loc_id before)"
    using assms by (auto simp: compressed_def dest: memory_ok_distinct)
  then have ids: "length ls = card (loc_id ` set ls)" "length before = card (loc_id ` set before)"
    using distinct_card [of "map loc_id ls"] distinct_card [of "map loc_id before"] by simp_all
  have "card (loc_id ` set before - set removed) = card (loc_id ` set before) - length removed"
    using assms(1) by (simp add: compressed_def card_Diff_subset distinct_card)
  moreover have "card (set removed) \<le> card (loc_id ` set before)"
    using assms(1) by (intro card_mono) (simp_all add: compressed_def)
  moreover have "card (set removed) = length removed"
    using assms(1) by (simp add: compressed_def distinct_card)
  ultimately show ?thesis using ids assms(1) by (simp add: compressed_def)
qed

lemma compress_loop_compressed:
  assumes "compressed d n before ls removed parent"
    and "compress_loop L kappa lambda w ls removed parent = (ls', removed', parent')"
  shows "compressed d n before ls' removed' parent'"
  using assms
proof (induction L kappa lambda w ls removed parent rule: compress_loop.induct)
  case (1 L kappa lambda w ls removed parent)
  show ?case
  proof (cases "compress_choice L kappa lambda w ls")
    case None
    then show ?thesis using 1(2,3) by (simp add: compress_loop.simps)
  next
    case (Some c)
    obtain bi bj wi wj where c: "c = (bi, bj, wi, wj)" by (metis prod_cases4)
    note range = compress_choice_range(1,2) [OF Some [unfolded c]]
    have m: "memory_ok d n ls" using 1(2) by (simp add: compressed_def)
    note ok = compress_merge_ok [OF range m]
    let ?j = "loc_id (ls ! bj)" and ?i = "loc_id (ls ! bi)"
    have "?i < ?j" using m range sorted_wrt_nth_less [of "(<)" "map loc_id ls" bi bj] by (simp add: memory_ok_def)
    moreover have "?i \<in> loc_id ` set ls" "?j \<in> loc_id ` set ls" using range by auto
    ultimately have "compressed d n before (compress_merge bi bj wi wj ls) (removed @ [?j]) ((?j, ?i) # parent)"
      using 1(2) ok unfolding compressed_def by auto
    then show ?thesis
      using 1(1) [OF Some [unfolded c] refl refl refl] 1(3) Some c by (simp add: compress_loop.simps)
  qed
qed

lemma compress_loop_grows:
  "compress_loop L kappa lambda w ls removed parent = (ls', removed', parent') \<Longrightarrow>
   \<exists>more. removed' = removed @ more"
proof (induction L kappa lambda w ls removed parent rule: compress_loop.induct)
  case (1 L kappa lambda w ls removed parent)
  show ?case
  proof (cases "compress_choice L kappa lambda w ls")
    case None
    then show ?thesis using 1(2) by (simp add: compress_loop.simps)
  next
    case (Some c)
    obtain bi bj wi wj where c: "c = (bi, bj, wi, wj)" by (metis prod_cases4)
    have "compress_loop L kappa lambda w (compress_merge bi bj wi wj ls) (removed @ [loc_id (ls ! bj)])
        ((loc_id (ls ! bj), loc_id (ls ! bi)) # parent) = (ls', removed', parent')"
      using 1(2) Some c by (simp add: compress_loop.simps)
    from 1(1) [OF Some [unfolded c] refl refl refl this] show ?thesis by auto
  qed
qed

section \<open>The chain of parents\<close>

lemma compress_loop_stops:
  "compress_loop L kappa lambda w ls removed parent = (ls', removed', parent') \<Longrightarrow>
   compress_choice L kappa lambda w ls' = None"
proof (induction L kappa lambda w ls removed parent rule: compress_loop.induct)
  case (1 L kappa lambda w ls removed parent)
  show ?case
  proof (cases "compress_choice L kappa lambda w ls")
    case None
    then show ?thesis using 1(2) by (subst (asm) compress_loop.simps) simp
  next
    case (Some c)
    obtain bi bj wi wj where c: "c = (bi, bj, wi, wj)" by (metis prod_cases4)
    have "compress_loop L kappa lambda w (compress_merge bi bj wi wj ls) (removed @ [loc_id (ls ! bj)])
        ((loc_id (ls ! bj), loc_id (ls ! bi)) # parent) = (ls', removed', parent')"
      using 1(2) Some c by (simp add: compress_loop.simps)
    then show ?thesis by (rule 1(1) [OF Some [unfolded c] refl refl refl])
  qed
qed

lemma final_survivor_ends:
  assumes "\<forall>(a, b)\<in>set parent. b < a"
  shows "\<exists>f. final_survivor parent i = Some f \<and> map_of parent f = None \<and> (f = i \<or> f \<in> snd ` set parent)"
proof (induction i rule: measure_induct_rule [of unat])
  case (less i)
  show ?case
  proof (cases "map_of parent i")
    case None
    then show ?thesis by (simp add: final_survivor.simps)
  next
    case (Some p)
    then have p: "(i, p) \<in> set parent" by (rule map_of_SomeD)
    then have "unat p < unat i" using assms by (auto simp: word_less_nat_alt)
    from less.IH [OF this] obtain f where "final_survivor parent p = Some f" "map_of parent f = None"
      "f = p \<or> f \<in> snd ` set parent" by blast
    then show ?thesis using Some p by (force simp: final_survivor.simps image_iff)
  qed
qed

lemma compressed_survivor:
  assumes "compressed d n before ls removed parent" "i \<in> loc_id ` set before"
  shows "\<exists>f. final_survivor parent i = Some f \<and> f \<in> loc_id ` set ls"
proof -
  have "\<forall>(a, b)\<in>set parent. b < a" using assms(1) by (auto simp: compressed_def)
  then obtain f where f: "final_survivor parent i = Some f" "map_of parent f = None"
    "f = i \<or> f \<in> snd ` set parent" using final_survivor_ends by blast
  have "f \<in> loc_id ` set before" using f(3) assms by (auto simp: compressed_def)
  moreover have "f \<notin> set removed"
  proof -
    have "set removed = set (map fst parent)" using assms(1) by (simp add: compressed_def)
    then show ?thesis using f(2) by (auto simp: map_of_eq_None_iff)
  qed
  ultimately show ?thesis using assms(1) f(1) by (auto simp: compressed_def)
qed

section \<open>Persisting\<close>

lemma migrate_postings_fields:
  assumes "migrate_postings K c s removed survivor = Inr s'"
  shows "db_locations s' = db_locations s" "db_metadata s' = db_metadata s" "db_documents s' = db_documents s"
  using assms by (auto simp: migrate_postings_def put_doc_index_entry_def delete_doc_index_entry_def rbind_eq_Inr
      split: if_splits)

lemma compress_postings_records:
  assumes K: "storage_ok K view"
    and r: "records (sg_codec K) p c (view (db_locations s)) t"
    and d: "compress_postings K c parent removed s = Some (Inr s')"
  shows "records (sg_codec K) p c (view (db_locations s')) (\<lambda>i. if i \<in> set removed then None else t i)"
    "db_metadata s' = db_metadata s" "db_documents s' = db_documents s"
proof -
  have "records (sg_codec K) p c (view (db_locations s')) (\<lambda>i. if i \<in> set removed then None else t i) \<and>
      db_metadata s' = db_metadata s \<and> db_documents s' = db_documents s"
    using d r
  proof (induction removed arbitrary: s t)
    case Nil
    then show ?case by simp
  next
    case (Cons i removed)
    obtain f s1 s2 where s1: "migrate_postings K c s i f = Inr s1" "delete_location K s1 c i = Inr s2"
      "compress_postings K c parent removed s2 = Some (Inr s')"
      using Cons.prems(1) by (auto simp: rbind_eq_Inr split: option.splits sum.splits)
    note M = migrate_postings_fields [OF s1(1)]
    have "records (sg_codec K) p c (view (db_locations s1)) t" using Cons.prems(2) M(1) by simp
    note D = delete_location_records [OF K s1(2) this]
    have "(\<lambda>j. if j \<in> set removed then None else (t(i := None)) j) =
        (\<lambda>j. if j \<in> set (i # removed) then None else t j)" by auto
    with Cons.IH [OF s1(3) D(1)] D(2,3) M show ?case by simp
  qed
  then show "records (sg_codec K) p c (view (db_locations s')) (\<lambda>i. if i \<in> set removed then None else t i)"
    "db_metadata s' = db_metadata s" "db_documents s' = db_documents s" by simp_all
qed

lemma persist_compress_durable:
  assumes K: "storage_ok (mc_storage M) view" and ok: "consistent M view c s old"
    and cmp: "compressed d n (in_locations old) ls removed parent"
    and p: "persist_compress M c ls removed parent s = Some (Inr s')"
  shows "durable (mc_storage M) view c s' (old\<lparr>in_locations := ls\<rparr>)" "st_precision s' = st_precision s"
proof -
  let ?K = "mc_storage M"
  obtain t1 t2 where t: "compress_postings ?K c parent removed (st_dbs s) = Some (Inr t1)"
    "put_locations M (st_precision s) t1 c ls = Inr t2" "s' = s\<lparr>st_dbs := t2\<rparr>"
    using p txn_eq [OF K]
    by (fastforce simp: persist_compress_def rbind_eq_Inr split: sum.splits option.splits)
  have dur: "durable ?K view c s old" using ok by (simp add: consistent_def)
  then have "records (sg_codec ?K) (st_precision s) c (view (db_locations (st_dbs s))) (by_id (in_locations old))"
    by (simp add: durable_def)
  note C = compress_postings_records [OF K this t(1)]
  have mem: "memory_ok d n ls" using cmp by (simp add: compressed_def)
  have "(if i \<in> set removed then None else by_id (in_locations old) i) = None" if "i \<notin> loc_id ` set ls" for i
    using cmp that by_id_None [of "in_locations old" i] by (auto simp: compressed_def)
  note P = put_all [OF K C(1) mem t(2) this]
  show "durable ?K view c s' (old\<lparr>in_locations := ls\<rparr>)" "st_precision s' = st_precision s"
    using dur P C(2) by (simp_all add: durable_def t(3))
qed

lemma compress_postings_ends:
  assumes "\<And>i. i \<in> set removed \<Longrightarrow> final_survivor parent i \<noteq> None"
  shows "compress_postings K c parent removed s \<noteq> None"
  using assms
proof (induction removed arbitrary: s)
  case (Cons i removed)
  then obtain f where "final_survivor parent i = Some f" by auto
  with Cons show ?case by (auto split: sum.splits)
qed simp

section \<open>Compression keeps the collection sound\<close>

lemma compress_body_cases:
  assumes K: "storage_ok (mc_storage M) view" and ok: "consistent M view i s inner"
  obtains (Clean) e s' rng' where "compress_body M kappa lambda i inner s rng = Some (Clean e, s', rng')" "s' = s"
  | (Dirty) e inner' s' rng' where "compress_body M kappa lambda i inner s rng = Some (Dirty e inner', s', rng')"
      "consistent M view i s' inner" "st_precision s' = st_precision s" "in_config inner' = in_config inner"
  | (Done) v inner' s' rng' removed parent where
      "compress_body M kappa lambda i inner s rng = Some (Done v inner', s', rng')"
      "consistent M view i s' inner'" "in_version inner' = in_version inner"
      "compressed (cfg_d (in_config inner)) (in_next_id inner) (in_locations inner) (in_locations inner') removed parent"
      "cr_merges v = length removed" "cr_locations_before v = length (in_locations inner)"
      "cr_locations_after v = length (in_locations inner')"
      "compress_choice (mc_libm M) kappa lambda
         (f64_max (f64_sum (map loc_write_count (in_locations inner))) 1) (in_locations inner') = None"
proof (cases "materialize_document_refs M i inner s")
  case (Inl e)
  then show thesis by (intro Clean) (simp_all add: compress_body_def)
next
  case (Inr ns)
  obtain k s1 where ns: "ns = (k, s1)" by fastforce
  note M1 = materialize_consistent [OF K ok Inr [unfolded ns]]
  let ?L = "mc_libm M" and ?ls = "in_locations inner"
  let ?w = "f64_max (f64_sum (map loc_write_count ?ls)) 1"
  obtain ls removed parent where loop: "compress_loop ?L kappa lambda ?w ?ls [] [] = (ls, removed, parent)"
    by (metis prod_cases3)
  have mem: "memory_ok (cfg_d (in_config inner)) (in_next_id inner) ?ls"
    using ok by (simp add: consistent_def inner_ok_def Let_def)
  then have "compressed (cfg_d (in_config inner)) (in_next_id inner) ?ls ?ls [] []" by (simp add: compressed_def)
  then have cmp: "compressed (cfg_d (in_config inner)) (in_next_id inner) ?ls ls removed parent"
    by (rule compress_loop_compressed [OF _ loop])
  let ?inner = "inner\<lparr>in_locations := ls\<rparr>"
  show thesis
  proof (cases "removed = []")
    case True
    then have same: "ls = ?ls"
    proof -
      have "compress_choice ?L kappa lambda ?w ?ls = None"
      proof (rule ccontr)
        assume "compress_choice ?L kappa lambda ?w ?ls \<noteq> None"
        then obtain bi bj wi wj where c: "compress_choice ?L kappa lambda ?w ?ls = Some (bi, bj, wi, wj)"
          by (metis not_None_eq prod_cases4)
        have "\<exists>more. removed = [loc_id (?ls ! bj)] @ more"
          using loop c by (subst (asm) compress_loop.simps) (auto dest: compress_loop_grows)
        then show False using True by simp
      qed
      then show ?thesis using loop by (simp add: compress_loop.simps)
    qed
    show thesis
      by (rule Done [of _ inner s1 rng, rotated]) (use True Inr ns loop same M1 cmp compress_loop_stops [OF loop] in \<open>auto simp: compress_body_def Let_def\<close>)
  next
    case False
    have "final_survivor parent j \<noteq> None" if "j \<in> set removed" for j
    proof -
      have "j \<in> loc_id ` set ?ls" using that cmp unfolding compressed_def by blast
      then show ?thesis using compressed_survivor [OF cmp] by fastforce
    qed
    then have "compress_postings (mc_storage M) i parent removed t \<noteq> None" for t
      by (rule compress_postings_ends)
    then have "persist_compress M i ls removed parent s1 \<noteq> None"
      by (simp add: persist_compress_def split: sum.splits)
    then obtain r where r: "persist_compress M i ls removed parent s1 = Some r" by auto
    show thesis
    proof (cases r)
      case (Inl e)
      show thesis
        by (rule Dirty [of e ?inner s1 rng]) (use Inl False Inr ns loop r M1 in \<open>auto simp: compress_body_def Let_def\<close>)
    next
      case inr: (Inr s2)
      have "memory_ok (cfg_d (in_config inner)) (in_next_id inner) ls" using cmp by (simp add: compressed_def)
      then have "inner_ok (rebuild_graph_cache ?inner)" by (intro rebuild_graph_cache_ok) simp
      moreover note persist_compress_durable [OF K M1(1) cmp r [unfolded inr]]
      ultimately have "consistent M view i s2 (rebuild_graph_cache ?inner)"
        using ok by (simp add: consistent_def durable_def)
      then show thesis
        by (rule Done [of _ "rebuild_graph_cache ?inner" s2 rng, rotated]) (use False Inr ns loop r inr cmp compress_loop_stops [OF loop] in \<open>auto simp: compress_body_def Let_def\<close>)
    qed
  qed
qed

definition total_compress ::
  "f64 \<Rightarrow> f64 \<Rightarrow> ('r, 'db) machine \<Rightarrow> u32 \<Rightarrow> EAMInner \<Rightarrow> 'db store \<Rightarrow> 'r \<Rightarrow>
   CompressResult ending \<times> 'db store \<times> 'r" where
  "total_compress kappa lambda M i inner s rng =
     (case compress_body M kappa lambda i inner s rng of
        Some e \<Rightarrow> e
      | None \<Rightarrow> (Clean Panic, s, rng))"

lemma Collection_compress_total:
  assumes "compress_body M kappa lambda (co_id c) (co_inner c) s rng \<noteq> None"
  shows "Collection_compress M kappa lambda (c, s, rng) =
    Some (atomic_mutation M (total_compress kappa lambda M) (c, s, rng))"
proof (cases "write_inner c")
  case (Inl e)
  then show ?thesis by (simp add: Collection_compress_def atomic_mutation_def)
next
  case (Inr inner)
  then have "inner = co_inner c" by (auto simp: write_inner_def read_inner_def rbind_eq_Inr)
  then show ?thesis using assms Inr
    by (auto simp: Collection_compress_def atomic_mutation_def total_compress_def)
qed

interpretation compression: mutation "total_compress kappa lambda" "\<lambda>_. True" for kappa lambda
proof
  fix M :: "('r, 'db) machine" and view i s inner rng e s' rng'
  assume K: "storage_ok (mc_storage M) view" and ok: "consistent M view i s inner"
    and "total_compress kappa lambda M i inner s rng = (Clean e, s', rng')"
  then show "consistent M view i s' inner \<and> st_precision s' = st_precision s"
    by (cases rule: compress_body_cases [OF K ok, of kappa lambda rng]) (auto simp: total_compress_def)
next
  fix M :: "('r, 'db) machine" and view i s inner rng e inner' s' rng'
  assume K: "storage_ok (mc_storage M) view" and ok: "consistent M view i s inner"
    and "total_compress kappa lambda M i inner s rng = (Dirty e inner', s', rng')"
  then show "consistent M view i s' inner \<and> st_precision s' = st_precision s \<and> in_config inner' = in_config inner"
    by (cases rule: compress_body_cases [OF K ok, of kappa lambda rng]) (auto simp: total_compress_def)
next
  fix M :: "('r, 'db) machine" and view i s inner rng v inner' s' rng'
  assume K: "storage_ok (mc_storage M) view" and ok: "consistent M view i s inner"
    and "total_compress kappa lambda M i inner s rng = (Done v inner', s', rng')"
  then show "consistent M view i s' inner'"
    by (cases rule: compress_body_cases [OF K ok, of kappa lambda rng]) (auto simp: total_compress_def)
qed

lemma compress_ends:
  assumes "storage_ok (mc_storage M) view" "sound M view c s"
  shows "Collection_compress M kappa lambda (c, s, rng) =
    Some (atomic_mutation M (total_compress kappa lambda M) (c, s, rng))"
proof (cases "in_valid (co_inner c)")
  case False
  then show ?thesis
    by (auto simp: Collection_compress_def atomic_mutation_def write_inner_def read_inner_def ensure_def)
next
  case True
  then have ok: "consistent M view (co_id c) s (co_inner c)" using assms(2) by (simp add: sound_def)
  show ?thesis
    by (rule Collection_compress_total, cases rule: compress_body_cases [OF assms(1) ok, of kappa lambda rng])
      simp_all
qed

section \<open>Properties\<close>

text \<open>C8: Compression returns, whatever the memory and the thresholds: the walk from each removed
  location to the one that survives it ends. And it leaves memory and store together, after a
  success, an error or a panic alike.\<close>

theorem compression_ends_and_stays_sound:
  assumes "storage_ok (mc_storage M) view" "sound M view c s"
  shows "\<exists>r c' s' rng'. Collection_compress M kappa lambda (c, s, rng) = Some (r, c', s', rng') \<and>
     sound M view c' s'"
proof -
  obtain r c' s' rng' where run: "atomic_mutation M (total_compress kappa lambda M) (c, s, rng) = (r, c', s', rng')"
    by (metis prod_cases4)
  then show ?thesis
    using compress_ends [OF assms, of kappa lambda rng] compression.keeps_sound [OF assms TrueI run] by simp
qed

theorem compression_ends_and_stays_sound_witness:
  "\<exists>r c' s' rng'. Collection_compress list_machine 1 1 (first_collection, first_store, ()) = Some (r, c', s', rng') \<and>
     sound list_machine map_of c' s'"
  using compression_ends_and_stays_sound [OF _ first_collection_sound, of 1 1 "()"] by (simp add: list_storage_ok)

text \<open>A compression that succeeds merged until no merge pays any more, kept every location's
  id or merged it away, and reports exactly what it did: the merges it counts are the locations
  that are gone.\<close>

lemma compression_reports_what_it_did:
  assumes "storage_ok (mc_storage M) view" "consistent M view (co_id c) s (co_inner c)"
    and "Collection_compress M kappa lambda (c, s, rng) = Some (Ok v, c', s', rng')"
  shows "let before = in_locations (co_inner c); after = in_locations (co_inner c');
       w = f64_max (f64_sum (map loc_write_count before)) 1
     in compress_choice (mc_libm M) kappa lambda w after = None \<and>
        loc_id ` set after \<subseteq> loc_id ` set before \<and>
        cr_locations_before v = length before \<and> cr_locations_after v = length after \<and>
        length before = length after + cr_merges v"
proof -
  have w: "write_inner c = Inr (co_inner c)"
    using assms(3) by (auto simp: Collection_compress_def write_inner_def read_inner_def rbind_eq_Inr split: sum.splits)
  from assms(1,2) show ?thesis
  proof (cases rule: compress_body_cases [of M view "co_id c" s "co_inner c" kappa lambda rng])
    case (Clean e s1 rng1)
    then show ?thesis using assms(3) w by (simp add: Collection_compress_def atomic_mutation_def)
  next
    case (Dirty e inner1 s1 rng1)
    then show ?thesis using assms(3) w by (auto simp: Collection_compress_def atomic_mutation_def split: prod.splits)
  next
    case (Done v1 inner1 s1 rng1 removed parent)
    then have "v1 = v" "co_inner c' = inner1"
      using assms(3) w by (auto simp: Collection_compress_def atomic_mutation_def)
    then show ?thesis using Done compressed_lengths [OF Done(4)] assms(2)
      by (auto simp: Let_def compressed_def consistent_def inner_ok_def)
  qed
qed

end
