(* ===== verification/Collection_Batch.thy ===== *)
theory Collection_Batch
  imports Collection_Compress
begin

text \<open>
  Batches (collection.rs, \<open>write_batch_with_metadata\<close> and \<open>write_batch\<close>): the loop of a
  document batch keeps the memory well formed and records every index it touches, so
  storing the touched locations in their final state stores the memory; and it computes the
  memory that one write per item computes.
\<close>

section \<open>The loop of a document batch\<close>

definition batch_ok :: "EAMInner \<Rightarrow> nat \<Rightarrow> EAMInner \<Rightarrow> nat list \<Rightarrow> bool" where
  "batch_ok old n inner touched \<longleftrightarrow>
     (let ls = in_locations inner
      in inner_ok inner \<and> in_config inner = in_config old \<and> in_valid inner = in_valid old \<and>
         unat (in_next_id inner) \<le> n \<and> set touched \<subseteq> {..<length ls} \<and>
         (\<exists>more. map loc_id ls = map loc_id (in_locations old) @ more) \<and>
         (\<forall>i<length ls. i \<notin> set touched \<longrightarrow> i < length (in_locations old) \<and> ls ! i = in_locations old ! i))"

lemma batch_okD:
  assumes "batch_ok old n inner touched"
  shows "inner_ok inner" "in_config inner = in_config old" "in_valid inner = in_valid old"
    "unat (in_next_id inner) \<le> n" "set touched \<subseteq> {..<length (in_locations inner)}"
    "\<exists>more. map loc_id (in_locations inner) = map loc_id (in_locations old) @ more"
    "i < length (in_locations inner) \<Longrightarrow> i \<notin> set touched \<Longrightarrow>
       i < length (in_locations old) \<and> in_locations inner ! i = in_locations old ! i"
  using assms by (simp_all add: batch_ok_def Let_def)

abbreviation now_touched :: "nat list \<Rightarrow> WriteResult \<Rightarrow> EAMInner \<Rightarrow> EAMInner \<Rightarrow> nat list" where
  "now_touched touched r synced grown \<equiv> touched @ wr_modified_indices r @
     (if wr_new_locations r = [] then [] else [length (in_locations synced)..<length (in_locations grown)])"

text \<open>One item of the batch on the memory: the write, the document id, the caches.\<close>

lemma item_step:
  assumes ok: "batch_ok old n start touched" and dim: "length input = cfg_d (in_config old)" "0 < cfg_d (in_config old)"
    and room: "n + 1 < 2 ^ 64"
    and w: "apply_write M input input WriteOpts_default start rng = (r, inner, rng')"
  obtains synced where
    "sync_addresses (wr_modified_indices r) (inner\<lparr>in_doc_next_id := k\<rparr>) = Inr synced"
    "in_locations synced = in_locations inner"
    "batch_ok old (n + 1) (extend_locations (wr_new_locations r) synced)
       (now_touched touched r synced (extend_locations (wr_new_locations r) synced))"
    "in_doc_next_id (extend_locations (wr_new_locations r) synced) = k"
    "in_locations (extend_locations (wr_new_locations r) synced) = in_locations inner @ wr_new_locations r"
    "map loc_id (in_locations inner) = map loc_id (in_locations start)"
    "in_doc_next_id inner = in_doc_next_id start" "set (wr_modified_indices r) \<subseteq> {..<length (in_locations inner)}"
proof -
  note B = batch_okD [OF ok]
  have d: "length input = cfg_d (in_config start)" "0 < cfg_d (in_config start)"
    and room': "unat (in_next_id start) + 1 < 2 ^ 64" using dim B(2,4) room by simp_all
  note W = apply_write_ok [OF B(1) w d(1) d(1) d(2) room']
  let ?in2 = "inner\<lparr>in_doc_next_id := k\<rparr>" and ?new = "wr_new_locations r"
  have mem: "memory_ok (cfg_d (in_config ?in2)) (in_next_id ?in2) (in_locations ?in2 @ ?new)"
    using W(1,8) by simp
  have len: "length (in_locations inner) = length (in_locations start)"
    using W(4) map_eq_imp_length_eq by fastforce
  have js: "set (wr_modified_indices r) \<subseteq> {..<length (in_locations ?in2)}" using W(3) len by simp
  have caches: "caches_ok (set (wr_modified_indices r)) ?in2" using W(2) by (simp add: caches_ok_def Let_def)
  obtain synced where y: "sync_addresses (wr_modified_indices r) ?in2 = Inr synced"
    "inner_ok (extend_locations ?new synced)" "in_locations synced = in_locations inner"
    "in_locations (extend_locations ?new synced) = in_locations inner @ ?new"
    "in_config (extend_locations ?new synced) = in_config inner"
    "in_next_id (extend_locations ?new synced) = in_next_id inner"
    "in_doc_next_id (extend_locations ?new synced) = k"
    "in_valid (extend_locations ?new synced) = in_valid inner"
    by (rule finish_write [OF mem caches js]) (simp_all add: that)
  have nid: "unat (in_next_id inner) \<le> n + 1"
    using W(6,7) B(4) room' by (cases ?new) (auto simp: unat_word_ariths)
  have ids: "\<exists>more. map loc_id (in_locations inner @ ?new) = map loc_id (in_locations old) @ more"
    using B(6) W(4) by auto
  have others: "i < length (in_locations old) \<and> (in_locations inner @ ?new) ! i = in_locations old ! i"
    if "i < length (in_locations inner @ ?new)" "i \<notin> set touched" "i \<notin> set (wr_modified_indices r)"
      "?new \<noteq> [] \<Longrightarrow> i \<notin> {length (in_locations inner)..<length (in_locations inner @ ?new)}" for i
  proof -
    have i: "i < length (in_locations inner)" using that(1,4) by (cases "?new = []") auto
    then show ?thesis using B(7) [of i] that(2,3) W(5) [of i] len by (simp add: nth_append)
  qed
  have bound: "set touched \<subseteq> {..<length (in_locations inner @ ?new)}"
    using B(5) len by auto
  have "batch_ok old (n + 1) (extend_locations ?new synced) (now_touched touched r synced (extend_locations ?new synced))"
    using y(2-6,8) W(8,10) B(2,3) nid ids others js bound
    unfolding batch_ok_def Let_def by (simp add: ball_Un) auto
  then show thesis using js by (intro that [OF y(1,3) _ y(7,4) W(4,9)]) simp_all
qed

text \<open>
  A document as the batch encodes it: a copy of the vector, or a reference to a location
  that holds it, which only a memory that never moves its locations makes.
\<close>

definition encodes ::
  "('r, 'db) machine \<Rightarrow> precision \<Rightarrow> EAMInner \<Rightarrow> f64 list \<times> bytes \<Rightarrow> bytes \<Rightarrow> bool" where
  "encodes M p inner item data \<longleftrightarrow>
     (let (input, metadata) = item; E = sg_codec (mc_storage M)
      in encode_document E input metadata p = Inr data \<or>
         \<not> cfg_competitive (in_config inner) \<and>
         (\<exists>l\<in>set (in_locations inner). vec_feq (loc_address l) input \<and>
            encode_document_ref E (loc_id l) metadata p = Inr data))"

lemma encodes_resolves:
  assumes "encodes M p inner (input, metadata) data" "inner_ok inner" "length (in_locations inner) < 2 ^ 32"
  shows "\<exists>v. resolve_document M q inner data = Ok (v, metadata) \<and> (v = stored_vector p input \<or> vec_feq v input)"
proof -
  consider "encode_document (sg_codec (mc_storage M)) input metadata p = Inr data"
    | l where "l \<in> set (in_locations inner)" "vec_feq (loc_address l) input"
        "encode_document_ref (sg_codec (mc_storage M)) (loc_id l) metadata p = Inr data"
    using assms(1) by (auto simp: encodes_def Let_def)
  then show ?thesis
  proof cases
    case 1
    then show ?thesis using decode_encode_document(1) by (simp add: resolve_document_def)
  next
    case 2
    then show ?thesis
      using decode_encode_document_ref location_address_ok [OF assms(2) 2(1) assms(3)]
      by (simp add: resolve_document_def)
  qed
qed

lemma plain_write_keeps:
  assumes "apply_write M a k opts inner rng = (r, inner', rng')" "a \<noteq> []" "\<not> cfg_competitive (in_config inner)"
  shows "in_locations inner' = in_locations inner"
proof -
  obtain ls' nid' where e: "adaptive_write_two (mc_libm M) (mc_normal M) a k (in_locations inner) (in_config inner)
      (in_eta inner) (in_next_id inner) rng (write_scan (in_matrix32 inner) (in_max_norm inner)) opts = (r, ls', nid', rng')"
    and i: "in_locations inner' = ls'"
    using assms(1) by (auto simp: apply_write_def Let_def split: prod.splits)
  show ?thesis by (cases rule: adaptive_write_two_cases [OF e assms(2)]) (use assms(3) i in simp_all)
qed

lemma encodes_mono:
  assumes "encodes M p inner item data" "in_config inner' = in_config inner"
    and "\<not> cfg_competitive (in_config inner) \<Longrightarrow> set (in_locations inner) \<subseteq> set (in_locations inner')"
  shows "encodes M p inner' item data"
  using assms unfolding encodes_def by (auto simp: Let_def)

lemma document_data_encodes:
  assumes "document_data M s inner r input metadata = Inr data"
    and "set (wr_new_locations r) \<subseteq> set (in_locations inner)"
  shows "encodes M (st_precision s) inner (input, metadata) data"
proof (cases "plain_location (in_config inner) (wr_modified_indices r) (wr_new_locations r) input")
  case None
  then show ?thesis using assms(1) by (simp add: document_data_def encodes_def)
next
  case (Some i)
  then obtain l where "wr_new_locations r = [l]" "loc_id l = i" "vec_feq (loc_address l) input"
    "\<not> cfg_competitive (in_config inner)"
    by (auto simp: plain_location_def split: list.splits if_splits)
  then show ?thesis using assms Some by (auto simp: document_data_def encodes_def Let_def)
qed

text \<open>The documents encoded so far, for the items \<open>past\<close>, with their ids and postings.\<close>

definition docs_ok ::
  "('r, 'db) machine \<Rightarrow> precision \<Rightarrow> u64 \<Rightarrow> (f64 list \<times> bytes) list \<Rightarrow> 'r doc_batch \<Rightarrow> bool" where
  "docs_ok M p k past b \<longleftrightarrow>
     map fst (bd_docs b) = map (\<lambda>j. k + of_nat j) [0..<length past] \<and>
     list_all2 (encodes M p (bd_inner b)) past (map snd (bd_docs b)) \<and>
     (\<forall>i\<in>set (map fst (bd_docs b)). \<exists>l\<in>loc_id ` set (in_locations (bd_inner b)). (l, i) \<in> set (bd_postings b)) \<and>
     in_doc_next_id (bd_inner b) = k + of_nat (length past)"

lemma doc_batch_ok:
  assumes "doc_batch_writes M s items b = (failed, b')" "batch_ok old n (bd_inner b) (bd_touched b)"
    and "docs_ok M (st_precision s) k past b"
    and "\<forall>item\<in>set items. length (fst item) = cfg_d (in_config old)" "0 < cfg_d (in_config old)"
    and "n + length items < 2 ^ 64"
  shows "in_config (bd_inner b') = in_config old"
    "failed = None \<Longrightarrow> batch_ok old (n + length items) (bd_inner b') (bd_touched b') \<and>
       docs_ok M (st_precision s) k (past @ items) b'"
proof -
  have "in_config (bd_inner b') = in_config old \<and> (failed = None \<longrightarrow>
      batch_ok old (n + length items) (bd_inner b') (bd_touched b') \<and> docs_ok M (st_precision s) k (past @ items) b')"
    using assms
  proof (induction items arbitrary: b n past)
    case Nil
    then show ?case by (simp add: batch_okD(2))
  next
    case (Cons item items)
    obtain input metadata where item: "item = (input, metadata)" by fastforce
    obtain r inner rng' where w: "apply_write M input input WriteOpts_default (bd_inner b) (bd_rng b) = (r, inner, rng')"
      by (metis prod_cases3)
    let ?k = "in_doc_next_id inner"
    let ?in2 = "inner\<lparr>in_doc_next_id := ?k + 1\<rparr>"
    have dim: "length input = cfg_d (in_config old)" using Cons.prems(4) item by simp
    then have ne: "input \<noteq> []" using Cons.prems(5) by auto
    have room: "n + 1 < 2 ^ 64" using Cons.prems(6) by simp
    obtain synced where y: "sync_addresses (wr_modified_indices r) ?in2 = Inr synced"
      "in_locations synced = in_locations inner"
      "batch_ok old (n + 1) (extend_locations (wr_new_locations r) synced)
         (now_touched (bd_touched b) r synced (extend_locations (wr_new_locations r) synced))"
      "in_doc_next_id (extend_locations (wr_new_locations r) synced) = ?k + 1"
      "in_locations (extend_locations (wr_new_locations r) synced) = in_locations inner @ wr_new_locations r"
      "map loc_id (in_locations inner) = map loc_id (in_locations (bd_inner b))"
      "?k = in_doc_next_id (bd_inner b)" "set (wr_modified_indices r) \<subseteq> {..<length (in_locations inner)}"
      by (rule item_step [OF Cons.prems(2) dim Cons.prems(5) room w])
    let ?grown = "extend_locations (wr_new_locations r) synced"
    let ?b1 = "\<lparr>bd_inner = ?grown, bd_touched = now_touched (bd_touched b) r synced ?grown,
        bd_postings = bd_postings b @ map (\<lambda>l. (l, ?k)) (activated_ids ?in2 r), bd_docs = bd_docs b, bd_rng = rng'\<rparr>"
    have run: "doc_batch_writes M s (item # items) b =
        (case document_data M s ?grown r input metadata of
           Inl e \<Rightarrow> (Some e, ?b1)
         | Inr data \<Rightarrow> doc_batch_writes M s items (?b1\<lparr>bd_docs := bd_docs ?b1 @ [(?k, data)]\<rparr>))"
      by (simp add: item w y(1) Let_def split del: if_split)
    show ?case
    proof (cases "document_data M s ?grown r input metadata")
      case (Inl e)
      then show ?thesis using Cons.prems(1) run batch_okD(2) [OF y(3)] by auto
    next
      case (Inr data)
      let ?b2 = "?b1\<lparr>bd_docs := bd_docs b @ [(?k, data)]\<rparr>"
      have D: "map fst (bd_docs b) = map (\<lambda>j. k + of_nat j) [0..<length past]"
        "list_all2 (encodes M (st_precision s) (bd_inner b)) past (map snd (bd_docs b))"
        "\<And>i. i \<in> set (map fst (bd_docs b)) \<Longrightarrow>
           \<exists>l\<in>loc_id ` set (in_locations (bd_inner b)). (l, i) \<in> set (bd_postings b)"
        "in_doc_next_id (bd_inner b) = k + of_nat (length past)"
        using Cons.prems(3) unfolding docs_ok_def by blast+
      have ids: "loc_id ` set (in_locations (bd_inner b)) \<subseteq> loc_id ` set (in_locations ?grown)"
        using y(6) unfolding y(5) by (metis Un_upper1 image_Un image_set set_append)
      have cfg: "in_config ?grown = in_config (bd_inner b)"
        using batch_okD(2) [OF y(3)] batch_okD(2) [OF Cons.prems(2)] by simp
      have "encodes M (st_precision s) ?grown item data"
        unfolding item by (rule document_data_encodes [OF Inr]) (simp add: y(5))
      moreover have "encodes M (st_precision s) ?grown x d" if "encodes M (st_precision s) (bd_inner b) x d" for x d
        by (rule encodes_mono [OF that cfg]) (use plain_write_keeps [OF w ne] in \<open>simp add: y(5)\<close>)
      then have "list_all2 (encodes M (st_precision s) ?grown) past (map snd (bd_docs b))"
        using D(2) by (rule list_all2_mono [rotated])
      ultimately have enc: "list_all2 (encodes M (st_precision s) ?grown) (past @ [item]) (map snd (bd_docs ?b2))"
        by (simp add: list_all2_appendI)
      have "activated_ids ?in2 r \<noteq> []" "set (activated_ids ?in2 r) \<subseteq> loc_id ` set (in_locations ?grown)"
        using write_touches [OF w ne] y(8) by (auto simp: activated_ids_def locations_at_def y(5))
      then have "\<exists>l\<in>loc_id ` set (in_locations ?grown). (l, ?k) \<in> set (bd_postings ?b2)"
        by (cases "activated_ids ?in2 r") auto
      moreover have "\<exists>l\<in>loc_id ` set (in_locations ?grown). (l, i) \<in> set (bd_postings ?b2)"
        if "i \<in> set (map fst (bd_docs b))" for i
      proof -
        obtain l where "l \<in> loc_id ` set (in_locations (bd_inner b))" "(l, i) \<in> set (bd_postings b)"
          using D(3) \<open>i \<in> set (map fst (bd_docs b))\<close> by blast
        then show ?thesis using ids by (intro bexI [of _ l]) auto
      qed
      ultimately have "\<forall>i\<in>set (map fst (bd_docs ?b2)).
          \<exists>l\<in>loc_id ` set (in_locations (bd_inner ?b2)). (l, i) \<in> set (bd_postings ?b2)"
        by (simp add: ball_Un)
      then have "docs_ok M (st_precision s) k (past @ [item]) ?b2"
        using D enc y(4,7) by (simp add: docs_ok_def)
      from Cons.IH [OF _ _ this, of "n + 1"] show ?thesis
        using Cons.prems(1,4-6) run Inr y(3) by simp
    qed
  qed
  then show "in_config (bd_inner b') = in_config old"
    "failed = None \<Longrightarrow> batch_ok old (n + length items) (bd_inner b') (bd_touched b') \<and>
       docs_ok M (st_precision s) k (past @ items) b'"
    by blast+
qed

section \<open>Persisting a document batch\<close>

lemma put_documents_all:
  assumes K: "storage_ok (mc_storage M) view" and p: "put_documents M s c docs = Inr s'"
    and dist: "distinct (map fst docs)"
  shows "(i, data) \<in> set docs \<Longrightarrow> view (db_documents s') (document_key c i) = Some data"
    "i \<notin> fst ` set docs \<Longrightarrow> view (db_documents s') (document_key c i) = view (db_documents s) (document_key c i)"
proof -
  have "((i, data) \<in> set docs \<longrightarrow> view (db_documents s') (document_key c i) = Some data) \<and>
      (i \<notin> fst ` set docs \<longrightarrow> view (db_documents s') (document_key c i) = view (db_documents s) (document_key c i))" for i data
    using p dist
  proof (induction docs arbitrary: s)
    case Nil
    then show ?case by (simp add: put_documents_def)
  next
    case (Cons doc docs)
    obtain j v where doc: "doc = (j, v)" by fastforce
    obtain s1 where s1: "put_document (mc_storage M) s c j v = Inr s1" "put_documents M s1 c docs = Inr s'"
      using Cons.prems(1) by (auto simp: put_documents_def doc rbind_eq_Inr)
    note one = put_document_fields(1) [OF K s1(1)]
    show ?case
      using Cons.IH [OF s1(2)] Cons.prems(2) one
      by (auto simp: doc document_keys.key_inject image_iff)
  qed
  then show "(i, data) \<in> set docs \<Longrightarrow> view (db_documents s') (document_key c i) = Some data"
    "i \<notin> fst ` set docs \<Longrightarrow> view (db_documents s') (document_key c i) = view (db_documents s) (document_key c i)"
    by blast+
qed

lemma append_docs_fields:
  assumes "append_docs_to_location K s c i ds = Inr s'"
  shows "db_locations s' = db_locations s" "db_metadata s' = db_metadata s" "db_documents s' = db_documents s"
  using assms by (auto simp: append_docs_to_location_def put_doc_index_entry_def rbind_eq_Inr split: if_splits)

lemma post_groups:
  assumes K: "storage_ok K view"
    and a: "rfold (\<lambda>s (l, ds). append_docs_to_location K s c l ds) s groups = Inr s'"
  shows "db_locations s' = db_locations s" "db_metadata s' = db_metadata s" "db_documents s' = db_documents s"
    "(l, ds) \<in> set groups \<Longrightarrow> d \<in> set ds \<Longrightarrow> posted K view s' c l d"
proof -
  have "db_locations s' = db_locations s \<and> db_metadata s' = db_metadata s \<and> db_documents s' = db_documents s \<and>
      (\<forall>l d. (\<exists>ds. (l, ds) \<in> set groups \<and> d \<in> set ds) \<or> posted K view s c l d \<longrightarrow> posted K view s' c l d)"
    using a
  proof (induction groups arbitrary: s)
    case Nil
    then show ?case by simp
  next
    case (Cons g groups)
    obtain l ds where g: "g = (l, ds)" by fastforce
    obtain s1 where s1: "append_docs_to_location K s c l ds = Inr s1"
      "rfold (\<lambda>s (l, ds). append_docs_to_location K s c l ds) s1 groups = Inr s'"
      using Cons.prems by (auto simp: g rbind_eq_Inr)
    have one: "posted K view s c j d \<or> j = l \<and> d \<in> set ds \<Longrightarrow> posted K view s1 c j d" for j d
    proof (cases "ds = []")
      case True
      then show "posted K view s c j d \<or> j = l \<and> d \<in> set ds \<Longrightarrow> ?thesis"
        using s1(1) by (simp add: append_docs_to_location_def)
    next
      case False
      then show "posted K view s c j d \<or> j = l \<and> d \<in> set ds \<Longrightarrow> ?thesis"
        using append_postings [OF K s1(1)] by (cases "j = l") (auto simp: posted_def)
    qed
    show ?case
    proof (intro conjI allI impI)
      fix j d assume "(\<exists>ds. (j, ds) \<in> set (g # groups) \<and> d \<in> set ds) \<or> posted K view s c j d"
      then have "(\<exists>ds. (j, ds) \<in> set groups \<and> d \<in> set ds) \<or> posted K view s1 c j d"
        using one [of j d] by (auto simp: g)
      then show "posted K view s' c j d" using Cons.IH [OF s1(2)] by blast
    qed (use Cons.IH [OF s1(2)] append_docs_fields [OF s1(1)] in simp_all)
  qed
  then show "db_locations s' = db_locations s" "db_metadata s' = db_metadata s" "db_documents s' = db_documents s"
    "(l, ds) \<in> set groups \<Longrightarrow> d \<in> set ds \<Longrightarrow> posted K view s' c l d" by blast+
qed

lemma group_postings_complete:
  "(l, d) \<in> set ps \<Longrightarrow> \<exists>ds. (l, ds) \<in> set (group_postings ps) \<and> d \<in> set ds"
  by (force simp: group_postings_def sorted_set_def)

lemma set_sorted_set [simp]: "set (sorted_set xs) = set xs"
  by (simp add: sorted_set_def)

lemma persist_documents_durable:
  assumes K: "storage_ok (mc_storage M) view" and ok: "consistent M view c s old"
    and b: "batch_ok old n (bd_inner b) (bd_touched b)" and dist: "distinct (map fst (bd_docs b))"
    and p: "persist_documents M c b s = Inr s'"
  shows "consistent M view c s' (bd_inner b)" "st_precision s' = st_precision s"
    "(i, data) \<in> set (bd_docs b) \<Longrightarrow> view (db_documents (st_dbs s')) (document_key c i) = Some data"
    "(l, i) \<in> set (bd_postings b) \<Longrightarrow> posted (mc_storage M) view (st_dbs s') c l i"
proof -
  let ?K = "mc_storage M" and ?ls = "in_locations (bd_inner b)"
  obtain t1 t2 t3 t4 where t: "put_locations M (st_precision s) (st_dbs s) c
      (locations_at (bd_inner b) (sorted_set (bd_touched b))) = Inr t1"
    "put_documents M t1 c (bd_docs b) = Inr t2"
    "rfold (\<lambda>t (l, ds). append_docs_to_location ?K t c l ds) t2 (group_postings (bd_postings b)) = Inr t3"
    "put_doc_counters M t3 c (bd_inner b) = Inr t4" "s' = s\<lparr>st_dbs := t4\<rparr>"
    using p txn_eq [OF K] unfolding persist_documents_def Let_def put_documents_def
    by (fastforce simp: rbind_eq_Inr)
  note B = batch_okD [OF b]
  have d: "durable ?K view c s old" and old_ok: "inner_ok old" using ok by (simp_all add: consistent_def)
  have mem: "memory_ok (cfg_d (in_config (bd_inner b))) (in_next_id (bd_inner b)) ?ls"
    using B(1) by (simp add: inner_ok_def Let_def)
  have old: "distinct (map loc_id (in_locations old))"
    using old_ok by (auto simp: inner_ok_def Let_def intro: memory_ok_distinct)
  let ?xs = "map (\<lambda>i. ?ls ! i) (sorted_set (bd_touched b))"
  have xs: "set ?xs \<subseteq> set ?ls" using B(5) by auto
  have rest: "l \<in> set (in_locations old)" if l: "l \<in> set ?ls" "loc_id l \<notin> loc_id ` set ?xs" for l
  proof -
    obtain i where i: "i < length ?ls" "l = ?ls ! i" using l(1) by (metis in_set_conv_nth)
    then have "i \<notin> set (bd_touched b)" using l(2) by auto
    then show ?thesis using B(7) [OF i(1)] i(2) by simp
  qed
  have ids: "loc_id ` set (in_locations old) \<subseteq> loc_id ` set ?ls"
  proof -
    obtain more where "map loc_id ?ls = map loc_id (in_locations old) @ more" using B(6) by blast
    then have "set (map loc_id ?ls) = set (map loc_id (in_locations old)) \<union> set more" by simp
    then show ?thesis by auto
  qed
  note P = put_changed [OF K _ mem old t(1) [unfolded locations_at_def] xs rest ids]
  have P1: "records (sg_codec ?K) (st_precision s) c (view (db_locations t1)) (by_id ?ls)"
    and P2: "db_metadata t1 = db_metadata (st_dbs s)"
    using P d by (simp_all add: durable_def)
  note D = put_documents_fields [OF K t(2)] and G = post_groups [OF K t(3)]
  have "counters_ok ?K c (view (db_metadata t3)) (in_next_id old) (in_eta old) (in_doc_next_id old)"
    using d by (simp add: durable_def P2 D G)
  note C = put_doc_counters_ok [OF K t(4) this]
  show "consistent M view c s' (bd_inner b)"
    using P1 C B(1-3) ok by (simp add: consistent_def durable_def t(5) D G)
  show "st_precision s' = st_precision s" by (simp add: t(5))
  show "view (db_documents (st_dbs s')) (document_key c i) = Some data" if "(i, data) \<in> set (bd_docs b)"
    using put_documents_all(1) [OF K t(2) dist that] by (simp add: t(5) C G)
  show "posted ?K view (st_dbs s') c l i" if "(l, i) \<in> set (bd_postings b)"
    using group_postings_complete [OF that] G(4) by (auto simp: t(5) posted_def postings_def C)
qed

section \<open>A batch of documents keeps the collection sound\<close>

lemma check_dims_Inr: "check_dims inner vs = Inr u \<longleftrightarrow> (\<forall>v\<in>set vs. length v = cfg_d (in_config inner))"
  unfolding check_dims_def by (induction vs) (auto simp: rbind_eq_Inr)

lemma distinct_doc_ids:
  assumes "n < 2 ^ 64"
  shows "distinct (map (\<lambda>j. (k :: u64) + of_nat j) [0..<n])"
proof -
  have "j = j'" if "j < n" "j' < n" "(of_nat j :: u64) = of_nat j'" for j j'
  proof -
    have "unat (of_nat j :: u64) = unat (of_nat j' :: u64)" using that(3) by simp
    then show ?thesis using that(1,2) assms by (simp add: unat_of_nat)
  qed
  then show ?thesis by (auto simp: distinct_map inj_on_def)
qed

lemma document_batch_body_cases:
  assumes K: "storage_ok (mc_storage M) view" and ok: "consistent M view i s inner"
    and room: "unat (in_next_id inner) + length items < 2 ^ 64"
    and b: "document_batch_body M items i inner s rng = (out, s', rng')"
  obtains (Clean) e where "out = Clean e" "s' = s"
  | (Dirty) e inner' where "out = Dirty e inner'" "s' = s" "in_config inner' = in_config inner"
  | (Done) ids inner' where "out = Done ids inner'" "consistent M view i s' inner'"
      "ids = map (\<lambda>j. in_doc_next_id inner + of_nat j) [0..<length items]"
      "in_doc_next_id inner' = in_doc_next_id inner + of_nat (length items)"
      "length (in_locations inner') < 2 ^ 32 \<Longrightarrow>
       list_all2 (\<lambda>id (input, metadata).
         \<exists>v. stored_document M view i s' inner' id v metadata \<and>
           (v = stored_vector (st_precision s) input \<or> vec_feq v input)) ids items"
proof (cases "check_dims inner (map fst items)")
  case (Inl e)
  then show thesis using b by (intro Clean [of e]) (simp_all add: document_batch_body_def)
next
  case (Inr u)
  show thesis
  proof (cases "items = []")
    case True
    have out: "out = Done [] inner" and s: "s' = s"
      using b Inr True by (simp_all add: document_batch_body_def)
    show thesis by (rule Done [OF out]) (use ok True s in simp_all)
  next
    case False
    let ?k = "in_doc_next_id inner"
    let ?b0 = "\<lparr>bd_inner = bump inner, bd_touched = [], bd_postings = [], bd_docs = [], bd_rng = rng\<rparr>"
    obtain failed b1 where w: "doc_batch_writes M s items ?b0 = (failed, b1)" by fastforce
    have old: "inner_ok (bump inner)" "0 < cfg_d (in_config (bump inner))"
      using consistent_bump [OF ok] by (simp_all add: consistent_def)
    have b0: "batch_ok (bump inner) (unat (in_next_id inner)) (bd_inner ?b0) (bd_touched ?b0)"
      using old by (simp add: batch_ok_def Let_def)
    have d0: "docs_ok M (st_precision s) ?k [] ?b0" by (simp add: docs_ok_def)
    have dims: "\<forall>item\<in>set items. length (fst item) = cfg_d (in_config (bump inner))"
      using Inr by (auto simp: check_dims_Inr)
    note L = doc_batch_ok [OF w b0 d0 dims old(2) room]
    show thesis
    proof (cases failed)
      case (Some e)
      show thesis
        by (rule Dirty [of e "bd_inner b1"])
          (use b Inr False w Some L(1) in \<open>simp_all add: document_batch_body_def\<close>)
    next
      case None
      have B: "batch_ok (bump inner) (unat (in_next_id inner) + length items) (bd_inner b1) (bd_touched b1)"
        and D: "map fst (bd_docs b1) = map (\<lambda>j. ?k + of_nat j) [0..<length items]"
          "list_all2 (encodes M (st_precision s) (bd_inner b1)) items (map snd (bd_docs b1))"
          "\<And>id. id \<in> set (map fst (bd_docs b1)) \<Longrightarrow>
             \<exists>l\<in>loc_id ` set (in_locations (bd_inner b1)). (l, id) \<in> set (bd_postings b1)"
          "in_doc_next_id (bd_inner b1) = ?k + of_nat (length items)"
        using L(2) [OF None] unfolding docs_ok_def append_Nil by blast+
      have dist: "distinct (map fst (bd_docs b1))"
        unfolding D(1) by (rule distinct_doc_ids) (use room in simp)
      show thesis
      proof (cases "persist_documents M i b1 s")
        case (Inl e)
        show thesis
          by (rule Dirty [of e "bd_inner b1"])
            (use b Inr False w None Inl L(1) in \<open>simp_all add: document_batch_body_def\<close>)
      next
        case inr: (Inr s1)
        have out: "out = Done (map fst (bd_docs b1)) (bd_inner b1)" and s1: "s' = s1"
          using b Inr False w None inr by (simp_all add: document_batch_body_def)
        note P = persist_documents_durable [OF K consistent_bump [OF ok] B dist inr]
        have "list_all2 (\<lambda>id (input, metadata).
             \<exists>v. stored_document M view i s' (bd_inner b1) id v metadata \<and>
               (v = stored_vector (st_precision s) input \<or> vec_feq v input)) (map fst (bd_docs b1)) items"
          if len: "length (in_locations (bd_inner b1)) < 2 ^ 32"
        proof (rule list_all2_all_nthI)
          show "length (map fst (bd_docs b1)) = length items" unfolding D(1) by simp
        next
          fix j assume j: "j < length (map fst (bd_docs b1))"
          obtain id data where doc: "bd_docs b1 ! j = (id, data)" by fastforce
          obtain input metadata where item: "items ! j = (input, metadata)" by fastforce
          have mem: "(id, data) \<in> set (bd_docs b1)" using j doc by (metis length_map nth_mem)
          then have id: "id \<in> set (map fst (bd_docs b1))" by force
          have "j < length items" using j D(1) by (metis length_map length_upt minus_nat.diff_0)
          then have "encodes M (st_precision s) (bd_inner b1) (input, metadata) data"
            using list_all2_nthD [OF D(2)] j doc item by fastforce
          from encodes_resolves [OF this batch_okD(1) [OF B] len]
          obtain v where v: "resolve_document M (st_precision s') (bd_inner b1) data = Ok (v, metadata)"
            "v = stored_vector (st_precision s) input \<or> vec_feq v input" by blast
          moreover obtain l where "l \<in> set (in_locations (bd_inner b1))" "(loc_id l, id) \<in> set (bd_postings b1)"
            using D(3) [OF id] by blast
          ultimately have "stored_document M view i s' (bd_inner b1) id v metadata"
            using P(3) [OF mem] P(4) unfolding stored_document_def s1 by blast
          then show "(case items ! j of (input, metadata) \<Rightarrow>
              \<exists>v. stored_document M view i s' (bd_inner b1) (map fst (bd_docs b1) ! j) v metadata \<and>
                (v = stored_vector (st_precision s) input \<or> vec_feq v input))"
            using v(2) j doc by (auto simp: item)
        qed
        then show thesis by (intro Done [OF out]) (use P(1) D(1,4) s1 in simp_all)
      qed
    qed
  qed
qed

interpretation document_batch: mutation "\<lambda>M. document_batch_body M items"
  "\<lambda>inner. unat (in_next_id inner) + length items < 2 ^ 64" for items
proof
  fix M :: "('r, 'db) machine" and view i s inner rng e s' rng'
  assume "storage_ok (mc_storage M) view" "consistent M view i s inner"
    and b: "document_batch_body M items i inner s rng = (Clean e, s', rng')"
  then show "consistent M view i s' inner \<and> st_precision s' = st_precision s"
    by (auto simp: document_batch_body_def Let_def split: sum.splits prod.splits option.splits if_splits)
next
  fix M :: "('r, 'db) machine" and view i s inner rng e inner' s' rng'
  assume K: "storage_ok (mc_storage M) view" and ok: "consistent M view i s inner"
    and "unat (in_next_id inner) + length items < 2 ^ 64"
    "document_batch_body M items i inner s rng = (Dirty e inner', s', rng')"
  from K ok this(3,4)
  show "consistent M view i s' inner \<and> st_precision s' = st_precision s \<and> in_config inner' = in_config inner"
    by (cases rule: document_batch_body_cases) (simp_all add: ok)
next
  fix M :: "('r, 'db) machine" and view i s inner rng v inner' s' rng'
  assume "storage_ok (mc_storage M) view" "consistent M view i s inner"
    "unat (in_next_id inner) + length items < 2 ^ 64"
    "document_batch_body M items i inner s rng = (Done v inner', s', rng')"
  then show "consistent M view i s' inner'"
    by (cases rule: document_batch_body_cases) simp_all
qed

section \<open>A batch against one write per item\<close>

text \<open>The reference: the items written one after the other, until one fails.\<close>

fun write_each ::
  "('r, 'db) machine \<Rightarrow> (f64 list \<times> bytes) list \<Rightarrow> ('r, 'db) world \<Rightarrow> u64 list res \<times> ('r, 'db) world" where
  "write_each M [] w = (Ok [], w)"
| "write_each M ((input, metadata) # items) w =
     (case write_with_metadata M input metadata w of
        (Inl e, w) \<Rightarrow> (Inl e, w)
      | (Inr i, w) \<Rightarrow>
         (case write_each M items w of
            (Inl e, w) \<Rightarrow> (Inl e, w)
          | (Inr ids, w) \<Rightarrow> (Ok (i # ids), w)))"

text \<open>Nothing a write does to the memory depends on its version.\<close>

abbreviation with_version :: "u64 \<Rightarrow> EAMInner \<Rightarrow> EAMInner" where
  "with_version v inner \<equiv> inner\<lparr>in_version := v\<rparr>"

lemma apply_write_version:
  "apply_write M a k opts inner rng = (r, inner', rng') \<Longrightarrow>
   apply_write M a k opts (with_version v inner) rng = (r, with_version v inner', rng')"
  by (auto simp: apply_write_def split: prod.splits)

lemma sync_row_version: "sync_row inner i = Inr inner' \<Longrightarrow> sync_row (with_version v inner) i = Inr (with_version v inner')"
  by (auto simp: sync_row_def Let_def split: if_splits)

lemma sync_addresses_version:
  "sync_addresses js inner = Inr inner' \<Longrightarrow> sync_addresses js (with_version v inner) = Inr (with_version v inner')"
proof (induction js arbitrary: inner)
  case (Cons j js)
  then obtain i1 where "sync_row inner j = Inr i1" "sync_addresses js i1 = Inr inner'"
    by (auto simp: sync_addresses_def rbind_eq_Inr)
  then show ?case using Cons.IH [of i1] sync_row_version [of inner j i1 v] by (simp add: sync_addresses_def)
qed (simp add: sync_addresses_def)

lemma refresh_landmarks_version: "refresh_landmarks (with_version v inner) = with_version v (refresh_landmarks inner)"
  by (simp add: refresh_landmarks_def Let_def)

lemma foldl_commute: "(\<And>x y. f (h x) y = h (f x y)) \<Longrightarrow> foldl f (h x) ys = h (foldl f x ys)"
  by (induction ys arbitrary: x) simp_all

lemma doc_id_version: "(with_version v inner)\<lparr>in_doc_next_id := k\<rparr> = with_version v (inner\<lparr>in_doc_next_id := k\<rparr>)"
  by simp

lemma append_addresses_version: "append_addresses n (with_version v inner) = with_version v (append_addresses n inner)"
  unfolding append_addresses_def refresh_landmarks_version [symmetric]
  by (rule arg_cong [of _ _ refresh_landmarks], subst foldl_commute [of _ "with_version v"]) simp_all

lemma extend_locations_version: "extend_locations ls (with_version v inner) = with_version v (extend_locations ls inner)"
proof -
  have "extend_id_lookup n ((with_version v inner)\<lparr>in_locations := xs\<rparr>) =
      with_version v (extend_id_lookup n (inner\<lparr>in_locations := xs\<rparr>))" for n xs
    by (simp add: extend_id_lookup_def)
  then show ?thesis by (simp add: extend_locations_def Let_def flip: append_addresses_version)
qed

lemma document_body_done:
  assumes "document_body M input metadata i inner s rng = (Done k inner', s', rng')"
  obtains r inner1 synced where
    "apply_write M input input WriteOpts_default (bump inner) rng = (r, inner1, rng')" "k = in_doc_next_id inner1"
    "sync_addresses (wr_modified_indices r) (inner1\<lparr>in_doc_next_id := k + 1\<rparr>) = Inr synced"
    "inner' = extend_locations (wr_new_locations r) synced"
  using assms that by (auto simp: document_body_def Let_def split: prod.splits sum.splits)

lemma doc_batch_as_each:
  assumes "write_each M items (c, s, rng) = (Ok ids, c1, s1, rng1)"
    and "doc_batch_writes M t items b = (None, b')"
    and "bd_inner b = with_version (in_version (bd_inner b)) (co_inner c)" "bd_rng b = rng"
  shows "map fst (bd_docs b') = map fst (bd_docs b) @ ids \<and> bd_rng b' = rng1 \<and>
     bd_inner b' = with_version (in_version (bd_inner b')) (co_inner c1)"
  using assms
proof (induction items arbitrary: c s rng b ids)
  case Nil
  then show ?case by simp
next
  case (Cons item items)
  obtain input metadata where item: "item = (input, metadata)" by fastforce
  obtain k c2 s2 rng2 ids2 where first: "write_with_metadata M input metadata (c, s, rng) = (Ok k, c2, s2, rng2)"
    and rest: "write_each M items (c2, s2, rng2) = (Ok ids2, c1, s1, rng1)" and ids: "ids = k # ids2"
    using Cons.prems(1) item by (auto split: prod.splits sum.splits)
  obtain inner' where d: "document_body M input metadata (co_id c) (co_inner c) s rng = (Done k inner', s2, rng2)"
    and c2: "c2 = c\<lparr>co_inner := inner'\<rparr>"
    using first
    by (auto simp: write_with_metadata_def atomic_mutation_def write_inner_def read_inner_def rbind_eq_Inr
        split: sum.splits prod.splits ending.splits)
  obtain r inner1 synced where w:
    "apply_write M input input WriteOpts_default (bump (co_inner c)) rng = (r, inner1, rng2)" "k = in_doc_next_id inner1"
    "sync_addresses (wr_modified_indices r) (inner1\<lparr>in_doc_next_id := k + 1\<rparr>) = Inr synced"
    "inner' = extend_locations (wr_new_locations r) synced"
    by (rule document_body_done [OF d])
  define v where "v = in_version (bd_inner b)"
  have b: "bd_inner b = with_version v (bump (co_inner c))" using Cons.prems(3) by (simp add: v_def bump_def)
  note batch = apply_write_version [OF w(1), of v, folded b] sync_addresses_version [OF w(3), of v]
    extend_locations_version [of "wr_new_locations r" v synced]
  let ?grown = "with_version v inner'"
  let ?b1 = "\<lparr>bd_inner = ?grown,
      bd_touched = bd_touched b @ wr_modified_indices r @
        (if wr_new_locations r = [] then [] else [length (in_locations synced)..<length (in_locations ?grown)]),
      bd_postings = bd_postings b @ map (\<lambda>l. (l, k)) (activated_ids (with_version v (inner1\<lparr>in_doc_next_id := k + 1\<rparr>)) r),
      bd_docs = bd_docs b, bd_rng = rng2\<rparr>"
  obtain data where data: "document_data M t ?grown r input metadata = Inr data"
    and step: "doc_batch_writes M t items (?b1\<lparr>bd_docs := bd_docs b @ [(k, data)]\<rparr>) = (None, b')"
    using Cons.prems(2,4) batch w(2,4)
    by (cases "document_data M t ?grown r input metadata") (auto simp: item Let_def doc_id_version)
  show ?case
    using Cons.IH [OF rest step] by (simp add: c2 ids)
qed

section \<open>A concrete batch\<close>

text \<open>In a store that differs from the first one in the registry only.\<close>

lemma first_document_batch_in:
  assumes s: "s = first_store\<lparr>st_dbs := (st_dbs first_store)\<lparr>db_registry := R\<rparr>\<rparr>"
  shows "\<exists>s'. write_batch_with_metadata list_machine [([1], [])] (first_collection, s, ()) =
     (Ok [0], first_collection\<lparr>co_inner := after_document\<rparr>, s', ())"
proof -
  have fin: "is_finite (1 :: f64)" by code_simp
  obtain a where a: "encode_location zero_codec once PF64 = Inr a" using first_encodings(1) by blast
  have "st_precision s = st_precision first_store" by (simp add: s)
  then have "document_data list_machine s after_document first_result [1] [] =
      document_data list_machine first_store after_document first_result [1] []"
    by (simp only: document_data_def)
  then obtain d where d: "document_data list_machine s after_document first_result [1] [] = Inr d"
    using first_document_data [of after_document] by (elim exE) simp
  let ?b = "\<lparr>bd_inner = after_document, bd_touched = [0], bd_postings = [(0, 0)], bd_docs = [(0, d)], bd_rng = ()\<rparr>"
  have loop: "doc_batch_writes list_machine s [([1], [])]
      \<lparr>bd_inner = empty_inner, bd_touched = [], bd_postings = [], bd_docs = [], bd_rng = ()\<rparr> = (None, ?b)"
    using d by (simp add: first_write sync_no_addresses after_document_fields activated_ids_def locations_at_def Let_def)
      (simp add: once_def)
  obtain s' where p: "persist_documents list_machine 7 ?b s = Inr s'"
    using after_document_fields
    by (auto simp: persist_documents_def write_txn_def commit_def list_K_ops put_locations_def put_location_def a
        locations_at_def sorted_set_def group_postings_def append_docs_to_location_def get_doc_ids_for_location_txn_def
        put_doc_index_entry_def put_document_def put_doc_counters_def put_counters_def put_u64_def put_eta_def
        put_metadata_def s first_store_def empty_store_def no_dbs_def Let_def,
        auto simp: list_storage_def)
  show ?thesis
    by (rule exI [of _ s']) (use p loop fin in
      \<open>simp add: write_batch_with_metadata_def validate_all_def validate_vector_def atomic_mutation_def write_inner_def
        read_inner_def document_batch_body_def check_dims_def check_dim_def one_config_fields\<close>)
qed

lemma first_document_batch:
  "\<exists>s'. write_batch_with_metadata list_machine [([1], [])] (first_collection, first_store, ()) =
     (Ok [0], first_collection\<lparr>co_inner := after_document\<rparr>, s', ())"
  by (rule first_document_batch_in [where R = "db_registry (st_dbs first_store)"]) simp

section \<open>Properties\<close>

lemma batch_found:
  assumes "storage_ok (mc_storage M) view" "consistent M view (co_id c) s (co_inner c)"
    and "unat (in_next_id (co_inner c)) + length items < 2 ^ 64"
    and "write_batch_with_metadata M items (c, s, rng) = (Ok ids, c', s', rng')"
    and "length (in_locations (co_inner c')) < 2 ^ 32"
  shows "ids = map (\<lambda>j. in_doc_next_id (co_inner c) + of_nat j) [0..<length items] \<and>
     consistent M view (co_id c) s' (co_inner c') \<and>
     list_all2 (\<lambda>id (input, metadata).
       \<exists>v. stored_document M view (co_id c) s' (co_inner c') id v metadata \<and>
         (v = stored_vector (st_precision s) input \<or> vec_feq v input)) ids items"
proof -
  have m: "atomic_mutation M (document_batch_body M items) (c, s, rng) = (Ok ids, c', s', rng')"
    using assms(4) by (auto simp: write_batch_with_metadata_def split: sum.splits)
  then have w: "write_inner c = Inr (co_inner c)"
    by (auto simp: atomic_mutation_def write_inner_def read_inner_def rbind_eq_Inr split: sum.splits)
  obtain out s1 rng1 where b: "document_batch_body M items (co_id c) (co_inner c) s rng = (out, s1, rng1)"
    by (metis prod_cases3)
  from assms(1-3) b show ?thesis
  proof (cases rule: document_batch_body_cases)
    case (Clean e)
    then show ?thesis using m w b by (simp add: atomic_mutation_def)
  next
    case (Dirty e inner')
    then show ?thesis using m w b by (auto simp: atomic_mutation_def split: prod.splits)
  next
    case (Done ids' inner')
    then show ?thesis using m w b assms(5) by (auto simp: atomic_mutation_def)
  qed
qed

text \<open>C5: A batch of documents that succeeds gives consecutive ids from the next document id, one
  per item in order, and afterwards every item is found: its record decodes to its metadata
  and its vector, a location posts it, and memory and store hold the same.\<close>

theorem batch_documents_are_found:
  assumes "storage_ok (mc_storage M) view" "consistent M view (co_id c) s (co_inner c)"
    and "unat (in_next_id (co_inner c)) + length items < 2 ^ 64"
    and "write_batch_with_metadata M items (c, s, rng) = (Ok ids, c', s', rng')"
    and "length (in_locations (co_inner c')) < 2 ^ 32"
  shows "ids = map (\<lambda>j. in_doc_next_id (co_inner c) + of_nat j) [0..<length items] \<and>
     consistent M view (co_id c) s' (co_inner c') \<and>
     list_all2 (\<lambda>id (input, metadata).
       \<exists>v. stored_document M view (co_id c) s' (co_inner c') id v metadata \<and>
         (v = stored_vector (st_precision s) input \<or> vec_feq v input)) ids items"
  by (rule batch_found [OF assms])

theorem batch_documents_are_found_witness:
  "\<exists>c' s'. write_batch_with_metadata list_machine [([1], [])] (first_collection, first_store, ()) = (Ok [0], c', s', ()) \<and>
     consistent list_machine map_of 7 s' (co_inner c') \<and>
     (\<exists>v. stored_document list_machine map_of 7 s' (co_inner c') 0 v [])"
proof -
  obtain s' where run: "write_batch_with_metadata list_machine [([1], [])] (first_collection, first_store, ()) =
      (Ok [0], first_collection\<lparr>co_inner := after_document\<rparr>, s', ())" using first_document_batch by blast
  show ?thesis
    using batch_documents_are_found [where view = map_of, OF _ _ _ run] first_collection_consistent run
      after_document_fields
    by (auto simp: list_storage_ok)
qed

text \<open>C6: A batch of documents computes what one write per item computes: where both succeed from
  the same collection, the ids, the random numbers drawn and the whole memory with its caches
  are the same, but for the version, which a batch moves once.\<close>

theorem batch_is_one_write_per_item:
  assumes "write_each M items (c, s, rng) = (Ok ids, c1, s1, rng1)"
    and "write_batch_with_metadata M items (c, s, rng) = (Ok ids', c2, s2, rng2)"
  shows "ids' = ids \<and> rng2 = rng1 \<and> co_inner c2 = (co_inner c1)\<lparr>in_version := in_version (co_inner c2)\<rparr>"
proof (cases "items = []")
  case True
  then show ?thesis
    using assms
    by (auto simp: write_batch_with_metadata_def atomic_mutation_def document_batch_body_def write_inner_def
        read_inner_def rbind_eq_Inr split: sum.splits)
next
  case False
  have "atomic_mutation M (document_batch_body M items) (c, s, rng) = (Ok ids', c2, s2, rng2)"
    using assms(2) by (auto simp: write_batch_with_metadata_def split: sum.splits)
  then obtain inner where "document_batch_body M items (co_id c) (co_inner c) s rng = (Done ids' inner, s2, rng2)"
    and c2: "c2 = c\<lparr>co_inner := inner\<rparr>"
    by (auto simp: atomic_mutation_def write_inner_def read_inner_def rbind_eq_Inr
        split: sum.splits prod.splits ending.splits)
  then obtain b' where "doc_batch_writes M s items
      \<lparr>bd_inner = bump (co_inner c), bd_touched = [], bd_postings = [], bd_docs = [], bd_rng = rng\<rparr> = (None, b')"
    and "ids' = map fst (bd_docs b')" "inner = bd_inner b'" "rng2 = bd_rng b'"
    using False by (auto simp: document_batch_body_def split: prod.splits sum.splits option.splits)
  then show ?thesis
    using doc_batch_as_each [OF assms(1)] c2 by (simp add: bump_def)
qed

theorem batch_is_one_write_per_item_witness:
  "\<exists>c1 s1 c2 s2. write_each list_machine [([1], [])] (first_collection, first_store, ()) = (Ok [0], c1, s1, ()) \<and>
     write_batch_with_metadata list_machine [([1], [])] (first_collection, first_store, ()) = (Ok [0], c2, s2, ()) \<and>
     in_locations (co_inner c2) = in_locations (co_inner c1)"
proof -
  obtain s2 where batch: "write_batch_with_metadata list_machine [([1], [])] (first_collection, first_store, ()) =
      (Ok [0], first_collection\<lparr>co_inner := after_document\<rparr>, s2, ())" using first_document_batch by blast
  obtain c1 s1 where each: "write_each list_machine [([1], [])] (first_collection, first_store, ()) = (Ok [0], c1, s1, ())"
    using first_document by fastforce
  note same = batch_is_one_write_per_item [OF each batch, THEN conjunct2, THEN conjunct2]
  have "in_locations after_document = in_locations (co_inner c1)"
    using arg_cong [OF same, of in_locations] by simp
  then show ?thesis using batch each by fastforce
qed

end
