(* ===== verification/Collection_Stale.thy ===== *)
theory Collection_Stale
  imports Collection_Compress
begin

text \<open>
  The two operations of collection.rs after which the store is behind the memory, and why.
  \<open>merge\<close> stores nothing of the locations that survive, so their records stay what they were.
  \<open>write_batch\<close> stores the locations it changed and then, over them, the locations it
  created as they were created; a batch of two equal vectors loses the second on reload.
\<close>

section \<open>What a merge stores\<close>

lemma persist_merge_locations:
  assumes K: "storage_ok (mc_storage M) view" and p: "persist_merge M i r s = Inr s'"
  shows "view (db_locations (st_dbs s')) =
     (\<lambda>b. if b \<in> location_key i ` set (mr_removed_ids r) then None else view (db_locations (st_dbs s)) b)"
proof -
  let ?K = "mc_storage M"
  obtain t1 t2 where t:
    "rfold (\<lambda>txn (removed, survivor). migrate_postings ?K i txn removed survivor) (st_dbs s) (mr_merge_map r) = Inr t1"
    "rfold (\<lambda>txn l. delete_location ?K txn i l) t1 (mr_removed_ids r) = Inr t2" "s' = s\<lparr>st_dbs := t2\<rparr>"
    using p txn_eq [OF K] by (fastforce simp: persist_merge_def Let_def rbind_eq_Inr)
  have "db_locations t1 = db_locations (st_dbs s)"
    using t(1) by (rule rfold_invariant) (auto dest: migrate_postings_fields)
  moreover have "view (db_locations t') =
      (\<lambda>b. if b \<in> location_key i ` set ids then None else view (db_locations t) b)"
    if "rfold (\<lambda>txn l. delete_location ?K txn i l) t ids = Inr t'" for t t' ids
    using that
  proof (induction ids arbitrary: t)
    case (Cons j ids)
    obtain u where u: "delete_location ?K t i j = Inr u" "rfold (\<lambda>txn l. delete_location ?K txn i l) u ids = Inr t'"
      using Cons.prems by (auto simp: rbind_eq_Inr)
    then have "view (db_locations u) = (view (db_locations t))(location_key i j := None)"
      using storage_okD(6) [OF K] by (auto simp: delete_location_def rbind_eq_Inr)
    then show ?case using Cons.IH [OF u(2)] by (auto simp: fun_eq_iff)
  qed simp
  ultimately show ?thesis using t(2,3) by (simp cong: if_cong)
qed

section \<open>What a batch of patterns stores\<close>

lemma persist_batch_created:
  assumes K: "storage_ok (mc_storage M) view" and p: "persist_batch M i b s = Inr s'"
    and l: "l \<in> set (ba_new_locs b)" "distinct (map loc_id (ba_new_locs b))" "\<forall>l\<in>set (ba_new_locs b). loc_wf d l"
  shows "\<exists>data. view (db_locations (st_dbs s')) (location_key i (loc_id l)) = Some data \<and>
     (\<forall>q. decode_location (sg_codec (mc_storage M)) data q = Inr (stored_location (st_precision s) l))"
proof -
  let ?K = "mc_storage M" and ?p = "st_precision s"
  obtain t1 t2 t3 where t: "put_locations M ?p t1 i (ba_new_locs b) = Inr t2"
    "put_counters M t2 i (ba_inner b) = Inr t3" "s' = s\<lparr>st_dbs := t3\<rparr>"
    using p txn_eq [OF K] by (fastforce simp: persist_batch_def rbind_eq_Inr)
  have put: "\<exists>data. view (db_locations t') (location_key i (loc_id l)) = Some data \<and>
      (\<forall>q. decode_location (sg_codec ?K) data q = Inr (stored_location ?p l))"
    if "put_locations M ?p t i ls = Inr t'" "l \<in> set ls" "distinct (map loc_id ls)" "\<forall>l\<in>set ls. loc_wf d l" for t t' ls
    using that
  proof (induction ls arbitrary: t)
    case (Cons x ls)
    obtain u where u: "put_location ?K ?p t i x = Inr u" "put_locations M ?p u i ls = Inr t'"
      using Cons.prems(1) by (auto simp: put_locations_def rbind_eq_Inr)
    show ?case
    proof (cases "l \<in> set ls")
      case True
      then show ?thesis using Cons.IH [OF u(2)] Cons.prems(3,4) by simp
    next
      case False
      then have x: "x = l" and fresh: "loc_id l \<notin> loc_id ` set ls" using Cons.prems(2,3) by auto
      obtain data D where e: "encode_location (sg_codec ?K) l ?p = Inr data"
        "sg_put ?K (db_locations t) (location_key i (loc_id l)) data = Inr D" "u = t\<lparr>db_locations := D\<rparr>"
        using u(1) by (auto simp: x put_location_def rbind_eq_Inr)
      have "view (db_locations t') (location_key i (loc_id l)) = view (db_locations u) (location_key i (loc_id l))"
        using u(2) fresh
      proof (induction ls arbitrary: u)
        case (Cons y ls)
        obtain v where v: "put_location ?K ?p u i y = Inr v" "put_locations M ?p v i ls = Inr t'"
          using Cons.prems(1) by (auto simp: put_locations_def rbind_eq_Inr)
        then have "view (db_locations v) (location_key i (loc_id l)) = view (db_locations u) (location_key i (loc_id l))"
          using Cons.prems(2) storage_okD(5) [OF K]
          by (auto simp: put_location_def rbind_eq_Inr location_keys.key_inject)
        then show ?case using Cons.IH [OF v(2)] Cons.prems(2) by simp
      qed (simp add: put_locations_def)
      moreover have "loc_wf d l" using Cons.prems(4) x by simp
      ultimately show ?thesis
        using storage_okD(5) [OF K e(2)] decode_encode_location [OF e(1)] by (simp add: e(3) loc_wf_def)
    qed
  qed simp
  have "db_locations t3 = db_locations t2"
    using t(2) by (auto simp: put_counters_def put_u64_def put_eta_def put_metadata_def rbind_eq_Inr)
  then show ?thesis using put [OF t(1) l] by (simp add: t(3))
qed

section \<open>A batch that loses an update\<close>

text \<open>The vector, written twice.\<close>

definition two :: f64 where
  "two = F64 0x4000000000000000"

definition twice :: HardLocation where
  "twice = once\<lparr>loc_counter := [two], loc_write_count := two\<rparr>"

lemma second_write_steps:
  "nearest [1] [once] 1 (write_scan [F32 0x3f800000] 1) = ([0], [1])"
  "select_winner one_config WriteOpts_default [1] [once] [0] [1] = (0, False)"
  "spawns flat_libm one_config WriteOpts_default False 1 1 = False" "activation_weights [1] 1 = [1]"
  by code_simp+

lemma second_write_update:
  "update_phase flat_libm one_config WriteOpts_default [1] [1] 1 [1] [1] [0] 0 True [once] = [twice]"
  by code_simp

lemma second_write_regulate:
  "regulate flat_libm (\<lambda>r. (0, r)) one_config [1] [1] [0] 0 True [twice] 1 () = ([], [twice], 1, ())"
  by code_simp

abbreviation one_inner :: EAMInner where
  "one_inner \<equiv> extend_locations [once] (empty_inner\<lparr>in_next_id := 1\<rparr>)"

lemma one_inner_fields:
  "in_locations one_inner = [once]" "in_config one_inner = one_config" "in_eta one_inner = 1"
  "in_next_id one_inner = 1" "in_matrix32 one_inner = [F32 0x3f800000]" "in_max_norm one_inner = 1"
  "in_address_matrix one_inner = [1]"
  by (simp_all add: extend_locations_def append_addresses_def refresh_landmarks_def extend_id_lookup_def
      inner_of_def f32_rows_def bump_def one_config_fields once_def unit_vector_arith Let_def)

lemma second_write:
  "apply_write list_machine [1] [1] WriteOpts_default one_inner () =
     (\<lparr>wr_modified_indices = [0], wr_new_locations = [], wr_eta = 1\<rparr>, one_inner\<lparr>in_locations := [twice]\<rparr>, ())"
proof -
  have "one_inner\<lparr>in_locations := [twice], in_next_id := 1, in_eta := 1\<rparr> = one_inner\<lparr>in_locations := [twice]\<rparr>"
    using one_inner_fields by simp
  then show ?thesis
    by (simp add: apply_write_def adaptive_write_two_def Let_def one_inner_fields one_config_fields
        second_write_steps [unfolded One_nat_def] second_write_update second_write_regulate list_machine_def unit_vector_arith)
qed

lemma batch_of_two:
  "\<exists>inner. batch_writes list_machine [[1], [1]]
      \<lparr>ba_inner = empty_inner, ba_modified = [], ba_new_locs = [], ba_rng = ()\<rparr> =
     (None, \<lparr>ba_inner = inner, ba_modified = [0], ba_new_locs = [once], ba_rng = ()\<rparr>) \<and>
     in_locations inner = [twice] \<and> in_config inner = one_config"
proof -
  have "length (loc_address twice) = 1" by (simp add: twice_def once_def)
  then obtain inner where i: "sync_addresses [0] (one_inner\<lparr>in_locations := [twice]\<rparr>) = Inr inner"
    "in_locations inner = [twice]" "in_config inner = one_config"
    by (simp add: sync_addresses_def sync_row_def Let_def one_inner_fields one_config_fields)
  have none: "sync_addresses [] x = Inr x" "extend_locations [] x = x" for x
    by (simp_all add: sync_addresses_def extend_locations_def)
  show ?thesis
    by (rule exI [of _ inner]) (simp add: first_write second_write none i insert_index_def)
qed

lemma encodings:
  "encode_location zero_codec once PF64 = Inr (projr (encode_location zero_codec once PF64))"
  "encode_location zero_codec twice PF64 = Inr (projr (encode_location zero_codec twice PF64))"
  "stored_location PF64 once = once" "is_finite (1 :: f64)"
  by code_simp+

section \<open>Properties\<close>

text \<open>A merge stores nothing of the locations that survive it: whatever they became in memory,
  their records stay as they were, and a record is only ever removed. Until the next flush the
  store holds the state before the merge.\<close>

lemma merge_stores_no_survivor:
  assumes "storage_ok (mc_storage M) view" "Collection_merge M (c, s, rng) = (Ok n, c', s', rng')"
  shows "view (db_locations (st_dbs s')) key = None \<or>
     view (db_locations (st_dbs s')) key = view (db_locations (st_dbs s)) key"
proof -
  obtain k s1 where m: "materialize_document_refs M (co_id c) (co_inner c) s = Inr (k, s1)"
    and b: "s' = s1 \<or> (\<exists>r. persist_merge M (co_id c) r s1 = Inr s')"
    using assms(2)
    by (auto simp: Collection_merge_def atomic_mutation_def merge_body_def write_inner_def read_inner_def rbind_eq_Inr Let_def
        split: sum.splits prod.splits ending.splits if_splits)
  then show ?thesis
    using persist_merge_locations [OF assms(1)] materialize_fields(1) [OF assms(1) m] by fastforce
qed

text \<open>C37: A batch of patterns can lose an update on a restart: writing the vector 1 twice in one
  batch leaves in memory one location written twice, and in the store, because the created
  location is stored over the changed one as it was created, the location written once.\<close>

theorem write_batch_loses_an_update:
  "\<exists>inner s. Collection_write_batch list_machine [[1], [1]] (first_collection, first_store, ()) =
       (Ok (), first_collection\<lparr>co_inner := inner\<rparr>, s, ()) \<and> in_locations inner = [twice] \<and>
     load_all_locations list_K s 7 = Inr ([once], s)"
proof -
  obtain inner where b: "batch_writes list_machine [[1], [1]]
      \<lparr>ba_inner = empty_inner, ba_modified = [], ba_new_locs = [], ba_rng = ()\<rparr> =
     (None, \<lparr>ba_inner = inner, ba_modified = [0], ba_new_locs = [once], ba_rng = ()\<rparr>)"
    and i: "in_locations inner = [twice]"
    using batch_of_two by blast
  let ?b = "\<lparr>ba_inner = inner, ba_modified = [0], ba_new_locs = [once], ba_rng = ()\<rparr>"
  let ?key = "location_key 7 0"
  obtain a b2 where e: "encode_location zero_codec once PF64 = Inr a" "encode_location zero_codec twice PF64 = Inr b2"
    using encodings(1,2) by blast
  have ids: "loc_id once = 0" "loc_id twice = 0" by (simp_all add: once_def twice_def)
  have puts: "put_location list_K PF64 t 7 twice = Inr (t\<lparr>db_locations := (?key, b2) # db_locations t\<rparr>)"
    "put_location list_K PF64 t 7 once = Inr (t\<lparr>db_locations := (?key, a) # db_locations t\<rparr>)" for t
    using e by (simp_all add: put_location_def list_K_ops ids)
  obtain s where p: "persist_batch list_machine 7 ?b first_store = Inr s"
    "db_locations (st_dbs s) = [(?key, a), (?key, b2)]" "st_precision s = PF64"
    by (simp add: persist_batch_def write_txn_def commit_def list_K_ops locations_at_def put_locations_def i puts
        put_counters_def put_u64_def put_eta_def put_metadata_def first_store_def empty_store_def no_dbs_def)
  have "al_listing [(?key, a), (?key, b2)] (prefix (collection_prefix 7)) = [(?key, a)]"
    by (simp add: al_listing_def)
  moreover have "decode_location zero_codec a PF64 = Inr once"
    using decode_encode_location [OF e(1), of PF64] encodings(3) by (simp add: once_def)
  ultimately have "load_all_locations list_K s 7 = Inr ([once], s)"
    by (simp add: load_all_locations_def read_txn_def list_K_ops p(2,3))
  moreover have "Collection_write_batch list_machine [[1], [1]] (first_collection, first_store, ()) =
       (Ok (), first_collection\<lparr>co_inner := inner\<rparr>, s, ())"
    using b p(1) encodings(4)
    by (simp add: Collection_write_batch_def validate_all_def validate_vector_def atomic_mutation_def write_inner_def
        read_inner_def write_batch_body_def check_dims_def check_dim_def one_config_fields)
  ultimately show ?thesis using i by blast
qed

end
