(* ===== verification/Hive.thy ===== *)
theory Hive
  imports Collection_Sound Audit_Log
begin

text \<open>
  heather_db/src/hive.rs: the collections of one database. A collection is opened at most
  once and shared from then on (an \<open>Arc<Collection>\<close>, here its index in \<open>hv_heap\<close>); the map
  from names to open collections is a cache behind a lock, the registry on disk is the
  truth. A handle outlives the cache entry: dropping a collection forgets the entry and not
  the heap cell. This theory has the calls as sequential functions, each run alone;
  Hive_Steps has them as interleaved steps.
\<close>

record 'db hive =
  hv_store :: "'db store"
  hv_config :: EAMConfig
  hv_audit :: AuditLog
  hv_heap :: "Collection list"
  hv_cache :: "bytes \<rightharpoonup> nat"
  hv_poisoned :: bool

text \<open>A call works on the hive and the state of the random generator.\<close>

type_synonym ('r, 'db) hworld = "'db hive \<times> 'r"

section \<open>Opening\<close>

text \<open>The storage under a path is opened by LMDB: \<open>open_env\<close> stands for it.\<close>

definition Hive_open_with_audit ::
  "'db storage \<Rightarrow> 'db dbs res \<Rightarrow> EAMConfig \<Rightarrow> AuditConfig \<Rightarrow> 'db hive res" where
  "Hive_open_with_audit K opened c audit =
     rbind (validate c) (\<lambda>_.
     rbind opened (\<lambda>d.
     let s = \<lparr>st_dbs = d, st_skipped = 0, st_precision = cfg_precision c\<rparr> in
     rbind (AuditLog_open K s audit) (\<lambda>a.
     Ok \<lparr>hv_store = s, hv_config = c, hv_audit = a, hv_heap = [], hv_cache = Map.empty, hv_poisoned = False\<rparr>)))"

definition Hive_open :: "'db storage \<Rightarrow> 'db dbs res \<Rightarrow> EAMConfig \<Rightarrow> 'db hive res" where
  "Hive_open K opened c = Hive_open_with_audit K opened c AuditConfig_default"

section \<open>The cache\<close>

text \<open>Looking a name up under the lock; a panic under the write lock poisons it.\<close>

definition cached :: "'db hive \<Rightarrow> bytes \<Rightarrow> nat option res" where
  "cached H name = rbind (ensure (\<not> hv_poisoned H) LockPoisoned) (\<lambda>_. Ok (hv_cache H name))"

definition fail_locked :: "fault \<Rightarrow> 'db hive \<Rightarrow> 'db hive" where
  "fail_locked e H = (if e = Panic then H\<lparr>hv_poisoned := True\<rparr> else H)"

definition publish :: "bytes \<Rightarrow> Collection \<Rightarrow> 'db hive \<Rightarrow> nat \<times> 'db hive" where
  "publish name c H =
     (let a = length (hv_heap H)
      in (a, H\<lparr>hv_heap := hv_heap H @ [c], hv_cache := (hv_cache H)(name \<mapsto> a)\<rparr>))"

text \<open>What is done with a collection that was made or loaded under the lock.\<close>

definition install :: "bytes \<Rightarrow> (Collection \<times> 'db store) res \<Rightarrow> 'db hive \<Rightarrow> nat res \<times> 'db hive" where
  "install name r H =
     (case r of
        Inl e \<Rightarrow> (Inl e, fail_locked e H)
      | Inr (c, s) \<Rightarrow> (let (a, H) = publish name c (H\<lparr>hv_store := s\<rparr>) in (Ok a, H)))"

section \<open>Creating and getting\<close>

text \<open>Registering the name is a transaction of its own, committed before the collection is made.\<close>

definition register :: "'db storage \<Rightarrow> 'db store \<Rightarrow> bytes \<Rightarrow> (u32 \<times> 'db store) res" where
  "register K s name =
     rbind (write_txn K s) (\<lambda>txn.
     rbind (create_collection K txn name) (\<lambda>(i, txn).
     rbind (commit K s txn) (\<lambda>s. Ok (i, s))))"

definition seed_collection :: "('r, 'db) machine \<Rightarrow> bytes \<Rightarrow> u32 \<Rightarrow> ('r, 'db) hworld \<Rightarrow> nat res \<times> ('r, 'db) hworld" where
  "seed_collection M name i w =
     (let (H, rng) = w; (r, rng) = Collection_new M i name (hv_store H) (hv_config H) rng;
          (a, H) = install name r H
      in (a, H, rng))"

definition reload_collection :: "('r, 'db) machine \<Rightarrow> bytes \<Rightarrow> u32 \<Rightarrow> ('r, 'db) hworld \<Rightarrow> nat res \<times> ('r, 'db) hworld" where
  "reload_collection M name i w =
     (let (H, rng) = w; (a, H) = install name (Collection_load M i name (hv_store H) (hv_config H)) H
      in (a, H, rng))"

text \<open>The part of \<open>create_collection\<close> under the write lock, from the second look into the cache.\<close>

definition create_locked :: "('r, 'db) machine \<Rightarrow> bytes \<Rightarrow> ('r, 'db) hworld \<Rightarrow> nat res \<times> ('r, 'db) hworld" where
  "create_locked M name w =
     (let (H, rng) = w; K = mc_storage M in
      case cached H name of
        Inl e \<Rightarrow> (Inl e, w)
      | Inr (Some a) \<Rightarrow> (Ok a, w)
      | Inr None \<Rightarrow>
         (case register K (hv_store H) name of
            Inl e \<Rightarrow> (Inl e, fail_locked e H, rng)
          | Inr (i, s) \<Rightarrow>
             (case load_all_locations K s i of
                Inl e \<Rightarrow> (Inl e, fail_locked e (H\<lparr>hv_store := s\<rparr>), rng)
              | Inr (existing, s) \<Rightarrow>
                  let w = (H\<lparr>hv_store := s\<rparr>, rng)
                  in if existing = [] then seed_collection M name i w else reload_collection M name i w)))"

definition Hive_create :: "('r, 'db) machine \<Rightarrow> bytes \<Rightarrow> ('r, 'db) hworld \<Rightarrow> nat res \<times> ('r, 'db) hworld" where
  "Hive_create M name w =
     (case cached (fst w) name of
        Inl e \<Rightarrow> (Inl e, w)
      | Inr (Some a) \<Rightarrow> (Ok a, w)
      | Inr None \<Rightarrow> create_locked M name w)"

text \<open>The part of \<open>get_collection\<close> under the write lock; the id was read before it was taken.\<close>

definition get_locked :: "('r, 'db) machine \<Rightarrow> bytes \<Rightarrow> u32 \<Rightarrow> ('r, 'db) hworld \<Rightarrow> nat res \<times> ('r, 'db) hworld" where
  "get_locked M name i w =
     (case cached (fst w) name of
        Inl e \<Rightarrow> (Inl e, w)
      | Inr (Some a) \<Rightarrow> (Ok a, w)
      | Inr None \<Rightarrow> reload_collection M name i w)"

definition Hive_get :: "('r, 'db) machine \<Rightarrow> bytes \<Rightarrow> ('r, 'db) hworld \<Rightarrow> nat option res \<times> ('r, 'db) hworld" where
  "Hive_get M name w =
     (case cached (fst w) name of
        Inl e \<Rightarrow> (Inl e, w)
      | Inr (Some a) \<Rightarrow> (Ok (Some a), w)
      | Inr None \<Rightarrow>
         (case get_collection_id (mc_storage M) (hv_store (fst w)) name of
            Inl e \<Rightarrow> (Inl e, w)
          | Inr None \<Rightarrow> (Ok None, w)
          | Inr (Some i) \<Rightarrow> (let (r, w) = get_locked M name i w in (rbind r (\<lambda>a. Ok (Some a)), w))))"

definition Hive_get_or_create :: "('r, 'db) machine \<Rightarrow> bytes \<Rightarrow> ('r, 'db) hworld \<Rightarrow> nat res \<times> ('r, 'db) hworld" where
  "Hive_get_or_create M name w =
     (case cached (fst w) name of
        Inl e \<Rightarrow> (Inl e, w)
      | Inr (Some a) \<Rightarrow> (Ok a, w)
      | Inr None \<Rightarrow> Hive_create M name w)"

section \<open>Dropping\<close>

definition unregister :: "'db storage \<Rightarrow> 'db store \<Rightarrow> bytes \<Rightarrow> u32 \<Rightarrow> 'db store res" where
  "unregister K s name i =
     rbind (write_txn K s) (\<lambda>txn. rbind (delete_collection K txn name i) (\<lambda>txn. commit K s txn))"

definition forget :: "bytes \<Rightarrow> 'db hive \<Rightarrow> unit res \<times> 'db hive" where
  "forget name H =
     (if hv_poisoned H then (Err LockPoisoned, H) else (Ok (), H\<lparr>hv_cache := (hv_cache H)(name := None)\<rparr>))"

definition Hive_drop :: "('r, 'db) machine \<Rightarrow> bytes \<Rightarrow> 'db hive \<Rightarrow> bool res \<times> 'db hive" where
  "Hive_drop M name H =
     (case get_collection_id (mc_storage M) (hv_store H) name of
        Inl e \<Rightarrow> (Inl e, H)
      | Inr None \<Rightarrow> (Ok False, H)
      | Inr (Some i) \<Rightarrow>
         (case unregister (mc_storage M) (hv_store H) name i of
            Inl e \<Rightarrow> (Inl e, H)
          | Inr s \<Rightarrow> (let (r, H) = forget name (H\<lparr>hv_store := s\<rparr>) in (rbind r (\<lambda>_. Ok True), H))))"

section \<open>The whole database\<close>

definition Hive_list :: "('r, 'db) machine \<Rightarrow> 'db hive \<Rightarrow> bytes list res" where
  "Hive_list M H = rbind (list_collections (mc_storage M) (hv_store H)) (\<lambda>cs. Ok (map fst cs))"

record HiveStats =
  hs_num_collections :: nat
  hs_collections :: "(bytes \<times> EAMStats) list"

fun stats_loop ::
  "('r, 'db) machine \<Rightarrow> bytes list \<Rightarrow> (bytes \<times> EAMStats) list \<Rightarrow> ('r, 'db) hworld \<Rightarrow>
   (bytes \<times> EAMStats) list res \<times> ('r, 'db) hworld" where
  "stats_loop M [] acc w = (Ok acc, w)"
| "stats_loop M (name # names) acc w =
     (case Hive_get M name w of
        (Inl e, w) \<Rightarrow> (Inl e, w)
      | (Inr None, w) \<Rightarrow> stats_loop M names acc w
      | (Inr (Some a), w) \<Rightarrow>
         (case Collection_stats (hv_heap (fst w) ! a) of
            Inl e \<Rightarrow> (Inl e, w)
          | Inr st \<Rightarrow> stats_loop M names (acc @ [(name, st)]) w))"

definition Hive_stats :: "('r, 'db) machine \<Rightarrow> ('r, 'db) hworld \<Rightarrow> HiveStats res \<times> ('r, 'db) hworld" where
  "Hive_stats M w =
     (case Hive_list M (fst w) of
        Inl e \<Rightarrow> (Inl e, w)
      | Inr names \<Rightarrow>
         (let (r, w) = stats_loop M names [] w
          in (rbind r (\<lambda>cs. Ok \<lparr>hs_num_collections = length names, hs_collections = cs\<rparr>), w)))"

definition Hive_verify :: "('r, 'db) machine \<Rightarrow> 'db hive \<Rightarrow> CollectionReport list res" where
  "Hive_verify M H =
     rbind (list_collections (mc_storage M) (hv_store H)) (\<lambda>cs.
     rmap (\<lambda>(name, i). verify_collection (mc_storage M) (hv_store H) name i)
       (sort_by (\<lambda>(a, i) (b, j). a < b \<or> a = b \<and> i < j) cs))"

definition record_audit :: "u64 \<Rightarrow> AuditRecord \<Rightarrow> 'db hive \<Rightarrow> bool \<times> 'db hive" where
  "record_audit now r H = (let (b, a) = record_access now (hv_audit H) r in (b, H\<lparr>hv_audit := a\<rparr>))"

definition flush_audit :: "'db storage \<Rightarrow> audit_env \<Rightarrow> u64 \<Rightarrow> 'db hive \<Rightarrow> nat res \<times> 'db hive" where
  "flush_audit K A now H =
     (let (r, a, s) = flush_log K A now (hv_audit H) (hv_store H) in (r, H\<lparr>hv_audit := a, hv_store := s\<rparr>))"

definition query_audit ::
  "'db storage \<Rightarrow> audit_env \<Rightarrow> u64 \<Rightarrow> AuditQuery \<Rightarrow> 'db hive \<Rightarrow> AuditRecord list res \<times> 'db hive" where
  "query_audit K A now q H =
     (case flush_audit K A now H of
        (Inl e, H) \<Rightarrow> (Inl e, H)
      | (Inr _, H) \<Rightarrow> (query_log K A (hv_store H) q, H))"

definition prune_audit_before :: "'db storage \<Rightarrow> u64 \<Rightarrow> 'db hive \<Rightarrow> nat res \<times> 'db hive" where
  "prune_audit_before K cutoff_ms H =
     (case rbind (write_txn K (hv_store H)) (\<lambda>txn.
           rbind (prune_audit K txn (unat (- 1 :: u64)) cutoff_ms) (\<lambda>(n, txn).
           rbind (commit K (hv_store H) txn) (\<lambda>s. Ok (n, s)))) of
        Inl e \<Rightarrow> (Inl e, H)
      | Inr (n, s) \<Rightarrow> (Ok n, H\<lparr>hv_store := s\<rparr>))"

text \<open>An operation of an open collection, through its handle.\<close>

definition on_collection ::
  "nat \<Rightarrow> (('r, 'db) world \<Rightarrow> 'a res \<times> ('r, 'db) world) \<Rightarrow> ('r, 'db) hworld \<Rightarrow> 'a res \<times> ('r, 'db) hworld" where
  "on_collection a f w =
     (let (H, rng) = w; (r, c, s, rng) = f (hv_heap H ! a, hv_store H, rng)
      in (r, H\<lparr>hv_heap := (hv_heap H)[a := c], hv_store := s\<rparr>, rng))"

section \<open>Concrete hives\<close>

text \<open>For the witnesses: a hive over list storage, with no open collection.\<close>

definition plain_hive :: "(bytes \<times> bytes) list store \<Rightarrow> (bytes \<times> bytes) list hive" where
  "plain_hive s = \<lparr>hv_store = s, hv_config = one_config,
     hv_audit = \<lparr>al_config = AuditConfig_default, al_buffer = [], al_poisoned = False, al_seq = 0, al_dropped = 0\<rparr>,
     hv_heap = [], hv_cache = Map.empty, hv_poisoned = False\<rparr>"

abbreviation small_collection :: "u32 \<Rightarrow> bytes \<Rightarrow> Collection" where
  "small_collection i name \<equiv> \<lparr>co_id = i, co_name = name, co_inner = inner_of one_config [] 0 1 0, co_poisoned = False\<rparr>"

text \<open>A collection of id 7 and name a, registered, with its counters on disk.\<close>

definition named_store :: "(bytes \<times> bytes) list store" where
  "named_store = first_store\<lparr>st_dbs := (st_dbs first_store)\<lparr>db_registry :=
     [([97], u32_to_le 7), (NEXT_COLLECTION_ID_KEY, u32_to_le 8)]\<rparr>\<rparr>"

lemma named_store_runs:
  "get_collection_id list_K named_store [97] = Inr (Some 7)"
  "Collection_load list_machine 7 [97] named_store one_config = Inr (small_collection 7 [97], named_store)"
  by code_simp+

text \<open>The first collection of a new store.\<close>

definition registered_store :: "(bytes \<times> bytes) list store" where
  "registered_store = empty_store\<lparr>st_dbs := no_dbs\<lparr>db_registry :=
     [(NEXT_COLLECTION_ID_KEY, u32_to_le 1), ([97], u32_to_le 0)]\<rparr>\<rparr>"

definition made_store :: "(bytes \<times> bytes) list store" where
  "made_store = registered_store\<lparr>st_dbs := (st_dbs registered_store)\<lparr>db_metadata :=
     [(metadata_key 0 (ascii ''config_d''), u64_to_le 1), (metadata_key 0 (ascii ''eta''), u64_to_le (f64_bits 1)),
      (metadata_key 0 (ascii ''next_id''), u64_to_le 0)]\<rparr>\<rparr>"

lemma made_store_runs:
  "register list_K empty_store [97] = Inr (0, registered_store)"
  "load_all_locations list_K registered_store 0 = Inr ([], registered_store)"
  "Collection_new list_machine 0 [97] registered_store one_config () = (Inr (small_collection 0 [97], made_store), ())"
proof -
  show "register list_K empty_store [97] = Inr (0, registered_store)"
    "load_all_locations list_K registered_store 0 = Inr ([], registered_store)"
    by code_simp+
  show "Collection_new list_machine 0 [97] registered_store one_config () = (Inr (small_collection 0 [97], made_store), ())"
    by (simp add: Collection_new_def Let_def write_txn_def commit_def list_K_ops put_locations_def put_u64_def
        put_eta_def put_metadata_def empty_store_def no_dbs_def registered_store_def made_store_def one_config_def)
qed

lemmas hive_runs = plain_hive_def cached_def get_locked_def reload_collection_def seed_collection_def
  install_def publish_def named_store_runs made_store_runs

end
