(* ===== verification/Collection_Frame.thy ===== *)
theory Collection_Frame
  imports Collection_Sound
begin

text \<open>
  The frame of a collection's operations: whatever a mutation of one collection does, it
  changes no record of another, so that what other collections rely on, being sound, being
  stored or being new, stays. The contract \<open>confined\<close> of a mutation's body carries this from
  the operations of store.rs to whole mutations with their recovery.
\<close>

section \<open>Changes inside one collection\<close>

definition inside :: "('db \<Rightarrow> bytes \<Rightarrow> bytes option) \<Rightarrow> u32 \<Rightarrow> 'db dbs \<Rightarrow> 'db dbs \<Rightarrow> bool" where
  "inside view c s s' \<longleftrightarrow>
     same_outside c (view (db_locations s)) (view (db_locations s')) \<and>
     same_outside c (view (db_documents s)) (view (db_documents s')) \<and>
     same_outside c (view (db_doc_index s)) (view (db_doc_index s')) \<and>
     same_outside c (view (db_metadata s)) (view (db_metadata s')) \<and>
     db_registry s' = db_registry s \<and> db_audit s' = db_audit s"

lemma inside_refl [simp]: "inside view c s s"
  by (simp add: inside_def)

lemma inside_trans: "inside view c s t \<Longrightarrow> inside view c t u \<Longrightarrow> inside view c s u"
  by (simp add: inside_def same_outside_def)

lemma inside_only_scope: "inside view c s s' \<Longrightarrow> only_scope view c s s'"
  by (auto simp: inside_def intro: only_scopeI)

named_theorems insides \<open>the operations of store.rs and collection.rs that stay in their collection\<close>

lemma put_location_inside [insides]:
  "storage_ok K view \<Longrightarrow> put_location K p s c l = Inr s' \<Longrightarrow> inside view c s s'"
  by (auto simp: put_location_def rbind_eq_Inr inside_def intro: same_outside_write)

lemma put_metadata_inside [insides]:
  "storage_ok K view \<Longrightarrow> put_metadata K s c n v = Inr s' \<Longrightarrow> inside view c s s'"
  by (auto simp: put_metadata_def rbind_eq_Inr inside_def intro: same_outside_write)

lemma put_document_inside [insides]:
  "storage_ok K view \<Longrightarrow> put_document K s c i v = Inr s' \<Longrightarrow> inside view c s s'"
  by (auto simp: put_document_def rbind_eq_Inr inside_def intro: same_outside_write)

lemma append_doc_inside [insides]:
  "storage_ok K view \<Longrightarrow> append_doc_to_location K s c i d = Inr s' \<Longrightarrow> inside view c s s'"
  by (auto simp: append_doc_to_location_def put_doc_index_entry_def rbind_eq_Inr inside_def
      intro: same_outside_write)

lemma rfold_inside:
  assumes "rfold f s xs = Inr s'" "\<And>s x s'. f s x = Inr s' \<Longrightarrow> inside view c s s'"
  shows "inside view c s s'"
  by (rule rfold_invariant [OF assms(1)]) (auto intro: inside_trans dest: assms(2))

lemma put_locations_inside [insides]:
  "storage_ok (mc_storage M) view \<Longrightarrow> put_locations M p s c ls = Inr s' \<Longrightarrow> inside view c s s'"
  unfolding put_locations_def by (erule rfold_inside) (rule put_location_inside)

lemma put_u64_inside [insides]:
  "storage_ok (mc_storage M) view \<Longrightarrow> put_u64 M s c key v = Inr s' \<Longrightarrow> inside view c s s'"
  by (auto simp: put_u64_def rbind_eq_Inr dest: put_metadata_inside)

lemma put_eta_inside [insides]:
  "storage_ok (mc_storage M) view \<Longrightarrow> put_eta M s c v = Inr s' \<Longrightarrow> inside view c s s'"
  by (auto simp: put_eta_def rbind_eq_Inr dest: put_metadata_inside)

lemma put_counters_inside [insides]:
  "storage_ok (mc_storage M) view \<Longrightarrow> put_counters M s c inner = Inr s' \<Longrightarrow> inside view c s s'"
  by (auto simp: put_counters_def rbind_eq_Inr intro: inside_trans insides)

lemma put_doc_counters_inside [insides]:
  "storage_ok (mc_storage M) view \<Longrightarrow> put_doc_counters M s c inner = Inr s' \<Longrightarrow> inside view c s s'"
  by (auto simp: put_doc_counters_def rbind_eq_Inr intro: inside_trans insides)

lemma append_docs_inside [insides]:
  "storage_ok K view \<Longrightarrow>
   rfold (\<lambda>txn l. append_doc_to_location K txn c l d) s ls = Inr s' \<Longrightarrow> inside view c s s'"
  by (erule rfold_inside) (rule append_doc_inside)

section \<open>Changes of the store inside one collection\<close>

definition store_inside :: "('db \<Rightarrow> bytes \<Rightarrow> bytes option) \<Rightarrow> u32 \<Rightarrow> 'db store \<Rightarrow> 'db store \<Rightarrow> bool" where
  "store_inside view c s s' \<longleftrightarrow> st_precision s' = st_precision s \<and> inside view c (st_dbs s) (st_dbs s')"

lemma store_inside_refl [simp]: "store_inside view c s s"
  by (simp add: store_inside_def)

lemma store_inside_trans:
  "store_inside view c s t \<Longrightarrow> store_inside view c t u \<Longrightarrow> store_inside view c s u"
  by (auto simp: store_inside_def intro: inside_trans)

lemma store_inside_registry: "store_inside view c s s' \<Longrightarrow> db_registry (st_dbs s') = db_registry (st_dbs s)"
  by (simp add: store_inside_def inside_def)

lemma load_all_inside: "load_all_locations K s c = Inr (ls, s') \<Longrightarrow> store_inside view i s s'"
  using load_all_locations_store by (fastforce simp: store_inside_def)

lemma Collection_load_inside: "Collection_load M c name s cfg = Inr (C, s') \<Longrightarrow> store_inside view i s s'"
  by (auto simp: Collection_load_def Let_def rbind_eq_Inr dest: load_all_inside)

lemma Collection_new_inside:
  assumes K: "storage_ok (mc_storage M) view" and n: "Collection_new M c name s cfg rng = (Inr (C, s'), rng')"
  shows "store_inside view c s s'" "co_id C = c" "co_name C = name"
  using n txn_eq [OF K]
  by (auto simp: Collection_new_def Let_def rbind_eq_Inr store_inside_def split: prod.splits;
      fastforce intro: inside_trans insides [OF K])+

lemma Collection_load_fields:
  "Collection_load M c name s cfg = Inr (C, s') \<Longrightarrow> co_id C = c \<and> co_name C = name \<and> in_config (co_inner C) = cfg"
  by (auto simp: Collection_load_def Let_def rbind_eq_Inr)

lemma recover_inside: "recover M C inner s = (inner', s') \<Longrightarrow> store_inside view c s s'"
  by (auto simp: recover_def split: sum.splits dest: Collection_load_inside [where i = c and view = view])

section \<open>The contract\<close>

locale confined =
  fixes body :: "('r, 'db) machine \<Rightarrow> u32 \<Rightarrow> EAMInner \<Rightarrow> 'db store \<Rightarrow> 'r \<Rightarrow> 'a ending \<times> 'db store \<times> 'r"
  assumes body_inside: "storage_ok (mc_storage M) view \<Longrightarrow> body M c inner s rng = (out, s', rng') \<Longrightarrow>
      store_inside view c s s'"
begin

lemma mutation_inside:
  assumes K: "storage_ok (mc_storage M) view" and m: "atomic_mutation M (body M) (c, s, rng) = (r, c', s', rng')"
  shows "store_inside view (co_id c) s s' \<and> co_id c' = co_id c \<and> co_name c' = co_name c"
proof (cases "write_inner c")
  case (Inl e)
  then show ?thesis using m by (simp add: atomic_mutation_def)
next
  case (Inr inner)
  obtain out s1 rng1 where b: "body M (co_id c) inner s rng = (out, s1, rng1)" by (metis prod_cases3)
  note one = body_inside [OF K b]
  show ?thesis
  proof (cases out)
    case (Dirty e inner1)
    obtain inner2 s2 where rec: "recover M c inner1 s1 = (inner2, s2)" by fastforce
    from store_inside_trans [OF one recover_inside [OF rec]] show ?thesis
      using m Inr b Dirty rec by (auto simp: atomic_mutation_def)
  qed (use m Inr b one in \<open>auto simp: atomic_mutation_def\<close>)
qed

end

lemma persist_write_inside:
  assumes K: "storage_ok (mc_storage M) view" and p: "persist_write M c inner r s = Inr s'"
  shows "store_inside view c s s'"
  using p txn_eq [OF K]
  by (auto simp: persist_write_def rbind_eq_Inr store_inside_def; fastforce intro: inside_trans insides [OF K])

lemma persist_document_inside:
  assumes K: "storage_ok (mc_storage M) view" and p: "persist_document M c inner r i input metadata s = Inr s'"
  shows "store_inside view c s s'"
  using p txn_eq [OF K]
  by (auto simp: persist_document_def Let_def rbind_eq_Inr store_inside_def; fastforce intro: inside_trans insides [OF K])

interpretation confined_write: confined "\<lambda>M. write_body M address counter opts" for address counter opts
  by unfold_locales
    (auto simp: write_body_def Let_def split: sum.splits prod.splits intro: persist_write_inside)

interpretation confined_document: confined "\<lambda>M. document_body M input metadata" for input metadata
  by unfold_locales
    (auto simp: document_body_def Let_def split: sum.splits prod.splits intro: persist_document_inside)

section \<open>What other collections rely on\<close>

lemma other_prefix: "c' \<noteq> c \<Longrightarrow> prefix (collection_prefix c') b \<Longrightarrow> \<not> prefix (collection_prefix c) b"
  by (auto simp: prefix_def collection_prefix_def)

lemma inside_same:
  assumes "inside view c s s'" "c' \<noteq> c" "prefix (collection_prefix c') b"
  shows "view (db_locations s') b = view (db_locations s) b" "view (db_metadata s') b = view (db_metadata s) b"
    "view (db_documents s') b = view (db_documents s) b" "view (db_doc_index s') b = view (db_doc_index s) b"
  using assms other_prefix [OF assms(2,3)] by (auto simp: inside_def same_outside_def)

lemma durable_local:
  assumes "durable K view c s inner" "st_precision s' = st_precision s"
    and "\<And>b. prefix (collection_prefix c) b \<Longrightarrow> view (db_locations (st_dbs s')) b = view (db_locations (st_dbs s)) b"
    and "\<And>b. prefix (collection_prefix c) b \<Longrightarrow> view (db_metadata (st_dbs s')) b = view (db_metadata (st_dbs s)) b"
  shows "durable K view c s' inner"
  using assms by (simp add: durable_def records_def counters_ok_def counter_is_def)

text \<open>What a collection's records in memory and on disk say of each other survives.\<close>

lemma others_kept:
  assumes "store_inside view c s s'" "c' \<noteq> c"
  shows "durable K view c' s inner \<Longrightarrow> durable K view c' s' inner"
    and "consistent M view c' s inner \<Longrightarrow> consistent M view c' s' inner"
    and "fresh_scope view c' s \<Longrightarrow> fresh_scope view c' s'"
  using assms inside_same [of view c "st_dbs s" "st_dbs s'" c']
  by (auto simp: store_inside_def consistent_def fresh_scope_def intro: durable_local)

lemma others_sound:
  "store_inside view c s s' \<Longrightarrow> co_id C \<noteq> c \<Longrightarrow> sound M view C s \<Longrightarrow> sound M view C s'"
  using others_kept(2) [where c' = "co_id C"] by (auto simp: sound_def)

text \<open>Reading, which at most counts skipped records, changes nothing for anyone.\<close>

lemma same_dbs_kept:
  assumes "st_dbs s' = st_dbs s" "st_precision s' = st_precision s"
  shows "durable K view c s' inner = durable K view c s inner"
    and "consistent M view c s' inner = consistent M view c s inner"
    and "fresh_scope view c s' = fresh_scope view c s" "sound M view C s' = sound M view C s"
  using assms by (simp_all add: durable_def consistent_def fresh_scope_def sound_def)

end
