(* ===== verification/Hive_Steps.thy ===== *)
theory Hive_Steps
  imports Hive Collection_Frame
begin

text \<open>
  The calls of heather_db/src/hive.rs as interleaved steps. Between two steps other threads
  may run: every access of the cache behind its lock and every transaction of the store is
  one step. \<open>locked\<close> is the write lock of the cache held across the steps of
  \<open>create_collection\<close>; a step that needs the lock waits for it. Collection::load, several
  read transactions in a row, is one step, and so is a mutation of a collection, which runs
  under that collection's own lock.
\<close>

section \<open>Calls and their progress\<close>

datatype call =
    Create bytes | Get bytes | GetOrCreate bytes | Drop bytes
  | Write nat "f64 list" | Insert nat "f64 list" bytes  \<comment> \<open>through a handle\<close>

datatype answer = Handle nat | Missing | Dropped bool | Wrote | Inserted u64 | Failed fault

datatype progress =
    Asked call
  | Creating bytes           \<comment> \<open>not in the cache; wants the write lock\<close>
  | Opening bytes u32        \<comment> \<open>registered; holds the lock\<close>
  | Seeding bytes u32        \<comment> \<open>no locations on disk; holds the lock\<close>
  | Reloading bytes u32      \<comment> \<open>locations on disk; holds the lock\<close>
  | Finding bytes            \<comment> \<open>not in the cache; wants the id\<close>
  | Loading bytes u32        \<comment> \<open>has the id; wants the write lock\<close>
  | Deleting bytes u32
  | Forgetting bytes
  | Answered answer

definition reply :: "nat res \<Rightarrow> progress" where
  "reply r = Answered (case r of Inl e \<Rightarrow> Failed e | Inr a \<Rightarrow> Handle a)"

text \<open>The look into the cache that begins every call but a drop: what follows if nothing is there.\<close>

definition look :: "progress \<Rightarrow> bytes \<Rightarrow> 'db hive \<Rightarrow> progress" where
  "look otherwise name H =
     (case cached H name of
        Inl e \<Rightarrow> Answered (Failed e)
      | Inr (Some a) \<Rightarrow> Answered (Handle a)
      | Inr None \<Rightarrow> otherwise)"

type_synonym ('r, 'db) hstate = "bool \<times> ('r, 'db) hworld"

fun advance :: "('r, 'db) machine \<Rightarrow> progress \<Rightarrow> ('r, 'db) hstate \<Rightarrow> progress \<times> ('r, 'db) hstate" where
  "advance M (Asked (Create n)) (l, H, rng) = (look (Creating n) n H, l, H, rng)"
| "advance M (Asked (Get n)) (l, H, rng) = (look (Finding n) n H, l, H, rng)"
| "advance M (Asked (GetOrCreate n)) (l, H, rng) = (look (Asked (Create n)) n H, l, H, rng)"
| "advance M (Asked (Drop n)) (l, H, rng) =
     (case get_collection_id (mc_storage M) (hv_store H) n of
        Inl e \<Rightarrow> (Answered (Failed e), l, H, rng)
      | Inr None \<Rightarrow> (Answered (Dropped False), l, H, rng)
      | Inr (Some i) \<Rightarrow> (Deleting n i, l, H, rng))"
| "advance M (Asked (Write a v)) (l, H, rng) =
     (let (r, w) = on_collection a (Collection_write M v) (H, rng)
      in (Answered (case r of Inl e \<Rightarrow> Failed e | Inr _ \<Rightarrow> Wrote), l, w))"
| "advance M (Asked (Insert a v m)) (l, H, rng) =
     (let (r, w) = on_collection a (write_with_metadata M v m) (H, rng)
      in (Answered (case r of Inl e \<Rightarrow> Failed e | Inr i \<Rightarrow> Inserted i), l, w))"
| "advance M (Creating n) (l, H, rng) =
     (case cached H n of
        Inl e \<Rightarrow> (Answered (Failed e), l, H, rng)
      | Inr (Some a) \<Rightarrow> (Answered (Handle a), l, H, rng)
      | Inr None \<Rightarrow>
         (case register (mc_storage M) (hv_store H) n of
            Inl e \<Rightarrow> (Answered (Failed e), l, fail_locked e H, rng)
          | Inr (i, s) \<Rightarrow> (Opening n i, True, H\<lparr>hv_store := s\<rparr>, rng)))"
| "advance M (Opening n i) (l, H, rng) =
     (case load_all_locations (mc_storage M) (hv_store H) i of
        Inl e \<Rightarrow> (Answered (Failed e), False, fail_locked e H, rng)
      | Inr (existing, s) \<Rightarrow>
         (if existing = [] then Seeding n i else Reloading n i, True, H\<lparr>hv_store := s\<rparr>, rng))"
| "advance M (Seeding n i) (l, w) = (let (r, w) = seed_collection M n i w in (reply r, False, w))"
| "advance M (Reloading n i) (l, w) = (let (r, w) = reload_collection M n i w in (reply r, False, w))"
| "advance M (Finding n) (l, H, rng) =
     (case get_collection_id (mc_storage M) (hv_store H) n of
        Inl e \<Rightarrow> (Answered (Failed e), l, H, rng)
      | Inr None \<Rightarrow> (Answered Missing, l, H, rng)
      | Inr (Some i) \<Rightarrow> (Loading n i, l, H, rng))"
| "advance M (Loading n i) (l, w) = (let (r, w) = get_locked M n i w in (reply r, l, w))"
| "advance M (Deleting n i) (l, H, rng) =
     (case unregister (mc_storage M) (hv_store H) n i of
        Inl e \<Rightarrow> (Answered (Failed e), l, H, rng)
      | Inr s \<Rightarrow> (Forgetting n, l, H\<lparr>hv_store := s\<rparr>, rng))"
| "advance M (Forgetting n) (l, H, rng) =
     (let (r, H) = forget n H
      in (Answered (case r of Inl e \<Rightarrow> Failed e | Inr _ \<Rightarrow> Dropped True), l, H, rng))"
| "advance M (Answered x) (l, w) = (Answered x, l, w)"

text \<open>The steps that wait for the lock, and those of its holder.\<close>

fun wants_lock :: "progress \<Rightarrow> bool" where
  "wants_lock (Asked (Create n)) = True"
| "wants_lock (Asked (Get n)) = True"
| "wants_lock (Asked (GetOrCreate n)) = True"
| "wants_lock (Creating n) = True"
| "wants_lock (Loading n i) = True"
| "wants_lock (Forgetting n) = True"
| "wants_lock _ = False"

fun holds_lock :: "progress \<Rightarrow> bool" where
  "holds_lock (Opening n i) = True"
| "holds_lock (Seeding n i) = True"
| "holds_lock (Reloading n i) = True"
| "holds_lock _ = False"

fun has_handle :: "'db hive \<Rightarrow> progress \<Rightarrow> bool" where
  "has_handle H (Asked (Write a v)) = (a < length (hv_heap H))"
| "has_handle H (Asked (Insert a v m)) = (a < length (hv_heap H))"
| "has_handle H _ = True"

fun answered :: "progress \<Rightarrow> bool" where
  "answered (Answered x) = True"
| "answered _ = False"

definition enabled :: "progress \<Rightarrow> bool \<Rightarrow> bool" where
  "enabled p locked \<longleftrightarrow> \<not> answered p \<and> \<not> (locked \<and> wants_lock p)"

type_synonym ('r, 'db) hconf = "progress list \<times> ('r, 'db) hstate"

inductive hive_step :: "('r, 'db) machine \<Rightarrow> ('r, 'db) hconf \<Rightarrow> ('r, 'db) hconf \<Rightarrow> bool" for M where
  step: "i < length ts \<Longrightarrow> enabled (ts ! i) l \<Longrightarrow> advance M (ts ! i) (l, w) = (p, l', w') \<Longrightarrow>
     hive_step M (ts, l, w) (ts[i := p], l', w')"

inductive_cases hive_stepE: "hive_step M (ts, l, w) st"

section \<open>A call that is not interrupted\<close>

text \<open>The answer of the sequential functions.\<close>

fun alone :: "('r, 'db) machine \<Rightarrow> call \<Rightarrow> ('r, 'db) hworld \<Rightarrow> progress \<times> ('r, 'db) hworld" where
  "alone M (Create n) w = (let (r, w) = Hive_create M n w in (reply r, w))"
| "alone M (Get n) w = (let (r, w) = Hive_get M n w in
     (Answered (case r of Inl e \<Rightarrow> Failed e | Inr None \<Rightarrow> Missing | Inr (Some a) \<Rightarrow> Handle a), w))"
| "alone M (GetOrCreate n) w = (let (r, w) = Hive_get_or_create M n w in (reply r, w))"
| "alone M (Drop n) (H, rng) = (let (r, H) = Hive_drop M n H in
     (Answered (case r of Inl e \<Rightarrow> Failed e | Inr b \<Rightarrow> Dropped b), H, rng))"
| "alone M (Write a v) w = (let (r, w) = on_collection a (Collection_write M v) w in
     (Answered (case r of Inl e \<Rightarrow> Failed e | Inr _ \<Rightarrow> Wrote), w))"
| "alone M (Insert a v m) w = (let (r, w) = on_collection a (write_with_metadata M v m) w in
     (Answered (case r of Inl e \<Rightarrow> Failed e | Inr i \<Rightarrow> Inserted i), w))"

abbreviation go_on :: "('r, 'db) machine \<Rightarrow> progress \<times> ('r, 'db) hstate \<Rightarrow> progress \<times> ('r, 'db) hstate" where
  "go_on M \<equiv> \<lambda>(p, st). advance M p st"

text \<open>Five steps are enough for every call.\<close>

lemma five: "f (f (f (f (f x)))) = (f ^^ 5) x"
  by (simp add: numeral_eq_Suc)

lemmas sequential_defs = look_def reply_def Hive_create_def Hive_get_def Hive_get_or_create_def Hive_drop_def
  create_locked_def get_locked_def Let_def

lemma alone_steps: "(go_on M ^^ 5) (Asked c, False, w) = (fst (alone M c w), False, snd (alone M c w))"
proof -
  obtain H rng where w: "w = (H, rng)" by fastforce
  show ?thesis
  proof (cases c)
    case (Create n)
    then show ?thesis
      by (auto simp: w five [symmetric] sequential_defs split: sum.splits option.splits prod.splits)
  next
    case (Get n)
    then show ?thesis
      by (auto simp: w five [symmetric] sequential_defs split: sum.splits option.splits prod.splits)
  next
    case (GetOrCreate n)
    then show ?thesis
      by (auto simp: w five [symmetric] sequential_defs split: sum.splits option.splits prod.splits)
  next
    case (Drop n)
    then show ?thesis
      by (auto simp: w five [symmetric] sequential_defs split: sum.splits option.splits prod.splits)
  next
    case (Write a v)
    then show ?thesis by (auto simp: w five [symmetric] split: prod.splits)
  next
    case (Insert a v m)
    then show ?thesis by (auto simp: w five [symmetric] split: prod.splits)
  qed
qed

section \<open>Every call ends\<close>

fun rank :: "progress \<Rightarrow> nat" where
  "rank (Asked (GetOrCreate n)) = 5"
| "rank (Asked (Create n)) = 4"
| "rank (Asked (Get n)) = 3"
| "rank (Asked (Drop n)) = 3"
| "rank (Asked (Write a v)) = 1"
| "rank (Asked (Insert a v m)) = 1"
| "rank (Creating n) = 3"
| "rank (Opening n i) = 2"
| "rank (Seeding n i) = 1"
| "rank (Reloading n i) = 1"
| "rank (Finding n) = 2"
| "rank (Loading n i) = 1"
| "rank (Deleting n i) = 2"
| "rank (Forgetting n) = 1"
| "rank (Answered x) = 0"

text \<open>One step of each kind: the proofs below go through them.\<close>

lemma advance_cases:
  assumes "advance M p (l, w) = (p', l', w')" "enabled p l"
  obtains (answer) x where "p' = Answered x" "\<not> holds_lock p" "l' = l"
  | (release) x where "p' = Answered x" "holds_lock p" "\<not> l'"
  | (acquire) n i where "p = Creating n" "p' = Opening n i" "\<not> l" "l'"
  | (hold) n i where "p = Opening n i" "p' = Seeding n i \<or> p' = Reloading n i" "l'"
  | (go) "\<not> holds_lock p" "\<not> holds_lock p'" "l' = l" "rank p' < rank p" "\<not> answered p'"
proof -
  obtain H rng where w: "w = (H, rng)" by fastforce
  have "(\<exists>x. p' = Answered x \<and> \<not> holds_lock p \<and> l' = l) \<or> (\<exists>x. p' = Answered x \<and> holds_lock p \<and> \<not> l') \<or>
    (\<exists>n i. p = Creating n \<and> p' = Opening n i \<and> \<not> l \<and> l') \<or>
    (\<exists>n i. p = Opening n i \<and> (p' = Seeding n i \<or> p' = Reloading n i) \<and> l') \<or>
    (\<not> holds_lock p \<and> \<not> holds_lock p' \<and> l' = l \<and> rank p' < rank p \<and> \<not> answered p')"
  proof (cases p)
    case (Asked c)
    then show ?thesis
      using assms(1) by (cases c) (auto simp: w look_def split: sum.splits option.splits prod.splits)
  qed (use assms in \<open>auto simp: w reply_def enabled_def split: sum.splits option.splits prod.splits if_splits\<close>)
  then show thesis using that by blast
qed

lemma advance_rank:
  assumes "enabled p l" "advance M p (l, w) = (p', l', w')"
  shows "rank p' < rank p"
proof -
  have "0 < rank p" using assms(1) by (cases p rule: rank.cases) (auto simp: enabled_def)
  with assms(2,1) show ?thesis by (cases rule: advance_cases) auto
qed

definition lock_ok :: "progress list \<Rightarrow> bool \<Rightarrow> bool" where
  "lock_ok ts l \<longleftrightarrow>
     (\<forall>i<length ts. holds_lock (ts ! i) \<longrightarrow> l) \<and> (l \<longrightarrow> (\<exists>i<length ts. holds_lock (ts ! i))) \<and>
     (\<forall>i<length ts. \<forall>j<length ts. holds_lock (ts ! i) \<longrightarrow> holds_lock (ts ! j) \<longrightarrow> i = j)"

lemma lock_ok_step:
  assumes "hive_step M (ts, l, w) (ts', l', w')" "lock_ok ts l"
  shows "lock_ok ts' l'"
proof -
  obtain k p where k: "k < length ts" "enabled (ts ! k) l" "advance M (ts ! k) (l, w) = (p, l', w')" "ts' = ts[k := p]"
    using assms(1) by (auto elim: hive_stepE)
  from k(3,2) show ?thesis
  proof (cases rule: advance_cases)
    case (acquire n i)
    then have "\<not> holds_lock (ts ! j)" if "j < length ts" for j using assms(2) that by (auto simp: lock_ok_def)
    then show ?thesis using acquire k(1) by (auto simp: lock_ok_def k(4) nth_list_update)
  next
    case (hold n i)
    then have "holds_lock (ts ! k)" "holds_lock p" by auto
    then show ?thesis using assms(2) k(1) hold(3) by (auto simp: lock_ok_def k(4) nth_list_update)
  next
    case (release x)
    then have "\<not> holds_lock (ts ! j)" if "j < length ts" "j \<noteq> k" for j
      using assms(2) that k(1) by (auto simp: lock_ok_def)
    then show ?thesis using release k(1) by (auto simp: lock_ok_def k(4) nth_list_update)
  qed (use assms(2) k(1) in \<open>auto simp: lock_ok_def k(4) nth_list_update\<close>)
qed

definition work_left :: "progress list \<Rightarrow> nat" where
  "work_left ts = sum_list (map rank ts)"

lemma sum_list_update_less:
  fixes xs :: "nat list"
  shows "i < length xs \<Longrightarrow> x < xs ! i \<Longrightarrow> sum_list (xs[i := x]) < sum_list xs"
proof (induction xs arbitrary: i)
  case (Cons a xs)
  then show ?case by (cases i) auto
qed simp

lemma hive_step_work:
  assumes "hive_step M (ts, l, w) (ts', l', w')"
  shows "work_left ts' < work_left ts"
proof -
  obtain i p where i: "i < length ts" "enabled (ts ! i) l" "advance M (ts ! i) (l, w) = (p, l', w')" "ts' = ts[i := p]"
    using assms by (auto elim: hive_stepE)
  from advance_rank [OF i(2,3)] i(1) show ?thesis
    by (simp add: i(4) work_left_def map_update sum_list_update_less)
qed

lemma hive_steps_work:
  "(hive_step M ^^ k) (ts, st) (ts', st') \<Longrightarrow> work_left ts' + k \<le> work_left ts"
proof (induction k arbitrary: ts' st')
  case (Suc k)
  then obtain ts1 st1 where s: "(hive_step M ^^ k) (ts, st) (ts1, st1)" "hive_step M (ts1, st1) (ts', st')"
    by (auto simp: OO_def)
  have "work_left ts' < work_left ts1"
    using s(2) hive_step_work by (metis surj_pair)
  then show ?case using Suc.IH [OF s(1)] by simp
qed simp

lemma steps_lock_ok:
  "(hive_step M)\<^sup>*\<^sup>* (ts, l, w) (ts', l', w') \<Longrightarrow> lock_ok ts l \<Longrightarrow> lock_ok ts' l'"
  by (induction "(ts', l', w')" arbitrary: ts' l' w' rule: rtranclp_induct) (auto dest: lock_ok_step)

lemma not_stuck:
  assumes "lock_ok ts l" "i < length ts" "\<not> answered (ts ! i)"
  shows "\<exists>s. hive_step M (ts, l, w) s"
proof -
  have holder: "\<not> wants_lock p \<and> \<not> answered p" if "holds_lock p" for p
    using that by (cases p rule: holds_lock.cases) auto
  obtain j where "j < length ts" "enabled (ts ! j) l"
  proof (cases l)
    case True
    then obtain j where "j < length ts" "holds_lock (ts ! j)" using assms(1) by (auto simp: lock_ok_def)
    then show ?thesis using holder that by (auto simp: enabled_def)
  next
    case False
    then show ?thesis using that assms(2,3) by (auto simp: enabled_def)
  qed
  then show ?thesis by (metis hive_step.step prod.exhaust)
qed

section \<open>Sharing\<close>

fun call_name :: "call \<Rightarrow> bytes option" where
  "call_name (Create n) = Some n"
| "call_name (Get n) = Some n"
| "call_name (GetOrCreate n) = Some n"
| "call_name _ = None"

fun drops :: "progress \<Rightarrow> bool" where
  "drops (Asked (Drop n)) = True"
| "drops (Deleting n i) = True"
| "drops (Forgetting n) = True"
| "drops _ = False"

text \<open>The part of a drop of one name.\<close>

fun drops_name :: "bytes \<Rightarrow> progress \<Rightarrow> bool" where
  "drops_name n (Asked (Drop m)) = (m = n)"
| "drops_name n (Deleting m i) = (m = n)"
| "drops_name n (Forgetting m) = (m = n)"
| "drops_name n _ = False"

text \<open>What a thread that serves a call for a name may be doing, and that its answer is in the cache.\<close>

fun serves :: "bytes \<Rightarrow> progress \<Rightarrow> 'db hive \<Rightarrow> bool" where
  "serves n (Asked c) H = (call_name c = Some n)"
| "serves n (Creating m) H = (m = n)"
| "serves n (Opening m i) H = (m = n)"
| "serves n (Seeding m i) H = (m = n)"
| "serves n (Reloading m i) H = (m = n)"
| "serves n (Finding m) H = (m = n)"
| "serves n (Loading m i) H = (m = n)"
| "serves n (Answered (Handle a)) H = (hv_cache H n = Some a)"
| "serves n _ H = True"

lemma serves_mono:
  "serves n p H \<Longrightarrow> (\<And>a. hv_cache H n = Some a \<Longrightarrow> hv_cache H' n = Some a) \<Longrightarrow> serves n p H'"
  by (cases "(n, p, H)" rule: serves.cases) auto

lemma fail_locked_fields [simp]:
  "hv_cache (fail_locked e H) = hv_cache H" "hv_heap (fail_locked e H) = hv_heap H"
  "hv_store (fail_locked e H) = hv_store H" "hv_config (fail_locked e H) = hv_config H"
  by (simp_all add: fail_locked_def)

lemma cached_simps [simp]: "cached H n = Inr r \<longleftrightarrow> \<not> hv_poisoned H \<and> r = hv_cache H n"
  by (auto simp: cached_def rbind_eq_Inr)

lemma install_cache:
  assumes "install m r H = (x, H')"
  shows "n \<noteq> m \<Longrightarrow> hv_cache H' n = hv_cache H n" "x = Inr a \<Longrightarrow> hv_cache H' m = Some a"
    "x = Inl e \<Longrightarrow> hv_cache H' = hv_cache H"
  using assms by (auto simp: install_def publish_def Let_def split: sum.splits)

text \<open>The holder of the lock has seen that its name is not in the cache.\<close>

fun uncached :: "bytes \<Rightarrow> progress \<Rightarrow> 'db hive \<Rightarrow> bool" where
  "uncached n (Opening m i) H = (m = n \<longrightarrow> hv_cache H n = None)"
| "uncached n (Seeding m i) H = (m = n \<longrightarrow> hv_cache H n = None)"
| "uncached n (Reloading m i) H = (m = n \<longrightarrow> hv_cache H n = None)"
| "uncached n _ H = True"

lemma uncached_other: "\<not> holds_lock p \<Longrightarrow> uncached n p H"
  by (cases p) auto

lemma uncached_same: "uncached n p H \<Longrightarrow> hv_cache H' n = hv_cache H n \<Longrightarrow> uncached n p H'"
  by (cases p) auto

text \<open>Only a drop of the name takes it out of the cache, and only the lock lets it in.\<close>

definition cache_kept :: "bytes \<Rightarrow> 'db hive \<Rightarrow> 'db hive \<Rightarrow> bool" where
  "cache_kept n H H' \<longleftrightarrow> (\<forall>a. hv_cache H n = Some a \<longrightarrow> hv_cache H' n = Some a)"

lemma install_step:
  assumes "install m r H = (x, H')" "m = n \<longrightarrow> hv_cache H n = None"
  shows "cache_kept n H H'" "m = n \<Longrightarrow> serves n (reply x) H'"
    "\<not> drops_name n (reply x)" "uncached n (reply x) H'"
  using assms install_cache [OF assms(1)] by (cases x; cases "m = n"; auto simp: cache_kept_def reply_def)+

lemma advance_cache:
  assumes "advance M p (l, H, rng) = (p', l', H', rng')" "\<not> drops_name n p" "uncached n p H"
  shows "cache_kept n H H'" "serves n p H \<Longrightarrow> serves n p' H'" "\<not> drops_name n p'"
    "\<not> wants_lock p \<Longrightarrow> \<not> holds_lock p \<Longrightarrow> hv_cache H' = hv_cache H" "uncached n p' H'"
proof -
  have "cache_kept n H H' \<and> (serves n p H \<longrightarrow> serves n p' H') \<and> \<not> drops_name n p' \<and>
    (\<not> wants_lock p \<longrightarrow> \<not> holds_lock p \<longrightarrow> hv_cache H' = hv_cache H) \<and> uncached n p' H'"
  proof (cases p)
    case (Asked x)
    then show ?thesis
      using assms
      by (cases x) (auto simp: look_def on_collection_def cache_kept_def split: sum.splits option.splits prod.splits)
  next
    case (Creating m)
    then show ?thesis using assms by (auto simp: cache_kept_def split: sum.splits option.splits)
  next
    case (Opening m i)
    then show ?thesis using assms by (auto simp: cache_kept_def split: sum.splits if_splits)
  next
    case (Seeding m i)
    obtain r rng1 where r: "Collection_new M i m (hv_store H) (hv_config H) rng = (r, rng1)" by fastforce
    obtain a H1 where a: "install m r H = (a, H1)" by fastforce
    show ?thesis
      using assms Seeding r a install_step [OF a, of n] by (auto simp: seed_collection_def)
  next
    case (Reloading m i)
    obtain a H1 where a: "install m (Collection_load M i m (hv_store H) (hv_config H)) H = (a, H1)" by fastforce
    show ?thesis
      using assms Reloading a install_step [OF a, of n] by (auto simp: reload_collection_def)
  next
    case (Finding m)
    then show ?thesis using assms by (auto simp: cache_kept_def split: sum.splits option.splits)
  next
    case (Loading m i)
    obtain a H1 where a: "install m (Collection_load M i m (hv_store H) (hv_config H)) H = (a, H1)" by fastforce
    show ?thesis
    proof (cases "cached H m = Inr None")
      case True
      then have "hv_cache H m = None" by simp
      with True show ?thesis
        using assms Loading a install_step [OF a, of n]
        by (auto simp: get_locked_def reload_collection_def simp del: cached_simps)
    next
      case False
      then show ?thesis
        using assms Loading
        by (cases "cached H m") (auto simp: get_locked_def reply_def cache_kept_def split: option.splits)
    qed
  next
    case (Deleting m i)
    then show ?thesis using assms by (auto simp: cache_kept_def split: sum.splits)
  next
    case (Forgetting m)
    then show ?thesis using assms by (auto simp: cache_kept_def forget_def split: sum.splits if_splits)
  next
    case (Answered x)
    then show ?thesis using assms by (auto simp: cache_kept_def)
  qed
  then show "cache_kept n H H'" "serves n p H \<Longrightarrow> serves n p' H'" "\<not> drops_name n p'"
    "\<not> wants_lock p \<Longrightarrow> \<not> holds_lock p \<Longrightarrow> hv_cache H' = hv_cache H" "uncached n p' H'" by blast+
qed

definition share_ok :: "bytes \<Rightarrow> call list \<Rightarrow> progress list \<Rightarrow> bool \<Rightarrow> 'db hive \<Rightarrow> bool" where
  "share_ok n cs ts l H \<longleftrightarrow> length ts = length cs \<and> lock_ok ts l \<and>
     (\<forall>k<length ts. (call_name (cs ! k) = Some n \<longrightarrow> serves n (ts ! k) H) \<and>
        \<not> drops_name n (ts ! k) \<and> uncached n (ts ! k) H)"

lemma share_ok_step:
  assumes "hive_step M (ts, l, H, rng) (ts', l', H', rng')" "share_ok n cs ts l H"
  shows "share_ok n cs ts' l' H'"
proof -
  obtain k p where k: "k < length ts" "enabled (ts ! k) l" "advance M (ts ! k) (l, H, rng) = (p, l', H', rng')"
    "ts' = ts[k := p]"
    using assms(1) by (auto elim: hive_stepE)
  have ok: "\<not> drops_name n (ts ! k)" "uncached n (ts ! k) H"
    using assms(2) k(1) by (auto simp: share_ok_def)
  note A = advance_cache [OF k(3) ok]
  have "uncached n (ts ! j) H'" if "j < length ts" "j \<noteq> k" for j
  proof (cases "holds_lock (ts ! j)")
    case True
    then have "l" "\<not> holds_lock (ts ! k)" using assms(2) that k(1) by (auto simp: share_ok_def lock_ok_def)
    then have "hv_cache H' = hv_cache H" using A(4) k(2) by (auto simp: enabled_def)
    then show ?thesis using assms(2) that(1) uncached_same by (fastforce simp: share_ok_def)
  qed (simp add: uncached_other)
  moreover have "serves n (ts ! j) H'" if "j < length ts" "call_name (cs ! j) = Some n" for j
  proof -
    have "serves n (ts ! j) H" using assms(2) that by (simp add: share_ok_def)
    then show ?thesis by (rule serves_mono) (use A(1) in \<open>simp add: cache_kept_def\<close>)
  qed
  moreover have "\<not> drops_name n (ts ! j)" if "j < length ts" for j
    using assms(2) that by (simp add: share_ok_def)
  ultimately show "share_ok n cs ts' l' H'"
    using assms(2) A k(1) lock_ok_step [OF assms(1)] by (auto simp: share_ok_def k(4) nth_list_update)
qed

lemma steps_share_ok:
  "(hive_step M)\<^sup>*\<^sup>* (ts, l, H, rng) (ts', l', H', rng') \<Longrightarrow> share_ok n cs ts l H \<Longrightarrow> share_ok n cs ts' l' H'"
  by (induction "(ts', l', H', rng')" arbitrary: ts' l' H' rng' rule: rtranclp_induct)
    (auto dest: share_ok_step)

lemma lock_ok_start [simp]: "lock_ok (map Asked cs) False"
  by (simp add: lock_ok_def)

lemma share_ok_start: "Drop n \<notin> set cs \<Longrightarrow> share_ok n cs (map Asked cs) False H"
proof -
  assume nodrop: "Drop n \<notin> set cs"
  have "\<not> drops_name n (Asked (cs ! k))" if "k < length cs" for k
    using nodrop nth_mem [OF that] by (cases "cs ! k") auto
  then show ?thesis by (simp add: share_ok_def)
qed

section \<open>Schedules\<close>

text \<open>Running the threads in a given order; \<open>None\<close> if a step of it is not possible.\<close>

fun follow :: "('r, 'db) machine \<Rightarrow> nat list \<Rightarrow> ('r, 'db) hconf \<Rightarrow> ('r, 'db) hconf option" where
  "follow M [] st = Some st"
| "follow M (i # is) (ts, l, w) =
     (if i < length ts \<and> enabled (ts ! i) l
      then let (p, l', w') = advance M (ts ! i) (l, w) in follow M is (ts[i := p], l', w')
      else None)"

lemma follow_steps: "follow M is st = Some st' \<Longrightarrow> (hive_step M)\<^sup>*\<^sup>* st st'"
proof (induction M "is" st rule: follow.induct)
  case (2 M i "is" ts l w)
  obtain p l' w' where a: "advance M (ts ! i) (l, w) = (p, l', w')" by (metis prod_cases3)
  have i: "i < length ts" "enabled (ts ! i) l" and f: "follow M is (ts[i := p], l', w') = Some st'"
    using "2.prems" a by (auto split: if_splits)
  have "hive_step M (ts, l, w) (ts[i := p], l', w')" by (rule hive_step.step [OF i a])
  moreover have "(hive_step M)\<^sup>*\<^sup>* (ts[i := p], l', w') st'"
    by (rule "2.IH" [OF conjI [OF i] a [symmetric] refl refl f])
  ultimately show ?case by (rule converse_rtranclp_into_rtranclp)
qed simp

text \<open>A thread that is alone is never in its own way.\<close>

lemma alone_reaches:
  "l = holds_lock p \<Longrightarrow> (go_on M ^^ k) (p, l, w) = (p', l', w') \<Longrightarrow> (hive_step M)\<^sup>*\<^sup>* ([p], l, w) ([p'], l', w')"
proof (induction k arbitrary: p l w)
  case (Suc k)
  obtain p1 l1 w1 where a: "advance M p (l, w) = (p1, l1, w1)" by (metis prod_cases3)
  have rest: "(go_on M ^^ k) (p1, l1, w1) = (p', l', w')"
    using Suc.prems(2) a by (simp add: funpow_swap1)
  show ?case
  proof (cases "answered p")
    case True
    then obtain x where "p = Answered x" by (cases p) auto
    then have "p1 = p" "l1 = l" "w1 = w" using a by (cases w; auto)+
    then show ?thesis using Suc.IH [OF Suc.prems(1)] rest by simp
  next
    case False
    then have e: "enabled p l"
      using Suc.prems(1) by (cases p) (auto simp: enabled_def)
    then have "hive_step M ([p], l, w) ([p1], l1, w1)"
      using hive_step.step [of 0 "[p]" l M w p1 l1 w1] a by simp
    moreover have "l1 = holds_lock p1"
      using a e by (cases rule: advance_cases) (use Suc.prems(1) in auto)
    ultimately show ?thesis using Suc.IH rest by (meson converse_rtranclp_into_rtranclp)
  qed
qed simp

section \<open>Properties\<close>

text \<open>C30: Calls on a hive end and never block each other for good, whatever the interleaving:
  calls together take at most five steps each, and as long as one of them has no answer some
  step is possible; in particular the write lock of the cache is always given back.\<close>

theorem calls_come_to_an_end:
  assumes "(hive_step M ^^ k) (map Asked cs, False, w) (ts, st)"
  shows "k \<le> 5 * length cs \<and> (list_all answered ts \<or> (\<exists>st'. hive_step M (ts, st) st'))"
proof -
  obtain l w' where st: "st = (l, w')" by (metis surj_pair)
  have "rank (Asked c) \<le> 5" for c by (cases c) simp_all
  then have "work_left (map Asked cs) \<le> 5 * length cs"
    by (induction cs) (auto simp: work_left_def add_mono)
  then have "k \<le> 5 * length cs" using hive_steps_work [OF assms] by simp
  moreover have "lock_ok ts l"
    using steps_lock_ok [of M "map Asked cs" False w ts l w'] relpowp_imp_rtranclp [OF assms] by (simp add: st)
  then have "\<exists>st'. hive_step M (ts, st) st'" if busy: "\<not> list_all answered ts"
  proof -
    obtain i where "i < length ts" "\<not> answered (ts ! i)" using busy by (auto simp: list_all_length)
    from not_stuck [OF \<open>lock_ok ts l\<close> this] show ?thesis by (simp only: st)
  qed
  ultimately show ?thesis by blast
qed

theorem calls_come_to_an_end_witness:
  "\<exists>ts st. (hive_step list_machine ^^ 1) (map Asked [Create [97], Drop [97]], False, plain_hive empty_store, ()) (ts, st) \<and>
     (\<exists>st'. hive_step list_machine (ts, st) st')"
proof -
  let ?w = "(plain_hive empty_store, ())"
  have "hive_step list_machine (map Asked [Create [97], Drop [97]], False, ?w)
      ((map Asked [Create [97], Drop [97]])[0 := Creating [97]], False, ?w)"
    by (rule hive_step.step) (simp_all add: enabled_def look_def cached_def plain_hive_def)
  then have one: "(hive_step list_machine ^^ 1) (map Asked [Create [97], Drop [97]], False, ?w)
      ([Creating [97], Asked (Drop [97])], False, ?w)" by (simp add: relcompp_apply)
  from calls_come_to_an_end [OF one]
  have "\<exists>st'. hive_step list_machine ([Creating [97], Asked (Drop [97])], False, ?w) st'" by (simp del: split_paired_Ex)
  with one show ?thesis by blast
qed

text \<open>The calls are what they seem to be: a call that no other interrupts ends with the answer
  of the sequential function and leaves the hive as that function leaves it, with the lock free.\<close>

lemma uninterrupted_call_is_sequential:
  "(hive_step M)\<^sup>*\<^sup>* ([Asked c], False, w) ([fst (alone M c w)], False, snd (alone M c w))"
  by (rule alone_reaches [OF _ alone_steps]) simp

text \<open>C29: A name stands for one collection: whatever calls run in whatever order, as long as none
  drops that name, all calls for it that return a collection return the same one; other names
  may be dropped meanwhile.\<close>

theorem one_collection_per_name:
  assumes "(hive_step M)\<^sup>*\<^sup>* (map Asked cs, False, w) (ts, l, w')" "Drop n \<notin> set cs"
    and "i < length cs" "j < length cs" "call_name (cs ! i) = Some n" "call_name (cs ! j) = Some n"
    and "ts ! i = Answered (Handle a)" "ts ! j = Answered (Handle b)"
  shows "a = b"
proof -
  obtain H rng H' rng' where w: "w = (H, rng)" "w' = (H', rng')" by fastforce
  have "share_ok n cs ts l H'"
    using steps_share_ok [OF assms(1) [unfolded w]] share_ok_start [OF assms(2)] by blast
  then have "serves n (ts ! k) H'" if "k < length cs" "call_name (cs ! k) = Some n" for k
    using that by (simp add: share_ok_def)
  from this [OF assms(3,5)] this [OF assms(4,6)] show ?thesis using assms(7,8) by simp
qed

theorem one_collection_per_name_witness:
  "\<exists>a l w. (hive_step list_machine)\<^sup>*\<^sup>* (map Asked [Get [97], Get [97], Drop [98]], False, plain_hive named_store, ())
      ([Answered (Handle a), Answered (Handle a), Answered (Dropped False)], l, w)"
proof -
  let ?st = "(map Asked [Get [97], Get [97], Drop [98]], False, plain_hive named_store, ())"
  have none: "get_collection_id list_K named_store [98] = Inr None" by code_simp
  obtain a b w where f: "follow list_machine [0, 1, 1, 2, 0, 0, 1] ?st =
      Some ([Answered (Handle a), Answered (Handle b), Answered (Dropped False)], False, w)"
    using none by (simp add: enabled_def look_def reply_def hive_runs)
  have "a = b"
    by (rule one_collection_per_name [OF follow_steps [OF f], of "[97]" 0 1]) simp_all
  with follow_steps [OF f] show ?thesis by blast
qed

end
