(* ===== verification/Hive_Sound.thy ===== *)
theory Hive_Sound
  imports Hive_Steps
begin

text \<open>
  The state invariant of heather_db/src/hive.rs under interleaved calls: every open
  collection is registered under its name with an id of its own and is sound; every
  registered collection that is not open is either on disk or being opened; ids not given
  out yet have no records. Drops are left out here: Hive_Drop shows what they break.
\<close>

section \<open>Stored collections\<close>

text \<open>What a collection that is not open looks like on disk: a sound one with locations.\<close>

definition stored ::
  "('r, 'db) machine \<Rightarrow> ('db \<Rightarrow> bytes \<Rightarrow> bytes option) \<Rightarrow> EAMConfig \<Rightarrow> u32 \<Rightarrow> 'db store \<Rightarrow> bool" where
  "stored M view cfg i s \<longleftrightarrow>
     (\<exists>inner. consistent M view i s inner \<and> in_locations inner \<noteq> [] \<and> cfg_d (in_config inner) = cfg_d cfg)"

lemma stored_load:
  assumes K: "storage_ok (mc_storage M) view" and st: "stored M view cfg i s" and d: "0 < cfg_d cfg"
  shows "load_all_locations (mc_storage M) s i = Inr (ls, s') \<Longrightarrow> ls \<noteq> []"
    and "Collection_load M i name s cfg = Inr (C, s') \<Longrightarrow> s' = s \<and> co_id C = i \<and> sound M view C s"
proof -
  obtain inner where inner: "consistent M view i s inner" "in_locations inner \<noteq> []"
    "cfg_d (in_config inner) = cfg_d cfg" using st by (auto simp: stored_def)
  have mem: "memory_ok (cfg_d cfg) (in_next_id inner) (in_locations inner)"
    and dur: "durable (mc_storage M) view i s inner"
    using inner(1,3) by (simp_all add: consistent_def inner_ok_def Let_def)
  then have ids: "sorted_wrt (<) (map loc_id (in_locations inner))" by (simp add: memory_ok_def)
  show "ls \<noteq> []" if "load_all_locations (mc_storage M) s i = Inr (ls, s')"
    using load_durable_locations(1) [OF K dur ids that] inner(2) by auto
  show "s' = s \<and> co_id C = i \<and> sound M view C s" if load: "Collection_load M i name s cfg = Inr (C, s')"
  proof -
    obtain ls where ls: "s' = s" "co_id C = i"
      "list_all2 (loaded (sg_codec (mc_storage M)) (st_precision s) i (view (db_locations (st_dbs s)))) (in_locations inner) ls"
      "co_inner C = inner_of cfg ls (in_next_id inner) (in_eta inner) (in_doc_next_id inner)"
      using load_durable [OF K dur ids load] by metis
    have k: "list_all2 (kept (st_precision s)) (in_locations inner) ls"
      using ls(3) by (rule list_all2_mono) (simp add: loaded_def)
    have "records (sg_codec (mc_storage M)) (st_precision s) i (view (db_locations (st_dbs s))) (by_id ls)"
      by (rule records_loaded [OF _ _ ls(3)]) (use dur memory_ok_distinct [OF mem] in \<open>simp_all add: durable_def\<close>)
    then have "sound M view C s"
      using dur inner_of_ok [OF kept_memory_ok(1) [OF k mem], of "in_eta inner" "in_doc_next_id inner"] d
      by (simp add: sound_def consistent_def durable_def ls(2,4))
    then show ?thesis using ls by simp
  qed
qed

lemma fresh_load:
  assumes K: "storage_ok K view" and f: "fresh_scope view i s" and l: "load_all_locations K s i = Inr (ls, s')"
  shows "ls = []"
proof -
  have "l \<notin> set ls" for l
    using load_all_locations_set [OF K l, of l] f by (auto simp: fresh_scope_def)
  then show ?thesis by (cases ls) auto
qed

lemma load_all_same_dbs:
  "load_all_locations K s c = Inr (ls, s') \<Longrightarrow> st_dbs s' = st_dbs s \<and> st_precision s' = st_precision s"
  using load_all_locations_store by fastforce

lemma stored_kept:
  "store_inside view c s s' \<Longrightarrow> i \<noteq> c \<Longrightarrow> stored M view cfg i s \<Longrightarrow> stored M view cfg i s'"
  using others_kept(2) unfolding stored_def by blast

lemma stored_same:
  "st_dbs s' = st_dbs s \<Longrightarrow> st_precision s' = st_precision s \<Longrightarrow> stored M view cfg i s' = stored M view cfg i s"
  using same_dbs_kept(2) unfolding stored_def by blast

section \<open>The invariant\<close>

abbreviation registry :: "('db \<Rightarrow> bytes \<Rightarrow> bytes option) \<Rightarrow> 'db store \<Rightarrow> bytes \<Rightarrow> bytes option" where
  "registry view s \<equiv> view (db_registry (st_dbs s))"

definition hive_ok ::
  "('r, 'db) machine \<Rightarrow> ('db \<Rightarrow> bytes \<Rightarrow> bytes option) \<Rightarrow> 'db hive \<Rightarrow> bool" where
  "hive_ok M view H \<longleftrightarrow>
     (let s = hv_store H; K = mc_storage M; m = registry view s
      in registry_ok K m \<and> 0 < cfg_d (hv_config H) \<and> cfg_l_0 (hv_config H) < 2 ^ 64 \<and>
         (\<forall>i. reg_next K m \<le> i \<longrightarrow> fresh_scope view i s) \<and>
         (\<forall>n a. hv_cache H n = Some a \<longrightarrow> n \<noteq> NEXT_COLLECTION_ID_KEY \<and> a < length (hv_heap H) \<and>
            reg_entry K m n = Some (co_id (hv_heap H ! a)) \<and> sound M view (hv_heap H ! a) s) \<and>
         (\<forall>a<length (hv_heap H). \<exists>n. hv_cache H n = Some a))"

text \<open>The registered collections that are not open are on disk, but for those in \<open>opening\<close>.\<close>

definition closed_ok ::
  "('r, 'db) machine \<Rightarrow> ('db \<Rightarrow> bytes \<Rightarrow> bytes option) \<Rightarrow> (bytes \<times> u32) set \<Rightarrow> 'db hive \<Rightarrow> bool" where
  "closed_ok M view opening H \<longleftrightarrow>
     (\<forall>n i. n \<noteq> NEXT_COLLECTION_ID_KEY \<longrightarrow> reg_entry (mc_storage M) (registry view (hv_store H)) n = Some i \<longrightarrow>
        hv_cache H n = None \<longrightarrow> (n, i) \<notin> opening \<longrightarrow> stored M view (hv_config H) i (hv_store H))"

fun opens :: "progress \<Rightarrow> (bytes \<times> u32) set" where
  "opens (Opening n i) = {(n, i)}"
| "opens (Seeding n i) = {(n, i)}"
| "opens (Reloading n i) = {(n, i)}"
| "opens _ = {}"

text \<open>What a thread relies on.\<close>

fun needs ::
  "('r, 'db) machine \<Rightarrow> ('db \<Rightarrow> bytes \<Rightarrow> bytes option) \<Rightarrow> progress \<Rightarrow> 'db hive \<Rightarrow> bool" where
  "needs M view (Asked (Create n)) H = (n \<noteq> NEXT_COLLECTION_ID_KEY)"
| "needs M view (Asked (Get n)) H = (n \<noteq> NEXT_COLLECTION_ID_KEY)"
| "needs M view (Asked (GetOrCreate n)) H = (n \<noteq> NEXT_COLLECTION_ID_KEY)"
| "needs M view (Asked (Write a v)) H = (a < length (hv_heap H))"
| "needs M view (Asked (Insert a v m)) H = (a < length (hv_heap H))"
| "needs M view (Creating n) H = (n \<noteq> NEXT_COLLECTION_ID_KEY)"
| "needs M view (Finding n) H = (n \<noteq> NEXT_COLLECTION_ID_KEY)"
| "needs M view (Loading n i) H =
     (n \<noteq> NEXT_COLLECTION_ID_KEY \<and> reg_entry (mc_storage M) (registry view (hv_store H)) n = Some i)"
| "needs M view (Opening n i) H =
     (n \<noteq> NEXT_COLLECTION_ID_KEY \<and> reg_entry (mc_storage M) (registry view (hv_store H)) n = Some i \<and>
      hv_cache H n = None \<and>
      (fresh_scope view i (hv_store H) \<or> stored M view (hv_config H) i (hv_store H)))"
| "needs M view (Seeding n i) H =
     (n \<noteq> NEXT_COLLECTION_ID_KEY \<and> reg_entry (mc_storage M) (registry view (hv_store H)) n = Some i \<and>
      hv_cache H n = None \<and> fresh_scope view i (hv_store H))"
| "needs M view (Reloading n i) H =
     (n \<noteq> NEXT_COLLECTION_ID_KEY \<and> reg_entry (mc_storage M) (registry view (hv_store H)) n = Some i \<and>
      hv_cache H n = None \<and> stored M view (hv_config H) i (hv_store H))"
| "needs M view (Answered x) H = True"
| "needs M view _ H = False"

lemma hive_okD:
  assumes "hive_ok M view H"
  shows "registry_ok (mc_storage M) (registry view (hv_store H))" "0 < cfg_d (hv_config H)"
    "cfg_l_0 (hv_config H) < 2 ^ 64"
    "reg_next (mc_storage M) (registry view (hv_store H)) \<le> i \<Longrightarrow> fresh_scope view i (hv_store H)"
    "hv_cache H n = Some a \<Longrightarrow> n \<noteq> NEXT_COLLECTION_ID_KEY"
    "hv_cache H n = Some a \<Longrightarrow> a < length (hv_heap H)"
    "hv_cache H n = Some a \<Longrightarrow>
       reg_entry (mc_storage M) (registry view (hv_store H)) n = Some (co_id (hv_heap H ! a))"
    "hv_cache H n = Some a \<Longrightarrow> sound M view (hv_heap H ! a) (hv_store H)"
    "a < length (hv_heap H) \<Longrightarrow> \<exists>n. hv_cache H n = Some a"
  using assms by (auto simp: hive_ok_def Let_def)

lemma registry_okD:
  assumes "registry_ok K m" "n \<noteq> NEXT_COLLECTION_ID_KEY" "reg_entry K m n = Some i"
  shows "i < reg_next K m" "n' \<noteq> NEXT_COLLECTION_ID_KEY \<Longrightarrow> reg_entry K m n' = Some i \<Longrightarrow> n' = n"
  using assms by (auto simp: registry_ok_def reg_next_def Let_def)

section \<open>Publishing a collection that was opened\<close>

lemma publish_ok:
  assumes ok: "hive_ok M view H" and n: "n \<noteq> NEXT_COLLECTION_ID_KEY" "hv_cache H n = None"
    and r: "reg_entry (mc_storage M) (registry view (hv_store H)) n = Some i"
    and C: "co_id C = i" "sound M view C s" and st: "store_inside view i (hv_store H) s"
    and p: "publish n C (H\<lparr>hv_store := s\<rparr>) = (a, H')"
  shows "hive_ok M view H'" "hv_store H' = s" "hv_config H' = hv_config H"
    "hv_cache H' = (hv_cache H)(n \<mapsto> length (hv_heap H))"
    "length (hv_heap H) \<le> length (hv_heap H')"
proof -
  note reg = hive_okD(1) [OF ok]
  have R: "db_registry (st_dbs s) = db_registry (st_dbs (hv_store H))" by (rule store_inside_registry [OF st])
  have H': "H' = H\<lparr>hv_store := s, hv_heap := hv_heap H @ [C], hv_cache := (hv_cache H)(n \<mapsto> length (hv_heap H))\<rparr>"
    using p by (auto simp: publish_def Let_def)
  have fresh: "fresh_scope view j s" if "reg_next (mc_storage M) (registry view (hv_store H)) \<le> j" for j
  proof -
    have "j \<noteq> i" using registry_okD(1) [OF reg n(1) r] that by auto
    then show ?thesis using others_kept(3) [OF st] hive_okD(4) [OF ok that] by blast
  qed
  have old: "sound M view (hv_heap H ! b) s" "b < length (hv_heap H)" "n' \<noteq> n" "n' \<noteq> NEXT_COLLECTION_ID_KEY"
    "reg_entry (mc_storage M) (registry view (hv_store H)) n' = Some (co_id (hv_heap H ! b))"
    if c: "hv_cache H n' = Some b" for n' b
  proof -
    show n': "n' \<noteq> n" using n(2) that by auto
    show "n' \<noteq> NEXT_COLLECTION_ID_KEY" "b < length (hv_heap H)"
      "reg_entry (mc_storage M) (registry view (hv_store H)) n' = Some (co_id (hv_heap H ! b))"
      using hive_okD(5-7) [OF ok that] by auto
    moreover have "co_id (hv_heap H ! b) \<noteq> i"
      using registry_okD(2) [OF reg n(1) r hive_okD(5) [OF ok that]] hive_okD(7) [OF ok that] n' by auto
    ultimately show "sound M view (hv_heap H ! b) s"
      using others_sound [OF st] hive_okD(8) [OF ok that] by blast
  qed
  have cached: "b < length (hv_heap H) \<Longrightarrow> \<exists>n'. n' \<noteq> n \<and> (n' \<noteq> n \<longrightarrow> hv_cache H n' = Some b)" for b
    using hive_okD(9) [OF ok] old(3) by blast
  show "hive_ok M view H'"
    using reg hive_okD(2,3) [OF ok] fresh old cached n(1) r C
    by (auto simp: hive_ok_def H' Let_def R nth_append less_Suc_eq)
  show "hv_store H' = s" "hv_config H' = hv_config H" "hv_cache H' = (hv_cache H)(n \<mapsto> length (hv_heap H))"
    "length (hv_heap H) \<le> length (hv_heap H')" by (simp_all add: H')
qed

section \<open>The steps keep the invariant\<close>

text \<open>A step that reads, or only marks the lock as poisoned.\<close>

definition same_hive :: "'db hive \<Rightarrow> 'db hive \<Rightarrow> bool" where
  "same_hive H H' \<longleftrightarrow> st_dbs (hv_store H') = st_dbs (hv_store H) \<and>
     st_precision (hv_store H') = st_precision (hv_store H) \<and>
     hv_config H' = hv_config H \<and> hv_heap H' = hv_heap H \<and> hv_cache H' = hv_cache H"

lemma same_hive_ok:
  assumes "same_hive H H'"
  shows "hive_ok M view H' = hive_ok M view H" "closed_ok M view opening H' = closed_ok M view opening H"
    "needs M view p H' = needs M view p H"
proof -
  note S = assms [unfolded same_hive_def]
  have dbs: "st_dbs (hv_store H') = st_dbs (hv_store H)" "st_precision (hv_store H') = st_precision (hv_store H)"
    using S by simp_all
  note kept = same_dbs_kept(3,4) [OF dbs] stored_same [OF dbs]
  show "hive_ok M view H' = hive_ok M view H" using S by (simp add: hive_ok_def Let_def kept)
  show "closed_ok M view opening H' = closed_ok M view opening H" using S by (simp add: closed_ok_def kept)
  show "needs M view p H' = needs M view p H"
    by (cases "(M, view, p, H)" rule: needs.cases) (use S in \<open>simp_all add: kept\<close>)
qed

text \<open>What every step leaves to the others.\<close>

definition step_ok ::
  "('r, 'db) machine \<Rightarrow> ('db \<Rightarrow> bytes \<Rightarrow> bytes option) \<Rightarrow> (bytes \<times> u32) set \<Rightarrow> 'db hive \<Rightarrow> 'db hive \<Rightarrow> bool" where
  "step_ok M view opening H H' \<longleftrightarrow>
     hive_ok M view H' \<and> closed_ok M view opening H' \<and> length (hv_heap H) \<le> length (hv_heap H') \<and>
     (\<forall>n i. n \<noteq> NEXT_COLLECTION_ID_KEY \<longrightarrow>
        reg_entry (mc_storage M) (registry view (hv_store H)) n = Some i \<longrightarrow>
        reg_entry (mc_storage M) (registry view (hv_store H')) n = Some i)"

lemma same_step_ok:
  "same_hive H H' \<Longrightarrow> hive_ok M view H \<Longrightarrow> closed_ok M view opening H \<Longrightarrow> step_ok M view opening H H'"
  unfolding step_ok_def by (simp add: same_hive_ok) (simp add: same_hive_def)

lemma publish_step_ok:
  assumes ok: "hive_ok M view H" and closed: "closed_ok M view {(n, i)} H"
    and n: "n \<noteq> NEXT_COLLECTION_ID_KEY" "hv_cache H n = None"
    and r: "reg_entry (mc_storage M) (registry view (hv_store H)) n = Some i"
    and C: "co_id C = i" "sound M view C s" and st: "store_inside view i (hv_store H) s"
    and p: "publish n C (H\<lparr>hv_store := s\<rparr>) = (a, H')"
  shows "step_ok M view {} H H'"
proof -
  note P = publish_ok [OF ok n r C st p]
  have R: "db_registry (st_dbs s) = db_registry (st_dbs (hv_store H))" by (rule store_inside_registry [OF st])
  have "stored M view (hv_config H) j s"
    if n': "n' \<noteq> NEXT_COLLECTION_ID_KEY" "reg_entry (mc_storage M) (registry view (hv_store H)) n' = Some j"
      "hv_cache H n' = None" "n' \<noteq> n" for n' j
  proof -
    have "j \<noteq> i" using registry_okD(2) [OF hive_okD(1) [OF ok] n(1) r n'(1)] n'(2,4) by auto
    then show ?thesis
      using closed n' by (intro stored_kept [OF st]) (auto simp: closed_ok_def)
  qed
  then have "closed_ok M view {} H'" by (auto simp: closed_ok_def P R split: if_splits)
  then show ?thesis using P by (simp add: step_ok_def R)
qed

lemma seed_ok:
  assumes K: "storage_ok (mc_storage M) view" and ok: "hive_ok M view H" and closed: "closed_ok M view {(n, i)} H"
    and needs: "needs M view (Seeding n i) H" and s: "seed_collection M n i (H, rng) = (Inr a, H', rng')"
  shows "step_ok M view {} H H'"
proof -
  obtain r rng1 where new: "Collection_new M i n (hv_store H) (hv_config H) rng = (r, rng1)" by fastforce
  with s obtain C s1 where C: "r = Inr (C, s1)" "publish n C (H\<lparr>hv_store := s1\<rparr>) = (a, H')"
    by (auto simp: seed_collection_def install_def Let_def split: sum.splits prod.splits)
  note N = Collection_new_consistent [OF K _ hive_okD(2,3) [OF ok] new [unfolded C(1)]]
    Collection_new_inside(1) [OF K new [unfolded C(1)]]
  show ?thesis
    using needs N by (intro publish_step_ok [OF ok closed _ _ _ _ _ _ C(2)]) (auto simp: sound_def)
qed

lemma reload_ok:
  assumes K: "storage_ok (mc_storage M) view" and ok: "hive_ok M view H" and closed: "closed_ok M view {(n, i)} H"
    and needs: "needs M view (Reloading n i) H" and s: "reload_collection M n i (H, rng) = (Inr a, H', rng')"
  shows "step_ok M view {} H H'"
proof -
  from s obtain C s1 where C: "Collection_load M i n (hv_store H) (hv_config H) = Inr (C, s1)"
    "publish n C (H\<lparr>hv_store := s1\<rparr>) = (a, H')"
    by (auto simp: reload_collection_def install_def Let_def split: sum.splits prod.splits)
  have L: "s1 = hv_store H" "co_id C = i" "sound M view C (hv_store H)"
    using stored_load(2) [OF K _ hive_okD(2) [OF ok] C(1)] needs by simp_all
  show ?thesis
    using needs L by (intro publish_step_ok [OF ok closed _ _ _ _ _ _ C(2)]) auto
qed

lemma reload_failed: "reload_collection M n i (H, rng) = (Inl e, H', rng') \<Longrightarrow> same_hive H H'"
  by (auto simp: reload_collection_def install_def same_hive_def Let_def split: sum.splits prod.splits)

text \<open>A change of the registry alone.\<close>

lemma same_records_kept:
  assumes "db_locations (st_dbs s') = db_locations (st_dbs s)" "db_metadata (st_dbs s') = db_metadata (st_dbs s)"
    "st_precision s' = st_precision s"
  shows "fresh_scope view i s' = fresh_scope view i s" "sound M view C s' = sound M view C s"
    "stored M view cfg i s' = stored M view cfg i s"
  using assms by (simp_all add: fresh_scope_def sound_def stored_def consistent_def durable_def)

lemma register_ok:
  assumes K: "storage_ok (mc_storage M) view" and ok: "hive_ok M view H" and closed: "closed_ok M view {} H"
    and n: "n \<noteq> NEXT_COLLECTION_ID_KEY" "hv_cache H n = None"
    and room: "reg_next (mc_storage M) (registry view (hv_store H)) + 1 \<noteq> 0"
    and r: "register (mc_storage M) (hv_store H) n = Inr (i, s)"
  shows "step_ok M view {(n, i)} H (H\<lparr>hv_store := s\<rparr>)" "needs M view (Opening n i) (H\<lparr>hv_store := s\<rparr>)"
proof -
  let ?K = "mc_storage M" and ?m = "registry view (hv_store H)" and ?H = "H\<lparr>hv_store := s\<rparr>"
  obtain t where t: "create_collection ?K (st_dbs (hv_store H)) n = Inr (i, t)" "s = (hv_store H)\<lparr>st_dbs := t\<rparr>"
    using r txn_eq [OF K] by (fastforce simp: register_def rbind_eq_Inr)
  note reg = create_collection_registry [OF K t(1) hive_okD(1) [OF ok] n(1) room]
  have "step_ok M view {(n, i)} H ?H \<and> needs M view (Opening n i) ?H"
    using K t(1)
  proof (cases rule: create_collection_cases)
    case existing
    have "same_hive H ?H" using t(2) existing(1) by (simp add: same_hive_def)
    moreover have "closed_ok M view {(n, i)} H" using closed by (auto simp: closed_ok_def)
    moreover have "stored M view (hv_config H) i (hv_store H)"
      using closed n existing(2) by (simp add: closed_ok_def)
    ultimately show ?thesis
      using same_step_ok [OF _ ok] same_hive_ok(3) [of H ?H M view "Opening n i"] n existing(2) by simp
  next
    case fresh
    have recs: "db_locations (st_dbs s) = db_locations (st_dbs (hv_store H))"
      "db_metadata (st_dbs s) = db_metadata (st_dbs (hv_store H))" "st_precision s = st_precision (hv_store H)"
      using fresh(3) t(2) by (auto, (metis dbs.select_convs(2,3) dbs.surjective dbs.update_convs(1))+)
    note kept = same_records_kept [OF recs]
    have R: "db_registry (st_dbs s) = db_registry t" by (simp add: t(2))
    have next_i: "reg_next ?K ?m = i" using fresh(2) by (auto simp: reg_next_def reg_entry_def)
    have next': "reg_next ?K (registry view s) = i + 1" using fresh(4) R by (simp add: reg_next_def)
    have le: "i \<le> j" if "i + 1 \<le> j" for j using that room unfolding next_i by unat_arith
    have none: "reg_entry ?K ?m n = None" using fresh(1) by (simp add: reg_entry_def)
    have other: "n' \<noteq> n" if "hv_cache H n' = Some a" for n' a using that n(2) by auto
    have "hive_ok M view ?H"
      using reg(1) hive_okD [OF ok] le next_i next' fresh(4) other
      by (auto simp: hive_ok_def Let_def kept R)
    moreover have "closed_ok M view {(n, i)} ?H"
      using closed fresh(4) by (auto simp: closed_ok_def kept R split: if_splits)
    ultimately show ?thesis
      using reg(2) fresh(4) none n hive_okD(4) [OF ok, of i] next_i by (auto simp: step_ok_def kept R)
  qed
  then show "step_ok M view {(n, i)} H ?H" "needs M view (Opening n i) ?H" by blast+
qed

text \<open>A mutation through a handle.\<close>

lemma handle_ok:
  assumes ok: "hive_ok M view H" and closed: "closed_ok M view opening H" and a: "a < length (hv_heap H)"
    and st: "store_inside view (co_id (hv_heap H ! a)) (hv_store H) s"
    and C: "co_id C = co_id (hv_heap H ! a)" "sound M view C s"
    and H': "H' = H\<lparr>hv_heap := (hv_heap H)[a := C], hv_store := s\<rparr>"
  shows "step_ok M view opening H H'"
    and "\<not> drops p \<Longrightarrow> \<not> answered p \<Longrightarrow> needs M view p H \<Longrightarrow> needs M view p H'"
proof -
  let ?m = "registry view (hv_store H)"
  have R: "registry view s = ?m" using store_inside_registry [OF st] by simp
  obtain n where n: "hv_cache H n = Some a" using hive_okD(9) [OF ok a] by blast
  note reg = hive_okD(1) [OF ok] and N = hive_okD(5-7) [OF ok n]
  have fresh: "fresh_scope view j s" if "reg_next (mc_storage M) ?m \<le> j" for j
  proof -
    have "j \<noteq> co_id (hv_heap H ! a)" using registry_okD(1) [OF reg N(1,3)] that by auto
    then show ?thesis using others_kept(3) [OF st] hive_okD(4) [OF ok that] by blast
  qed
  have other: "i \<noteq> co_id (hv_heap H ! a)"
    if "n' \<noteq> NEXT_COLLECTION_ID_KEY" "reg_entry (mc_storage M) ?m n' = Some i" "n' \<noteq> n" for n' i
    using registry_okD(2) [OF reg N(1,3) that(1)] that(2,3) by auto
  have sound: "sound M view ((hv_heap H)[a := C] ! b) s" if c: "hv_cache H n' = Some b" for n' b
  proof (cases "b = a")
    case True
    then show ?thesis using a C(2) by simp
  next
    case False
    then have "n' \<noteq> n" using n c by auto
    then have "co_id (hv_heap H ! b) \<noteq> co_id (hv_heap H ! a)" using hive_okD(5,7) [OF ok c] other by blast
    then show ?thesis using False others_sound [OF st] hive_okD(8) [OF ok c] by simp
  qed
  have id: "co_id ((hv_heap H)[a := C] ! b) = co_id (hv_heap H ! b)" for b
    using C(1) a by (cases "b = a") auto
  have ok': "hive_ok M view H'"
    using reg hive_okD [OF ok] fresh sound by (auto simp: hive_ok_def Let_def H' R id)
  have uncached: "n' \<noteq> n" if "hv_cache H n' = None" for n' using that n by auto
  have kept: "stored M view cfg i (hv_store H) \<Longrightarrow> stored M view cfg i s"
    "fresh_scope view i (hv_store H) \<Longrightarrow> fresh_scope view i s"
    if "n' \<noteq> NEXT_COLLECTION_ID_KEY" "reg_entry (mc_storage M) ?m n' = Some i" "hv_cache H n' = None" for n' i cfg
    using other [OF that(1,2) uncached [OF that(3)]] stored_kept [OF st] others_kept(3) [OF st] by blast+
  have "closed_ok M view opening H'"
    using closed kept(1) by (auto simp: closed_ok_def H' R)
  then show "step_ok M view opening H H'" using ok' by (simp add: step_ok_def H' R)
  show "needs M view p H'" if "\<not> drops p" "\<not> answered p" "needs M view p H"
    using that kept by (cases "(M, view, p, H)" rule: needs.cases) (auto simp: H' R)
qed

text \<open>The ids last: the registry has one more, and so has every open collection.\<close>

definition roomy ::
  "('r, 'db) machine \<Rightarrow> ('db \<Rightarrow> bytes \<Rightarrow> bytes option) \<Rightarrow> 'db hive \<Rightarrow> bool" where
  "roomy M view H \<longleftrightarrow> reg_next (mc_storage M) (registry view (hv_store H)) + 1 \<noteq> 0 \<and>
     (\<forall>C\<in>set (hv_heap H). id_left (co_inner C))"

lemma get_id_reg:
  assumes "storage_ok K view" "get_collection_id K s n = Inr (Some i)"
  shows "reg_entry K (registry view s) n = Some i"
proof -
  obtain txn b where t: "read_txn K s = Inr txn" "sg_get K (db_registry txn) n = Inr (Some b)" "sg_de_u32 K b = Inr i"
    using assms(2) by (auto simp: get_collection_id_def get_collection_id_txn_def rbind_eq_Inr split: option.splits)
  have "txn = st_dbs s" using t(1) storage_okD(2) [OF assms(1)] by (simp add: read_txn_def)
  then have "registry view s n = Some b" using storage_okD(4) [OF assms(1) t(2)] by simp
  then show ?thesis using t(3) by (simp add: reg_entry_def)
qed

text \<open>The mutations that calls make: sound, and confined to their collection.\<close>

lemma handle_mutations:
  assumes K: "storage_ok (mc_storage M) view" and s: "sound M view c s" "id_left (co_inner c)"
  shows "Collection_write M v (c, s, rng) = (r, c', s', rng') \<Longrightarrow>
      store_inside view (co_id c) s s' \<and> co_id c' = co_id c \<and> sound M view c' s'"
    and "write_with_metadata M v m (c, s, rng) = (r', c', s', rng') \<Longrightarrow>
      store_inside view (co_id c) s s' \<and> co_id c' = co_id c \<and> sound M view c' s'"
  using s confined_write.mutation_inside [OF K] write_pattern.keeps_sound [OF K s]
    confined_document.mutation_inside [OF K] write_document.keeps_sound [OF K s]
  by (auto simp: Collection_write_def write_with_metadata_def split: sum.splits)

lemma on_collection_ok:
  assumes K: "storage_ok (mc_storage M) view" and ok: "hive_ok M view H" and closed: "closed_ok M view opening H"
    and a: "a < length (hv_heap H)" and room: "roomy M view H"
    and run: "on_collection a f (H, rng) = (r, H', rng')"
    and f: "\<And>c s rng r c' s' rng'. sound M view c s \<Longrightarrow> id_left (co_inner c) \<Longrightarrow> f (c, s, rng) = (r, c', s', rng') \<Longrightarrow>
      store_inside view (co_id c) s s' \<and> co_id c' = co_id c \<and> sound M view c' s'"
  shows "step_ok M view opening H H' \<and>
    (\<forall>p. \<not> drops p \<longrightarrow> \<not> answered p \<longrightarrow> needs M view p H \<longrightarrow> needs M view p H')"
proof -
  obtain C s where C: "f (hv_heap H ! a, hv_store H, rng) = (r, C, s, rng')"
    "H' = H\<lparr>hv_heap := (hv_heap H)[a := C], hv_store := s\<rparr>"
    using run by (auto simp: on_collection_def split: prod.splits)
  have "sound M view (hv_heap H ! a) (hv_store H)" using hive_okD(8,9) [OF ok] a by blast
  moreover have "id_left (co_inner (hv_heap H ! a))" using room a by (auto simp: roomy_def)
  ultimately have F: "store_inside view (co_id (hv_heap H ! a)) (hv_store H) s" "co_id C = co_id (hv_heap H ! a)"
    "sound M view C s"
    using f C(1) by blast+
  show ?thesis using handle_ok [OF ok closed a F C(2)] by blast
qed

text \<open>Creating fails after the name was registered.\<close>

fun failed :: "progress \<Rightarrow> bool" where
  "failed (Answered (Failed e)) = True"
| "failed _ = False"

definition fails :: "progress \<Rightarrow> progress \<Rightarrow> bool" where
  "fails p p' \<longleftrightarrow> holds_lock p \<and> failed p'"

lemma look_ok:
  "needs M view q H \<Longrightarrow> needs M view (look q n H) H" "opens q = {} \<Longrightarrow> opens (look q n H) = {}"
  by (cases "hv_poisoned H"; cases "hv_cache H n"; simp add: look_def cached_def)+

lemma advance_ok:
  assumes K: "storage_ok (mc_storage M) view" and ok: "hive_ok M view H" and closed: "closed_ok M view opening H"
    and needs: "needs M view p H" and en: "enabled p l" and room: "roomy M view H"
    and adv: "advance M p (l, H, rng) = (p', l', H', rng')" and good: "\<not> fails p p'"
    and lock: "\<not> l \<Longrightarrow> opening = {}" "holds_lock p \<Longrightarrow> opening = opens p"
  shows "step_ok M view ((if holds_lock p then {} else opening) \<union> opens p') H H' \<and> needs M view p' H' \<and>
    (\<not> wants_lock p \<longrightarrow> \<not> holds_lock p \<longrightarrow>
      (\<forall>q. \<not> drops q \<longrightarrow> \<not> answered q \<longrightarrow> needs M view q H \<longrightarrow> needs M view q H'))"
proof (cases p)
  case (Asked c)
  have same: "step_ok M view opening H H" by (rule same_step_ok [OF _ ok closed]) (simp add: same_hive_def)
  show ?thesis
  proof (cases c)
    case (Create n)
    then show ?thesis using adv Asked needs same look_ok(1) [of M view "Creating n" H n] look_ok(2) [of "Creating n" n H] by auto
  next
    case (Get n)
    then show ?thesis using adv Asked needs same look_ok(1) [of M view "Finding n" H n] look_ok(2) [of "Finding n" n H] by auto
  next
    case (GetOrCreate n)
    then show ?thesis using adv Asked needs same look_ok(1) [of M view "Asked (Create n)" H n] look_ok(2) [of "Asked (Create n)" n H] by auto
  next
    case (Drop n)
    then show ?thesis using needs Asked by simp
  next
    case (Write a v)
    obtain r H1 rng1 where run: "on_collection a (Collection_write M v) (H, rng) = (r, H1, rng1)" by (metis prod_cases3)
    have "step_ok M view opening H H1 \<and> (\<forall>p. \<not> drops p \<longrightarrow> \<not> answered p \<longrightarrow> needs M view p H \<longrightarrow> needs M view p H1)"
      using needs Asked Write by (intro on_collection_ok [OF K ok closed _ room run] handle_mutations(1) [OF K]) auto
    then show ?thesis using adv Asked Write run by auto
  next
    case (Insert a v m)
    obtain r H1 rng1 where run: "on_collection a (write_with_metadata M v m) (H, rng) = (r, H1, rng1)"
      by (metis prod_cases3)
    have "step_ok M view opening H H1 \<and> (\<forall>p. \<not> drops p \<longrightarrow> \<not> answered p \<longrightarrow> needs M view p H \<longrightarrow> needs M view p H1)"
      using needs Asked Insert by (intro on_collection_ok [OF K ok closed _ room run] handle_mutations(2) [OF K]) auto
    then show ?thesis using adv Asked Insert run by auto
  qed
next
  case (Creating n)
  have l: "\<not> l" "opening = {}" using en lock(1) Creating by (auto simp: enabled_def)
  have same: "step_ok M view opening H H'" if "same_hive H H'" by (rule same_step_ok [OF that ok closed])
  show ?thesis
  proof (cases "\<exists>i. p' = Opening n i")
    case True
    then obtain i s where r: "hv_cache H n = None" "register (mc_storage M) (hv_store H) n = Inr (i, s)"
      "p' = Opening n i" "H' = H\<lparr>hv_store := s\<rparr>"
      using adv Creating by (auto split: sum.splits option.splits)
    show ?thesis
      using register_ok [OF K ok closed [unfolded l(2)] _ r(1) _ r(2)] needs Creating room
      by (simp add: r(3,4) roomy_def l(2))
  next
    case False
    then have "same_hive H H'" "\<exists>x. p' = Answered x"
      using adv Creating by (auto simp: same_hive_def split: sum.splits option.splits)
    then show ?thesis using same Creating by auto
  qed
next
  case (Opening n i)
  then obtain existing s where r: "load_all_locations (mc_storage M) (hv_store H) i = Inr (existing, s)"
    "p' = (if existing = [] then Seeding n i else Reloading n i)" "H' = H\<lparr>hv_store := s\<rparr>"
    using adv good by (auto simp: fails_def split: sum.splits)
  have same: "same_hive H H'" using load_all_same_dbs [OF r(1)] by (simp add: same_hive_def r(3))
  have "step_ok M view {(n, i)} H H'"
    using same_step_ok [OF same ok closed] lock(2) Opening by simp
  moreover have "needs M view p' H"
    using needs Opening fresh_load [OF K _ r(1)] stored_load(1) [OF K _ hive_okD(2) [OF ok] r(1)]
    by (auto simp: r(2))
  then have "needs M view p' H'" using same_hive_ok(3) [OF same] by blast
  moreover have "opens p' = {(n, i)}" by (simp add: r(2))
  ultimately show ?thesis by (simp add: Opening)
next
  case (Seeding n i)
  then obtain a where a: "seed_collection M n i (H, rng) = (Inr a, H', rng')" "p' = Answered (Handle a)"
    using adv good by (auto simp: fails_def reply_def split: sum.splits prod.splits)
  show ?thesis
    using seed_ok [OF K ok _ _ a(1)] closed lock(2) needs Seeding a(2) by simp
next
  case (Reloading n i)
  then obtain a where a: "reload_collection M n i (H, rng) = (Inr a, H', rng')" "p' = Answered (Handle a)"
    using adv good by (auto simp: fails_def reply_def split: sum.splits prod.splits)
  show ?thesis
    using reload_ok [OF K ok _ _ a(1)] closed lock(2) needs Reloading a(2) by simp
next
  case (Finding n)
  then have "H' = H" "needs M view p' H" "opens p' = {}"
    using adv needs by (auto split: sum.splits option.splits dest: get_id_reg [OF K])
  then show ?thesis
    using same_step_ok [OF _ ok closed, of H] Finding by (auto simp: same_hive_def)
next
  case (Loading n i)
  have l: "opening = {}" using en lock(1) Loading by (auto simp: enabled_def)
  obtain r where r: "get_locked M n i (H, rng) = (r, H', rng')" "p' = reply r"
    using adv Loading by (auto split: prod.splits)
  have p': "needs M view p' H'" "opens p' = {}" by (auto simp: r(2) reply_def split: sum.splits)
  have "step_ok M view {} H H'"
  proof (cases "\<exists>a. r = Inr a \<and> hv_cache H n = None")
    case True
    then obtain a where a: "reload_collection M n i (H, rng) = (Inr a, H', rng')" "hv_cache H n = None"
      using r(1) by (auto simp: get_locked_def split: sum.splits option.splits)
    have "stored M view (hv_config H) i (hv_store H)"
      using closed needs Loading a(2) by (auto simp: closed_ok_def l)
    moreover have "closed_ok M view {(n, i)} H" using closed l by (auto simp: closed_ok_def)
    ultimately show ?thesis using reload_ok [OF K ok _ _ a(1)] needs Loading a(2) by simp
  next
    case False
    then have "same_hive H H'"
      using r(1) reload_failed [of M n i H rng]
      by (cases r) (auto simp: get_locked_def same_hive_def split: sum.splits option.splits)
    then show ?thesis using same_step_ok [OF _ ok closed] l by simp
  qed
  then show ?thesis using p' l Loading by simp
next
  case (Answered x)
  then show ?thesis using en by (simp add: enabled_def)
qed (use needs in simp_all)

section \<open>Runs\<close>

definition run_ok ::
  "('r, 'db) machine \<Rightarrow> ('db \<Rightarrow> bytes \<Rightarrow> bytes option) \<Rightarrow> progress list \<Rightarrow> bool \<Rightarrow> 'db hive \<Rightarrow> bool" where
  "run_ok M view ts l H \<longleftrightarrow> lock_ok ts l \<and> hive_ok M view H \<and> closed_ok M view (\<Union>p\<in>set ts. opens p) H \<and>
     (\<forall>p\<in>set ts. needs M view p H)"

lemma no_holder_opens: "\<not> holds_lock p \<Longrightarrow> opens p = {}"
  by (cases p) auto

lemma needs_no_drop: "needs M view p H \<Longrightarrow> \<not> drops p"
  by (cases p rule: drops.cases) auto

lemma needs_stable:
  assumes "step_ok M view opening H H'" "\<not> holds_lock p" "needs M view p H"
  shows "needs M view p H'"
  using assms by (cases "(M, view, p, H)" rule: needs.cases) (auto simp: step_ok_def)

lemma opens_update:
  assumes "k < length ts" "\<And>j. j < length ts \<Longrightarrow> j \<noteq> k \<Longrightarrow> holds_lock (ts ! k) \<Longrightarrow> \<not> holds_lock (ts ! j)"
  shows "(if holds_lock (ts ! k) then {} else \<Union>p\<in>set ts. opens p) \<union> opens q \<subseteq> (\<Union>p\<in>set (ts[k := q]). opens p)"
proof -
  have "opens q \<subseteq> (\<Union>p\<in>set (ts[k := q]). opens p)"
    using assms(1) set_update_memI by fastforce
  moreover have "opens p \<subseteq> (\<Union>p\<in>set (ts[k := q]). opens p)"
    if free: "\<not> holds_lock (ts ! k)" and p: "p \<in> set ts" for p
  proof -
    obtain j where j: "j < length ts" "p = ts ! j" using p by (auto simp: in_set_conv_nth)
    show ?thesis
    proof (cases "j = k")
      case True
      then show ?thesis using free no_holder_opens j(2) by auto
    next
      case False
      then have "p \<in> set (ts[k := q])" using j by (metis length_list_update nth_list_update_neq nth_mem)
      then show ?thesis by blast
    qed
  qed
  ultimately show ?thesis by auto
qed

lemma closed_ok_mono: "closed_ok M view opening H \<Longrightarrow> opening \<subseteq> opening' \<Longrightarrow> closed_ok M view opening' H"
  by (auto simp: closed_ok_def)

lemma run_ok_step:
  assumes K: "storage_ok (mc_storage M) view" and ok: "run_ok M view ts l H"
    and step: "hive_step M (ts, l, H, rng) (ts', l', H', rng')" and room: "roomy M view H"
    and good: "\<And>i. i < length ts \<Longrightarrow> \<not> fails (ts ! i) (ts' ! i)"
  shows "run_ok M view ts' l' H'"
proof -
  let ?opening = "\<Union>p\<in>set ts. opens p"
  obtain k p where k: "k < length ts" "enabled (ts ! k) l" "advance M (ts ! k) (l, H, rng) = (p, l', H', rng')"
    "ts' = ts[k := p]"
    using step by (auto elim: hive_stepE)
  have lock: "lock_ok ts l" and hive: "hive_ok M view H" and closed: "closed_ok M view ?opening H"
    and needs: "\<And>j. j < length ts \<Longrightarrow> needs M view (ts ! j) H"
    using ok by (auto simp: run_ok_def)
  have alone: "\<not> holds_lock (ts ! j)" if "j < length ts" "j \<noteq> k" "holds_lock (ts ! k)" for j
    using lock that k(1) by (auto simp: lock_ok_def)
  have none: "?opening = {}" if "\<not> l"
    using lock that no_holder_opens by (fastforce simp: lock_ok_def in_set_conv_nth)
  have mine: "?opening = opens (ts ! k)" if "holds_lock (ts ! k)"
    using alone [OF _ _ that] k(1) no_holder_opens by (fastforce simp: in_set_conv_nth)
  have "\<not> fails (ts ! k) p" using good [OF k(1)] by (simp add: k(1,4))
  note A = advance_ok [OF K hive closed needs [OF k(1)] k(2) room k(3) this none mine]
  have "needs M view (ts ! j) H'" if j: "j < length ts" "j \<noteq> k" for j
  proof (cases "holds_lock (ts ! j)")
    case True
    then have "l" "\<not> holds_lock (ts ! k)" using lock j k(1) by (auto simp: lock_ok_def)
    then have "\<not> wants_lock (ts ! k)" using k(2) by (simp add: enabled_def)
    moreover have "\<not> answered (ts ! j)" using True by (cases "ts ! j") auto
    ultimately show ?thesis
      using A \<open>\<not> holds_lock (ts ! k)\<close> needs [OF j(1)] needs_no_drop by blast
  next
    case False
    then show ?thesis using A needs [OF j(1)] needs_stable by blast
  qed
  then have "needs M view (ts' ! j) H'" if "j < length ts'" for j
    using A that k(1) by (cases "j = k") (simp_all add: k(4))
  then have "\<forall>q\<in>set ts'. needs M view q H'" by (auto simp: in_set_conv_nth)
  moreover have "closed_ok M view (\<Union>p\<in>set ts'. opens p) H'"
    using A closed_ok_mono [OF _ opens_update [OF k(1) alone]] unfolding k(4) step_ok_def by blast
  moreover have "hive_ok M view H'" using A by (simp add: step_ok_def)
  moreover have "lock_ok ts' l'" by (rule lock_ok_step [OF step lock])
  ultimately show ?thesis by (simp add: run_ok_def)
qed

text \<open>A run in which the ids last and every collection that was registered could be opened.\<close>

inductive hive_run ::
  "('r, 'db) machine \<Rightarrow> ('db \<Rightarrow> bytes \<Rightarrow> bytes option) \<Rightarrow> ('r, 'db) hconf \<Rightarrow> ('r, 'db) hconf \<Rightarrow> bool"
  for M view where
  start: "hive_run M view st st"
| more: "hive_run M view st (ts, l, H, rng) \<Longrightarrow> roomy M view H \<Longrightarrow>
    hive_step M (ts, l, H, rng) (ts', st') \<Longrightarrow> (\<forall>i<length ts. \<not> fails (ts ! i) (ts' ! i)) \<Longrightarrow>
    hive_run M view st (ts', st')"

lemma run_keeps_ok:
  assumes "hive_run M view (ts, l, H, rng) (ts', l', H', rng')" "storage_ok (mc_storage M) view"
    "run_ok M view ts l H"
  shows "run_ok M view ts' l' H'"
  using assms
proof (induction "(ts, l, H, rng)" "(ts', l', H', rng')" arbitrary: ts' l' H' rng' rule: hive_run.induct)
  case start
  then show ?case by simp
next
  case (more ts1 l1 H1 rng1 ts2)
  note ok = more.hyps(2) [OF more.prems]
  show ?case by (rule run_ok_step [OF more.prems(1) ok more.hyps(4,3)]) (use more.hyps(5) in blast)
qed

text \<open>Such a run in a given order, by computation.\<close>

fun follow_run ::
  "('r, 'db) machine \<Rightarrow> ('db \<Rightarrow> bytes \<Rightarrow> bytes option) \<Rightarrow> nat list \<Rightarrow> ('r, 'db) hconf \<Rightarrow> ('r, 'db) hconf option" where
  "follow_run M view [] st = Some st"
| "follow_run M view (i # is) (ts, l, H, rng) =
     (if i < length ts \<and> enabled (ts ! i) l \<and> roomy M view H
      then let (p, l', w') = advance M (ts ! i) (l, H, rng)
           in if fails (ts ! i) p then None else follow_run M view is (ts[i := p], l', w')
      else None)"

lemma hive_run_trans: "hive_run M view b c \<Longrightarrow> hive_run M view a b \<Longrightarrow> hive_run M view a c"
proof (induction rule: hive_run.induct)
  case (more ts l H rng ts' st')
  then show ?case by (blast intro: hive_run.more)
qed

lemma follow_run: "follow_run M view is st = Some st' \<Longrightarrow> hive_run M view st st'"
proof (induction M view "is" st rule: follow_run.induct)
  case (1 M view st)
  then show ?case by (simp add: hive_run.start)
next
  case (2 M view i "is" ts l H rng)
  obtain p l' w' where a: "advance M (ts ! i) (l, H, rng) = (p, l', w')" by (metis prod_cases3)
  have i: "i < length ts" "enabled (ts ! i) l" "roomy M view H" "\<not> fails (ts ! i) p"
    and f: "follow_run M view is (ts[i := p], l', w') = Some st'"
    using "2.prems" a by (auto split: if_splits)
  have other: "\<forall>j<length ts. \<not> fails (ts ! j) (ts[i := p] ! j)"
  proof (intro allI impI)
    fix j assume "j < length ts"
    then show "\<not> fails (ts ! j) (ts[i := p] ! j)"
      using i(4) by (cases "j = i"; cases "ts ! j") (auto simp: fails_def)
  qed
  have "hive_run M view (ts, l, H, rng) (ts[i := p], l', w')"
    by (rule hive_run.more [OF hive_run.start i(3) hive_step.step [OF i(1,2) a] other])
  moreover have "hive_run M view (ts[i := p], l', w') st'"
    using "2.IH" i a f by simp
  ultimately show ?case using hive_run_trans by blast
qed

text \<open>Calls that a run may begin with.\<close>

fun admissible :: "'db hive \<Rightarrow> call \<Rightarrow> bool" where
  "admissible H (Create n) = (n \<noteq> NEXT_COLLECTION_ID_KEY)"
| "admissible H (Get n) = (n \<noteq> NEXT_COLLECTION_ID_KEY)"
| "admissible H (GetOrCreate n) = (n \<noteq> NEXT_COLLECTION_ID_KEY)"
| "admissible H (Write a v) = (a < length (hv_heap H))"
| "admissible H (Insert a v m) = (a < length (hv_heap H))"
| "admissible H (Drop n) = False"

lemma admissible_needs: "admissible H c \<Longrightarrow> needs M view (Asked c) H"
  by (cases c) auto

lemma run_ok_start:
  assumes "hive_ok M view H" "closed_ok M view {} H" "\<forall>c\<in>set cs. admissible H c"
  shows "run_ok M view (map Asked cs) False H"
  using assms by (auto simp: run_ok_def intro: admissible_needs)

section \<open>Properties\<close>



end
