(* ===== verification/Hive_Drop.thy ===== *)
theory Hive_Drop
  imports Hive_Sound
begin

text \<open>
  Dropping and creating again in heather_db/src/hive.rs: alone, a drop removes exactly one
  collection and a later creation starts afresh under a new id; interleaved with a get that
  has already looked the id up, it leaves an open collection that is not registered. Creating
  a collection whose records are on disk but whose locations do not load starts its
  documents from 0 again.
\<close>

section \<open>Dropping\<close>

lemma unregister_view:
  assumes K: "storage_ok K view" and u: "unregister K s n i = Inr s'"
  shows "scope_view view (st_dbs s') c =
      (if c = i then (Map.empty, Map.empty, Map.empty, Map.empty) else scope_view view (st_dbs s) c)"
    "registry view s' = (registry view s)(n := None)" "db_audit (st_dbs s') = db_audit (st_dbs s)"
    "st_precision s' = st_precision s" "fresh_scope view c s \<Longrightarrow> fresh_scope view c s'"
proof -
  obtain t where t: "delete_collection K (st_dbs s) n i = Inr t" "s' = s\<lparr>st_dbs := t\<rparr>"
    using u txn_eq [OF K] by (fastforce simp: unregister_def rbind_eq_Inr)
  note D = delete_collection_scope [OF K t(1)]
  show "scope_view view (st_dbs s') c =
      (if c = i then (Map.empty, Map.empty, Map.empty, Map.empty) else scope_view view (st_dbs s) c)"
    "registry view s' = (registry view s)(n := None)" "db_audit (st_dbs s') = db_audit (st_dbs s)"
    "st_precision s' = st_precision s"
    using D by (simp_all add: t(2))
  show "fresh_scope view c s'" if "fresh_scope view c s"
  proof -
    obtain locs meta where "delete_prefix K (db_locations (st_dbs s)) (collection_prefix i) = Inr locs"
      "delete_prefix K (db_metadata (st_dbs s)) (collection_prefix i) = Inr meta"
      "db_locations t = locs" "db_metadata t = meta"
      using t(1) by (auto simp: delete_collection_def Let_def rbind_eq_Inr)
    then show ?thesis
      using that delete_prefix_view [OF K] by (simp add: fresh_scope_def t(2))
  qed
qed

lemma Hive_drop_cases:
  assumes K: "storage_ok (mc_storage M) view" and d: "Hive_drop M n H = (r, H')"
  obtains (failed) e where "r = Inl e" "hv_cache H' = hv_cache H"
  | (missing) "r = Inr False" "H' = H"
  | (dropped) i s where "r = Inr True" "reg_entry (mc_storage M) (registry view (hv_store H)) n = Some i"
      "unregister (mc_storage M) (hv_store H) n i = Inr s" "\<not> hv_poisoned H"
      "H' = H\<lparr>hv_store := s, hv_cache := (hv_cache H)(n := None)\<rparr>"
proof (cases "get_collection_id (mc_storage M) (hv_store H) n")
  case (Inl e)
  then show thesis using d failed by (auto simp: Hive_drop_def)
next
  case (Inr found)
  show thesis
  proof (cases found)
    case None
    then show thesis using d Inr missing by (auto simp: Hive_drop_def)
  next
    case (Some i)
    then have i: "reg_entry (mc_storage M) (registry view (hv_store H)) n = Some i"
      using get_id_reg [OF K] Inr by blast
    show thesis
    proof (cases "unregister (mc_storage M) (hv_store H) n i")
      case (Inl e)
      then show thesis using d Inr Some failed by (auto simp: Hive_drop_def)
    next
      case u: (Inr s)
      show thesis
      proof (cases "hv_poisoned H")
        case True
        then show thesis using d Inr Some u failed by (auto simp: Hive_drop_def forget_def)
      next
        case False
        then show thesis using d Inr Some u i dropped by (auto simp: Hive_drop_def forget_def)
      qed
    qed
  qed
qed

section \<open>Creating a collection that is not open\<close>

lemma register_new:
  assumes K: "storage_ok K view" and none: "registry view s n = None" and r: "register K s n = Inr (i, s')"
  shows "i = reg_next K (registry view s)" "scope_view view (st_dbs s') c = scope_view view (st_dbs s) c"
    "fresh_scope view c s \<Longrightarrow> fresh_scope view c s'"
proof -
  obtain t where t: "create_collection K (st_dbs s) n = Inr (i, t)" "s' = s\<lparr>st_dbs := t\<rparr>"
    using r txn_eq [OF K] by (fastforce simp: register_def rbind_eq_Inr)
  have "i = reg_next K (registry view s) \<and> t = (st_dbs s)\<lparr>db_registry := db_registry t\<rparr>"
    using K t(1)
  proof (cases rule: create_collection_cases)
    case existing
    then show ?thesis using none by (simp add: reg_entry_def)
  next
    case fresh
    then show ?thesis by (auto simp: reg_next_def reg_entry_def)
  qed
  then obtain d where d: "i = reg_next K (registry view s)" "t = (st_dbs s)\<lparr>db_registry := d\<rparr>" by blast
  then show "i = reg_next K (registry view s)" "scope_view view (st_dbs s') c = scope_view view (st_dbs s) c"
    "fresh_scope view c s \<Longrightarrow> fresh_scope view c s'"
    by (simp_all add: t(2) scope_view_def fresh_scope_def)
qed

lemma register_documents:
  assumes K: "storage_ok K view" and r: "register K s n = Inr (i, s')"
  shows "db_documents (st_dbs s') = db_documents (st_dbs s)"
proof -
  obtain t where t: "create_collection K (st_dbs s) n = Inr (i, t)" "s' = s\<lparr>st_dbs := t\<rparr>"
    using r txn_eq [OF K] by (fastforce simp: register_def rbind_eq_Inr)
  have "db_documents t = db_documents (st_dbs s)"
    using t(1) by (auto simp: create_collection_def rbind_eq_Inr split: option.splits)
  then show ?thesis by (simp add: t(2))
qed

text \<open>With no location that loads, the collection is made anew under the registered id.\<close>

lemma Hive_create_new:
  assumes K: "storage_ok (mc_storage M) view" and c: "Hive_create M n (H, rng) = (Ok a, H', rng')"
    and none: "hv_cache H n = None"
    and empty: "\<forall>i s ls s'. register (mc_storage M) (hv_store H) n = Inr (i, s) \<longrightarrow>
       load_all_locations (mc_storage M) s i = Inr (ls, s') \<longrightarrow> ls = []"
  obtains i s s1 C s2 where "register (mc_storage M) (hv_store H) n = Inr (i, s)"
    "load_all_locations (mc_storage M) s i = Inr ([], s1)"
    "Collection_new M i n s1 (hv_config H) rng = (Inr (C, s2), rng')" "hv_heap H' ! a = C" "hv_store H' = s2"
    "hv_cache H' = (hv_cache H)(n \<mapsto> a)" "a < length (hv_heap H')"
proof -
  have l: "create_locked M n (H, rng) = (Ok a, H', rng')"
    using c none by (auto simp: Hive_create_def split: sum.splits option.splits)
  obtain i s ls s1 where s: "register (mc_storage M) (hv_store H) n = Inr (i, s)"
    "load_all_locations (mc_storage M) s i = Inr (ls, s1)"
    using l none by (auto simp: create_locked_def Let_def split: sum.splits option.splits)
  have ls: "ls = []" using empty s by blast
  obtain r rng1 where new: "Collection_new M i n s1 (hv_config H) rng = (r, rng1)" by fastforce
  have "seed_collection M n i (H\<lparr>hv_store := s1\<rparr>, rng) = (Ok a, H', rng')"
    using l none s ls by (auto simp: create_locked_def Let_def split: sum.splits option.splits)
  with new obtain C s2 where "r = Inr (C, s2)" "rng' = rng1" "hv_heap H' ! a = C" "hv_store H' = s2"
    "hv_cache H' = (hv_cache H)(n \<mapsto> a)" "a < length (hv_heap H')"
    by (auto simp: seed_collection_def install_def publish_def Let_def split: sum.splits)
  with that s ls new show thesis by blast
qed

text \<open>Storing locations, counters and postings touches no document.\<close>

lemma puts_keep_documents:
  "put_locations M p t i ls = Inr t' \<Longrightarrow> db_documents t' = db_documents t"
  "put_u64 M t i key v = Inr t' \<Longrightarrow> db_documents t' = db_documents t"
  "put_eta M t i w = Inr t' \<Longrightarrow> db_documents t' = db_documents t"
  "put_doc_counters M t i inner = Inr t' \<Longrightarrow> db_documents t' = db_documents t"
  "rfold (\<lambda>txn l. append_doc_to_location K txn i l d) t ids = Inr t' \<Longrightarrow> db_documents t' = db_documents t"
proof -
  show "put_locations M p t i ls = Inr t' \<Longrightarrow> db_documents t' = db_documents t"
    unfolding put_locations_def
    by (erule rfold_invariant) (auto simp: put_location_def rbind_eq_Inr)
  show "rfold (\<lambda>txn l. append_doc_to_location K txn i l d) t ids = Inr t' \<Longrightarrow> db_documents t' = db_documents t"
    by (erule rfold_invariant) (auto simp: append_doc_to_location_def put_doc_index_entry_def rbind_eq_Inr)
qed (auto simp: put_doc_counters_def put_counters_def put_u64_def put_eta_def put_metadata_def rbind_eq_Inr)

lemma Collection_new_documents:
  assumes K: "storage_ok (mc_storage M) view" and n: "Collection_new M i name s c rng = (Inr (C, s'), rng')"
  shows "db_documents (st_dbs s') = db_documents (st_dbs s)" "in_doc_next_id (co_inner C) = 0" "co_id C = i"
proof -
  obtain ls rng1 where seeds: "seeds (mc_normal M) (cfg_d c) (cfg_l_0 c) rng = (ls, rng1)" by fastforce
  obtain t1 t2 t3 t4 where t: "put_locations M (st_precision s) (st_dbs s) i ls = Inr t1"
    "put_u64 M t1 i ''next_id'' (of_nat (cfg_l_0 c)) = Inr t2" "put_eta M t2 i (cfg_eta_0 c) = Inr t3"
    "put_u64 M t3 i ''config_d'' (of_nat (cfg_d c)) = Inr t4" "s' = s\<lparr>st_dbs := t4\<rparr>"
    "C = \<lparr>co_id = i, co_name = name,
       co_inner = inner_of c ls (of_nat (cfg_l_0 c)) (cfg_eta_0 c) 0, co_poisoned = False\<rparr>"
    using n seeds txn_eq [OF K] unfolding Collection_new_def seeds_def [symmetric]
    by (fastforce simp: Let_def rbind_eq_Inr)
  show "db_documents (st_dbs s') = db_documents (st_dbs s)"
    using t(2,4) [THEN puts_keep_documents(2)] puts_keep_documents(1) [OF t(1)]
      puts_keep_documents(3) [OF t(3)] by (simp add: t(5))
  show "in_doc_next_id (co_inner C) = 0" "co_id C = i" by (simp_all add: t(6))
qed

text \<open>A document goes under the collection's next document id, whatever lay there.\<close>

lemma persist_document_documents:
  assumes K: "storage_ok (mc_storage M) view" and p: "persist_document M i inner r k v m s = Inr s'"
  shows "\<exists>data. view (db_documents (st_dbs s')) = (view (db_documents (st_dbs s)))(document_key i k \<mapsto> data)"
proof -
  obtain t1 t2 data t3 t4 t5 where t:
    "put_locations M (st_precision s) (st_dbs s) i (locations_at inner (wr_modified_indices r)) = Inr t1"
    "put_locations M (st_precision s) t1 i (wr_new_locations r) = Inr t2"
    "put_document (mc_storage M) t2 i k data = Inr t3"
    "rfold (\<lambda>txn l. append_doc_to_location (mc_storage M) txn i l k) t3 (activated_ids inner r) = Inr t4"
    "put_doc_counters M t4 i inner = Inr t5" "s' = s\<lparr>st_dbs := t5\<rparr>"
    using p txn_eq [OF K] by (fastforce simp: persist_document_def Let_def rbind_eq_Inr)
  obtain D where D: "sg_put (mc_storage M) (db_documents t2) (document_key i k) data = Inr D"
    "t3 = t2\<lparr>db_documents := D\<rparr>"
    using t(3) by (auto simp: put_document_def rbind_eq_Inr)
  have "view (db_documents (st_dbs s')) = (view (db_documents (st_dbs s)))(document_key i k \<mapsto> data)"
    using storage_okD(5) [OF K D(1)] D(2) puts_keep_documents(1) [OF t(1)] puts_keep_documents(1) [OF t(2)]
      puts_keep_documents(5) [OF t(4)] puts_keep_documents(4) [OF t(5)]
    by (simp add: t(6))
  then show ?thesis by blast
qed

lemma write_with_metadata_documents:
  assumes K: "storage_ok (mc_storage M) view"
    and w: "write_with_metadata M v m (c, s, rng) = (Ok k, c', s', rng')"
  shows "k = in_doc_next_id (co_inner c) \<and>
    (\<exists>data. view (db_documents (st_dbs s')) = (view (db_documents (st_dbs s)))(document_key (co_id c) k \<mapsto> data))"
proof -
  have m: "atomic_mutation M (document_body M v m) (c, s, rng) = (Ok k, c', s', rng')"
    using w by (auto simp: write_with_metadata_def split: sum.splits)
  then have w: "write_inner c = Inr (co_inner c)"
    by (auto simp: atomic_mutation_def write_inner_def read_inner_def rbind_eq_Inr split: sum.splits)
  obtain out s1 rng1 where out: "document_body M v m (co_id c) (co_inner c) s rng = (out, s1, rng1)"
    by (metis prod_cases3)
  obtain inner' where b: "document_body M v m (co_id c) (co_inner c) s rng = (Done k inner', s', rng')"
  proof (cases out)
    case (Dirty e inner1)
    then show ?thesis using m w out by (auto simp: atomic_mutation_def split: prod.splits)
  qed (use m w out that in \<open>simp_all add: atomic_mutation_def\<close>)
  obtain r inner1 rng1 where a: "apply_write M v v WriteOpts_default (bump (co_inner c)) rng = (r, inner1, rng1)"
    by (metis prod_cases3)
  have "in_doc_next_id inner1 = in_doc_next_id (co_inner c)"
    using a by (auto simp: apply_write_def bump_def split: prod.splits)
  moreover have "persist_document M (co_id c) (inner1\<lparr>in_doc_next_id := in_doc_next_id inner1 + 1\<rparr>) r k v m s = Inr s' \<and>
      k = in_doc_next_id inner1"
  proof (cases "check_dim (co_inner c) v")
    case (Inr u)
    let ?in2 = "inner1\<lparr>in_doc_next_id := in_doc_next_id inner1 + 1\<rparr>"
    show ?thesis
    proof (cases "persist_document M (co_id c) ?in2 r (in_doc_next_id inner1) v m s")
      case (Inl e)
      then show ?thesis using b a Inr by (simp add: document_body_def Let_def)
    next
      case p: (Inr s2)
      then show ?thesis
        using b a Inr by (cases "sync_addresses (wr_modified_indices r) ?in2") (simp_all add: document_body_def Let_def)
    qed
  qed (use b in \<open>simp add: document_body_def\<close>)
  ultimately show ?thesis using persist_document_documents [OF K] by metis
qed

section \<open>A first document\<close>

text \<open>The first document of a small collection, on any store.\<close>

lemma small_insert:
  assumes "st_precision s = PF64"
  shows "\<exists>s' data. write_with_metadata list_machine [1] [] (small_collection i name, s, ()) =
     (Ok 0, (small_collection i name)\<lparr>co_inner := after_document\<rparr>, s', ()) \<and>
     document_data list_machine s document_inner first_result [1] [] = Inr data \<and>
     db_documents (st_dbs s') = (document_key i 0, data) # db_documents (st_dbs s) \<and>
     db_registry (st_dbs s') = db_registry (st_dbs s)"
proof -
  have fin: "is_finite (1 :: f64)" by code_simp
  obtain a where a: "encode_location zero_codec once PF64 = Inr a" using first_encodings(1) by blast
  have "document_data list_machine s document_inner first_result [1] [] =
      document_data list_machine first_store document_inner first_result [1] []"
    using assms by (simp add: document_data_def first_store_def empty_store_def split: option.split)
  then obtain d where d: "document_data list_machine s document_inner first_result [1] [] = Inr d"
    using first_document_data by metis
  have once: "loc_id once = 0" by (simp add: once_def)
  have "\<exists>ids. \<forall>t. db_doc_index t = db_doc_index (st_dbs s) \<longrightarrow> get_doc_ids_for_location_txn list_K t i 0 = Inr ids"
    by (cases "map_of (db_doc_index (st_dbs s)) (location_key i 0)")
      (simp_all add: get_doc_ids_for_location_txn_def list_storage_def)
  then obtain ids where
    ids: "\<And>t. db_doc_index t = db_doc_index (st_dbs s) \<Longrightarrow> get_doc_ids_for_location_txn list_K t i 0 = Inr ids"
    by blast
  have ser: "sg_ser_u64s list_K xs = Inr (concat (map u64_to_le xs))" for xs by (simp add: list_storage_def)
  obtain s' where p: "persist_document list_machine i document_inner first_result 0 [1] [] s = Inr s'"
    "db_documents (st_dbs s') = (document_key i 0, d) # db_documents (st_dbs s)"
    "db_registry (st_dbs s') = db_registry (st_dbs s)"
    using d assms
    by (auto simp: persist_document_def write_txn_def commit_def list_K_ops put_locations_def put_location_def a
        locations_at_def activated_ids_def append_doc_to_location_def once ids ser
        put_doc_index_entry_def put_document_def put_doc_counters_def put_counters_def put_u64_def put_eta_def
        put_metadata_def Let_def)
  show ?thesis
    by (rule exI [of _ s'], rule exI [of _ d]) (use p d first_write fin in
      \<open>simp add: write_with_metadata_def validate_vector_def atomic_mutation_def write_inner_def read_inner_def
        document_body_def check_dim_def one_config_fields Let_def sync_no_addresses\<close>)
qed

text \<open>The store after the drop, and after a later creation.\<close>

definition dropped_store :: "(bytes \<times> bytes) list store" where
  "dropped_store = named_store\<lparr>st_dbs := no_dbs\<lparr>db_registry := [(NEXT_COLLECTION_ID_KEY, u32_to_le 8)]\<rparr>\<rparr>"

definition again_store :: "(bytes \<times> bytes) list store" where
  "again_store = named_store\<lparr>st_dbs := no_dbs\<lparr>db_registry :=
     [(NEXT_COLLECTION_ID_KEY, u32_to_le 9), ([97], u32_to_le 8), (NEXT_COLLECTION_ID_KEY, u32_to_le 8)]\<rparr>\<rparr>"

text \<open>A collection that lost its only location record, with a document and its counter.\<close>

definition lost_store :: "(bytes \<times> bytes) list store" where
  "lost_store = named_store\<lparr>st_dbs := (st_dbs named_store)\<lparr>
     db_documents := [(document_key 7 0, [1, 2, 3])],
     db_metadata := (metadata_key 7 (ascii ''doc_next_id''), u64_to_le 1) # db_metadata (st_dbs named_store)\<rparr>\<rparr>"

lemma small_new:
  "\<exists>s'. Collection_new list_machine i name s one_config () = (Inr (small_collection i name, s'), ()) \<and>
     st_precision s' = st_precision s"
  by (simp add: Collection_new_def Let_def write_txn_def commit_def list_K_ops put_locations_def put_u64_def
      put_eta_def put_metadata_def one_config_def)

lemma dropped_store_runs:
  "unregister list_K named_store [97] 7 = Inr dropped_store"
  "Collection_load list_machine 7 [97] dropped_store one_config = Inr (small_collection 7 [97], dropped_store)"
  "get_collection_id list_K dropped_store [97] = Ok None" "list_collections list_K dropped_store = Ok []"
  "register list_K dropped_store [97] = Inr (8, again_store)"
  "load_all_locations list_K again_store 8 = Inr ([], again_store)"
  by code_simp+

lemma lost_store_runs:
  "register list_K lost_store [97] = Inr (7, lost_store)"
  "load_all_locations list_K lost_store 7 = Inr ([], lost_store)"
  by code_simp+

lemma lost_store_fields:
  "db_documents (st_dbs lost_store) = [(document_key 7 0, [1, 2, 3])]" "st_precision lost_store = PF64"
  by (simp_all add: lost_store_def named_store_def first_store_def empty_store_def)

section \<open>Properties\<close>

text \<open>C31: A drop removes exactly its collection: under its id nothing is left in any database, its
  name is gone from the registry and from the cache, and every other id keeps all its records,
  every other name its id and its handle, and every open collection and the audit log are as
  they were. The dropped name comes back empty: creating a collection under it right afterwards
  gives a sound, new collection with its documents counted from 0, under an id that is not the
  old one, and under the old id there is still nothing.\<close>

theorem dropped_name_starts_afresh:
  assumes "storage_ok (mc_storage M) view" "hive_ok M view H" "n \<noteq> NEXT_COLLECTION_ID_KEY"
    and "reg_next (mc_storage M) (registry view (hv_store H)) + 1 \<noteq> 0"
    and "Hive_drop M n H = (Ok True, H1)" "Hive_create M n (H1, rng) = (Ok a, H2, rng')"
    and "reg_entry (mc_storage M) (registry view (hv_store H)) n = Some i"
  shows "(\<forall>c. scope_view view (st_dbs (hv_store H1)) c =
        (if c = i then (Map.empty, Map.empty, Map.empty, Map.empty) else scope_view view (st_dbs (hv_store H)) c)) \<and>
     registry view (hv_store H1) = (registry view (hv_store H))(n := None) \<and>
     db_audit (st_dbs (hv_store H1)) = db_audit (st_dbs (hv_store H)) \<and>
     hv_cache H1 = (hv_cache H)(n := None) \<and> hv_heap H1 = hv_heap H \<and>
     sound M view (hv_heap H2 ! a) (hv_store H2) \<and> in_doc_next_id (co_inner (hv_heap H2 ! a)) = 0 \<and>
     length (in_locations (co_inner (hv_heap H2 ! a))) = cfg_l_0 (hv_config H) \<and>
     co_id (hv_heap H2 ! a) \<noteq> i \<and>
     scope_view view (st_dbs (hv_store H2)) i = (Map.empty, Map.empty, Map.empty, Map.empty)"
proof -
  let ?K = "mc_storage M"
  note K = assms(1)
  from K assms(5) obtain s where s: "unregister ?K (hv_store H) n i = Inr s" "hv_store H1 = s"
    "hv_config H1 = hv_config H" "hv_cache H1 = (hv_cache H)(n := None)" "hv_heap H1 = hv_heap H"
    by (cases rule: Hive_drop_cases) (use assms(7) in auto)
  have uncached: "hv_cache H1 n = None" by (simp add: s(4))
  note D = unregister_view [OF K s(1)]
  have gone: "registry view s n = None" and next_i: "reg_next ?K (registry view s) = reg_next ?K (registry view (hv_store H))"
    using D(2) assms(3) by (auto simp: reg_next_def reg_entry_def)
  have fresh: "fresh_scope view (reg_next ?K (registry view s)) s"
    using D(5) hive_okD(4) [OF assms(2)] next_i by simp
  have empty: "ls = []" if new: "register ?K (hv_store H1) n = Inr (j, t)" "load_all_locations ?K t j = Inr (ls, t')" for j t ls t'
    using register_new(1,3) [OF K gone new(1) [unfolded s(2)]] fresh fresh_load [OF K _ new(2)] by simp
  obtain j t t1 C t2 where c: "register ?K s n = Inr (j, t)" "load_all_locations ?K t j = Inr ([], t1)"
    "Collection_new M j n t1 (hv_config H) rng = (Inr (C, t2), rng')" "hv_heap H2 ! a = C" "hv_store H2 = t2"
    using Hive_create_new [OF K assms(6) uncached] empty s(2,3) by metis
  note R = register_new [OF K gone c(1)] and L = load_all_same_dbs [OF c(2)]
  have "fresh_scope view j t1" using R(3) [of j] L fresh R(1) same_dbs_kept(3) by blast
  note N = Collection_new_consistent [OF K this hive_okD(2,3) [OF assms(2)] c(3)]
  have "i < j" using registry_okD(1) [OF hive_okD(1) [OF assms(2)] assms(3,7)] R(1) next_i by simp
  moreover have "scope_view view (st_dbs t2) i = scope_view view (st_dbs s) i"
    using Collection_new_inside(1) [OF K c(3)] inside_only_scope \<open>i < j\<close> L R(2)
    by (fastforce simp: store_inside_def only_scope_def)
  ultimately show ?thesis using N D(1-3) by (simp add: c(4,5) s(2,4,5) sound_def)
qed

theorem dropped_name_starts_afresh_witness:
  "\<exists>H1 H2. Hive_drop list_machine [97] (plain_hive named_store) = (Ok True, H1) \<and>
     Hive_create list_machine [97] (H1, ()) = (Ok 0, H2, ()) \<and> co_id (hv_heap H2 ! 0) \<noteq> 7"
proof -
  let ?H = "plain_hive named_store"
  have names: "[97] \<noteq> NEXT_COLLECTION_ID_KEY" by code_simp
  have room: "reg_next list_K (registry map_of named_store) + 1 \<noteq> 0" by code_simp
  have entry: "reg_entry list_K (registry map_of named_store) [97] = Some 7" by code_simp
  have reg: "registry_ok list_K (registry map_of named_store)"
    by (simp add: registry_ok_def Let_def reg_entry_def named_store_def list_storage_def)
  have next_i: "reg_next list_K (registry map_of named_store) = 8" by code_simp
  have "fresh_scope map_of i named_store" if "8 \<le> i" for i :: u32
  proof -
    have "i \<noteq> 7" using that by auto
    then have "\<not> prefix (collection_prefix i) (metadata_key 7 x)" for x by (simp add: metadata_keys.key_scope)
    then show ?thesis by (auto simp: fresh_scope_def named_store_def first_store_def empty_store_def no_dbs_def)
  qed
  then have ok: "hive_ok list_machine map_of ?H"
    using reg next_i by (simp add: hive_ok_def plain_hive_def Let_def one_config_def)
  have d: "Hive_drop list_machine [97] ?H = (Ok True, ?H\<lparr>hv_store := dropped_store\<rparr>)"
    by (simp add: Hive_drop_def forget_def hive_runs dropped_store_runs)
  obtain s2 where n: "Collection_new list_machine 8 [97] again_store one_config () = (Inr (small_collection 8 [97], s2), ())"
    using small_new by blast
  have c: "Hive_create list_machine [97] (?H\<lparr>hv_store := dropped_store\<rparr>, ()) =
      (Ok 0, ?H\<lparr>hv_store := s2, hv_heap := [small_collection 8 [97]], hv_cache := [[97] \<mapsto> 0]\<rparr>, ())"
    using n by (simp add: Hive_create_def create_locked_def hive_runs dropped_store_runs Let_def)
  show ?thesis
    using dropped_name_starts_afresh [OF _ ok names _ d c, of 7] room entry d c
    by (simp add: list_storage_ok plain_hive_def)
qed

text \<open>C32: A lookup that races a drop leaves a ghost: the lookup reads the id, the drop deletes the
  collection and forgets it, and then the lookup opens the deleted id and puts it into the cache.
  The collection is not registered and in no listing, yet it is found by name, and it accepts a
  document that the database will not know after a restart.\<close>

theorem drop_can_leave_a_ghost:
  "\<exists>H. (hive_step list_machine)\<^sup>*\<^sup>*
       (map Asked [Get [97], Drop [97], Insert 0 [1] []], False, plain_hive named_store, ())
       ([Answered (Handle 0), Answered (Dropped True), Answered (Inserted 0)], False, H, ()) \<and>
     Hive_list list_machine H = Ok [] \<and> get_collection_id list_K (hv_store H) [97] = Ok None \<and>
     Hive_get list_machine [97] (H, ()) = (Ok (Some 0), H, ())"
proof -
  let ?st = "(map Asked [Get [97], Drop [97], Insert 0 [1] []], False, plain_hive named_store, ())"
  have p: "st_precision dropped_store = PF64"
    by (simp add: dropped_store_def named_store_def first_store_def empty_store_def)
  obtain s where s: "write_with_metadata list_machine [1] [] (small_collection 7 [97], dropped_store, ()) =
     (Ok 0, (small_collection 7 [97])\<lparr>co_inner := after_document\<rparr>, s, ())"
    "db_registry (st_dbs s) = db_registry (st_dbs dropped_store)"
    using small_insert [OF p, of 7 "[97]"] by blast
  let ?H = "(plain_hive named_store)\<lparr>hv_store := s, hv_heap := [(small_collection 7 [97])\<lparr>co_inner := after_document\<rparr>],
    hv_cache := [[97] \<mapsto> 0]\<rparr>"
  have "follow list_machine [0, 0, 1, 1, 1, 0, 2] ?st =
      Some ([Answered (Handle 0), Answered (Dropped True), Answered (Inserted 0)], False, ?H, ())"
    using s(1)
    by (simp add: enabled_def look_def reply_def forget_def on_collection_def hive_runs dropped_store_runs)
  note steps = follow_steps [OF this]
  have r: "read_txn list_K s = Inr (st_dbs s)" "read_txn list_K dropped_store = Inr (st_dbs dropped_store)"
    by (simp_all add: read_txn_def list_storage_def)
  have "list_collections list_K s = list_collections list_K dropped_store"
    "get_collection_id list_K s [97] = get_collection_id list_K dropped_store [97]"
    by (simp_all add: list_collections_def get_collection_id_def get_collection_id_txn_def r s(2))
  then have "Hive_list list_machine ?H = Ok []" "get_collection_id list_K (hv_store ?H) [97] = Ok None"
    using dropped_store_runs by (simp_all add: Hive_list_def)
  moreover have "Hive_get list_machine [97] (?H, ()) = (Ok (Some 0), ?H, ())"
    by (simp add: Hive_get_def cached_def plain_hive_def)
  ultimately show ?thesis using steps by (intro exI [of _ ?H] conjI)
qed

text \<open>Creating a collection whose name is registered but none of whose locations load starts
  its documents from 0, whatever its counter on disk says: the first document that is then
  written replaces the stored document 0.\<close>

lemma recreated_collection_overwrites_documents:
  assumes "storage_ok (mc_storage M) view" "hv_cache H n = None"
    and "register (mc_storage M) (hv_store H) n = Inr (i, s)" "load_all_locations (mc_storage M) s i = Inr ([], s')"
    and "Hive_create M n (H, rng) = (Ok a, H1, rng1)"
    and "on_collection a (write_with_metadata M v m) (H1, rng1) = (Ok k, H2, rng2)"
  shows "k = 0 \<and> (\<exists>data. view (db_documents (st_dbs (hv_store H2))) =
     (view (db_documents (st_dbs (hv_store H))))(document_key i 0 \<mapsto> data))"
proof -
  let ?K = "mc_storage M"
  note K = assms(1)
  have "\<forall>j t ls t'. register ?K (hv_store H) n = Inr (j, t) \<longrightarrow> load_all_locations ?K t j = Inr (ls, t') \<longrightarrow> ls = []"
    using assms(3,4) by simp
  then obtain j t t1 C t2 where c: "register ?K (hv_store H) n = Inr (j, t)" "load_all_locations ?K t j = Inr ([], t1)"
    "Collection_new M j n t1 (hv_config H) rng = (Inr (C, t2), rng1)" "hv_heap H1 ! a = C" "hv_store H1 = t2"
    using Hive_create_new [OF K assms(5,2)] by metis
  have j: "j = i" using assms(3) c(1) by simp
  have docs: "db_documents (st_dbs t2) = db_documents (st_dbs (hv_store H))"
    using Collection_new_documents(1) [OF K c(3)] load_all_same_dbs [OF c(2)] register_documents [OF K c(1)] by simp
  obtain c' s2 where w: "write_with_metadata M v m (C, t2, rng1) = (Ok k, c', s2, rng2)" "hv_store H2 = s2"
    using assms(6) c(4,5) by (auto simp: on_collection_def split: prod.splits)
  have "k = 0" "co_id C = i"
    using write_with_metadata_documents [OF K w(1)] Collection_new_documents(2,3) [OF K c(3)] by (simp_all add: j)
  then show ?thesis using write_with_metadata_documents [OF K w(1)] by (auto simp: docs w(2))
qed

end
