(* ===== verification/Results.thy ===== *)
theory Results
  imports Errors
begin

text \<open>
  Results with an error type of their own, as the HTTP server (a message) and the algebra crate
  (its own enum) have them. \<open>ebind\<close> is the \<open>?\<close> operator, \<open>eensure\<close> a check that returns early.
\<close>

definition ebind :: "'e + 'a \<Rightarrow> ('a \<Rightarrow> 'e + 'b) \<Rightarrow> 'e + 'b" where
  "ebind r f = (case r of Inl e \<Rightarrow> Inl e | Inr x \<Rightarrow> f x)"

definition eensure :: "bool \<Rightarrow> 'e \<Rightarrow> 'e + unit" where
  "eensure b e = (if b then Inr () else Inl e)"

text \<open>\<open>iter().map(f).collect::<Result<Vec<_>, _>>()\<close>\<close>

fun emap :: "('x \<Rightarrow> 'e + 'y) \<Rightarrow> 'x list \<Rightarrow> 'e + 'y list" where
  "emap f [] = Inr []"
| "emap f (x # xs) = ebind (f x) (\<lambda>y. ebind (emap f xs) (\<lambda>ys. Inr (y # ys)))"

lemma ebind_simps [simp]: "ebind (Inl e) f = Inl e" "ebind (Inr x) f = f x"
  by (simp_all add: ebind_def)

lemma ebind_Inr: "ebind r f = Inr y \<longleftrightarrow> (\<exists>x. r = Inr x \<and> f x = Inr y)"
  by (cases r) auto

lemma eensure_Inr [simp]: "eensure b e = Inr u \<longleftrightarrow> b" "eensure True e = Inr ()" "eensure False e = Inl e"
  by (simp_all add: eensure_def)

lemma emap_Inr: "emap f xs = Inr ys \<longleftrightarrow> list_all2 (\<lambda>x y. f x = Inr y) xs ys"
proof (induction xs arbitrary: ys)
  case Nil
  then show ?case by auto
next
  case (Cons x xs)
  then show ?case by (auto simp: ebind_Inr list_all2_Cons1)
qed

lemma emap_mem: "emap f xs = Inr ys \<Longrightarrow> y \<in> set ys \<Longrightarrow> \<exists>x\<in>set xs. f x = Inr y"
  by (induction xs arbitrary: ys) (auto simp: ebind_Inr)

end
