(* ===== verification/Users.thy ===== *)
theory Users
  imports Audit_Log Results
begin

text \<open>
  heather_server/src/users.rs, with \<open>validate_db_name\<close> of heather_db/src/db_config.rs: who may
  do what. A Rust \<open>String\<close> is its UTF-8 bytes; the checks on characters are on ASCII ranges, so
  they read the same on bytes. The environment (LMDB), Argon2 and bincode are third-party: they
  are the records \<open>system\<close> and \<open>crypto\<close>. The clock and random salts are arguments. Of the server's
  error messages the fixed text is kept.
\<close>

section \<open>What is not under src/\<close>

datatype Scope = Root | Database bytes

record User =
  us_name :: bytes
  us_password_hash :: bytes
  us_scope :: Scope
  us_created_at :: u64

record 'd system =
  sy_write_txn :: "'d \<Rightarrow> message + 'd"
  sy_read_txn :: "'d \<Rightarrow> message + 'd"
  sy_commit :: "'d \<Rightarrow> message + 'd"
  sy_get :: "'d \<Rightarrow> bytes \<Rightarrow> message + bytes option"
  sy_put :: "'d \<Rightarrow> bytes \<Rightarrow> bytes \<Rightarrow> message + 'd"
  sy_delete :: "'d \<Rightarrow> bytes \<Rightarrow> message + (bool \<times> 'd)"
  sy_iter :: "'d \<Rightarrow> message + (message + (bytes \<times> bytes)) list"
  sy_is_empty :: "'d \<Rightarrow> message + bool"

record crypto =
  cr_hash :: "bytes \<Rightarrow> bytes \<Rightarrow> message + bytes"   \<comment> \<open>password and salt to a PHC string\<close>
  cr_parse :: "bytes \<Rightarrow> bool"                        \<comment> \<open>is it a PHC string\<close>
  cr_check :: "bytes \<Rightarrow> bytes \<Rightarrow> bool"              \<comment> \<open>does the password fit the PHC string\<close>
  cr_ser_user :: "User \<Rightarrow> message + bytes"
  cr_de_user :: "bytes \<Rightarrow> message + User"

text \<open>Documented behaviour: LMDB's transactions and maps, bincode's round trip, Argon2's own hashes.\<close>

definition system_ok :: "'d system \<Rightarrow> ('d \<Rightarrow> bytes \<Rightarrow> bytes option) \<Rightarrow> bool" where
  "system_ok E view \<longleftrightarrow>
     (\<forall>d d'. sy_write_txn E d = Inr d' \<longrightarrow> d' = d) \<and> (\<forall>d d'. sy_read_txn E d = Inr d' \<longrightarrow> d' = d) \<and>
     (\<forall>d d'. sy_commit E d = Inr d' \<longrightarrow> d' = d) \<and>
     (\<forall>d k v. sy_get E d k = Inr v \<longrightarrow> v = view d k) \<and>
     (\<forall>d k v d'. sy_put E d k v = Inr d' \<longrightarrow> view d' = (view d)(k \<mapsto> v)) \<and>
     (\<forall>d k b d'. sy_delete E d k = Inr (b, d') \<longrightarrow>
        view d' = (view d)(k := None) \<and> b = (view d k \<noteq> None)) \<and>
     (\<forall>d xs. sy_iter E d = Inr xs \<longrightarrow> (\<forall>k v. Inr (k, v) \<in> set xs \<longrightarrow> view d k = Some v)) \<and>
     (\<forall>d xs. sy_iter E d = Inr xs \<longrightarrow> (\<forall>k. view d k \<noteq> None \<longrightarrow> (\<exists>v. Inr (k, v) \<in> set xs) \<or> (\<exists>e. Inl e \<in> set xs)))"

definition crypto_ok :: "crypto \<Rightarrow> bool" where
  "crypto_ok C \<longleftrightarrow>
     (\<forall>p salt h. cr_hash C p salt = Inr h \<longrightarrow> cr_parse C h \<and> cr_check C p h) \<and>
     (\<forall>u b. cr_ser_user C u = Inr b \<longrightarrow> cr_de_user C b = Inr u)"

lemma system_okD:
  assumes "system_ok E view"
  shows "sy_write_txn E d = Inr d' \<Longrightarrow> d' = d" "sy_read_txn E d = Inr d' \<Longrightarrow> d' = d" "sy_commit E d = Inr d' \<Longrightarrow> d' = d"
    "sy_get E d k = Inr r \<Longrightarrow> r = view d k" "sy_put E d k v = Inr d' \<Longrightarrow> view d' = (view d)(k \<mapsto> v)"
    "sy_delete E d k = Inr (b, d') \<Longrightarrow> view d' = (view d)(k := None)"
    "sy_delete E d k = Inr (b, d') \<Longrightarrow> b = (view d k \<noteq> None)"
    "sy_iter E d = Inr xs \<Longrightarrow> Inr (k, v) \<in> set xs \<Longrightarrow> view d k = Some v"
  using assms unfolding system_ok_def by metis+

section \<open>Names\<close>

definition is_lower :: "u8 \<Rightarrow> bool" where "is_lower b \<longleftrightarrow> 97 \<le> b \<and> b \<le> 122"
definition is_upper :: "u8 \<Rightarrow> bool" where "is_upper b \<longleftrightarrow> 65 \<le> b \<and> b \<le> 90"
definition is_digit :: "u8 \<Rightarrow> bool" where "is_digit b \<longleftrightarrow> 48 \<le> b \<and> b \<le> 57"

definition validate_db_name :: "bytes \<Rightarrow> unit res" where
  "validate_db_name name =
     (case name of
        [] \<Rightarrow> Err (InvalidInput (Fmt ''database name length must be 1..=63 (got {})'' [N 0]))
      | first # rest \<Rightarrow>
         rbind (ensure (length name \<le> 63)
           (InvalidInput (Fmt ''database name length must be 1..=63 (got {})'' [N (length name)]))) (\<lambda>_.
         rbind (ensure (is_lower first)
           (InvalidInput (msg ''database name must start with a lowercase letter''))) (\<lambda>_.
         ensure (\<forall>c\<in>set rest. is_lower c \<or> is_digit c \<or> c = 95 \<or> c = 45)
           (InvalidInput (msg ''database name contains invalid char {c:?} (allowed: a-z 0-9 _ -)'')))))"

definition validate_username :: "bytes \<Rightarrow> message + unit" where
  "validate_username name =
     (case name of
        [] \<Rightarrow> Inl (msg ''username must be 1..=64 chars'')
      | first # rest \<Rightarrow>
         if 64 < length name then Inl (msg ''username must be 1..=64 chars'')
         else if \<not> (is_lower first \<or> is_upper first) then Inl (msg ''username must start with a letter'')
         else if \<forall>c\<in>set rest. is_lower c \<or> is_upper c \<or> is_digit c \<or> c = 95 \<or> c = 45 \<or> c = 46 then Inr ()
         else Inl (msg ''username has invalid char {c:?} (allowed: a-zA-Z0-9 _ - .)''))"

definition to_lower :: "u8 \<Rightarrow> u8" where
  "to_lower b = (if is_upper b then b + 32 else b)"

definition Scope_parse :: "bytes \<Rightarrow> message + Scope" where
  "Scope_parse s =
     (if map to_lower s = ascii ''root'' \<or> s = ascii ''*'' then Inr Root
      else case validate_db_name s of Inl _ \<Rightarrow> Inl (msg ''invalid scope'') | Inr _ \<Rightarrow> Inr (Database s))"

definition Scope_label :: "Scope \<Rightarrow> bytes" where
  "Scope_label s = (case s of Root \<Rightarrow> ascii ''root'' | Database n \<Rightarrow> ascii ''db:'' @ n)"

section \<open>The user store\<close>

definition put_user :: "'d system \<Rightarrow> crypto \<Rightarrow> 'd \<Rightarrow> User \<Rightarrow> message + 'd" where
  "put_user E C d u = ebind (cr_ser_user C u) (\<lambda>b. sy_put E d (us_name u) b)"

definition users_is_empty :: "'d system \<Rightarrow> 'd \<Rightarrow> bool" where
  "users_is_empty E d =
     (case sy_read_txn E d of
        Inr t \<Rightarrow> (case sy_is_empty E t of Inr b \<Rightarrow> b | Inl _ \<Rightarrow> True)
      | Inl _ \<Rightarrow> True)"

text \<open>\<open>iter.flatten()\<close> skips the entries that fail.\<close>

definition flatten :: "('e + 'a) list \<Rightarrow> 'a list" where
  "flatten xs = List.map_filter (\<lambda>x. case x of Inl _ \<Rightarrow> None | Inr y \<Rightarrow> Some y) xs"

definition users_list :: "'d system \<Rightarrow> crypto \<Rightarrow> 'd \<Rightarrow> User list" where
  "users_list E C d =
     (case ebind (sy_read_txn E d) (sy_iter E) of
        Inl _ \<Rightarrow> []
      | Inr xs \<Rightarrow> sort_by (\<lambda>a b. us_name a < us_name b) (flatten (map (\<lambda>(k, v). cr_de_user C v) (flatten xs))))"

definition users_create ::
  "'d system \<Rightarrow> crypto \<Rightarrow> u64 \<Rightarrow> bytes \<Rightarrow> bytes \<Rightarrow> bytes \<Rightarrow> Scope \<Rightarrow> 'd \<Rightarrow> message + (User \<times> 'd)" where
  "users_create E C now salt name password scope d =
     ebind (validate_username name) (\<lambda>_.
     if length password < 8 then Inl (msg ''password must be at least 8 characters'')
     else ebind (cr_hash C password salt) (\<lambda>hash.
     let user = \<lparr>us_name = name, us_password_hash = hash, us_scope = scope, us_created_at = now\<rparr> in
     ebind (sy_write_txn E d) (\<lambda>txn.
     ebind (sy_get E txn name) (\<lambda>r.
     if r \<noteq> None then Inl (msg ''user already exists'')
     else ebind (put_user E C txn user) (\<lambda>txn.
     ebind (sy_commit E txn) (\<lambda>d. Inr (user, d)))))))"

definition users_set_password ::
  "'d system \<Rightarrow> crypto \<Rightarrow> bytes \<Rightarrow> bytes \<Rightarrow> bytes \<Rightarrow> 'd \<Rightarrow> message + 'd" where
  "users_set_password E C salt name new_password d =
     (if length new_password < 8 then Inl (msg ''password must be at least 8 characters'')
      else ebind (cr_hash C new_password salt) (\<lambda>hash.
      ebind (sy_write_txn E d) (\<lambda>txn.
      ebind (sy_get E txn name) (\<lambda>r.
      case r of
        None \<Rightarrow> Inl (msg ''user not found'')
      | Some raw \<Rightarrow>
         ebind (cr_de_user C raw) (\<lambda>user.
         ebind (put_user E C txn (user\<lparr>us_password_hash := hash\<rparr>)) (sy_commit E))))))"

definition users_delete :: "'d system \<Rightarrow> bytes \<Rightarrow> 'd \<Rightarrow> message + (bool \<times> 'd)" where
  "users_delete E name d =
     ebind (sy_write_txn E d) (\<lambda>txn.
     ebind (sy_delete E txn name) (\<lambda>(removed, txn).
     ebind (sy_commit E txn) (\<lambda>d. Inr (removed, d))))"

definition users_get :: "'d system \<Rightarrow> crypto \<Rightarrow> 'd \<Rightarrow> bytes \<Rightarrow> User option" where
  "users_get E C d name =
     (case ebind (sy_read_txn E d) (\<lambda>txn. sy_get E txn name) of
        Inr (Some raw) \<Rightarrow> (case cr_de_user C raw of Inr u \<Rightarrow> Some u | Inl _ \<Rightarrow> None)
      | _ \<Rightarrow> None)"

text \<open>A decoy hash is checked when there is no such user.\<close>

definition DECOY :: bytes where
  "DECOY = ascii ''$argon2id$v=19$m=19456,t=2,p=1$YWFhYWFhYWFhYWFhYWFhYQ$qJDuO5/0aMQHsfZK2dMNgJsEuXRTyT5xhI8Sx5Z03Ag''"

definition users_verify :: "'d system \<Rightarrow> crypto \<Rightarrow> 'd \<Rightarrow> bytes \<Rightarrow> bytes \<Rightarrow> User option" where
  "users_verify E C d name password =
     (case sy_read_txn E d of
        Inl _ \<Rightarrow> None
      | Inr txn \<Rightarrow>
         let (hash, found) =
           (case sy_get E txn name of
              Inr (Some raw) \<Rightarrow>
                (case cr_de_user C raw of Inr u \<Rightarrow> (us_password_hash u, Some u) | Inl _ \<Rightarrow> (DECOY, None))
            | _ \<Rightarrow> (DECOY, None))
         in if \<not> cr_parse C hash then None
            else if cr_check C password hash then found else None)"

definition ALPHABET :: bytes where
  "ALPHABET = ascii ''ABCDEFGHJKLMNPQRSTUVWXYZabcdefghijkmnpqrstuvwxyz23456789''"

text \<open>The indices are drawn below the alphabet's length.\<close>

definition generate_password :: "nat list \<Rightarrow> bytes" where
  "generate_password picks = map (\<lambda>i. ALPHABET ! i) picks"

section \<open>Authorisation\<close>

definition strip_prefix :: "bytes \<Rightarrow> bytes \<Rightarrow> bytes option" where
  "strip_prefix p s = (if prefix p s then Some (drop (length p) s) else None)"

abbreviation slash :: u8 where "slash \<equiv> 47"

definition segment :: "bytes \<Rightarrow> bytes" where
  "segment s = takeWhile (\<lambda>c. c \<noteq> slash) s"

definition is_policy_gated_db_route :: "bytes \<Rightarrow> bool" where
  "is_policy_gated_db_route rest =
     (let seg = (case strip_prefix [slash] rest of Some r \<Rightarrow> r | None \<Rightarrow> rest)
      in segment seg = ascii ''audit'')"

definition is_authorized :: "Scope \<Rightarrow> bytes \<Rightarrow> AuditVisibility option \<Rightarrow> bool" where
  "is_authorized scope path audit_visibility =
     (case scope of
        Root \<Rightarrow> True
      | Database db_name \<Rightarrow>
         (case strip_prefix (ascii ''/db/'') path of
            Some rest \<Rightarrow>
              let route_db = segment rest
              in if is_policy_gated_db_route (drop (length route_db) rest) \<and> audit_visibility \<noteq> Some VisDbUsers
                 then False else route_db = db_name
          | None \<Rightarrow>
              if path = ascii ''/db'' then False
              else if db_name = ascii ''default''
              then prefix (ascii ''/collections'') path \<or> prefix (ascii ''/algebra'') path \<or>
                   prefix (ascii ''/compose'') path
              else False))"

end
