(* ===== verification/Tokens.thy ===== *)
theory Tokens
  imports Users
begin

text \<open>
  heather_server/src/tokens.rs: session tokens, kept in a cache that answers every check and
  in LMDB across restarts. The cache is an association list (its order shows nowhere); the
  clock and the random token are arguments, and where the code reads the clock twice there
  are two. A token whose record cannot be stored or deleted is only logged by the code, so
  such a failure leaves the database as it was and the operation goes on.
\<close>

record TokenEntry =
  te_user :: User
  te_expires_at :: u64

record token_codec =
  tc_ser :: "TokenEntry \<Rightarrow> message + bytes"
  tc_de :: "bytes \<Rightarrow> message + TokenEntry"

definition token_codec_ok :: "token_codec \<Rightarrow> bool" where
  "token_codec_ok T \<longleftrightarrow> (\<forall>e b. tc_ser T e = Inr b \<longrightarrow> tc_de T b = Inr e)"

record 'd Tokens =
  tk_db :: 'd
  tk_cache :: "(bytes \<times> TokenEntry) list"

definition cache_remove :: "bytes \<Rightarrow> (bytes \<times> TokenEntry) list \<Rightarrow> (bytes \<times> TokenEntry) list" where
  "cache_remove k c = filter (\<lambda>e. fst e \<noteq> k) c"

definition cache_insert :: "bytes \<Rightarrow> TokenEntry \<Rightarrow> (bytes \<times> TokenEntry) list \<Rightarrow> (bytes \<times> TokenEntry) list" where
  "cache_insert k e c = (k, e) # cache_remove k c"

lemma cache_lookup [simp]:
  "map_of (cache_remove k c) = (map_of c)(k := None)" "map_of (cache_insert k e c) = (map_of c)(k \<mapsto> e)"
proof -
  show r: "map_of (cache_remove k c) = (map_of c)(k := None)"
    by (induction c) (auto simp: cache_remove_def)
  show "map_of (cache_insert k e c) = (map_of c)(k \<mapsto> e)" by (simp add: cache_insert_def r)
qed

section \<open>Persistence\<close>

definition persist :: "'d system \<Rightarrow> token_codec \<Rightarrow> bytes \<Rightarrow> TokenEntry \<Rightarrow> 'd \<Rightarrow> message + 'd" where
  "persist E T token entry d =
     ebind (tc_ser T entry) (\<lambda>b.
     ebind (sy_write_txn E d) (\<lambda>txn.
     ebind (sy_put E txn token b) (sy_commit E)))"

text \<open>A delete whose error is dropped.\<close>

definition try_delete :: "'d system \<Rightarrow> bytes \<Rightarrow> 'd \<Rightarrow> 'd" where
  "try_delete E k txn = (case sy_delete E txn k of Inr (_, txn) \<Rightarrow> txn | Inl _ \<Rightarrow> txn)"

definition remove_persisted :: "'d system \<Rightarrow> bytes \<Rightarrow> 'd \<Rightarrow> message + 'd" where
  "remove_persisted E token d =
     ebind (sy_write_txn E d) (\<lambda>txn. sy_commit E (try_delete E token txn))"

definition or_same :: "'d \<Rightarrow> message + 'd \<Rightarrow> 'd" where
  "or_same d r = (case r of Inr d' \<Rightarrow> d' | Inl _ \<Rightarrow> d)"

section \<open>Operations\<close>

definition live :: "u64 \<Rightarrow> token_codec \<Rightarrow> bytes \<times> bytes \<Rightarrow> (bytes \<times> TokenEntry) option" where
  "live now T kv =
     (case tc_de T (snd kv) of
        Inr te \<Rightarrow> if te_expires_at te > now then Some (fst kv, te) else None
      | Inl _ \<Rightarrow> None)"

text \<open>\<open>load\<close> on an environment whose token database \<open>d\<close> was opened.\<close>

definition Tokens_load :: "'d system \<Rightarrow> token_codec \<Rightarrow> u64 \<Rightarrow> 'd \<Rightarrow> message + 'd Tokens" where
  "Tokens_load E T now d =
     ebind (sy_read_txn E d) (\<lambda>rtxn.
     let entries = (case sy_iter E rtxn of Inr xs \<Rightarrow> flatten xs | Inl _ \<Rightarrow> []);
         cache = foldl (\<lambda>c kv. case live now T kv of Some (k, te) \<Rightarrow> cache_insert k te c | None \<Rightarrow> c) [] entries;
         to_delete = map fst (filter (\<lambda>kv. live now T kv = None) entries)
     in if to_delete = [] then Inr \<lparr>tk_db = d, tk_cache = cache\<rparr>
        else ebind (sy_write_txn E d) (\<lambda>wtxn.
             ebind (sy_commit E (foldl (\<lambda>txn k. try_delete E k txn) wtxn to_delete)) (\<lambda>d.
             Inr \<lparr>tk_db = d, tk_cache = cache\<rparr>)))"

definition saturating_add :: "u64 \<Rightarrow> u64 \<Rightarrow> u64" where
  "saturating_add a b = (if unat a + unat b < 2 ^ 64 then a + b else - 1)"

definition Tokens_mint ::
  "'d system \<Rightarrow> token_codec \<Rightarrow> u64 \<Rightarrow> bytes \<Rightarrow> User \<Rightarrow> u64 \<Rightarrow> 'd Tokens \<Rightarrow> (bytes \<times> u64) \<times> 'd Tokens" where
  "Tokens_mint E T now token user ttl t =
     (let expires_at = saturating_add now ttl;
          entry = \<lparr>te_user = user, te_expires_at = expires_at\<rparr>
      in ((token, expires_at),
          \<lparr>tk_db = or_same (tk_db t) (persist E T token entry (tk_db t)),
           tk_cache = cache_insert token entry (tk_cache t)\<rparr>))"

definition Tokens_verify ::
  "'d system \<Rightarrow> u64 \<Rightarrow> u64 \<Rightarrow> bytes \<Rightarrow> 'd Tokens \<Rightarrow> (User \<times> u64) option \<times> 'd Tokens" where
  "Tokens_verify E now now' token t =
     (case map_of (tk_cache t) token of
        None \<Rightarrow> (None, t)
      | Some entry \<Rightarrow>
         if te_expires_at entry > now then (Some (te_user entry, te_expires_at entry), t)
         else (None,
           \<lparr>tk_db = or_same (tk_db t) (remove_persisted E token (tk_db t)),
            tk_cache = (if te_expires_at entry \<le> now' then cache_remove token (tk_cache t) else tk_cache t)\<rparr>))"

definition Tokens_revoke :: "'d system \<Rightarrow> bytes \<Rightarrow> 'd Tokens \<Rightarrow> bool \<times> 'd Tokens" where
  "Tokens_revoke E token t =
     (map_of (tk_cache t) token \<noteq> None,
      \<lparr>tk_db = or_same (tk_db t) (remove_persisted E token (tk_db t)), tk_cache = cache_remove token (tk_cache t)\<rparr>)"

definition Tokens_gc :: "'d system \<Rightarrow> u64 \<Rightarrow> 'd Tokens \<Rightarrow> nat \<times> 'd Tokens" where
  "Tokens_gc E now t =
     (let expired = map fst (filter (\<lambda>e. te_expires_at (snd e) \<le> now) (tk_cache t))
      in if expired = [] then (0, t)
         else (length expired,
           \<lparr>tk_db = (case sy_write_txn E (tk_db t) of
                     Inl _ \<Rightarrow> tk_db t
                   | Inr wtxn \<Rightarrow>
                      or_same (tk_db t) (sy_commit E (foldl (\<lambda>txn k. try_delete E k txn) wtxn expired))),
            tk_cache = foldl (\<lambda>c k. cache_remove k c) (tk_cache t) expired\<rparr>))"

section \<open>What the cache says\<close>

lemma foldl_remove: "map_of (foldl (\<lambda>c k. cache_remove k c) c ks) k = (if k \<in> set ks then None else map_of c k)"
  by (induction ks arbitrary: c) auto

lemma gc_cache:
  assumes "distinct (map fst (tk_cache t))"
  shows "map_of (tk_cache (snd (Tokens_gc E now t))) k =
     (case map_of (tk_cache t) k of Some e \<Rightarrow> if te_expires_at e \<le> now then None else Some e | None \<Rightarrow> None)"
proof -
  let ?expired = "map fst (filter (\<lambda>e. te_expires_at (snd e) \<le> now) (tk_cache t))"
  have "k \<in> set ?expired \<longleftrightarrow> (\<exists>e. map_of (tk_cache t) k = Some e \<and> te_expires_at e \<le> now)"
    using map_of_eq_Some_iff [OF assms] by force
  then have "map_of (foldl (\<lambda>c k. cache_remove k c) (tk_cache t) ?expired) k =
      (case map_of (tk_cache t) k of Some e \<Rightarrow> if te_expires_at e \<le> now then None else Some e | None \<Rightarrow> None)"
    by (auto simp: foldl_remove split: option.splits)
  then show ?thesis by (auto simp: Tokens_gc_def Let_def split: if_splits)
qed

text \<open>No key twice, in every state.\<close>

definition tokens_ok :: "'d Tokens \<Rightarrow> bool" where
  "tokens_ok t \<longleftrightarrow> distinct (map fst (tk_cache t))"

lemma distinct_remove: "distinct (map fst c) \<Longrightarrow> distinct (map fst (cache_remove k c))"
  by (induction c) (auto simp: cache_remove_def)

lemma distinct_insert: "distinct (map fst c) \<Longrightarrow> distinct (map fst (cache_insert k e c))"
  using distinct_remove [of c k] by (auto simp: cache_insert_def cache_remove_def)

lemma distinct_foldl_remove: "distinct (map fst c) \<Longrightarrow> distinct (map fst (foldl (\<lambda>c k. cache_remove k c) c ks))"
  by (induction ks arbitrary: c) (simp_all add: distinct_remove)

lemma tokens_ok_ops:
  "tokens_ok t \<Longrightarrow> tokens_ok (snd (Tokens_mint E T now token user ttl t))"
  "tokens_ok t \<Longrightarrow> tokens_ok (snd (Tokens_verify E now now' token t))"
  "tokens_ok t \<Longrightarrow> tokens_ok (snd (Tokens_revoke E token t))"
  "tokens_ok t \<Longrightarrow> tokens_ok (snd (Tokens_gc E now t))"
  by (auto simp: tokens_ok_def Tokens_mint_def Tokens_verify_def Tokens_revoke_def Tokens_gc_def Let_def
      distinct_remove distinct_insert distinct_foldl_remove split: option.splits)

lemma tokens_ok_load:
  assumes "Tokens_load E T now d = Inr t"
  shows "tokens_ok t"
proof -
  have "distinct (map fst (foldl (\<lambda>c kv. case live now T kv of Some (k, te) \<Rightarrow> cache_insert k te c | None \<Rightarrow> c) c xs))"
    if "distinct (map fst c)" for c xs
    using that by (induction xs arbitrary: c) (auto simp: distinct_insert split: option.splits)
  from this [of "[]"] show ?thesis
    using assms by (auto simp: Tokens_load_def tokens_ok_def Let_def ebind_Inr split: if_splits)
qed

text \<open>Loading takes over every live entry.\<close>

lemma load_cache:
  assumes "distinct (map fst xs)" "(k, raw) \<in> set xs" "live now T (k, raw) = Some (k, e)"
  shows "map_of (foldl (\<lambda>c kv. case live now T kv of Some (k, te) \<Rightarrow> cache_insert k te c | None \<Rightarrow> c) c xs) k = Some e"
  using assms
proof (induction xs arbitrary: c)
  case (Cons x xs)
  let ?f = "\<lambda>c kv. case live now T kv of Some (k, te) \<Rightarrow> cache_insert k te c | None \<Rightarrow> c"
  have key: "live now T kv = Some (k', te) \<Longrightarrow> k' = fst kv" for kv k' te
    by (auto simp: live_def split: sum.splits if_splits)
  have other: "k \<notin> fst ` set ys \<Longrightarrow> map_of (foldl ?f c ys) k = map_of c k" for c ys
    by (induction ys arbitrary: c) (auto split: option.splits dest: key)
  show ?case
  proof (cases "x = (k, raw)")
    case True
    then have "k \<notin> fst ` set xs" using Cons.prems(1) by auto
    then show ?thesis using other [of xs "cache_insert k e c"] Cons.prems(3) True by simp
  next
    case False
    then show ?thesis using Cons.IH [of "?f c x"] Cons.prems by simp
  qed
qed simp

lemma flatten_map_Inr [simp]: "flatten (map Inr xs) = xs"
  by (induction xs) (simp_all add: flatten_def List.map_filter_simps)

section \<open>Histories\<close>

text \<open>What can happen to the tokens of a running server.\<close>

datatype token_call =
    Mint u64 bytes User u64
  | Verify u64 u64 bytes
  | Revoke bytes
  | Collect u64

definition token_step :: "'d system \<Rightarrow> token_codec \<Rightarrow> 'd Tokens \<Rightarrow> token_call \<Rightarrow> 'd Tokens" where
  "token_step E T t c =
     (case c of
        Mint now token user ttl \<Rightarrow> snd (Tokens_mint E T now token user ttl t)
      | Verify now now' token \<Rightarrow> snd (Tokens_verify E now now' token t)
      | Revoke token \<Rightarrow> snd (Tokens_revoke E token t)
      | Collect now \<Rightarrow> snd (Tokens_gc E now t))"

lemma token_step_ok: "tokens_ok t \<Longrightarrow> tokens_ok (token_step E T t c)"
  by (cases c) (simp_all add: token_step_def tokens_ok_ops)

text \<open>Only minting puts an entry into the cache.\<close>

lemma token_step_cache:
  assumes "map_of (tk_cache (token_step E T t c)) k = Some e" "tokens_ok t"
  shows "map_of (tk_cache t) k = Some e \<or>
     (\<exists>now ttl. c = Mint now k (te_user e) ttl \<and> te_expires_at e = saturating_add now ttl)"
proof (cases c)
  case (Mint now token user ttl)
  then show ?thesis
    using assms(1) by (cases "token = k") (auto simp: token_step_def Tokens_mint_def Let_def)
next
  case (Verify now now' token)
  then show ?thesis
    using assms(1) by (auto simp: token_step_def Tokens_verify_def split: option.splits if_splits)
next
  case (Revoke token)
  then show ?thesis
    using assms(1) by (auto simp: token_step_def Tokens_revoke_def split: if_splits)
next
  case (Collect now)
  then show ?thesis
    using assms
    by (cases "map_of (tk_cache t) k") (simp_all add: token_step_def tokens_ok_def gc_cache split: if_splits)
qed

definition mints :: "bytes \<Rightarrow> token_call list \<Rightarrow> bool" where
  "mints k cs \<longleftrightarrow> (\<exists>now user ttl. Mint now k user ttl \<in> set cs)"

lemma history_cache:
  assumes "map_of (tk_cache (foldl (token_step E T) t cs)) k = Some e" "tokens_ok t"
  shows "map_of (tk_cache t) k = Some e \<or>
     (\<exists>now ttl. Mint now k (te_user e) ttl \<in> set cs \<and> te_expires_at e = saturating_add now ttl)"
  using assms
proof (induction cs arbitrary: t)
  case (Cons c cs)
  from Cons.IH [OF Cons.prems(1) [unfolded foldl_Cons] token_step_ok [OF Cons.prems(2)]]
  show ?case using token_step_cache [of E T t c k e] Cons.prems(2) by auto
qed simp

lemma history_ok: "tokens_ok t \<Longrightarrow> tokens_ok (foldl (token_step E T) t cs)"
  by (induction cs arbitrary: t) (simp_all add: token_step_ok)

end
