(* ===== verification/Auth.thy ===== *)
theory Auth
  imports Tokens
begin

text \<open>
  heather_server/src/auth.rs: the check that every request passes. The header is the value of
  \<open>Authorization\<close> where it is visible ASCII; base64 is a parameter; \<open>visibility\<close> stands for the
  audit setting of a database that the server has open. Passing a request on to its handler
  is \<open>Passed\<close>. The handlers of \<open>/auth/token\<close> (tokens.rs) are here as well.
\<close>

datatype AuthKind = Basic | Bearer

record AuthedUser =
  ad_user :: User
  ad_kind :: AuthKind
  ad_token :: "bytes option"

record 'd auth =
  as_users :: 'd
  as_tokens :: "'d Tokens option"
  as_disabled :: bool

datatype verdict = Passed "AuthedUser option" | Denied401 string | Denied403 User bytes

section \<open>Headers and routes\<close>

definition is_unauth_route :: "bytes \<Rightarrow> bool" where
  "is_unauth_route path \<longleftrightarrow> path \<in> set (map ascii [''/health'', ''/healthz'', ''/ready'', ''/readyz''])"

text \<open>\<open>split_once\<close> at a byte.\<close>

definition split_once :: "u8 \<Rightarrow> bytes \<Rightarrow> (bytes \<times> bytes) option" where
  "split_once c s =
     (if c \<in> set s then Some (takeWhile (\<lambda>b. b \<noteq> c) s, tl (dropWhile (\<lambda>b. b \<noteq> c) s)) else None)"

definition audit_route_db :: "bytes \<Rightarrow> bytes option" where
  "audit_route_db path =
     (case strip_prefix (ascii ''/db/'') path of
        None \<Rightarrow> None
      | Some rest \<Rightarrow>
         (case split_once slash rest of
            None \<Rightarrow> None
          | Some (db, tail) \<Rightarrow> if tail = ascii ''audit'' then Some db else None))"

definition is_space :: "u8 \<Rightarrow> bool" where
  "is_space b \<longleftrightarrow> 9 \<le> b \<and> b \<le> 13 \<or> b = 32"

definition trim :: "bytes \<Rightarrow> bytes" where
  "trim s = rev (dropWhile is_space (rev (dropWhile is_space s)))"

record BasicCreds =
  bc_user :: bytes
  bc_password :: bytes

definition parse_basic :: "(bytes \<Rightarrow> bytes option) \<Rightarrow> bytes \<Rightarrow> BasicCreds option" where
  "parse_basic b64 header_value =
     (case strip_prefix (ascii ''Basic '') header_value of
        None \<Rightarrow> None
      | Some token \<Rightarrow>
         (case b64 (trim token) of
            None \<Rightarrow> None
          | Some raw \<Rightarrow>
             if \<not> utf8_valid raw then None
             else (case split_once 58 raw of
                     None \<Rightarrow> None
                   | Some (u, p) \<Rightarrow> Some \<lparr>bc_user = u, bc_password = p\<rparr>)))"

section \<open>The middleware\<close>

definition bearer ::
  "'d system \<Rightarrow> crypto \<Rightarrow> u64 \<Rightarrow> u64 \<Rightarrow> bytes \<Rightarrow> 'd auth \<Rightarrow> (string + AuthedUser) \<times> 'd auth" where
  "bearer E C now now' tok a =
     (case as_tokens a of
        None \<Rightarrow> (Inl ''invalid or expired bearer token'', a)
      | Some t \<Rightarrow>
         let (r, t) = Tokens_verify E now now' tok t; a = a\<lparr>as_tokens := Some t\<rparr> in
         (case r of
            None \<Rightarrow> (Inl ''invalid or expired bearer token'', a)
          | Some (issued, _) \<Rightarrow>
             (case users_get E C (as_users a) (us_name issued) of
                Some current \<Rightarrow>
                  if us_password_hash current = us_password_hash issued \<and>
                     us_created_at current = us_created_at issued \<and> us_scope current = us_scope issued
                  then (Inr \<lparr>ad_user = current, ad_kind = Bearer, ad_token = Some tok\<rparr>, a)
                  else (Inl ''bearer token user was deleted or credentials changed'', a)
              | None \<Rightarrow> (Inl ''bearer token user was deleted or credentials changed'', a))))"

definition basic :: "'d system \<Rightarrow> crypto \<Rightarrow> (bytes \<Rightarrow> bytes option) \<Rightarrow> bytes \<Rightarrow> 'd auth \<Rightarrow> string + AuthedUser" where
  "basic E C b64 h a =
     (case parse_basic b64 h of
        None \<Rightarrow> Inl ''malformed Basic credentials''
      | Some c \<Rightarrow>
         (case users_verify E C (as_users a) (bc_user c) (bc_password c) of
            Some u \<Rightarrow> Inr \<lparr>ad_user = u, ad_kind = Basic, ad_token = None\<rparr>
          | None \<Rightarrow> Inl ''invalid credentials''))"

definition identify ::
  "'d system \<Rightarrow> crypto \<Rightarrow> (bytes \<Rightarrow> bytes option) \<Rightarrow> u64 \<Rightarrow> u64 \<Rightarrow> bytes option \<Rightarrow> 'd auth \<Rightarrow>
   (string + AuthedUser) \<times> 'd auth" where
  "identify E C b64 now now' header a =
     (case header of
        None \<Rightarrow> (Inl ''missing or malformed Authorization header'', a)
      | Some h \<Rightarrow>
         (case strip_prefix (ascii ''Bearer '') h of
            Some rest \<Rightarrow> bearer E C now now' (trim rest) a
          | None \<Rightarrow>
              if prefix (ascii ''Basic '') h then (basic E C b64 h a, a)
              else (Inl ''missing or malformed Authorization header'', a)))"

definition middleware ::
  "'d system \<Rightarrow> crypto \<Rightarrow> (bytes \<Rightarrow> bytes option) \<Rightarrow> (bytes \<Rightarrow> AuditVisibility option) \<Rightarrow> u64 \<Rightarrow> u64 \<Rightarrow>
   bytes \<Rightarrow> bytes option \<Rightarrow> 'd auth \<Rightarrow> verdict \<times> 'd auth" where
  "middleware E C b64 visibility now now' path header a =
     (if as_disabled a \<or> is_unauth_route path then (Passed None, a)
      else let (r, a) = identify E C b64 now now' header a in
        (case r of
           Inl m \<Rightarrow> (Denied401 m, a)
         | Inr authed \<Rightarrow>
            let audit_visibility = Option.bind (audit_route_db path) visibility
            in if \<not> prefix (ascii ''/auth/'') path \<and>
                  \<not> is_authorized (us_scope (ad_user authed)) path audit_visibility
               then (Denied403 (ad_user authed) path, a)
               else (Passed (Some authed), a)))"

section \<open>The token endpoints\<close>

definition TOKEN_TTL :: u64 where
  "TOKEN_TTL = 3600"

datatype token_reply = Forbidden | Minted bytes u64 | Revoked bool | NoToken

definition mint_handler ::
  "'d system \<Rightarrow> token_codec \<Rightarrow> u64 \<Rightarrow> bytes \<Rightarrow> AuthedUser \<Rightarrow> 'd Tokens \<Rightarrow> token_reply \<times> 'd Tokens" where
  "mint_handler E T now token authed t =
     (if ad_kind authed = Bearer then (Forbidden, t)
      else let ((tok, expires_at), t) = Tokens_mint E T now token (ad_user authed) TOKEN_TTL t
           in (Minted tok expires_at, t))"

definition revoke_handler :: "'d system \<Rightarrow> AuthedUser \<Rightarrow> 'd Tokens \<Rightarrow> token_reply \<times> 'd Tokens" where
  "revoke_handler E authed t =
     (case ad_token authed of
        Some tok \<Rightarrow> (let (b, t) = Tokens_revoke E tok t in (Revoked b, t))
      | None \<Rightarrow> (NoToken, t))"

text \<open>The account made at the first boot; \<open>password\<close> is the given or the generated one.\<close>

definition bootstrap_admin_if_needed ::
  "'d system \<Rightarrow> crypto \<Rightarrow> u64 \<Rightarrow> bytes \<Rightarrow> nat list \<Rightarrow> bytes \<Rightarrow> bytes option \<Rightarrow> 'd \<Rightarrow> message + 'd" where
  "bootstrap_admin_if_needed E C now salt picks user_name explicit_password d =
     (if \<not> users_is_empty E d then Inr d
      else let password = (case explicit_password of
                 Some p \<Rightarrow> if p \<noteq> [] then p else generate_password picks
               | None \<Rightarrow> generate_password picks)
           in ebind (users_create E C now salt user_name password Root d) (\<lambda>(_, d). Inr d))"

section \<open>What passing a request takes\<close>

lemma strip_prefix_Some: "strip_prefix p s = Some r \<longleftrightarrow> s = p @ r"
  by (auto simp: strip_prefix_def prefix_def)

lemma users_get_view:
  assumes "system_ok E view" "users_get E C d n = Some u"
  shows "\<exists>raw. view d n = Some raw \<and> cr_de_user C raw = Inr u"
proof -
  obtain t raw where t: "sy_read_txn E d = Inr t" "sy_get E t n = Inr (Some raw)" "cr_de_user C raw = Inr u"
    using assms(2) by (auto simp: users_get_def ebind_Inr split: sum.splits option.splits)
  then show ?thesis using system_okD(2,4) [OF assms(1)] by metis
qed

lemma users_verify_view:
  assumes "system_ok E view" "users_verify E C d n p = Some u"
  shows "(\<exists>raw. view d n = Some raw \<and> cr_de_user C raw = Inr u) \<and> cr_check C p (us_password_hash u)"
proof -
  obtain t raw where t: "sy_read_txn E d = Inr t" "sy_get E t n = Inr (Some raw)" "cr_de_user C raw = Inr u"
    "cr_check C p (us_password_hash u)"
    using assms(2)
    by (auto simp: users_verify_def Let_def split: sum.splits option.splits if_splits prod.splits)
  then show ?thesis using system_okD(2,4) [OF assms(1)] by metis
qed

lemma users_put_get:
  assumes E: "system_ok E view" and C: "crypto_ok C" and p: "put_user E C d u = Inr d'"
  shows "\<exists>raw. view d' (us_name u) = Some raw \<and> cr_de_user C raw = Inr u"
    "n \<noteq> us_name u \<Longrightarrow> view d' n = view d n"
proof -
  obtain b where b: "cr_ser_user C u = Inr b" "sy_put E d (us_name u) b = Inr d'"
    using p by (auto simp: put_user_def ebind_Inr)
  have "cr_de_user C b = Inr u" using C b(1) by (simp add: crypto_ok_def)
  then show "\<exists>raw. view d' (us_name u) = Some raw \<and> cr_de_user C raw = Inr u"
    "n \<noteq> us_name u \<Longrightarrow> view d' n = view d n"
    using system_okD(5) [OF E b(2)] by simp_all
qed

lemma users_set_password_view:
  assumes E: "system_ok E view" and C: "crypto_ok C" and p: "users_set_password E C salt n pw d = Inr d'"
    and named: "\<And>raw u. view d n = Some raw \<Longrightarrow> cr_de_user C raw = Inr u \<Longrightarrow> us_name u = n"
  shows "\<exists>raw u. view d' n = Some raw \<and> cr_de_user C raw = Inr u \<and> cr_hash C pw salt = Inr (us_password_hash u)"
proof -
  obtain h txn raw u t2 where s: "cr_hash C pw salt = Inr h" "sy_write_txn E d = Inr txn" "sy_get E txn n = Inr (Some raw)"
    "cr_de_user C raw = Inr u" "put_user E C txn (u\<lparr>us_password_hash := h\<rparr>) = Inr t2" "sy_commit E t2 = Inr d'"
    using p by (auto simp: users_set_password_def ebind_Inr split: if_splits option.splits)
  have "txn = d" "d' = t2" using system_okD(1,3) [OF E] s(2,6) by simp_all
  moreover have "us_name u = n" using named s(3,4) system_okD(4) [OF E] calculation(1) by metis
  ultimately show ?thesis using users_put_get(1) [OF E C s(5)] s(1) by force
qed

lemma users_delete_view:
  assumes E: "system_ok E view" and p: "users_delete E n d = Inr (b, d')"
  shows "view d' = (view d)(n := None)" "b \<longleftrightarrow> view d n \<noteq> None"
proof -
  obtain txn t2 where s: "sy_write_txn E d = Inr txn" "sy_delete E txn n = Inr (b, t2)" "sy_commit E t2 = Inr d'"
    using p by (auto simp: users_delete_def ebind_Inr)
  have "txn = d" "d' = t2" using system_okD(1,3) [OF E] s(1,3) by simp_all
  then show "view d' = (view d)(n := None)" "b \<longleftrightarrow> view d n \<noteq> None"
    using system_okD(6,7) [OF E s(2)] by simp_all
qed

text \<open>A token is worth what the current record of its user says.\<close>

lemma bearer_refused:
  assumes E: "system_ok E view"
    and stale: "\<And>t e raw u. as_tokens a = Some t \<Longrightarrow> map_of (tk_cache t) tok = Some e \<Longrightarrow>
      view (as_users a) (us_name (te_user e)) = Some raw \<Longrightarrow> cr_de_user C raw = Inr u \<Longrightarrow>
      us_password_hash u \<noteq> us_password_hash (te_user e)"
  shows "\<exists>m. fst (bearer E C now now' tok a) = Inl m"
proof (rule ccontr)
  assume "\<not> ?thesis"
  then obtain who where "fst (bearer E C now now' tok a) = Inr who" by (cases "fst (bearer E C now now' tok a)") auto
  then obtain t e u where t: "as_tokens a = Some t" "map_of (tk_cache t) tok = Some e"
    "users_get E C (as_users a) (us_name (te_user e)) = Some u" "us_password_hash u = us_password_hash (te_user e)"
    by (auto simp: bearer_def Tokens_verify_def Let_def split: option.splits if_splits prod.splits)
  then show False using users_get_view [OF E t(3)] stale by blast
qed

lemma middleware_passed:
  assumes "middleware E C b64 visibility now now' path header a = (Passed who, a')"
    "\<not> as_disabled a" "\<not> is_unauth_route path"
  obtains authed where "who = Some authed" "fst (identify E C b64 now now' header a) = Inr authed"
    "prefix (ascii ''/auth/'') path \<or>
     is_authorized (us_scope (ad_user authed)) path (Option.bind (audit_route_db path) visibility)"
  using assms by (auto simp: middleware_def Let_def split: sum.splits prod.splits if_splits)

section \<open>For the witnesses\<close>

definition list_system :: "(bytes \<times> bytes) list system" where
  "list_system = \<lparr>sy_write_txn = Inr, sy_read_txn = Inr, sy_commit = Inr, sy_get = (\<lambda>d k. Inr (map_of d k)),
     sy_put = (\<lambda>d k v. Inr ((k, v) # filter (\<lambda>e. fst e \<noteq> k) d)),
     sy_delete = (\<lambda>d k. Inr (map_of d k \<noteq> None, filter (\<lambda>e. fst e \<noteq> k) d)),
     sy_iter = (\<lambda>d. Inr (map (\<lambda>k. Inr (k, the (map_of d k))) (remdups (map fst d)))),
     sy_is_empty = (\<lambda>d. Inr (d = []))\<rparr>"

lemma list_system_ok: "system_ok list_system map_of"
proof -
  have "k \<in> fst ` set d \<longleftrightarrow> map_of d k \<noteq> None" for d :: "(bytes \<times> bytes) list" and k
    by (simp add: map_of_eq_None_iff)
  then show ?thesis
    by (auto simp: system_ok_def list_system_def map_of_filter_key image_iff)
qed

definition alice :: User where
  "alice = \<lparr>us_name = ascii ''alice'', us_password_hash = ascii ''hunter22'', us_scope = Root, us_created_at = 5\<rparr>"

lemma alice_fields [simp]:
  "us_name alice = ascii ''alice''" "us_scope alice = Root" "us_password_hash alice = ascii ''hunter22''"
  by (simp_all add: alice_def)

text \<open>A hash that keeps the password as it is, and a serializer that knows alice with two passwords.\<close>

definition plain_crypto :: crypto where
  "plain_crypto = \<lparr>cr_hash = (\<lambda>p salt. Inr p), cr_parse = (\<lambda>_. True), cr_check = (\<lambda>p h. p = h),
     cr_ser_user = (\<lambda>u. if u = alice then Inr [1]
       else if u = alice\<lparr>us_password_hash := ascii ''correct horse''\<rparr> then Inr [2] else Inl (msg ''unknown'')),
     cr_de_user = (\<lambda>b. if b = [1] then Inr alice
       else if b = [2] then Inr (alice\<lparr>us_password_hash := ascii ''correct horse''\<rparr>) else Inl (msg ''unknown''))\<rparr>"

lemma plain_crypto_ok: "crypto_ok plain_crypto"
  by (simp add: crypto_ok_def plain_crypto_def)

definition one_entry :: TokenEntry where
  "one_entry = \<lparr>te_user = alice, te_expires_at = 3605\<rparr>"

definition one_codec :: token_codec where
  "one_codec = \<lparr>tc_ser = (\<lambda>e. if e = one_entry then Inr [7] else Inl (msg ''unknown'')),
     tc_de = (\<lambda>b. if b = [7] then Inr one_entry else Inl (msg ''unknown''))\<rparr>"

definition alice_auth :: "(bytes \<times> bytes) list auth" where
  "alice_auth = \<lparr>as_users = [(ascii ''alice'', [1])],
     as_tokens = Some \<lparr>tk_db = [(ascii ''T'', [7])], tk_cache = [(ascii ''T'', one_entry)]\<rparr>, as_disabled = False\<rparr>"

section \<open>Properties\<close>

text \<open>C33: Nothing passes without credentials: unless authentication is off or the route is a health
  check, a request that reaches its handler carries the name and password of a stored account,
  or a token that is in the cache, has not expired and was issued to an account that still has
  the same password hash, creation time and scope; and outside \<open>/auth/\<close> that account's scope
  permits the path.\<close>

theorem requests_need_current_credentials:
  assumes "system_ok E view" "\<not> as_disabled a" "\<not> is_unauth_route path"
    and "middleware E C b64 visibility now now' path header a = (Passed who, a')"
  shows "\<exists>u kind token n raw. who = Some \<lparr>ad_user = u, ad_kind = kind, ad_token = token\<rparr> \<and>
     view (as_users a) n = Some raw \<and> cr_de_user C raw = Inr u \<and>
     (kind = Basic \<and> (\<exists>h c. header = Some h \<and> parse_basic b64 h = Some c \<and> n = bc_user c \<and>
        cr_check C (bc_password c) (us_password_hash u)) \<or>
      kind = Bearer \<and> (\<exists>t tok e. as_tokens a = Some t \<and> token = Some tok \<and> map_of (tk_cache t) tok = Some e \<and>
        now < te_expires_at e \<and> n = us_name (te_user e) \<and> us_password_hash u = us_password_hash (te_user e) \<and>
        us_created_at u = us_created_at (te_user e) \<and> us_scope u = us_scope (te_user e))) \<and>
     (prefix (ascii ''/auth/'') path \<or>
      is_authorized (us_scope u) path (Option.bind (audit_route_db path) visibility))"
proof -
  obtain authed where a: "who = Some authed" "fst (identify E C b64 now now' header a) = Inr authed"
    "prefix (ascii ''/auth/'') path \<or>
     is_authorized (us_scope (ad_user authed)) path (Option.bind (audit_route_db path) visibility)"
    using middleware_passed [OF assms(4,2,3)] .
  obtain h where h: "header = Some h" using a(2) by (auto simp: identify_def split: option.splits)
  show ?thesis
  proof (cases "strip_prefix (ascii ''Bearer '') h")
    case (Some rest)
    then obtain t e u where t: "as_tokens a = Some t" "map_of (tk_cache t) (trim rest) = Some e" "now < te_expires_at e"
      "users_get E C (as_users a) (us_name (te_user e)) = Some u" "us_password_hash u = us_password_hash (te_user e)"
      "us_created_at u = us_created_at (te_user e)" "us_scope u = us_scope (te_user e)"
      "authed = \<lparr>ad_user = u, ad_kind = Bearer, ad_token = Some (trim rest)\<rparr>"
      using a(2) h
      by (auto simp: identify_def bearer_def Tokens_verify_def Let_def split: option.splits if_splits prod.splits)
    then show ?thesis using users_get_view [OF assms(1) t(4)] a(1,3) by auto
  next
    case None
    then obtain c u where c: "parse_basic b64 h = Some c"
      "users_verify E C (as_users a) (bc_user c) (bc_password c) = Some u"
      "authed = \<lparr>ad_user = u, ad_kind = Basic, ad_token = None\<rparr>"
      using a(2) h by (auto simp: identify_def basic_def split: option.splits if_splits)
    then show ?thesis using users_verify_view [OF assms(1) c(2)] a(1,3) h by auto
  qed
qed

theorem requests_need_current_credentials_witness:
  "\<exists>who a. middleware list_system plain_crypto (\<lambda>_. None) (\<lambda>_. None) 10 10 (ascii ''/db/x'')
       (Some (ascii ''Bearer T'')) alice_auth = (Passed (Some who), a) \<and> us_name (ad_user who) = ascii ''alice''"
proof -
  have trimmed: "trim (ascii ''T'') = ascii ''T''" "strip_prefix (ascii ''Bearer '') (ascii ''Bearer T'') = Some (ascii ''T'')"
    by code_simp+
  have route: "\<not> is_unauth_route (ascii ''/db/x'')" by code_simp
  have run: "middleware list_system plain_crypto (\<lambda>_. None) (\<lambda>_. None) 10 10 (ascii ''/db/x'')
       (Some (ascii ''Bearer T'')) alice_auth =
     (Passed (Some \<lparr>ad_user = alice, ad_kind = Bearer, ad_token = Some (ascii ''T'')\<rparr>), alice_auth)"
    using route
    by (simp add: middleware_def identify_def trimmed bearer_def alice_auth_def Tokens_verify_def one_entry_def alice_fields
        users_get_def list_system_def plain_crypto_def is_authorized_def)
  have "\<not> as_disabled alice_auth" by (simp add: alice_auth_def)
  from requests_need_current_credentials [OF list_system_ok this route run]
  obtain u kind token n raw where "\<lparr>ad_user = alice, ad_kind = Bearer, ad_token = Some (ascii ''T'')\<rparr> =
      \<lparr>ad_user = u, ad_kind = kind, ad_token = token\<rparr>" "map_of (as_users alice_auth) n = Some raw"
      "cr_de_user plain_crypto raw = Inr u" by auto
  then show ?thesis using run by (auto simp: alice_fields)
qed

text \<open>C34: A database user stays in its database: a path below \<open>/db/\<close> is open to an account of scope
  \<open>n\<close> only if its first segment is \<open>n\<close>, and the audit log below it only if the database's policy
  says so; the older routes without a database are open to the default database's accounts alone.\<close>

theorem database_scope_is_confined:
  assumes "is_authorized (Database n) path visibility"
  shows "(\<exists>rest. path = ascii ''/db/'' @ n @ rest \<and> (rest = [] \<or> hd rest = slash) \<and>
       (rest \<noteq> [] \<and> segment (tl rest) = ascii ''audit'' \<longrightarrow> visibility = Some VisDbUsers)) \<or>
     n = ascii ''default'' \<and> \<not> prefix (ascii ''/db/'') path \<and>
       (prefix (ascii ''/collections'') path \<or> prefix (ascii ''/algebra'') path \<or> prefix (ascii ''/compose'') path)"
proof (cases "strip_prefix (ascii ''/db/'') path")
  case None
  then have "\<not> prefix (ascii ''/db/'') path" by (auto simp: strip_prefix_def split: if_splits)
  then show ?thesis using assms None by (auto simp: is_authorized_def split: if_splits)
next
  case (Some r)
  define rest where "rest = dropWhile (\<lambda>c. c \<noteq> slash) r"
  have r: "r = segment r @ rest" and path: "path = ascii ''/db/'' @ r"
    using Some by (simp_all add: segment_def rest_def strip_prefix_Some)
  have start: "rest = [] \<or> hd rest = slash"
    using hd_dropWhile [of "\<lambda>c. c \<noteq> slash" r] by (auto simp: rest_def)
  have dropped: "drop (length (segment r)) r = rest"
    by (metis r append_eq_conv_conj)
  have n: "segment r = n" "\<not> (is_policy_gated_db_route rest \<and> visibility \<noteq> Some VisDbUsers)"
    using assms Some dropped by (auto simp: is_authorized_def Let_def split: if_splits)
  have "is_policy_gated_db_route rest" if "rest \<noteq> []" "segment (tl rest) = ascii ''audit''"
    using that start by (cases rest) (simp_all add: is_policy_gated_db_route_def strip_prefix_def)
  then show ?thesis using n start path r by (intro disjI1 exI [of _ rest]) auto
qed

theorem database_scope_is_confined_witness:
  "is_authorized (Database (ascii ''memoria'')) (ascii ''/db/memoria/stats'') None \<and>
   (\<exists>rest. ascii ''/db/memoria/stats'' = ascii ''/db/'' @ ascii ''memoria'' @ rest \<and> hd rest = slash) \<and>
   \<not> is_authorized (Database (ascii ''memo'')) (ascii ''/db/memoria/stats'') None \<and>
   \<not> is_authorized (Database (ascii ''memoria'')) (ascii ''/db/memoria/audit'') (Some VisRoot)"
proof -
  have own: "is_authorized (Database (ascii ''memoria'')) (ascii ''/db/memoria/stats'') None"
    and names: "ascii ''memoria'' \<noteq> ascii ''default''" "ascii ''memo'' \<noteq> ascii ''default''"
      "ascii ''/db/memoria/stats'' \<noteq> ascii ''/db/'' @ ascii ''memoria''"
    and apart: "ascii ''/db/memoria/stats'' = ascii ''/db/'' @ ascii ''memo'' @ rest \<Longrightarrow> rest \<noteq> [] \<and> hd rest \<noteq> slash"
      "ascii ''/db/memoria/audit'' = ascii ''/db/'' @ ascii ''memoria'' @ rest \<Longrightarrow>
         rest \<noteq> [] \<and> segment (tl rest) = ascii ''audit''" for rest
    by (code_simp | force simp: ascii_def segment_def)+
  then show ?thesis
    using database_scope_is_confined [OF own]
      database_scope_is_confined [of "ascii ''memo''" "ascii ''/db/memoria/stats''" None]
      database_scope_is_confined [of "ascii ''memoria''" "ascii ''/db/memoria/audit''" "Some VisRoot"]
    by auto
qed

text \<open>C35: A token that was revoked stays revoked while the server runs: after any further minting of
  other tokens, checks, revocations and collections, and at any time, it is refused.\<close>

theorem revoked_token_stays_revoked:
  assumes "tokens_ok t" "\<not> mints k cs"
  shows "fst (Tokens_verify E now now' k (foldl (token_step E T) (snd (Tokens_revoke E k t)) cs)) = None"
proof -
  have "map_of (tk_cache (snd (Tokens_revoke E k t))) k = None" by (simp add: Tokens_revoke_def)
  then have "map_of (tk_cache (foldl (token_step E T) (snd (Tokens_revoke E k t)) cs)) k = None"
    using history_cache [where t = "snd (Tokens_revoke E k t)"] tokens_ok_ops(3) [OF assms(1)] assms(2)
    by (metis mints_def option.exhaust option.distinct(1))
  then show ?thesis by (simp add: Tokens_verify_def)
qed

theorem revoked_token_stays_revoked_witness:
  "let t = the (as_tokens alice_auth) in
     fst (Tokens_verify list_system 9 9 (ascii ''T'') t) \<noteq> None \<and>
     fst (Tokens_verify list_system 9 9 (ascii ''T'') (foldl (token_step list_system one_codec)
       (snd (Tokens_revoke list_system (ascii ''T'') t)) [Mint 8 [8] alice 60, Collect 9])) = None"
proof -
  have t: "ascii ''T'' \<noteq> [8]" by code_simp
  have "tokens_ok (the (as_tokens alice_auth))" "\<not> mints (ascii ''T'') [Mint 8 [8] alice 60, Collect 9]"
    using t by (simp_all add: tokens_ok_def alice_auth_def mints_def)
  from revoked_token_stays_revoked [OF this] show ?thesis
    by (simp add: Let_def Tokens_verify_def alice_auth_def one_entry_def)
qed

text \<open>C36: Changing the password or deleting the account ends its sessions: a token that was issued
  under another password hash is refused from then on, whatever its expiry.\<close>

theorem password_change_ends_sessions:
  assumes "system_ok E view" "crypto_ok C"
    and "\<And>raw u. view d n = Some raw \<Longrightarrow> cr_de_user C raw = Inr u \<Longrightarrow> us_name u = n"
    and "users_set_password E C salt n pw d = Inr d' \<or> users_delete E n d = Inr (b, d')"
    and "as_tokens a = Some t" "map_of (tk_cache t) tok = Some e" "us_name (te_user e) = n"
    and "cr_hash C pw salt \<noteq> Inr (us_password_hash (te_user e))"
  shows "\<exists>m. fst (bearer E C now now' tok (a\<lparr>as_users := d'\<rparr>)) = Inl m"
proof (rule bearer_refused [OF assms(1)])
  fix t' e' raw u
  assume h: "as_tokens (a\<lparr>as_users := d'\<rparr>) = Some t'" "map_of (tk_cache t') tok = Some e'"
    "view (as_users (a\<lparr>as_users := d'\<rparr>)) (us_name (te_user e')) = Some raw" "cr_de_user C raw = Inr u"
  then have e': "e' = e" and raw: "view d' n = Some raw" using assms(5-7) by auto
  from assms(4) show "us_password_hash u \<noteq> us_password_hash (te_user e')"
  proof
    assume "users_set_password E C salt n pw d = Inr d'"
    from users_set_password_view [OF assms(1,2) this assms(3)] show ?thesis
      using raw h(4) assms(8) e' by auto
  next
    assume "users_delete E n d = Inr (b, d')"
    from users_delete_view(1) [OF assms(1) this] show ?thesis using raw by simp
  qed
qed

theorem password_change_ends_sessions_witness:
  "\<exists>d m. users_set_password list_system plain_crypto [] (ascii ''alice'') (ascii ''correct horse'') (as_users alice_auth) = Inr d \<and>
     fst (bearer list_system plain_crypto 10 10 (ascii ''T'') (alice_auth\<lparr>as_users := d\<rparr>)) = Inl m"
proof -
  have other: "ascii ''correct horse'' \<noteq> ascii ''hunter22''" "\<not> length (ascii ''correct horse'') < 8" by code_simp+
  then obtain d where d: "users_set_password list_system plain_crypto [] (ascii ''alice'') (ascii ''correct horse'')
      (as_users alice_auth) = Inr d"
    by (auto simp: users_set_password_def list_system_def plain_crypto_def alice_auth_def put_user_def alice_def)
  have "\<exists>m. fst (bearer list_system plain_crypto 10 10 (ascii ''T'') (alice_auth\<lparr>as_users := d\<rparr>)) = Inl m"
    by (rule password_change_ends_sessions [OF list_system_ok plain_crypto_ok _ disjI1 [OF d]])
      (use other in \<open>auto simp: alice_auth_def plain_crypto_def one_entry_def alice_def\<close>)
  with d show ?thesis by blast
qed

text \<open>A revocation that cannot be written is lost: the caller is told that the token was
  revoked, the failure is dropped, and after a restart the token is accepted again.\<close>

lemma failed_revocation_is_undone_by_a_restart:
  assumes "sy_write_txn E (tk_db t) = Inl m" "map_of (tk_cache t) k = Some e0"
    and "Tokens_revoke E k t = (revoked, t')"
    and "system_ok E' view" "sy_iter E' (tk_db t) = Inr (map Inr entries)" "distinct (map fst entries)"
    and "(k, raw) \<in> set entries" "tc_de T raw = Inr e" "now < te_expires_at e"
    and "Tokens_load E' T now (tk_db t') = Inr t''"
  shows "revoked \<and> fst (Tokens_verify E' now now' k t'') = Some (te_user e, te_expires_at e)"
proof -
  have t': "revoked" "tk_db t' = tk_db t"
    using assms(1-3) by (auto simp: Tokens_revoke_def remove_persisted_def or_same_def)
  have "\<exists>rtxn. sy_read_txn E' (tk_db t) = Inr rtxn" using assms(10) t'(2) by (auto simp: Tokens_load_def ebind_Inr)
  then have "sy_read_txn E' (tk_db t) = Inr (tk_db t)" using system_okD(2) [OF assms(4)] by fastforce
  then have "tk_cache t'' = foldl (\<lambda>c kv. case live now T kv of Some (k, te) \<Rightarrow> cache_insert k te c | None \<Rightarrow> c) [] entries"
    using assms(5,10) t'(2) by (auto simp: Tokens_load_def Let_def ebind_Inr split: if_splits)
  moreover have "live now T (k, raw) = Some (k, e)" using assms(8,9) by (simp add: live_def)
  ultimately have "map_of (tk_cache t'') k = Some e" using load_cache [OF assms(6,7)] by simp
  then show ?thesis using t'(1) assms(9) by (simp add: Tokens_verify_def)
qed

end
