(* ===== verification/Algebra.thy ===== *)
theory Algebra
  imports Merge Results
begin

text \<open>
  heather_algebra: snapshots of a memory (snapshot.rs), their sum, difference, scaling and
  intersection (ops.rs), consolidation (consolidate.rs), the operators (traits.rs), the error
  type (error.rs), and the estimate by which heather_server/src/limits.rs bounds them.
  Rows computed in parallel are read as the list of their results.
\<close>

section \<open>Errors and snapshots\<close>

datatype AlgebraError =
    AlgDimension nat nat   \<comment> \<open>left, right\<close>
  | EmptySnapshot
  | EmptyBundle
  | InvalidScalar message
  | ComposeFailed message
  | Db herror

datatype afault = Alg AlgebraError | Crash

type_synonym 'a ares = "afault + 'a"

text \<open>An error of the engine, passed on by \<open>map_err\<close>.\<close>

definition of_db :: "'a res \<Rightarrow> 'a ares" where
  "of_db r = (case r of Inr x \<Rightarrow> Inr x | Inl (Error e) \<Rightarrow> Inl (Alg (Db e)) | Inl Panic \<Rightarrow> Inl Crash)"

record EAMSnapshot =
  sn_locations :: "HardLocation list"
  sn_config :: EAMConfig

definition sn_dim :: "EAMSnapshot \<Rightarrow> nat" where
  "sn_dim s = cfg_d (sn_config s)"

definition sn_num_locations :: "EAMSnapshot \<Rightarrow> nat" where
  "sn_num_locations s = length (sn_locations s)"

definition check_location :: "EAMConfig \<Rightarrow> HardLocation \<Rightarrow> unit ares" where
  "check_location c l =
     eensure (length (loc_address l) = cfg_d c \<and> length (loc_counter l) = cfg_d c)
       (Alg (AlgDimension (cfg_d c) (length (loc_address l))))"

definition EAMSnapshot_new :: "HardLocation list \<Rightarrow> EAMConfig \<Rightarrow> EAMSnapshot ares" where
  "EAMSnapshot_new locations c =
     ebind (emap (check_location c) locations) (\<lambda>_. Inr \<lparr>sn_locations = locations, sn_config = c\<rparr>)"

definition reindex :: "EAMSnapshot \<Rightarrow> EAMSnapshot" where
  "reindex s =
     s\<lparr>sn_locations := map (\<lambda>(i, l). l\<lparr>loc_id := of_nat i\<rparr>)
         (zip [0..<length (sn_locations s)] (sn_locations s))\<rparr>"

definition consolidate :: "libm \<Rightarrow> projected \<Rightarrow> EAMSnapshot \<Rightarrow> EAMSnapshot" where
  "consolidate L P s = reindex (s\<lparr>sn_locations := snd (knn_merge L P (sn_locations s) (sn_config s))\<rparr>)"

definition alg_check_dims :: "EAMSnapshot \<Rightarrow> EAMSnapshot \<Rightarrow> unit ares" where
  "alg_check_dims a b = eensure (sn_dim a = sn_dim b) (Alg (AlgDimension (sn_dim a) (sn_dim b)))"

section \<open>Sum and difference\<close>

definition extract_patterns :: "EAMSnapshot \<Rightarrow> f64 list list" where
  "extract_patterns s = map normalized_pattern (sn_locations s)"

text \<open>
  The \<open>k\<close> locations of \<open>b\<close> that are most similar to an address: \<open>select_nth_unstable_by\<close>,
  \<open>truncate\<close> and \<open>sort_by\<close> with a total order leave the first \<open>k\<close> of the sorted list. (On a NaN
  the comparator is no order and the library promises nothing.)
\<close>

definition cross_before :: "nat \<times> f64 \<Rightarrow> nat \<times> f64 \<Rightarrow> bool" where
  "cross_before x y \<longleftrightarrow> snd y < snd x \<or> \<not> snd x < snd y \<and> fst x < fst y"

definition cross_sims :: "f64 list \<Rightarrow> HardLocation list \<Rightarrow> (nat \<times> f64) list" where
  "cross_sims addr bs =
     (let norms_b = map (\<lambda>l. l2_norm (loc_address l)) bs; na = l2_norm addr
      in map (\<lambda>(j, lb, nb). (j, if na < tiny \<or> nb < tiny then 0 else dot addr (loc_address lb) / (na * nb)))
           (zip [0..<length bs] (zip bs norms_b)))"

definition cross_partners :: "nat \<Rightarrow> HardLocation \<Rightarrow> HardLocation list \<Rightarrow> nat list" where
  "cross_partners max_cross_k la bs =
     (if max_cross_k = 0 \<or> max_cross_k \<ge> length bs then [0..<length bs]
      else map fst (take max_cross_k (sort_by cross_before (cross_sims (loc_address la) bs))))"

text \<open>The location at a combined pattern.\<close>

definition pattern_location :: "nat \<Rightarrow> f64 list \<Rightarrow> HardLocation" where
  "pattern_location i combined =
     (HardLocation_new (of_nat i) (normalize combined))\<lparr>loc_counter := combined, loc_write_count := 1\<rparr>"

definition combine_row :: "f64 \<Rightarrow> f64 list \<Rightarrow> f64 list list \<Rightarrow> nat list \<Rightarrow> f64 list list" where
  "combine_row sign pa patterns_b partners =
     List.map_filter (\<lambda>j.
       let combined = map2 (\<lambda>a b. a + sign * b) pa (patterns_b ! j)
       in if f64_dec 1 10 \<le> l2_norm combined then Some combined else None) partners"

definition pairwise_combine :: "EAMSnapshot \<Rightarrow> EAMSnapshot \<Rightarrow> f64 \<Rightarrow> nat \<Rightarrow> HardLocation list" where
  "pairwise_combine a b sign max_cross_k =
     (let patterns_b = extract_patterns b;
          rows = map (\<lambda>(la, pa). combine_row sign pa patterns_b (cross_partners max_cross_k la (sn_locations b)))
                   (zip (sn_locations a) (extract_patterns a));
          all = concat rows
      in map (\<lambda>(i, combined). pattern_location i combined) (zip [0..<length all] all))"

definition combined_snapshot :: "libm \<Rightarrow> projected \<Rightarrow> EAMSnapshot \<Rightarrow> EAMSnapshot \<Rightarrow> f64 \<Rightarrow> nat \<Rightarrow> EAMSnapshot" where
  "combined_snapshot L P a b sign k =
     consolidate L P (reindex \<lparr>sn_locations = pairwise_combine a b sign k, sn_config = sn_config a\<rparr>)"

definition add_with_limit ::
  "libm \<Rightarrow> projected \<Rightarrow> EAMSnapshot \<Rightarrow> EAMSnapshot \<Rightarrow> nat \<Rightarrow> EAMSnapshot ares" where
  "add_with_limit L P a b max_cross_k =
     ebind (alg_check_dims a b) (\<lambda>_.
     if sn_locations a = [] then Inr b
     else if sn_locations b = [] then Inr a
     else Inr (combined_snapshot L P a b 1 max_cross_k))"

definition add_snapshots :: "libm \<Rightarrow> projected \<Rightarrow> EAMSnapshot \<Rightarrow> EAMSnapshot \<Rightarrow> EAMSnapshot ares" where
  "add_snapshots L P a b = add_with_limit L P a b 0"

definition scale :: "EAMSnapshot \<Rightarrow> f64 \<Rightarrow> EAMSnapshot ares" where
  "scale a alpha =
     (if \<not> is_finite alpha then Inl (Alg (InvalidScalar (Fmt ''scalar must be finite, got {alpha}'' [X alpha])))
      else if f64_abs alpha < f64_dec 1 15 then Inl (Alg (InvalidScalar (msg ''scalar must be non-zero'')))
      else Inr (a\<lparr>sn_locations := map (\<lambda>l. l\<lparr>loc_counter := map (\<lambda>c. c * alpha) (loc_counter l)\<rparr>) (sn_locations a)\<rparr>))"

definition negate :: "EAMSnapshot \<Rightarrow> EAMSnapshot ares" where
  "negate a = scale a (- 1)"

definition sub_with_limit ::
  "libm \<Rightarrow> projected \<Rightarrow> EAMSnapshot \<Rightarrow> EAMSnapshot \<Rightarrow> nat \<Rightarrow> EAMSnapshot ares" where
  "sub_with_limit L P a b max_cross_k =
     ebind (alg_check_dims a b) (\<lambda>_.
     if sn_locations a = [] then negate b
     else if sn_locations b = [] then Inr a
     else Inr (combined_snapshot L P a b (- 1) max_cross_k))"

definition sub_snapshots :: "libm \<Rightarrow> projected \<Rightarrow> EAMSnapshot \<Rightarrow> EAMSnapshot \<Rightarrow> EAMSnapshot ares" where
  "sub_snapshots L P a b = sub_with_limit L P a b 0"

section \<open>Intersection\<close>

definition has_match :: "f64 \<Rightarrow> HardLocation list \<Rightarrow> HardLocation \<Rightarrow> bool" where
  "has_match threshold bs la =
     list_ex (\<lambda>lb. threshold < cosine_similarity (loc_address la) (loc_address lb)) bs"

definition intersect :: "EAMSnapshot \<Rightarrow> EAMSnapshot \<Rightarrow> f64 \<Rightarrow> EAMSnapshot ares" where
  "intersect a b threshold =
     ebind (alg_check_dims a b) (\<lambda>_.
     Inr (reindex \<lparr>sn_locations = filter (has_match threshold (sn_locations b)) (sn_locations a),
                   sn_config = sn_config a\<rparr>))"

section \<open>Operators\<close>

text \<open>\<open>+\<close>, \<open>-\<close>, unary \<open>-\<close> and \<open>*\<close> on snapshots panic where the operation fails.\<close>

definition expect :: "'a ares \<Rightarrow> 'a ares" where
  "expect r = (case r of Inr x \<Rightarrow> Inr x | Inl _ \<Rightarrow> Inl Crash)"

definition snapshot_add :: "libm \<Rightarrow> projected \<Rightarrow> EAMSnapshot \<Rightarrow> EAMSnapshot \<Rightarrow> EAMSnapshot ares" where
  "snapshot_add L P a b = expect (add_snapshots L P a b)"

definition snapshot_sub :: "libm \<Rightarrow> projected \<Rightarrow> EAMSnapshot \<Rightarrow> EAMSnapshot \<Rightarrow> EAMSnapshot ares" where
  "snapshot_sub L P a b = expect (sub_snapshots L P a b)"

definition snapshot_neg :: "EAMSnapshot \<Rightarrow> EAMSnapshot ares" where
  "snapshot_neg a = expect (negate a)"

definition snapshot_mul :: "EAMSnapshot \<Rightarrow> f64 \<Rightarrow> EAMSnapshot ares" where
  "snapshot_mul a x = expect (scale a x)"

section \<open>Limits of the server\<close>

record Limits =
  max_algebra_locations :: nat
  max_bulk_items :: nat
  max_batch_queries :: nat

definition Limits_default :: Limits where
  "Limits_default = \<lparr>max_algebra_locations = 250000, max_bulk_items = 100000, max_batch_queries = 1000\<rparr>"

text \<open>The process-wide cell is set once.\<close>

definition limits_init :: "Limits \<Rightarrow> Limits option \<Rightarrow> Limits option" where
  "limits_init l cell = (case cell of None \<Rightarrow> Some l | Some _ \<Rightarrow> cell)"

definition limits_get :: "Limits option \<Rightarrow> Limits" where
  "limits_get cell = (case cell of Some l \<Rightarrow> l | None \<Rightarrow> Limits_default)"

definition saturating_mul :: "nat \<Rightarrow> nat \<Rightarrow> nat" where
  "saturating_mul x y = min (x * y) (2 ^ 64 - 1)"

definition estimated_cross_locations :: "nat \<Rightarrow> nat \<Rightarrow> nat \<Rightarrow> nat" where
  "estimated_cross_locations n_a n_b max_cross_k =
     (if max_cross_k = 0 \<or> max_cross_k \<ge> n_b then saturating_mul n_a n_b else saturating_mul n_a max_cross_k)"

text \<open>\<open>check_cross_product_cap\<close> of routes.rs, on two collections whose sizes were read.\<close>

definition check_cross_product_cap :: "Limits option \<Rightarrow> nat \<Rightarrow> nat \<Rightarrow> nat \<Rightarrow> message + unit" where
  "check_cross_product_cap cell n_a n_b max_cross_k =
     (let cap = max_algebra_locations (limits_get cell) in
      if cap = 0 then Inr ()
      else let est = estimated_cross_locations n_a n_b max_cross_k
           in eensure (est \<le> cap)
                (Fmt ''algebra on {n_a} x {n_b} source locations would create ~{est} result locations, over the server cap of {cap}''
                   [N (int n_a), N (int n_b), N (int est), N (int cap)]))"

section \<open>Sizes and shapes\<close>

lemma length_reindex [simp]: "length (sn_locations (reindex s)) = length (sn_locations s)"
  by (simp add: reindex_def)

lemma reindex_config [simp]: "sn_config (reindex s) = sn_config s"
  by (simp add: reindex_def)

lemma nth_reindex:
  "i < length (sn_locations s) \<Longrightarrow>
   sn_locations (reindex s) ! i = (sn_locations s ! i)\<lparr>loc_id := of_nat i\<rparr>"
  by (simp add: reindex_def)

lemma reindex_ids: "map loc_id (sn_locations (reindex s)) = map of_nat [0..<length (sn_locations s)]"
  by (auto simp: reindex_def intro: nth_equalityI)

lemma length_cross_sims [simp]: "length (cross_sims addr bs) = length bs"
  by (simp add: cross_sims_def Let_def)

lemma length_cross_partners:
  "length (cross_partners k la bs) = (if k = 0 \<or> k \<ge> length bs then length bs else k)"
  by (simp add: cross_partners_def)

lemma cross_sims_index: "map fst (cross_sims addr bs) = [0..<length bs]"
  by (auto simp: cross_sims_def Let_def intro: nth_equalityI)

lemma cross_partners_range: "set (cross_partners k la bs) \<subseteq> {..<length bs}"
proof -
  have "fst ` set (sort_by cross_before (cross_sims (loc_address la) bs)) = {0..<length bs}"
    using arg_cong [OF cross_sims_index, of set "loc_address la" bs] by simp
  then have "fst ` set (take k (sort_by cross_before (cross_sims (loc_address la) bs))) \<subseteq> {0..<length bs}"
    by (metis image_mono set_take_subset)
  then show ?thesis by (auto simp: cross_partners_def)
qed

lemma length_map_filter_le: "length (List.map_filter f xs) \<le> length xs"
  by (induction xs) (simp_all add: List.map_filter_simps split: option.split)

lemma length_combine_row: "length (combine_row sign pa pbs ps) \<le> length ps"
  by (simp add: combine_row_def length_map_filter_le)

text \<open>The pairs that a sum, difference or product goes through.\<close>

abbreviation cross_count :: "nat \<Rightarrow> nat \<Rightarrow> nat \<Rightarrow> nat" where
  "cross_count n_a n_b k \<equiv> n_a * (if k = 0 \<or> k \<ge> n_b then n_b else k)"

lemma pairwise_combine_rows:
  "length (pairwise_combine a b sign k) \<le> cross_count (length (sn_locations a)) (length (sn_locations b)) k"
proof -
  define n where "n = (if k = 0 \<or> k \<ge> length (sn_locations b) then length (sn_locations b) else k)"
  have row: "length (combine_row sign pa (extract_patterns b) (cross_partners k la (sn_locations b))) \<le> n" for pa la
    using length_combine_row [of sign pa "extract_patterns b" "cross_partners k la (sn_locations b)"]
    by (simp only: length_cross_partners n_def)
  have "length (concat (map (\<lambda>(la, pa). combine_row sign pa (extract_patterns b)
      (cross_partners k la (sn_locations b))) xs)) \<le> length xs * n" for xs
  proof (induction xs)
    case (Cons x xs)
    show ?case using add_mono [OF row [of "snd x" "fst x"] Cons.IH] by (simp add: case_prod_beta)
  qed simp
  from this [of "zip (sn_locations a) (extract_patterns a)"] show ?thesis
    unfolding n_def [symmetric] by (simp add: pairwise_combine_def Let_def extract_patterns_def)
qed

lemma length_knn_merge: "length (snd (knn_merge L P ls c)) \<le> length ls"
proof -
  have pair: "length (ms_locations (merge_pair L c s p)) = length (ms_locations s)" for s p
    unfolding merge_pair_def Let_def by (cases p) simp
  have fold: "length (ms_locations (foldl (merge_pair L c) s ps)) = length (ms_locations s)" for s ps
    by (induction ps arbitrary: s) (simp_all add: pair)
  have kept: "length (map snd (filter (\<lambda>(m, l). \<not> m) (zip ms ls'))) \<le> length ls'"
    for ms and ls' :: "HardLocation list"
    using length_filter_le [of "\<lambda>(m, l). \<not> m" "zip ms ls'"] by simp
  show ?thesis
  proof (cases "length ls < 2")
    case False
    let ?s = "foldl (merge_pair L c) \<lparr>ms_locations = ls, ms_merged = replicate (length ls) False,
        ms_removed = [], ms_map = [], ms_count = 0\<rparr> (merge_pairs P c ls)"
    have "length (ms_locations ?s) = length ls" by (simp add: fold)
    with kept [of "ms_merged ?s" "ms_locations ?s"] False show ?thesis
      unfolding knn_merge_def Let_def by (simp only: if_False snd_conv)
  qed (simp add: knn_merge_def)
qed

lemma length_consolidate: "length (sn_locations (consolidate L P s)) \<le> length (sn_locations s)"
  using length_knn_merge [of L P "sn_locations s" "sn_config s"] by (simp add: consolidate_def)

end
