(* ===== verification/Permute.thy ===== *)
theory Permute
  imports Algebra
begin

text \<open>
  heather_algebra/src/permute.rs: permutations of coordinates, their integer powers, their cycles
  and the rotation by a real power. The shuffle of a seeded generator, SHA-256 and
  \<open>Complex::from_polar\<close> are parameters. Reading a vector at an index it does not have is a panic.
  A walk along a cycle may not end on arbitrary data, so it is a partial function.
\<close>

record Permutation =
  pm_perm :: "nat list"
  pm_inv :: "nat list"

definition pm_dim :: "Permutation \<Rightarrow> nat" where
  "pm_dim \<rho> = length (pm_perm \<rho>)"

section \<open>Construction\<close>

fun from_loop :: "nat \<Rightarrow> nat \<Rightarrow> nat list \<Rightarrow> bool list \<Rightarrow> nat list \<Rightarrow> nat list ares" where
  "from_loop d i [] seen rv = Inr rv"
| "from_loop d i (p # ps) seen rv =
     (if p \<ge> d \<or> seen ! p
      then Inl (Alg (InvalidScalar
             (Fmt ''not a valid permutation of 0..{d}: bad index {p} at position {i}'' [N (int d), N (int p), N (int i)])))
      else from_loop d (i + 1) ps (seen[p := True]) (rv[p := i]))"

definition from_indices :: "nat list \<Rightarrow> Permutation ares" where
  "from_indices perm =
     (let d = length perm
      in ebind (from_loop d 0 perm (replicate d False) (replicate d 0)) (\<lambda>rv.
         Inr \<lparr>pm_perm = perm, pm_inv = rv\<rparr>))"

text \<open>\<open>shuffle seed xs\<close>: the shuffle of \<open>xs\<close> by the generator that is seeded with \<open>seed\<close>.\<close>

definition from_seed :: "(u64 \<Rightarrow> nat list \<Rightarrow> nat list) \<Rightarrow> nat \<Rightarrow> u64 \<Rightarrow> Permutation" where
  "from_seed shuffle d seed =
     (let perm = shuffle seed [0..<d];
          rv = foldl (\<lambda>rv (i, p). rv[p := i]) (replicate d 0) (zip [0..<length perm] perm)
      in \<lparr>pm_perm = perm, pm_inv = rv\<rparr>)"

definition from_name ::
  "(u64 \<Rightarrow> nat list \<Rightarrow> nat list) \<Rightarrow> (bytes \<Rightarrow> bytes) \<Rightarrow> nat \<Rightarrow> bytes \<Rightarrow> Permutation" where
  "from_name shuffle sha256 d name = from_seed shuffle d (u64_of_be (take 8 (sha256 name)))"

section \<open>Application and powers\<close>

definition perm_check_dim :: "Permutation \<Rightarrow> nat \<Rightarrow> unit ares" where
  "perm_check_dim \<rho> len = eensure (len = pm_dim \<rho>) (Alg (AlgDimension (pm_dim \<rho>) len))"

definition gather_by :: "'a list \<Rightarrow> nat list \<Rightarrow> 'a list ares" where
  "gather_by v m = (if list_all (\<lambda>i. i < length v) m then Inr (map ((!) v) m) else Inl Crash)"

definition apply_perm :: "Permutation \<Rightarrow> f64 list \<Rightarrow> f64 list ares" where
  "apply_perm \<rho> v = ebind (perm_check_dim \<rho> (length v)) (\<lambda>_. gather_by v (pm_perm \<rho>))"

definition apply_inv :: "Permutation \<Rightarrow> f64 list \<Rightarrow> f64 list ares" where
  "apply_inv \<rho> v = ebind (perm_check_dim \<rho> (length v)) (\<lambda>_. gather_by v (pm_inv \<rho>))"

fun pow_loop :: "nat list \<Rightarrow> nat \<Rightarrow> nat list \<Rightarrow> nat list" where
  "pow_loop step 0 cur = cur"
| "pow_loop step (Suc n) cur = pow_loop step n (map ((!) step) cur)"

text \<open>The exponent is an \<open>i64\<close>; only its sign and its unsigned magnitude are used.\<close>

definition pow_indices :: "Permutation \<Rightarrow> int \<Rightarrow> nat list" where
  "pow_indices \<rho> k =
     (if k = 0 then [0..<pm_dim \<rho>]
      else if k = 1 then pm_perm \<rho>
      else if k = -1 then pm_inv \<rho>
      else let step = (if k > 0 then pm_perm \<rho> else pm_inv \<rho>) in pow_loop step (nat \<bar>k\<bar> - 1) step)"

definition apply_pow :: "Permutation \<Rightarrow> f64 list \<Rightarrow> int \<Rightarrow> f64 list ares" where
  "apply_pow \<rho> v k =
     ebind (perm_check_dim \<rho> (length v)) (\<lambda>_.
     if k = 0 then Inr v
     else if k = 1 then gather_by v (pm_perm \<rho>)
     else if k = -1 then gather_by v (pm_inv \<rho>)
     else gather_by v (pow_indices \<rho> k))"

section \<open>Cycles\<close>

partial_function (option) cycle_walk ::
  "nat list \<Rightarrow> nat \<Rightarrow> nat \<Rightarrow> bool list \<Rightarrow> nat list \<Rightarrow> (nat list \<times> bool list) option" where
  "cycle_walk rv start cur visited cyc =
     (let visited = visited[cur := True]; cyc = cyc @ [cur]; cur = rv ! cur
      in if cur = start then Some (cyc, visited) else cycle_walk rv start cur visited cyc)"

fun cycles_loop :: "nat list \<Rightarrow> nat list \<Rightarrow> bool list \<Rightarrow> nat list list \<Rightarrow> nat list list option" where
  "cycles_loop rv [] visited cs = Some cs"
| "cycles_loop rv (start # starts) visited cs =
     (if visited ! start then cycles_loop rv starts visited cs
      else case cycle_walk rv start start visited [] of
             None \<Rightarrow> None
           | Some (cyc, visited) \<Rightarrow> cycles_loop rv starts visited (cs @ [cyc]))"

definition cycles :: "Permutation \<Rightarrow> nat list list option" where
  "cycles \<rho> = cycles_loop (pm_inv \<rho>) [0..<pm_dim \<rho>] (replicate (pm_dim \<rho>) False) []"

section \<open>Rotation\<close>

type_synonym polar = "f64 \<Rightarrow> f64 \<Rightarrow> complex64"

definition PI :: f64 where
  "PI = F64 0x400921FB54442D18"

definition cadd :: "complex64 \<Rightarrow> complex64 \<Rightarrow> complex64" where
  "cadd x y = Complex64 (re x + re y) (im x + im y)"

definition cmul :: "complex64 \<Rightarrow> complex64 \<Rightarrow> complex64" where
  "cmul x y = Complex64 (re x * re y - im x * im y) (re x * im y + im x * re y)"

definition conj :: "complex64 \<Rightarrow> complex64" where
  "conj x = Complex64 (re x) (- im x)"

definition rotate_spectrum :: "polar \<Rightarrow> f64 list \<Rightarrow> f64 \<Rightarrow> complex64 list" where
  "rotate_spectrum polar x t =
     (let l = length x; nb = l div 2 + 1; two = f64_dec 2 0;
          spec = map (\<lambda>k. let ang_step = - two * PI * f64_of_nat k / f64_of_nat l
                   in foldl (\<lambda>acc (m, xm). cadd acc (polar xm (ang_step * f64_of_nat m)))
                        (Complex64 0 0) (zip [0..<l] x)) [0..<nb];
          spec = map (\<lambda>(k, bin). cmul bin (polar 1 (- two * PI * f64_of_nat k * t / f64_of_nat l)))
                   (zip [0..<nb] spec);
          spec = clear_im 0 spec
      in if even l then clear_im (nb - 1) spec else spec)"

definition rotate_cyclic_shift :: "polar \<Rightarrow> f64 list \<Rightarrow> f64 \<Rightarrow> f64 list" where
  "rotate_cyclic_shift polar x t =
     (let l = length x; nb = l div 2 + 1; spec = rotate_spectrum polar x t;
          full = spec @ map (\<lambda>k. conj (spec ! (l - k))) [nb..<l]
      in map (\<lambda>m. let acc = foldl (\<lambda>acc (k, xk).
                     let theta = f64_dec 2 0 * PI * f64_of_nat k * f64_of_nat m / f64_of_nat l
                     in cadd acc (cmul xk (polar 1 theta))) (Complex64 0 0) (zip [0..<l] full)
               in re acc / f64_of_nat l) [0..<l])"

definition rotate_cycle :: "polar \<Rightarrow> f64 list \<Rightarrow> f64 \<Rightarrow> f64 list \<Rightarrow> nat list \<Rightarrow> f64 list" where
  "rotate_cycle polar v t out cyc =
     (if length cyc = 1 then out[cyc ! 0 := v ! (cyc ! 0)]
      else let y = rotate_cyclic_shift polar (map ((!) v) cyc) t
           in foldl (\<lambda>out (pos, yk). out[pos := yk]) out (zip cyc y))"

text \<open>\<open>None\<close>: the call does not return.\<close>

definition apply_rotate :: "polar \<Rightarrow> Permutation \<Rightarrow> f64 list \<Rightarrow> f64 \<Rightarrow> f64 list ares option" where
  "apply_rotate polar \<rho> v t =
     (case perm_check_dim \<rho> (length v) of
        Inl e \<Rightarrow> Some (Inl e)
      | Inr _ \<Rightarrow>
         if feq t 0 then Some (Inr v)
         else map_option (\<lambda>cs. Inr (foldl (rotate_cycle polar v t) (replicate (pm_dim \<rho>) 0) cs)) (cycles \<rho>))"

section \<open>Snapshots\<close>

definition permute_location :: "nat list \<Rightarrow> HardLocation \<Rightarrow> HardLocation ares" where
  "permute_location m l =
     ebind (gather_by (loc_counter l) m) (\<lambda>counter.
     ebind (gather_by (loc_address l) m) (\<lambda>address.
     Inr (l\<lparr>loc_counter := counter, loc_address := address\<rparr>)))"

definition permute_snapshot :: "EAMSnapshot \<Rightarrow> Permutation \<Rightarrow> int \<Rightarrow> EAMSnapshot ares" where
  "permute_snapshot s \<rho> k =
     ebind (eensure (sn_dim s = pm_dim \<rho>) (Alg (AlgDimension (sn_dim s) (pm_dim \<rho>)))) (\<lambda>_.
     ebind (emap (permute_location (pow_indices \<rho> k)) (sn_locations s)) (\<lambda>ls.
     Inr (s\<lparr>sn_locations := ls\<rparr>)))"

section \<open>Well-formed permutations\<close>

definition perm_ok :: "Permutation \<Rightarrow> bool" where
  "perm_ok \<rho> \<longleftrightarrow>
     distinct (pm_perm \<rho>) \<and> set (pm_perm \<rho>) = {..<pm_dim \<rho>} \<and> length (pm_inv \<rho>) = pm_dim \<rho> \<and>
     (\<forall>i<pm_dim \<rho>. pm_inv \<rho> ! (pm_perm \<rho> ! i) = i)"

lemma perm_okD:
  assumes "perm_ok \<rho>" "i < pm_dim \<rho>"
  shows "pm_perm \<rho> ! i < pm_dim \<rho>" "pm_inv \<rho> ! i < pm_dim \<rho>"
    "pm_inv \<rho> ! (pm_perm \<rho> ! i) = i" "pm_perm \<rho> ! (pm_inv \<rho> ! i) = i"
proof -
  have "pm_perm \<rho> ! j < pm_dim \<rho>" if "j < pm_dim \<rho>" for j
    using assms(1) nth_mem [of j "pm_perm \<rho>"] that by (auto simp: perm_ok_def pm_dim_def)
  then show "pm_perm \<rho> ! i < pm_dim \<rho>" "pm_inv \<rho> ! (pm_perm \<rho> ! i) = i" using assms by (auto simp: perm_ok_def)
  have "i \<in> set (pm_perm \<rho>)" using assms by (simp add: perm_ok_def)
  then obtain j where j: "j < pm_dim \<rho>" "pm_perm \<rho> ! j = i" by (auto simp: in_set_conv_nth pm_dim_def)
  then have "pm_inv \<rho> ! i = j" using assms(1) by (auto simp: perm_ok_def)
  then show "pm_inv \<rho> ! i < pm_dim \<rho>" "pm_perm \<rho> ! (pm_inv \<rho> ! i) = i" using j by simp_all
qed

lemma from_loop_Inr:
  assumes "length seen = d" "length rv = d" "\<forall>p<d. seen ! p \<longleftrightarrow> p \<in> P"
  shows "(\<exists>rv'. from_loop d i ps seen rv = Inr rv') \<longleftrightarrow> distinct ps \<and> set ps \<subseteq> {..<d} - P"
  using assms
proof (induction ps arbitrary: i seen rv P)
  case (Cons p ps)
  show ?case
  proof (cases "p \<ge> d \<or> seen ! p")
    case True
    then show ?thesis using Cons.prems(3) by auto
  next
    case False
    then have "\<forall>q<d. (seen[p := True]) ! q \<longleftrightarrow> q \<in> insert p P"
      using Cons.prems(1,3) by (auto simp: nth_list_update)
    from Cons.IH [OF _ _ this, of "rv[p := i]" "i + 1"] show ?thesis
      using False Cons.prems by auto
  qed
qed simp

lemma from_loop_inv:
  assumes "from_loop d i ps seen rv = Inr rv'" "length seen = d" "length rv = d" "distinct ps"
  shows "length rv' = d \<and> (\<forall>j<length ps. rv' ! (ps ! j) = i + j) \<and> (\<forall>q. q \<notin> set ps \<longrightarrow> rv' ! q = rv ! q)"
  using assms
proof (induction ps arbitrary: i seen rv)
  case (Cons p ps)
  from Cons.prems have p: "p < d" "\<not> seen ! p" and rest: "from_loop d (i + 1) ps (seen[p := True]) (rv[p := i]) = Inr rv'"
    by (auto split: if_splits)
  note IH = Cons.IH [OF rest]
  have "rv' ! ((p # ps) ! j) = i + j" if "j < length (p # ps)" for j
    using that IH Cons.prems p by (cases j) auto
  then show ?case using IH Cons.prems p by (auto simp: nth_list_update)
qed simp

lemma from_indices_ok:
  assumes "from_indices perm = Inr \<rho>"
  shows "perm_ok \<rho>" "pm_perm \<rho> = perm"
proof -
  let ?d = "length perm"
  obtain rv where l: "from_loop ?d 0 perm (replicate ?d False) (replicate ?d 0) = Inr rv"
    and \<rho>: "\<rho> = \<lparr>pm_perm = perm, pm_inv = rv\<rparr>"
    using assms by (auto simp: from_indices_def Let_def ebind_Inr)
  have d: "distinct perm" "set perm \<subseteq> {..<?d}"
    using from_loop_Inr [of "replicate ?d False" ?d "replicate ?d 0" "{}" 0 perm] l by auto
  have "set perm = {..<?d}"
    by (rule card_subset_eq) (use d in \<open>simp_all add: distinct_card\<close>)
  then show "perm_ok \<rho>" "pm_perm \<rho> = perm"
    using from_loop_inv [OF l _ _ d(1)] d by (auto simp: perm_ok_def \<rho> pm_dim_def)
qed

end
