(* ===== verification/Permute_Group.thy ===== *)
theory Permute_Group
  imports Permute
begin

text \<open>
  Permutations act as a group: the powers add up, they undo each other, and every permutation
  falls apart into cycles that the code finds. Both rest on the locale \<open>bijection\<close>, a map on the
  first \<open>d\<close> numbers with its inverse, of which a well-formed permutation is a model.
\<close>

section \<open>A bijection of the first numbers\<close>

locale bijection =
  fixes d :: nat and f g :: "nat \<Rightarrow> nat"
  assumes closed: "i < d \<Longrightarrow> f i < d" "i < d \<Longrightarrow> g i < d"
    and inverse: "i < d \<Longrightarrow> g (f i) = i" "i < d \<Longrightarrow> f (g i) = i"
begin

definition power :: "int \<Rightarrow> nat \<Rightarrow> nat" where
  "power k = (if 0 \<le> k then f ^^ nat k else g ^^ nat (- k))"

lemma funpow_closed: "i < d \<Longrightarrow> (f ^^ n) i < d" "i < d \<Longrightarrow> (g ^^ n) i < d"
  by (induction n) (auto simp: closed)

lemma power_closed: "i < d \<Longrightarrow> power k i < d"
  by (simp add: power_def funpow_closed)

lemma power_up: "i < d \<Longrightarrow> power (k + 1) i = f (power k i)"
proof (cases "0 \<le> k")
  case True
  then show ?thesis by (simp add: power_def nat_add_distrib)
next
  case False
  assume i: "i < d"
  obtain n where "nat (- k) = Suc n" using False by (metis Suc_pred neg_0_less_iff_less not_le zero_less_nat_eq)
  moreover from this have "nat (- (k + 1)) = n" by simp
  ultimately show ?thesis using i False
    by (cases "n = 0") (auto simp: power_def funpow_closed inverse)
qed

lemma power_down: "i < d \<Longrightarrow> power (k - 1) i = g (power k i)"
  using power_up [of i "k - 1"] inverse(1) [OF power_closed [of i "k - 1"]] by simp

lemma power_add: "i < d \<Longrightarrow> power j (power k i) = power (j + k) i"
proof (induction j rule: int_induct [where k = 0])
  case base
  then show ?case by (simp add: power_def)
next
  case (step1 j)
  then show ?case using power_up [OF power_closed, of i j k] power_up [of i "j + k"] by (simp add: algebra_simps)
next
  case (step2 j)
  then show ?case using power_down [OF power_closed, of i j k] power_down [of i "j + k"] by (simp add: algebra_simps)
qed

lemma power_simps [simp]: "power 0 = (\<lambda>i. i)" "power 1 = f" "power (- 1) = g"
  by (auto simp: power_def)

text \<open>Every number comes back to itself.\<close>

lemma returns:
  assumes "s < d"
  obtains n where "0 < n" "(f ^^ n) s = s"
proof -
  have "finite {(f ^^ n) s |n. True}"
    by (rule finite_subset [of _ "{..<d}"]) (auto simp: funpow_closed assms)
  then have "\<not> inj (\<lambda>n. (f ^^ n) s)" by (metis (full_types) full_SetCompr_eq infinite_UNIV_nat finite_imageD)
  then obtain m n where mn: "m < n" "(f ^^ m) s = (f ^^ n) s"
    unfolding inj_def by (metis nat_neq_iff)
  have undo: "(g ^^ m) ((f ^^ m) i) = i" if "i < d" for m i
    using power_add [OF that, of "- int m" "int m"] by (cases "m = 0") (simp_all add: power_def)
  have "(f ^^ n) s = (f ^^ m) ((f ^^ (n - m)) s)"
    using mn(1) by (metis comp_apply funpow_add le_add_diff_inverse less_imp_le)
  then have "(f ^^ (n - m)) s = s" using undo [OF funpow_closed(1) [OF assms]] undo [OF assms] mn(2) by metis
  then show thesis using that [of "n - m"] mn(1) by simp
qed

definition period :: "nat \<Rightarrow> nat" where
  "period s = (LEAST n. 0 < n \<and> (f ^^ n) s = s)"

lemma period:
  assumes "s < d"
  shows "0 < period s" "(f ^^ period s) s = s" "0 < n \<Longrightarrow> n < period s \<Longrightarrow> (f ^^ n) s \<noteq> s"
proof -
  obtain m where "0 < m" "(f ^^ m) s = s" using returns [OF assms] .
  then have "0 < period s \<and> (f ^^ period s) s = s"
    unfolding period_def using LeastI [of "\<lambda>n. 0 < n \<and> (f ^^ n) s = s" m] by simp
  then show "0 < period s" "(f ^^ period s) s = s" by simp_all
  show "0 < n \<Longrightarrow> n < period s \<Longrightarrow> (f ^^ n) s \<noteq> s"
    using not_less_Least [of n "\<lambda>n. 0 < n \<and> (f ^^ n) s = s"] unfolding period_def by blast
qed

definition orbit :: "nat \<Rightarrow> nat list" where
  "orbit s = map (\<lambda>n. (f ^^ n) s) [0..<period s]"

lemma distinct_orbit: "s < d \<Longrightarrow> distinct (orbit s)"
proof -
  assume s: "s < d"
  have "(f ^^ m) s \<noteq> (f ^^ n) s" if "m < n" "n < period s" for m n
  proof
    assume e: "(f ^^ m) s = (f ^^ n) s"
    have "(f ^^ (period s - n + m)) s = (f ^^ (period s - n + n)) s" by (simp only: funpow_add comp_apply e)
    also have "\<dots> = s" using that(2) period(2) [OF s] by simp
    finally have home: "(f ^^ (period s - n + m)) s = s" .
    have "0 < period s - n + m" "period s - n + m < period s" using that by linarith+
    from period(3) [OF s this] show False using home by contradiction
  qed
  then show ?thesis
    unfolding orbit_def distinct_map by (auto simp: inj_on_def) (metis nat_neq_iff)
qed

lemma orbit_step:
  assumes "s < d" "k < length (orbit s)"
  shows "f (orbit s ! k) = orbit s ! ((k + 1) mod length (orbit s))"
proof (cases "k + 1 = period s")
  case True
  then have "f (orbit s ! k) = (f ^^ period s) s" using assms by (simp add: orbit_def nth_append flip: True)
  then have "f (orbit s ! k) = s" using period(2) [OF assms(1)] by simp
  then show ?thesis using True period(1) [OF assms(1)] by (simp add: orbit_def)
next
  case False
  then show ?thesis using assms by (simp add: orbit_def)
qed

lemma set_orbit: "s < d \<Longrightarrow> set (orbit s) \<subseteq> {..<d}" "s < d \<Longrightarrow> s \<in> set (orbit s)" "s < d \<Longrightarrow> orbit s \<noteq> []"
  using period(1) [of s] by (auto simp: orbit_def funpow_closed intro: image_eqI [where x = 0])

text \<open>An orbit that starts outside of a closed set stays outside.\<close>

lemma orbit_disjoint:
  assumes "s < d" "s \<notin> V" "\<And>i. i \<in> V \<Longrightarrow> f i \<in> V"
  shows "set (orbit s) \<inter> V = {}"
proof (rule ccontr)
  assume "\<not> ?thesis"
  then obtain n where n: "n < period s" "(f ^^ n) s \<in> V" by (auto simp: orbit_def)
  have "(f ^^ m) i \<in> V" if "i \<in> V" for m i by (induction m) (simp_all add: that assms(3))
  from this [OF n(2), of "period s - n"] have "(f ^^ period s) s \<in> V"
    using n(1) by (metis comp_apply funpow_add le_add_diff_inverse2 less_imp_le)
  then show False using period(2) [OF assms(1)] assms(2) by simp
qed

end

text \<open>
  The two directions of a permutation. (Where it is not well-formed, the identity stands in, so
  that the locale has an instance for every permutation.)
\<close>

definition forward :: "Permutation \<Rightarrow> nat \<Rightarrow> nat" where
  "forward \<rho> = (if perm_ok \<rho> then (!) (pm_perm \<rho>) else id)"

definition backward :: "Permutation \<Rightarrow> nat \<Rightarrow> nat" where
  "backward \<rho> = (if perm_ok \<rho> then (!) (pm_inv \<rho>) else id)"

interpretation ahead: bijection "pm_dim \<rho>" "forward \<rho>" "backward \<rho>" for \<rho>
  by unfold_locales (simp_all add: forward_def backward_def perm_okD)

interpretation astern: bijection "pm_dim \<rho>" "backward \<rho>" "forward \<rho>" for \<rho>
  by unfold_locales (simp_all add: forward_def backward_def perm_okD)

section \<open>Powers\<close>

lemma pow_loop_map:
  "pow_loop step n (map h xs) = map (\<lambda>i. (((!) step) ^^ n) (h i)) xs"
  by (induction n arbitrary: h) (simp_all add: o_def funpow_swap1)

lemma pow_loop_step:
  assumes "0 < n"
  shows "pow_loop step (n - 1) step = map (((!) step) ^^ n) [0..<length step]"
proof -
  obtain m where n: "n = Suc m" using assms by (cases n) auto
  have "pow_loop step m (map ((!) step) [0..<length step]) = map (\<lambda>i. (((!) step) ^^ m) (step ! i)) [0..<length step]"
    by (rule pow_loop_map)
  then show ?thesis by (simp add: n map_nth funpow_swap1)
qed

lemma pow_indices_power:
  assumes "perm_ok \<rho>"
  shows "pow_indices \<rho> k = map (ahead.power \<rho> k) [0..<pm_dim \<rho>]"
proof -
  have len: "length (pm_perm \<rho>) = pm_dim \<rho>" "length (pm_inv \<rho>) = pm_dim \<rho>" using assms by (simp_all add: pm_dim_def perm_ok_def)
  have dir: "forward \<rho> = (!) (pm_perm \<rho>)" "backward \<rho> = (!) (pm_inv \<rho>)" using assms by (simp_all add: forward_def backward_def)
  have one: "ahead.power \<rho> 1 i = pm_perm \<rho> ! i" "ahead.power \<rho> (-1) i = pm_inv \<rho> ! i" for i
    by (simp_all only: ahead.power_simps) (simp_all add: dir)
  have many: "ahead.power \<rho> k = (if 0 \<le> k then (!) (pm_perm \<rho>) ^^ nat k else (!) (pm_inv \<rho>) ^^ nat (- k))"
    unfolding ahead.power_def unfolding dir ..
  consider "k = 0" | "k = 1" | "k = -1" | "1 < k" | "k < -1" by linarith
  then show ?thesis
  proof cases
    case 1
    then show ?thesis by (simp add: pow_indices_def)
  next
    case 2
    have "map (ahead.power \<rho> 1) [0..<pm_dim \<rho>] = map ((!) (pm_perm \<rho>)) [0..<pm_dim \<rho>]"
      by (rule map_cong) (simp_all only: one)
    then show ?thesis using 2 map_nth [of "pm_perm \<rho>"] len by (simp only: pow_indices_def) simp
  next
    case 3
    have "map (ahead.power \<rho> (-1)) [0..<pm_dim \<rho>] = map ((!) (pm_inv \<rho>)) [0..<pm_dim \<rho>]"
      by (rule map_cong) (simp_all only: one)
    then show ?thesis using 3 map_nth [of "pm_inv \<rho>"] len by (simp only: pow_indices_def) simp
  next
    case 4
    then have "pow_indices \<rho> k = pow_loop (pm_perm \<rho>) (nat k - 1) (pm_perm \<rho>)" by (simp add: pow_indices_def Let_def)
    then show ?thesis using 4 pow_loop_step [of "nat k" "pm_perm \<rho>"] by (simp add: many len)
  next
    case 5
    then have "pow_indices \<rho> k = pow_loop (pm_inv \<rho>) (nat (- k) - 1) (pm_inv \<rho>)" by (simp add: pow_indices_def Let_def)
    then show ?thesis using 5 pow_loop_step [of "nat (- k)" "pm_inv \<rho>"] by (simp add: many len)
  qed
qed

lemma gather_ok:
  assumes "perm_ok \<rho>" "length v = pm_dim \<rho>"
  shows "gather_by v (pow_indices \<rho> k) = Inr (map (\<lambda>i. v ! ahead.power \<rho> k i) [0..<pm_dim \<rho>])"
  using assms by (auto simp: gather_by_def pow_indices_power list_all_iff ahead.power_closed)

lemma apply_pow_power:
  assumes "perm_ok \<rho>" "length v = pm_dim \<rho>"
  shows "apply_pow \<rho> v k = Inr (map (\<lambda>i. v ! ahead.power \<rho> k i) [0..<pm_dim \<rho>])"
proof (cases "k = 0")
  case True
  then show ?thesis using map_nth [of v] assms(2) by (simp add: apply_pow_def perm_check_dim_def)
next
  case False
  then have "apply_pow \<rho> v k = gather_by v (pow_indices \<rho> k)"
    using assms(2) by (simp add: apply_pow_def perm_check_dim_def pow_indices_def)
  then show ?thesis using gather_ok [OF assms] by simp
qed

section \<open>Cycles\<close>

lemma marked:
  "(foldl (\<lambda>v i. v[i := True]) visited is ! j) \<longleftrightarrow> visited ! j \<or> j \<in> set is \<and> j < length visited"
  "length (foldl (\<lambda>v i. v[i := True]) visited is) = length visited"
proof (induction "is" arbitrary: visited)
  case (Cons i "is")
  {
    case 1
    then show ?case using Cons.IH(1) [of "visited[i := True]"] by (cases "i = j"; cases "j < length visited") (auto simp: list_update_beyond)
  next
    case 2
    then show ?case using Cons.IH(2) by simp
  }
qed simp_all

text \<open>The walk from a start collects its orbit.\<close>

lemma cycle_walk_orbit:
  assumes ok: "perm_ok \<rho>" and s: "s < pm_dim \<rho>" and m: "m < astern.period \<rho> s"
  shows "cycle_walk (pm_inv \<rho>) s ((backward \<rho> ^^ m) s) visited (map (\<lambda>n. (backward \<rho> ^^ n) s) [0..<m]) =
     Some (astern.orbit \<rho> s, foldl (\<lambda>v i. v[i := True]) visited
       (map (\<lambda>n. (backward \<rho> ^^ n) s) [m..<astern.period \<rho> s]))"
  using m
proof (induction "astern.period \<rho> s - m" arbitrary: m visited)
  case (Suc n)
  let ?b = "backward \<rho>"
  have step: "pm_inv \<rho> ! ((?b ^^ m) s) = (?b ^^ Suc m) s" using ok by (simp add: backward_def)
  have upt: "[m..<astern.period \<rho> s] = m # [Suc m..<astern.period \<rho> s]" using Suc.prems by (rule upt_conv_Cons)
  show ?case
  proof (cases "Suc m = astern.period \<rho> s")
    case True
    then have "(?b ^^ Suc m) s = s" using astern.period(2) [OF s] by simp
    moreover have "astern.orbit \<rho> s = map (\<lambda>n. (?b ^^ n) s) [0..<m] @ [(?b ^^ m) s]"
      by (simp add: astern.orbit_def flip: True)
    ultimately show ?thesis
      by (subst cycle_walk.simps) (simp add: step upt Let_def del: funpow.simps, simp add: True)
  next
    case False
    then have lt: "Suc m < astern.period \<rho> s" using Suc.prems by simp
    then have "(?b ^^ Suc m) s \<noteq> s" using astern.period(3) [OF s] by blast
    moreover have "n = astern.period \<rho> s - Suc m" using Suc.hyps(2) by simp
    ultimately show ?thesis
      using Suc.hyps(1) [of "Suc m", OF _ lt]
      by (subst cycle_walk.simps) (simp add: step upt Let_def del: funpow.simps)
  qed
qed simp

definition cycles_so_far :: "Permutation \<Rightarrow> bool list \<Rightarrow> nat list list \<Rightarrow> bool" where
  "cycles_so_far \<rho> visited cs \<longleftrightarrow>
     length visited = pm_dim \<rho> \<and> distinct (concat cs) \<and> set (concat cs) \<subseteq> {..<pm_dim \<rho>} \<and>
     (\<forall>i<pm_dim \<rho>. visited ! i \<longleftrightarrow> i \<in> set (concat cs)) \<and>
     (\<forall>c\<in>set cs. \<exists>s<pm_dim \<rho>. c = astern.orbit \<rho> s)"

lemma cycles_closed:
  assumes "cycles_so_far \<rho> visited cs" "i \<in> set (concat cs)"
  shows "backward \<rho> i \<in> set (concat cs)"
proof -
  obtain c where c: "c \<in> set cs" "i \<in> set c" using assms(2) by auto
  then obtain s where s: "s < pm_dim \<rho>" "c = astern.orbit \<rho> s" using assms(1) by (auto simp: cycles_so_far_def)
  obtain k where k: "k < length c" "i = c ! k" using c(2) by (auto simp: in_set_conv_nth)
  have "c ! ((k + 1) mod length c) \<in> set c" using k(1) by (intro nth_mem mod_less_divisor) auto
  then show ?thesis using astern.orbit_step [OF s(1), of k] k s(2) c(1) by auto
qed

lemma cycles_extend:
  assumes ok: "perm_ok \<rho>" and s: "s < pm_dim \<rho>" and inv: "cycles_so_far \<rho> visited cs" and new: "\<not> visited ! s"
  obtains visited' where "cycle_walk (pm_inv \<rho>) s s visited [] = Some (astern.orbit \<rho> s, visited')"
    "cycles_so_far \<rho> visited' (cs @ [astern.orbit \<rho> s])"
proof -
  let ?o = "astern.orbit \<rho> s"
  have w: "cycle_walk (pm_inv \<rho>) s s visited [] = Some (?o, foldl (\<lambda>v i. v[i := True]) visited ?o)"
    using cycle_walk_orbit [OF ok s astern.period(1) [OF s], of visited] by (simp add: astern.orbit_def)
  have "s \<notin> set (concat cs)" using inv s new unfolding cycles_so_far_def by blast
  from astern.orbit_disjoint [OF s this cycles_closed [OF inv]] have "set ?o \<inter> set (concat cs) = {}" .
  then have "cycles_so_far \<rho> (foldl (\<lambda>v i. v[i := True]) visited ?o) (cs @ [?o])"
    using inv s astern.distinct_orbit [OF s] astern.set_orbit(1) [OF s]
    by (auto simp: cycles_so_far_def marked)
  with w that show thesis by blast
qed

lemma cycles_loop_ok:
  assumes "perm_ok \<rho>" "cycles_so_far \<rho> visited cs" "set starts \<subseteq> {..<pm_dim \<rho>}"
  shows "\<exists>cs' visited'. cycles_loop (pm_inv \<rho>) starts visited cs = Some cs' \<and> cycles_so_far \<rho> visited' cs' \<and>
     set (concat cs) \<union> set starts \<subseteq> set (concat cs')"
  using assms(2,3)
proof (induction starts arbitrary: visited cs)
  case (Cons s starts)
  show ?case
  proof (cases "visited ! s")
    case True
    then have s: "s \<in> set (concat cs)" using Cons.prems unfolding cycles_so_far_def by auto
    from Cons.IH [OF Cons.prems(1)] Cons.prems(2) obtain cs' visited' where
      "cycles_loop (pm_inv \<rho>) starts visited cs = Some cs'" "cycles_so_far \<rho> visited' cs'"
      "set (concat cs) \<union> set starts \<subseteq> set (concat cs')" by auto
    then show ?thesis using True s by (intro exI [of _ cs'] exI [of _ visited']) auto
  next
    case False
    have s: "s < pm_dim \<rho>" using Cons.prems(2) by simp
    from cycles_extend [OF assms(1) s Cons.prems(1) False] obtain visited' where
      w: "cycle_walk (pm_inv \<rho>) s s visited [] = Some (astern.orbit \<rho> s, visited')"
         "cycles_so_far \<rho> visited' (cs @ [astern.orbit \<rho> s])" .
    from Cons.IH [OF w(2)] Cons.prems(2) obtain cs' visited'' where
      "cycles_loop (pm_inv \<rho>) starts visited' (cs @ [astern.orbit \<rho> s]) = Some cs'" "cycles_so_far \<rho> visited'' cs'"
      "set (concat (cs @ [astern.orbit \<rho> s])) \<union> set starts \<subseteq> set (concat cs')" by auto
    then show ?thesis using w(1) False astern.set_orbit(2) [OF s]
      by (intro exI [of _ cs'] exI [of _ visited'']) auto
  qed
qed auto

lemma cycles_ok:
  assumes "perm_ok \<rho>"
  obtains cs where "cycles \<rho> = Some cs" "distinct (concat cs)" "set (concat cs) = {..<pm_dim \<rho>}"
    "\<And>c. c \<in> set cs \<Longrightarrow> \<exists>s<pm_dim \<rho>. c = astern.orbit \<rho> s"
proof -
  have "cycles_so_far \<rho> (replicate (pm_dim \<rho>) False) []" by (simp add: cycles_so_far_def)
  from cycles_loop_ok [OF assms this, of "[0..<pm_dim \<rho>]"] obtain cs visited where
    "cycles \<rho> = Some cs" "cycles_so_far \<rho> visited cs" "{..<pm_dim \<rho>} \<subseteq> set (concat cs)"
    unfolding cycles_def by (auto simp: lessThan_atLeast0)
  then show thesis using that [of cs] unfolding cycles_so_far_def by blast
qed

section \<open>What the properties use\<close>

definition rearranged :: "Permutation \<Rightarrow> int \<Rightarrow> f64 list \<Rightarrow> f64 list" where
  "rearranged \<rho> k v = map (\<lambda>i. v ! ahead.power \<rho> k i) [0..<pm_dim \<rho>]"

lemma rearranged_add:
  "rearranged \<rho> k (rearranged \<rho> j v) = rearranged \<rho> (j + k) v"
  by (simp add: rearranged_def ahead.power_closed ahead.power_add)

lemma rearranged_back:
  assumes "perm_ok \<rho>" "length v = pm_dim \<rho>"
  shows "rearranged \<rho> (- k) (rearranged \<rho> k v) = v"
  using map_nth [of v] assms(2) unfolding rearranged_add by (simp add: rearranged_def)

lemma apply_pow_add:
  assumes "perm_ok \<rho>" "length v = pm_dim \<rho>"
  shows "ebind (apply_pow \<rho> v j) (\<lambda>w. apply_pow \<rho> w k) = apply_pow \<rho> v (j + k)"
proof -
  have p: "apply_pow \<rho> w k = Inr (rearranged \<rho> k w)" if "length w = pm_dim \<rho>" for w k
    using apply_pow_power [OF assms(1) that] by (simp add: rearranged_def)
  have "length (rearranged \<rho> j v) = pm_dim \<rho>" by (simp add: rearranged_def)
  then show ?thesis using assms(2) by (simp add: p rearranged_add)
qed

lemma apply_pow_mset:
  assumes "perm_ok \<rho>" "length v = pm_dim \<rho>"
  shows "\<exists>w. apply_pow \<rho> v k = Inr w \<and> mset w = mset v"
proof -
  have "inj_on (ahead.power \<rho> k) {..<pm_dim \<rho>}"
    by (rule inj_on_inverseI [where g = "ahead.power \<rho> (- k)"]) (simp add: ahead.power_add)
  then have inj: "distinct (map (ahead.power \<rho> k) [0..<pm_dim \<rho>])"
    by (simp add: distinct_map lessThan_atLeast0)
  moreover have "set (map (ahead.power \<rho> k) [0..<pm_dim \<rho>]) \<subseteq> {..<pm_dim \<rho>}" by (auto simp: ahead.power_closed)
  then have "set (map (ahead.power \<rho> k) [0..<pm_dim \<rho>]) = set [0..<pm_dim \<rho>]"
    using distinct_card [OF inj] by (intro card_subset_eq) (simp_all add: lessThan_atLeast0)
  ultimately have "mset (map (ahead.power \<rho> k) [0..<pm_dim \<rho>]) = mset [0..<pm_dim \<rho>]"
    by (metis distinct_upt set_eq_iff_mset_eq_distinct)
  then have "mset (map ((!) v) (map (ahead.power \<rho> k) [0..<pm_dim \<rho>])) = mset (map ((!) v) [0..<length v])"
    by (simp only: mset_map assms(2))
  then show ?thesis using apply_pow_power [OF assms] by (simp add: map_nth o_def)
qed

lemma apply_perm_moves:
  assumes "perm_ok \<rho>" "length v = pm_dim \<rho>"
  obtains w where "apply_perm \<rho> v = Inr w" "\<And>i. i < pm_dim \<rho> \<Longrightarrow> w ! backward \<rho> i = v ! i"
proof -
  have "apply_perm \<rho> v = apply_pow \<rho> v 1" using assms(2) by (simp add: apply_pow_def apply_perm_def perm_check_dim_def)
  then have "apply_perm \<rho> v = Inr (map (\<lambda>i. v ! forward \<rho> i) [0..<pm_dim \<rho>])"
    using apply_pow_power [OF assms, of 1] by simp
  then show thesis using that by (simp add: ahead.closed ahead.inverse)
qed

lemma permute_snapshot_map:
  assumes "perm_ok \<rho>" "sn_dim s = pm_dim \<rho>" "\<And>l. l \<in> set (sn_locations s) \<Longrightarrow> loc_wf (pm_dim \<rho>) l"
  shows "permute_snapshot s \<rho> k = Inr (s\<lparr>sn_locations := map (\<lambda>l. l\<lparr>loc_counter := rearranged \<rho> k (loc_counter l),
     loc_address := rearranged \<rho> k (loc_address l)\<rparr>) (sn_locations s)\<rparr>)"
proof -
  have "permute_location (pow_indices \<rho> k) l =
      Inr (l\<lparr>loc_counter := rearranged \<rho> k (loc_counter l), loc_address := rearranged \<rho> k (loc_address l)\<rparr>)"
    if "l \<in> set (sn_locations s)" for l
    using assms(3) [OF that] gather_ok [OF assms(1), of "loc_counter l" k] gather_ok [OF assms(1), of "loc_address l" k]
    by (simp add: permute_location_def loc_wf_def rearranged_def)
  then have "emap (permute_location (pow_indices \<rho> k)) (sn_locations s) = Inr (map (\<lambda>l.
      l\<lparr>loc_counter := rearranged \<rho> k (loc_counter l), loc_address := rearranged \<rho> k (loc_address l)\<rparr>) (sn_locations s))"
    by (simp add: emap_Inr list_all2_map2 list_all2_same)
  then show ?thesis using assms(2) by (simp add: permute_snapshot_def)
qed

lemma from_indices_cases:
  "case from_indices p of
     Inr \<rho> \<Rightarrow> distinct p \<and> set p = {..<length p} \<and> pm_perm \<rho> = p \<and> perm_ok \<rho>
   | Inl e \<Rightarrow> e \<noteq> Crash \<and> \<not> (distinct p \<and> set p = {..<length p})"
proof (cases "from_indices p")
  case (Inr \<rho>)
  then show ?thesis using from_indices_ok [OF Inr] by (auto simp: perm_ok_def pm_dim_def)
next
  case (Inl e)
  have no_crash: "from_loop d i ps seen r \<noteq> Inl Crash" for d i ps seen r
    by (induction ps arbitrary: i seen r) auto
  have "\<nexists>r. from_loop (length p) 0 p (replicate (length p) False) (replicate (length p) 0) = Inr r"
    using Inl by (auto simp: from_indices_def Let_def)
  then have "\<not> (distinct p \<and> set p \<subseteq> {..<length p})"
    using from_loop_Inr [of "replicate (length p) False" "length p" "replicate (length p) 0" "{}" 0 p] by simp
  then show ?thesis using Inl no_crash by (auto simp: from_indices_def Let_def ebind_def split: sum.splits)
qed

lemma from_seed_ok:
  assumes "\<And>s xs. mset (shuffle s xs) = mset xs"
  shows "perm_ok (from_seed shuffle d seed)" "pm_dim (from_seed shuffle d seed) = d"
proof -
  let ?p = "shuffle seed [0..<d]"
  have p: "distinct ?p" "set ?p = {..<d}" "length ?p = d"
    using mset_eq_imp_distinct_iff [OF assms] mset_eq_setD [OF assms] mset_eq_length [OF assms]
    by (simp_all add: lessThan_atLeast0)
  have set_all: "length (foldl (\<lambda>r (i, p). r[p := i]) r (zip is ps)) = length r \<and>
      (\<forall>q. q \<notin> set ps \<longrightarrow> foldl (\<lambda>r (i, p). r[p := i]) r (zip is ps) ! q = r ! q) \<and>
      (\<forall>j<length ps. foldl (\<lambda>r (i, p). r[p := i]) r (zip is ps) ! (ps ! j) = is ! j)"
    if "distinct ps" "length is = length ps" "set ps \<subseteq> {..<length r}" for r "is" and ps :: "nat list"
    using that
  proof (induction ps arbitrary: r "is")
    case (Cons p ps)
    then obtain i is' where i: "is = i # is'" by (cases "is") auto
    have "length is' = length ps" "set ps \<subseteq> {..<length (r[p := i])}" using Cons.prems i by auto
    from Cons.IH [OF _ this] have IH: "length (foldl (\<lambda>r (i, p). r[p := i]) (r[p := i]) (zip is' ps)) = length r"
      "\<And>q. q \<notin> set ps \<Longrightarrow> foldl (\<lambda>r (i, p). r[p := i]) (r[p := i]) (zip is' ps) ! q = r[p := i] ! q"
      "\<And>j. j < length ps \<Longrightarrow> foldl (\<lambda>r (i, p). r[p := i]) (r[p := i]) (zip is' ps) ! (ps ! j) = is' ! j"
      using Cons.prems(1) by auto
    have "foldl (\<lambda>r (i, p). r[p := i]) r (zip is (p # ps)) ! ((p # ps) ! j) = is ! j" if "j < length (p # ps)" for j
      using that IH(2) [of p] IH(3) Cons.prems i by (cases j) auto
    then show ?case using IH(1,2) i by auto
  qed simp
  from set_all [OF p(1), of "[0..<length ?p]" "replicate d 0"] p
  show "perm_ok (from_seed shuffle d seed)" "pm_dim (from_seed shuffle d seed) = d"
    by (simp_all add: perm_ok_def from_seed_def pm_dim_def Let_def)
qed

section \<open>Properties\<close>

text \<open>Every constructor gives a well-formed permutation: an index list is accepted exactly if
  it names every position once, and then it is kept as it is together with its true inverse;
  a seeded or named permutation is well-formed for every generator that only reorders.\<close>

lemma permutations_are_well_formed:
  assumes "\<And>s xs. mset (shuffle s xs) = mset xs"
  shows "(case from_indices p of
       Inr \<rho> \<Rightarrow> distinct p \<and> set p = {..<length p} \<and> pm_perm \<rho> = p \<and> perm_ok \<rho>
     | Inl e \<Rightarrow> e \<noteq> Crash \<and> \<not> (distinct p \<and> set p = {..<length p})) \<and>
     perm_ok (from_seed shuffle d seed) \<and> pm_dim (from_seed shuffle d seed) = d \<and>
     perm_ok (from_name shuffle sha256 d name) \<and> pm_dim (from_name shuffle sha256 d name) = d"
  using from_indices_cases [of p] from_seed_ok [OF assms] by (simp add: from_name_def)

text \<open>C16: The powers of a permutation are a group: applying power \<open>j\<close> and then power \<open>k\<close> is
  applying power \<open>j + k\<close>, whichever of the two is negative; power 0 is the identity, 1 the
  permutation, -1 its inverse; and what comes out is a rearrangement of what went in.\<close>

theorem powers_form_a_group:
  assumes "perm_ok \<rho>" "length v = pm_dim \<rho>"
  shows "ebind (apply_pow \<rho> v j) (\<lambda>w. apply_pow \<rho> w k) = apply_pow \<rho> v (j + k) \<and>
     apply_pow \<rho> v 0 = Inr v \<and> apply_pow \<rho> v 1 = apply_perm \<rho> v \<and> apply_pow \<rho> v (-1) = apply_inv \<rho> v \<and>
     (\<exists>w. apply_pow \<rho> v k = Inr w \<and> mset w = mset v)"
  using apply_pow_add [OF assms] apply_pow_mset [OF assms] assms(2)
  by (simp add: apply_pow_def apply_perm_def apply_inv_def perm_check_dim_def)

theorem powers_form_a_group_witness:
  "\<exists>\<rho> w. from_indices [1, 2, 0] = Inr \<rho> \<and> apply_pow \<rho> [1, 0, 0] 2 = Inr w \<and> apply_pow \<rho> w (-2) = Inr [1, 0, 0]"
proof -
  let ?\<rho> = "\<lparr>pm_perm = [1, 2, 0], pm_inv = [2, 0, 1]\<rparr>"
  have \<rho>: "from_indices [1, 2, 0] = Inr ?\<rho>" by code_simp
  have "length [1, 0, 0 :: f64] = pm_dim ?\<rho>" by (simp add: pm_dim_def)
  note g = powers_form_a_group [OF from_indices_ok(1) [OF \<rho>] this]
  obtain w where w: "apply_pow ?\<rho> [1, 0, 0] 2 = Inr w" using g [of 0 2] by blast
  then have "apply_pow ?\<rho> w (-2) = Inr [1, 0, 0]" using g [of 2 "-2"] by simp
  with \<rho> w show ?thesis by blast
qed

text \<open>C18: Decomposing a permutation comes to an end and gives its cycles: they hold every position
  exactly once, and in one application the value at a position of a cycle moves to the next
  position of that cycle.\<close>

theorem cycles_come_to_an_end:
  assumes "perm_ok \<rho>" "length v = pm_dim \<rho>"
  shows "\<exists>cs w. cycles \<rho> = Some cs \<and> distinct (concat cs) \<and> set (concat cs) = {..<pm_dim \<rho>} \<and>
     apply_perm \<rho> v = Inr w \<and>
     (\<forall>c\<in>set cs. \<forall>k<length c. w ! (c ! ((k + 1) mod length c)) = v ! (c ! k))"
proof -
  obtain cs where cs: "cycles \<rho> = Some cs" "distinct (concat cs)" "set (concat cs) = {..<pm_dim \<rho>}"
    "\<And>c. c \<in> set cs \<Longrightarrow> \<exists>s<pm_dim \<rho>. c = astern.orbit \<rho> s" using cycles_ok [OF assms(1)] by blast
  obtain w where w: "apply_perm \<rho> v = Inr w" "\<And>i. i < pm_dim \<rho> \<Longrightarrow> w ! backward \<rho> i = v ! i"
    using apply_perm_moves [OF assms] by blast
  have "w ! (c ! ((k + 1) mod length c)) = v ! (c ! k)" if c: "c \<in> set cs" and k: "k < length c" for c k
  proof -
    from cs(4) [OF c] obtain s where s: "s < pm_dim \<rho>" "c = astern.orbit \<rho> s" by blast
    have "c ! k < pm_dim \<rho>" using astern.set_orbit(1) [OF s(1)] k s(2) nth_mem by fastforce
    then show ?thesis using astern.orbit_step [OF s(1), of k] k s(2) w(2) by metis
  qed
  with cs w show ?thesis by blast
qed

theorem cycles_come_to_an_end_witness:
  "\<exists>\<rho> cs. from_indices [1, 2, 0, 3] = Inr \<rho> \<and> cycles \<rho> = Some cs \<and> set (concat cs) = {..<4}"
proof -
  let ?\<rho> = "\<lparr>pm_perm = [1, 2, 0, 3], pm_inv = [2, 0, 1, 3]\<rparr>"
  have \<rho>: "from_indices [1, 2, 0, 3] = Inr ?\<rho>" by code_simp
  have "length [1, 0, 0, 1 :: f64] = pm_dim ?\<rho>" by (simp add: pm_dim_def)
  from cycles_come_to_an_end [OF from_indices_ok(1) [OF \<rho>] this] obtain cs where
    "cycles ?\<rho> = Some cs" "set (concat cs) = {..<pm_dim ?\<rho>}" by blast
  with \<rho> show ?thesis by (intro exI [of _ ?\<rho>] exI [of _ cs]) (simp add: pm_dim_def)
qed

text \<open>C17: Permuting a snapshot and permuting it back gives the snapshot: \<open>permute_snapshot\<close> with the
  negated power restores every address and counter, and in between only those two change, each
  by the same rearrangement.\<close>

theorem permute_snapshot_roundtrip:
  assumes "perm_ok \<rho>" "sn_dim s = pm_dim \<rho>" "\<And>l. l \<in> set (sn_locations s) \<Longrightarrow> loc_wf (pm_dim \<rho>) l"
  shows "\<exists>t. permute_snapshot s \<rho> k = Inr t \<and> permute_snapshot t \<rho> (- k) = Inr s \<and>
     list_all2 (\<lambda>l m. apply_pow \<rho> (loc_address l) k = Inr (loc_address m) \<and>
       apply_pow \<rho> (loc_counter l) k = Inr (loc_counter m) \<and>
       m\<lparr>loc_address := loc_address l, loc_counter := loc_counter l\<rparr> = l) (sn_locations s) (sn_locations t)"
proof -
  let ?p = "\<lambda>k l. l\<lparr>loc_counter := rearranged \<rho> k (loc_counter l), loc_address := rearranged \<rho> k (loc_address l)\<rparr>"
  let ?t = "s\<lparr>sn_locations := map (?p k) (sn_locations s)\<rparr>"
  have t: "permute_snapshot s \<rho> k = Inr ?t" using permute_snapshot_map [OF assms] .
  have "sn_dim ?t = pm_dim \<rho>" using assms(2) by (simp add: sn_dim_def)
  moreover have "loc_wf (pm_dim \<rho>) l" if "l \<in> set (sn_locations ?t)" for l
    using that by (auto simp: loc_wf_def rearranged_def)
  ultimately have "permute_snapshot ?t \<rho> (- k) = Inr (?t\<lparr>sn_locations := map (?p (- k)) (sn_locations ?t)\<rparr>)"
    by (rule permute_snapshot_map [OF assms(1)])
  moreover have "map (?p (- k)) (sn_locations ?t) = sn_locations s"
    using rearranged_back [OF assms(1)] assms(3) by (auto simp: loc_wf_def intro!: map_idI)
  moreover have "apply_pow \<rho> (loc_address l) k = Inr (rearranged \<rho> k (loc_address l))"
    "apply_pow \<rho> (loc_counter l) k = Inr (rearranged \<rho> k (loc_counter l))" if "l \<in> set (sn_locations s)" for l
    using apply_pow_power [OF assms(1)] assms(3) [OF that] by (simp_all add: loc_wf_def rearranged_def)
  ultimately show ?thesis using t by (intro exI [of _ ?t]) (simp add: list_all2_map2 list_all2_same)
qed

theorem permute_snapshot_roundtrip_witness:
  "\<exists>\<rho> t. from_indices [1, 0] = Inr \<rho> \<and>
     permute_snapshot \<lparr>sn_locations = [unit_location], sn_config = EAMConfig_defaults 2\<rparr> \<rho> 3 = Inr t \<and>
     permute_snapshot t \<rho> (-3) = Inr \<lparr>sn_locations = [unit_location], sn_config = EAMConfig_defaults 2\<rparr>"
proof -
  let ?\<rho> = "\<lparr>pm_perm = [1, 0], pm_inv = [1, 0]\<rparr>" and ?s = "\<lparr>sn_locations = [unit_location], sn_config = EAMConfig_defaults 2\<rparr>"
  have \<rho>: "from_indices [1, 0] = Inr ?\<rho>" by code_simp
  have "sn_dim ?s = pm_dim ?\<rho>" by (simp add: sn_dim_def pm_dim_def EAMConfig_defaults_def)
  from permute_snapshot_roundtrip [OF from_indices_ok(1) [OF \<rho>] this, of 3] obtain t where
    "permute_snapshot ?s ?\<rho> 3 = Inr t" "permute_snapshot t ?\<rho> (- 3) = Inr ?s"
    by (auto simp: unit_location_def loc_wf_def pm_dim_def)
  with \<rho> show ?thesis by blast
qed

end
