(* ===== verification/Bind.thy ===== *)
theory Bind
  imports Permute
begin

text \<open>
  heather_algebra/src/bind.rs: binding by circular convolution, its inverses, bundling, and
  binding and unbinding of whole snapshots. The real FFT (crate realfft) is the record \<open>rfft\<close> of
  Vec_Ops and the complex power of num_complex a function; \<open>expect\<close> on a failing transform is a
  panic.
\<close>

section \<open>Spectra\<close>

definition fft_forward :: "rfft \<Rightarrow> f64 list \<Rightarrow> complex64 list ares" where
  "fft_forward T a = (case rf_forward T (length a) a of Some spec \<Rightarrow> Inr spec | None \<Rightarrow> Inl Crash)"

definition ifft_into :: "rfft \<Rightarrow> complex64 list \<Rightarrow> nat \<Rightarrow> f64 list ares" where
  "ifft_into T spec d =
     (case rf_inverse T d spec of
        None \<Rightarrow> Inl Crash
      | Some out \<Rightarrow> let scale = 1 / f64_of_nat d in Inr (map (\<lambda>x. x * scale) out))"

definition convolve_via_spec :: "rfft \<Rightarrow> complex64 list \<Rightarrow> complex64 list \<Rightarrow> nat \<Rightarrow> f64 list ares" where
  "convolve_via_spec T spec_a spec_b d = ifft_into T (map2 cmul spec_a spec_b) d"

text \<open>The bins that are real in the spectrum of a real vector are made real.\<close>

definition real_bins :: "nat \<Rightarrow> complex64 list \<Rightarrow> complex64 list ares" where
  "real_bins d out =
     (if out = [] then Inl Crash
      else let out = clear_im 0 out in Inr (if even d then clear_im (length out - 1) out else out))"

section \<open>Vectors\<close>

definition circular_convolve :: "rfft \<Rightarrow> f64 list \<Rightarrow> f64 list \<Rightarrow> f64 list ares" where
  "circular_convolve T a b =
     ebind (fft_forward T a) (\<lambda>spec_a.
     ebind (fft_forward T b) (\<lambda>spec_b. convolve_via_spec T spec_a spec_b (length a)))"

definition involve :: "f64 list \<Rightarrow> f64 list ares" where
  "involve a =
     (if a = [] then Inl Crash else Inr (a ! 0 # map (\<lambda>i. a ! (length a - i)) [1..<length a]))"

definition unbind_vec :: "rfft \<Rightarrow> f64 list \<Rightarrow> f64 list \<Rightarrow> f64 list ares" where
  "unbind_vec T c a =
     ebind (fft_forward T c) (\<lambda>spec_c.
     ebind (fft_forward T a) (\<lambda>spec_a. ifft_into T (map2 (\<lambda>c a. cmul c (conj a)) spec_c spec_a) (length a)))"

definition pow_vec :: "rfft \<Rightarrow> (complex64 \<Rightarrow> f64 \<Rightarrow> complex64) \<Rightarrow> f64 list \<Rightarrow> f64 \<Rightarrow> f64 list ares" where
  "pow_vec T powf a t =
     ebind (fft_forward T a) (\<lambda>spec.
     ebind (real_bins (length a) (map (\<lambda>z. powf z t) spec)) (\<lambda>out. ifft_into T out (length a)))"

definition norm_sqr :: "complex64 \<Rightarrow> f64" where
  "norm_sqr z = re z * re z + im z * im z"

definition divide_bin :: "f64 \<Rightarrow> complex64 \<Rightarrow> complex64 \<Rightarrow> complex64" where
  "divide_bin eps2 zc za =
     (let m2 = norm_sqr za in
      if m2 \<le> eps2 then Complex64 0 0
      else let p = cmul zc (conj za) in Complex64 (re p / m2) (im p / m2))"

definition unbind_exact_vec :: "rfft \<Rightarrow> f64 list \<Rightarrow> f64 list \<Rightarrow> f64 \<Rightarrow> f64 list ares" where
  "unbind_exact_vec T c a eps =
     ebind (fft_forward T c) (\<lambda>spec_c.
     ebind (fft_forward T a) (\<lambda>spec_a.
     ebind (real_bins (length a) (map2 (divide_bin (eps * eps)) spec_c spec_a)) (\<lambda>out. ifft_into T out (length a))))"

definition bind_vec :: "rfft \<Rightarrow> f64 list \<Rightarrow> f64 list \<Rightarrow> f64 list ares" where
  "bind_vec T a b =
     ebind (circular_convolve T a b) (\<lambda>raw.
     let n = l2_norm raw in Inr (if n < tiny then raw else map (\<lambda>x. x / n) raw))"

section \<open>Bundling\<close>

definition check_bundled :: "nat \<Rightarrow> f64 list \<Rightarrow> unit ares" where
  "check_bundled d v =
     ebind (eensure (length v = d) (Alg (AlgDimension d (length v)))) (\<lambda>_.
     eensure (list_all is_finite v) (Alg (InvalidScalar (msg ''bundle vectors must be finite''))))"

definition check_weights :: "f64 list \<Rightarrow> unit ares" where
  "check_weights weights =
     (case find (\<lambda>w. \<not> is_finite w) weights of
        Some w \<Rightarrow> Inl (Alg (InvalidScalar (Fmt ''bundle weights must be finite, got {w}'' [X w])))
      | None \<Rightarrow> Inr ())"

definition bundle_vec :: "f64 list list \<Rightarrow> f64 list \<Rightarrow> bool \<Rightarrow> f64 list ares" where
  "bundle_vec vectors weights normalized =
     (case vectors of
        [] \<Rightarrow> Inl (Alg EmptyBundle)
      | v0 # _ \<Rightarrow>
         ebind (eensure (length weights = length vectors)
           (Alg (InvalidScalar (Fmt ''bundle needs one weight per vector, got {} weights for {} vectors''
              [N (int (length weights)), N (int (length vectors))])))) (\<lambda>_.
         ebind (eensure (length v0 \<noteq> 0) (Alg EmptyBundle)) (\<lambda>_.
         ebind (emap (check_bundled (length v0)) vectors) (\<lambda>_.
         ebind (check_weights weights) (\<lambda>_.
         let sum = weighted_sum vectors weights in Inr (if normalized then normalize sum else sum))))))"

section \<open>Snapshots\<close>

definition top_partners :: "nat \<Rightarrow> HardLocation \<Rightarrow> HardLocation list \<Rightarrow> nat list" where
  "top_partners max_cross_k la bs =
     map fst (take max_cross_k (sort_by (\<lambda>x y. snd y < snd x)
       (map (\<lambda>(j, lb). (j, cosine_similarity (loc_address la) (loc_address lb))) (zip [0..<length bs] bs))))"

definition bind_pairs :: "nat \<Rightarrow> HardLocation list \<Rightarrow> HardLocation list \<Rightarrow> (nat \<times> nat) list" where
  "bind_pairs max_cross_k as bs =
     (if max_cross_k = 0 \<or> max_cross_k \<ge> length bs
      then concat (map (\<lambda>i. map (\<lambda>j. (i, j)) [0..<length bs]) [0..<length as])
      else concat (map (\<lambda>(i, la). map (\<lambda>j. (i, j)) (top_partners max_cross_k la bs)) (zip [0..<length as] as)))"

text \<open>A pair whose product has collapsed is marked by the empty vector.\<close>

definition bound_pattern :: "rfft \<Rightarrow> nat \<Rightarrow> complex64 list \<Rightarrow> complex64 list \<Rightarrow> f64 list ares" where
  "bound_pattern T d sa sb =
     ebind (convolve_via_spec T sa sb d) (\<lambda>raw.
     let n = l2_norm raw in Inr (if n < tiny then [] else map (\<lambda>x. x / n) raw))"

definition bind_with_limit ::
  "rfft \<Rightarrow> libm \<Rightarrow> projected \<Rightarrow> EAMSnapshot \<Rightarrow> EAMSnapshot \<Rightarrow> nat \<Rightarrow> EAMSnapshot ares" where
  "bind_with_limit T L P a b max_cross_k =
     ebind (alg_check_dims a b) (\<lambda>_.
     if sn_locations a = [] \<or> sn_locations b = [] then Inr \<lparr>sn_locations = [], sn_config = sn_config a\<rparr>
     else ebind (emap (fft_forward T) (extract_patterns a)) (\<lambda>specs_a.
     ebind (emap (fft_forward T) (extract_patterns b)) (\<lambda>specs_b.
     ebind (emap (\<lambda>(i, j). bound_pattern T (sn_dim a) (specs_a ! i) (specs_b ! j))
              (bind_pairs max_cross_k (sn_locations a) (sn_locations b))) (\<lambda>bounds.
     let kept = filter (\<lambda>bound. bound \<noteq> []) bounds;
         locations = map (\<lambda>(i, bound). pattern_location i bound) (zip [0..<length kept] kept)
     in Inr (consolidate L P (reindex \<lparr>sn_locations = locations, sn_config = sn_config a\<rparr>))))))"

definition bind_snapshots :: "rfft \<Rightarrow> libm \<Rightarrow> projected \<Rightarrow> EAMSnapshot \<Rightarrow> EAMSnapshot \<Rightarrow> EAMSnapshot ares" where
  "bind_snapshots T L P a b = bind_with_limit T L P a b 0"

definition unbind_snapshots :: "rfft \<Rightarrow> EAMSnapshot \<Rightarrow> EAMSnapshot \<Rightarrow> EAMSnapshot ares" where
  "unbind_snapshots T c key =
     ebind (alg_check_dims c key) (\<lambda>_.
     ebind (eensure (length (sn_locations key) = 1)
       (Alg (InvalidScalar (Fmt ''unbind expects a single-location key snapshot, got {}''
          [N (int (length (sn_locations key)))])))) (\<lambda>_.
     ebind (fft_forward T (normalized_pattern (sn_locations key ! 0))) (\<lambda>key_spec.
     let conj_key = map conj key_spec in
     ebind (emap (\<lambda>l. ebind (fft_forward T (normalized_pattern l)) (\<lambda>spec.
              convolve_via_spec T spec conj_key (sn_dim c))) (sn_locations c)) (\<lambda>recovered.
     let found = filter (\<lambda>(i, r). \<not> l2_norm r < f64_dec 1 10) (zip [0..<length recovered] recovered)
     in Inr \<lparr>sn_locations = map (\<lambda>(i, r). pattern_location i r) found, sn_config = sn_config c\<rparr>))))"

section \<open>Sizes\<close>

lemma length_top_partners: "length (top_partners k la bs) = min k (length bs)"
  by (simp add: top_partners_def min.commute)

lemma length_bind_pairs:
  "length (bind_pairs k as bs) = cross_count (length as) (length bs) k"
proof -
  have "length (concat (map (\<lambda>(i, la). map (\<lambda>j. (i, j)) (top_partners k la bs)) xs)) = length xs * min k (length bs)"
    for xs :: "(nat \<times> HardLocation) list"
    by (induction xs) (auto simp: length_top_partners)
  moreover have "length (concat (map (\<lambda>i. map (\<lambda>j. (i, j)) [0..<length bs]) xs)) = length xs * length bs"
    for xs :: "nat list"
    by (induction xs) auto
  ultimately show ?thesis by (simp add: bind_pairs_def)
qed

lemma length_emap: "emap f xs = Inr ys \<Longrightarrow> length ys = length xs"
  by (metis emap_Inr list_all2_lengthD)

end
