(* ===== verification/Compose.thy ===== *)
theory Compose
  imports Algebra
begin

text \<open>
  heather_algebra/src/compose.rs: composing two memories by finding the attractors of their
  combined energy, and heather_algebra/src/routing.rs: reading several memories at once, weighted
  by confidence. Sine and arc cosine, the normal distribution of the generator and its start
  (from a seed or from entropy) are parameters.
\<close>

record trig =
  tg_sin :: "f64 \<Rightarrow> f64"
  tg_acos :: "f64 \<Rightarrow> f64"

record ComposeParams =
  boundary_slerp_steps :: nat
  max_boundary_pairs :: nat
  num_random_probes :: nat
  descent_t_max :: nat
  descent_epsilon :: f64
  descent_beta :: f64
  descent_k :: nat
  dedup_threshold :: f64
  locations_per_attractor :: nat
  attractor_sample_spread :: f64
  dream_rounds :: nat
  dream_noise_initial :: f64
  dream_noise_decay :: f64
  dream_write_weight :: f64
  compose_seed :: "u64 option"
  validation_max_similarity :: f64
  validation_min_stability :: f64

definition ComposeParams_default :: ComposeParams where
  "ComposeParams_default =
     \<lparr>boundary_slerp_steps = 4, max_boundary_pairs = 0, num_random_probes = 50, descent_t_max = 50,
      descent_epsilon = f64_dec 1 6, descent_beta = f64_dec 5 0, descent_k = 20, dedup_threshold = f64_dec 95 2,
      locations_per_attractor = 10, attractor_sample_spread = f64_dec 1 1, dream_rounds = 10,
      dream_noise_initial = f64_dec 1 1, dream_noise_decay = f64_dec 8 1, dream_write_weight = f64_dec 2 1,
      compose_seed = None, validation_max_similarity = f64_dec 9 1, validation_min_stability = f64_dec 99 2\<rparr>"

record ComposeDiagnostics =
  pool_size :: nat
  boundary_probes_count :: nat
  parent_probes_count :: nat
  random_probes_count :: nat
  raw_attractors_count :: nat
  unique_attractors_count :: nat
  locations_built :: nat
  post_dream_locations :: nat
  fingerprint_sim_a :: f64
  fingerprint_sim_b :: f64
  fingerprint_sim_naive :: f64
  fingerprint_stability :: f64
  validation_passed :: bool

record ComposeResult =
  cr_snapshot :: EAMSnapshot
  cr_diagnostics :: ComposeDiagnostics

section \<open>Probes\<close>

definition slerp :: "trig \<Rightarrow> f64 list \<Rightarrow> f64 list \<Rightarrow> f64 \<Rightarrow> f64 list" where
  "slerp G a b t =
     (let c = f64_clamp (dot a b) (- 1) 1 in
      if f64_dec 9995 4 < f64_abs c then normalize (map2 (\<lambda>ai bi. ai * (1 - t) + bi * t) a b)
      else let omega = tg_acos G c; sin_omega = tg_sin G omega;
               s0 = tg_sin G ((1 - t) * omega) / sin_omega; s1 = tg_sin G (t * omega) / sin_omega
           in normalize (map2 (\<lambda>ai bi. s0 * ai + s1 * bi) a b))"

text \<open>The first location of the largest similarity, index 0 where none compares.\<close>

definition best_match :: "f64 list \<Rightarrow> HardLocation list \<Rightarrow> nat" where
  "best_match addr bs =
     fst (foldl (\<lambda>(best_j, best_sim) (j, lb).
            let s = cosine_similarity addr (loc_address lb) in if best_sim < s then (j, s) else (best_j, best_sim))
          (0, f64_neg_infinity) (zip [0..<length bs] bs))"

definition boundary_pairs :: "EAMSnapshot \<Rightarrow> EAMSnapshot \<Rightarrow> ComposeParams \<Rightarrow> (nat \<times> nat) list" where
  "boundary_pairs a b p =
     (let as = sn_locations a; bs = sn_locations b;
          pairs = map (\<lambda>(i, la). (i, best_match (loc_address la) bs)) (zip [0..<length as] as) @
                  map (\<lambda>(j, lb). (best_match (loc_address lb) as, j)) (zip [0..<length bs] bs);
          pairs = remdups_adj (sort_by (\<lambda>x y. fst x < fst y \<or> fst x = fst y \<and> snd x < snd y) pairs)
      in if max_boundary_pairs p > 0 \<and> length pairs > max_boundary_pairs p then take (max_boundary_pairs p) pairs
         else pairs)"

definition boundary_probes :: "trig \<Rightarrow> EAMSnapshot \<Rightarrow> EAMSnapshot \<Rightarrow> ComposeParams \<Rightarrow> f64 list list" where
  "boundary_probes G a b p =
     concat (map (\<lambda>(i, j). map (\<lambda>n. let t = f64_of_nat n / (f64_of_nat (boundary_slerp_steps p) + 1)
                in slerp G (loc_address (sn_locations a ! i)) (loc_address (sn_locations b ! j)) t)
              [1..<boundary_slerp_steps p + 1]) (boundary_pairs a b p))"

definition parent_probes :: "EAMSnapshot \<Rightarrow> EAMSnapshot \<Rightarrow> f64 list list" where
  "parent_probes a b = map loc_address (sn_locations a @ sn_locations b)"

fun random_probes :: "('r \<Rightarrow> f64 \<times> 'r) \<Rightarrow> nat \<Rightarrow> nat \<Rightarrow> 'r \<Rightarrow> f64 list list \<times> 'r" where
  "random_probes normal d 0 rng = ([], rng)"
| "random_probes normal d (Suc n) rng =
     (let (v, rng) = random_unit_vector normal d rng; (vs, rng) = random_probes normal d n rng in (v # vs, rng))"

section \<open>Descent\<close>

definition read_with_confidence ::
  "libm \<Rightarrow> f64 list \<Rightarrow> HardLocation list \<Rightarrow> nat \<Rightarrow> f64 \<Rightarrow> f64 list \<times> f64" where
  "read_with_confidence L query locations k beta =
     (if locations = [] then (replicate (length query) 0, 0)
      else let (indices, sims) = activate query locations (min k (length locations));
               confidence = (case sims of [] \<Rightarrow> 0 | s # _ \<Rightarrow> s);
               weights = softmax L sims beta;
               patterns = map (\<lambda>i. unit_pattern (locations ! i)) indices
           in (weighted_sum patterns weights, confidence))"

fun descent_loop ::
  "libm \<Rightarrow> HardLocation list \<Rightarrow> HardLocation list \<Rightarrow> ComposeParams \<Rightarrow> nat \<Rightarrow> f64 list \<Rightarrow> f64 list" where
  "descent_loop L as bs p 0 xi = xi"
| "descent_loop L as bs p (Suc n) xi =
     (let (recon_a, conf_a) = read_with_confidence L xi as (descent_k p) (descent_beta p);
          (recon_b, conf_b) = read_with_confidence L xi bs (descent_k p) (descent_beta p);
          xi_new = normalize (map2 (\<lambda>a b. conf_b * a + conf_a * b) recon_a recon_b)
      in if 1 - descent_epsilon p < cosine_similarity xi xi_new then xi_new
         else descent_loop L as bs p n xi_new)"

definition combined_descent ::
  "libm \<Rightarrow> f64 list \<Rightarrow> HardLocation list \<Rightarrow> HardLocation list \<Rightarrow> ComposeParams \<Rightarrow> f64 list" where
  "combined_descent L start as bs p = descent_loop L as bs p (descent_t_max p) (normalize start)"

definition keep_unique :: "f64 \<Rightarrow> f64 list list \<Rightarrow> f64 list \<Rightarrow> f64 list list" where
  "keep_unique threshold unique attractor =
     (if list_ex (\<lambda>u. threshold < cosine_similarity attractor u) unique then unique else unique @ [attractor])"

definition deduplicate_attractors :: "f64 list list \<Rightarrow> f64 \<Rightarrow> f64 list list" where
  "deduplicate_attractors attractors threshold = foldl (keep_unique threshold) [] attractors"

section \<open>Building and dreaming\<close>

definition build_one_location ::
  "libm \<Rightarrow> u64 \<Rightarrow> f64 list \<Rightarrow> EAMSnapshot \<Rightarrow> EAMSnapshot \<Rightarrow> nat \<Rightarrow> f64 \<Rightarrow> HardLocation" where
  "build_one_location L i query a b k beta =
     (let (recon_a, conf_a) = read_with_confidence L query (sn_locations a) k beta;
          (recon_b, conf_b) = read_with_confidence L query (sn_locations b) k beta
      in (HardLocation_new i query)
           \<lparr>loc_counter := map2 (\<lambda>ra rb. conf_a * ra + conf_b * rb) recon_a recon_b,
            loc_write_count := conf_a + conf_b\<rparr>)"

definition perturb :: "('r \<Rightarrow> f64 \<times> 'r) \<Rightarrow> f64 \<Rightarrow> f64 list \<Rightarrow> 'r \<Rightarrow> f64 list \<times> 'r" where
  "perturb normal spread v rng =
     (let (xs, rng) = draws normal (length v) rng in (normalize (map2 (\<lambda>v x. v + x * spread) v xs), rng))"

fun sample_around ::
  "('r \<Rightarrow> f64 \<times> 'r) \<Rightarrow> f64 \<Rightarrow> (u64 \<Rightarrow> f64 list \<Rightarrow> HardLocation) \<Rightarrow> f64 list \<Rightarrow> nat \<Rightarrow> u64 \<Rightarrow> 'r \<Rightarrow>
   HardLocation list \<times> u64 \<times> 'r" where
  "sample_around normal spread build attractor 0 next_id rng = ([], next_id, rng)"
| "sample_around normal spread build attractor (Suc n) next_id rng =
     (let (perturbed, rng) = perturb normal spread attractor rng;
          (ls, i, rng) = sample_around normal spread build attractor n (next_id + 1) rng
      in (build next_id perturbed # ls, i, rng))"

fun build_loop ::
  "('r \<Rightarrow> f64 \<times> 'r) \<Rightarrow> f64 \<Rightarrow> nat \<Rightarrow> (u64 \<Rightarrow> f64 list \<Rightarrow> HardLocation) \<Rightarrow> f64 list list \<Rightarrow> u64 \<Rightarrow> 'r \<Rightarrow>
   HardLocation list \<times> 'r" where
  "build_loop normal spread n_per build [] next_id rng = ([], rng)"
| "build_loop normal spread n_per build (attractor # attractors) next_id rng =
     (let (samples, i, rng) = sample_around normal spread build attractor (n_per - 1) (next_id + 1) rng;
          (ls, rng) = build_loop normal spread n_per build attractors i rng
      in (build next_id attractor # samples @ ls, rng))"

definition build_locations_at_attractors ::
  "libm \<Rightarrow> ('r \<Rightarrow> f64 \<times> 'r) \<Rightarrow> f64 list list \<Rightarrow> EAMSnapshot \<Rightarrow> EAMSnapshot \<Rightarrow> ComposeParams \<Rightarrow> 'r \<Rightarrow>
   HardLocation list \<times> 'r" where
  "build_locations_at_attractors L normal attractors a b p rng =
     build_loop normal (attractor_sample_spread p) (locations_per_attractor p)
       (\<lambda>i query. build_one_location L i query a b (descent_k p) (descent_beta p)) attractors 0 rng"

definition local_soft_write ::
  "libm \<Rightarrow> f64 list \<Rightarrow> HardLocation list \<Rightarrow> EAMConfig \<Rightarrow> f64 \<Rightarrow> HardLocation list" where
  "local_soft_write L pattern locations c weight =
     (if locations = [] then locations
      else let (indices, sims) = activate pattern locations (min (cfg_k c) (length locations));
               weights = softmax L sims (cfg_beta c)
           in foldl (\<lambda>ls (i, wt). let w = wt * weight; l = ls ! i
                in ls[i := l\<lparr>loc_counter := add_scaled (loc_counter l) pattern w,
                              loc_write_count := loc_write_count l + w\<rparr>]) locations (zip indices weights))"

text \<open>\<open>unwrap_or_else\<close> on a read.\<close>

definition read_or :: "f64 list \<Rightarrow> f64 list res \<Rightarrow> f64 list" where
  "read_or query r = (case r of Inr v \<Rightarrow> v | Inl _ \<Rightarrow> query)"

fun perturb_all :: "('r \<Rightarrow> f64 \<times> 'r) \<Rightarrow> f64 \<Rightarrow> HardLocation list \<Rightarrow> 'r \<Rightarrow> f64 list list \<times> 'r" where
  "perturb_all normal noise [] rng = ([], rng)"
| "perturb_all normal noise (l # ls) rng =
     (let (q, rng) = perturb normal noise (loc_address l) rng; (qs, rng) = perturb_all normal noise ls rng
      in (q # qs, rng))"

fun dream_loop ::
  "libm \<Rightarrow> projected \<Rightarrow> ('r \<Rightarrow> f64 \<times> 'r) \<Rightarrow> HardLocation list \<Rightarrow> EAMConfig \<Rightarrow> EAMConfig \<Rightarrow> ComposeParams \<Rightarrow>
   nat \<Rightarrow> f64 \<Rightarrow> HardLocation list \<Rightarrow> 'r \<Rightarrow> HardLocation list \<times> 'r" where
  "dream_loop L P normal all_locs read_c write_c p 0 noise hybrids rng = (hybrids, rng)"
| "dream_loop L P normal all_locs read_c write_c p (Suc n) noise hybrids rng =
     (if hybrids = [] then (hybrids, rng)
      else let (queries, rng) = perturb_all normal noise hybrids rng;
               hybrids = foldl (\<lambda>ls query.
                 let recon = read_or query (hopfield_iter L query all_locs read_c)
                 in local_soft_write L recon ls write_c (dream_write_weight p)) hybrids queries;
               hybrids = snd (knn_merge L P hybrids write_c)
           in dream_loop L P normal all_locs read_c write_c p n (noise * dream_noise_decay p) hybrids rng)"

definition dream_consolidate_hybrid ::
  "libm \<Rightarrow> projected \<Rightarrow> ('r \<Rightarrow> f64 \<times> 'r) \<Rightarrow> HardLocation list \<Rightarrow> HardLocation list \<Rightarrow> EAMConfig \<Rightarrow>
   ComposeParams \<Rightarrow> 'r \<Rightarrow> HardLocation list \<times> 'r" where
  "dream_consolidate_hybrid L P normal hybrids all_locs read_c p rng =
     dream_loop L P normal all_locs read_c (read_c\<lparr>cfg_k := min (cfg_k read_c) (length hybrids)\<rparr>) p
       (dream_rounds p) (dream_noise_initial p) hybrids rng"

section \<open>Fingerprints\<close>

definition compute_fingerprint :: "libm \<Rightarrow> EAMSnapshot \<Rightarrow> f64 list option" where
  "compute_fingerprint L s =
     (let small = f64_dec 1 10; total_writes = f64_sum (map loc_write_count (sn_locations s)) in
      if total_writes < small then None
      else let centroid = foldl (\<lambda>c l. if loc_write_count l < small then c
                            else add_scaled c (normalized_pattern l) (loc_write_count l))
                          (replicate (sn_dim s) 0) (sn_locations s)
           in case hopfield_iter L (normalize centroid) (sn_locations s) (sn_config s) of
                Inr v \<Rightarrow> Some v | Inl _ \<Rightarrow> None)"

definition fingerprint_sims ::
  "libm \<Rightarrow> EAMSnapshot \<Rightarrow> f64 list option \<Rightarrow> f64 list option \<Rightarrow> f64 list option \<Rightarrow> f64 \<times> f64 \<times> f64 \<times> f64" where
  "fingerprint_sims L c fp_c fp_a fp_b =
     (case (fp_c, fp_a, fp_b) of
        (Some fc, Some fa, Some fb) \<Rightarrow>
          let naive_mid = normalize (map2 (+) fa fb);
              re_read = read_or fc (hopfield_iter L fc (sn_locations c) (sn_config c))
          in (cosine_similarity fc fa, cosine_similarity fc fb, cosine_similarity fc naive_mid,
              cosine_similarity fc re_read)
      | _ \<Rightarrow> (0, 0, 0, 0))"

section \<open>Composition\<close>

definition dreamed ::
  "libm \<Rightarrow> projected \<Rightarrow> ('r \<Rightarrow> f64 \<times> 'r) \<Rightarrow> HardLocation list \<Rightarrow> EAMSnapshot \<Rightarrow> EAMSnapshot \<Rightarrow>
   ComposeParams \<Rightarrow> 'r \<Rightarrow> HardLocation list" where
  "dreamed L P normal hybrids a b p rng =
     (if dream_rounds p > 0 \<and> hybrids \<noteq> []
      then let all_for_read = sn_locations a @ sn_locations b @ hybrids;
               read_config = (sn_config a)\<lparr>cfg_k := min (descent_k p) (length all_for_read), cfg_beta := descent_beta p\<rparr>
           in fst (dream_consolidate_hybrid L P normal hybrids all_for_read read_config p rng)
      else hybrids)"

definition compose ::
  "trig \<Rightarrow> libm \<Rightarrow> projected \<Rightarrow> ('r \<Rightarrow> f64 \<times> 'r) \<Rightarrow> (u64 option \<Rightarrow> 'r) \<Rightarrow>
   EAMSnapshot \<Rightarrow> EAMSnapshot \<Rightarrow> ComposeParams \<Rightarrow> ComposeResult ares" where
  "compose G L P normal start a b p =
     (if sn_dim a \<noteq> sn_dim b then Inl (Alg (AlgDimension (sn_dim a) (sn_dim b)))
      else if sn_locations a = [] \<or> sn_locations b = [] then Inl (Alg EmptySnapshot)
      else
        let rng = start (compose_seed p);
            boundary = boundary_probes G a b p;
            parents = parent_probes a b;
            (randoms, rng) = random_probes normal (sn_dim a) (num_random_probes p) rng;
            raw = map (\<lambda>probe. combined_descent L probe (sn_locations a) (sn_locations b) p)
                    (boundary @ parents @ randoms);
            unique = deduplicate_attractors raw (dedup_threshold p);
            (built, rng) = build_locations_at_attractors L normal unique a b p rng;
            hybrids = dreamed L P normal built a b p rng;
            c = reindex \<lparr>sn_locations = sn_locations a @ sn_locations b @ hybrids, sn_config = sn_config a\<rparr>;
            (sim_a, sim_b, sim_naive, stability) =
              fingerprint_sims L c (compute_fingerprint L c) (compute_fingerprint L a) (compute_fingerprint L b);
            top = validation_max_similarity p
        in Inr \<lparr>cr_snapshot = c, cr_diagnostics =
             \<lparr>pool_size = sn_num_locations a + sn_num_locations b, boundary_probes_count = length boundary,
              parent_probes_count = length parents, random_probes_count = length randoms,
              raw_attractors_count = length raw, unique_attractors_count = length unique,
              locations_built = length built, post_dream_locations = sn_num_locations c,
              fingerprint_sim_a = sim_a, fingerprint_sim_b = sim_b, fingerprint_sim_naive = sim_naive,
              fingerprint_stability = stability,
              validation_passed = (sim_a < top \<and> sim_b < top \<and> sim_naive < top \<and>
                validation_min_stability p < stability)\<rparr>\<rparr>)"

section \<open>Routed reads\<close>

definition energy_confidence :: "libm \<Rightarrow> f64 list \<Rightarrow> HardLocation list \<Rightarrow> EAMConfig \<Rightarrow> f64" where
  "energy_confidence L query locations c =
     (let k = min (cfg_k c) (length locations) in
      if k = 0 then 0
      else let (_, sims) = activate query locations k in
        case sims of
          [] \<Rightarrow> 0
        | max_sim # _ \<Rightarrow>
           let beta = cfg_beta c; sum_exp = f64_sum (map (\<lambda>s. lm_exp L ((s - max_sim) * beta)) sims)
           in (max_sim * beta + lm_ln L sum_exp) / beta)"

definition read_parent_with_confidence ::
  "libm \<Rightarrow> f64 list \<Rightarrow> HardLocation list \<Rightarrow> EAMConfig \<Rightarrow> f64 list \<times> f64" where
  "read_parent_with_confidence L query locations c =
     (read_or query (hopfield_iter L query locations c), energy_confidence L query locations c)"

record ComposedEAM =
  parent_a :: EAMSnapshot
  parent_b :: EAMSnapshot
  routing_sharpness :: f64

definition ComposedEAM_new :: "EAMSnapshot \<Rightarrow> EAMSnapshot \<Rightarrow> ComposedEAM" where
  "ComposedEAM_new a b = \<lparr>parent_a = a, parent_b = b, routing_sharpness = f64_dec 5 0\<rparr>"

definition ComposedEAM_read :: "libm \<Rightarrow> ComposedEAM \<Rightarrow> f64 list \<Rightarrow> f64 list" where
  "ComposedEAM_read L m query =
     (let (recon_a, conf_a) = read_parent_with_confidence L query (sn_locations (parent_a m)) (sn_config (parent_a m));
          (recon_b, conf_b) = read_parent_with_confidence L query (sn_locations (parent_b m)) (sn_config (parent_b m));
          beta = routing_sharpness m; max_conf = f64_max conf_a conf_b;
          exp_a = lm_exp L ((conf_a - max_conf) * beta); exp_b = lm_exp L ((conf_b - max_conf) * beta);
          total = exp_a + exp_b
      in if total < f64_dec 1 10 then query
         else let w_a = exp_a / total; w_b = exp_b / total
              in normalize (map2 (\<lambda>a b. w_a * a + w_b * b) recon_a recon_b))"

record ComposeReadResult =
  crr_result :: "f64 list"
  crr_weights :: "f64 list"
  crr_confidences :: "f64 list"

text \<open>\<open>blended[j]\<close> panics where a reconstruction is longer than the query.\<close>

definition compose_read :: "libm \<Rightarrow> f64 list \<Rightarrow> EAMSnapshot list \<Rightarrow> f64 \<Rightarrow> ComposeReadResult ares" where
  "compose_read L query parents sharpness =
     (let reads = map (\<lambda>p. read_parent_with_confidence L query (sn_locations p) (sn_config p)) parents;
          recons = map fst reads; confs = map snd reads;
          max_conf = foldl f64_max f64_neg_infinity confs;
          exps = map (\<lambda>c. lm_exp L ((c - max_conf) * sharpness)) confs;
          total = f64_sum exps
      in if total < f64_dec 1 10
         then Inr \<lparr>crr_result = query,
                crr_weights = replicate (length parents) (1 / f64_of_nat (length parents)), crr_confidences = confs\<rparr>
         else if list_ex (\<lambda>r. length query < length r) recons then Inl Crash
         else let weights = map (\<lambda>e. e / total) exps;
                  blended = foldl (\<lambda>b (r, w). add_scaled b r w) (replicate (length query) 0) (zip recons weights)
              in Inr \<lparr>crr_result = normalize blended, crr_weights = weights, crr_confidences = confs\<rparr>)"

end
