(* ===== verification/Routes.thy ===== *)
theory Routes
  imports Hive Permute_Group Bind Compose
begin

text \<open>
  heather_server/src/routes.rs: the vector, algebra and compose endpoints, as functions from a
  request and the database to a response. A source is looked up, the size of the result is
  estimated against the server's cap, the target is opened or made, and then a blocking task takes
  snapshots, computes and loads the result into the target. A panic in a task becomes an internal
  error; one in the handler itself closes the connection (\<open>Aborted\<close>). Each handler is run alone.
\<close>

section \<open>Responses\<close>

datatype StatusCode = BAD_REQUEST | NOT_FOUND | CONFLICT | INTERNAL_SERVER_ERROR

text \<open>The texts of errors: a message, the display of an error, or that of a join error.\<close>

datatype error_text = Text message | OfDb herror | OfAlgebra AlgebraError | TaskPanicked

datatype 'b Response = Json 'b | ErrorResponse StatusCode error_text | Aborted

definition db_error_response :: "StatusCode \<Rightarrow> fault \<Rightarrow> 'b Response" where
  "db_error_response status f = (case f of Error e \<Rightarrow> ErrorResponse status (OfDb e) | Panic \<Rightarrow> Aborted)"

definition algebra_error_response :: "AlgebraError \<Rightarrow> 'b Response" where
  "algebra_error_response e =
     ErrorResponse (case e of Db (Conflict _) \<Rightarrow> CONFLICT | _ \<Rightarrow> BAD_REQUEST) (OfAlgebra e)"

text \<open>What is random or in other crates: the cap of the process, the shuffle, the hash, powers.\<close>

record algebra_env =
  ae_limits :: "Limits option"
  ae_shuffle :: "u64 \<Rightarrow> nat list \<Rightarrow> nat list"
  ae_sha256 :: "bytes \<Rightarrow> bytes"
  ae_powf :: "complex64 \<Rightarrow> f64 \<Rightarrow> complex64"
  ae_polar :: polar

section \<open>Vectors\<close>

record VecPairRequest =
  vp_a :: "f64 list"
  vp_b :: "f64 list"
  vp_normalize :: "bool option"
  vp_exact :: "bool option"
  vp_eps :: "f64 option"

definition unwrap_or :: "'a \<Rightarrow> 'a option \<Rightarrow> 'a" where
  "unwrap_or d x = (case x of Some y \<Rightarrow> y | None \<Rightarrow> d)"

text \<open>A vector computed in the handler itself.\<close>

definition vec_reply :: "f64 list ares \<Rightarrow> f64 list Response" where
  "vec_reply r =
     (case r of
        Inr v \<Rightarrow> Json v
      | Inl (Alg e) \<Rightarrow> ErrorResponse BAD_REQUEST (OfAlgebra e)
      | Inl Crash \<Rightarrow> Aborted)"

definition unequal :: "'b Response" where
  "unequal = ErrorResponse BAD_REQUEST (Text (msg ''a and b must have equal length''))"

definition vec_bind :: "rfft \<Rightarrow> VecPairRequest \<Rightarrow> f64 list Response" where
  "vec_bind T req =
     (if length (vp_a req) \<noteq> length (vp_b req) then unequal
      else if unwrap_or True (vp_normalize req) then vec_reply (bind_vec T (vp_a req) (vp_b req))
      else vec_reply (circular_convolve T (vp_a req) (vp_b req)))"

definition vec_unbind :: "rfft \<Rightarrow> VecPairRequest \<Rightarrow> f64 list Response" where
  "vec_unbind T req =
     (if length (vp_a req) \<noteq> length (vp_b req) then unequal
      else if unwrap_or False (vp_exact req)
      then vec_reply (unbind_exact_vec T (vp_a req) (vp_b req) (unwrap_or (f64_dec 1 9) (vp_eps req)))
      else vec_reply (unbind_vec T (vp_a req) (vp_b req)))"

record BundleTerm =
  bt_vector :: "f64 list"
  bt_weight :: f64

record BundleRequest =
  br_terms :: "BundleTerm list"
  br_normalize :: "bool option"

definition vec_bundle :: "BundleRequest \<Rightarrow> f64 list Response" where
  "vec_bundle req =
     vec_reply (bundle_vec (map bt_vector (br_terms req)) (map bt_weight (br_terms req))
       (unwrap_or True (br_normalize req)))"

record VecPowRequest =
  pw_a :: "f64 list"
  pw_t :: f64

definition vec_pow :: "algebra_env \<Rightarrow> rfft \<Rightarrow> VecPowRequest \<Rightarrow> f64 list Response" where
  "vec_pow A T req =
     (if pw_a req = [] then ErrorResponse BAD_REQUEST (Text (msg ''a must be non-empty''))
      else vec_reply (pow_vec T (ae_powf A) (pw_a req) (pw_t req)))"

datatype PermKey = Seed u64 | Name bytes

definition perm_key :: "u64 option \<Rightarrow> bytes option \<Rightarrow> message + PermKey" where
  "perm_key seed name =
     (case (seed, name) of
        (Some s, None) \<Rightarrow> Inr (Seed s)
      | (None, Some n) \<Rightarrow> Inr (Name n)
      | _ \<Rightarrow> Inl (msg ''provide exactly one of `seed` or `name`''))"

definition permutation_of :: "algebra_env \<Rightarrow> nat \<Rightarrow> PermKey \<Rightarrow> Permutation" where
  "permutation_of A d key =
     (case key of
        Seed s \<Rightarrow> from_seed (ae_shuffle A) d s
      | Name n \<Rightarrow> from_name (ae_shuffle A) (ae_sha256 A) d n)"

record VecRotateRequest =
  vr_a :: "f64 list"
  vr_seed :: "u64 option"
  vr_name :: "bytes option"
  vr_t :: f64

text \<open>\<open>None\<close>: the handler does not return.\<close>

definition vec_rotate :: "algebra_env \<Rightarrow> VecRotateRequest \<Rightarrow> f64 list Response option" where
  "vec_rotate A req =
     (if vr_a req = [] then Some (ErrorResponse BAD_REQUEST (Text (msg ''a must be non-empty'')))
      else case perm_key (vr_seed req) (vr_name req) of
        Inl m \<Rightarrow> Some (ErrorResponse BAD_REQUEST (Text m))
      | Inr key \<Rightarrow>
          map_option (\<lambda>r. case r of
              Inr v \<Rightarrow> Json v
            | Inl (Alg e) \<Rightarrow> algebra_error_response e
            | Inl Crash \<Rightarrow> Aborted)
            (apply_rotate (ae_polar A) (permutation_of A (length (vr_a req)) key) (vr_a req) (vr_t req)))"

section \<open>Snapshots of collections\<close>

definition from_collection :: "Collection \<Rightarrow> EAMSnapshot ares" where
  "from_collection c =
     ebind (of_db (Collection_snapshot c)) (\<lambda>(ls, cfg). Inr \<lparr>sn_locations = ls, sn_config = cfg\<rparr>)"

text \<open>The collection is given by its handle.\<close>

definition into_collection_checked ::
  "('r, 'db) machine \<Rightarrow> EAMSnapshot \<Rightarrow> nat \<Rightarrow> u64 \<Rightarrow> ('r, 'db) hworld \<Rightarrow> unit ares \<times> ('r, 'db) hworld" where
  "into_collection_checked M s t expected w =
     (let (r, w) = on_collection t (load_snapshot_checked M (sn_locations s) (sn_config s) (Some expected)) w
      in (of_db r, w))"

definition into_collection ::
  "('r, 'db) machine \<Rightarrow> EAMSnapshot \<Rightarrow> nat \<Rightarrow> ('r, 'db) hworld \<Rightarrow> unit ares \<times> ('r, 'db) hworld" where
  "into_collection M s t w =
     (let (r, w) = on_collection t (load_snapshot M (sn_locations s) (sn_config s)) w in (of_db r, w))"

section \<open>Handlers\<close>

definition with_source ::
  "('r, 'db) machine \<Rightarrow> string \<Rightarrow> bytes \<Rightarrow> (nat \<Rightarrow> ('r, 'db) hworld \<Rightarrow> 'b Response \<times> ('r, 'db) hworld) \<Rightarrow>
   ('r, 'db) hworld \<Rightarrow> 'b Response \<times> ('r, 'db) hworld" where
  "with_source M missing name k w =
     (case Hive_get M name w of
        (Inr (Some a), w) \<Rightarrow> k a w
      | (Inr None, w) \<Rightarrow>
          (ErrorResponse NOT_FOUND (Text (Fmt missing [S (map (\<lambda>b. char_of (unat b)) name)])), w)
      | (Inl e, w) \<Rightarrow> (db_error_response INTERNAL_SERVER_ERROR e, w))"

definition with_target ::
  "('r, 'db) machine \<Rightarrow> bytes \<Rightarrow> (nat \<Rightarrow> ('r, 'db) hworld \<Rightarrow> 'b Response \<times> ('r, 'db) hworld) \<Rightarrow>
   ('r, 'db) hworld \<Rightarrow> 'b Response \<times> ('r, 'db) hworld" where
  "with_target M name k w =
     (case Hive_get_or_create M name w of
        (Inr a, w) \<Rightarrow> k a w
      | (Inl e, w) \<Rightarrow> (db_error_response INTERNAL_SERVER_ERROR e, w))"

definition refused_by_cap :: "Limits option \<Rightarrow> Collection \<Rightarrow> Collection \<Rightarrow> nat \<Rightarrow> 'b Response option" where
  "refused_by_cap cell a b max_cross_k =
     (if max_algebra_locations (limits_get cell) = 0 then None
      else case (num_locations a, num_locations b) of
        (Inr n_a, Inr n_b) \<Rightarrow>
          (case check_cross_product_cap cell n_a n_b max_cross_k of
             Inl m \<Rightarrow> Some (ErrorResponse BAD_REQUEST (Text m))
           | Inr _ \<Rightarrow> None)
      | _ \<Rightarrow> Some (ErrorResponse INTERNAL_SERVER_ERROR (Text (msg ''failed to size source collections''))))"

record AlgebraResponse =
  ar_collection :: bytes
  ar_num_locations :: nat

definition algebra_reply :: "bytes \<Rightarrow> nat ares \<Rightarrow> AlgebraResponse Response" where
  "algebra_reply target r =
     (case r of
        Inr n \<Rightarrow> Json \<lparr>ar_collection = target, ar_num_locations = n\<rparr>
      | Inl (Alg e) \<Rightarrow> algebra_error_response e
      | Inl Crash \<Rightarrow> ErrorResponse INTERNAL_SERVER_ERROR TaskPanicked)"

text \<open>The end of every task: the result, if there is one, is loaded into the target, checked if the
  version of the target was looked at.\<close>

definition store_result ::
  "('r, 'db) machine \<Rightarrow> nat \<Rightarrow> (u64 option \<times> EAMSnapshot) ares \<Rightarrow> ('r, 'db) hworld \<Rightarrow>
   nat ares \<times> ('r, 'db) hworld" where
  "store_result M t computed w =
     (case computed of
        Inl e \<Rightarrow> (Inl e, w)
      | Inr (expected, s) \<Rightarrow>
          (let (r, w) = (case expected of
                 Some v \<Rightarrow> into_collection_checked M s t v w
               | None \<Rightarrow> into_collection M s t w)
           in (ebind r (\<lambda>_. Inr (sn_num_locations s)), w)))"

text \<open>The version of the target first, then the sources, then the operation.\<close>

definition versioned ::
  "nat \<Rightarrow> ('r, 'db) hworld \<Rightarrow> EAMSnapshot ares \<Rightarrow> (u64 option \<times> EAMSnapshot) ares" where
  "versioned t w computed =
     ebind (of_db (Collection_version (hv_heap (fst w) ! t))) (\<lambda>v. ebind computed (\<lambda>s. Inr (Some v, s)))"

definition cross_task ::
  "('r, 'db) machine \<Rightarrow> (EAMSnapshot \<Rightarrow> EAMSnapshot \<Rightarrow> EAMSnapshot ares) \<Rightarrow> nat \<Rightarrow> nat \<Rightarrow> nat \<Rightarrow>
   ('r, 'db) hworld \<Rightarrow> nat ares \<times> ('r, 'db) hworld" where
  "cross_task M f a b t w =
     store_result M t (versioned t w
       (ebind (from_collection (hv_heap (fst w) ! a)) (\<lambda>sa.
        ebind (from_collection (hv_heap (fst w) ! b)) (\<lambda>sb. f sa sb)))) w"

record AlgebraAddRequest =
  aa_source_a :: bytes
  aa_source_b :: bytes
  aa_target :: bytes
  aa_max_cross_k :: "nat option"

type_synonym AlgebraSubRequest = AlgebraAddRequest
type_synonym AlgebraBindRequest = AlgebraAddRequest

text \<open>What \<open>algebra_add\<close>, \<open>algebra_sub\<close> and \<open>algebra_bind\<close> have in common.\<close>

definition algebra_cross ::
  "('r, 'db) machine \<Rightarrow> algebra_env \<Rightarrow> (nat \<Rightarrow> EAMSnapshot \<Rightarrow> EAMSnapshot \<Rightarrow> EAMSnapshot ares) \<Rightarrow>
   AlgebraAddRequest \<Rightarrow> ('r, 'db) hworld \<Rightarrow> AlgebraResponse Response \<times> ('r, 'db) hworld" where
  "algebra_cross M A f req =
     with_source M ''source collection '{}' not found'' (aa_source_a req) (\<lambda>a.
     with_source M ''source collection '{}' not found'' (aa_source_b req) (\<lambda>b w.
       let k = unwrap_or 0 (aa_max_cross_k req) in
       case refused_by_cap (ae_limits A) (hv_heap (fst w) ! a) (hv_heap (fst w) ! b) k of
         Some resp \<Rightarrow> (resp, w)
       | None \<Rightarrow> with_target M (aa_target req) (\<lambda>t w.
           let (r, w) = cross_task M (f k) a b t w in (algebra_reply (aa_target req) r, w)) w))"

definition algebra_add ::
  "('r, 'db) machine \<Rightarrow> algebra_env \<Rightarrow> AlgebraAddRequest \<Rightarrow> ('r, 'db) hworld \<Rightarrow>
   AlgebraResponse Response \<times> ('r, 'db) hworld" where
  "algebra_add M A = algebra_cross M A (\<lambda>k a b. add_with_limit (mc_libm M) (mc_projected M) a b k)"

definition algebra_sub ::
  "('r, 'db) machine \<Rightarrow> algebra_env \<Rightarrow> AlgebraSubRequest \<Rightarrow> ('r, 'db) hworld \<Rightarrow>
   AlgebraResponse Response \<times> ('r, 'db) hworld" where
  "algebra_sub M A = algebra_cross M A (\<lambda>k a b. sub_with_limit (mc_libm M) (mc_projected M) a b k)"

definition algebra_bind ::
  "('r, 'db) machine \<Rightarrow> algebra_env \<Rightarrow> AlgebraBindRequest \<Rightarrow> ('r, 'db) hworld \<Rightarrow>
   AlgebraResponse Response \<times> ('r, 'db) hworld" where
  "algebra_bind M A = algebra_cross M A (\<lambda>k a b. bind_with_limit (mc_fft M) (mc_libm M) (mc_projected M) a b k)"

record AlgebraUnbindRequest =
  au_source :: bytes
  au_key_vector :: "f64 list"
  au_target :: bytes

definition key_snapshot :: "f64 list \<Rightarrow> EAMSnapshot \<Rightarrow> EAMSnapshot ares" where
  "key_snapshot key s =
     ebind (eensure (length key = sn_dim s) (Alg (AlgDimension (sn_dim s) (length key)))) (\<lambda>_.
     EAMSnapshot_new [(HardLocation_new 0 (normalize key))\<lparr>loc_counter := key, loc_write_count := 1\<rparr>]
       (sn_config s))"

definition algebra_unbind ::
  "('r, 'db) machine \<Rightarrow> AlgebraUnbindRequest \<Rightarrow> ('r, 'db) hworld \<Rightarrow>
   AlgebraResponse Response \<times> ('r, 'db) hworld" where
  "algebra_unbind M req =
     with_source M ''source collection '{}' not found'' (au_source req) (\<lambda>a.
     with_target M (au_target req) (\<lambda>t w.
       let (r, w) = store_result M t (versioned t w
             (ebind (from_collection (hv_heap (fst w) ! a)) (\<lambda>s.
              ebind (key_snapshot (au_key_vector req) s) (\<lambda>key. unbind_snapshots (mc_fft M) s key)))) w
       in (algebra_reply (au_target req) r, w)))"

record AlgebraScaleRequest =
  as_source :: bytes
  as_target :: bytes
  as_alpha :: f64

definition algebra_scale ::
  "('r, 'db) machine \<Rightarrow> AlgebraScaleRequest \<Rightarrow> ('r, 'db) hworld \<Rightarrow>
   AlgebraResponse Response \<times> ('r, 'db) hworld" where
  "algebra_scale M req =
     with_source M ''source collection '{}' not found'' (as_source req) (\<lambda>a.
     with_target M (as_target req) (\<lambda>t w.
       let (r, w) = store_result M t (versioned t w
             (ebind (from_collection (hv_heap (fst w) ! a)) (\<lambda>s. scale s (as_alpha req)))) w
       in (algebra_reply (as_target req) r, w)))"

record AlgebraPermuteRequest =
  ap_source :: bytes
  ap_target :: bytes
  ap_seed :: "u64 option"
  ap_name :: "bytes option"
  ap_power :: int

text \<open>The target is loaded without looking at its version, and every error is a bad request.\<close>

definition algebra_permute ::
  "('r, 'db) machine \<Rightarrow> algebra_env \<Rightarrow> AlgebraPermuteRequest \<Rightarrow> ('r, 'db) hworld \<Rightarrow>
   AlgebraResponse Response \<times> ('r, 'db) hworld" where
  "algebra_permute M A req w =
     (case perm_key (ap_seed req) (ap_name req) of
        Inl m \<Rightarrow> (ErrorResponse BAD_REQUEST (Text m), w)
      | Inr key \<Rightarrow>
         with_source M ''source collection '{}' not found'' (ap_source req) (\<lambda>a.
         with_target M (ap_target req) (\<lambda>t w.
           let (r, w) = store_result M t
                 (ebind (from_collection (hv_heap (fst w) ! a)) (\<lambda>s.
                  ebind (permute_snapshot s (permutation_of A (sn_dim s) key) (ap_power req)) (\<lambda>p. Inr (None, p)))) w
           in (case r of
                 Inr n \<Rightarrow> Json \<lparr>ar_collection = ap_target req, ar_num_locations = n\<rparr>
               | Inl (Alg e) \<Rightarrow> ErrorResponse BAD_REQUEST (OfAlgebra e)
               | Inl Crash \<Rightarrow> ErrorResponse INTERNAL_SERVER_ERROR TaskPanicked, w))) w)"

record AlgebraIntersectRequest =
  ai_source_a :: bytes
  ai_source_b :: bytes
  ai_target :: bytes
  ai_threshold :: f64

text \<open>The cap is looked at after the target was made, and only for a threshold that is not positive.\<close>

definition algebra_intersect ::
  "('r, 'db) machine \<Rightarrow> algebra_env \<Rightarrow> AlgebraIntersectRequest \<Rightarrow> ('r, 'db) hworld \<Rightarrow>
   AlgebraResponse Response \<times> ('r, 'db) hworld" where
  "algebra_intersect M A req =
     with_source M ''source collection '{}' not found'' (ai_source_a req) (\<lambda>a.
     with_source M ''source collection '{}' not found'' (ai_source_b req) (\<lambda>b.
     with_target M (ai_target req) (\<lambda>t w.
       case (if ai_threshold req \<le> 0 then refused_by_cap (ae_limits A) (hv_heap (fst w) ! a) (hv_heap (fst w) ! b) 0
             else None) of
         Some resp \<Rightarrow> (resp, w)
       | None \<Rightarrow>
           let (r, w) = cross_task M (\<lambda>sa sb. intersect sa sb (ai_threshold req)) a b t w
           in (algebra_reply (ai_target req) r, w))))"

text \<open>The routes of the algebra (main.rs), with the collections that a request names.\<close>

datatype algebra_request =
    AddRoute AlgebraAddRequest
  | SubRoute AlgebraSubRequest
  | BindRoute AlgebraBindRequest
  | UnbindRoute AlgebraUnbindRequest
  | ScaleRoute AlgebraScaleRequest
  | PermuteRoute AlgebraPermuteRequest
  | IntersectRoute AlgebraIntersectRequest

fun algebra_route ::
  "('r, 'db) machine \<Rightarrow> algebra_env \<Rightarrow> algebra_request \<Rightarrow> ('r, 'db) hworld \<Rightarrow>
   AlgebraResponse Response \<times> ('r, 'db) hworld" where
  "algebra_route M A (AddRoute req) = algebra_add M A req"
| "algebra_route M A (SubRoute req) = algebra_sub M A req"
| "algebra_route M A (BindRoute req) = algebra_bind M A req"
| "algebra_route M A (UnbindRoute req) = algebra_unbind M req"
| "algebra_route M A (ScaleRoute req) = algebra_scale M req"
| "algebra_route M A (PermuteRoute req) = algebra_permute M A req"
| "algebra_route M A (IntersectRoute req) = algebra_intersect M A req"

fun request_names :: "algebra_request \<Rightarrow> bytes list" where
  "request_names (AddRoute req) = [aa_source_a req, aa_source_b req, aa_target req]"
| "request_names (SubRoute req) = [aa_source_a req, aa_source_b req, aa_target req]"
| "request_names (BindRoute req) = [aa_source_a req, aa_source_b req, aa_target req]"
| "request_names (UnbindRoute req) = [au_source req, au_target req]"
| "request_names (ScaleRoute req) = [as_source req, as_target req]"
| "request_names (PermuteRoute req) = [ap_source req, ap_target req]"
| "request_names (IntersectRoute req) = [ai_source_a req, ai_source_b req, ai_target req]"

section \<open>Reading several collections\<close>

record ComposeReadRequest =
  cq_collections :: "bytes list"
  cq_query :: "f64 list"
  cq_routing_sharpness :: f64

record ComposeReadResponse =
  cp_result :: "f64 list"
  cp_weights :: "bytes \<rightharpoonup> f64"
  cp_confidences :: "bytes \<rightharpoonup> f64"

fun with_sources ::
  "('r, 'db) machine \<Rightarrow> bytes list \<Rightarrow> nat list \<Rightarrow>
   (nat list \<Rightarrow> ('r, 'db) hworld \<Rightarrow> 'b Response \<times> ('r, 'db) hworld) \<Rightarrow>
   ('r, 'db) hworld \<Rightarrow> 'b Response \<times> ('r, 'db) hworld" where
  "with_sources M [] cols k w = k cols w"
| "with_sources M (name # names) cols k w =
     with_source M ''collection '{}' not found'' name (\<lambda>a. with_sources M names (cols @ [a]) k) w"

definition compose_read_route ::
  "('r, 'db) machine \<Rightarrow> ComposeReadRequest \<Rightarrow> ('r, 'db) hworld \<Rightarrow>
   ComposeReadResponse Response \<times> ('r, 'db) hworld" where
  "compose_read_route M req w =
     (if length (cq_collections req) < 2
      then (ErrorResponse BAD_REQUEST (Text (msg ''compose read requires at least 2 collections'')), w)
      else with_sources M (cq_collections req) [] (\<lambda>cols w.
        let names = cq_collections req;
            r = ebind (emap (\<lambda>a. from_collection (hv_heap (fst w) ! a)) cols) (\<lambda>snapshots.
                compose_read (mc_libm M) (cq_query req) snapshots (cq_routing_sharpness req))
        in (case r of
              Inr cr \<Rightarrow> Json \<lparr>cp_result = crr_result cr, cp_weights = map_of (rev (zip names (crr_weights cr))),
                          cp_confidences = map_of (rev (zip names (crr_confidences cr)))\<rparr>
            | Inl (Alg e) \<Rightarrow> ErrorResponse BAD_REQUEST (OfAlgebra e)
            | Inl Crash \<Rightarrow> ErrorResponse INTERNAL_SERVER_ERROR TaskPanicked, w)) w)"

end
