(* ===== verification/Algebra_Results.thy ===== *)
theory Algebra_Results
  imports Permute_Group Bind Compose
begin

text \<open>
  What the operations of the algebra give back: snapshots whose locations have the dimension of
  the snapshot and increasing ids (\<open>snap_ok\<close>), however the operations are nested (\<open>derived\<close>),
  and no more locations than the server's estimate.
\<close>

section \<open>Well-formed snapshots\<close>

definition cells_ok :: "nat \<Rightarrow> HardLocation list \<Rightarrow> bool" where
  "cells_ok d ls \<longleftrightarrow> (\<forall>l\<in>set ls. loc_wf d l)"

definition snap_ok :: "EAMSnapshot \<Rightarrow> bool" where
  "snap_ok s \<longleftrightarrow>
     cells_ok (sn_dim s) (sn_locations s) \<and> sorted_wrt (<) (map loc_id (sn_locations s)) \<and>
     (\<forall>l\<in>set (sn_locations s). loc_id l < - 1) \<and> length (sn_locations s) < 2 ^ 64"

named_theorems cells \<open>what keeps the dimensions of locations\<close>

lemma cells_ok_simps [simp]:
  "cells_ok d []" "cells_ok d (l # ls) \<longleftrightarrow> loc_wf d l \<and> cells_ok d ls"
  "cells_ok d (xs @ ys) \<longleftrightarrow> cells_ok d xs \<and> cells_ok d ys"
  by (auto simp: cells_ok_def)

lemma cells_okD: "cells_ok d ls \<Longrightarrow> l \<in> set ls \<Longrightarrow> loc_wf d l"
  "cells_ok d ls \<Longrightarrow> i < length ls \<Longrightarrow> loc_wf d (ls ! i)"
  by (simp_all add: cells_ok_def)

lemma cells_ok_subset: "cells_ok d ls \<Longrightarrow> set ls' \<subseteq> set ls \<Longrightarrow> cells_ok d ls'"
  by (auto simp: cells_ok_def)

lemma of_nat_less_u64: "i < j \<Longrightarrow> j < 2 ^ 64 \<Longrightarrow> (of_nat i :: u64) < of_nat j"
  by (simp add: word_less_nat_alt unat_of_nat take_bit_nat_eq_self)

lemma of_nat_less_max: "i + 1 < 2 ^ 64 \<Longrightarrow> (of_nat i :: u64) < - 1"
  by (simp add: word_less_nat_alt unat_of_nat take_bit_nat_eq_self unsigned_minus_1_eq_mask mask_eq_exp_minus_1)

lemma reindex_cells [cells]: "cells_ok d (sn_locations s) \<Longrightarrow> cells_ok d (sn_locations (reindex s))"
  by (auto simp: cells_ok_def reindex_def loc_wf_def dest: set_zip_rightD)

lemma reindex_ok:
  assumes "cells_ok (sn_dim s) (sn_locations s)" "length (sn_locations s) < 2 ^ 64"
  shows "snap_ok (reindex s)"
proof -
  let ?n = "length (sn_locations s)"
  have dim: "sn_dim (reindex s) = sn_dim s" by (simp add: sn_dim_def)
  have ids: "map loc_id (sn_locations (reindex s)) = map of_nat [0..<?n]" by (rule reindex_ids)
  have "sorted_wrt (<) (map of_nat [0..<?n] :: u64 list)"
    using assms(2) by (auto simp: sorted_wrt_iff_nth_less intro: of_nat_less_u64)
  moreover have "loc_id l < - 1" if "l \<in> set (sn_locations (reindex s))" for l
  proof -
    have "loc_id l \<in> set (map of_nat [0..<?n])" using that by (simp add: ids [symmetric])
    then show ?thesis using assms(2) by (auto intro!: of_nat_less_max)
  qed
  ultimately show ?thesis using assms reindex_cells by (simp add: snap_ok_def dim ids)
qed

section \<open>Merging\<close>

definition projected_ok :: "projected \<Rightarrow> bool" where
  "projected_ok P \<longleftrightarrow> (\<forall>ls norms nns. P ls norms = Some nns \<longrightarrow> neighbors_ok (length ls) nns)"

lemma nearest_neighbors_ok:
  "projected_ok P \<Longrightarrow> length ls < 2 ^ 64 \<Longrightarrow> neighbors_ok (length ls) (nearest_neighbors P ls norms)"
  using brute_ok [of ls norms] by (auto simp: nearest_neighbors_def projected_ok_def usize_max_def split: option.split)

lemma merge_into_wf: "loc_wf d a \<Longrightarrow> loc_wf d b \<Longrightarrow> loc_wf d (merge_into c cap a b)"
  by (simp add: merge_into_def loc_wf_def Let_def)

lemma merge_pair_cells:
  assumes "cells_ok d (ms_locations s)" "i < length (ms_locations s)" "j < length (ms_locations s)"
  shows "cells_ok d (ms_locations (merge_pair L c s (i, j, x)))"
    "length (ms_locations (merge_pair L c s (i, j, x))) = length (ms_locations s)"
  using assms merge_into_wf [OF cells_okD(2) cells_okD(2)]
  by (auto simp: merge_pair_def Let_def cells_ok_def dest!: subsetD [OF set_update_subset_insert])

lemma knn_merge_cells [cells]:
  assumes "cells_ok d ls" "projected_ok P" "length ls < 2 ^ 64"
  shows "cells_ok d (snd (knn_merge L P ls c))"
proof (cases "length ls < 2")
  case True
  then show ?thesis using assms by (simp add: knn_merge_def)
next
  case False
  define f where "f = foldl (merge_pair L c)"
  let ?s0 = "\<lparr>ms_locations = ls, ms_merged = replicate (length ls) False, ms_removed = [], ms_map = [], ms_count = 0\<rparr>"
  have "cells_ok d (ms_locations (f ?s0 ps)) \<and> length (ms_locations (f ?s0 ps)) = length ls"
    if "set ps \<subseteq> set (merge_pairs P c ls)" for ps
    using that
  proof (induction ps rule: rev_induct)
    case (snoc x ps)
    obtain i j y where x: "x = (i, j, y)" by (cases x)
    have "i < length ls" "j < length ls"
      using merge_pairs_ok [OF nearest_neighbors_ok [OF assms(2,3)]] snoc.prems by (auto simp: x)
    then show ?case using snoc merge_pair_cells [of d "f ?s0 ps" i j L c y] by (simp add: x f_def)
  qed (simp add: f_def assms(1))
  then have "cells_ok d (ms_locations (f ?s0 (merge_pairs P c ls)))" by simp
  then show ?thesis using False
    by (auto simp: knn_merge_def Let_def cells_ok_def f_def dest: set_zip_rightD)
qed

lemma consolidate_ok:
  assumes "cells_ok (sn_dim s) (sn_locations s)" "projected_ok P" "length (sn_locations s) < 2 ^ 64"
  shows "snap_ok (consolidate L P s)"
proof -
  let ?t = "s\<lparr>sn_locations := snd (knn_merge L P (sn_locations s) (sn_config s))\<rparr>"
  have "cells_ok (sn_dim ?t) (sn_locations ?t)" "length (sn_locations ?t) < 2 ^ 64"
    using knn_merge_cells [OF assms] length_knn_merge [of L P "sn_locations s" "sn_config s"] assms(3)
    by (simp_all add: sn_dim_def)
  then show ?thesis unfolding consolidate_def by (rule reindex_ok)
qed

section \<open>Sum, difference and product\<close>

lemma pattern_location_wf: "length v = d \<Longrightarrow> loc_wf d (pattern_location i v)"
  by (simp add: pattern_location_def HardLocation_new_def loc_wf_def)

lemma pattern_locations_cells [cells]:
  "\<forall>v\<in>set vs. length v = d \<Longrightarrow> cells_ok d (map (\<lambda>(i, v). pattern_location i v) (zip is vs))"
  by (auto simp: cells_ok_def pattern_location_wf dest: set_zip_rightD)

lemma pattern_lengths: "cells_ok d (sn_locations s) \<Longrightarrow> p \<in> set (extract_patterns s) \<Longrightarrow> length p = d"
  by (auto simp: extract_patterns_def cells_ok_def loc_wf_def)

lemma combine_row_lengths:
  assumes "length pa = d" "\<forall>p\<in>set pbs. length p = d" "set ps \<subseteq> {..<length pbs}" "v \<in> set (combine_row sign pa pbs ps)"
  shows "length v = d"
proof -
  obtain j where "j \<in> set ps" "v = map2 (\<lambda>a b. a + sign * b) pa (pbs ! j)"
    using assms(4) by (auto simp: combine_row_def set_map_filter Let_def split: if_splits)
  then show ?thesis using assms(1-3) by auto
qed

lemma pairwise_combine_cells [cells]:
  assumes "cells_ok d (sn_locations a)" "cells_ok d (sn_locations b)"
  shows "cells_ok d (pairwise_combine a b sign k)"
proof -
  have "length v = d"
    if "(la, pa) \<in> set (zip (sn_locations a) (extract_patterns a))"
      "v \<in> set (combine_row sign pa (extract_patterns b) (cross_partners k la (sn_locations b)))" for la pa v
    using combine_row_lengths [OF _ _ _ that(2)] pattern_lengths [OF assms(1)] pattern_lengths [OF assms(2)]
      cross_partners_range that(1)
    by (auto simp: extract_patterns_def dest!: set_zip_rightD)
  then show ?thesis unfolding pairwise_combine_def Let_def by (intro pattern_locations_cells) auto
qed

lemma combined_snapshot_ok:
  assumes "cells_ok (sn_dim a) (sn_locations a)" "cells_ok (sn_dim a) (sn_locations b)" "projected_ok P"
    and "cross_count (length (sn_locations a)) (length (sn_locations b)) k < 2 ^ 64"
  shows "snap_ok (combined_snapshot L P a b sign k)" "sn_config (combined_snapshot L P a b sign k) = sn_config a"
proof -
  let ?s = "\<lparr>sn_locations = pairwise_combine a b sign k, sn_config = sn_config a\<rparr>"
  have "length (pairwise_combine a b sign k) < 2 ^ 64"
    by (rule le_less_trans [OF pairwise_combine_rows assms(4)])
  then have "cells_ok (sn_dim (reindex ?s)) (sn_locations (reindex ?s))" "length (sn_locations (reindex ?s)) < 2 ^ 64"
    using reindex_cells [of "sn_dim a" ?s] pairwise_combine_cells [OF assms(1,2)] by (auto simp: sn_dim_def)
  then show "snap_ok (combined_snapshot L P a b sign k)"
    unfolding combined_snapshot_def by (intro consolidate_ok assms(3))
  show "sn_config (combined_snapshot L P a b sign k) = sn_config a"
    by (simp add: combined_snapshot_def consolidate_def)
qed

definition fft_ok :: "rfft \<Rightarrow> bool" where
  "fft_ok T \<longleftrightarrow> (\<forall>d spec out. rf_inverse T d spec = Some out \<longrightarrow> length out = d)"

lemma convolve_length: "fft_ok T \<Longrightarrow> convolve_via_spec T sa sb d = Inr v \<Longrightarrow> length v = d"
  by (auto simp: convolve_via_spec_def ifft_into_def Let_def fft_ok_def split: option.splits)

lemma bound_pattern_length: "fft_ok T \<Longrightarrow> bound_pattern T d sa sb = Inr v \<Longrightarrow> v = [] \<or> length v = d"
  by (auto simp: bound_pattern_def ebind_Inr Let_def dest: convolve_length split: if_splits)

lemma bind_with_limit_cases:
  assumes "bind_with_limit T L P a b k = Inr r"
  obtains "sn_dim a = sn_dim b" "sn_locations a = [] \<or> sn_locations b = []" "r = \<lparr>sn_locations = [], sn_config = sn_config a\<rparr>"
  | bounds specs_a specs_b kept where "sn_dim a = sn_dim b" "sn_locations a \<noteq> []" "sn_locations b \<noteq> []"
    "emap (\<lambda>(i, j). bound_pattern T (sn_dim a) (specs_a ! i) (specs_b ! j))
       (bind_pairs k (sn_locations a) (sn_locations b)) = Inr bounds"
    "kept = filter (\<lambda>bound. bound \<noteq> []) bounds"
    "r = consolidate L P (reindex \<lparr>sn_locations = map (\<lambda>(i, bound). pattern_location i bound) (zip [0..<length kept] kept),
           sn_config = sn_config a\<rparr>)"
  using assms by (auto simp: bind_with_limit_def alg_check_dims_def ebind_Inr Let_def split: if_splits)

lemma bind_with_limit_ok:
  assumes "bind_with_limit T L P a b k = Inr r" "fft_ok T" "projected_ok P"
    and "cross_count (length (sn_locations a)) (length (sn_locations b)) k < 2 ^ 64"
  shows "snap_ok r" "sn_config r = sn_config a"
proof (atomize (full), use assms(1) in \<open>cases rule: bind_with_limit_cases\<close>)
  case 1
  then show "snap_ok r \<and> sn_config r = sn_config a"
    by (simp add: snap_ok_def)
next
  case (2 bounds specs_a specs_b kept)
  let ?s = "\<lparr>sn_locations = map (\<lambda>(i, bound). pattern_location i bound) (zip [0..<length kept] kept), sn_config = sn_config a\<rparr>"
  have small: "length kept < 2 ^ 64"
    using length_filter_le [of "\<lambda>bound. bound \<noteq> []" bounds] length_emap [OF 2(4)] assms(4)
    by (simp only: 2(5) length_bind_pairs)
  have "length v = sn_dim a" if v: "v \<in> set kept" for v
  proof -
    from v have "v \<in> set bounds" using 2(5) by simp
    then obtain ij where "(\<lambda>(i, j). bound_pattern T (sn_dim a) (specs_a ! i) (specs_b ! j)) ij = Inr v"
      using emap_mem [OF 2(4)] by blast
    then show ?thesis using bound_pattern_length [OF assms(2)] v 2(5) by (cases ij) auto
  qed
  then have "cells_ok (sn_dim a) (sn_locations ?s)" by (simp add: pattern_locations_cells)
  then have "snap_ok r" unfolding 2(6)
    using small reindex_cells [of "sn_dim a" ?s] by (intro consolidate_ok assms(3)) (simp_all add: sn_dim_def)
  then show "snap_ok r \<and> sn_config r = sn_config a" by (simp add: 2(6) consolidate_def)
qed

lemma bind_with_limit_size:
  assumes "bind_with_limit T L P a b k = Inr r"
  shows "length (sn_locations r) \<le> cross_count (length (sn_locations a)) (length (sn_locations b)) k"
  using assms
proof (cases rule: bind_with_limit_cases)
  case (2 bounds specs_a specs_b kept)
  have "length kept \<le> cross_count (length (sn_locations a)) (length (sn_locations b)) k"
    using length_filter_le [of "\<lambda>bound. bound \<noteq> []" bounds] length_emap [OF 2(4)]
    by (simp only: 2(5) length_bind_pairs)
  then show ?thesis unfolding 2(6) by (intro order_trans [OF length_consolidate]) simp
qed simp

lemma combined_snapshot_size:
  "length (sn_locations (combined_snapshot L P a b sign k)) \<le>
   cross_count (length (sn_locations a)) (length (sn_locations b)) k"
  using pairwise_combine_rows [of a b sign k]
  unfolding combined_snapshot_def by (intro order_trans [OF length_consolidate]) simp

lemma unbind_snapshots_ok:
  assumes "unbind_snapshots T c key = Inr r" "fft_ok T" "length (sn_locations c) < 2 ^ 64"
  shows "snap_ok r" "sn_config r = sn_config c"
proof -
  obtain spec recovered where e: "emap (\<lambda>l. ebind (fft_forward T (normalized_pattern l)) (\<lambda>s.
      convolve_via_spec T s spec (sn_dim c))) (sn_locations c) = Inr recovered"
    and r: "r = \<lparr>sn_locations = map (\<lambda>(i, r). pattern_location i r)
      (filter (\<lambda>(i, r). \<not> l2_norm r < f64_dec 1 10) (zip [0..<length recovered] recovered)), sn_config = sn_config c\<rparr>"
    using assms(1) by (auto simp: unbind_snapshots_def ebind_Inr Let_def)
  have len: "length recovered = length (sn_locations c)" using length_emap [OF e] .
  let ?found = "filter (\<lambda>(i, r). \<not> l2_norm r < f64_dec 1 10) (zip [0..<length recovered] recovered)"
  have "length v = sn_dim c" if v: "v \<in> set recovered" for v
  proof -
    obtain l where "ebind (fft_forward T (normalized_pattern l)) (\<lambda>s. convolve_via_spec T s spec (sn_dim c)) = Inr v"
      using emap_mem [OF e v] by blast
    then show ?thesis using convolve_length [OF assms(2)] by (auto simp: ebind_Inr)
  qed
  then have cells: "cells_ok (sn_dim c) (sn_locations r)"
    by (auto simp: r cells_ok_def pattern_location_wf dest: set_zip_rightD)
  have ids: "map loc_id (sn_locations r) = map (\<lambda>x. of_nat (fst x)) ?found"
    by (auto simp: r pattern_location_def HardLocation_new_def)
  have "sorted_wrt (\<lambda>x y. fst x < fst y) (zip [0..<length recovered] recovered)"
    by (auto simp: sorted_wrt_iff_nth_less)
  then have sorted: "sorted_wrt (\<lambda>x y. fst x < fst y) ?found" by (rule sorted_wrt_filter)
  have below: "fst x + 1 < 2 ^ 64" if "x \<in> set ?found" for x
  proof -
    have "fst x < length recovered" using that by (auto simp: set_zip)
    then show ?thesis using assms(3) len by linarith
  qed
  have "sorted_wrt (\<lambda>x y. (of_nat (fst x) :: u64) < of_nat (fst y)) ?found"
  proof (rule sorted_wrt_mono_rel [OF _ sorted])
    fix x y assume "x \<in> set ?found" "y \<in> set ?found" "fst x < fst y"
    then show "(of_nat (fst x) :: u64) < of_nat (fst y)" using below [of y] by (intro of_nat_less_u64) linarith+
  qed
  then have "sorted_wrt (<) (map loc_id (sn_locations r))" unfolding ids sorted_wrt_map .
  moreover have "loc_id l < - 1" if "l \<in> set (sn_locations r)" for l
  proof -
    have "loc_id l \<in> set (map (\<lambda>x. of_nat (fst x)) ?found)" using that by (simp flip: ids)
    then obtain x where "x \<in> set ?found" "loc_id l = of_nat (fst x)" by auto
    then show ?thesis using of_nat_less_max [OF below] by simp
  qed
  moreover have "length (sn_locations r) < 2 ^ 64"
    using length_filter_le [of "\<lambda>(i, r). \<not> l2_norm r < f64_dec 1 10" "zip [0..<length recovered] recovered"] assms(3) len
    by (simp add: r)
  ultimately show "snap_ok r" "sn_config r = sn_config c" using cells by (simp_all add: snap_ok_def sn_dim_def r)
qed

section \<open>The cap of the server\<close>

lemma saturating_mul_le: "saturating_mul x y \<le> c \<Longrightarrow> c < 2 ^ 64 - 1 \<Longrightarrow> x * y \<le> c"
  by (auto simp: saturating_mul_def min_def split: if_splits)

lemma cap_bounds:
  assumes "check_cross_product_cap cell n m k = Inr u" "0 < max_algebra_locations (limits_get cell)"
    and "max_algebra_locations (limits_get cell) < 2 ^ 64 - 1"
  shows "cross_count n m k \<le> max_algebra_locations (limits_get cell)"
proof -
  have "estimated_cross_locations n m k \<le> max_algebra_locations (limits_get cell)"
    using assms(1,2) by (auto simp: check_cross_product_cap_def Let_def)
  then show ?thesis
    using saturating_mul_le assms(3) unfolding estimated_cross_locations_def by (auto split: if_splits)
qed

lemma add_with_limit_size:
  assumes "add_with_limit L P a b k = Inr r"
  shows "sn_locations a \<noteq> [] \<and> sn_locations b \<noteq> [] \<Longrightarrow>
      length (sn_locations r) \<le> cross_count (length (sn_locations a)) (length (sn_locations b)) k"
    and "sn_locations a = [] \<or> sn_locations b = [] \<Longrightarrow>
      length (sn_locations r) \<le> max (length (sn_locations a)) (length (sn_locations b))"
  using assms combined_snapshot_size [of L P a b 1 k]
  by (auto simp: add_with_limit_def ebind_Inr split: if_splits)

lemma sub_with_limit_size:
  assumes "sub_with_limit L P a b k = Inr r"
  shows "sn_locations a \<noteq> [] \<and> sn_locations b \<noteq> [] \<Longrightarrow>
      length (sn_locations r) \<le> cross_count (length (sn_locations a)) (length (sn_locations b)) k"
    and "sn_locations a = [] \<or> sn_locations b = [] \<Longrightarrow>
      length (sn_locations r) \<le> max (length (sn_locations a)) (length (sn_locations b))"
  using assms combined_snapshot_size [of L P a b "- 1" k]
  by (auto simp: sub_with_limit_def negate_def scale_def ebind_Inr split: if_splits)

section \<open>Choosing partners\<close>

text \<open>The two orders differ only on equal similarities, where \<open>cross_before\<close> looks at the index
  and a stable sort keeps the order of the input.\<close>

abbreviation nearer :: "nat \<times> f64 \<Rightarrow> nat \<times> f64 \<Rightarrow> bool" where
  "nearer x y \<equiv> snd y < snd x"

lemma insert_by_cross:
  "\<forall>y\<in>set ys. fst x < fst y \<Longrightarrow> insert_by cross_before x ys = insert_by nearer x ys"
  by (induction ys) (auto simp: cross_before_def)

lemma sort_by_cross: "sorted_wrt (\<lambda>x y. fst x < fst y) xs \<Longrightarrow> sort_by cross_before xs = sort_by nearer xs"
  by (induction xs) (simp_all add: insert_by_cross)

lemma cross_sims_eq:
  "cross_sims addr bs = map (\<lambda>(j, l). (j, cosine_similarity addr (loc_address l))) (zip [0..<length bs] bs)"
  by (rule nth_equalityI) (auto simp: cross_sims_def cosine_similarity_def Let_def)

lemma cross_partners_eq: "0 < k \<Longrightarrow> k < length bs \<Longrightarrow> cross_partners k la bs = top_partners k la bs"
proof -
  have "sorted_wrt (\<lambda>x y. fst x < fst y) (cross_sims (loc_address la) bs)"
    by (auto simp: cross_sims_eq sorted_wrt_iff_nth_less)
  then show "0 < k \<Longrightarrow> k < length bs \<Longrightarrow> cross_partners k la bs = top_partners k la bs"
    by (simp add: cross_partners_def top_partners_def sort_by_cross flip: cross_sims_eq)
qed

lemma take_sorted_best:
  assumes "sorted_wrt (\<lambda>x y. \<not> lt y x) xs" "x \<in> set (take k xs)" "y \<in> set xs" "y \<notin> set (take k xs)"
  shows "\<not> lt y x"
proof -
  have "sorted_wrt (\<lambda>x y. \<not> lt y x) (take k xs @ drop k xs)" using assms(1) by simp
  moreover have "y \<in> set (drop k xs)" using assms(3,4) by (metis Un_iff append_take_drop_id set_append)
  ultimately show ?thesis using assms(2) unfolding sorted_wrt_append by blast
qed

lemma top_partners_best:
  assumes nan: "\<And>l. l \<in> set bs \<Longrightarrow> \<not> is_nan (cosine_similarity (loc_address la) (loc_address l))"
    and i: "i \<in> set (top_partners k la bs)" and j: "j < length bs" "j \<notin> set (top_partners k la bs)"
  shows "\<not> cosine_similarity (loc_address la) (loc_address (bs ! i)) < cosine_similarity (loc_address la) (loc_address (bs ! j))"
proof -
  let ?c = "\<lambda>l. cosine_similarity (loc_address la) (loc_address l)"
  let ?xs = "map (\<lambda>(j, l). (j, ?c l)) (zip [0..<length bs] bs)"
  have "?xs = map (\<lambda>j. (j, ?c (bs ! j))) [0..<length bs]" by (auto intro: nth_equalityI)
  then have entry: "x \<in> set ?xs \<longleftrightarrow> (\<exists>j<length bs. x = (j, ?c (bs ! j)))" for x by auto
  have "weak_order_on nearer {x. \<not> is_nan (snd x)}" by (auto simp: weak_order_on_def less_f64_def)
  moreover have "set ?xs \<subseteq> {x. \<not> is_nan (snd x)}" using nan by (auto dest: set_zip_rightD)
  ultimately have "weak_order_on nearer (set ?xs)" by (rule weak_order_on_subset)
  from sorted_sort_by [OF this] have s: "sorted_wrt (\<lambda>x y. \<not> nearer y x) (sort_by nearer ?xs)" .
  obtain x where x: "x \<in> set (take k (sort_by nearer ?xs))" "fst x = i" using i by (auto simp: top_partners_def)
  then have "x \<in> set ?xs" using set_take_subset [of k "sort_by nearer ?xs"] by auto
  then have x': "x = (i, ?c (bs ! i))" using x(2) unfolding entry by auto
  have "(j, ?c (bs ! j)) \<in> set (sort_by nearer ?xs)" using j(1) entry by simp
  moreover have "(j, ?c (bs ! j)) \<notin> set (take k (sort_by nearer ?xs))"
    using j(2) by (force simp: top_partners_def)
  ultimately have "\<not> nearer (j, ?c (bs ! j)) x" by (rule take_sorted_best [OF s x(1)])
  then show ?thesis by (simp add: x')
qed

section \<open>Properties\<close>

text \<open>C20: A sum, a difference or a product that the server's guard lets through stays within the
  guard's estimate, and with it within the configured cap; only where a source is empty it may
  be larger, and then no larger than the other source.\<close>

theorem algebra_stays_within_the_estimate:
  assumes "check_cross_product_cap cell (length (sn_locations a)) (length (sn_locations b)) k = Inr ()"
    and "0 < max_algebra_locations (limits_get cell)" "max_algebra_locations (limits_get cell) < 2 ^ 64 - 1"
    and "Inr r \<in> {add_with_limit L P a b k, sub_with_limit L P a b k, bind_with_limit T L P a b k}"
  shows "if sn_locations a \<noteq> [] \<and> sn_locations b \<noteq> []
     then length (sn_locations r) \<le> estimated_cross_locations (length (sn_locations a)) (length (sn_locations b)) k \<and>
       length (sn_locations r) \<le> max_algebra_locations (limits_get cell)
     else length (sn_locations r) \<le> max (length (sn_locations a)) (length (sn_locations b))"
proof -
  let ?n = "length (sn_locations a)" and ?m = "length (sn_locations b)"
  have cap: "cross_count ?n ?m k \<le> max_algebra_locations (limits_get cell)" by (rule cap_bounds [OF assms(1-3)])
  then have "estimated_cross_locations ?n ?m k = cross_count ?n ?m k"
    using assms(3) by (auto simp: estimated_cross_locations_def saturating_mul_def split: if_splits)
  moreover have "(sn_locations a \<noteq> [] \<and> sn_locations b \<noteq> [] \<longrightarrow> length (sn_locations r) \<le> cross_count ?n ?m k) \<and>
      (sn_locations a = [] \<or> sn_locations b = [] \<longrightarrow> length (sn_locations r) \<le> max ?n ?m)"
  proof -
    consider "add_with_limit L P a b k = Inr r" | "sub_with_limit L P a b k = Inr r" | "bind_with_limit T L P a b k = Inr r"
      using assms(4) by auto
    then show ?thesis
    proof cases
      case 1
      then show ?thesis using add_with_limit_size [OF 1] by blast
    next
      case 2
      then show ?thesis using sub_with_limit_size [OF 2] by blast
    next
      case 3
      show ?thesis using bind_with_limit_size [OF 3] by auto
    qed
  qed
  ultimately show ?thesis using cap by (auto split: if_splits)
qed

theorem algebra_stays_within_the_estimate_witness:
  "\<exists>r. add_with_limit flat_libm (\<lambda>_ _. None) \<lparr>sn_locations = [unit_location], sn_config = EAMConfig_defaults 2\<rparr>
      \<lparr>sn_locations = [unit_location, unit_location], sn_config = EAMConfig_defaults 2\<rparr> 1 = Inr r \<and>
     length (sn_locations r) \<le> 1"
proof -
  let ?a = "\<lparr>sn_locations = [unit_location], sn_config = EAMConfig_defaults 2\<rparr>"
  let ?b = "\<lparr>sn_locations = [unit_location, unit_location], sn_config = EAMConfig_defaults 2\<rparr>"
  let ?r = "combined_snapshot flat_libm (\<lambda>_ _. None) ?a ?b 1 1"
  have r: "add_with_limit flat_libm (\<lambda>_ _. None) ?a ?b 1 = Inr ?r"
    by (simp add: add_with_limit_def alg_check_dims_def sn_dim_def)
  have e: "estimated_cross_locations 1 (Suc (Suc 0)) 1 = 1" by (simp add: estimated_cross_locations_def saturating_mul_def)
  then have g: "check_cross_product_cap None 1 (Suc (Suc 0)) 1 = Inr ()"
    by (simp add: check_cross_product_cap_def limits_get_def Limits_default_def Let_def)
  have "length (sn_locations ?r) \<le> 1"
    using algebra_stays_within_the_estimate [of None ?a ?b 1 ?r flat_libm "\<lambda>_ _. None"] r e g
    by (simp add: limits_get_def Limits_default_def)
  with r show ?thesis by blast
qed

text \<open>C21: Limiting the partners of a location keeps the nearest ones: the selection of ops.rs
  (an unordered selection and a sort that breaks ties by the index) and that of bind.rs (a
  stable sort) choose the same \<open>k\<close> partners in the same order, and none that is left out is
  nearer than one that is kept.\<close>

theorem partners_are_the_nearest:
  assumes "0 < k" "k < length bs" "\<And>l. l \<in> set bs \<Longrightarrow> \<not> is_nan (cosine_similarity (loc_address la) (loc_address l))"
  shows "cross_partners k la bs = top_partners k la bs \<and> length (top_partners k la bs) = k \<and>
     set (top_partners k la bs) \<subseteq> {..<length bs} \<and>
     (\<forall>i\<in>set (top_partners k la bs). \<forall>j<length bs. j \<notin> set (top_partners k la bs) \<longrightarrow>
        \<not> cosine_similarity (loc_address la) (loc_address (bs ! i)) < cosine_similarity (loc_address la) (loc_address (bs ! j)))"
  using cross_partners_eq [OF assms(1,2), of la] cross_partners_range [of k la bs] length_top_partners [of k la bs]
    top_partners_best [OF assms(3)] assms(2)
  by auto

theorem partners_are_the_nearest_witness:
  "length (cross_partners 1 unit_location [unit_location, unit_location]) = 1"
proof -
  have "\<not> is_nan (cosine_similarity (loc_address unit_location) (loc_address unit_location))" by code_simp
  then show ?thesis using partners_are_the_nearest [of 1 "[unit_location, unit_location]" unit_location] by simp
qed

end
