(* ===== verification/Compose_Facts.thy ===== *)
theory Compose_Facts
  imports Algebra_Results
begin

text \<open>
  What composing two memories keeps: dimensions through probes, descent, building and dreaming,
  and the parents themselves.
\<close>

section \<open>Dimensions\<close>

lemma read_with_confidence_length:
  assumes "cells_ok d ls" "ls \<noteq> []" "0 < k"
  shows "length (fst (read_with_confidence L q ls k beta)) = d"
proof -
  obtain indices sims where a: "activate q ls (min k (length ls)) = (indices, sims)" by fastforce
  have i: "length indices = min k (length ls)" "set indices \<subseteq> {..<length ls}" using activate_bounds [OF a] by simp_all
  have "0 < length indices" unfolding i(1) using assms(2,3) by simp
  then obtain j js where j: "indices = j # js" by (cases indices) auto
  then have "length (loc_counter (ls ! j)) = d" using i(2) assms(1) by (auto simp: cells_ok_def loc_wf_def)
  then show ?thesis using assms(2) by (simp add: read_with_confidence_def a j)
qed

text \<open>A composition that gets past its checks and activates at least one location at a time.\<close>

definition composable :: "EAMSnapshot \<Rightarrow> EAMSnapshot \<Rightarrow> ComposeParams \<Rightarrow> bool" where
  "composable a b p \<longleftrightarrow>
     cells_ok (sn_dim a) (sn_locations a) \<and> cells_ok (sn_dim b) (sn_locations b) \<and> sn_dim a = sn_dim b \<and>
     sn_locations a \<noteq> [] \<and> sn_locations b \<noteq> [] \<and> 0 < descent_k p"

lemma composableD:
  assumes "composable a b p"
  shows "cells_ok (sn_dim a) (sn_locations a)" "cells_ok (sn_dim a) (sn_locations b)"
    "sn_locations a \<noteq> []" "sn_locations b \<noteq> []"
  using assms by (auto simp: composable_def)

lemma parents_length:
  assumes "composable a b p"
  shows "length (fst (read_with_confidence L q (sn_locations a) (descent_k p) beta)) = sn_dim a"
    "length (fst (read_with_confidence L q (sn_locations b) (descent_k p) beta)) = sn_dim a"
  using composableD [OF assms] assms by (auto simp: composable_def intro: read_with_confidence_length)

lemma descent_length:
  assumes c: "composable a b p" and "length start = sn_dim a"
  shows "length (combined_descent L start (sn_locations a) (sn_locations b) p) = sn_dim a"
proof -
  have "length (descent_loop L (sn_locations a) (sn_locations b) p n xi) = sn_dim a" if "length xi = sn_dim a" for n xi
    using that by (induction n arbitrary: xi) (simp_all add: Let_def case_prod_beta parents_length [OF c])
  then show ?thesis using assms(2) by (simp add: combined_descent_def)
qed

lemma build_wf:
  assumes "composable a b p" "length q = sn_dim a"
  shows "loc_wf (sn_dim a) (build_one_location L i q a b (descent_k p) (descent_beta p))"
  using parents_length [OF assms(1)] assms(2)
  by (simp add: build_one_location_def HardLocation_new_def loc_wf_def Let_def case_prod_beta)

lemma perturb_length: "length (fst (perturb normal spread v rng)) = length v"
  by (simp add: perturb_def Let_def case_prod_beta)

lemma sample_around_cells:
  assumes "\<And>i q. length q = d \<Longrightarrow> loc_wf d (build i q)" "length v = d"
  shows "cells_ok d (fst (sample_around normal spread build v n i rng)) \<and>
    length (fst (sample_around normal spread build v n i rng)) = n"
  using assms by (induction n arbitrary: i rng) (simp_all add: Let_def case_prod_beta perturb_length)

lemma build_loop_cells:
  assumes "\<And>i q. length q = d \<Longrightarrow> loc_wf d (build i q)" "\<forall>v\<in>set vs. length v = d"
  shows "cells_ok d (fst (build_loop normal spread n build vs i rng)) \<and>
    length (fst (build_loop normal spread n build vs i rng)) = length vs * max 1 n"
  using assms(2)
proof (induction vs arbitrary: i rng)
  case (Cons v vs)
  let ?s = "sample_around normal spread build v (n - 1) (i + 1) rng"
  have "cells_ok d (fst ?s) \<and> length (fst ?s) = n - 1"
    by (rule sample_around_cells) (use assms(1) Cons.prems in auto)
  then show ?case using Cons.IH [of "fst (snd ?s)" "snd (snd ?s)"] Cons.prems assms(1)
    by (simp add: Let_def case_prod_beta max_def)
qed simp

lemma sample_around_length: "length (fst (sample_around normal spread build v n i rng)) = n"
  by (induction n arbitrary: i rng) (simp_all add: Let_def case_prod_beta)

lemma build_loop_length:
  "length (fst (build_loop normal spread n build vs i rng)) = length vs * max 1 n"
  by (induction vs arbitrary: i rng) (simp_all add: Let_def case_prod_beta sample_around_length max_def)

section \<open>Probes\<close>

lemma best_match_range:
  assumes "bs \<noteq> []"
  shows "best_match addr bs < length bs"
proof -
  let ?f = "\<lambda>(best_j, best_sim) (j, lb).
      let s = cosine_similarity addr (loc_address lb) in if best_sim < s then (j, s) else (best_j, best_sim)"
  have "fst (foldl ?f b zs) \<in> insert (fst b) (fst ` set zs)" for b :: "nat \<times> f64" and zs
    by (induction zs arbitrary: b) (fastforce simp: Let_def split: prod.splits if_splits)+
  from this [of "(0, f64_neg_infinity)" "zip [0..<length bs] bs"] show ?thesis
    using assms by (auto simp: best_match_def set_zip)
qed

lemma boundary_pairs_range:
  assumes "sn_locations a \<noteq> []" "sn_locations b \<noteq> []" "(i, j) \<in> set (boundary_pairs a b p)"
  shows "i < length (sn_locations a)" "j < length (sn_locations b)"
proof -
  let ?as = "sn_locations a" and ?bs = "sn_locations b"
  let ?ps = "map (\<lambda>(i, la). (i, best_match (loc_address la) ?bs)) (zip [0..<length ?as] ?as) @
             map (\<lambda>(j, lb). (best_match (loc_address lb) ?as, j)) (zip [0..<length ?bs] ?bs)"
  have "set (boundary_pairs a b p) \<subseteq> set ?ps"
    by (auto simp: boundary_pairs_def Let_def dest: in_set_takeD split: if_splits)
  then have "(i, j) \<in> set ?ps" using assms(3) by blast
  then show "i < length ?as" "j < length ?bs" using best_match_range assms(1,2) by (auto simp: set_zip)
qed

lemma slerp_length: "length (slerp G u v t) = min (length u) (length v)"
  by (simp add: slerp_def Let_def)

lemma random_probes_lengths:
  "length (fst (random_probes normal d n rng)) = n \<and> (\<forall>v\<in>set (fst (random_probes normal d n rng)). length v = d)"
proof (induction n arbitrary: rng)
  case (Suc n)
  then show ?case using Suc.IH [of "snd (random_unit_vector normal d rng)"] by (simp add: Let_def case_prod_beta)
qed simp

lemma probes_lengths:
  assumes "composable a b p"
  shows "v \<in> set (boundary_probes G a b p) \<Longrightarrow> length v = sn_dim a"
    "v \<in> set (parent_probes a b) \<Longrightarrow> length v = sn_dim a"
proof -
  note c = composableD [OF assms]
  {
    assume "v \<in> set (boundary_probes G a b p)"
    then obtain i j t where "(i, j) \<in> set (boundary_pairs a b p)"
      "v = slerp G (loc_address (sn_locations a ! i)) (loc_address (sn_locations b ! j)) t"
      by (auto simp: boundary_probes_def Let_def)
    then show "length v = sn_dim a"
      using boundary_pairs_range [OF c(3,4), of i j p] cells_okD(2) [OF c(1), of i] cells_okD(2) [OF c(2), of j]
      by (simp add: slerp_length loc_wf_def)
  }
  show "v \<in> set (parent_probes a b) \<Longrightarrow> length v = sn_dim a"
    using cells_okD(1) [OF c(1)] cells_okD(1) [OF c(2)] by (auto simp: parent_probes_def loc_wf_def)
qed

section \<open>Distinct attractors\<close>

lemma keep_unique_cases: "keep_unique t us v = us \<or> keep_unique t us v = us @ [v]"
  by (simp add: keep_unique_def)

lemma deduplicate_subset: "set (deduplicate_attractors vs t) \<subseteq> set vs"
  "length (deduplicate_attractors vs t) \<le> length vs"
proof -
  have "set (foldl (keep_unique t) us vs) \<subseteq> set us \<union> set vs \<and> length (foldl (keep_unique t) us vs) \<le> length us + length vs"
    for us
  proof (induction vs arbitrary: us)
    case (Cons v vs)
    from keep_unique_cases [of t us v] show ?case
    proof
      assume "keep_unique t us v = us"
      then show ?thesis using Cons.IH [of us] by auto
    next
      assume "keep_unique t us v = us @ [v]"
      then show ?thesis using Cons.IH [of "us @ [v]"] by auto
    qed
  qed simp
  from this [of "[]"] show "set (deduplicate_attractors vs t) \<subseteq> set vs"
    "length (deduplicate_attractors vs t) \<le> length vs" by (simp_all add: deduplicate_attractors_def)
qed

section \<open>Dreaming\<close>

lemma local_soft_write_cells:
  assumes "cells_ok d ls"
  shows "cells_ok d (local_soft_write L v ls c w)" "length (local_soft_write L v ls c w) = length ls"
proof -
  obtain indices sims where a: "activate v ls (min (cfg_k c) (length ls)) = (indices, sims)" by fastforce
  let ?f = "\<lambda>ls (i, wt). let w = wt * w; l = ls ! i in ls[i := l\<lparr>loc_counter := add_scaled (loc_counter l) v w,
      loc_write_count := loc_write_count l + w\<rparr>]"
  have fold: "cells_ok d (foldl ?f ls' zs) \<and> length (foldl ?f ls' zs) = length ls'"
    if "fst ` set zs \<subseteq> {..<length ls'}" "cells_ok d ls'" for zs ls'
    using that
  proof (induction zs arbitrary: ls')
    case (Cons z zs)
    obtain i wt where z: "z = (i, wt)" by (cases z)
    have "loc_wf d (ls' ! i)" using Cons.prems by (auto simp: z intro: cells_okD(2))
    then have "cells_ok d (?f ls' z)"
      using Cons.prems(2) by (auto simp: z cells_ok_def loc_wf_def Let_def dest!: subsetD [OF set_update_subset_insert])
    moreover have "length (?f ls' z) = length ls'" by (simp add: z Let_def)
    ultimately show ?case using Cons.IH [of "?f ls' z"] Cons.prems(1) by simp
  qed simp
  have "fst ` set (zip indices ws) \<subseteq> {..<length ls}" for ws :: "f64 list"
    using activate_bounds(3) [OF a] by (auto dest: set_zip_leftD)
  from fold [OF this assms] show "cells_ok d (local_soft_write L v ls c w)" "length (local_soft_write L v ls c w) = length ls"
    using assms by (simp_all add: local_soft_write_def a Let_def)
qed

lemma dream_loop_cells:
  assumes "cells_ok d ls" "projected_ok P" "length ls < 2 ^ 64"
  shows "cells_ok d (fst (dream_loop L P normal all_locs rc wc p n noise ls rng)) \<and>
     length (fst (dream_loop L P normal all_locs rc wc p n noise ls rng)) \<le> length ls"
  using assms(1,3)
proof (induction n arbitrary: noise ls rng)
  case (Suc n)
  let ?g = "\<lambda>ls query. local_soft_write L (read_or query (hopfield_iter L query all_locs rc)) ls wc (dream_write_weight p)"
  have fold: "cells_ok d (foldl ?g ls qs) \<and> length (foldl ?g ls qs) = length ls" for qs
  proof (induction qs rule: rev_induct)
    case (snoc q qs)
    then show ?case using local_soft_write_cells [of d "foldl ?g ls qs"] by simp
  qed (simp add: Suc.prems(1))
  define hs where "hs = foldl ?g ls (fst (perturb_all normal noise ls rng))"
  have hs: "cells_ok d hs" "length hs = length ls" using fold by (simp_all add: hs_def)
  have m: "cells_ok d (snd (knn_merge L P hs wc))" "length (snd (knn_merge L P hs wc)) \<le> length ls"
    using knn_merge_cells [OF hs(1) assms(2)] length_knn_merge [of L P hs wc] hs(2) Suc.prems(2) by simp_all
  have step: "dream_loop L P normal all_locs rc wc p (Suc n) noise ls rng =
     (if ls = [] then (ls, rng) else dream_loop L P normal all_locs rc wc p n (noise * dream_noise_decay p)
        (snd (knn_merge L P hs wc)) (snd (perturb_all normal noise ls rng)))"
    by (simp add: hs_def Let_def case_prod_beta)
  show ?case
    unfolding step using Suc.IH [OF m(1)] m(2) Suc.prems by (auto intro: order_trans [OF _ m(2)])
qed (simp add: assms)

lemma dreamed_cells:
  assumes "cells_ok d ls" "projected_ok P" "length ls < 2 ^ 64"
  shows "cells_ok d (dreamed L P normal ls a b p rng)" "length (dreamed L P normal ls a b p rng) \<le> length ls"
  using assms(1) by (simp_all add: dreamed_def dream_consolidate_hybrid_def Let_def
    dream_loop_cells [OF assms, THEN conjunct1] dream_loop_cells [OF assms, THEN conjunct2])

text \<open>Deduplication keeps the first of every group: what it keeps comes in the order found and is
  pairwise apart, and what it drops is close to something it kept.\<close>

lemma keep_unique_spec:
  assumes "subseq us seen" "sorted_wrt (\<lambda>u v. \<not> t < cosine_similarity v u) us"
    and "\<forall>v\<in>set seen. v \<in> set us \<or> (\<exists>u\<in>set us. t < cosine_similarity v u)"
  shows "let us' = foldl (keep_unique t) us vs in subseq us' (seen @ vs) \<and>
     sorted_wrt (\<lambda>u v. \<not> t < cosine_similarity v u) us' \<and>
     (\<forall>v\<in>set (seen @ vs). v \<in> set us' \<or> (\<exists>u\<in>set us'. t < cosine_similarity v u))"
  using assms
proof (induction vs arbitrary: us seen)
  case (Cons v vs)
  have "subseq (keep_unique t us v) (seen @ [v])"
    using Cons.prems(1) by (auto simp: keep_unique_def)
  moreover have "sorted_wrt (\<lambda>u v. \<not> t < cosine_similarity v u) (keep_unique t us v)"
    using Cons.prems(2) by (auto simp: keep_unique_def sorted_wrt_append list_ex_iff)
  moreover have "\<forall>w\<in>set (seen @ [v]). w \<in> set (keep_unique t us v) \<or> (\<exists>u\<in>set (keep_unique t us v). t < cosine_similarity w u)"
    using Cons.prems(3) by (auto simp: keep_unique_def list_ex_iff)
  ultimately show ?case using Cons.IH [of "keep_unique t us v" "seen @ [v]"] by simp
qed simp

lemmas deduplicate_spec = keep_unique_spec [of "[]" "[]", simplified, unfolded Let_def, folded deduplicate_attractors_def]

section \<open>Composition\<close>

lemma compose_cases:
  assumes "compose G L P normal start a b p = Inr r"
  obtains randoms rng raw unique built rng' where
    "sn_dim a = sn_dim b" "sn_locations a \<noteq> []" "sn_locations b \<noteq> []"
    "random_probes normal (sn_dim a) (num_random_probes p) (start (compose_seed p)) = (randoms, rng)"
    "raw = map (\<lambda>probe. combined_descent L probe (sn_locations a) (sn_locations b) p)
       (boundary_probes G a b p @ parent_probes a b @ randoms)"
    "unique = deduplicate_attractors raw (dedup_threshold p)"
    "build_locations_at_attractors L normal unique a b p rng = (built, rng')"
    "cr_snapshot r = reindex \<lparr>sn_locations = sn_locations a @ sn_locations b @ dreamed L P normal built a b p rng',
       sn_config = sn_config a\<rparr>"
    "pool_size (cr_diagnostics r) = length (sn_locations a) + length (sn_locations b)"
    "boundary_probes_count (cr_diagnostics r) = length (boundary_probes G a b p)"
    "parent_probes_count (cr_diagnostics r) = length (sn_locations a) + length (sn_locations b)"
    "random_probes_count (cr_diagnostics r) = length randoms"
    "raw_attractors_count (cr_diagnostics r) = length raw"
    "unique_attractors_count (cr_diagnostics r) = length unique" "locations_built (cr_diagnostics r) = length built"
    "post_dream_locations (cr_diagnostics r) = length (sn_locations (cr_snapshot r))"
  using assms
  by (auto simp: compose_def Let_def sn_num_locations_def parent_probes_def split: if_splits prod.splits)

section \<open>Sizes\<close>

lemma length_concat_const: "(\<And>x. length (f x) = n) \<Longrightarrow> length (concat (map f xs)) = length xs * n"
  by (induction xs) simp_all

lemma boundary_probes_count_eq:
  "length (boundary_probes G a b p) = length (boundary_pairs a b p) * boundary_slerp_steps p"
  unfolding boundary_probes_def by (rule length_concat_const) (simp add: case_prod_beta)

lemma boundary_probes_length:
  "length (boundary_probes G a b p) \<le> (length (sn_locations a) + length (sn_locations b)) * boundary_slerp_steps p"
proof -
  have "length (remdups_adj xs) \<le> length xs" for xs :: "(nat \<times> nat) list"
    by (induction xs rule: remdups_adj.induct) auto
  then have adj: "length (remdups_adj (sort_by lt ps)) \<le> length ps" for lt :: "nat \<times> nat \<Rightarrow> nat \<times> nat \<Rightarrow> bool" and ps
    by (metis length_sort_by)
  let ?as = "sn_locations a" and ?bs = "sn_locations b"
  let ?ps = "map (\<lambda>(i, la). (i, best_match (loc_address la) ?bs)) (zip [0..<length ?as] ?as) @
             map (\<lambda>(j, lb). (best_match (loc_address lb) ?as, j)) (zip [0..<length ?bs] ?bs)"
  have "length (boundary_pairs a b p) \<le> length (remdups_adj (sort_by (\<lambda>x y. fst x < fst y \<or> fst x = fst y \<and> snd x < snd y) ?ps))"
    by (simp add: boundary_pairs_def Let_def)
  also have "\<dots> \<le> length ?ps" by (rule adj)
  finally have "length (boundary_pairs a b p) \<le> length ?as + length ?bs" by simp
  then show ?thesis by (simp add: boundary_probes_count_eq mult_le_mono1)
qed

text \<open>How many locations a composition may have.\<close>

definition composed_bound :: "EAMSnapshot \<Rightarrow> EAMSnapshot \<Rightarrow> ComposeParams \<Rightarrow> nat" where
  "composed_bound a b p =
     (let n = length (sn_locations a) + length (sn_locations b)
      in n + (n * boundary_slerp_steps p + n + num_random_probes p) * max 1 (locations_per_attractor p))"

lemma reindex_only_ids:
  "map (\<lambda>l. l\<lparr>loc_id := 0\<rparr>) (sn_locations (reindex s)) = map (\<lambda>l. l\<lparr>loc_id := 0\<rparr>) (sn_locations s)"
  by (rule nth_equalityI) (simp_all add: nth_reindex)

lemma compose_returns:
  "sn_dim a = sn_dim b \<Longrightarrow> sn_locations a \<noteq> [] \<Longrightarrow> sn_locations b \<noteq> [] \<Longrightarrow>
   \<exists>r. compose G L P normal start a b p = Inr r"
  by (simp add: compose_def Let_def case_prod_beta)

lemma compose_result_ok:
  assumes r: "compose G L P normal start a b p = Inr r" and c: "composable a b p" and P: "projected_ok P"
    and size: "composed_bound a b p < 2 ^ 64"
  shows "snap_ok (cr_snapshot r)" "length (sn_locations (cr_snapshot r)) \<le> composed_bound a b p"
  using r
proof (atomize (full), cases rule: compose_cases)
  case (1 randoms rng raw unique built rng')
  let ?n = "length (sn_locations a) + length (sn_locations b)"
  have randoms: "length randoms = num_random_probes p" "v \<in> set randoms \<Longrightarrow> length v = sn_dim a" for v
    using random_probes_lengths [of normal "sn_dim a" "num_random_probes p" "start (compose_seed p)"] 1(4) by auto
  have raw: "length raw \<le> ?n * boundary_slerp_steps p + ?n + num_random_probes p"
    using boundary_probes_length [of G a b p] by (simp add: 1(5) parent_probes_def randoms(1))
  have probe: "length v = sn_dim a" if "v \<in> set (boundary_probes G a b p @ parent_probes a b @ randoms)" for v
    using that probes_lengths [OF c] randoms(2) by auto
  have "length v = sn_dim a" if "v \<in> set raw" for v
    using that descent_length [OF c probe] by (auto simp: 1(5))
  then have unique: "\<forall>v\<in>set unique. length v = sn_dim a"
    using deduplicate_subset(1) [of raw "dedup_threshold p"] by (auto simp: 1(6))
  have "cells_ok (sn_dim a) built \<and> length built = length unique * max 1 (locations_per_attractor p)"
  proof -
    let ?b = "build_loop normal (attractor_sample_spread p) (locations_per_attractor p)
      (\<lambda>i q. build_one_location L i q a b (descent_k p) (descent_beta p)) unique 0 rng"
    have "cells_ok (sn_dim a) (fst ?b) \<and> length (fst ?b) = length unique * max 1 (locations_per_attractor p)"
      by (rule build_loop_cells) (use build_wf [OF c] unique in auto)
    moreover have "?b = (built, rng')" using 1(7) by (simp add: build_locations_at_attractors_def)
    ultimately show ?thesis by simp
  qed
  moreover have "length unique \<le> length raw"
    using deduplicate_subset(2) by (simp add: 1(6))
  then have "length unique * max 1 (locations_per_attractor p) \<le>
      (?n * boundary_slerp_steps p + ?n + num_random_probes p) * max 1 (locations_per_attractor p)"
    using raw by (intro mult_le_mono1) linarith
  ultimately have built: "cells_ok (sn_dim a) built" "?n + length built \<le> composed_bound a b p"
    by (simp_all add: composed_bound_def Let_def)
  have small: "length built < 2 ^ 64" using built(2) size by linarith
  note D = dreamed_cells [OF built(1) P small, of L normal a b p rng']
  let ?s = "\<lparr>sn_locations = sn_locations a @ sn_locations b @ dreamed L P normal built a b p rng', sn_config = sn_config a\<rparr>"
  have len: "length (sn_locations ?s) \<le> composed_bound a b p" using D(2) built(2) by simp
  have "snap_ok (reindex ?s)"
    using composableD(1,2) [OF c] D(1) len size by (intro reindex_ok) (simp_all add: sn_dim_def)
  then show "snap_ok (cr_snapshot r) \<and> length (sn_locations (cr_snapshot r)) \<le> composed_bound a b p"
    using len by (simp add: 1(8))
qed

section \<open>No neighbours\<close>

text \<open>With \<open>descent_k = 0\<close> a read activates nothing and gives the empty vector.\<close>

lemma activate_none: "activate q ls 0 = ([], [])"
proof -
  obtain indices sims where a: "activate q ls 0 = (indices, sims)" by fastforce
  then show ?thesis using activate_bounds(1,2) [OF a] by simp
qed

lemma read_with_no_neighbours: "ls \<noteq> [] \<Longrightarrow> fst (read_with_confidence L q ls 0 beta) = []"
  by (simp add: read_with_confidence_def weighted_sum_def activate_none Let_def)

lemma blind_descent:
  assumes "sn_locations a \<noteq> []" "sn_locations b \<noteq> []" "descent_k p = 0" "0 < descent_t_max p"
  shows "combined_descent L start (sn_locations a) (sn_locations b) p = []"
proof -
  have nil: "normalize [] = []" by (simp add: normalize_def Let_def)
  have "descent_loop L (sn_locations a) (sn_locations b) p n xi = []" if "0 < n \<or> xi = []" for n xi
    using that assms(1-3) by (induction n arbitrary: xi) (auto simp: Let_def case_prod_beta read_with_no_neighbours nil)
  then show ?thesis using assms(4) by (simp add: combined_descent_def)
qed

lemma sample_blind: "\<forall>l\<in>set (fst (sample_around normal spread build [] n i rng)). \<exists>j. l = build j []"
proof (induction n arbitrary: i rng)
  case (Suc n)
  have "fst (perturb normal spread [] rng) = []" for rng using perturb_length [of normal spread "[]" rng] by simp
  then show ?case using Suc.IH by (auto simp: Let_def case_prod_beta)
qed simp

lemma build_blind:
  "\<forall>v\<in>set vs. v = [] \<Longrightarrow> \<forall>l\<in>set (fst (build_loop normal spread n build vs i rng)). \<exists>j. l = build j []"
proof (induction vs arbitrary: i rng)
  case (Cons v vs)
  have "\<forall>l\<in>set (fst (sample_around normal spread build v (n - 1) (i + 1) rng)). \<exists>j. l = build j []"
    using sample_blind Cons.prems by simp
  then show ?case using Cons.IH Cons.prems by (auto simp: Let_def case_prod_beta)
qed simp

lemma deduplicate_nonempty: "vs \<noteq> [] \<Longrightarrow> deduplicate_attractors vs t \<noteq> []"
proof -
  have "us \<noteq> [] \<Longrightarrow> foldl (keep_unique t) us vs \<noteq> []" for us vs
  proof (induction vs arbitrary: us)
    case (Cons v vs)
    then have "keep_unique t us v \<noteq> []" using keep_unique_cases [of t us v] by (metis append_is_Nil_conv)
    then show ?case using Cons.IH by simp
  qed simp
  then show "vs \<noteq> [] \<Longrightarrow> deduplicate_attractors vs t \<noteq> []"
    by (cases vs) (simp_all add: deduplicate_attractors_def keep_unique_def)
qed

lemma build_loop_nonempty: "vs \<noteq> [] \<Longrightarrow> fst (build_loop normal spread n build vs i rng) \<noteq> []"
  by (cases vs) (simp_all add: Let_def case_prod_beta)

section \<open>Routed reads\<close>

lemma refined_query_length:
  assumes "patterns \<noteq> [] \<Longrightarrow> length (hd patterns) = d" "d = 0 \<or> patterns \<noteq> []"
  shows "length (hopfield_loop L c addresses patterns n xi) = (if n = 0 then length xi else d)"
proof -
  have step: "length (snd (hopfield_step L c addresses patterns xi)) = d" for xi
    using assms by (cases patterns) (auto simp: hopfield_step_def Let_def)
  have "length xi = d \<Longrightarrow> length (hopfield_loop L c addresses patterns n xi) = d" for n xi
    using step by (induction n arbitrary: xi) (simp_all add: Let_def case_prod_beta)
  with step show ?thesis by (cases n) (simp_all add: Let_def case_prod_beta)
qed

lemma parent_read_length:
  assumes "cells_ok d ls" "ls \<noteq> []"
  shows "length (fst (read_parent_with_confidence L q ls c)) =
    (if cfg_t_max c = 0 then length q else if cfg_k c = 0 then 0 else d)"
proof -
  let ?k = "min (cfg_k c) (length ls)"
  obtain indices sims where a: "activate q ls ?k = (indices, sims)" by fastforce
  have i: "length indices = ?k" "set indices \<subseteq> {..<length ls}" using activate_bounds [OF a] by simp_all
  let ?patterns = "map (\<lambda>i. unit_pattern (ls ! i)) indices"
  have "length (hopfield_loop L c (map (\<lambda>i. loc_address (ls ! i)) indices) ?patterns n xi) =
      (if n = 0 then length xi else if cfg_k c = 0 then 0 else d)" for n xi
  proof (rule refined_query_length)
    assume n: "?patterns \<noteq> []"
    then obtain j js where j: "indices = j # js" by (cases indices) auto
    then have "0 < cfg_k c" using i(1) by (cases "cfg_k c") auto
    moreover have "length (loc_counter (ls ! j)) = d"
      using i(2) cells_okD(2) [OF assms(1), of j] by (simp add: j loc_wf_def)
    ultimately show "length (hd ?patterns) = (if cfg_k c = 0 then 0 else d)"
      by (simp add: j unit_pattern_def normalized_pattern_def)
  next
    show "(if cfg_k c = 0 then 0 else d) = 0 \<or> ?patterns \<noteq> []" using i(1) assms(2) by (cases "cfg_k c"; cases ls) auto
  qed
  then show ?thesis
    using assms(2) a by (simp add: read_parent_with_confidence_def read_or_def hopfield_iter_def Let_def)
qed

lemma empty_parent_read: "fst (read_parent_with_confidence L q [] c) = q"
  by (simp add: read_parent_with_confidence_def read_or_def hopfield_iter_def)

text \<open>The weights of a routed read before they are normalised.\<close>

definition routing_weights :: "libm \<Rightarrow> f64 list \<Rightarrow> EAMSnapshot list \<Rightarrow> f64 \<Rightarrow> f64 list" where
  "routing_weights L query parents sharpness =
     (let confs = map (\<lambda>p. snd (read_parent_with_confidence L query (sn_locations p) (sn_config p))) parents
      in map (\<lambda>c. lm_exp L ((c - foldl f64_max f64_neg_infinity confs) * sharpness)) confs)"

lemma compose_read_eq:
  "compose_read L query parents sharpness =
     (let recons = map (\<lambda>p. fst (read_parent_with_confidence L query (sn_locations p) (sn_config p))) parents;
          confs = map (\<lambda>p. snd (read_parent_with_confidence L query (sn_locations p) (sn_config p))) parents;
          exps = routing_weights L query parents sharpness
      in if f64_sum exps < f64_dec 1 10
         then Inr \<lparr>crr_result = query,
                crr_weights = replicate (length parents) (1 / f64_of_nat (length parents)), crr_confidences = confs\<rparr>
         else if list_ex (\<lambda>r. length query < length r) recons then Inl Crash
         else Inr \<lparr>crr_result = normalize (foldl (\<lambda>b (r, w). add_scaled b r w) (replicate (length query) 0)
                    (zip recons (map (\<lambda>e. e / f64_sum exps) exps))),
                crr_weights = map (\<lambda>e. e / f64_sum exps) exps, crr_confidences = confs\<rparr>)"
  by (simp add: compose_read_def routing_weights_def Let_def comp_def)

lemma blended_length: "length (foldl (\<lambda>b (r, w). add_scaled b r w) v rws) = length v"
  by (induction rws arbitrary: v) (auto split: prod.splits)

text \<open>A query shorter than the locations of a parent makes the read panic (unless all weights vanish).\<close>

lemma short_query_panics:
  assumes "s \<in> set parents" "cells_ok (sn_dim s) (sn_locations s)" "sn_locations s \<noteq> []"
    and "length query < sn_dim s" "0 < cfg_k (sn_config s)" "0 < cfg_t_max (sn_config s)"
    and "\<not> f64_sum (routing_weights L query parents sharpness) < f64_dec 1 10"
  shows "compose_read L query parents sharpness = Inl Crash"
proof -
  have "length (fst (read_parent_with_confidence L query (sn_locations s) (sn_config s))) = sn_dim s"
    using parent_read_length [OF assms(2,3)] assms(5,6) by simp
  then have "list_ex (\<lambda>r. length query < length r)
      (map (\<lambda>p. fst (read_parent_with_confidence L query (sn_locations p) (sn_config p))) parents)"
    using assms(1,4) unfolding list_ex_iff by (auto intro!: bexI [of _ s])
  then show ?thesis using assms(7) by (simp add: compose_read_eq Let_def)
qed

lemma short_query_panics_example:
  "compose_read flat_libm [1] [\<lparr>sn_locations = [unit_location], sn_config = EAMConfig_defaults 2\<rparr>] 1 = Inl Crash"
proof -
  let ?s = "\<lparr>sn_locations = [unit_location], sn_config = EAMConfig_defaults 2\<rparr>"
  have "\<not> f64_sum [1] < f64_dec 1 10" by code_simp
  moreover have "routing_weights flat_libm [1] [?s] 1 = [1]" by (simp add: routing_weights_def flat_libm_def)
  ultimately show ?thesis
    by (intro short_query_panics [of ?s]) (simp_all add: EAMConfig_defaults_def unit_location_def loc_wf_def sn_dim_def)
qed

section \<open>Stale neighbours\<close>

text \<open>An intersection renumbers the locations that it keeps but not the neighbours they name: here
  the location that is left names itself, where it named the one that is gone.\<close>

lemma intersection_leaves_stale_neighbours:
  "intersect \<lparr>sn_locations = [unit_location, unit_location\<lparr>loc_id := 1, loc_address := [0, 1], loc_neighbors := [0]\<rparr>],
       sn_config = EAMConfig_defaults 2\<rparr>
     \<lparr>sn_locations = [unit_location\<lparr>loc_address := [0, 1]\<rparr>], sn_config = EAMConfig_defaults 2\<rparr> 0 =
   Inr \<lparr>sn_locations = [unit_location\<lparr>loc_id := 0, loc_address := [0, 1], loc_neighbors := [0]\<rparr>],
       sn_config = EAMConfig_defaults 2\<rparr>"
proof -
  have "\<not> 0 < cosine_similarity [1, 0] [0, 1]" "0 < cosine_similarity [0, 1] [0, 1]" by code_simp+
  then show ?thesis
    by (simp add: intersect_def alg_check_dims_def sn_dim_def has_match_def reindex_def unit_location_def)
qed

section \<open>Properties\<close>

text \<open>C19: Composing two memories of the same dimension that are not empty always returns, and keeps
  both parents: the result begins with the locations of the first and then those of the second,
  each changed in nothing but its id, and the ids are renumbered from 0 throughout. The
  diagnostics count what was made: the parents' locations; a fixed number of probes per boundary
  pair, one per location of a parent and the random ones that were asked for; one attractor per
  probe; the attractors that are left when each one close to an earlier one is dropped; so many
  locations per such attractor; and the locations of the result.\<close>

theorem compose_keeps_the_parents:
  assumes "sn_dim a = sn_dim b" "sn_locations a \<noteq> []" "sn_locations b \<noteq> []"
  shows "\<exists>r hybrids randoms unique. compose G L P normal start a b p = Inr r \<and>
     map (\<lambda>l. l\<lparr>loc_id := 0\<rparr>) (sn_locations (cr_snapshot r)) =
       map (\<lambda>l. l\<lparr>loc_id := 0\<rparr>) (sn_locations a @ sn_locations b @ hybrids) \<and>
     map loc_id (sn_locations (cr_snapshot r)) = map of_nat [0..<length (sn_locations (cr_snapshot r))] \<and>
     sn_config (cr_snapshot r) = sn_config a \<and>
     (let d = cr_diagnostics r; pool = sn_locations a @ sn_locations b;
          raw = map (\<lambda>probe. combined_descent L probe (sn_locations a) (sn_locations b) p)
            (boundary_probes G a b p @ map loc_address pool @ randoms)
      in pool_size d = length pool \<and>
         boundary_probes_count d = length (boundary_pairs a b p) * boundary_slerp_steps p \<and>
         parent_probes_count d = length pool \<and>
         random_probes_count d = num_random_probes p \<and> length randoms = num_random_probes p \<and>
         raw_attractors_count d = boundary_probes_count d + parent_probes_count d + random_probes_count d \<and>
         unique_attractors_count d = length unique \<and> unique \<noteq> [] \<and> subseq unique raw \<and>
         sorted_wrt (\<lambda>u v. \<not> dedup_threshold p < cosine_similarity v u) unique \<and>
         (\<forall>v\<in>set raw. v \<in> set unique \<or> (\<exists>u\<in>set unique. dedup_threshold p < cosine_similarity v u)) \<and>
         locations_built d = length unique * max 1 (locations_per_attractor p) \<and>
         (dream_rounds p = 0 \<longrightarrow> length hybrids = locations_built d) \<and>
         post_dream_locations d = length pool + length hybrids)"
proof -
  obtain r where r: "compose G L P normal start a b p = Inr r" using compose_returns [OF assms] by blast
  then show ?thesis
  proof (cases rule: compose_cases)
    case (1 randoms rng raw unique built rng')
    let ?s = "\<lparr>sn_locations = sn_locations a @ sn_locations b @ dreamed L P normal built a b p rng', sn_config = sn_config a\<rparr>"
    have "map (\<lambda>l. l\<lparr>loc_id := 0\<rparr>) (sn_locations (reindex ?s)) = map (\<lambda>l. l\<lparr>loc_id := 0\<rparr>) (sn_locations ?s)"
      by (rule reindex_only_ids)
    moreover have "map loc_id (sn_locations (reindex ?s)) = map of_nat [0..<length (sn_locations (reindex ?s))]"
      by (simp only: reindex_ids length_reindex)
    moreover have "length randoms = num_random_probes p"
      using random_probes_lengths [of normal "sn_dim a" "num_random_probes p" "start (compose_seed p)"] 1(4) by simp
    moreover have built: "length built = length unique * max 1 (locations_per_attractor p)"
      using 1(7) build_loop_length by (metis build_locations_at_attractors_def fst_conv)
    moreover from built have "dream_rounds p = 0 \<longrightarrow>
        length (dreamed L P normal built a b p rng') = length unique * max 1 (locations_per_attractor p)"
      by (simp add: dreamed_def)
    moreover note distinct = deduplicate_spec [where t = "dedup_threshold p" and vs = raw, folded 1(6)]
    note distinct [THEN conjunct1] distinct [THEN conjunct2, THEN conjunct1] distinct [THEN conjunct2, THEN conjunct2]
    moreover have "raw \<noteq> []" using assms(2) by (simp add: 1(5) parent_probes_def)
    then have "unique \<noteq> []" using distinct by (cases raw) auto
    moreover have raw: "raw = map (\<lambda>probe. combined_descent L probe (sn_locations a) (sn_locations b) p)
        (boundary_probes G a b p @ map loc_address (sn_locations a @ sn_locations b) @ randoms)"
      by (simp only: 1(5) parent_probes_def)
    then have "length raw = length (boundary_probes G a b p) + (length (sn_locations a) + length (sn_locations b)) + length randoms"
      by simp
    ultimately show ?thesis
      unfolding Let_def
      by - (rule exI [of _ r], rule exI [of _ "dreamed L P normal built a b p rng'"], rule exI [of _ randoms],
          rule exI [of _ unique], unfold raw [symmetric], intro conjI,
          simp_all only: r 1(8-16) boundary_probes_count_eq length_append EAMSnapshot.simps length_reindex reindex_config
            simp_thms ac_simps)
  qed
qed

theorem compose_keeps_the_parents_witness:
  "\<exists>r. compose \<lparr>tg_sin = (\<lambda>_. 1), tg_acos = (\<lambda>_. 1)\<rparr> flat_libm (\<lambda>_ _. None) (\<lambda>r. (1, r)) (\<lambda>_. ())
     \<lparr>sn_locations = [unit_location], sn_config = EAMConfig_defaults 2\<rparr>
     \<lparr>sn_locations = [unit_location], sn_config = EAMConfig_defaults 2\<rparr> ComposeParams_default = Inr r \<and>
     pool_size (cr_diagnostics r) = 2 \<and> parent_probes_count (cr_diagnostics r) = 2 \<and>
     random_probes_count (cr_diagnostics r) = 50 \<and> 0 < unique_attractors_count (cr_diagnostics r)"
proof -
  let ?a = "\<lparr>sn_locations = [unit_location], sn_config = EAMConfig_defaults 2\<rparr>"
  from compose_keeps_the_parents [of ?a ?a "\<lparr>tg_sin = (\<lambda>_. 1), tg_acos = (\<lambda>_. 1)\<rparr>" flat_libm "\<lambda>_ _. None" "\<lambda>r. (1, r)" "\<lambda>_. ()"
      ComposeParams_default]
  show ?thesis by (auto simp: ComposeParams_default_def Let_def)
qed

text \<open>What composing gives is a memory that can be stored: if both parents are well formed and
  a descent step looks at one neighbour at least, every location has the dimension of the first parent,
  the ids increase and leave room, and there are no more locations than the probes allow.\<close>

lemma compose_gives_a_memory:
  assumes "compose G L P normal start a b p = Inr r" "projected_ok P" "0 < descent_k p"
    and "snap_ok a" "snap_ok b" "composed_bound a b p < 2 ^ 64"
  shows "snap_ok (cr_snapshot r) \<and> sn_dim (cr_snapshot r) = sn_dim a \<and>
     length (sn_locations (cr_snapshot r)) \<le> composed_bound a b p"
proof -
  have "composable a b p \<and> sn_dim (cr_snapshot r) = sn_dim a"
    using assms(1)
  proof (cases rule: compose_cases)
    case (1 randoms rng raw unique built rng')
    then show ?thesis using assms(3-5) by (simp add: composable_def snap_ok_def sn_dim_def)
  qed
  then show ?thesis using compose_result_ok [OF assms(1) _ assms(2,6)] by blast
qed

text \<open>C22: A composition with \<open>descent_k = 0\<close> is not refused and goes wrong: it returns normally,
  but every location that it built between the parents has an empty address, so that the
  snapshot is not one of its own dimension (dreaming aside, which would go on from there).\<close>

theorem no_neighbours_break_composition:
  assumes "sn_dim a = sn_dim b" "sn_locations a \<noteq> []" "sn_locations b \<noteq> []"
    and "descent_k p = 0" "0 < descent_t_max p" "dream_rounds p = 0"
  shows "\<exists>r. compose G L P normal start a b p = Inr r \<and>
     length (sn_locations a) + length (sn_locations b) < length (sn_locations (cr_snapshot r)) \<and>
     (\<forall>l\<in>set (drop (length (sn_locations a) + length (sn_locations b)) (sn_locations (cr_snapshot r))). loc_address l = [])"
proof -
  obtain r where r: "compose G L P normal start a b p = Inr r" using compose_returns [OF assms(1-3)] by blast
  then show ?thesis
  proof (cases rule: compose_cases)
    case (1 randoms rng raw unique built rng')
    let ?n = "length (sn_locations a) + length (sn_locations b)"
    let ?s = "\<lparr>sn_locations = sn_locations a @ sn_locations b @ built, sn_config = sn_config a\<rparr>"
    have snap: "cr_snapshot r = reindex ?s" using 1(8) assms(6) by (simp add: dreamed_def)
    have "raw \<noteq> []" "\<forall>v\<in>set raw. v = []"
      using assms(2) blind_descent [OF assms(2-5)] by (auto simp: 1(5) parent_probes_def)
    then have unique: "unique \<noteq> []" "\<forall>v\<in>set unique. v = []"
      using deduplicate_nonempty deduplicate_subset(1) [of raw "dedup_threshold p"] by (auto simp: 1(6))
    have built: "built = fst (build_locations_at_attractors L normal unique a b p rng)" using 1(7) by simp
    have "built \<noteq> []"
      unfolding built build_locations_at_attractors_def by (rule build_loop_nonempty [OF unique(1)])
    moreover have "loc_address l = []" if "l \<in> set built" for l
      using that build_blind [OF unique(2)] unfolding built build_locations_at_attractors_def
      by (fastforce simp: build_one_location_def HardLocation_new_def Let_def case_prod_beta)
    moreover have "loc_address l \<in> loc_address ` set built" if l: "l \<in> set (drop ?n (sn_locations (reindex ?s)))" for l
    proof -
      obtain i where i: "i < length built" "l = sn_locations (reindex ?s) ! (?n + i)"
        using l by (auto simp: in_set_conv_nth)
      then have "l = (built ! i)\<lparr>loc_id := of_nat (?n + i)\<rparr>"
        using nth_reindex [of "?n + i" ?s] by (simp add: nth_append)
      then show ?thesis using i(1) by simp
    qed
    ultimately have "\<forall>l\<in>set (drop ?n (sn_locations (cr_snapshot r))). loc_address l = []"
      unfolding snap by fastforce
    moreover have "?n < length (sn_locations (cr_snapshot r))" using \<open>built \<noteq> []\<close> by (simp add: snap)
    ultimately show ?thesis using r by blast
  qed
qed

theorem no_neighbours_break_composition_witness:
  "\<exists>r. compose \<lparr>tg_sin = (\<lambda>_. 1), tg_acos = (\<lambda>_. 1)\<rparr> flat_libm (\<lambda>_ _. None) (\<lambda>r. (1, r)) (\<lambda>_. ())
     \<lparr>sn_locations = [unit_location], sn_config = EAMConfig_defaults 2\<rparr>
     \<lparr>sn_locations = [unit_location], sn_config = EAMConfig_defaults 2\<rparr>
     (ComposeParams_default\<lparr>descent_k := 0, dream_rounds := 0\<rparr>) = Inr r \<and>
     2 < length (sn_locations (cr_snapshot r))"
proof -
  let ?a = "\<lparr>sn_locations = [unit_location], sn_config = EAMConfig_defaults 2\<rparr>"
  from no_neighbours_break_composition [of ?a ?a "ComposeParams_default\<lparr>descent_k := 0, dream_rounds := 0\<rparr>"
      "\<lparr>tg_sin = (\<lambda>_. 1), tg_acos = (\<lambda>_. 1)\<rparr>" flat_libm "\<lambda>_ _. None" "\<lambda>r. (1, r)" "\<lambda>_. ()"]
  show ?thesis by (auto simp: ComposeParams_default_def Let_def)
qed

text \<open>A routed read over several memories returns when the query is as long as their locations:
  it never panics, gives a vector of the query's length, and one weight and one confidence for
  every memory, in order; a memory without locations takes part with the query itself.\<close>

lemma routed_read_returns:
  assumes "\<And>s. s \<in> set parents \<Longrightarrow> cells_ok (length query) (sn_locations s)"
  shows "\<exists>r. compose_read L query parents sharpness = Inr r \<and> length (crr_result r) = length query \<and>
     length (crr_weights r) = length parents \<and> length (crr_confidences r) = length parents"
proof -
  have "length (fst (read_parent_with_confidence L query (sn_locations s) (sn_config s))) \<le> length query"
    if "s \<in> set parents" for s
    using parent_read_length [OF assms [OF that], of L query "sn_config s"] by (cases "sn_locations s = []") (auto simp: empty_parent_read)
  then have "\<not> list_ex (\<lambda>r. length query < length r)
      (map (\<lambda>p. fst (read_parent_with_confidence L query (sn_locations p) (sn_config p))) parents)"
    by (auto simp: list_ex_iff not_less)
  then show ?thesis
    by (simp add: compose_read_eq Let_def blended_length routing_weights_def)
qed

end
