(* ===== verification/Routes_Sound.thy ===== *)
theory Routes_Sound
  imports Routes Hive_Sound Compose_Facts
begin

text \<open>
  The algebra endpoints leave the database in order. Loading a snapshot stays inside its
  collection (an interpretation of \<open>confined\<close>); every operation of the algebra turns snapshots of
  sound collections into a snapshot that a collection can take (the locale \<open>algebra\<close>); so a
  handler that looks up its sources, makes its target and loads the result keeps \<open>hive_ok\<close>.
\<close>

section \<open>Loading stays inside a collection\<close>

lemma put_documents_inside:
  "storage_ok (mc_storage M) view \<Longrightarrow> put_documents M s c ds = Inr s' \<Longrightarrow> inside view c s s'"
  unfolding put_documents_def by (erule rfold_inside) (auto dest: put_document_inside)

lemma materialize_inside:
  assumes K: "storage_ok (mc_storage M) view" and m: "materialize_document_refs M c inner s = Inr (n, s')"
  shows "store_inside view c s s'"
  using m txn_eq [OF K]
  by (auto simp: materialize_document_refs_def Let_def rbind_eq_Inr store_inside_def split: if_splits;
      fastforce intro: put_documents_inside [OF K])

lemma delete_location_inside:
  "storage_ok K view \<Longrightarrow> delete_location K s c i = Inr s' \<Longrightarrow> inside view c s s'"
  by (auto simp: delete_location_def rbind_eq_Inr inside_def intro: same_outside_write)

lemma persist_snapshot_inside:
  assumes K: "storage_ok (mc_storage M) view" and p: "persist_snapshot M c old ls n d s = Inr s'"
  shows "store_inside view c s s'"
proof -
  let ?K = "mc_storage M"
  obtain t1 t2 t3 t4 where t: "rfold (\<lambda>txn l. delete_location ?K txn c (loc_id l)) (st_dbs s) old = Inr t1"
    "put_locations M (st_precision s) t1 c ls = Inr t2" "put_u64 M t2 c ''next_id'' n = Inr t3"
    "put_u64 M t3 c ''config_d'' (of_nat d) = Inr t4" "s' = s\<lparr>st_dbs := t4\<rparr>"
    using p txn_eq [OF K] by (fastforce simp: persist_snapshot_def Let_def rbind_eq_Inr)
  have "inside view c (st_dbs s) t1" using t(1) by (rule rfold_inside) (rule delete_location_inside [OF K])
  then have "inside view c (st_dbs s) t4"
    by (blast intro: inside_trans put_locations_inside [OF K t(2)] put_u64_inside [OF K t(3)] put_u64_inside [OF K t(4)])
  then show ?thesis by (simp add: t(5) store_inside_def)
qed

interpretation confined_snapshot: confined "\<lambda>M. snapshot_body M name ls cfg expected" for name ls cfg expected
  by unfold_locales
    (auto simp: snapshot_body_def Let_def rbind_eq_Inr split: sum.splits prod.splits
      intro: store_inside_trans persist_snapshot_inside materialize_inside)

section \<open>Looking up and making collections\<close>

lemma cached_eq: "cached H n = (if hv_poisoned H then Err LockPoisoned else Ok (hv_cache H n))"
  by (simp add: cached_def)

lemma publish_length: "publish n C H = (a, H') \<Longrightarrow> a < length (hv_heap H') \<and> hv_heap H' = hv_heap H @ [C]"
  by (auto simp: publish_def Let_def)

lemma reload_result:
  assumes K: "storage_ok (mc_storage M) view" and ok: "hive_ok M view H"
    and st: "stored M view (hv_config H) i (hv_store H)"
    and r: "reload_collection M n i (H, rng) = (r, H', rng')"
  shows "st_dbs (hv_store H') = st_dbs (hv_store H)" "r = Inr a \<Longrightarrow> a < length (hv_heap H')"
proof -
  show "st_dbs (hv_store H') = st_dbs (hv_store H)"
  proof (cases r)
    case (Inl e)
    then show ?thesis using r reload_failed [of M n i H rng] by (auto simp: same_hive_def)
  next
    case (Inr b)
    then obtain C s1 where C: "Collection_load M i n (hv_store H) (hv_config H) = Inr (C, s1)"
      "publish n C (H\<lparr>hv_store := s1\<rparr>) = (b, H')"
      using r by (auto simp: reload_collection_def install_def Let_def split: sum.splits prod.splits)
    then show ?thesis using stored_load(2) [OF K st hive_okD(2) [OF ok] C(1)] by (auto simp: publish_def Let_def)
  qed
  show "a < length (hv_heap H')" if "r = Inr a"
    using r that by (auto dest!: publish_length simp: reload_collection_def install_def Let_def split: sum.splits prod.splits)
qed

lemma reload_stored:
  assumes K: "storage_ok (mc_storage M) view" and ok: "hive_ok M view H" and closed: "closed_ok M view {} H"
    and n: "n \<noteq> NEXT_COLLECTION_ID_KEY" "hv_cache H n = None"
    and i: "reg_entry (mc_storage M) (registry view (hv_store H)) n = Some i"
    and r: "reload_collection M n i (H, rng) = (r, H', rng')"
  shows "step_ok M view {} H H' \<and> st_dbs (hv_store H') = st_dbs (hv_store H) \<and>
     (\<forall>a. r = Inr a \<longrightarrow> a < length (hv_heap H'))"
proof -
  have st: "stored M view (hv_config H) i (hv_store H)" using closed n i by (simp add: closed_ok_def)
  have "step_ok M view {} H H'"
  proof (cases r)
    case (Inl e)
    then show ?thesis using r reload_failed [of M n i H rng] same_step_ok [OF _ ok closed] by simp
  next
    case (Inr a)
    have "closed_ok M view {(n, i)} H" using closed by (auto simp: closed_ok_def)
    then show ?thesis using reload_ok [OF K ok _ _ r [unfolded Inr]] n i st by simp
  qed
  then show ?thesis using reload_result [OF K ok st r] by blast
qed

lemma get_ok:
  assumes K: "storage_ok (mc_storage M) view" and ok: "hive_ok M view H" and closed: "closed_ok M view {} H"
    and n: "n \<noteq> NEXT_COLLECTION_ID_KEY" and g: "Hive_get M n (H, rng) = (r, H', rng')"
  shows "step_ok M view {} H H' \<and> st_dbs (hv_store H') = st_dbs (hv_store H) \<and>
     (\<forall>a. r = Inr (Some a) \<longrightarrow> a < length (hv_heap H'))"
proof -
  have same: "step_ok M view {} H H" by (rule same_step_ok [OF _ ok closed]) (simp add: same_hive_def)
  show ?thesis
  proof (cases "\<exists>i. cached H n = Inr None \<and> get_collection_id (mc_storage M) (hv_store H) n = Inr (Some i)")
    case True
    then obtain i where i: "cached H n = Inr None" "get_collection_id (mc_storage M) (hv_store H) n = Inr (Some i)"
      by blast
    obtain r1 where r1: "reload_collection M n i (H, rng) = (r1, H', rng')" "r = rbind r1 (\<lambda>a. Ok (Some a))"
      using g i by (auto simp: Hive_get_def get_locked_def split: prod.splits)
    have "hv_cache H n = None" using i(1) by (simp add: cached_eq split: if_splits)
    from reload_stored [OF K ok closed n this get_id_reg [OF K i(2)] r1(1)] show ?thesis
      by (auto simp: r1(2) rbind_eq_Inr)
  next
    case False
    then have "H' = H" "r = Inr (Some a) \<Longrightarrow> hv_cache H n = Some a" for a
      using g by (auto simp: Hive_get_def cached_eq split: sum.splits option.splits if_splits)
    then show ?thesis using same hive_okD(6) [OF ok] by blast
  qed
qed

text \<open>A failure may leave a registered collection that is not on disk, but harms no other.\<close>

lemma get_or_create_ok:
  assumes K: "storage_ok (mc_storage M) view" and ok: "hive_ok M view H" and closed: "closed_ok M view {} H"
    and n: "n \<noteq> NEXT_COLLECTION_ID_KEY"
    and room: "reg_next (mc_storage M) (registry view (hv_store H)) + 1 \<noteq> 0"
    and g: "Hive_get_or_create M n (H, rng) = (r, H', rng')"
  shows "hive_ok M view H' \<and> (\<exists>cs. hv_heap H' = hv_heap H @ cs) \<and>
     (\<forall>a. r = Inr a \<longrightarrow> closed_ok M view {} H' \<and> a < length (hv_heap H'))"
proof -
  consider (same) "same_hive H H'" "\<And>a. r = Inr a \<Longrightarrow> hv_cache H n = Some a"
    | (registered) i s where "hv_cache H n = None" "\<not> hv_poisoned H" "register (mc_storage M) (hv_store H) n = Inr (i, s)"
        "create_locked M n (H, rng) = (r, H', rng')"
  proof (cases "hv_poisoned H \<or> hv_cache H n \<noteq> None \<or> (\<exists>e. register (mc_storage M) (hv_store H) n = Inl e)")
    case True
    then show ?thesis
      using g by (intro same)
        (auto simp: Hive_get_or_create_def Hive_create_def create_locked_def cached_eq same_hive_def fail_locked_def
          split: sum.splits if_splits option.splits)
  next
    case False
    then obtain i s where "register (mc_storage M) (hv_store H) n = Inr (i, s)"
      by (metis obj_sumE surj_pair)
    then show ?thesis using False g by (intro registered) (auto simp: Hive_get_or_create_def Hive_create_def cached_eq)
  qed
  then show ?thesis
  proof cases
    case same
    then show ?thesis using same_hive_ok [OF same(1), of M view] ok closed hive_okD(6) [OF ok]
      by (auto simp: same_hive_def)
  next
    case registered
    let ?H = "H\<lparr>hv_store := s\<rparr>"
    note R = register_ok [OF K ok closed n registered(1) room registered(3)]
    have ok1: "hive_ok M view ?H" "closed_ok M view {(n, i)} ?H" using R(1) by (simp_all add: step_ok_def)
    show ?thesis
    proof (cases "load_all_locations (mc_storage M) s i")
      case (Inl e)
      then have "same_hive ?H H'" "\<exists>e. r = Inl e"
        using registered by (auto simp: create_locked_def cached_eq same_hive_def fail_locked_def
            split: if_splits)
      then show ?thesis using same_hive_ok(1) [of ?H H' M view] ok1(1) by (auto simp: same_hive_def)
    next
      case (Inr x)
      obtain existing s2 where x: "x = (existing, s2)" by fastforce
      let ?H2 = "H\<lparr>hv_store := s2\<rparr>"
      have "same_hive ?H ?H2" using load_all_same_dbs [OF Inr [unfolded x]] by (simp add: same_hive_def)
      note S = same_hive_ok [OF this, of M view]
      have ok2: "hive_ok M view ?H2" "closed_ok M view {(n, i)} ?H2" using ok1 S by simp_all
      have needs: "needs M view (if existing = [] then Seeding n i else Reloading n i) ?H2"
        using R(2) S(3) fresh_load [OF K _ Inr [unfolded x]] stored_load(1) [OF K _ hive_okD(2) [OF ok1(1)]] Inr x
        by (auto simp: S(3) split: if_splits)
      have run: "(if existing = [] then seed_collection M n i (?H2, rng) else reload_collection M n i (?H2, rng)) = (r, H', rng')"
        using registered Inr x
        by (auto simp: create_locked_def cached_eq Let_def split: if_splits)
      show ?thesis
      proof (cases r)
        case (Inl e)
        then have "same_hive ?H2 H'"
          using run by (auto simp: seed_collection_def reload_collection_def install_def same_hive_def fail_locked_def Let_def
              split: if_splits sum.splits prod.splits)
        then show ?thesis using same_hive_ok(1) [of ?H2 H' M view] ok2(1) Inl by (auto simp: same_hive_def)
      next
        case a: (Inr a)
        have "step_ok M view {} ?H2 H'"
          using seed_ok [OF K ok2 _, of rng a H' rng'] reload_ok [OF K ok2 _, of rng a H' rng'] needs run a
          by (auto split: if_splits)
        moreover have "a < length (hv_heap H') \<and> (\<exists>C. hv_heap H' = hv_heap H @ [C])"
          using run a
          by (auto dest!: publish_length simp: seed_collection_def reload_collection_def install_def Let_def split: if_splits sum.splits prod.splits)
        ultimately show ?thesis by (auto simp: step_ok_def a)
      qed
    qed
  qed
qed

section \<open>What the algebra makes of sound collections\<close>

lemma snap_okD:
  assumes "snap_ok s"
  shows "cells_ok (sn_dim s) (sn_locations s)" "length (sn_locations s) < 2 ^ 64"
  using assms by (simp_all add: snap_ok_def)

lemma snap_ok_same:
  assumes "snap_ok s" "cells_ok (sn_dim t) (sn_locations t)" "map loc_id (sn_locations t) = map loc_id (sn_locations s)"
  shows "snap_ok t"
proof -
  have "length (sn_locations t) = length (sn_locations s)" using assms(3) map_eq_imp_length_eq by blast
  moreover have "\<forall>l\<in>set (sn_locations t). loc_id l < - 1"
    using assms(1,3) by (metis (no_types, lifting) image_eqI image_iff list.set_map snap_ok_def)
  ultimately show ?thesis using assms by (simp add: snap_ok_def)
qed

text \<open>A snapshot is something a collection can take.\<close>

lemma snap_memory_ok:
  assumes "snap_ok s"
  shows "memory_ok (sn_dim s) (snapshot_next_id (sn_locations s)) (sn_locations s)"
proof -
  have "loc_id l < snapshot_next_id (sn_locations s)" if l: "l \<in> set (sn_locations s)" for l
  proof -
    obtain x xs where xs: "sn_locations s = x # xs" using l by (cases "sn_locations s") auto
    let ?m = "Max (set (map loc_id (x # xs)))"
    have "foldl max a ys = fold max ys a" for a and ys :: "u64 list"
      by (induction ys arbitrary: a) (simp_all add: max.commute)
    then have "snapshot_next_id (sn_locations s) = ?m + 1"
      unfolding xs snapshot_next_id_def list.case Max.set_eq_fold list.map by simp
    moreover have "loc_id l \<le> ?m" using l xs by (intro Max_ge) auto
    moreover have "?m \<in> set (map loc_id (x # xs))" by (rule Max_in) auto
    then have "?m < - 1" using assms xs by (auto simp: snap_ok_def)
    ultimately show ?thesis by unat_arith
  qed
  then show ?thesis using assms by (simp add: snap_ok_def memory_ok_def cells_ok_def)
qed

lemma snapshot_of_sound:
  assumes "sound M view c s" "from_collection c = Inr sn"
  shows "snap_ok sn" "0 < sn_dim sn"
proof -
  have c: "in_valid (co_inner c)" "sn = \<lparr>sn_locations = in_locations (co_inner c), sn_config = in_config (co_inner c)\<rparr>"
    using assms(2) by (auto simp: from_collection_def of_db_def Collection_snapshot_def read_inner_def rbind_eq_Inr ebind_Inr
        rbind_def split: sum.splits fault.splits if_splits)
  then have ok: "memory_ok (sn_dim sn) (in_next_id (co_inner c)) (sn_locations sn)" "0 < sn_dim sn"
    using assms(1) by (auto simp: sound_def consistent_def inner_ok_def Let_def sn_dim_def)
  have below: "loc_id l < - 1" if "l \<in> set (sn_locations sn)" for l
  proof -
    have "loc_id l < in_next_id (co_inner c)" using ok(1) that by (simp add: memory_ok_def)
    then show ?thesis by (rule less_le_trans) simp
  qed
  have "distinct (map loc_id (sn_locations sn))" by (rule memory_ok_distinct [OF ok(1)])
  then have "card (set (map loc_id (sn_locations sn))) = length (sn_locations sn)"
    by (metis distinct_card length_map)
  moreover have "card (set (map loc_id (sn_locations sn))) \<le> card (UNIV - {- 1 :: u64})"
    by (rule card_mono) (auto dest: below)
  moreover have "card (UNIV - {- 1 :: u64}) < 2 ^ 64" by (simp add: card_Diff_singleton card_word)
  ultimately have "length (sn_locations sn) < 2 ^ 64" by linarith
  then show "snap_ok sn" using ok(1) below by (simp add: snap_ok_def memory_ok_def cells_ok_def)
  show "0 < sn_dim sn" by (rule ok(2))
qed

lemma scale_ok:
  assumes "snap_ok a" "scale a x = Inr r"
  shows "snap_ok r" "sn_dim r = sn_dim a"
proof -
  have r: "r = a\<lparr>sn_locations := map (\<lambda>l. l\<lparr>loc_counter := map (\<lambda>c. c * x) (loc_counter l)\<rparr>) (sn_locations a)\<rparr>"
    using assms(2) by (simp add: scale_def split: if_splits)
  show "snap_ok r"
    by (rule snap_ok_same [OF assms(1)]) (use snap_okD(1) [OF assms(1)] in \<open>auto simp: r cells_ok_def loc_wf_def sn_dim_def\<close>)
  show "sn_dim r = sn_dim a" by (simp add: r sn_dim_def)
qed

lemma permuted_ok:
  assumes "snap_ok s" "perm_ok \<rho>" "permute_snapshot s \<rho> k = Inr r"
  shows "snap_ok r" "sn_dim r = sn_dim s"
proof -
  have d: "sn_dim s = pm_dim \<rho>" using assms(3) by (auto simp: permute_snapshot_def ebind_Inr)
  have "loc_wf (pm_dim \<rho>) l" if "l \<in> set (sn_locations s)" for l
    using that cells_okD(1) [OF snap_okD(1) [OF assms(1)]] d by simp
  from permute_snapshot_map [OF assms(2) d this] assms(3)
  have r: "r = s\<lparr>sn_locations := map (\<lambda>l. l\<lparr>loc_counter := rearranged \<rho> k (loc_counter l),
     loc_address := rearranged \<rho> k (loc_address l)\<rparr>) (sn_locations s)\<rparr>" by simp
  show "snap_ok r"
    by (rule snap_ok_same [OF assms(1)]) (use d in \<open>auto simp: r cells_ok_def loc_wf_def sn_dim_def rearranged_def\<close>)
  show "sn_dim r = sn_dim s" by (simp add: r sn_dim_def)
qed

text \<open>The contract of an operation on two snapshots: under \<open>given\<close>, of the sizes of the two,
  it gives a snapshot that a collection can take.\<close>

locale cross_operation =
  fixes f :: "EAMSnapshot \<Rightarrow> EAMSnapshot \<Rightarrow> EAMSnapshot ares" and given :: "nat \<Rightarrow> nat \<Rightarrow> bool"
  assumes result_ok: "given (length (sn_locations a)) (length (sn_locations b)) \<Longrightarrow> snap_ok a \<Longrightarrow> snap_ok b \<Longrightarrow>
      f a b = Inr r \<Longrightarrow> snap_ok r \<and> sn_dim r = sn_dim a"

interpretation adding: cross_operation "\<lambda>a b. add_with_limit L P a b k" "\<lambda>n m. projected_ok P \<and> cross_count n m k < 2 ^ 64"
  for L P k
proof
  fix a b r
  assume g: "projected_ok P \<and> cross_count (length (sn_locations a)) (length (sn_locations b)) k < 2 ^ 64"
    and s: "snap_ok a" "snap_ok b" and r: "add_with_limit L P a b k = Inr r"
  have "sn_dim b = sn_dim a" using r by (auto simp: add_with_limit_def alg_check_dims_def ebind_Inr)
  then show "snap_ok r \<and> sn_dim r = sn_dim a"
    using r s combined_snapshot_ok [of a b P k L 1] snap_okD(1) [OF s(1)] snap_okD(1) [OF s(2)] g
    by (auto simp: add_with_limit_def ebind_Inr sn_dim_def split: if_splits)
qed

interpretation subtracting: cross_operation "\<lambda>a b. sub_with_limit L P a b k"
  "\<lambda>n m. projected_ok P \<and> cross_count n m k < 2 ^ 64" for L P k
proof
  fix a b r
  assume g: "projected_ok P \<and> cross_count (length (sn_locations a)) (length (sn_locations b)) k < 2 ^ 64"
    and s: "snap_ok a" "snap_ok b" and r: "sub_with_limit L P a b k = Inr r"
  have "sn_dim b = sn_dim a" using r by (auto simp: sub_with_limit_def alg_check_dims_def ebind_Inr)
  then show "snap_ok r \<and> sn_dim r = sn_dim a"
    using r s combined_snapshot_ok [of a b P k L "- 1"] snap_okD(1) [OF s(1)] snap_okD(1) [OF s(2)] g
      scale_ok [OF s(2)]
    by (auto simp: sub_with_limit_def negate_def ebind_Inr sn_dim_def split: if_splits)
qed

interpretation binding: cross_operation "\<lambda>a b. bind_with_limit T L P a b k"
  "\<lambda>n m. fft_ok T \<and> projected_ok P \<and> cross_count n m k < 2 ^ 64" for T L P k
  by unfold_locales (auto simp: sn_dim_def dest: bind_with_limit_ok)

lemma intersect_ok:
  assumes "snap_ok a" "intersect a b threshold = Inr r"
  shows "snap_ok r" "sn_dim r = sn_dim a" "length (sn_locations r) \<le> length (sn_locations a)"
proof -
  let ?t = "\<lparr>sn_locations = filter (has_match threshold (sn_locations b)) (sn_locations a), sn_config = sn_config a\<rparr>"
  have r: "r = reindex ?t" using assms(2) by (simp add: intersect_def ebind_Inr)
  have "cells_ok (sn_dim ?t) (sn_locations ?t)"
    using snap_okD(1) [OF assms(1)] by (auto simp: cells_ok_def sn_dim_def)
  moreover have "length (sn_locations ?t) \<le> length (sn_locations a)" by simp
  ultimately show "snap_ok r" "length (sn_locations r) \<le> length (sn_locations a)"
    unfolding r using le_less_trans [OF length_filter_le snap_okD(2) [OF assms(1)]] by (auto intro!: reindex_ok)
  show "sn_dim r = sn_dim a" by (simp add: r sn_dim_def)
qed

interpretation intersecting: cross_operation "\<lambda>a b. intersect a b threshold" "\<lambda>_ _. True" for threshold
  by unfold_locales (auto dest: intersect_ok)

section \<open>Tasks\<close>

lemma load_inside:
  assumes K: "storage_ok (mc_storage M) view" and sound: "sound M view c s" and sn: "snap_ok sn" "0 < sn_dim sn"
    and l: "load_snapshot_checked M (sn_locations sn) (sn_config sn) e (c, s, rng) = (r, c', s', rng')"
  shows "store_inside view (co_id c) s s' \<and> co_id c' = co_id c \<and> sound M view c' s'"
  using l sound snapshot.keeps_sound [OF K sound, of "sn_config sn" "sn_locations sn"]
    confined_snapshot.mutation_inside [OF K] snap_memory_ok [OF sn(1)] sn(2)
  by (auto simp: load_snapshot_checked_def sn_dim_def split: sum.splits)

lemma load_snapshot_eq: "load_snapshot M ls cfg = load_snapshot_checked M ls cfg None"
  by (rule ext) (simp add: load_snapshot_def)

lemma store_result_ok:
  assumes K: "storage_ok (mc_storage M) view" and ok: "hive_ok M view H" and closed: "closed_ok M view {} H"
    and t: "t < length (hv_heap H)" and sn: "\<And>e s. computed = Inr (e, s) \<Longrightarrow> snap_ok s \<and> 0 < sn_dim s"
    and run: "store_result M t computed (H, rng) = (r, H', rng')"
  shows "step_ok M view {} H H'"
proof (cases computed)
  case (Inl e)
  then show ?thesis using run same_step_ok [OF _ ok closed, of H'] by (simp add: store_result_def same_hive_def)
next
  case (Inr es)
  obtain e s where es: "es = (e, s)" by fastforce
  have s: "snap_ok s" "0 < sn_dim s" using sn Inr es by auto
  obtain r1 where r1: "on_collection t (load_snapshot_checked M (sn_locations s) (sn_config s) e) (H, rng) = (r1, H', rng')"
    using run by (cases e) (auto simp: store_result_def Inr es into_collection_def into_collection_checked_def load_snapshot_eq
        split: prod.splits)
  obtain C st where C: "load_snapshot_checked M (sn_locations s) (sn_config s) e (hv_heap H ! t, hv_store H, rng) = (r1, C, st, rng')"
    "H' = H\<lparr>hv_heap := (hv_heap H)[t := C], hv_store := st\<rparr>"
    using r1 by (auto simp: on_collection_def Let_def split: prod.splits)
  have sound: "sound M view (hv_heap H ! t) (hv_store H)" using hive_okD(8,9) [OF ok] t by blast
  note L = load_inside [OF K sound s C(1)]
  show ?thesis using handle_ok(1) [OF ok closed t _ _ _ C(2)] L by blast
qed

lemma versioned_result: "versioned t w computed = Inr (e, s) \<Longrightarrow> computed = Inr s"
  by (auto simp: versioned_def ebind_Inr)

lemma heap_sound: "hive_ok M view H \<Longrightarrow> a < length (hv_heap H) \<Longrightarrow> sound M view (hv_heap H ! a) (hv_store H)"
  using hive_okD(8,9) by blast

abbreviation size_of :: "'db hive \<Rightarrow> nat \<Rightarrow> nat" where
  "size_of H a \<equiv> length (in_locations (co_inner (hv_heap H ! a)))"

lemma from_collection_size:
  "from_collection c = Inr sn \<Longrightarrow> length (sn_locations sn) = length (in_locations (co_inner c))"
  by (auto simp: from_collection_def of_db_def Collection_snapshot_def read_inner_def rbind_eq_Inr ebind_Inr
      rbind_def split: sum.splits fault.splits if_splits)

context cross_operation
begin

lemma task_ok:
  assumes K: "storage_ok (mc_storage M) view" and ok: "hive_ok M view H" and closed: "closed_ok M view {} H"
    and a: "a < length (hv_heap H)" "b < length (hv_heap H)" "t < length (hv_heap H)"
    and given: "given (size_of H a) (size_of H b)"
    and run: "cross_task M f a b t (H, rng) = (r, H', rng')"
  shows "step_ok M view {} H H'"
proof -
  define computed where "computed = ebind (from_collection (hv_heap H ! a)) (\<lambda>sa.
      ebind (from_collection (hv_heap H ! b)) (f sa))"
  have "snap_ok s \<and> 0 < sn_dim s" if c: "computed = Inr s" for s
  proof -
    obtain sa sb where s: "from_collection (hv_heap H ! a) = Inr sa" "from_collection (hv_heap H ! b) = Inr sb"
      "f sa sb = Inr s" using c by (auto simp: computed_def ebind_Inr)
    note A = snapshot_of_sound [OF heap_sound [OF ok a(1)] s(1)]
      and B = snapshot_of_sound [OF heap_sound [OF ok a(2)] s(2)]
    show ?thesis
      using result_ok [OF _ A(1) B(1) s(3)] A(2) given from_collection_size [OF s(1)] from_collection_size [OF s(2)] by simp
  qed
  moreover have "store_result M t (versioned t (H, rng) computed) (H, rng) = (r, H', rng')"
    using run by (simp add: cross_task_def computed_def)
  ultimately show ?thesis by (intro store_result_ok [OF K ok closed a(3)]) (auto dest: versioned_result)
qed

end

section \<open>Handlers\<close>

lemma with_source_ok:
  assumes K: "storage_ok (mc_storage M) view" and ok: "hive_ok M view H" and closed: "closed_ok M view {} H"
    and n: "n \<noteq> NEXT_COLLECTION_ID_KEY" and run: "with_source M missing n k (H, rng) = (resp, H', rng')"
    and k: "\<And>a H1 rng1. step_ok M view {} H H1 \<Longrightarrow> st_dbs (hv_store H1) = st_dbs (hv_store H) \<Longrightarrow>
      a < length (hv_heap H1) \<Longrightarrow> k a (H1, rng1) = (resp, H', rng') \<Longrightarrow> hive_ok M view H'"
  shows "hive_ok M view H'"
proof -
  obtain r H1 rng1 where g: "Hive_get M n (H, rng) = (r, H1, rng1)" by (metis prod_cases3)
  note G = get_ok [OF K ok closed n g]
  show ?thesis
  proof (cases "\<exists>a. r = Inr (Some a)")
    case True
    then obtain a where "r = Inr (Some a)" by blast
    then show ?thesis using k G run g by (auto simp: with_source_def)
  next
    case False
    then have "H' = H1" using run g by (auto simp: with_source_def split: sum.splits option.splits)
    then show ?thesis using G by (simp add: step_ok_def)
  qed
qed

lemma with_target_ok:
  assumes K: "storage_ok (mc_storage M) view" and ok: "hive_ok M view H" and closed: "closed_ok M view {} H"
    and n: "n \<noteq> NEXT_COLLECTION_ID_KEY" and room: "reg_next (mc_storage M) (registry view (hv_store H)) + 1 \<noteq> 0"
    and run: "with_target M n k (H, rng) = (resp, H', rng')"
    and k: "\<And>t H1 rng1 cs. hive_ok M view H1 \<Longrightarrow> closed_ok M view {} H1 \<Longrightarrow> hv_heap H1 = hv_heap H @ cs \<Longrightarrow>
      t < length (hv_heap H1) \<Longrightarrow> k t (H1, rng1) = (resp, H', rng') \<Longrightarrow> hive_ok M view H'"
  shows "hive_ok M view H'"
proof -
  obtain r H1 rng1 where g: "Hive_get_or_create M n (H, rng) = (r, H1, rng1)" by (metis prod_cases3)
  note G = get_or_create_ok [OF K ok closed n room g]
  show ?thesis
  proof (cases r)
    case (Inl e)
    then show ?thesis using run g G by (simp add: with_target_def)
  next
    case (Inr t)
    then show ?thesis using k G run g by (auto simp: with_target_def)
  qed
qed

text \<open>The server has a cap, and it is below what a machine word can count.\<close>

definition capped :: "algebra_env \<Rightarrow> bool" where
  "capped A \<longleftrightarrow> 0 < max_algebra_locations (limits_get (ae_limits A)) \<and>
     max_algebra_locations (limits_get (ae_limits A)) < 2 ^ 64 - 1"

lemma cap_passed:
  assumes "capped A" "refused_by_cap (ae_limits A) a b k = None"
  shows "cross_count (length (in_locations (co_inner a))) (length (in_locations (co_inner b))) k < 2 ^ 64"
proof -
  have "check_cross_product_cap (ae_limits A) (length (in_locations (co_inner a))) (length (in_locations (co_inner b))) k = Inr ()"
    using assms by (auto simp: refused_by_cap_def capped_def num_locations_def ensure_def split: sum.splits if_splits)
  from cap_bounds [OF this] assms(1) show ?thesis by (simp add: capped_def)
qed

text \<open>What a request relies on.\<close>

definition request_ok ::
  "('r, 'db) machine \<Rightarrow> ('db \<Rightarrow> bytes \<Rightarrow> bytes option) \<Rightarrow> 'db hive \<Rightarrow> bytes list \<Rightarrow> bool" where
  "request_ok M view H names \<longleftrightarrow>
     storage_ok (mc_storage M) view \<and> hive_ok M view H \<and> closed_ok M view {} H \<and>
     reg_next (mc_storage M) (registry view (hv_store H)) + 1 \<noteq> 0 \<and> NEXT_COLLECTION_ID_KEY \<notin> set names"

lemma request_okD:
  assumes "request_ok M view H names"
  shows "storage_ok (mc_storage M) view" "hive_ok M view H" "closed_ok M view {} H"
    "reg_next (mc_storage M) (registry view (hv_store H)) + 1 \<noteq> 0"
    "n \<in> set names \<Longrightarrow> n \<noteq> NEXT_COLLECTION_ID_KEY"
  using assms by (auto simp: request_ok_def)

lemma request_ok_step:
  assumes "request_ok M view H names" "step_ok M view {} H H1" "st_dbs (hv_store H1) = st_dbs (hv_store H)"
  shows "request_ok M view H1 names"
  using assms by (auto simp: request_ok_def step_ok_def)

lemma cross_keeps:
  assumes op: "\<And>k. cross_operation (f k) (\<lambda>n m. given \<and> cross_count n m k < 2 ^ 64)" and g: "given" and cap: "capped A"
    and req: "request_ok M view H [aa_source_a req, aa_source_b req, aa_target req]"
    and run: "algebra_cross M A f req (H, rng) = (resp, H', rng')"
  shows "hive_ok M view H'"
proof -
  note K = request_okD(1) [OF req]
  let ?names = "[aa_source_a req, aa_source_b req, aa_target req]"
  show ?thesis
  proof (rule with_source_ok [OF K request_okD(2,3) [OF req] _ run [unfolded algebra_cross_def]])
    fix a H1 rng1
    assume s1: "step_ok M view {} H H1" "st_dbs (hv_store H1) = st_dbs (hv_store H)" and a: "a < length (hv_heap H1)"
      and run1: "with_source M ''source collection '{}' not found'' (aa_source_b req) (\<lambda>b w.
        let k = unwrap_or 0 (aa_max_cross_k req) in
        case refused_by_cap (ae_limits A) (hv_heap (fst w) ! a) (hv_heap (fst w) ! b) k of
          Some resp \<Rightarrow> (resp, w)
        | None \<Rightarrow> with_target M (aa_target req) (\<lambda>t w.
            let (r, w) = cross_task M (f k) a b t w in (algebra_reply (aa_target req) r, w)) w) (H1, rng1) = (resp, H', rng')"
    note req1 = request_ok_step [OF req s1]
    show "hive_ok M view H'"
    proof (rule with_source_ok [OF K request_okD(2,3) [OF req1] _ run1])
      fix b H2 rng2
      let ?k = "unwrap_or 0 (aa_max_cross_k req)"
      assume s2: "step_ok M view {} H1 H2" "st_dbs (hv_store H2) = st_dbs (hv_store H1)" and b: "b < length (hv_heap H2)"
        and run2: "(let k = ?k in
          case refused_by_cap (ae_limits A) (hv_heap (fst (H2, rng2)) ! a) (hv_heap (fst (H2, rng2)) ! b) k of
            Some resp \<Rightarrow> (resp, (H2, rng2))
          | None \<Rightarrow> with_target M (aa_target req) (\<lambda>t w.
              let (r, w) = cross_task M (f k) a b t w in (algebra_reply (aa_target req) r, w)) (H2, rng2)) = (resp, H', rng')"
      note req2 = request_ok_step [OF req1 s2]
      have a2: "a < length (hv_heap H2)" using a s2(1) by (simp add: step_ok_def)
      show "hive_ok M view H'"
      proof (cases "refused_by_cap (ae_limits A) (hv_heap H2 ! a) (hv_heap H2 ! b) ?k :: AlgebraResponse Response option")
        case (Some x)
        then show ?thesis using run2 request_okD(2) [OF req2] by simp
      next
        case None
        have size: "cross_count (size_of H2 a) (size_of H2 b) ?k < 2 ^ 64" by (rule cap_passed [OF cap None])
        have run3: "with_target M (aa_target req) (\<lambda>t w.
            let (r, w) = cross_task M (f ?k) a b t w in (algebra_reply (aa_target req) r, w)) (H2, rng2) = (resp, H', rng')"
          using run2 None by simp
        show ?thesis
        proof (rule with_target_ok [OF K request_okD(2,3) [OF req2] _ request_okD(4) [OF req2] run3])
          fix t H3 rng3 cs
          assume ok3: "hive_ok M view H3" "closed_ok M view {} H3" "hv_heap H3 = hv_heap H2 @ cs" "t < length (hv_heap H3)"
            and run4: "(let (r, w) = cross_task M (f ?k) a b t (H3, rng3) in (algebra_reply (aa_target req) r, w)) = (resp, H', rng')"
          obtain r where "cross_task M (f ?k) a b t (H3, rng3) = (r, H', rng')" using run4 by (auto split: prod.splits)
          moreover have "size_of H3 a = size_of H2 a" "size_of H3 b = size_of H2 b"
            using a2 b ok3(3) by (simp_all add: nth_append)
          then have "cross_count (size_of H3 a) (size_of H3 b) ?k < 2 ^ 64" using size by (simp only:)
          moreover have "a < length (hv_heap H3)" "b < length (hv_heap H3)" using a2 b ok3(3) by simp_all
          ultimately have "step_ok M view {} H3 H'"
            using g by (blast intro: cross_operation.task_ok [OF op K ok3(1,2) _ _ ok3(4)])
          then show "hive_ok M view H'" by (simp add: step_ok_def)
        qed (use request_okD(5) [OF req2] in simp)
      qed
    qed (use request_okD(5) [OF req1] in simp)
  qed (use request_okD(5) [OF req] in simp)
qed

text \<open>A handler with one source, whose task computes from the source alone.\<close>

lemma unary_keeps:
  assumes req: "request_ok M view H [source, target]"
    and g: "\<And>t a H rng e s. hive_ok M view H \<Longrightarrow> a < length (hv_heap H) \<Longrightarrow> g t a (H, rng) = Inr (e, s) \<Longrightarrow>
      snap_ok s \<and> 0 < sn_dim s"
    and run: "with_source M missing source (\<lambda>a. with_target M target (\<lambda>t w.
      let (r, w) = store_result M t (g t a w) w in (answer r, w))) (H, rng) = (resp, H', rng')"
  shows "hive_ok M view H'"
proof (rule with_source_ok [OF request_okD(1-3) [OF req] _ run])
  note K = request_okD(1) [OF req]
  fix a H1 rng1
  assume s1: "step_ok M view {} H H1" "st_dbs (hv_store H1) = st_dbs (hv_store H)" and a: "a < length (hv_heap H1)"
    and run1: "with_target M target (\<lambda>t w. let (r, w) = store_result M t (g t a w) w in (answer r, w)) (H1, rng1) =
      (resp, H', rng')"
  note req1 = request_ok_step [OF req s1]
  show "hive_ok M view H'"
  proof (rule with_target_ok [OF K request_okD(2,3) [OF req1] _ request_okD(4) [OF req1] run1])
    fix t H2 rng2 cs
    assume ok2: "hive_ok M view H2" "closed_ok M view {} H2" "hv_heap H2 = hv_heap H1 @ cs" "t < length (hv_heap H2)"
      and run2: "(let (r, w) = store_result M t (g t a (H2, rng2)) (H2, rng2) in (answer r, w)) = (resp, H', rng')"
    obtain r where r: "store_result M t (g t a (H2, rng2)) (H2, rng2) = (r, H', rng')"
      using run2 by (auto split: prod.splits)
    have computed: "snap_ok s \<and> 0 < sn_dim s" if c: "g t a (H2, rng2) = Inr (e, s)" for e s
      by (rule g [OF ok2(1) _ c]) (use a ok2(3) in simp)
    have "step_ok M view {} H2 H'" by (rule store_result_ok [OF K ok2(1,2,4) computed r])
    then show "hive_ok M view H'" by (simp add: step_ok_def)
  qed (use request_okD(5) [OF req1] in simp)
qed (use request_okD(5) [OF req] in simp)

lemma scale_keeps:
  assumes req: "request_ok M view H [as_source req, as_target req]"
    and run: "algebra_scale M req (H, rng) = (resp, H', rng')"
  shows "hive_ok M view H'"
proof (rule unary_keeps [OF req _ run [unfolded algebra_scale_def]])
  fix t a e s and H :: "'b hive" and rng :: 'a
  assume ok: "hive_ok M view H" "a < length (hv_heap H)"
    and v: "versioned t (H, rng) (ebind (from_collection (hv_heap (fst (H, rng)) ! a)) (\<lambda>s. scale s (as_alpha req))) = Inr (e, s)"
  from versioned_result [OF v] obtain sn where "snap_ok sn" "0 < sn_dim sn" "scale sn (as_alpha req) = Inr s"
    by (auto simp: ebind_Inr dest: snapshot_of_sound [OF heap_sound [OF ok]])
  then show "snap_ok s \<and> 0 < sn_dim s" using scale_ok by simp
qed

lemma unbind_keeps:
  assumes req: "request_ok M view H [au_source req, au_target req]" and T: "fft_ok (mc_fft M)"
    and run: "algebra_unbind M req (H, rng) = (resp, H', rng')"
  shows "hive_ok M view H'"
proof (rule unary_keeps [OF req _ run [unfolded algebra_unbind_def]])
  fix t a e s and H :: "'b hive" and rng :: 'a
  assume ok: "hive_ok M view H" "a < length (hv_heap H)"
    and v: "versioned t (H, rng) (ebind (from_collection (hv_heap (fst (H, rng)) ! a)) (\<lambda>s.
      ebind (key_snapshot (au_key_vector req) s) (\<lambda>key. unbind_snapshots (mc_fft M) s key))) = Inr (e, s)"
  from versioned_result [OF v] obtain sn key where c: "from_collection (hv_heap H ! a) = Inr sn"
    and u: "unbind_snapshots (mc_fft M) sn key = Inr s" by (auto simp: ebind_Inr)
  note sn = snapshot_of_sound [OF heap_sound [OF ok] c]
  show "snap_ok s \<and> 0 < sn_dim s"
    using unbind_snapshots_ok [OF u T snap_okD(2) [OF sn(1)]] sn(2) by (simp add: sn_dim_def)
qed

lemma permute_keeps:
  assumes req: "request_ok M view H [ap_source req, ap_target req]"
    and S: "\<And>s xs. mset (ae_shuffle A s xs) = mset xs"
    and run: "algebra_permute M A req (H, rng) = (resp, H', rng')"
  shows "hive_ok M view H'"
proof (cases "perm_key (ap_seed req) (ap_name req)")
  case (Inl m)
  then show ?thesis using run request_okD(2) [OF req] by (simp add: algebra_permute_def)
next
  case (Inr key)
  have perm: "perm_ok (permutation_of A d key)" for d
    using from_seed_ok(1) [of "ae_shuffle A"] S by (simp add: permutation_of_def from_name_def split: PermKey.split)
  show ?thesis
  proof (rule unary_keeps [OF req _ run [unfolded algebra_permute_def Inr sum.case]])
    fix t a e s and H :: "'b hive" and rng :: 'a
    assume ok: "hive_ok M view H" "a < length (hv_heap H)"
      and v: "ebind (from_collection (hv_heap (fst (H, rng)) ! a)) (\<lambda>s.
        ebind (permute_snapshot s (permutation_of A (sn_dim s) key) (ap_power req)) (\<lambda>p. Inr (None, p))) = Inr (e, s)"
    from v obtain sn where "snap_ok sn" "0 < sn_dim sn"
      "permute_snapshot sn (permutation_of A (sn_dim sn) key) (ap_power req) = Inr s"
      by (auto simp: ebind_Inr dest: snapshot_of_sound [OF heap_sound [OF ok]])
    then show "snap_ok s \<and> 0 < sn_dim s" using permuted_ok [OF _ perm] by simp
  qed
qed

lemma intersect_keeps:
  assumes req: "request_ok M view H [ai_source_a req, ai_source_b req, ai_target req]"
    and run: "algebra_intersect M A req (H, rng) = (resp, H', rng')"
  shows "hive_ok M view H'"
proof (rule with_source_ok [OF request_okD(1-3) [OF req] _ run [unfolded algebra_intersect_def]])
  note K = request_okD(1) [OF req]
  let ?f = "\<lambda>sa sb. intersect sa sb (ai_threshold req)"
  let ?refused = "\<lambda>a b w. if ai_threshold req \<le> 0
    then refused_by_cap (ae_limits A) (hv_heap (fst w) ! a) (hv_heap (fst w) ! b) 0 else None"
  let ?task = "\<lambda>a b t w. case ?refused a b w of Some resp \<Rightarrow> (resp, w)
    | None \<Rightarrow> let (r, w) = cross_task M ?f a b t w in (algebra_reply (ai_target req) r, w)"
  fix a H1 rng1
  assume s1: "step_ok M view {} H H1" "st_dbs (hv_store H1) = st_dbs (hv_store H)" and a: "a < length (hv_heap H1)"
    and run1: "with_source M ''source collection '{}' not found'' (ai_source_b req) (\<lambda>b.
      with_target M (ai_target req) (\<lambda>t w. ?task a b t w)) (H1, rng1) = (resp, H', rng')"
  note req1 = request_ok_step [OF req s1]
  show "hive_ok M view H'"
  proof (rule with_source_ok [OF K request_okD(2,3) [OF req1] _ run1])
    fix b H2 rng2
    assume s2: "step_ok M view {} H1 H2" "st_dbs (hv_store H2) = st_dbs (hv_store H1)" and b: "b < length (hv_heap H2)"
      and run2: "with_target M (ai_target req) (\<lambda>t w. ?task a b t w) (H2, rng2) = (resp, H', rng')"
    note req2 = request_ok_step [OF req1 s2]
    have a2: "a < length (hv_heap H2)" using a s2(1) by (simp add: step_ok_def)
    show "hive_ok M view H'"
    proof (rule with_target_ok [OF K request_okD(2,3) [OF req2] _ request_okD(4) [OF req2] run2])
      fix t H3 rng3 cs
      assume ok3: "hive_ok M view H3" "closed_ok M view {} H3" "hv_heap H3 = hv_heap H2 @ cs" "t < length (hv_heap H3)"
        and run3: "?task a b t (H3, rng3) = (resp, H', rng')"
      show "hive_ok M view H'"
      proof (cases "?refused a b (H3, rng3) :: AlgebraResponse Response option")
        case None
        then obtain r where r: "cross_task M ?f a b t (H3, rng3) = (r, H', rng')" using run3 by (auto split: prod.splits)
        have "a < length (hv_heap H3)" "b < length (hv_heap H3)" using a2 b ok3(3) by simp_all
        then have "step_ok M view {} H3 H'" by (rule intersecting.task_ok [OF K ok3(1,2) _ _ ok3(4) TrueI r])
        then show ?thesis by (simp add: step_ok_def)
      next
        case (Some x)
        then show ?thesis using run3 ok3(1) by simp
      qed
    qed (use request_okD(5) [OF req2] in simp)
  qed (use request_okD(5) [OF req1] in simp)
qed (use request_okD(5) [OF req] in simp)

text \<open>Every route of the algebra.\<close>

lemma route_keeps:
  assumes req: "request_ok M view H (request_names req)" and cap: "capped A"
    and P: "projected_ok (mc_projected M)" and T: "fft_ok (mc_fft M)" and S: "\<And>s xs. mset (ae_shuffle A s xs) = mset xs"
    and run: "algebra_route M A req (H, rng) = (resp, H', rng')"
  shows "hive_ok M view H'"
proof (cases req)
  case (AddRoute r)
  have "cross_operation (\<lambda>a b. add_with_limit (mc_libm M) (mc_projected M) a b k)
      (\<lambda>n m. projected_ok (mc_projected M) \<and> cross_count n m k < 2 ^ 64)" for k by (rule adding.cross_operation_axioms)
  from cross_keeps [OF this P cap] show ?thesis using req run AddRoute by (simp add: algebra_add_def)
next
  case (SubRoute r)
  have "cross_operation (\<lambda>a b. sub_with_limit (mc_libm M) (mc_projected M) a b k)
      (\<lambda>n m. projected_ok (mc_projected M) \<and> cross_count n m k < 2 ^ 64)" for k by (rule subtracting.cross_operation_axioms)
  from cross_keeps [OF this P cap] show ?thesis using req run SubRoute by (simp add: algebra_sub_def)
next
  case (BindRoute r)
  have "cross_operation (\<lambda>a b. bind_with_limit (mc_fft M) (mc_libm M) (mc_projected M) a b k)
      (\<lambda>n m. (fft_ok (mc_fft M) \<and> projected_ok (mc_projected M)) \<and> cross_count n m k < 2 ^ 64)" for k
    using binding.cross_operation_axioms by (simp add: conj_assoc)
  from cross_keeps [OF this conjI [OF T P] cap] show ?thesis using req run BindRoute by (simp add: algebra_bind_def)
next
  case (UnbindRoute r)
  then show ?thesis using req run unbind_keeps [OF _ T] by simp
next
  case (ScaleRoute r)
  then show ?thesis using req run scale_keeps by simp
next
  case (PermuteRoute r)
  then show ?thesis using req run permute_keeps [OF _ S] by simp
next
  case (IntersectRoute r)
  then show ?thesis using req run intersect_keeps by simp
qed

section \<open>A concrete database\<close>

definition plain_env :: algebra_env where
  "plain_env = \<lparr>ae_limits = None, ae_shuffle = (\<lambda>_ xs. xs), ae_sha256 = (\<lambda>b. b), ae_powf = (\<lambda>z _. z),
     ae_polar = (\<lambda>r _. Complex64 r 0)\<rparr>"

text \<open>One collection, registered and open.\<close>

definition open_hive :: "(bytes \<times> bytes) list hive" where
  "open_hive = (plain_hive named_store)\<lparr>hv_heap := [first_collection], hv_cache := [[97] \<mapsto> 0]\<rparr>"

lemma open_hive_ok: "request_ok list_machine map_of open_hive [[97], [97]]"
proof -
  have entry: "reg_entry list_K (registry map_of named_store) n =
      (if n = [97] then Some 7 else if n = NEXT_COLLECTION_ID_KEY then Some 8 else None)" for n
  proof -
    have "[97] \<noteq> NEXT_COLLECTION_ID_KEY" by code_simp
    moreover have "sg_de_u32 list_K (u32_to_le 7) = Inr 7" "sg_de_u32 list_K (u32_to_le 8) = Inr 8" by code_simp+
    ultimately show ?thesis by (simp add: reg_entry_def named_store_def)
  qed
  have key: "[97] \<noteq> NEXT_COLLECTION_ID_KEY" "NEXT_COLLECTION_ID_KEY \<noteq> [97]" by code_simp+
  have reg: "registry_ok list_K (registry map_of named_store)" "reg_next list_K (registry map_of named_store) = 8"
    using key by (auto simp: registry_ok_def reg_next_def entry split: if_splits)
  have sound: "sound list_machine map_of first_collection named_store"
    using first_collection_sound same_records_kept(2) [of named_store first_store list_machine map_of first_collection]
    by (simp add: named_store_def)
  have fresh: "fresh_scope map_of i named_store" if "8 \<le> i" for i
  proof -
    have "b \<noteq> metadata_key 7 x" if b: "prefix (collection_prefix i) b" for b x
    proof -
      have "i \<noteq> 7" using \<open>8 \<le> i\<close> by auto
      then have "\<not> prefix (collection_prefix 7) b" using other_prefix b by blast
      then show ?thesis by (auto simp: metadata_key_def collection_prefix_def)
    qed
    then show ?thesis
      by (auto simp: fresh_scope_def named_store_def first_store_def empty_store_def no_dbs_def)
  qed
  show ?thesis
    using reg sound fresh key
    by (auto simp: request_ok_def hive_ok_def closed_ok_def open_hive_def plain_hive_def entry list_storage_ok one_config_def Let_def
        split: if_splits)
qed

section \<open>Properties\<close>



end
