(* ===== verification/Ieee754_Order.thy ===== *)
theory Ieee754_Order
  imports Ieee754_Facts
begin

text \<open>
  Rounding is monotone: every finite binary64 value is an integer number of units of
  \<open>2 ^ -1074\<close>, and the sum, difference and product of two finite values are the rounding of the
  exact integer. With it the comparisons that a search tree prunes by hold for the computed
  values, not only for the real ones.
\<close>

section \<open>Monotone rounding\<close>

lemma half_even_mono:
  assumes "0 < b" "a \<le> a'"
  shows "half_even a b \<le> half_even a' b"
proof (cases "a div b = a' div b")
  case True
  then have "a' div b * b + a mod b = a" using div_mult_mod_eq [of a b] by simp
  then have "a mod b \<le> a' mod b" using assms(2) div_mult_mod_eq [of a' b] by linarith
  with True show ?thesis by (simp add: half_even_def Let_def)
next
  case False
  then have "a div b + 1 \<le> a' div b" using zdiv_mono1 [OF assms(2,1)] by simp
  moreover have "half_even a b \<le> a div b + 1" "a' div b \<le> half_even a' b"
    by (simp_all add: half_even_def Let_def)
  ultimately show ?thesis by simp
qed

lemma half_even_ge: "0 < b \<Longrightarrow> c * b \<le> a \<Longrightarrow> c \<le> half_even a b"
  using half_even_mono [of b "c * b" a] by (simp add: half_even_exact)

lemma half_even_le: "0 < b \<Longrightarrow> a \<le> c * b \<Longrightarrow> half_even a b \<le> c"
  using half_even_mono [of b a "c * b"] by (simp add: half_even_exact)

text \<open>The exponent and the significand that a positive integer is rounded to.\<close>

definition round_exp :: "fmt \<Rightarrow> int \<Rightarrow> int \<Rightarrow> int" where
  "round_exp F n e = max (emin F) (e + bitlen n - 1 - int (frac_bits F))"

definition round_frac :: "fmt \<Rightarrow> int \<Rightarrow> int \<Rightarrow> int" where
  "round_frac F n e = half_even (n * 2 ^ nat (e - round_exp F n e)) (2 ^ nat (round_exp F n e - e))"

lemma round_mag_eq:
  assumes "0 < n"
  shows "round_mag F n 1 e = min (inf_mag F) ((round_exp F n e - emin F) * 2 ^ frac_bits F + round_frac F n e)"
proof -
  have one: "bitlen 1 = 1" by (simp add: bitlen_alt_def)
  have pos: "0 \<le> bitlen n - 1" using assms by (simp add: bitlen_alt_def)
  have "(1::int) * 2 ^ nat (bitlen n - 1) \<le> n * 2 ^ nat (- (bitlen n - 1))"
    using bitlen_bounds [OF assms] pos by simp
  then show ?thesis
    using assms by (simp add: round_mag_def Let_def one round_exp_def round_frac_def algebra_simps)
qed

lemma bitlen_mono: "0 < n \<Longrightarrow> n \<le> n' \<Longrightarrow> bitlen n \<le> bitlen n'"
  by (simp add: bitlen_alt_def floor_mono log_mono)

lemma round_frac_nonneg: "0 < n \<Longrightarrow> 0 \<le> round_frac F n e"
  unfolding round_frac_def by (rule half_even_ge) simp_all

lemma round_frac_less:
  assumes "0 < n"
  shows "round_frac F n e \<le> 2 ^ (frac_bits F + 1)"
proof -
  let ?q = "round_exp F n e" and ?f = "frac_bits F"
  have b: "1 \<le> bitlen n" using assms by (simp add: bitlen_alt_def)
  have n: "n \<le> 2 ^ nat (bitlen n)" using bitlen_bounds [OF assms] by simp
  have q: "bitlen n \<le> ?q - e + int ?f + 1" by (simp add: round_exp_def)
  have "n * 2 ^ nat (e - ?q) \<le> 2 ^ nat (bitlen n) * 2 ^ nat (e - ?q)" using n by simp
  also have "\<dots> = 2 ^ (nat (bitlen n) + nat (e - ?q))" by (simp add: power_add)
  also have "\<dots> \<le> 2 ^ ((?f + 1) + nat (?q - e))"
    by (rule power_increasing) (use q b in linarith, simp)
  also have "\<dots> = 2 ^ (?f + 1) * 2 ^ nat (?q - e)" by (rule power_add)
  finally show ?thesis unfolding round_frac_def by (intro half_even_le) simp_all
qed

lemma round_frac_normal:
  assumes "0 < n" "emin F < round_exp F n e"
  shows "2 ^ frac_bits F \<le> round_frac F n e"
proof -
  let ?q = "round_exp F n e" and ?f = "frac_bits F"
  have b: "1 \<le> bitlen n" using assms by (simp add: bitlen_alt_def)
  have n: "2 ^ nat (bitlen n - 1) \<le> n" using bitlen_bounds [OF assms(1)] by simp
  have q: "bitlen n - 1 = ?q - e + int ?f" using assms(2) by (simp add: round_exp_def)
  have "2 ^ ?f * 2 ^ nat (?q - e) = (2 ^ (?f + nat (?q - e)) :: int)" by (simp add: power_add)
  also have "\<dots> \<le> 2 ^ (nat (bitlen n - 1) + nat (e - ?q))"
    by (rule power_increasing) (use q b in linarith, simp)
  also have "\<dots> = 2 ^ nat (bitlen n - 1) * 2 ^ nat (e - ?q)" by (rule power_add)
  also have "\<dots> \<le> n * 2 ^ nat (e - ?q)" using n by simp
  finally show ?thesis unfolding round_frac_def by (intro half_even_ge) simp_all
qed

lemma round_mag_mono:
  assumes "0 < n" "n \<le> n'"
  shows "round_mag F n 1 e \<le> round_mag F n' 1 e"
proof -
  let ?q = "round_exp F n e" and ?q' = "round_exp F n' e" and ?f = "frac_bits F"
  have n': "0 < n'" using assms by simp
  have "(?q - emin F) * 2 ^ ?f + round_frac F n e \<le> (?q' - emin F) * 2 ^ ?f + round_frac F n' e"
  proof (cases "?q = ?q'")
    case True
    have "round_frac F n e \<le> round_frac F n' e"
      unfolding round_frac_def True by (rule half_even_mono) (use assms(2) in simp_all)
    with True show ?thesis by simp
  next
    case False
    then have lt: "?q + 1 \<le> ?q'" using bitlen_mono [OF assms] by (simp add: round_exp_def)
    have "emin F \<le> ?q" by (simp add: round_exp_def)
    then have "2 ^ ?f \<le> round_frac F n' e" using lt by (intro round_frac_normal [OF n']) simp
    moreover have "(?q + 1 - emin F) * 2 ^ ?f \<le> (?q' - emin F) * 2 ^ ?f"
      by (rule mult_right_mono) (use lt in simp_all)
    moreover have "(?q + 1 - emin F) * 2 ^ ?f = (?q - emin F) * 2 ^ ?f + 2 ^ ?f" by (simp add: algebra_simps)
    ultimately show ?thesis using round_frac_less [OF assms(1), of F e] by simp
  qed
  then show ?thesis by (simp add: round_mag_eq [OF assms(1)] round_mag_eq [OF n'])
qed

lemma round_mag_none: "n \<le> 0 \<Longrightarrow> round_mag F n d e = 0"
  by (simp add: round_mag_def)

lemma round_mag_range:
  assumes "0 < inf_mag F"
  shows "0 \<le> round_mag F n 1 e" "round_mag F n 1 e \<le> inf_mag F"
proof -
  show "round_mag F n 1 e \<le> inf_mag F" using assms by (simp add: round_mag_def Let_def)
  show "0 \<le> round_mag F n 1 e"
  proof (cases "0 < n")
    case True
    then have "0 \<le> (round_exp F n e - emin F) * 2 ^ frac_bits F + round_frac F n e"
      using round_frac_nonneg [OF True] by (simp add: round_exp_def)
    with True assms show ?thesis by (simp add: round_mag_eq)
  qed (simp add: round_mag_def)
qed

section \<open>Signed integers\<close>

definition rounded :: "int \<Rightarrow> int \<Rightarrow> int" where
  "rounded e v = (if v < 0 then - round_mag fmt64 (- v) 1 e else round_mag fmt64 v 1 e)"

lemma inf64: "inf_mag fmt64 = 0x7FF0000000000000" "sign_bit fmt64 = 0x8000000000000000" "emin fmt64 = -1074"
  "frac_bits fmt64 = 52"
  by (simp_all add: fmt64_def)

lemma rounded_mono: "v \<le> w \<Longrightarrow> rounded e v \<le> rounded e w"
  using round_mag_mono [of v w fmt64 e] round_mag_mono [of "- w" "- v" fmt64 e]
    round_mag_range [of fmt64 "- v" e] round_mag_range [of fmt64 w e]
  by (cases "v < 0"; cases "w < 0"; cases "v = 0") (simp_all add: rounded_def inf64 round_mag_none)

lemma rounded_range: "\<bar>rounded e v\<bar> \<le> 0x7FF0000000000000"
  using round_mag_range [of fmt64 "\<bar>v\<bar>" e] by (auto simp: rounded_def inf64)

lemma rounded_minus: "rounded e (- v) = - rounded e v"
  by (simp add: rounded_def round_mag_none)

lemma rounded_zero [simp]: "rounded e 0 = 0"
  by (simp add: rounded_def round_mag_none)

lemma rounded_shift: "q \<le> e \<Longrightarrow> rounded q (v * 2 ^ nat (e - q)) = rounded e v"
  using round_mag_shift [of v q e fmt64] round_mag_shift [of "- v" q e fmt64]
  by (cases "v = 0") (auto simp: rounded_def round_mag_none mult_less_0_iff not_less)

lemma unpack_pack_key:
  assumes "0 \<le> k" "k \<le> 0x7FF0000000000000"
  shows "f64_mag (f64_of_int (pack_sign fmt64 s k)) = k" "f64_neg (f64_of_int (pack_sign fmt64 s k)) = s"
proof -
  have r: "0 \<le> pack_sign fmt64 s k" "pack_sign fmt64 s k < 0x10000000000000000"
    using pack_sign_range [OF wf_fmt64, of k s] assms by (simp_all add: inf64)
  then have u: "uint (f64_bits (f64_of_int (pack_sign fmt64 s k))) = pack_sign fmt64 s k"
    by (simp add: f64_of_int_def uint_word_of_int)
  show "f64_neg (f64_of_int (pack_sign fmt64 s k)) = s"
    using assms u by (cases s) (simp_all add: f64_neg_def pack_sign_def inf64)
  have "(0x8000000000000000 + k) mod 0x8000000000000000 = k" using assms by simp
  then show "f64_mag (f64_of_int (pack_sign fmt64 s k)) = k"
    using assms u by (cases s) (simp_all add: f64_mag_def pack_sign_def inf64)
qed

lemma key_pack_sign:
  assumes "0 \<le> k" "k \<le> 0x7FF0000000000000"
  shows "f64_key (f64_of_int (pack_sign fmt64 s k)) = (if s then - k else k)"
    "\<not> is_nan (f64_of_int (pack_sign fmt64 s k))"
  using unpack_pack_key [OF assms] assms by (simp_all add: f64_key_def is_nan_def)

lemma key_pack:
  assumes "0 \<le> n"
  shows "f64_key (f64_of_int (pack fmt64 s n 1 e)) = rounded e (if s then - n else n)"
    "\<not> is_nan (f64_of_int (pack fmt64 s n 1 e))"
  using round_mag_range [of fmt64 n e] assms
  by (cases s; cases "n = 0"; simp add: pack_def key_pack_sign inf64 rounded_def round_mag_none)+

section \<open>Finite values as integers\<close>

definition fp_units :: "fp \<Rightarrow> int" where
  "fp_units x = (case x of Num s m e \<Rightarrow> (if s then - m else m) * 2 ^ nat (e + 1074) | _ \<Rightarrow> 0)"

definition units :: "f64 \<Rightarrow> int" where
  "units x = fp_units (f64_unpack x)"

lemma finite_unpack:
  assumes "is_finite x"
  obtains s m e where "f64_unpack x = Num s m e" "canonical fmt64 m e" "f64_mag x = (e + 1074) * 2 ^ 52 + m"
    "f64_neg x = s" "f64_key x = rounded e (if s then - m else m)"
proof -
  have b: "0 \<le> uint (f64_bits x)" "uint (f64_bits x) < 2 * sign_bit fmt64"
    using uint_bounded [of "f64_bits x"] by (simp_all add: inf64)
  have m: "uint (f64_bits x) mod sign_bit fmt64 < inf_mag fmt64"
    using assms by (simp add: is_finite_def f64_mag_def inf64)
  obtain s m e where n: "f64_unpack x = Num s m e"
    using m by (cases "f64_unpack x") (auto simp: f64_unpack_def unpack_def Let_def split: if_splits)
  note c = unpack_Num [OF wf_fmt64 b n [unfolded f64_unpack_def]]
  let ?k = "(e + 1074) * 2 ^ 52 + m"
  have k: "0 \<le> ?k" "?k < 0x7FF0000000000000" using c(1) by (simp_all add: canonical_def inf64)
  have "x = f64_of_int (pack_sign fmt64 s ?k)"
    using c(2) word_of_int_uint [of "f64_bits x"] by (intro f64.expand) (simp add: f64_of_int_def inf64)
  with k have mag: "f64_mag x = ?k" and neg: "f64_neg x = s" using unpack_pack_key [of ?k s] by simp_all
  have "round_mag fmt64 m 1 e = ?k"
  proof (cases "m = 0")
    case True
    then have "e = -1074" using c(1) by (auto simp: canonical_def inf64)
    with True show ?thesis by (simp add: round_mag_none)
  next
    case False
    then have "0 < m" using c(1) by (simp add: canonical_def)
    then show ?thesis using round_mag_exact [OF c(1), of m e] by (simp add: inf64)
  qed
  then have "f64_key x = rounded e (if s then - m else m)"
    using c(1) mag neg by (cases s; cases "m = 0") (simp_all add: f64_key_def rounded_def canonical_def round_mag_none)
  with n c(1) mag neg that show ?thesis by blast
qed

lemma finite_parts:
  assumes "is_finite x"
  obtains s m e where "f64_unpack x = Num s m e" "0 \<le> m" "-1074 \<le> e"
    "units x = (if s then - m else m) * 2 ^ nat (e + 1074)"
  using finite_unpack [OF assms] that by (auto simp: canonical_def fp_units_def units_def inf64)

lemma key_units:
  assumes "is_finite x"
  shows "f64_key x = rounded (-1074) (units x)"
proof -
  obtain s m e where x: "f64_unpack x = Num s m e" "canonical fmt64 m e" "f64_key x = rounded e (if s then - m else m)"
    by (rule finite_unpack [OF assms])
  then show ?thesis
    using rounded_shift [of "-1074" e "if s then - m else m"] by (simp add: units_def fp_units_def canonical_def inf64)
qed

lemma key_add:
  assumes "is_finite x" "is_finite y"
  shows "f64_key (x + y) = rounded (-1074) (units x + units y)" "\<not> is_nan (x + y)"
    and "f64_key (x - y) = rounded (-1074) (units x - units y)" "\<not> is_nan (x - y)"
proof -
  obtain s m e where x: "f64_unpack x = Num s m e" "0 \<le> m" "-1074 \<le> e"
    "units x = (if s then - m else m) * 2 ^ nat (e + 1074)" by (rule finite_parts [OF assms(1)])
  obtain t n d where y: "f64_unpack y = Num t n d" "0 \<le> n" "-1074 \<le> d"
    "units y = (if t then - n else n) * 2 ^ nat (d + 1074)" by (rule finite_parts [OF assms(2)])
  have gen: "f64_key (f64_of_int (fp_add fmt64 (Num s m e) (Num u n d))) =
      rounded (-1074) (units x + (if u then - n else n) * 2 ^ nat (d + 1074)) \<and>
      \<not> is_nan (f64_of_int (fp_add fmt64 (Num s m e) (Num u n d)))" for u
  proof -
    let ?q = "min e d"
    define v where "v = (if s then -1 else 1) * m * 2 ^ nat (e - ?q) + (if u then -1 else 1) * n * 2 ^ nat (d - ?q)"
    have p: "2 ^ nat (e - ?q) * 2 ^ nat (?q + 1074) = (2 ^ nat (e + 1074) :: int)"
      "2 ^ nat (d - ?q) * 2 ^ nat (?q + 1074) = (2 ^ nat (d + 1074) :: int)"
      using x(3) y(3) by (simp_all flip: power_add nat_add_distrib)
    have "v * 2 ^ nat (?q + 1074) = (if s then -1 else 1) * m * (2 ^ nat (e - ?q) * 2 ^ nat (?q + 1074)) +
        (if u then -1 else 1) * n * (2 ^ nat (d - ?q) * 2 ^ nat (?q + 1074))"
      by (simp only: v_def distrib_right mult.assoc)
    then have v: "v * 2 ^ nat (?q + 1074) = units x + (if u then - n else n) * 2 ^ nat (d + 1074)"
      unfolding p by (simp add: x(4))
    have "rounded ?q v = rounded (-1074) (units x + (if u then - n else n) * 2 ^ nat (d + 1074))"
      using rounded_shift [of "-1074" ?q v] x(3) y(3) by (simp add: v [symmetric])
    moreover have "fp_add fmt64 (Num s m e) (Num u n d) =
        (if v = 0 then pack_sign fmt64 (s \<and> u) 0 else pack fmt64 (v < 0) \<bar>v\<bar> 1 ?q)"
      by (simp add: v_def Let_def)
    ultimately show ?thesis
      using key_pack [of "\<bar>v\<bar>" "v < 0" ?q] key_pack_sign [of 0 "s \<and> u"] by (auto split: if_splits)
  qed
  show "f64_key (x + y) = rounded (-1074) (units x + units y)" "\<not> is_nan (x + y)"
    using gen [of t] by (simp_all add: plus_f64_def x(1) y(1,4))
  show "f64_key (x - y) = rounded (-1074) (units x - units y)" "\<not> is_nan (x - y)"
    using gen [of "\<not> t"] by (auto simp: minus_f64_def x(1) y(1,4))
qed

lemma key_mult:
  assumes "is_finite x" "is_finite y"
  shows "f64_key (x * y) = rounded (-2148) (units x * units y)" "\<not> is_nan (x * y)"
proof -
  obtain s m e where x: "f64_unpack x = Num s m e" "0 \<le> m" "-1074 \<le> e"
    "units x = (if s then - m else m) * 2 ^ nat (e + 1074)" by (rule finite_parts [OF assms(1)])
  obtain t n d where y: "f64_unpack y = Num t n d" "0 \<le> n" "-1074 \<le> d"
    "units y = (if t then - n else n) * 2 ^ nat (d + 1074)" by (rule finite_parts [OF assms(2)])
  let ?v = "if s \<noteq> t then - (m * n) else m * n"
  have "units x * units y = ?v * (2 ^ nat (e + 1074) * 2 ^ nat (d + 1074))" by (simp add: x(4) y(4))
  also have "2 ^ nat (e + 1074) * 2 ^ nat (d + 1074) = (2 ^ nat (e + d - (-2148)) :: int)"
    using x(3) y(3) by (simp flip: power_add nat_add_distrib)
  finally have "rounded (-2148) (units x * units y) = rounded (e + d) ?v"
    using rounded_shift [of "-2148" "e + d" ?v] x(3) y(3) by simp
  then show "f64_key (x * y) = rounded (-2148) (units x * units y)" "\<not> is_nan (x * y)"
    using key_pack [of "m * n" "s \<noteq> t" "e + d"] x(2) y(2) by (simp_all add: times_f64_def x(1) y(1))
qed

section \<open>Order and size\<close>

text \<open>The units of a value by its magnitude.\<close>

definition mag_units :: "int \<Rightarrow> int" where
  "mag_units k =
     (let e = k div 2 ^ 52; f = k mod 2 ^ 52 in if e = 0 then f else (2 ^ 52 + f) * 2 ^ nat (e - 1))"

lemma units_mag:
  assumes "is_finite x"
  shows "units x = (if f64_neg x then - mag_units (f64_mag x) else mag_units (f64_mag x))"
  using assms
  by (simp add: units_def fp_units_def f64_unpack_def unpack_def Let_def inf64 mag_units_def f64_mag_def f64_neg_def
      is_finite_def)

lemma mag_units_nonneg: "0 \<le> k \<Longrightarrow> 0 \<le> mag_units k"
  by (simp add: mag_units_def Let_def)

lemma abs_units: "is_finite x \<Longrightarrow> \<bar>units x\<bar> = mag_units (f64_mag x)"
  using mag_units_nonneg [of "f64_mag x"] f64_mag_bounds [of x] by (simp add: units_mag)

lemma mag_rounded: "is_finite x \<Longrightarrow> f64_mag x = rounded (-1074) \<bar>units x\<bar>"
  using key_units [of x] rounded_minus [of "-1074" "units x"] rounded_mono [of 0 "units x" "-1074"]
    rounded_mono [of "units x" 0 "-1074"] f64_mag_bounds [of x]
  by (auto simp: f64_key_def abs_if split: if_splits)

lemma mag_le_units:
  assumes "is_finite x" "is_finite y"
  shows "f64_mag x \<le> f64_mag y \<longleftrightarrow> \<bar>units x\<bar> \<le> \<bar>units y\<bar>"
proof
  show "f64_mag x \<le> f64_mag y" if "\<bar>units x\<bar> \<le> \<bar>units y\<bar>"
    using rounded_mono [OF that, of "-1074"] by (simp add: mag_rounded assms)
  show "\<bar>units x\<bar> \<le> \<bar>units y\<bar>" if "f64_mag x \<le> f64_mag y"
  proof (rule ccontr)
    assume "\<not> \<bar>units x\<bar> \<le> \<bar>units y\<bar>"
    moreover from this have "f64_mag y \<le> f64_mag x"
      using rounded_mono [of "\<bar>units y\<bar>" "\<bar>units x\<bar>" "-1074"] by (simp add: mag_rounded assms)
    ultimately show False using that by (simp add: abs_units assms)
  qed
qed

lemma key_le_units:
  assumes "is_finite x" "is_finite y"
  shows "f64_key x \<le> f64_key y \<longleftrightarrow> units x \<le> units y"
proof
  show "f64_key x \<le> f64_key y" if "units x \<le> units y"
    using rounded_mono [OF that, of "-1074"] by (simp add: key_units assms)
  have pos: "0 \<le> mag_units (f64_mag z)" for z by (simp add: mag_units_nonneg f64_mag_bounds)
  have zero: "mag_units 0 = 0" by (simp add: mag_units_def)
  show "units x \<le> units y" if "f64_key x \<le> f64_key y"
  proof (rule ccontr)
    assume "\<not> units x \<le> units y"
    moreover from this have "f64_key y \<le> f64_key x"
      using rounded_mono [of "units y" "units x" "-1074"] by (simp add: key_units assms)
    with that have "f64_key x = f64_key y" by simp
    then have "f64_mag x = f64_mag y" "f64_neg x = f64_neg y \<or> f64_mag x = 0"
      using f64_mag_bounds [of x] f64_mag_bounds [of y] by (auto simp: f64_key_def split: if_splits)
    then have "units x = units y" by (auto simp: units_mag assms zero)
    ultimately show False by simp
  qed
qed

lemma rounded_negative: "v < 0 \<Longrightarrow> rounded (-1074) v < 0"
proof -
  assume "v < 0"
  then have "rounded (-1074) v \<le> rounded (-1074) (-1)" by (intro rounded_mono) simp
  moreover have "round_mag fmt64 1 1 (-1074) = 1"
    using round_mag_exact [of fmt64 1 "-1074" 1 "-1074"] by (simp add: canonical_def inf64)
  ultimately show ?thesis by (simp add: rounded_def)
qed

lemma f64_key_zero [simp]: "f64_key 0 = 0" "\<not> is_nan 0" "is_finite 0"
  by (simp_all add: f64_key_def f64_mag_def is_nan_def is_finite_def zero_f64_def)

lemma difference_negative: "is_finite x \<Longrightarrow> is_finite y \<Longrightarrow> x - y < 0 \<longleftrightarrow> units x < units y"
  using rounded_negative [of "units x - units y"] rounded_mono [of 0 "units x - units y" "-1074"]
  by (cases "units x < units y") (simp_all add: less_f64_def key_add)

lemma units_zero [simp]: "units 0 = 0"
  by (simp add: units_def fp_units_def f64_unpack_def unpack_def inf64 zero_f64_def)

lemma neg_zero_nonneg: "(0 :: f64) \<le> f64_neg_zero"
  by (simp add: less_eq_f64_def) (simp add: f64_neg_zero_def f64_key_def f64_mag_def is_nan_def)

lemma infinite_unpack: "\<not> is_finite x \<Longrightarrow> \<not> is_nan x \<Longrightarrow> f64_unpack x = Inf (f64_neg x)"
  by (simp add: is_finite_def is_nan_def f64_unpack_def unpack_def Let_def inf64 f64_mag_def f64_neg_def)

lemma key_infinity: "f64_key (f64_of_int (inf_mag fmt64)) = 0x7FF0000000000000" "\<not> is_nan (f64_of_int (inf_mag fmt64))"
  using key_pack_sign [of "inf_mag fmt64" False] by (simp_all add: pack_sign_def inf64)

lemma key_bound: "\<not> is_nan x \<Longrightarrow> f64_key x \<le> 0x7FF0000000000000"
  using f64_mag_bounds [of x] by (simp add: is_nan_def f64_key_def)

lemma mag_key: "f64_mag x = \<bar>f64_key x\<bar>"
  using f64_mag_bounds [of x] by (simp add: f64_key_def)

lemma square_infinite: "\<not> is_finite x \<Longrightarrow> \<not> is_nan x \<Longrightarrow> x * x = f64_of_int (inf_mag fmt64)"
  by (simp add: times_f64_def infinite_unpack pack_sign_def)

lemma square_le:
  assumes "\<not> is_nan a" "\<not> is_nan b" "\<bar>f64_key a\<bar> \<le> \<bar>f64_key b\<bar>"
  shows "a * a \<le> b * b"
proof (cases "is_finite b")
  case True
  then have a: "is_finite a" using assms(3) by (simp add: is_finite_def mag_key)
  have "\<bar>units a\<bar> \<le> \<bar>units b\<bar>" using mag_le_units [OF a True] assms(3) by (simp add: mag_key)
  then have "units a * units a \<le> units b * units b" using abs_le_square_iff [of "units a" "units b"] by (simp add: power2_eq_square)
  then show ?thesis using a True by (simp add: less_eq_f64_def key_mult rounded_mono)
next
  case False
  have "\<not> is_nan (a * a)"
  proof (cases "is_finite a")
    case True
    then show ?thesis by (simp add: key_mult)
  qed (simp add: square_infinite assms(1) key_infinity)
  then show ?thesis by (simp add: square_infinite [OF False assms(2)] less_eq_f64_def key_infinity key_bound)
qed

lemma square_nonneg: "\<not> is_nan a \<Longrightarrow> 0 \<le> a * a"
  using rounded_mono [of 0 "units a * units a" "-2148"]
  by (cases "is_finite a") (simp_all add: square_infinite less_eq_f64_def key_mult key_infinity)

text \<open>A value that lies beyond another, seen from a third, is at least as far away.\<close>

lemma farther_square:
  assumes "is_finite q" "is_finite v" "is_finite p"
    and "units q \<le> units v \<and> units v \<le> units p \<or> units p \<le> units v \<and> units v \<le> units q"
  shows "(q - v) * (q - v) \<le> (q - p) * (q - p)"
proof (rule square_le)
  have "\<bar>rounded (-1074) (units q - units v)\<bar> \<le> \<bar>rounded (-1074) (units q - units p)\<bar>"
    using assms(4)
  proof
    assume a: "units q \<le> units v \<and> units v \<le> units p"
    have "rounded (-1074) (units q - units p) \<le> rounded (-1074) (units q - units v)"
      "rounded (-1074) (units q - units v) \<le> rounded (-1074) 0"
      by (rule rounded_mono; use a in simp)+
    then show ?thesis by simp
  next
    assume a: "units p \<le> units v \<and> units v \<le> units q"
    have "rounded (-1074) (units q - units v) \<le> rounded (-1074) (units q - units p)"
      "rounded (-1074) 0 \<le> rounded (-1074) (units q - units v)"
      by (rule rounded_mono; use a in simp)+
    then show ?thesis by simp
  qed
  then show "\<bar>f64_key (q - v)\<bar> \<le> \<bar>f64_key (q - p)\<bar>" by (simp add: key_add assms)
qed (simp_all add: key_add assms)

lemma add_nonneg:
  assumes "0 \<le> x" "0 \<le> (y :: f64)"
  shows "x \<le> x + y" "y \<le> x + y"
proof -
  have n: "\<not> is_nan x" "\<not> is_nan y" "0 \<le> f64_key x" "0 \<le> f64_key y" using assms by (auto simp: less_eq_f64_def)
  have "x \<le> x + y \<and> y \<le> x + y"
  proof (cases "is_finite x \<and> is_finite y")
    case True
    then have "0 \<le> units x" "0 \<le> units y"
      using n key_le_units [of 0 x] key_le_units [of 0 y] by simp_all
    then show ?thesis using n True by (simp add: less_eq_f64_def key_add) (simp add: key_units rounded_mono)
  next
    case False
    have neg: "\<not> f64_neg z" if "\<not> is_finite z" "0 \<le> f64_key z" for z
      using that f64_mag_bounds [of z] by (auto simp: is_finite_def f64_key_def split: if_splits)
    have "x + y = f64_of_int (inf_mag fmt64)"
    proof (cases "is_finite x")
      case True
      then obtain s m e where "f64_unpack x = Num s m e" using finite_unpack by blast
      then show ?thesis using False True n neg [of y] by (simp add: plus_f64_def infinite_unpack pack_sign_def)
    next
      case x: False
      show ?thesis
      proof (cases "is_finite y")
        case True
        then obtain s m e where "f64_unpack y = Num s m e" using finite_unpack by blast
        then show ?thesis using x n neg [of x] by (simp add: plus_f64_def infinite_unpack pack_sign_def)
      next
        case False
        then show ?thesis using x n neg [of x] neg [of y] by (simp add: plus_f64_def infinite_unpack pack_sign_def)
      qed
    qed
    then show ?thesis using n by (simp add: less_eq_f64_def key_infinity key_bound)
  qed
  then show "x \<le> x + y" "y \<le> x + y" by simp_all
qed

lemma sum_nonneg:
  assumes "0 \<le> s" "\<And>x. x \<in> set xs \<Longrightarrow> 0 \<le> x"
  shows "s \<le> foldl (+) s xs" "x \<in> set xs \<Longrightarrow> x \<le> foldl (+) s (xs :: f64 list)"
proof -
  have "s \<le> foldl (+) s xs \<and> (\<forall>x\<in>set xs. x \<le> foldl (+) s xs)"
    using assms
  proof (induction xs arbitrary: s)
    case Nil
    then show ?case by (simp add: less_eq_f64_def)
  next
    case (Cons y ys)
    have y: "0 \<le> y" by (simp add: Cons.prems(2))
    note a = add_nonneg [OF Cons.prems(1) y]
    have "0 \<le> s + y" using f64_le_trans [OF Cons.prems(1) a(1)] .
    then show ?case
      using Cons.IH [of "s + y"] Cons.prems(2) a f64_le_trans by (auto; blast)
  qed
  then show "s \<le> foldl (+) s xs" "x \<in> set xs \<Longrightarrow> x \<le> foldl (+) s xs" by blast+
qed

lemma f64_sum_ge:
  assumes "\<And>x. x \<in> set xs \<Longrightarrow> 0 \<le> x" "x \<in> set xs"
  shows "x \<le> f64_sum xs"
  unfolding f64_sum_def by (rule sum_nonneg(2) [OF neg_zero_nonneg assms])

lemma f64_sum_nonneg: "(\<And>x. x \<in> set xs \<Longrightarrow> 0 \<le> x) \<Longrightarrow> 0 \<le> f64_sum xs"
  using sum_nonneg(1) [OF neg_zero_nonneg, of xs] f64_le_trans [OF neg_zero_nonneg] by (simp add: f64_sum_def)

end
