(* ===== verification/Projected.thy ===== *)
theory Projected
  imports Merge Ieee754_Order
begin

text \<open>
  heather_db/src/nearest.rs: the projected nearest-neighbour search. The unit addresses are
  projected onto principal directions of their cloud, a k-d tree over the projections gives a
  close point and every point within the bound that follows from it, and only those are
  compared in full. The draws of the seeded generator, the grouping of rayon's reductions and
  the order in which \<open>select_nth_unstable_by\<close> leaves a slice are parameters.
\<close>

record projection_env =
  pj_uniform :: "nat \<Rightarrow> f64 list"
  pj_rayon :: "f64 list \<Rightarrow> (f64 list \<Rightarrow> f64 list \<Rightarrow> f64 list) \<Rightarrow> (f64 list \<Rightarrow> f64 list \<Rightarrow> f64 list) \<Rightarrow>
    f64 list list \<Rightarrow> f64 list"  \<comment> \<open>identity, fold, reduce, rows\<close>
  pj_sum :: "f64 list \<Rightarrow> f64"
  pj_select :: "(nat \<Rightarrow> nat \<Rightarrow> bool) \<Rightarrow> nat \<Rightarrow> nat list \<Rightarrow> nat list"

text \<open>\<open>select_nth_unstable_by\<close> rearranges: nothing before the place is greater than what is put
  there, nothing after it is less.\<close>

definition select_ok :: "projection_env \<Rightarrow> bool" where
  "select_ok E \<longleftrightarrow>
     (\<forall>lt mid xs. let ys = pj_select E lt mid xs in mset ys = mset xs \<and>
        (weak_order_on lt (set xs) \<longrightarrow> mid < length xs \<longrightarrow>
          (\<forall>i<mid. \<not> lt (ys ! mid) (ys ! i)) \<and> (\<forall>i<length xs. mid \<le> i \<longrightarrow> \<not> lt (ys ! i) (ys ! mid))))"

text \<open>\<open>fold\<close> and \<open>reduce\<close> give vectors of the shape that identity, step and combination keep, and
  the generator draws as many numbers as it is asked for.\<close>

definition rayon_ok :: "projection_env \<Rightarrow> bool" where
  "rayon_ok E \<longleftrightarrow>
     (\<forall>z step combine rs.
        (\<forall>acc row. length acc = length z \<longrightarrow> row \<in> set rs \<longrightarrow> length (step acc row) = length z) \<longrightarrow>
        (\<forall>a b. length a = length z \<longrightarrow> length b = length z \<longrightarrow> length (combine a b) = length z) \<longrightarrow>
        length (pj_rayon E z step combine rs) = length z) \<and>
     (\<forall>n. length (pj_uniform E n) = n)"

section \<open>Principal directions\<close>

text \<open>\<open>chunks(d)\<close> of a vector that holds whole rows.\<close>

definition rows :: "nat \<Rightarrow> 'a list \<Rightarrow> 'a list list" where
  "rows d xs = map (\<lambda>i. take d (drop (i * d) xs)) [0..<length xs div d]"

definition column_mean :: "projection_env \<Rightarrow> f64 list \<Rightarrow> nat \<Rightarrow> f64 list" where
  "column_mean E points d =
     (let mean = pj_rayon E (replicate d 0) (\<lambda>acc row. add_scaled acc row 1) (\<lambda>a b. add_scaled a b 1)
                   (rows d points)
      in map (\<lambda>x. x / f64_of_nat (length points div d)) mean)"

definition project_out :: "f64 list \<Rightarrow> f64 list \<Rightarrow> f64 list" where
  "project_out v prev = (let p = dot v prev in add_scaled v prev (- p))"

definition keep_direction :: "nat \<Rightarrow> f64 list \<Rightarrow> f64 list \<Rightarrow> f64 list" where
  "keep_direction d out row =
     (let before = l2_norm row; v = foldl project_out row (rows d out); norm = l2_norm v
      in if 0 < before \<and> before * f64_dec 1 8 < norm then out @ map (\<lambda>x. x / norm) v else out)"

definition gram_schmidt :: "nat \<Rightarrow> f64 list \<Rightarrow> f64 list" where
  "gram_schmidt d xs = foldl (keep_direction d) [] (rows d xs)"

definition orthonormalize :: "nat \<Rightarrow> f64 list \<Rightarrow> f64 list" where
  "orthonormalize d xs = gram_schmidt d (gram_schmidt d xs)"

definition scatter :: "nat \<Rightarrow> f64 list \<Rightarrow> f64 list \<Rightarrow> f64 list \<Rightarrow> f64 list" where
  "scatter d q acc row =
     concat (map2 (\<lambda>b out. let y = dot row b in add_scaled out row y) (rows d q) (rows d acc))"

fun subspace_loop :: "projection_env \<Rightarrow> f64 list \<Rightarrow> nat \<Rightarrow> nat \<Rightarrow> f64 list \<Rightarrow> f64 list" where
  "subspace_loop E points d 0 q = q"
| "subspace_loop E points d (Suc n) q =
     (let k = length q div d in
      if k = 0 then q
      else let z = pj_rayon E (replicate (k * d) 0) (scatter d q) (\<lambda>a b. add_scaled a b 1) (rows d points)
           in subspace_loop E points d n (orthonormalize d z))"

definition principal_directions :: "projection_env \<Rightarrow> f64 list \<Rightarrow> nat \<Rightarrow> nat \<Rightarrow> f64 list" where
  "principal_directions E points d k = subspace_loop E points d 6 (orthonormalize d (pj_uniform E (k * d)))"

section \<open>The k-d tree\<close>

datatype Node = Leaf nat nat | Split nat f64 nat nat   \<comment> \<open>start, end; axis, value, left, right\<close>

record KdTree =
  kd_points :: "f64 list"
  kd_k :: nat
  kd_order :: "nat list"
  kd_nodes :: "Node list"

definition coord :: "KdTree \<Rightarrow> nat \<Rightarrow> nat \<Rightarrow> f64" where
  "coord t p axis = kd_points t ! (p * kd_k t + axis)"

definition kd_row :: "KdTree \<Rightarrow> nat \<Rightarrow> f64 list" where
  "kd_row t p = take (kd_k t) (drop (p * kd_k t) (kd_points t))"

definition dist2 :: "KdTree \<Rightarrow> f64 list \<Rightarrow> nat \<Rightarrow> f64" where
  "dist2 t q p = f64_sum (map2 (\<lambda>a b. (a - b) * (a - b)) q (kd_row t p))"

definition extent :: "nat \<Rightarrow> nat \<Rightarrow> 'a list \<Rightarrow> 'a list" where
  "extent start fin xs = take (fin - start) (drop start xs)"

definition spread :: "KdTree \<Rightarrow> nat list \<Rightarrow> nat \<Rightarrow> f64" where
  "spread t ps axis =
     (let (lo, hi) = foldl (\<lambda>(lo, hi) p. let x = coord t p axis in (f64_min lo x, f64_max hi x))
                       (f64_infinity, f64_neg_infinity) ps
      in hi - lo)"

definition widest :: "KdTree \<Rightarrow> nat list \<Rightarrow> nat" where
  "widest t ps =
     (case max_by (\<lambda>a b. total_key (spread t ps a) < total_key (spread t ps b)) [0..<kd_k t] of
        Some axis \<Rightarrow> axis | None \<Rightarrow> 0)"

text \<open>The slice of the order with the median of the widest dimension in its place.\<close>

definition at_median :: "projection_env \<Rightarrow> KdTree \<Rightarrow> nat \<Rightarrow> nat \<Rightarrow> nat list" where
  "at_median E t start fin =
     (let ps = extent start fin (kd_order t); axis = widest t ps
      in take start (kd_order t) @
         pj_select E (\<lambda>a b. total_key (coord t a axis) < total_key (coord t b axis)) ((fin - start) div 2) ps @
         drop fin (kd_order t))"

function kd_split :: "projection_env \<Rightarrow> KdTree \<Rightarrow> nat \<Rightarrow> nat \<Rightarrow> nat \<times> KdTree" where
  "kd_split E t start fin =
     (if fin - start \<le> 8 then (length (kd_nodes t), t\<lparr>kd_nodes := kd_nodes t @ [Leaf start fin]\<rparr>)
      else let axis = widest t (extent start fin (kd_order t));
               mid = (fin - start) div 2;
               t = t\<lparr>kd_order := at_median E t start fin\<rparr>;
               val = coord t (kd_order t ! (start + mid)) axis;
               here = length (kd_nodes t);
               t = t\<lparr>kd_nodes := kd_nodes t @ [Leaf start fin]\<rparr>;
               (left, t) = kd_split E t start (start + mid);
               (right, t) = kd_split E t (start + mid) fin
           in (here, t\<lparr>kd_nodes := (kd_nodes t)[here := Split axis val left right]\<rparr>))"
  by pat_completeness auto
termination
  by (relation "measure (\<lambda>(_, _, start, fin). fin - start)") auto

declare kd_split.simps [simp del]

definition kd_build :: "projection_env \<Rightarrow> f64 list \<Rightarrow> nat \<Rightarrow> KdTree" where
  "kd_build E points k =
     (let n = length points div k
      in snd (kd_split E \<lparr>kd_points = points, kd_k = k, kd_order = [0..<n], kd_nodes = []\<rparr> 0 n))"

text \<open>The searches recurse over the indices of the nodes; \<open>None\<close> is a search that does not end.\<close>

definition closer :: "KdTree \<Rightarrow> f64 list \<Rightarrow> nat \<Rightarrow> nat \<times> f64 \<Rightarrow> nat \<Rightarrow> nat \<times> f64" where
  "closer t q skip best p =
     (if p \<noteq> skip then let d2 = dist2 t q p in if d2 < snd best then (p, d2) else best else best)"

partial_function (option) nearest_in ::
  "KdTree \<Rightarrow> nat \<Rightarrow> f64 list \<Rightarrow> nat \<Rightarrow> nat \<times> f64 \<Rightarrow> (nat \<times> f64) option" where
  "nearest_in t node q skip best =
     (case kd_nodes t ! node of
        Leaf start fin \<Rightarrow> Some (foldl (closer t q skip) best (extent start fin (kd_order t)))
      | Split axis val left right \<Rightarrow>
          let diff = q ! axis - val;
              near = (if diff < 0 then left else right);
              far = (if diff < 0 then right else left)
          in Option.bind (nearest_in t near q skip best) (\<lambda>best.
             if diff * diff < snd best then nearest_in t far q skip best else Some best))"

definition nearest_excluding :: "KdTree \<Rightarrow> f64 list \<Rightarrow> nat \<Rightarrow> nat option option" where
  "nearest_excluding t q skip =
     map_option (\<lambda>best. if fst best \<noteq> usize_max then Some (fst best) else None)
       (nearest_in t 0 q skip (usize_max, f64_infinity))"

partial_function (option) within_in ::
  "KdTree \<Rightarrow> nat \<Rightarrow> f64 list \<Rightarrow> f64 \<Rightarrow> nat list \<Rightarrow> nat list option" where
  "within_in t node q r2 out =
     (case kd_nodes t ! node of
        Leaf start fin \<Rightarrow> Some (out @ filter (\<lambda>p. dist2 t q p \<le> r2) (extent start fin (kd_order t)))
      | Split axis val left right \<Rightarrow>
          let diff = q ! axis - val;
              near = (if diff < 0 then left else right);
              far = (if diff < 0 then right else left)
          in Option.bind (within_in t near q r2 out) (\<lambda>out.
             if diff * diff \<le> r2 then within_in t far q r2 out else Some out))"

definition kd_within :: "KdTree \<Rightarrow> f64 list \<Rightarrow> f64 \<Rightarrow> nat list option" where
  "kd_within t q r2 = within_in t 0 q r2 []"

section \<open>The search\<close>

text \<open>One of the points compared with its candidates.\<close>

definition candidate ::
  "HardLocation list \<Rightarrow> f64 list \<Rightarrow> nat list \<Rightarrow> nat \<Rightarrow> nat \<times> f64 \<Rightarrow> nat \<Rightarrow> nat \<times> f64" where
  "candidate locations norms valid a best b =
     (if b = a then best
      else let j = valid ! b; s = sim locations norms (valid ! a) j in if snd best < s then (j, s) else best)"

definition radius2 :: "f64 \<Rightarrow> f64" where
  "radius2 bound = f64_max (f64_dec 2 0 - f64_dec 2 0 * bound) 0 + f64_dec 1 12"

definition search_point ::
  "KdTree \<Rightarrow> HardLocation list \<Rightarrow> f64 list \<Rightarrow> nat list \<Rightarrow> nat \<Rightarrow> (nat \<times> f64) option option" where
  "search_point t locations norms valid a =
     (let i = valid ! a; q = kd_row t a in
      Option.bind (nearest_excluding t q a) (\<lambda>found.
      case found of
        None \<Rightarrow> Some (brute_one locations norms i)
      | Some c \<Rightarrow>
         let bound = sim locations norms i (valid ! c) in
         Option.bind (kd_within t q (radius2 bound)) (\<lambda>candidates.
         let best = foldl (candidate locations norms valid a) (usize_max, f64_neg_infinity) (sort candidates)
         in Some (if fst best = usize_max \<or> snd best < bound then brute_one locations norms i else Some best))))"

text \<open>Every usable location searched for; the others have no neighbour.\<close>

definition search_all ::
  "KdTree \<Rightarrow> HardLocation list \<Rightarrow> f64 list \<Rightarrow> nat list \<Rightarrow> (nat \<times> f64) option list option" where
  "search_all t locations norms valid =
     map_option (\<lambda>found. foldl (\<lambda>out (i, nn). out[i := nn]) (replicate (length locations) None) (zip valid found))
       (those (map (search_point t locations norms valid) [0..<length valid]))"

definition usable :: "HardLocation list \<Rightarrow> f64 list \<Rightarrow> nat list" where
  "usable locations norms = filter (\<lambda>i. tiny \<le> norms ! i) [0..<length locations]"

text \<open>The unit addresses, centred.\<close>

definition centred :: "projection_env \<Rightarrow> HardLocation list \<Rightarrow> f64 list \<Rightarrow> nat \<Rightarrow> f64 list" where
  "centred E locations norms d =
     (let points = concat (map (\<lambda>i. map (\<lambda>x. x / norms ! i) (loc_address (locations ! i))) (usable locations norms));
          mean = column_mean E points d
      in concat (map (\<lambda>row. map2 (-) row mean) (rows d points)))"

definition project_onto :: "f64 list \<Rightarrow> nat \<Rightarrow> f64 list \<Rightarrow> f64 list" where
  "project_onto points d basis = concat (map (\<lambda>row. map (dot row) (rows d basis)) (rows d points))"

text \<open>The centred points, their projections and the number of directions.\<close>

definition projection ::
  "projection_env \<Rightarrow> HardLocation list \<Rightarrow> f64 list \<Rightarrow> nat \<Rightarrow> f64 list \<times> f64 list \<times> nat" where
  "projection E locations norms d =
     (let points = centred E locations norms d;
          basis = principal_directions E points d (min 16 d)
      in (points, project_onto points d basis, length basis div d))"

definition projected_with ::
  "projection_env \<Rightarrow> HardLocation list \<Rightarrow> f64 list \<Rightarrow> f64 \<Rightarrow> nat \<Rightarrow> (nat \<times> f64) option list option option" where
  "projected_with E locations norms min_captured min_points =
     (case locations of
        [] \<Rightarrow> Some None
      | first # _ \<Rightarrow>
         let d = length (loc_address first); valid = usable locations norms in
         if length valid < max min_points 2 \<or> d < 32 \<or>
            list_ex (\<lambda>l. length (loc_address l) \<noteq> d \<or> list_ex (\<lambda>x. \<not> is_finite x) (loc_address l)) locations
         then Some None
         else
           let (points, proj, k) = projection E locations norms d in
           if k = 0 then Some None
           else
             let total = pj_sum E (map (\<lambda>x. x * x) points);
                 kept = pj_sum E (map (\<lambda>x. x * x) proj)
             in if total \<le> 0 \<or> kept / total < min_captured then Some None
                else map_option Some (search_all (kd_build E proj k) locations norms valid))"

definition projected_search :: "projection_env \<Rightarrow> projected" where
  "projected_search E locations norms =
     (case projected_with E locations norms (f64_dec 5 1) 3000 of Some answer \<Rightarrow> answer | None \<Rightarrow> None)"

end
