(* ===== verification/Kd_Tree.thy ===== *)
theory Kd_Tree
  imports Projected
begin

text \<open>
  The k-d tree of nearest.rs: building it partitions every slice at a median, searching it
  ends, and on finite coordinates the two searches find what a scan of all points would find.
  The pruning compares rounded squares; that it never loses a point is the monotonicity of
  rounding (\<open>Ieee754_Order\<close>).
\<close>

section \<open>Slices\<close>

lemma extent_append: "s \<le> m \<Longrightarrow> m \<le> e \<Longrightarrow> extent s e xs = extent s m xs @ extent m e xs"
proof -
  assume "s \<le> m" "m \<le> e"
  then have "e - s = (m - s) + (e - m)" "drop m xs = drop (m - s) (drop s xs)" by simp_all
  then show ?thesis by (simp only: extent_def take_add)
qed

lemma extent_take: "m \<le> e \<Longrightarrow> extent s m xs = take (m - s) (extent s e xs)"
  by (simp add: extent_def min_def)

lemma extent_drop: "s \<le> m \<Longrightarrow> extent m e xs = drop (m - s) (extent s e xs)"
  by (simp add: extent_def drop_take)

lemma extent_full: "extent 0 (length xs) xs = xs"
  by (simp add: extent_def)

lemma set_extent: "set (extent s e xs) \<subseteq> set xs"
  unfolding extent_def by (meson order_trans set_drop_subset set_take_subset)

lemma length_extent: "e \<le> length xs \<Longrightarrow> length (extent s e xs) = e - s"
  by (simp add: extent_def)

lemma extent_prefix:
  assumes "take m xs = take m ys" "e \<le> m"
  shows "extent s e xs = extent s e ys"
proof -
  have "extent s e zs = drop s (take e (take m zs))" for zs :: "'a list"
    using assms(2) by (simp add: extent_def drop_take min_absorb1)
  then show ?thesis using assms(1) by metis
qed

lemma extent_suffix:
  assumes "drop m xs = drop m ys" "m \<le> s"
  shows "extent s e xs = extent s e ys"
proof -
  have "drop s zs = drop (s - m) (drop m zs)" for zs :: "'a list" using assms(2) by simp
  then show ?thesis using assms(1) by (simp only: extent_def)
qed

lemma nth_extent: "s + k < e \<Longrightarrow> e \<le> length xs \<Longrightarrow> extent s e xs ! k = xs ! (s + k)"
  by (simp add: extent_def)

section \<open>What building gives\<close>

text \<open>Node \<open>i\<close> stands for the slice of the order from \<open>s\<close> to \<open>e\<close>.\<close>

inductive subtree :: "KdTree \<Rightarrow> nat \<Rightarrow> nat \<Rightarrow> nat \<Rightarrow> bool" for t :: KdTree where
  leaf: "i < length (kd_nodes t) \<Longrightarrow> kd_nodes t ! i = Leaf s e \<Longrightarrow> subtree t i s e"
| split: "i < length (kd_nodes t) \<Longrightarrow> kd_nodes t ! i = Split axis v l r \<Longrightarrow> i < l \<Longrightarrow> i < r \<Longrightarrow>
    axis < kd_k t \<Longrightarrow> s \<le> m \<Longrightarrow> m \<le> e \<Longrightarrow> subtree t l s m \<Longrightarrow> subtree t r m e \<Longrightarrow>
    \<exists>p\<in>set (extent s e (kd_order t)). v = coord t p axis \<Longrightarrow>
    \<forall>p\<in>set (extent s m (kd_order t)). total_key (coord t p axis) \<le> total_key v \<Longrightarrow>
    \<forall>p\<in>set (extent m e (kd_order t)). total_key v \<le> total_key (coord t p axis) \<Longrightarrow>
    subtree t i s e"

lemma coord_cong: "kd_points t' = kd_points t \<Longrightarrow> kd_k t' = kd_k t \<Longrightarrow> coord t' = coord t"
  by (simp add: coord_def fun_eq_iff)

lemma subtree_frame:
  assumes "subtree t i s e"
    and "kd_points t' = kd_points t" "kd_k t' = kd_k t" "length (kd_nodes t) \<le> length (kd_nodes t')"
    and "extent s e (kd_order t') = extent s e (kd_order t)"
    and "\<And>j. i \<le> j \<Longrightarrow> j < length (kd_nodes t) \<Longrightarrow> kd_nodes t' ! j = kd_nodes t ! j"
  shows "subtree t' i s e"
  using assms
proof (induction rule: subtree.induct)
  case (leaf i s e)
  then show ?case by (intro subtree.leaf) auto
next
  case (split i axis v l r s m e)
  have parts: "extent s m (kd_order t') = extent s m (kd_order t)" "extent m e (kd_order t') = extent m e (kd_order t)"
    using split.hyps(6,7) split.prems(4) by (simp_all add: extent_take [of m e s] extent_drop [of s m e])
  have "subtree t' l s m" "subtree t' r m e"
    by (rule split.IH; use split.prems split.hyps parts in force)+
  with split.hyps split.prems parts show ?case
    by (intro subtree.split [of i t' axis v l r s m e]) (auto simp: coord_cong [of t' t])
qed

lemma select_okD:
  assumes "select_ok E"
  shows "mset (pj_select E lt mid xs) = mset xs" "length (pj_select E lt mid xs) = length xs"
    and "weak_order_on lt (set xs) \<Longrightarrow> mid < length xs \<Longrightarrow> i < mid \<Longrightarrow>
      \<not> lt (pj_select E lt mid xs ! mid) (pj_select E lt mid xs ! i)"
    and "weak_order_on lt (set xs) \<Longrightarrow> i < length xs \<Longrightarrow> mid \<le> i \<Longrightarrow>
      \<not> lt (pj_select E lt mid xs ! i) (pj_select E lt mid xs ! mid)"
proof -
  show m: "mset (pj_select E lt mid xs) = mset xs" using assms by (simp add: select_ok_def Let_def)
  show "length (pj_select E lt mid xs) = length xs" by (rule mset_eq_length [OF m])
  show "\<not> lt (pj_select E lt mid xs ! mid) (pj_select E lt mid xs ! i)"
    if "weak_order_on lt (set xs)" "mid < length xs" "i < mid"
    using assms that unfolding select_ok_def Let_def by blast
  show "\<not> lt (pj_select E lt mid xs ! i) (pj_select E lt mid xs ! mid)"
    if "weak_order_on lt (set xs)" "i < length xs" "mid \<le> i"
    using assms that le_less_trans [OF that(3,2)] unfolding select_ok_def Let_def by blast
qed

lemma key_weak_order: "weak_order_on (\<lambda>a b. (f a :: int) < f b) A"
  by (auto simp: weak_order_on_def)

lemma widest_range: "0 < kd_k t \<Longrightarrow> widest t ps < kd_k t"
proof -
  assume "0 < kd_k t"
  then obtain axis where
    "max_by (\<lambda>a b. total_key (spread t ps a) < total_key (spread t ps b)) [0..<kd_k t] = Some axis"
    by (cases "max_by (\<lambda>a b. total_key (spread t ps a) < total_key (spread t ps b)) [0..<kd_k t]") auto
  with max_by_in [OF this] show ?thesis by (simp add: widest_def)
qed

text \<open>The order after a selection.\<close>

lemma at_median_ok:
  assumes "select_ok E" "s \<le> e" "e \<le> length (kd_order t)"
  shows "length (at_median E t s e) = length (kd_order t)"
    "take s (at_median E t s e) = take s (kd_order t)" "drop e (at_median E t s e) = drop e (kd_order t)"
    "mset (extent s e (at_median E t s e)) = mset (extent s e (kd_order t))"
    "extent s e (at_median E t s e) = pj_select E (\<lambda>a b. total_key (coord t a (widest t (extent s e (kd_order t)))) <
       total_key (coord t b (widest t (extent s e (kd_order t))))) ((e - s) div 2) (extent s e (kd_order t))"
proof -
  let ?ps = "extent s e (kd_order t)" and ?lt = "\<lambda>a b. total_key (coord t a (widest t (extent s e (kd_order t)))) <
       total_key (coord t b (widest t (extent s e (kd_order t))))"
  let ?ys = "pj_select E ?lt ((e - s) div 2) ?ps"
  have eq: "at_median E t s e = take s (kd_order t) @ ?ys @ drop e (kd_order t)"
    by (simp add: at_median_def Let_def)
  have n: "length ?ys = e - s" "length (take s (kd_order t)) = s"
    using assms(2,3) select_okD(2) [OF assms(1)] by (simp_all add: length_extent)
  show "length (at_median E t s e) = length (kd_order t)" "take s (at_median E t s e) = take s (kd_order t)"
    "drop e (at_median E t s e) = drop e (kd_order t)"
    using n assms(2,3) by (simp_all add: eq)
  show sl: "extent s e (at_median E t s e) = ?ys" using n by (simp add: eq extent_def)
  show "mset (extent s e (at_median E t s e)) = mset ?ps" by (simp add: sl select_okD(1) [OF assms(1)])
qed

text \<open>What a call leaves alone.\<close>

definition split_frame :: "KdTree \<Rightarrow> KdTree \<Rightarrow> nat \<Rightarrow> nat \<Rightarrow> bool" where
  "split_frame t t' s e \<longleftrightarrow>
     kd_points t' = kd_points t \<and> kd_k t' = kd_k t \<and> length (kd_order t') = length (kd_order t) \<and>
     take s (kd_order t') = take s (kd_order t) \<and> drop e (kd_order t') = drop e (kd_order t) \<and>
     mset (extent s e (kd_order t')) = mset (extent s e (kd_order t)) \<and>
     length (kd_nodes t) < length (kd_nodes t') \<and> take (length (kd_nodes t)) (kd_nodes t') = kd_nodes t"

lemma split_frameD:
  assumes "split_frame t t' s e"
  shows "kd_points t' = kd_points t" "kd_k t' = kd_k t" "length (kd_order t') = length (kd_order t)"
    "take s (kd_order t') = take s (kd_order t)" "drop e (kd_order t') = drop e (kd_order t)"
    "mset (extent s e (kd_order t')) = mset (extent s e (kd_order t))"
    "length (kd_nodes t) < length (kd_nodes t')"
    "j < length (kd_nodes t) \<Longrightarrow> kd_nodes t' ! j = kd_nodes t ! j"
  using assms by (simp_all add: split_frame_def) (metis nth_take)

text \<open>Two halves at a median make a node.\<close>

lemma kd_split_step:
  assumes sel: "select_ok E" and se: "s \<le> e" "e \<le> length (kd_order t)" "0 < kd_k t"
    and axis: "axis = widest t (extent s e (kd_order t))"
    and t1: "t1 = t\<lparr>kd_order := at_median E t s e\<rparr>" and val: "val = coord t1 (kd_order t1 ! (s + (e - s) div 2)) axis"
    and t2: "t2 = t1\<lparr>kd_nodes := kd_nodes t1 @ [Leaf s e]\<rparr>"
    and mid: "m = s + (e - s) div 2" "s < m" "m < e"
    and left: "l = length (kd_nodes t2)" "split_frame t2 t3 s m" "subtree t3 l s m"
    and right: "r = length (kd_nodes t3)" "split_frame t3 t4 m e" "subtree t4 r m e"
    and t': "t' = t4\<lparr>kd_nodes := (kd_nodes t4)[length (kd_nodes t) := Split axis val l r]\<rparr>"
  shows "split_frame t t' s e \<and> subtree t' (length (kd_nodes t)) s e"
proof -
  let ?here = "length (kd_nodes t)"
  note L = split_frameD [OF left(2)] and R = split_frameD [OF right(2)]
  note M = at_median_ok [OF sel se(1,2)]
  have order2: "kd_order t2 = at_median E t s e" "kd_points t2 = kd_points t" "kd_k t2 = kd_k t"
    "kd_nodes t2 = kd_nodes t @ [Leaf s e]" by (simp_all add: t2 t1)
  have order': "kd_order t' = kd_order t4" "kd_points t' = kd_points t" "kd_k t' = kd_k t"
    "kd_nodes t' = (kd_nodes t4)[?here := Split axis val l r]"
    using L(1,2) R(1,2) order2 by (simp_all add: t')
  have len: "length (kd_order t2) = length (kd_order t)" "?here < l" "l < r" "r < length (kd_nodes t4)"
    using M(1) order2 left(1) right(1) L(7) R(7) by simp_all
  have lo: "extent s m (kd_order t4) = extent s m (kd_order t3)" by (rule extent_prefix [OF R(4)]) simp
  have hi: "extent m e (kd_order t3) = extent m e (kd_order t2)" by (rule extent_suffix [OF L(5)]) simp
  have msets: "mset (extent s m (kd_order t4)) = mset (extent s m (kd_order t2))"
    "mset (extent m e (kd_order t4)) = mset (extent m e (kd_order t2))"
    using lo hi L(6) R(6) by simp_all
  then have sets: "set (extent s m (kd_order t')) = set (extent s m (kd_order t2))"
    "set (extent m e (kd_order t')) = set (extent m e (kd_order t2))"
    using order'(1) by (metis set_mset_mset)+
  have whole: "extent s e xs = extent s m xs @ extent m e xs" for xs :: "nat list"
    by (rule extent_append) (use mid in simp_all)
  have outer: "take s (kd_order t4) = take s (kd_order t)" "drop e (kd_order t4) = drop e (kd_order t)"
  proof -
    have "take s (take m (kd_order t4)) = take s (take m (kd_order t3))" by (simp only: R(4))
    then show "take s (kd_order t4) = take s (kd_order t)" using L(4) M(2) order2 mid by (simp add: min_def)
    have "drop (e - m) (drop m (kd_order t3)) = drop (e - m) (drop m (kd_order t2))" by (simp only: L(5))
    then show "drop e (kd_order t4) = drop e (kd_order t)" using R(5) M(3) order2 mid by simp
  qed
  have nodes: "kd_nodes t4 ! j = kd_nodes t ! j" if "j < ?here" for j
    using R(8) [of j] L(8) [of j] that len by (simp add: order2 left(1) right(1) nth_append)
  have frame: "split_frame t t' s e"
    using outer msets order' L(3) R(3) M(1,4) len order2 nodes
    by (auto simp: split_frame_def whole intro!: nth_equalityI)
  have sl: "subtree t' l s m"
  proof (rule subtree_frame [OF left(3)])
    show "extent s m (kd_order t') = extent s m (kd_order t3)" using lo order' by simp
    show "kd_nodes t' ! j = kd_nodes t3 ! j" if "l \<le> j" "j < length (kd_nodes t3)" for j
      using R(8) [OF that(2)] that len by (simp add: order')
  qed (use L R order' order2 in auto)
  have sr: "subtree t' r m e"
  proof (rule subtree_frame [OF right(3)])
    show "kd_nodes t' ! j = kd_nodes t4 ! j" if "r \<le> j" "j < length (kd_nodes t4)" for j
      using that len by (simp add: order')
  qed (use L R order' order2 in auto)
  have ax: "axis < kd_k t'" using widest_range [OF se(3)] by (simp add: axis order')
  let ?ps = "extent s e (kd_order t)" and ?lt = "\<lambda>a b. total_key (coord t a axis) < total_key (coord t b axis)"
  define ys where "ys = pj_select E ?lt ((e - s) div 2) ?ps"
  have ys: "extent s e (kd_order t2) = ys" using M(5) by (simp add: order2 ys_def axis)
  have ny: "length ys = e - s" using select_okD(2) [OF sel] length_extent [OF se(2)] by (simp add: ys_def)
  have halves: "extent s m (kd_order t2) = take ((e - s) div 2) ys" "extent m e (kd_order t2) = drop ((e - s) div 2) ys"
    using extent_take [of m e s "kd_order t2"] extent_drop [of s m e "kd_order t2"] mid ys by simp_all
  have k: "(e - s) div 2 < length ys" using ny mid by simp
  have "kd_order t2 ! m = ys ! ((e - s) div 2)"
    using nth_extent [of s "(e - s) div 2" e "kd_order t2"] mid se(2) len(1) by (simp add: ys)
  moreover have "coord t1 = coord t" by (rule coord_cong) (simp_all add: t1)
  moreover have "kd_order t1 = kd_order t2" by (simp add: t2)
  ultimately have v: "val = coord t (ys ! ((e - s) div 2)) axis" using val mid(1) by simp
  have c: "coord t' = coord t" by (rule coord_cong) (simp_all add: order')
  have part: "\<not> ?lt (ys ! ((e - s) div 2)) (ys ! i)" if "i < (e - s) div 2" for i
    unfolding ys_def
    by (rule select_okD(3) [OF sel key_weak_order [of "\<lambda>a. total_key (coord t a axis)"]])
      (use that k length_extent [OF se(2)] ny in simp_all)
  have part': "\<not> ?lt (ys ! i) (ys ! ((e - s) div 2))" if "(e - s) div 2 \<le> i" "i < length ys" for i
    unfolding ys_def
    by (rule select_okD(4) [OF sel key_weak_order [of "\<lambda>a. total_key (coord t a axis)"]])
      (use that k length_extent [OF se(2)] ny in simp_all)
  have lower: "\<forall>p\<in>set (extent s m (kd_order t')). total_key (coord t' p axis) \<le> total_key val"
    using part k by (auto simp: sets halves c v in_set_conv_nth not_less)
  have upper: "\<forall>p\<in>set (extent m e (kd_order t')). total_key val \<le> total_key (coord t' p axis)"
    using part' k by (auto simp: sets halves c v in_set_conv_nth not_less)
  have "ys ! ((e - s) div 2) \<in> set (extent m e (kd_order t'))"
    using k by (simp add: sets halves) (metis Cons_nth_drop_Suc list.set_intros(1))
  then have here: "\<exists>p\<in>set (extent s e (kd_order t')). val = coord t' p axis" using whole c v by auto
  have "s \<le> m" "m \<le> e" "?here < length (kd_nodes t')" "kd_nodes t' ! ?here = Split axis val l r" "?here < r"
    using len mid order' by simp_all
  from subtree.split [OF this(3,4) len(2) this(5) ax this(1,2) sl sr here lower upper]
  have "subtree t' ?here s e" .
  with frame show ?thesis ..
qed

lemma kd_split_ok:
  assumes "select_ok E" "kd_split E t s e = (i, t')" "s \<le> e" "e \<le> length (kd_order t)" "0 < kd_k t"
  shows "i = length (kd_nodes t) \<and> split_frame t t' s e \<and> subtree t' i s e"
  using assms
proof (induction E t s e arbitrary: i t' rule: kd_split.induct)
  case (1 E t s e)
  show ?case
  proof (cases "e - s \<le> 8")
    case True
    with "1.prems"(2) show ?thesis
      by (subst (asm) kd_split.simps) (auto simp: split_frame_def intro!: subtree.leaf)
  next
    case False
    let ?ps = "extent s e (kd_order t)"
    define axis mid where "axis = widest t ?ps" and "mid = (e - s) div 2"
    define t1 where "t1 = t\<lparr>kd_order := at_median E t s e\<rparr>"
    define val where "val = coord t1 (kd_order t1 ! (s + mid)) axis"
    define t2 where "t2 = t1\<lparr>kd_nodes := kd_nodes t1 @ [Leaf s e]\<rparr>"
    let ?here = "length (kd_nodes t)"
    obtain l t3 where l: "kd_split E t2 s (s + mid) = (l, t3)" by force
    obtain r t4 where r: "kd_split E t3 (s + mid) e = (r, t4)" by force
    have t': "i = ?here" "t' = t4\<lparr>kd_nodes := (kd_nodes t4)[?here := Split axis val l r]\<rparr>"
      using "1.prems"(2) False l r
      by (auto simp: kd_split.simps [of E t s e] Let_def t2_def val_def t1_def axis_def mid_def)
    have mid: "0 < mid" "s + mid < e" "s + mid \<le> e" using False by (auto simp: mid_def)
    have len: "length (kd_order t2) = length (kd_order t)" "0 < kd_k t2" "kd_nodes t2 = kd_nodes t @ [Leaf s e]"
      using at_median_ok(1) [OF "1.prems"(1) "1.prems"(3,4)] "1.prems"(5) by (simp_all add: t2_def t1_def)
    have left: "l = length (kd_nodes t2) \<and> split_frame t2 t3 s (s + mid) \<and> subtree t3 l s (s + mid)"
      by (rule "1.IH"(1) [OF False axis_def mid_def t1_def val_def refl t2_def])
        (use l len mid "1.prems"(1,4) in simp_all)
    have right: "r = length (kd_nodes t3) \<and> split_frame t3 t4 (s + mid) e \<and> subtree t4 r (s + mid) e"
      by (rule "1.IH"(2) [OF False axis_def mid_def t1_def val_def refl t2_def l [symmetric] refl])
        (use r len mid left "1.prems"(1,4) split_frameD(2,3) [of t2 t3] in auto)
    have m: "s + mid = s + (e - s) div 2" "s < s + mid" using mid by (simp_all add: mid_def)
    have v: "val = coord t1 (kd_order t1 ! (s + (e - s) div 2)) axis" by (simp add: val_def mid_def)
    have "split_frame t t' s e \<and> subtree t' ?here s e"
      using kd_split_step [OF "1.prems"(1,3-5) axis_def t1_def v t2_def m mid(2) _ _ _ _ _ _ t'(2) [unfolded t'(1)]] left right
      by blast
    with t'(1) show ?thesis by simp
  qed
qed

lemma kd_build_ok:
  assumes "select_ok E" "0 < k" and n: "n = length points div k"
  shows "subtree (kd_build E points k) 0 0 n" "mset (kd_order (kd_build E points k)) = mset [0..<n]"
    "length (kd_order (kd_build E points k)) = n"
    "kd_points (kd_build E points k) = points" "kd_k (kd_build E points k) = k"
proof -
  let ?t = "\<lparr>kd_points = points, kd_k = k, kd_order = [0..<n], kd_nodes = []\<rparr>"
  obtain i t' where s: "kd_split E ?t 0 n = (i, t')" by force
  have ok: "i = 0" "split_frame ?t t' 0 n" "subtree t' i 0 n"
    using kd_split_ok [OF assms(1) s] assms(2) by auto
  have t': "kd_build E points k = t'" using s by (simp add: kd_build_def n)
  note f = split_frameD [OF ok(2)]
  show "subtree (kd_build E points k) 0 0 n" using ok by (simp add: t')
  show "length (kd_order (kd_build E points k)) = n" "kd_points (kd_build E points k) = points"
    "kd_k (kd_build E points k) = k" using f by (simp_all add: t')
  then show "mset (kd_order (kd_build E points k)) = mset [0..<n]" using f(6) by (simp add: t' extent_def)
qed

section \<open>What searching finds\<close>

text \<open>Finite coordinates, of the points and of the query.\<close>

definition finite_cloud :: "KdTree \<Rightarrow> f64 list \<Rightarrow> bool" where
  "finite_cloud t q \<longleftrightarrow>
     length q = kd_k t \<and> (\<forall>x\<in>set q. is_finite x) \<and>
     (\<forall>p\<in>set (kd_order t). length (kd_row t p) = kd_k t \<and> (\<forall>x\<in>set (kd_row t p). is_finite x))"

lemma coord_row: "length (kd_row t p) = kd_k t \<Longrightarrow> axis < kd_k t \<Longrightarrow> coord t p axis = kd_row t p ! axis"
  by (simp add: kd_row_def coord_def)

lemma dist2_terms:
  assumes "finite_cloud t q" "p \<in> set (kd_order t)"
    and "x \<in> set (map2 (\<lambda>a b. (a - b) * (a - b)) q (kd_row t p))"
  shows "0 \<le> x"
proof -
  obtain a b where ab: "(a, b) \<in> set (zip q (kd_row t p))" "x = (a - b) * (a - b)" using assms(3) by auto
  then have "is_finite a" "is_finite b"
    using assms(1,2) set_zip_leftD [OF ab(1)] set_zip_rightD [OF ab(1)] by (auto simp: finite_cloud_def)
  then show ?thesis using ab(2) square_nonneg key_add(4) by simp
qed

lemma dist2_ge_axis:
  assumes "finite_cloud t q" "p \<in> set (kd_order t)" "axis < kd_k t"
  shows "(q ! axis - coord t p axis) * (q ! axis - coord t p axis) \<le> dist2 t q p"
proof -
  have n: "length q = kd_k t" "length (kd_row t p) = kd_k t" using assms(1,2) by (auto simp: finite_cloud_def)
  have "(q ! axis - kd_row t p ! axis) * (q ! axis - kd_row t p ! axis) \<in>
      set (map2 (\<lambda>a b. (a - b) * (a - b)) q (kd_row t p))"
    using n assms(3) by (force simp: set_zip)
  then show ?thesis
    unfolding dist2_def coord_row [OF n(2) assms(3)] by (rule f64_sum_ge [rotated]) (rule dist2_terms [OF assms(1,2)])
qed

lemma dist2_nonneg: "finite_cloud t q \<Longrightarrow> p \<in> set (kd_order t) \<Longrightarrow> 0 \<le> dist2 t q p"
  unfolding dist2_def by (rule f64_sum_nonneg) (rule dist2_terms)

lemma total_key_units:
  assumes "is_finite x" "is_finite y" "total_key x \<le> total_key y"
  shows "units x \<le> units y"
proof -
  have "f64_key x \<le> f64_key y"
    using assms(3) f64_mag_bounds [of x] f64_mag_bounds [of y] by (auto simp: total_key_def f64_key_def split: if_splits)
  then show ?thesis using key_le_units [OF assms(1,2)] by simp
qed

text \<open>A point on the far side of a split is at least as far away as the split.\<close>

lemma far_side:
  assumes "finite_cloud t q" "axis < kd_k t" "p \<in> set (kd_order t)" "p' \<in> set (kd_order t)" "v = coord t p' axis"
    and "if q ! axis - v < 0 then total_key v \<le> total_key (coord t p axis) else total_key (coord t p axis) \<le> total_key v"
  shows "(q ! axis - v) * (q ! axis - v) \<le> dist2 t q p"
proof -
  have fin: "is_finite (q ! axis)" "is_finite (coord t p axis)" "is_finite v"
    using assms(1-5) coord_row by (auto simp: finite_cloud_def)
  have "units (q ! axis) \<le> units v \<and> units v \<le> units (coord t p axis) \<or>
      units (coord t p axis) \<le> units v \<and> units v \<le> units (q ! axis)"
    using assms(6) total_key_units [OF fin(2,3)] total_key_units [OF fin(3,2)] difference_negative [OF fin(1,3)]
    by (auto split: if_splits)
  from f64_le_trans [OF farther_square [OF fin(1,3,2) this] dist2_ge_axis [OF assms(1,3,2)]] show ?thesis .
qed

definition near_slice :: "KdTree \<Rightarrow> f64 list \<Rightarrow> nat \<Rightarrow> nat \<times> f64 \<Rightarrow> nat \<times> f64 \<Rightarrow> nat set \<Rightarrow> bool" where
  "near_slice t q skip best b ps \<longleftrightarrow>
     (b = best \<or> (\<exists>p\<in>ps. p \<noteq> skip \<and> b = (p, dist2 t q p))) \<and>
     (finite_cloud t q \<longrightarrow> ps \<subseteq> set (kd_order t) \<longrightarrow> \<not> is_nan (snd best) \<longrightarrow>
        snd b \<le> snd best \<and> (\<forall>p\<in>ps. p \<noteq> skip \<longrightarrow> snd b \<le> dist2 t q p))"

lemma near_slice_trans:
  assumes "near_slice t q skip best b ps" "near_slice t q skip b b' ps'"
  shows "near_slice t q skip best b' (ps \<union> ps')"
  using assms f64_le_trans unfolding near_slice_def
  by (auto simp: less_eq_f64_def; blast)

lemma closer_step: "near_slice t q skip best (closer t q skip best p) {p}"
proof -
  have "dist2 t q p < snd best \<longrightarrow> dist2 t q p \<le> snd best \<and> dist2 t q p \<le> dist2 t q p"
    "\<not> dist2 t q p < snd best \<longrightarrow> finite_cloud t q \<longrightarrow> p \<in> set (kd_order t) \<longrightarrow> \<not> is_nan (snd best) \<longrightarrow>
      snd best \<le> dist2 t q p"
    using dist2_nonneg [of t q p] f64_not_less [of "dist2 t q p" "snd best"] by (auto simp: f64_order)
  moreover have "snd best \<le> snd best" if "\<not> is_nan (snd best)" using that by (simp add: f64_order)
  ultimately show ?thesis by (auto simp: near_slice_def closer_def Let_def)
qed

lemma near_slice_empty: "near_slice t q skip best best {}"
  by (simp add: near_slice_def f64_order)

lemma closer_fold: "near_slice t q skip best (foldl (closer t q skip) best ps) (set ps)"
proof (induction ps arbitrary: best)
  case Nil
  then show ?case by (simp add: near_slice_empty)
next
  case (Cons p ps)
  have "near_slice t q skip best (foldl (closer t q skip) (closer t q skip best p) ps) ({p} \<union> set ps)"
    by (rule near_slice_trans [OF closer_step Cons.IH])
  then show ?case by simp
qed

text \<open>The halves of a split, by the side the query is on.\<close>

lemma split_sides:
  assumes "s \<le> m" "m \<le> e" "finite_cloud t q" "axis < kd_k t"
    and "\<exists>p\<in>set (extent s e (kd_order t)). v = coord t p axis"
    and "\<forall>p\<in>set (extent s m (kd_order t)). total_key (coord t p axis) \<le> total_key v"
    and "\<forall>p\<in>set (extent m e (kd_order t)). total_key v \<le> total_key (coord t p axis)"
    and "p \<in> set (if q ! axis - v < 0 then extent m e (kd_order t) else extent s m (kd_order t))"
  shows "(q ! axis - v) * (q ! axis - v) \<le> dist2 t q p"
proof -
  from assms(5) obtain p' where p': "p' \<in> set (kd_order t)" "v = coord t p' axis" using set_extent by fastforce
  have "p \<in> set (kd_order t)" using assms(8) set_extent by (fastforce split: if_splits)
  from far_side [OF assms(3,4) this p'] assms(6-8) show ?thesis by (auto split: if_splits)
qed

lemma nearest_in_ok:
  assumes "subtree t i s e"
  shows "\<exists>b. nearest_in t i q skip best = Some b \<and> near_slice t q skip best b (set (extent s e (kd_order t)))"
  using assms
proof (induction arbitrary: best rule: subtree.induct)
  case (leaf i s e)
  then show ?case by (subst nearest_in.simps) (simp add: closer_fold)
next
  case (split i axis v l r s m e)
  let ?diff = "q ! axis - v" and ?o = "kd_order t"
  define near far where "near = (if ?diff < 0 then l else r)" and "far = (if ?diff < 0 then r else l)"
  define ns fs where "ns = (if ?diff < 0 then extent s m ?o else extent m e ?o)"
    and "fs = (if ?diff < 0 then extent m e ?o else extent s m ?o)"
  obtain b where b: "nearest_in t near q skip best = Some b" "near_slice t q skip best b (set ns)"
    using split.IH(1) [of best] split.IH(2) [of best] by (cases "?diff < 0") (auto simp: near_def ns_def)
  obtain b' where b': "nearest_in t far q skip b = Some b'" "near_slice t q skip b b' (set fs)"
    using split.IH(1) [of b] split.IH(2) [of b] by (cases "?diff < 0") (auto simp: far_def fs_def)
  have all: "set (extent s e ?o) = set ns \<union> set fs"
    using extent_append [OF split.hyps(6,7), of ?o] by (auto simp: ns_def fs_def)
  have eq: "nearest_in t i q skip best = (if ?diff * ?diff < snd b then Some b' else Some b)"
    using split.hyps(2) b(1) b'(1) by (subst nearest_in.simps) (simp add: Let_def near_def far_def)
  show ?case
  proof (cases "?diff * ?diff < snd b")
    case True
    then show ?thesis using eq near_slice_trans [OF b(2) b'(2)] all by simp
  next
    case False
    have "snd b \<le> dist2 t q p" if c: "finite_cloud t q" "\<not> is_nan (snd b)" "p \<in> set fs" for p
    proof -
      have d: "?diff * ?diff \<le> dist2 t q p"
        using split_sides [OF split.hyps(6,7) c(1) split.hyps(5,10,11,12)] c(3) by (simp add: fs_def)
      then have "snd b \<le> ?diff * ?diff" using False c(2) by (auto simp: f64_order)
      from f64_le_trans [OF this d] show ?thesis .
    qed
    then have "near_slice t q skip b b (set fs)" by (simp add: near_slice_def f64_order)
    from near_slice_trans [OF b(2) this] False eq all show ?thesis by simp
  qed
qed

lemma within_in_ok:
  assumes "subtree t i s e"
  shows "\<exists>ys. within_in t i q r2 out = Some (out @ ys) \<and> set ys \<subseteq> set (extent s e (kd_order t)) \<and>
     (finite_cloud t q \<longrightarrow> mset ys = mset (filter (\<lambda>p. dist2 t q p \<le> r2) (extent s e (kd_order t))))"
  using assms
proof (induction arbitrary: out rule: subtree.induct)
  case (leaf i s e)
  then show ?case by (subst within_in.simps) auto
next
  case (split i axis v l r s m e)
  let ?diff = "q ! axis - v" and ?o = "kd_order t" and ?in = "filter (\<lambda>p. dist2 t q p \<le> r2)"
  define near far where "near = (if ?diff < 0 then l else r)" and "far = (if ?diff < 0 then r else l)"
  define ns fs where "ns = (if ?diff < 0 then extent s m ?o else extent m e ?o)"
    and "fs = (if ?diff < 0 then extent m e ?o else extent s m ?o)"
  obtain ys where y: "within_in t near q r2 out = Some (out @ ys)" "set ys \<subseteq> set ns"
      "finite_cloud t q \<longrightarrow> mset ys = mset (?in ns)"
    using split.IH(1) [of out] split.IH(2) [of out] by (cases "?diff < 0") (auto simp: near_def ns_def)
  obtain zs where z: "within_in t far q r2 (out @ ys) = Some ((out @ ys) @ zs)" "set zs \<subseteq> set fs"
      "finite_cloud t q \<longrightarrow> mset zs = mset (?in fs)"
    using split.IH(1) [of "out @ ys"] split.IH(2) [of "out @ ys"] by (cases "?diff < 0") (auto simp: far_def fs_def)
  have all: "mset (extent s e ?o) = mset ns + mset fs"
    using extent_append [OF split.hyps(6,7), of ?o] by (simp add: ns_def fs_def)
  then have sets: "set (extent s e ?o) = set ns \<union> set fs" by (metis set_mset_mset set_mset_union)
  have ins: "mset (?in (extent s e ?o)) = mset (?in ns) + mset (?in fs)" using all by (simp add: mset_filter)
  have eq: "within_in t i q r2 out = (if ?diff * ?diff \<le> r2 then Some (out @ ys @ zs) else Some (out @ ys))"
    using split.hyps(2) y(1) z(1) by (subst within_in.simps) (simp add: Let_def near_def far_def)
  show ?case
  proof (cases "?diff * ?diff \<le> r2")
    case True
    then have "within_in t i q r2 out = Some (out @ ys @ zs)" using eq by simp
    moreover have "set (ys @ zs) \<subseteq> set (extent s e ?o)" using y(2) z(2) sets by auto
    moreover have "finite_cloud t q \<longrightarrow> mset (ys @ zs) = mset (?in (extent s e ?o))" using y(3) z(3) ins by simp
    ultimately show ?thesis by blast
  next
    case False
    have "\<not> dist2 t q p \<le> r2" if "finite_cloud t q" "p \<in> set fs" for p
      using split_sides [OF split.hyps(6,7) that(1) split.hyps(5,10,11,12), of p] that(2) False f64_le_trans
      by (auto simp: fs_def)
    then have "finite_cloud t q \<longrightarrow> mset (?in fs) = {#}" by (simp add: filter_empty_conv)
    then have "finite_cloud t q \<longrightarrow> mset ys = mset (?in (extent s e ?o))" using y(3) ins by simp
    moreover have "within_in t i q r2 out = Some (out @ ys)" using False eq by simp
    moreover have "set ys \<subseteq> set (extent s e ?o)" using y(2) sets by blast
    ultimately show ?thesis by blast
  qed
qed

text \<open>The two searches of a built tree.\<close>

lemma nearest_excluding_ok:
  assumes "subtree t 0 0 (length (kd_order t))"
  obtains found where "nearest_excluding t q skip = Some found"
    "\<And>c. found = Some c \<Longrightarrow> c \<in> set (kd_order t) \<and> c \<noteq> skip"
    "\<And>c p. finite_cloud t q \<Longrightarrow> found = Some c \<Longrightarrow> p \<in> set (kd_order t) \<Longrightarrow> p \<noteq> skip \<Longrightarrow>
       dist2 t q c \<le> dist2 t q p"
    "\<And>p. finite_cloud t q \<Longrightarrow> usize_max \<notin> set (kd_order t) \<Longrightarrow> found = None \<Longrightarrow> p \<in> set (kd_order t) \<Longrightarrow>
       p \<noteq> skip \<Longrightarrow> f64_infinity \<le> dist2 t q p"
proof -
  obtain b where b: "nearest_in t 0 q skip (usize_max, f64_infinity) = Some b"
    "near_slice t q skip (usize_max, f64_infinity) b (set (kd_order t))"
    using nearest_in_ok [OF assms, of q skip "(usize_max, f64_infinity)"] by (auto simp: extent_full)
  have inf: "\<not> is_nan f64_infinity" by (simp add: is_nan_def f64_mag_def f64_infinity_def)
  have one: "b = (usize_max, f64_infinity) \<or> (\<exists>p\<in>set (kd_order t). p \<noteq> skip \<and> b = (p, dist2 t q p))"
    and far: "\<And>p. finite_cloud t q \<Longrightarrow> p \<in> set (kd_order t) \<Longrightarrow> p \<noteq> skip \<Longrightarrow> snd b \<le> dist2 t q p"
    using b(2) inf by (auto simp: near_slice_def)
  show ?thesis
  proof (rule that [of "if fst b \<noteq> usize_max then Some (fst b) else None"])
    show "nearest_excluding t q skip = Some (if fst b \<noteq> usize_max then Some (fst b) else None)"
      using b(1) by (simp add: nearest_excluding_def)
  qed (use one far in \<open>auto split: if_splits\<close>)
qed

lemma kd_within_ok:
  assumes "subtree t 0 0 (length (kd_order t))"
  obtains ps where "kd_within t q r2 = Some ps" "set ps \<subseteq> set (kd_order t)"
    "finite_cloud t q \<Longrightarrow> mset ps = mset (filter (\<lambda>p. dist2 t q p \<le> r2) (kd_order t))"
  using within_in_ok [OF assms, of q r2 "[]"] that by (auto simp: kd_within_def extent_full)

end
