(* ===== verification/Projected_Facts.thy ===== *)
theory Projected_Facts
  imports Kd_Tree Algebra_Results
begin

text \<open>
  The projected search against the brute-force one: it always returns and answers in the right
  shape, whatever the projection is, and where the projection keeps the bound that the code
  relies on it gives the same answer.
\<close>

section \<open>The first best of a list\<close>

text \<open>The loop that both searches run: the first index of the largest similarity.\<close>

definition pick :: "(nat \<Rightarrow> bool) \<Rightarrow> (nat \<Rightarrow> f64) \<Rightarrow> nat \<times> f64 \<Rightarrow> nat \<Rightarrow> nat \<times> f64" where
  "pick skip s best j = (if \<not> skip j \<and> snd best < s j then (j, s j) else best)"

lemma better_pair_pick:
  "better_pair locations norms i = pick (\<lambda>j. i = j \<or> norms ! j < tiny) (sim locations norms i)"
  by (simp add: fun_eq_iff better_pair_def pick_def Let_def)

lemma pick_stays: "\<forall>j\<in>set js. skip j \<or> \<not> snd b < s j \<Longrightarrow> foldl (pick skip s) b js = b"
  by (induction js) (auto simp: pick_def)

lemma pick_range:
  "foldl (pick skip s) b js = b \<or>
   (\<exists>j\<in>set js. \<not> skip j \<and> foldl (pick skip s) b js = (j, s j) \<and> snd b < s j)"
proof (induction js rule: rev_induct)
  case (snoc j js)
  then show ?case by (auto simp: pick_def dest: f64_less_trans)
qed simp

lemma pick_not_nan: "\<not> is_nan (snd b) \<Longrightarrow> \<not> is_nan (snd (foldl (pick skip s) b js))"
  using pick_range [of skip s b js] by (metis f64_less_nan(2) snd_conv)

lemma pick_max:
  assumes "\<not> is_nan (snd b)" "j \<in> set js" "\<not> skip j"
  shows "\<not> snd (foldl (pick skip s) b js) < s j"
  using assms(2)
proof (induction js rule: rev_induct)
  case (snoc k js)
  let ?b = "foldl (pick skip s) b js"
  have "\<not> is_nan (snd ?b)" by (rule pick_not_nan [OF assms(1)])
  show ?case
  proof (cases "j = k")
    case True
    then show ?thesis using assms(3) by (simp add: pick_def [of skip s ?b k])
  next
    case False
    then have "\<not> snd ?b < s j" using snoc by simp
    then show ?thesis using f64_less_trans [of "snd ?b" "s k" "s j"] by (auto simp: pick_def [of skip s ?b k])
  qed
qed simp

text \<open>The winner of a scan beats what comes before it strictly, and is not beaten after it.\<close>

lemma pick_winner:
  assumes "foldl (pick skip s) b [0..<n] = (j, x)" "(j, x) \<noteq> b" "\<not> is_nan (snd b)"
  shows "j < n" "\<not> skip j" "x = s j" "snd b < s j"
    "\<And>k. k < j \<Longrightarrow> \<not> skip k \<Longrightarrow> \<not> s j \<le> s k" "\<And>k. k < n \<Longrightarrow> \<not> skip k \<Longrightarrow> \<not> s j < s k"
proof -
  show j: "j < n" "\<not> skip j" "x = s j" "snd b < s j"
    using pick_range [of skip s b "[0..<n]"] assms(1,2) by auto
  show "\<not> s j < s k" if "k < n" "\<not> skip k" for k
    using pick_max [OF assms(3), of k "[0..<n]" skip s] that assms(1) j(3) by simp
  show "\<not> s j \<le> s k" if k: "k < j" "\<not> skip k" for k
  proof
    assume le: "s j \<le> s k"
    let ?b = "foldl (pick skip s) b [0..<j]"
    have app: "foldl (pick skip s) b [0..<n] = foldl (pick skip s) (pick skip s ?b j) [Suc j..<n]"
      using j(1) upt_conv_Cons [of j n] upt_add_eq_append [of 0 j "n - j"] by simp
    have "\<not> snd ?b < s k" by (rule pick_max [OF assms(3)]) (use k in simp_all)
    moreover have nb: "\<not> is_nan (snd ?b)" by (rule pick_not_nan [OF assms(3)])
    ultimately have "s j \<le> snd ?b" using le f64_not_less [of "snd ?b" "s k"] by (auto simp: f64_order)
    then have "pick skip s ?b j = ?b" by (auto simp: pick_def [of skip s ?b j] f64_order)
    then have "foldl (pick skip s) ?b [Suc j..<n] = (j, s j)" using app assms(1) j(3) by simp
    then show False using pick_range [of skip s ?b "[Suc j..<n]"] pick_range [of skip s b "[0..<j]"] assms(2) j(3) by auto
  qed
qed

lemma pick_first:
  assumes "sorted_wrt (<) ys" "j \<in> set ys" "\<not> skip j" "snd b < s j"
    and "\<And>k. k \<in> set ys \<Longrightarrow> k < j \<Longrightarrow> \<not> skip k \<Longrightarrow> \<not> s j \<le> s k"
    and "\<And>k. k \<in> set ys \<Longrightarrow> \<not> skip k \<Longrightarrow> \<not> s j < s k"
  shows "foldl (pick skip s) b ys = (j, s j)"
proof -
  obtain pre post where ys: "ys = pre @ j # post" using split_list [OF assms(2)] by blast
  let ?b = "foldl (pick skip s) b pre"
  have "k < j" if "k \<in> set pre" for k using assms(1) that by (simp add: ys sorted_wrt_append)
  then have "snd ?b < s j"
    using pick_range [of skip s b pre] assms(4) assms(5) [of "fst ?b"] by (auto simp: ys f64_order)
  then have "pick skip s ?b j = (j, s j)" using assms(3) by (simp add: pick_def [of skip s ?b j])
  moreover have "foldl (pick skip s) (j, s j) post = (j, s j)"
    by (rule pick_stays) (use assms(6) in \<open>auto simp: ys\<close>)
  ultimately show ?thesis by (simp add: ys)
qed

section \<open>Usable locations\<close>

lemma usable_sorted: "sorted_wrt (<) (usable locations norms)"
  by (simp add: usable_def sorted_wrt_filter)

lemma usable_iff: "i \<in> set (usable locations norms) \<longleftrightarrow> i < length locations \<and> tiny \<le> norms ! i"
  by (auto simp: usable_def)

lemma brute_one_eq:
  "tiny \<le> norms ! i \<Longrightarrow> brute_one locations norms i =
     (let best = foldl (pick (\<lambda>j. i = j \<or> norms ! j < tiny) (sim locations norms i)) (usize_max, f64_neg_infinity)
        [0..<length locations] in if fst best \<noteq> usize_max then Some best else None)"
  by (simp add: brute_one_def better_pair_pick Let_def f64_order)

lemma brute_one_unusable:
  assumes "i < length locations" "i \<notin> set (usable locations norms)"
  shows "brute_one locations norms i = None"
proof (cases "is_nan (norms ! i)")
  case True
  then show ?thesis by (simp add: brute_one_def better_pair_nan)
next
  case False
  then show ?thesis
    using assms f64_not_less [of "norms ! i" tiny] tiny_not_nan by (auto simp: brute_one_def usable_iff)
qed

lemma brute_one_other:
  assumes "brute_one locations norms i = Some (j, s)"
  shows "j < length locations" "j \<noteq> i"
  using assms pick_range [of "\<lambda>j. i = j \<or> norms ! j < tiny" "sim locations norms i" "(usize_max, f64_neg_infinity)"
      "[0..<length locations]"]
  by (auto simp: brute_one_def better_pair_pick Let_def split: if_splits)

section \<open>Answers in order\<close>

text \<open>The answers put in their places.\<close>

lemma placed:
  assumes "length found = length valid" "distinct valid" "\<forall>i\<in>set valid. i < n"
  shows "length (foldl (\<lambda>out (i, nn). out[i := nn]) (replicate n None) (zip valid found)) = n"
    "a < length valid \<Longrightarrow> foldl (\<lambda>out (i, nn). out[i := nn]) (replicate n None) (zip valid found) ! (valid ! a) = found ! a"
    "i < n \<Longrightarrow> i \<notin> set valid \<Longrightarrow> foldl (\<lambda>out (i, nn). out[i := nn]) (replicate n None) (zip valid found) ! i = None"
proof -
  have gen: "length (foldl (\<lambda>out (i, nn). out[i := nn]) out (zip is nns)) = length out \<and>
      (\<forall>i<length out. i \<notin> set is \<longrightarrow> foldl (\<lambda>out (i, nn). out[i := nn]) out (zip is nns) ! i = out ! i) \<and>
      (\<forall>a<length is. foldl (\<lambda>out (i, nn). out[i := nn]) out (zip is nns) ! (is ! a) = nns ! a)"
    if "length nns = length is" "distinct is" "\<forall>i\<in>set is. i < length out" for out and nns :: "'a option list" and "is"
    using that
  proof (induction nns "is" arbitrary: out rule: list_induct2)
    case (Cons x xs y ys)
    have "foldl (\<lambda>out (i, nn). out[i := nn]) (out[y := x]) (zip ys xs) ! y = x"
      using Cons.IH [of "out[y := x]"] Cons.prems by simp
    then show ?case using Cons.IH [of "out[y := x]"] Cons.prems by (auto simp: nth_Cons split: nat.split)
  qed simp
  show "length (foldl (\<lambda>out (i, nn). out[i := nn]) (replicate n None) (zip valid found)) = n"
    "a < length valid \<Longrightarrow> foldl (\<lambda>out (i, nn). out[i := nn]) (replicate n None) (zip valid found) ! (valid ! a) = found ! a"
    "i < n \<Longrightarrow> i \<notin> set valid \<Longrightarrow> foldl (\<lambda>out (i, nn). out[i := nn]) (replicate n None) (zip valid found) ! i = None"
    using gen [OF assms(1,2), of "replicate n None"] assms(3) by simp_all
qed

lemma those_map_Some: "(\<And>x. x \<in> set xs \<Longrightarrow> f x = Some (g x)) \<Longrightarrow> those (map f xs) = Some (map g xs)"
  by (induction xs) simp_all

text \<open>A tree over the usable locations.\<close>

definition tree_over :: "KdTree \<Rightarrow> nat \<Rightarrow> bool" where
  "tree_over t m \<longleftrightarrow> subtree t 0 0 (length (kd_order t)) \<and> mset (kd_order t) = mset [0..<m]"

lemma tree_over_build: "select_ok E \<Longrightarrow> 0 < k \<Longrightarrow> length points = m * k \<Longrightarrow> tree_over (kd_build E points k) m"
  using kd_build_ok [of E k m points] by (simp add: tree_over_def)

lemma tree_over_set: "tree_over t m \<Longrightarrow> set (kd_order t) = {..<m}"
  unfolding tree_over_def by (metis atLeast_upt set_mset_mset)

lemma candidates_pick:
  assumes "distinct valid" "a < length valid" "\<forall>b\<in>set bs. b < length valid"
  shows "foldl (candidate locations norms valid a) best bs =
     foldl (pick (\<lambda>j. valid ! a = j) (sim locations norms (valid ! a))) best (map ((!) valid) bs)"
  using assms(3)
proof (induction bs arbitrary: best)
  case (Cons b bs)
  then have "(b = a) = (valid ! a = valid ! b)" using assms(1,2) nth_eq_iff_index_eq [of valid a b] by auto
  then show ?case using Cons by (simp add: candidate_def pick_def Let_def)
qed simp

lemma search_point_returns:
  assumes "tree_over t (length valid)" "valid = usable locations norms" "a < length valid"
  obtains r where "search_point t locations norms valid a = Some r"
    "\<And>j s. r = Some (j, s) \<Longrightarrow> j < length locations \<and> j \<noteq> valid ! a"
proof -
  have sub: "subtree t 0 0 (length (kd_order t))" and set: "set (kd_order t) = {..<length valid}"
    using assms(1) tree_over_set by (auto simp: tree_over_def)
  obtain found where f: "nearest_excluding t (kd_row t a) a = Some found" by (rule nearest_excluding_ok [OF sub])
  show thesis
  proof (cases found)
    case None
    show thesis
      by (rule that [of "brute_one locations norms (valid ! a)"])
        (use f None brute_one_other in \<open>auto simp: search_point_def Let_def\<close>)
  next
    case (Some c)
    let ?bound = "sim locations norms (valid ! a) (valid ! c)"
    obtain ps where ps: "kd_within t (kd_row t a) (radius2 ?bound) = Some ps" "set ps \<subseteq> set (kd_order t)"
      by (rule kd_within_ok [OF sub])
    let ?best = "foldl (candidate locations norms valid a) (usize_max, f64_neg_infinity) (sort ps)"
    have "distinct valid" using usable_sorted [of locations norms] strict_sorted_iff assms(2) by blast
    then have best: "?best = foldl (pick (\<lambda>j. valid ! a = j) (sim locations norms (valid ! a)))
        (usize_max, f64_neg_infinity) (map ((!) valid) (sort ps))"
      by (rule candidates_pick [OF _ assms(3)]) (use ps set in auto)
    have range: "fst ?best < length locations \<and> fst ?best \<noteq> valid ! a" if "fst ?best \<noteq> usize_max"
    proof -
      have "valid ! b < length locations" if "b \<in> set ps" for b
        using that ps(2) set assms(2) nth_mem [of b valid] usable_iff by (fastforce simp: lessThan_iff)
      then show ?thesis using that pick_range [of "\<lambda>j. valid ! a = j" "sim locations norms (valid ! a)"
          "(usize_max, f64_neg_infinity)" "map ((!) valid) (sort ps)"] unfolding best by auto
    qed
    show thesis
      by (rule that [of "if fst ?best = usize_max \<or> snd ?best < ?bound then brute_one locations norms (valid ! a) else Some ?best"])
        (use f Some ps range brute_one_other in \<open>auto simp: search_point_def Let_def split: if_splits\<close>)
  qed
qed

lemma search_all_returns:
  assumes "tree_over t (length (usable locations norms))"
  obtains nns where "search_all t locations norms (usable locations norms) = Some nns"
    "neighbors_ok (length locations) nns"
proof -
  let ?v = "usable locations norms"
  define g where "g a = the (search_point t locations norms ?v a)" for a
  have g: "search_point t locations norms ?v a = Some (g a)"
    "\<And>j s. g a = Some (j, s) \<Longrightarrow> j < length locations \<and> j \<noteq> ?v ! a" if a: "a < length ?v" for a
    using search_point_returns [OF assms refl a] unfolding g_def by (metis option.sel)+
  have "those (map (search_point t locations norms ?v) [0..<length ?v]) = Some (map g [0..<length ?v])"
    by (rule those_map_Some) (use g in simp)
  then have r: "search_all t locations norms ?v =
      Some (foldl (\<lambda>out (i, nn). out[i := nn]) (replicate (length locations) None) (zip ?v (map g [0..<length ?v])))"
    by (simp add: search_all_def)
  have d: "distinct ?v" "\<forall>i\<in>set ?v. i < length locations"
    using usable_sorted [of locations norms] strict_sorted_iff usable_iff by blast+
  note p = placed [of "map g [0..<length ?v]" ?v "length locations", OF _ d]
  show thesis
  proof (rule that [OF r])
    show "neighbors_ok (length locations)
        (foldl (\<lambda>out (i, nn). out[i := nn]) (replicate (length locations) None) (zip ?v (map g [0..<length ?v])))"
      unfolding neighbors_ok_def
    proof (intro conjI allI impI)
      show "length (foldl (\<lambda>out (i, nn). out[i := nn]) (replicate (length locations) None)
          (zip ?v (map g [0..<length ?v]))) = length locations" by (rule p(1)) simp
      fix i j s
      assume i: "i < length locations" "foldl (\<lambda>out (i, nn). out[i := nn]) (replicate (length locations) None)
          (zip ?v (map g [0..<length ?v])) ! i = Some (j, s)"
      then have "i \<in> set ?v" using p(3) [of i] by fastforce
      then obtain a where a: "a < length ?v" "i = ?v ! a" by (auto simp: in_set_conv_nth)
      then have "g a = Some (j, s)" using i(2) p(2) [of a] by simp
      with g(2) [OF a(1)] a show "j < length locations" "j \<noteq> i" by blast+
    qed
  qed
qed

section \<open>Shapes of the projection\<close>

lemma length_rows [simp]: "length (rows d xs) = length xs div d"
  by (simp add: rows_def)

lemma rows_lengths: "r \<in> set (rows d xs) \<Longrightarrow> length r = d"
proof -
  assume "r \<in> set (rows d xs)"
  then obtain i where i: "i < length xs div d" "r = take d (drop (i * d) xs)" by (auto simp: rows_def)
  then have "(i + 1) * d \<le> length xs" using less_eq_div_iff_mult_less_eq [of d "i + 1" "length xs"] by (cases "d = 0") auto
  with i show ?thesis by simp
qed

lemma length_project_out [simp]: "length (project_out v prev) = length v"
  by (simp add: project_out_def Let_def)

lemma length_foldl_project [simp]: "length (foldl project_out v ps) = length v"
  by (induction ps arbitrary: v) simp_all

lemma gram_schmidt_rows: "d dvd length (gram_schmidt d xs)"
proof -
  have "d dvd length (foldl (keep_direction d) out rs)" if "d dvd length out" "\<forall>r\<in>set rs. length r = d" for out rs
    using that by (induction rs arbitrary: out) (simp_all add: keep_direction_def Let_def)
  then show ?thesis unfolding gram_schmidt_def using rows_lengths by (metis dvd_0_right list.size(3))
qed

lemma subspace_rows: "d dvd length q \<Longrightarrow> d dvd length (subspace_loop E points d n q)"
  by (induction n arbitrary: q) (simp_all add: Let_def orthonormalize_def gram_schmidt_rows)

lemma basis_rows: "d dvd length (principal_directions E points d k)"
  unfolding principal_directions_def orthonormalize_def by (intro subspace_rows gram_schmidt_rows)

lemma length_column_mean:
  assumes "rayon_ok E"
  shows "length (column_mean E points d) = d"
  using assms by (simp add: column_mean_def Let_def rayon_ok_def)

lemma length_project_onto: "length (project_onto points d basis) = length points div d * (length basis div d)"
  unfolding project_onto_def by (subst length_concat_rows [of _ "length basis div d"]) auto

lemma length_centred:
  assumes "rayon_ok E" "\<forall>l\<in>set locations. length (loc_address l) = d" "0 < d"
  shows "length (centred E locations norms d) = length (usable locations norms) * d"
proof -
  let ?flat = "concat (map (\<lambda>i. map (\<lambda>x. x / norms ! i) (loc_address (locations ! i))) (usable locations norms))"
  have "length ?flat = length (usable locations norms) * d"
    by (subst length_concat_rows [of _ d]) (use assms(2) usable_iff in auto)
  moreover have "length (concat (map (\<lambda>row. map2 (-) row (column_mean E ?flat d)) (rows d ?flat))) = length ?flat div d * d"
    by (subst length_concat_rows [of _ d]) (auto simp: length_column_mean [OF assms(1)] rows_lengths)
  ultimately show ?thesis using assms(3) by (simp add: centred_def Let_def)
qed

lemma projection_shape:
  assumes "projection E locations norms d = (points, proj, k)" "rayon_ok E"
    and "\<forall>l\<in>set locations. length (loc_address l) = d" "0 < d"
  shows "length proj = length (usable locations norms) * k"
  using assms(1) length_centred [OF assms(2-4), of norms] assms(4)
  by (auto simp: projection_def Let_def length_project_onto)

lemma three_guards:
  "(if a then x else if b then x else if c then x else y) \<noteq> x \<Longrightarrow> \<not> a \<and> \<not> b \<and> \<not> c"
  by (simp split: if_splits)

text \<open>What the search is asked for when it is asked at all.\<close>

lemma projected_with_cases:
  assumes "rayon_ok E"
  obtains "projected_with E locations norms mc mp = Some None"
    | points proj k where "projection E locations norms (length (loc_address (hd locations))) = (points, proj, k)"
        "0 < k" "length proj = length (usable locations norms) * k"
        "projected_with E locations norms mc mp =
           map_option Some (search_all (kd_build E proj k) locations norms (usable locations norms))"
proof (cases "projected_with E locations norms mc mp = Some None")
  case False
  then obtain first rest where ls: "locations = first # rest" by (cases locations) (auto simp: projected_with_def)
  define d where "d = length (loc_address first)"
  obtain points proj k where p: "projection E locations norms d = (points, proj, k)" by (metis prod_cases3)
  let ?bad = "length (usable locations norms) < max mp 2 \<or> d < 32 \<or>
      list_ex (\<lambda>l. length (loc_address l) \<noteq> d \<or> list_ex (\<lambda>x. \<not> is_finite x) (loc_address l)) locations"
  let ?total = "pj_sum E (map (\<lambda>x. x * x) points)" and ?kept = "pj_sum E (map (\<lambda>x. x * x) proj)"
  have eq: "projected_with E locations norms mc mp =
     (if ?bad then Some None else if k = 0 then Some None
      else if ?total \<le> 0 \<or> ?kept / ?total < mc then Some None
      else map_option Some (search_all (kd_build E proj k) locations norms (usable locations norms)))"
    unfolding projected_with_def ls list.case d_def [symmetric] Let_def p [unfolded ls] prod.case ..
  have good: "\<not> ?bad" "k \<noteq> 0" "\<not> (?total \<le> 0 \<or> ?kept / ?total < mc)"
    using three_guards [OF False [unfolded eq]] by blast+
  from good(1,2) have r: "32 \<le> d" "\<forall>l\<in>set locations. length (loc_address l) = d" "0 < k"
    by (auto simp: list_ex_iff)
  have run: "projected_with E locations norms mc mp =
      map_option Some (search_all (kd_build E proj k) locations norms (usable locations norms))"
    unfolding eq by (rule trans [OF if_not_P [OF good(1)] trans [OF if_not_P [OF good(2)] if_not_P [OF good(3)]]])
  have shape: "length proj = length (usable locations norms) * k"
    by (rule projection_shape [OF p assms r(2)]) (use r(1) in simp)
  have "length (loc_address (hd locations)) = d" unfolding ls d_def by simp
  then have "projection E locations norms (length (loc_address (hd locations))) = (points, proj, k)" using p by (simp only:)
  from that(2) [OF this r(3) shape run] show ?thesis .
qed (rule that(1))

lemma nan_absorbs_right: "is_nan y \<Longrightarrow> is_nan (x * y)"
proof -
  have "is_nan (f64_of_int (nan_bits fmt64))" by code_simp
  then show "is_nan y \<Longrightarrow> is_nan (x * y)" by (cases "f64_unpack x") (simp_all add: is_nan_unpack times_f64_def)
qed

section \<open>Agreement with the brute-force search\<close>

text \<open>What the code relies on: in the projection, the nearest neighbour of a point is no farther
  than the bound that the similarity to any other point gives.\<close>

definition keeps_bound :: "KdTree \<Rightarrow> HardLocation list \<Rightarrow> f64 list \<Rightarrow> nat list \<Rightarrow> bool" where
  "keeps_bound t locations norms valid \<longleftrightarrow>
     (\<forall>a<length valid. \<forall>b<length valid. \<forall>c<length valid. a \<noteq> b \<longrightarrow> a \<noteq> c \<longrightarrow>
        (let s = sim locations norms (valid ! a) in
         \<not> is_nan (s (valid ! c)) \<and>
         (s (valid ! c) \<le> s (valid ! b) \<longrightarrow> dist2 t (kd_row t a) b \<le> radius2 (s (valid ! c)))))"

lemma keeps_boundD:
  assumes "keeps_bound t locations norms valid" "a < length valid" "c < length valid" "a \<noteq> c"
  shows "\<not> is_nan (sim locations norms (valid ! a) (valid ! c))"
    and "b < length valid \<Longrightarrow> a \<noteq> b \<Longrightarrow> sim locations norms (valid ! a) (valid ! c) \<le> sim locations norms (valid ! a) (valid ! b) \<Longrightarrow>
      dist2 t (kd_row t a) b \<le> radius2 (sim locations norms (valid ! a) (valid ! c))"
  using assms by (auto simp: keeps_bound_def Let_def)

lemma usable_winner:
  assumes "brute_one locations norms i = Some (j, s)"
  obtains b where "b < length (usable locations norms)" "j = usable locations norms ! b"
proof -
  have r: "j < length locations" "\<not> norms ! j < tiny" "\<not> is_nan (sim locations norms i j)"
    using assms pick_range [of "\<lambda>j. i = j \<or> norms ! j < tiny" "sim locations norms i" "(usize_max, f64_neg_infinity)"
      "[0..<length locations]"] by (auto simp: brute_one_def better_pair_pick Let_def split: if_splits)
  have "\<not> is_nan (norms ! j)"
  proof
    assume "is_nan (norms ! j)"
    then have "is_nan (norms ! i * norms ! j)" by (rule nan_absorbs_right)
    then show False using r(3) by (simp add: sim_def nan_absorbs(2))
  qed
  then have "j \<in> set (usable locations norms)" using r f64_not_less tiny_not_nan by (simp add: usable_iff)
  then show ?thesis using that by (auto simp: in_set_conv_nth)
qed

lemma search_point_exact:
  assumes t: "tree_over t (length valid)" and v: "valid = usable locations norms" and a: "a < length valid"
    and fin: "finite_cloud t (kd_row t a)" and keeps: "keeps_bound t locations norms valid"
    and n: "length locations \<le> usize_max"
  shows "search_point t locations norms valid a = Some (brute_one locations norms (valid ! a))"
proof -
  have sub: "subtree t 0 0 (length (kd_order t))" and set: "set (kd_order t) = {..<length valid}"
    using t tree_over_set by (auto simp: tree_over_def)
  let ?i = "valid ! a" and ?s = "sim locations norms (valid ! a)" and ?init = "(usize_max, f64_neg_infinity)"
  let ?skip = "\<lambda>j. ?i = j \<or> norms ! j < tiny"
  let ?full = "foldl (pick ?skip ?s) ?init [0..<length locations]"
  have inf: "\<not> is_nan (snd ?init)" by (simp add: is_nan_def f64_mag_def f64_neg_infinity_def)
  have i: "tiny \<le> norms ! ?i" "?i < length locations" using a v nth_mem [OF a] usable_iff by blast+
  have dist: "distinct valid" "sorted_wrt (<) valid" using usable_sorted strict_sorted_iff v by blast+
  have use: "valid ! b < length locations" "\<not> norms ! (valid ! b) < tiny" if "b < length valid" for b
    using that v nth_mem [OF that] usable_iff by (auto simp: f64_order)
  have brute: "brute_one locations norms ?i = (if fst ?full \<noteq> usize_max then Some ?full else None)"
    using brute_one_eq [OF i(1)] by (simp add: Let_def)
  obtain found where f: "nearest_excluding t (kd_row t a) a = Some found"
    "\<And>c. found = Some c \<Longrightarrow> c \<in> set (kd_order t) \<and> c \<noteq> a"
    using nearest_excluding_ok [OF sub, where q = "kd_row t a" and skip = a] by metis
  show ?thesis
  proof (cases found)
    case None
    then show ?thesis using f(1) by (simp add: search_point_def Let_def)
  next
    case (Some c)
    then have c: "c < length valid" "a \<noteq> c" using f(2) set by auto
    let ?bound = "?s (valid ! c)"
    obtain ps where ps: "kd_within t (kd_row t a) (radius2 ?bound) = Some ps" "set ps \<subseteq> set (kd_order t)"
      "finite_cloud t (kd_row t a) \<Longrightarrow> mset ps = mset (filter (\<lambda>p. dist2 t (kd_row t a) p \<le> radius2 ?bound) (kd_order t))"
      using kd_within_ok [OF sub, where q = "kd_row t a" and ?r2.0 = "radius2 ?bound"] by metis
    have mem: "p \<in> set ps \<longleftrightarrow> p < length valid \<and> dist2 t (kd_row t a) p \<le> radius2 ?bound" for p
      using mset_eq_setD [OF ps(3) [OF fin]] set by auto
    have "sorted_wrt (<) (sort ps)"
    proof -
      have "distinct (kd_order t)" using t by (metis distinct_upt mset_eq_imp_distinct_iff tree_over_def)
      then have "distinct ps" using mset_eq_imp_distinct_iff [OF ps(3) [OF fin]] by simp
      then show ?thesis by (simp add: strict_sorted_iff)
    qed
    then have sorted: "sorted_wrt (<) (map ((!) valid) (sort ps))"
      using dist(2) mem by (auto simp: sorted_wrt_map sorted_wrt_iff_nth_less [of _ valid] intro: sorted_wrt_mono_rel [rotated])
    define best where "best = foldl (candidate locations norms valid a) ?init (sort ps)"
    have best: "best = foldl (pick (\<lambda>j. ?i = j) ?s) ?init (map ((!) valid) (sort ps))"
      unfolding best_def by (rule candidates_pick [OF dist(1) a]) (use mem in auto)
    have point: "search_point t locations norms valid a =
        Some (if fst best = usize_max \<or> snd best < ?bound then brute_one locations norms ?i else Some best)"
      using f(1) Some ps(1) by (simp add: search_point_def Let_def best_def)
    show ?thesis
    proof (cases "fst ?full = usize_max")
      case True
      have "?full = ?init"
        using pick_range [of ?skip ?s ?init "[0..<length locations]"] True n by auto
      then have "\<not> f64_neg_infinity < ?s j" if "j < length locations" "\<not> ?skip j" for j
        using pick_max [OF inf, of j "[0..<length locations]" ?skip ?s] that by simp
      then have "best = ?init"
        unfolding best by (intro pick_stays) (use mem use in auto)
      then show ?thesis by (simp add: point brute True)
    next
      case False
      obtain j x where full: "?full = (j, x)" by force
      have ne: "(j, x) \<noteq> ?init" using False full by auto
      note w = pick_winner [OF full ne inf]
      have win: "brute_one locations norms ?i = Some (j, x)" using brute full False by simp
      obtain b where b: "b < length valid" "j = valid ! b" using usable_winner [OF win] v by blast
      have ab: "a \<noteq> b" using w(2) b(2) by auto
      have s: "\<not> is_nan (?s j)" using w(4) by (auto simp: less_f64_def)
      have "?bound \<le> ?s j"
        using w(6) [of "valid ! c"] use [OF c(1)] c dist(1) a keeps_boundD(1) [OF keeps a c(1,2)] s
          nth_eq_iff_index_eq [OF dist(1) a c(1)] by (auto simp: f64_not_less)
      moreover from this have "b \<in> set ps"
        using mem b keeps_boundD(2) [OF keeps a c b(1) ab] by simp
      then have "best = (j, ?s j)"
        unfolding best by (intro pick_first [OF sorted]) (use w b mem use in auto)
      ultimately show ?thesis
        using win w(1,3) n by (auto simp: point f64_order)
    qed
  qed
qed

lemma finite_cloud_build:
  assumes "select_ok E" "0 < k" "length points = m * k" "\<forall>x\<in>set points. is_finite x"
    and "length q = k" "\<forall>x\<in>set q. is_finite x"
  shows "finite_cloud (kd_build E points k) q"
proof -
  note t = kd_build_ok [OF assms(1,2), of m points]
  have "length (kd_row (kd_build E points k) p) = k \<and> (\<forall>x\<in>set (kd_row (kd_build E points k) p). is_finite x)"
    if "p \<in> set (kd_order (kd_build E points k))" for p
  proof -
    have "p < m" using that mset_eq_setD [OF t(2)] assms(2,3) by auto
    then have "(p + 1) * k \<le> length points" using mult_le_mono1 [of "p + 1" m k] by (simp add: assms(3))
    moreover have "set (kd_row (kd_build E points k) p) \<subseteq> set points"
      unfolding kd_row_def using t(4) assms(2,3) by (metis nonzero_mult_div_cancel_right not_gr0 set_drop_subset set_take_subset subset_trans)
    ultimately show ?thesis using t(4,5) assms(2-4) by (auto simp: kd_row_def)
  qed
  then show ?thesis using assms t(5) by (simp add: finite_cloud_def)
qed

lemma kd_row_set:
  assumes "select_ok E" "0 < k" "length points = m * k" "p < m"
  shows "length (kd_row (kd_build E points k) p) = k" "set (kd_row (kd_build E points k) p) \<subseteq> set points"
proof -
  note t = kd_build_ok [OF assms(1,2), of m points]
  have "(p + 1) * k \<le> length points" using mult_le_mono1 [of "p + 1" m k] assms(4) by (simp add: assms(3))
  then show "length (kd_row (kd_build E points k) p) = k" using t(4,5) assms(2,3) by (simp add: kd_row_def)
  show "set (kd_row (kd_build E points k) p) \<subseteq> set points"
    using t(4,5) assms(2,3) by (auto simp: kd_row_def dest!: in_set_takeD in_set_dropD)
qed

lemma search_all_exact:
  assumes "select_ok E" "0 < k" "length proj = length (usable locations norms) * k" "\<forall>x\<in>set proj. is_finite x"
    and "keeps_bound (kd_build E proj k) locations norms (usable locations norms)"
    and "length locations \<le> usize_max"
  shows "search_all (kd_build E proj k) locations norms (usable locations norms) = Some (brute locations norms)"
proof -
  let ?v = "usable locations norms" and ?t = "kd_build E proj k"
  have t: "tree_over ?t (length ?v)" by (rule tree_over_build [OF assms(1-3)])
  have "search_point ?t locations norms ?v a = Some (brute_one locations norms (?v ! a))" if a: "a < length ?v" for a
  proof (rule search_point_exact [OF t refl a _ assms(5,6)])
    show "finite_cloud ?t (kd_row ?t a)"
      using kd_row_set [OF assms(1-3) a] assms(4) by (intro finite_cloud_build [OF assms(1-4)]) auto
  qed
  then have "those (map (search_point ?t locations norms ?v) [0..<length ?v]) =
      Some (map (\<lambda>a. brute_one locations norms (?v ! a)) [0..<length ?v])"
    by (intro those_map_Some) simp
  moreover have "foldl (\<lambda>out (i, nn). out[i := nn]) (replicate (length locations) None)
      (zip ?v (map (\<lambda>a. brute_one locations norms (?v ! a)) [0..<length ?v])) = brute locations norms"
  proof (rule nth_equalityI)
    let ?found = "map (\<lambda>a. brute_one locations norms (?v ! a)) [0..<length ?v]"
    have d: "distinct ?v" "\<forall>i\<in>set ?v. i < length locations"
      using usable_sorted [of locations norms] strict_sorted_iff usable_iff by blast+
    note p = placed [of ?found ?v "length locations", OF _ d]
    show "length (foldl (\<lambda>out (i, nn). out[i := nn]) (replicate (length locations) None) (zip ?v ?found)) =
        length (brute locations norms)" using p(1) by (simp add: brute_brute_one)
    fix i
    assume "i < length (foldl (\<lambda>out (i, nn). out[i := nn]) (replicate (length locations) None) (zip ?v ?found))"
    then have i: "i < length locations" using p(1) by simp
    show "foldl (\<lambda>out (i, nn). out[i := nn]) (replicate (length locations) None) (zip ?v ?found) ! i =
        brute locations norms ! i"
    proof (cases "i \<in> set ?v")
      case True
      then obtain a where "a < length ?v" "i = ?v ! a" by (auto simp: in_set_conv_nth)
      then show ?thesis using p(2) [of a] i by (simp add: brute_brute_one)
    next
      case False
      then show ?thesis using p(3) [OF _ i False] i brute_one_unusable [OF i False] by (simp add: brute_brute_one)
    qed
  qed
  ultimately show ?thesis by (simp add: search_all_def)
qed

text \<open>So the merge sees the same neighbours with the projection as without.\<close>

lemma nearest_neighbors_exact:
  assumes "select_ok E" "rayon_ok E" "length locations \<le> usize_max"
    and "\<And>points proj k. projection E locations norms (length (loc_address (hd locations))) = (points, proj, k) \<Longrightarrow>
      (\<forall>x\<in>set proj. is_finite x) \<and> keeps_bound (kd_build E proj k) locations norms (usable locations norms)"
  shows "nearest_neighbors (projected_search E) locations norms = brute locations norms"
proof (cases rule: projected_with_cases [OF assms(2), of locations norms "f64_dec 5 1" 3000])
  case 1
  then show ?thesis by (simp add: nearest_neighbors_def projected_search_def)
next
  case (2 points proj k)
  then show ?thesis
    using search_all_exact [OF assms(1) 2(2,3)] assms(3) assms(4) [OF 2(1)]
    by (simp add: nearest_neighbors_def projected_search_def)
qed

lemma projected_with_answers:
  assumes "select_ok E" "rayon_ok E"
  shows "\<exists>r. projected_with E locations norms mc mp = Some r \<and>
     (case r of Some nns \<Rightarrow> neighbors_ok (length locations) nns | None \<Rightarrow> True)"
proof (cases rule: projected_with_cases [OF assms(2), of locations norms mc mp])
  case (2 points proj k)
  obtain nns where "search_all (kd_build E proj k) locations norms (usable locations norms) = Some nns"
    "neighbors_ok (length locations) nns"
    by (rule search_all_returns [OF tree_over_build [OF assms(1) 2(2,3)]])
  then show ?thesis by (simp add: 2(4))
qed simp

section \<open>An environment\<close>

definition sequential :: projection_env where
  "sequential =
     \<lparr>pj_uniform = (\<lambda>n. replicate n 1), pj_rayon = (\<lambda>z step combine rs. combine z (foldl step z rs)),
      pj_sum = f64_sum, pj_select = (\<lambda>lt mid xs. sort_by lt xs)\<rparr>"

lemma sequential_select: "select_ok sequential"
proof -
  have "\<not> lt (sort_by lt xs ! j) (sort_by lt xs ! i)"
    if "weak_order_on lt (set xs)" "i \<le> j" "j < length xs" for lt i j and xs :: "nat list"
  proof (cases "i = j")
    case True
    have "sort_by lt xs ! j \<in> set xs" using that(3) nth_mem [of j "sort_by lt xs"] by simp
    then show ?thesis using that(1) True by (simp add: weak_order_on_def)
  next
    case False
    then show ?thesis using sorted_sort_by [OF that(1)] that(2,3) by (simp add: sorted_wrt_iff_nth_less)
  qed
  then show ?thesis using less_imp_le by (fastforce simp: select_ok_def sequential_def Let_def)
qed

lemma sequential_rayon: "rayon_ok sequential"
proof -
  have "length (foldl step acc rs) = n"
    if "length acc = n" "\<forall>acc row. length acc = n \<longrightarrow> row \<in> set rs \<longrightarrow> length (step acc row) = n"
    for step and acc :: "f64 list" and rs :: "f64 list list" and n
    using that by (induction rs arbitrary: acc) auto
  then show ?thesis by (simp add: rayon_ok_def sequential_def)
qed

section \<open>Properties\<close>

text \<open>C13: Searching the k-d tree is exact in the arithmetic the program computes with: over finite
  coordinates both searches end, the range search returns exactly the points whose computed
  squared distance is within the radius, each once, and the nearest-neighbour search a point that
  no other point is nearer than, whatever the tree pruned on the way.\<close>

theorem kd_tree_search_is_exact:
  assumes "select_ok E" "0 < k" "length points = m * k" "\<forall>x\<in>set points. is_finite x"
    and "length q = k" "\<forall>x\<in>set q. is_finite x" "m \<le> usize_max"
  shows "\<exists>ps found. kd_within (kd_build E points k) q r2 = Some ps \<and>
     sort ps = filter (\<lambda>p. dist2 (kd_build E points k) q p \<le> r2) [0..<m] \<and>
     nearest_excluding (kd_build E points k) q skip = Some found \<and>
     (case found of
        Some c \<Rightarrow> c < m \<and> c \<noteq> skip \<and>
          (\<forall>p<m. p \<noteq> skip \<longrightarrow> dist2 (kd_build E points k) q c \<le> dist2 (kd_build E points k) q p)
      | None \<Rightarrow> \<forall>p<m. p \<noteq> skip \<longrightarrow> f64_infinity \<le> dist2 (kd_build E points k) q p)"
proof -
  let ?t = "kd_build E points k"
  have t: "subtree ?t 0 0 (length (kd_order ?t))" "set (kd_order ?t) = {..<m}" "mset (kd_order ?t) = mset [0..<m]"
    using tree_over_build [OF assms(1-3)] tree_over_set by (auto simp: tree_over_def)
  have fin: "finite_cloud ?t q" by (rule finite_cloud_build [OF assms(1-6)])
  obtain ps where ps: "kd_within ?t q r2 = Some ps"
    "mset ps = mset (filter (\<lambda>p. dist2 ?t q p \<le> r2) (kd_order ?t))"
    using kd_within_ok [OF t(1), where q = q and ?r2.0 = r2] fin by metis
  have "mset ps = mset (filter (\<lambda>p. dist2 ?t q p \<le> r2) [0..<m])"
    using ps(2) t(3) by (metis mset_filter)
  then have "sort ps = filter (\<lambda>p. dist2 ?t q p \<le> r2) [0..<m]"
    by (intro properties_for_sort) (simp_all add: sorted_wrt_filter)
  moreover obtain found where "nearest_excluding ?t q skip = Some found"
    "case found of Some c \<Rightarrow> c < m \<and> c \<noteq> skip \<and> (\<forall>p<m. p \<noteq> skip \<longrightarrow> dist2 ?t q c \<le> dist2 ?t q p)
       | None \<Rightarrow> \<forall>p<m. p \<noteq> skip \<longrightarrow> f64_infinity \<le> dist2 ?t q p"
  proof (rule nearest_excluding_ok [OF t(1), where q = q and skip = skip])
    fix found
    assume f: "nearest_excluding ?t q skip = Some found" "\<And>c. found = Some c \<Longrightarrow> c \<in> set (kd_order ?t) \<and> c \<noteq> skip"
      "\<And>c p. finite_cloud ?t q \<Longrightarrow> found = Some c \<Longrightarrow> p \<in> set (kd_order ?t) \<Longrightarrow> p \<noteq> skip \<Longrightarrow> dist2 ?t q c \<le> dist2 ?t q p"
      "\<And>p. finite_cloud ?t q \<Longrightarrow> usize_max \<notin> set (kd_order ?t) \<Longrightarrow> found = None \<Longrightarrow> p \<in> set (kd_order ?t) \<Longrightarrow>
         p \<noteq> skip \<Longrightarrow> f64_infinity \<le> dist2 ?t q p"
    show thesis by (rule that [OF f(1)]) (use f(2-4) fin t(2) assms(7) in \<open>auto split: option.split\<close>)
  qed
  ultimately show ?thesis using ps(1) by blast
qed

theorem kd_tree_search_is_exact_witness:
  "\<exists>ps. kd_within (kd_build sequential [0, 1, - 1, 0, 1, - 1, 0, 1, - 1] 1) [1] 1 = Some ps \<and>
     sort ps = filter (\<lambda>p. dist2 (kd_build sequential [0, 1, - 1, 0, 1, - 1, 0, 1, - 1] 1) [1] p \<le> 1) [0..<9]"
proof -
  have "\<forall>x\<in>set [0, 1, - 1, 0, 1, - 1, 0, 1, - 1 :: f64]. is_finite x" by code_simp
  from kd_tree_search_is_exact [OF sequential_select _ _ this, of 1 9 "[1]" 1 0] show ?thesis
    by (auto simp: usize_max_def is_finite_def f64_mag_def one_f64_def)
qed

text \<open>C14: The projected search gives the answer of the brute-force search: for every location the
  same neighbour with the same similarity, where the projections are finite and keep the bound
  that the code relies on, that no location is projected farther from its nearest neighbour than
  its similarity to any other location allows.\<close>

theorem projected_search_agrees_with_brute_force:
  assumes "select_ok E" "0 < k" "length proj = length (usable locations norms) * k" "\<forall>x\<in>set proj. is_finite x"
    and "keeps_bound (kd_build E proj k) locations norms (usable locations norms)"
    and "length locations \<le> usize_max"
  shows "search_all (kd_build E proj k) locations norms (usable locations norms) = Some (brute locations norms)"
  by (rule search_all_exact [OF assms])

theorem projected_search_agrees_with_brute_force_witness:
  "search_all (kd_build sequential [1, 0] 1) [HardLocation_new 0 [1], HardLocation_new 1 [- 1]] [1, 1] [0, 1] =
     Some (brute [HardLocation_new 0 [1], HardLocation_new 1 [- 1]] [1, 1])"
proof -
  let ?ls = "[HardLocation_new 0 [1], HardLocation_new 1 [- 1 :: f64]]" and ?t = "kd_build sequential [1, 0] 1"
  have u: "usable ?ls [1, 1] = [0, 1]" by code_simp
  have f: "\<forall>x\<in>set [1, 0 :: f64]. is_finite x" by code_simp
  have "\<not> is_nan (sim ?ls [1, 1] 0 1)" "\<not> is_nan (sim ?ls [1, 1] 1 0)"
    "dist2 ?t (kd_row ?t 0) 1 \<le> radius2 (sim ?ls [1, 1] 0 1)" "dist2 ?t (kd_row ?t 1) 0 \<le> radius2 (sim ?ls [1, 1] 1 0)"
    by code_simp+
  then have "keeps_bound ?t ?ls [1, 1] [0, 1]" by (auto simp: keeps_bound_def Let_def less_Suc_eq)
  then show ?thesis
    using projected_search_agrees_with_brute_force [OF sequential_select _ _ f, of 1 ?ls "[1, 1]"]
    by (simp add: u usize_max_def)
qed

text \<open>C15: The projected search always returns, and its answer has the right shape: one entry for
  every location, which names another existing location or nobody; nothing is assumed of the
  addresses, so this holds for NaN, ragged and overflowing ones too.\<close>

theorem projected_search_always_answers:
  assumes "select_ok E" "rayon_ok E"
  shows "projected_ok (projected_search E) \<and>
     (\<exists>r. projected_with E locations norms min_captured min_points = Some r \<and>
       (case r of Some nns \<Rightarrow> neighbors_ok (length locations) nns | None \<Rightarrow> True))"
proof -
  note one = projected_with_answers [OF assms]
  have "neighbors_ok (length ls) nns" if "projected_search E ls ns = Some nns" for ls ns nns
    using one [of ls ns "f64_dec 5 1" 3000] that by (auto simp: projected_search_def)
  with one show ?thesis unfolding projected_ok_def by blast
qed

theorem projected_search_always_answers_witness:
  "projected_ok (projected_search sequential) \<and>
   (\<exists>r. projected_with sequential [HardLocation_new 0 [1], HardLocation_new 1 [- 1]] [1, 1] 0 2 = Some r)"
  using projected_search_always_answers [OF sequential_select sequential_rayon] by blast

end
