(* ===== verification/Http_Audit.thy ===== *)
theory Http_Audit
  imports Routes Auth
begin

text \<open>
  heather_server/src/audit.rs and the audit part of heather_server/src/routes.rs: who makes a
  request, what a read handed back, and the record of it that is staged in the access log of the
  database. A flush that the staging asks for is spawned on a thread of its own; here it runs as
  soon as it is asked for. The clock of a request and the crates outside (JSON, base64) are fields
  of \<open>http_env\<close>; \<open>'j\<close> is the type of JSON values.
\<close>

record 'j http_env =
  he_limits :: "Limits option"
  he_base64 :: "string \<Rightarrow> string + bytes"       \<comment> \<open>decoding\<close>
  he_from_slice :: "bytes \<Rightarrow> 'j option"
  he_to_vec :: "'j \<Rightarrow> string + bytes"
  he_null :: 'j
  he_order :: "u64 list \<Rightarrow> u64 list"           \<comment> \<open>the order of a hash set\<close>
  he_audit :: audit_env
  he_now :: u64                                \<comment> \<open>unix milliseconds\<close>

definition text_of :: "bytes \<Rightarrow> string" where
  "text_of b = map (\<lambda>c. char_of (unat c)) b"

section \<open>Who reads\<close>

record AuditCtx =
  cx_user :: string
  cx_scope :: string
  cx_db :: string

definition DEFAULT_DB :: string where
  "DEFAULT_DB = ''default''"

definition for_db :: "string \<Rightarrow> AuditCtx \<Rightarrow> AuditCtx" where
  "for_db db ctx = ctx\<lparr>cx_db := db\<rparr>"

text \<open>The identity that the middleware left with the request, if it checked one.\<close>

definition from_request_parts :: "AuthedUser option \<Rightarrow> AuditCtx" where
  "from_request_parts identity =
     (let (user, scope) = (case identity of
            Some a \<Rightarrow> (text_of (us_name (ad_user a)), text_of (Scope_label (us_scope (ad_user a))))
          | None \<Rightarrow> (''-'', ''-''))
      in \<lparr>cx_user = user, cx_scope = scope, cx_db = DEFAULT_DB\<rparr>)"

section \<open>What was read\<close>

record AuditIds =
  id_result_count :: nat
  id_location_ids :: "u64 list"
  id_document_ids :: "u64 list"

definition AuditIds_default :: AuditIds where
  "AuditIds_default = \<lparr>id_result_count = 0, id_location_ids = [], id_document_ids = []\<rparr>"

definition AuditIds_documents :: "u64 list \<Rightarrow> AuditIds" where
  "AuditIds_documents ids = \<lparr>id_result_count = length ids, id_location_ids = [], id_document_ids = ids\<rparr>"

definition AuditIds_locations :: "u64 list \<Rightarrow> AuditIds" where
  "AuditIds_locations ids = \<lparr>id_result_count = length ids, id_location_ids = ids, id_document_ids = []\<rparr>"

definition AuditIds_count :: "nat \<Rightarrow> AuditIds" where
  "AuditIds_count n = AuditIds_default\<lparr>id_result_count := n\<rparr>"

record AuditQueryInfo =
  qi_hash :: "string option"
  qi_raw :: "f64 list option"

definition AuditQueryInfo_of :: "'db hive \<Rightarrow> f64 list \<Rightarrow> AuditQueryInfo" where
  "AuditQueryInfo_of H query =
     \<lparr>qi_hash = Some (query_hash query),
      qi_raw = (if ac_store_raw_query (al_config (hv_audit H)) then Some query else None)\<rparr>"

text \<open>\<open>None\<close> is the status of a success.\<close>

definition status_u16 :: "StatusCode option \<Rightarrow> u16" where
  "status_u16 status =
     (case status of
        None \<Rightarrow> 200
      | Some BAD_REQUEST \<Rightarrow> 400
      | Some NOT_FOUND \<Rightarrow> 404
      | Some CONFLICT \<Rightarrow> 409
      | Some INTERNAL_SERVER_ERROR \<Rightarrow> 500)"

record ReadEvent =
  ev_collection :: string
  ev_route :: string
  ev_status :: "StatusCode option"
  ev_ids :: AuditIds
  ev_query_hash :: "string option"
  ev_query_raw :: "f64 list option"

definition event_record :: "bool \<Rightarrow> AuditCtx \<Rightarrow> ReadEvent \<Rightarrow> AuditRecord" where
  "event_record store_raw ctx ev =
     \<lparr>au_seq = 0, au_timestamp_ms = 0, au_user = cx_user ctx, au_scope = cx_scope ctx,
      au_database = cx_db ctx, au_collection = ev_collection ev, au_route = ev_route ev,
      au_status = status_u16 (ev_status ev), au_result_count = id_result_count (ev_ids ev),
      au_location_ids = id_location_ids (ev_ids ev), au_document_ids = id_document_ids (ev_ids ev),
      au_query_hash = ev_query_hash ev, au_query_raw = (if store_raw then ev_query_raw ev else None)\<rparr>"

definition record_read ::
  "('r, 'db) machine \<Rightarrow> 'j http_env \<Rightarrow> AuditCtx \<Rightarrow> ReadEvent \<Rightarrow> 'db hive \<Rightarrow> 'db hive" where
  "record_read M E ctx ev H =
     (let c = al_config (hv_audit H) in
      if \<not> ac_enabled c then H
      else let (due, H) = record_audit (he_now E) (event_record (ac_store_raw_query c) ctx ev) H
           in if due then snd (flush_audit (mc_storage M) (he_audit E) (he_now E) H) else H)"

definition audit_read ::
  "('r, 'db) machine \<Rightarrow> 'j http_env \<Rightarrow> AuditCtx \<Rightarrow> bytes \<Rightarrow> string \<Rightarrow> StatusCode option \<Rightarrow> AuditIds \<Rightarrow>
   AuditQueryInfo \<Rightarrow> 'db hive \<Rightarrow> 'db hive" where
  "audit_read M E ctx collection route status ids q =
     record_read M E ctx \<lparr>ev_collection = text_of collection, ev_route = route, ev_status = status, ev_ids = ids,
       ev_query_hash = qi_hash q, ev_query_raw = qi_raw q\<rparr>"

text \<open>The outcome of a blocking task as every audited handler records it: a failed read is a bad
  request, a panic in the task an internal error, and neither handed anything back.\<close>

definition task_status :: "'a res \<Rightarrow> StatusCode option" where
  "task_status r =
     (case r of
        Inr _ \<Rightarrow> None
      | Inl (Error _) \<Rightarrow> Some BAD_REQUEST
      | Inl Panic \<Rightarrow> Some INTERNAL_SERVER_ERROR)"

definition audited ::
  "('r, 'db) machine \<Rightarrow> 'j http_env \<Rightarrow> AuditCtx \<Rightarrow> bytes \<Rightarrow> string \<Rightarrow> f64 list \<Rightarrow> ('a \<Rightarrow> AuditIds) \<Rightarrow> 'a res \<Rightarrow>
   ('r, 'db) hworld \<Rightarrow> ('r, 'db) hworld" where
  "audited M E ctx collection route query ids r w =
     (let (H, rng) = w;
          handed = (case r of Inr x \<Rightarrow> ids x | Inl _ \<Rightarrow> AuditIds_default)
      in (audit_read M E ctx collection route (task_status r) handed (AuditQueryInfo_of H query) H, rng))"

section \<open>Reading the log back, and flushing it\<close>

record AuditParams =
  pa_user :: "string option"
  pa_collection :: "string option"
  pa_route :: "string option"
  pa_since :: "u64 option"
  pa_until :: "u64 option"
  pa_limit :: "nat option"

record AuditResponse =
  aus_database :: string
  aus_count :: nat
  aus_limit :: nat
  aus_entries :: "AuditRecord list"

definition clamp_limit :: "nat option \<Rightarrow> nat" where
  "clamp_limit limit = min 1000 (max 1 (unwrap_or 100 limit))"

text \<open>The database is given by its hive, if the server has it open.\<close>

definition query_audit_route ::
  "'db storage \<Rightarrow> 'j http_env \<Rightarrow> string \<Rightarrow> AuditParams \<Rightarrow> 'db hive option \<Rightarrow>
   AuditResponse Response \<times> 'db hive option" where
  "query_audit_route K E db_name p database =
     (case database of
        None \<Rightarrow> (ErrorResponse NOT_FOUND (Text (Fmt ''database not found: {}'' [S db_name])), None)
      | Some H \<Rightarrow>
         if \<not> ac_enabled (al_config (hv_audit H))
         then (ErrorResponse CONFLICT
                (Text (Fmt ''audit logging is disabled for database '{}' (see [audit] in db.toml)'' [S db_name])),
               Some H)
         else
           let limit = clamp_limit (pa_limit p);
               q = (AuditQuery_new limit)\<lparr>aq_user := pa_user p, aq_collection := pa_collection p,
                     aq_route := pa_route p, aq_since_ms := pa_since p, aq_until_ms := pa_until p\<rparr>;
               (r, H) = query_audit K (he_audit E) (he_now E) q H
           in (case r of
                 Inr entries \<Rightarrow>
                   Json \<lparr>aus_database = db_name, aus_count = length entries, aus_limit = limit, aus_entries = entries\<rparr>
               | Inl (Error e) \<Rightarrow> ErrorResponse INTERNAL_SERVER_ERROR (OfDb e)
               | Inl Panic \<Rightarrow> ErrorResponse INTERNAL_SERVER_ERROR TaskPanicked, Some H))"

text \<open>One round of the flush loop for one database: \<open>due\<close> says whether its interval has elapsed
  (by the monotonic clock, which is not modelled) since it was last flushed.\<close>

definition flush_round :: "'db storage \<Rightarrow> 'j http_env \<Rightarrow> (nat \<Rightarrow> bool) \<Rightarrow> 'db hive \<Rightarrow> bool \<times> 'db hive" where
  "flush_round K E due H =
     (let c = al_config (hv_audit H) in
      if \<not> ac_enabled c \<or> \<not> due (max 1 (unat (ac_flush_interval_secs c))) \<or> pending (hv_audit H) = 0
      then (False, H)
      else (True, snd (flush_audit K (he_audit E) (he_now E) H)))"

text \<open>On shutdown every database is flushed; a failure is logged only.\<close>

definition flush_all :: "'db storage \<Rightarrow> 'j http_env \<Rightarrow> 'db hive list \<Rightarrow> 'db hive list" where
  "flush_all K E = map (\<lambda>H. snd (flush_audit K (he_audit E) (he_now E) H))"

end
