(* ===== verification/Endpoints.thy ===== *)
theory Endpoints
  imports Http_Audit
begin

text \<open>
  heather_server/src/routes.rs: the endpoints on collections and documents, as functions from a
  request and the database to a response and the database. A lookup that makes a missing
  collection is \<open>with_target\<close>, one that answers 404 is \<open>with_source\<close> (Routes). Work on a blocking
  thread answers with an internal error when it panics; a panic in the handler itself closes the
  connection. Each handler is run alone.
\<close>

abbreviation with_collection ::
  "('r, 'db) machine \<Rightarrow> bytes \<Rightarrow> (nat \<Rightarrow> ('r, 'db) hworld \<Rightarrow> 'b Response \<times> ('r, 'db) hworld) \<Rightarrow>
   ('r, 'db) hworld \<Rightarrow> 'b Response \<times> ('r, 'db) hworld" where
  "with_collection M \<equiv> with_source M ''collection '{}' not found''"

abbreviation open_collection :: "('r, 'db) hworld \<Rightarrow> nat \<Rightarrow> Collection" where
  "open_collection w a \<equiv> hv_heap (fst w) ! a"

text \<open>The answer to the outcome of a blocking task.\<close>

definition task_response :: "StatusCode \<Rightarrow> ('a \<Rightarrow> 'b) \<Rightarrow> 'a res \<Rightarrow> 'b Response" where
  "task_response status f r =
     (case r of
        Inr x \<Rightarrow> Json (f x)
      | Inl (Error e) \<Rightarrow> ErrorResponse status (OfDb e)
      | Inl Panic \<Rightarrow> ErrorResponse INTERNAL_SERVER_ERROR TaskPanicked)"

text \<open>The answer to a call made in the handler.\<close>

definition direct_response :: "StatusCode \<Rightarrow> ('a \<Rightarrow> 'b) \<Rightarrow> 'a res \<Rightarrow> 'b Response" where
  "direct_response status f r =
     (case r of Inr x \<Rightarrow> Json (f x) | Inl e \<Rightarrow> db_error_response status e)"

text \<open>An operation that reads a collection and the store, and may count records it skipped.\<close>

definition reading_store ::
  "nat \<Rightarrow> (Collection \<Rightarrow> 'db store \<Rightarrow> ('a \<times> 'db store) res) \<Rightarrow> ('r, 'db) hworld \<Rightarrow> 'a res \<times> ('r, 'db) hworld" where
  "reading_store a f w =
     (let (H, rng) = w in
      case f (hv_heap H ! a) (hv_store H) of
        Inl e \<Rightarrow> (Inl e, w)
      | Inr (x, s) \<Rightarrow> (Ok x, H\<lparr>hv_store := s\<rparr>, rng))"

section \<open>Vectors on the wire\<close>

definition decode_vector :: "'j http_env \<Rightarrow> string \<Rightarrow> nat \<times> string \<Rightarrow> message + f64 list" where
  "decode_vector E field it =
     (let (i, encoded) = it in
      case he_base64 E encoded of
        Inl e \<Rightarrow> Inl (Fmt ''{}[{}] is not valid base64: {}'' [S field, N (int i), S e])
      | Inr raw \<Rightarrow>
          if raw = [] \<or> length raw mod 8 \<noteq> 0
          then Inl (Fmt ''{}[{}] must be a whole number of little-endian f64 values (8 bytes each), got {} bytes''
                 [S field, N (int i), N (int (length raw))])
          else Inr (map (\<lambda>b. F64 (u64_of_le b)) (chunks 8 raw)))"

definition decode_vectors :: "'j http_env \<Rightarrow> string list \<Rightarrow> string \<Rightarrow> message + f64 list list" where
  "decode_vectors E encoded field = emap (decode_vector E field) (zip [0..<length encoded] encoded)"

definition resolve_vectors ::
  "'j http_env \<Rightarrow> f64 list list \<Rightarrow> string list option \<Rightarrow> string \<Rightarrow> message + f64 list list" where
  "resolve_vectors E json b64 field =
     (case b64 of
        None \<Rightarrow> Inr json
      | Some encoded \<Rightarrow>
          if json \<noteq> [] then Inl (Fmt ''send {} or {}_b64, not both'' [S field, S field])
          else decode_vectors E encoded (field @ ''_b64''))"

section \<open>Collections\<close>

record HealthResponse =
  hr_status :: string
  hr_version :: string
  hr_features :: "string list"

definition FEATURES :: "string list" where
  "FEATURES = [''vectors_b64'']"

definition health :: "string \<Rightarrow> HealthResponse Response" where
  "health version = Json \<lparr>hr_status = ''ok'', hr_version = version, hr_features = FEATURES\<rparr>"

record CreateCollectionResponse =
  cc_name :: bytes
  cc_created :: bool

definition create_collection_route ::
  "('r, 'db) machine \<Rightarrow> bytes \<Rightarrow> ('r, 'db) hworld \<Rightarrow> CreateCollectionResponse Response \<times> ('r, 'db) hworld" where
  "create_collection_route M name w =
     (case Hive_list M (fst w) of
        Inl Panic \<Rightarrow> (Aborted, w)
      | listed \<Rightarrow>
          let already_exists = (case listed of Inr cs \<Rightarrow> name \<in> set cs | Inl _ \<Rightarrow> False);
              (r, w) = Hive_create M name w
          in (direct_response BAD_REQUEST (\<lambda>_. \<lparr>cc_name = name, cc_created = \<not> already_exists\<rparr>) r, w))"

definition list_collections_route :: "('r, 'db) machine \<Rightarrow> ('r, 'db) hworld \<Rightarrow> bytes list Response" where
  "list_collections_route M w = direct_response INTERNAL_SERVER_ERROR id (Hive_list M (fst w))"

definition drop_collection_route ::
  "('r, 'db) machine \<Rightarrow> bytes \<Rightarrow> ('r, 'db) hworld \<Rightarrow> bool Response \<times> ('r, 'db) hworld" where
  "drop_collection_route M name w =
     (let (H, rng) = w; (r, H) = Hive_drop M name H in (direct_response INTERNAL_SERVER_ERROR id r, H, rng))"

section \<open>Writing\<close>

record 'j WriteRequest =
  wq_vectors :: "f64 list list"
  wq_vectors_b64 :: "string list option"
  wq_metadata :: "'j list option"

record WriteResponse =
  wp_count :: nat
  wp_ids :: "u64 list option"

definition metadata_bytes :: "'j http_env \<Rightarrow> 'j \<Rightarrow> bytes res" where
  "metadata_bytes E meta =
     (case he_to_vec E meta of
        Inl e \<Rightarrow> Err (InvalidInput (Fmt ''invalid metadata JSON: {}'' [S e]))
      | Inr b \<Rightarrow> Ok b)"

definition write_items :: "'j http_env \<Rightarrow> f64 list list \<Rightarrow> 'j list \<Rightarrow> (f64 list \<times> bytes) list res" where
  "write_items E vectors metadata =
     (if length metadata \<noteq> length vectors
      then Err (InvalidInput (msg ''metadata length must match vectors length''))
      else rmap (\<lambda>(v, meta). rbind (metadata_bytes E meta) (\<lambda>b. Ok (v, b))) (zip vectors metadata))"

definition write_task ::
  "('r, 'db) machine \<Rightarrow> 'j http_env \<Rightarrow> nat \<Rightarrow> f64 list list \<Rightarrow> 'j list option \<Rightarrow> ('r, 'db) hworld \<Rightarrow>
   WriteResponse res \<times> ('r, 'db) hworld" where
  "write_task M E a vectors metadata w =
     (case metadata of
        Some metadata \<Rightarrow>
          (case write_items E vectors metadata of
             Inl e \<Rightarrow> (Inl e, w)
           | Inr items \<Rightarrow>
               let (r, w) = on_collection a (write_batch_with_metadata M items) w
               in (rbind r (\<lambda>ids. Ok \<lparr>wp_count = length ids, wp_ids = Some ids\<rparr>), w))
      | None \<Rightarrow>
          let (r, w) = on_collection a (Collection_write_batch M vectors) w
          in (rbind r (\<lambda>_. Ok \<lparr>wp_count = length vectors, wp_ids = None\<rparr>), w))"

definition write_status :: "herror \<Rightarrow> StatusCode" where
  "write_status e =
     (case e of
        Storage _ \<Rightarrow> INTERNAL_SERVER_ERROR
      | Serialization _ \<Rightarrow> INTERNAL_SERVER_ERROR
      | LockPoisoned \<Rightarrow> INTERNAL_SERVER_ERROR
      | Conflict _ \<Rightarrow> CONFLICT
      | _ \<Rightarrow> BAD_REQUEST)"

definition write_response :: "WriteResponse res \<Rightarrow> WriteResponse Response" where
  "write_response r =
     (case r of
        Inr x \<Rightarrow> Json x
      | Inl (Error e) \<Rightarrow> ErrorResponse (write_status e) (OfDb e)
      | Inl Panic \<Rightarrow> ErrorResponse INTERNAL_SERVER_ERROR TaskPanicked)"

definition write_route ::
  "('r, 'db) machine \<Rightarrow> 'j http_env \<Rightarrow> bytes \<Rightarrow> 'j WriteRequest \<Rightarrow> ('r, 'db) hworld \<Rightarrow>
   WriteResponse Response \<times> ('r, 'db) hworld" where
  "write_route M E name req w =
     (case resolve_vectors E (wq_vectors req) (wq_vectors_b64 req) ''vectors'' of
        Inl m \<Rightarrow> (ErrorResponse BAD_REQUEST (Text m), w)
      | Inr vectors \<Rightarrow>
          if vectors = [] then (ErrorResponse BAD_REQUEST (Text (msg ''vectors array must not be empty'')), w)
          else with_target M name (\<lambda>a w.
            let (r, w) = write_task M E a vectors (wq_metadata req) w in (write_response r, w)) w)"

record BulkLoadRequest =
  bq_addresses :: "f64 list list"
  bq_counters :: "f64 list list"
  bq_addresses_b64 :: "string list option"
  bq_counters_b64 :: "string list option"
  bq_write_counts :: "f64 list option"

record BulkLoadResponse =
  bp_n_loaded :: nat
  bp_dim :: nat

definition bulk_location :: "nat \<Rightarrow> f64 list option \<Rightarrow> nat \<times> f64 list \<times> f64 list \<Rightarrow> HardLocation res" where
  "bulk_location d write_counts it =
     (let (i, addr, counter) = it in
      if length addr \<noteq> d \<or> length counter \<noteq> d
      then Err (DimensionMismatch d (max (length addr) (length counter)))
      else Ok ((HardLocation_new (of_nat i) addr)\<lparr>loc_counter := counter,
             loc_write_count := (case write_counts of Some wc \<Rightarrow> wc ! i | None \<Rightarrow> 1)\<rparr>))"

definition bulk_locations :: "nat \<Rightarrow> f64 list list \<Rightarrow> f64 list list \<Rightarrow> f64 list option \<Rightarrow> HardLocation list res" where
  "bulk_locations d addrs counters write_counts =
     rmap (bulk_location d write_counts) (zip [0..<length addrs] (zip addrs counters))"

definition bulk_task ::
  "('r, 'db) machine \<Rightarrow> nat \<Rightarrow> f64 list list \<Rightarrow> f64 list list \<Rightarrow> f64 list option \<Rightarrow> ('r, 'db) hworld \<Rightarrow>
   BulkLoadResponse res \<times> ('r, 'db) hworld" where
  "bulk_task M a addrs counters write_counts w =
     (case snapshot_versioned (open_collection w a) of
        Inl e \<Rightarrow> (Inl e, w)
      | Inr (_, config, version) \<Rightarrow>
         (case bulk_locations (cfg_d config) addrs counters write_counts of
            Inl e \<Rightarrow> (Inl e, w)
          | Inr locations \<Rightarrow>
              let (r, w) = on_collection a (load_snapshot_checked M locations config (Some version)) w
              in (rbind r (\<lambda>_. Ok \<lparr>bp_n_loaded = length locations, bp_dim = cfg_d config\<rparr>), w)))"

definition bulk_response :: "BulkLoadResponse res \<Rightarrow> BulkLoadResponse Response" where
  "bulk_response r =
     (case r of
        Inr x \<Rightarrow> Json x
      | Inl (Error (Conflict m)) \<Rightarrow> ErrorResponse CONFLICT (OfDb (Conflict m))
      | Inl (Error e) \<Rightarrow> ErrorResponse BAD_REQUEST (OfDb e)
      | Inl Panic \<Rightarrow> ErrorResponse INTERNAL_SERVER_ERROR TaskPanicked)"

text \<open>The checks before the collection is looked at.\<close>

definition bulk_checked ::
  "'j http_env \<Rightarrow> BulkLoadRequest \<Rightarrow> message + f64 list list \<times> f64 list list" where
  "bulk_checked E req =
     ebind (resolve_vectors E (bq_addresses req) (bq_addresses_b64 req) ''addresses'') (\<lambda>addrs.
     ebind (resolve_vectors E (bq_counters req) (bq_counters_b64 req) ''counters'') (\<lambda>counters.
     let n = length addrs; max_items = max_bulk_items (limits_get (he_limits E)) in
     ebind (eensure (addrs \<noteq> []) (msg ''addresses must not be empty'')) (\<lambda>_.
     ebind (eensure (\<not> (0 < max_items \<and> max_items < n))
       (Fmt ''bulk_load of {} items exceeds the server cap of {}; split into smaller batches or raise --max-bulk-items''
         [N (int n), N (int max_items)])) (\<lambda>_.
     ebind (eensure (n = length counters) (Fmt ''addresses ({}) and counters ({}) must have equal length''
         [N (int n), N (int (length counters))])) (\<lambda>_.
     ebind (case bq_write_counts req of
              None \<Rightarrow> Inr ()
            | Some wc \<Rightarrow> eensure (length wc = n)
                (Fmt ''write_counts ({}) must match addresses ({})'' [N (int (length wc)), N (int n)])) (\<lambda>_.
     Inr (addrs, counters)))))))"

definition bulk_load_route ::
  "('r, 'db) machine \<Rightarrow> 'j http_env \<Rightarrow> bytes \<Rightarrow> BulkLoadRequest \<Rightarrow> ('r, 'db) hworld \<Rightarrow>
   BulkLoadResponse Response \<times> ('r, 'db) hworld" where
  "bulk_load_route M E name req w =
     (case bulk_checked E req of
        Inl m \<Rightarrow> (ErrorResponse BAD_REQUEST (Text m), w)
      | Inr (addrs, counters) \<Rightarrow>
          with_target M name (\<lambda>a w.
            let (r, w) = bulk_task M a addrs counters (bq_write_counts req) w in (bulk_response r, w)) w)"

section \<open>Reads\<close>

record ReadRequest =
  rq_query :: "f64 list"
  rq_strategy :: "string option"

type_synonym AnalyzeRequest = ReadRequest

definition strategy_of :: "string option \<Rightarrow> message + ReadStrategy" where
  "strategy_of given =
     (let name = unwrap_or ''iterative'' given in
      if name = ''fast'' then Inr HopfieldSS
      else if name = ''iterative'' then Inr HopfieldIter
      else Inl (Fmt (''unknown strategy: '{}'. use 'iterative' or 'fast'' @ [CHR 0x27]) [S name]))"

definition read_route ::
  "('r, 'db) machine \<Rightarrow> 'j http_env \<Rightarrow> bytes \<Rightarrow> AuditCtx \<Rightarrow> ReadRequest \<Rightarrow> ('r, 'db) hworld \<Rightarrow>
   f64 list Response \<times> ('r, 'db) hworld" where
  "read_route M E name ctx req w =
     (case strategy_of (rq_strategy req) of
        Inl m \<Rightarrow> (ErrorResponse BAD_REQUEST (Text m), w)
      | Inr strategy \<Rightarrow>
          with_target M name (\<lambda>a w.
            let r = Collection_read (mc_libm M) (open_collection w a) (rq_query req) strategy
            in (task_response BAD_REQUEST id r,
                audited M E ctx name ''read'' (rq_query req) (\<lambda>_. AuditIds_count 1) r w)) w)"

record AttentionRequest =
  tq_query :: "f64 list"
  tq_scale :: f64
  tq_exclude_id :: "nat option"

text \<open>The items of a contributor and of an activated location have the same fields.\<close>

record AttentionResponse =
  tp_result :: "f64 list"
  tp_beta :: f64
  tp_contributors :: "ActivatedLocation list"

definition attention_route ::
  "('r, 'db) machine \<Rightarrow> 'j http_env \<Rightarrow> bytes \<Rightarrow> AuditCtx \<Rightarrow> AttentionRequest \<Rightarrow> ('r, 'db) hworld \<Rightarrow>
   AttentionResponse Response \<times> ('r, 'db) hworld" where
  "attention_route M E name ctx req =
     with_target M name (\<lambda>a w.
       let r = read_attention_traced (mc_libm M) (open_collection w a) (tq_query req) (tq_scale req) (tq_exclude_id req)
       in (task_response BAD_REQUEST (\<lambda>t.
             \<lparr>tp_result = at_result t, tp_beta = tq_scale req, tp_contributors = at_contributors t\<rparr>) r,
           audited M E ctx name ''attention'' (tq_query req) (\<lambda>_. AuditIds_count 1) r w))"

definition normalized_entropy :: "libm \<Rightarrow> f64 list \<Rightarrow> f64" where
  "normalized_entropy L weights =
     (let n = length weights in
      if n < 2 then 0
      else - f64_sum (map (\<lambda>w. w * lm_ln L w) (filter (\<lambda>w. 0 < w) weights)) / lm_ln L (f64_of_nat n))"

record AttentionMdlResponse =
  mp_result :: "f64 list"
  mp_beta :: f64
  mp_contributors :: "ActivatedLocation list"
  mp_entropy :: f64

definition attention_mdl_route ::
  "('r, 'db) machine \<Rightarrow> bytes \<Rightarrow> f64 list \<Rightarrow> ('r, 'db) hworld \<Rightarrow> AttentionMdlResponse Response \<times> ('r, 'db) hworld" where
  "attention_mdl_route M name query =
     with_target M name (\<lambda>a w.
       (task_response BAD_REQUEST (\<lambda>(t, beta).
          \<lparr>mp_result = at_result t, mp_beta = beta, mp_contributors = at_contributors t,
           mp_entropy = normalized_entropy (mc_libm M) (map al_weight (at_contributors t))\<rparr>)
          (read_attention_mdl_traced (mc_libm M) (open_collection w a) query), w))"

text \<open>The default sweep: 81 points, evenly spaced in the logarithm.\<close>

definition default_betas :: "libm \<Rightarrow> f64 list" where
  "default_betas L =
     (let lo = lm_ln L (f64_dec 5 1); hi = lm_ln L (f64_dec 200 0)
      in map (\<lambda>s. lm_exp L (lo + (hi - lo) * f64_of_nat s / f64_of_nat 80)) [0..<81])"

record CalibrateResponse =
  kp_beta :: f64
  kp_dl :: f64

definition calibrate_route ::
  "('r, 'db) machine \<Rightarrow> bytes \<Rightarrow> f64 list option \<Rightarrow> ('r, 'db) hworld \<Rightarrow> CalibrateResponse Response \<times> ('r, 'db) hworld" where
  "calibrate_route M name betas =
     with_target M name (\<lambda>a w.
       (task_response BAD_REQUEST (\<lambda>(beta, dl). \<lparr>kp_beta = beta, kp_dl = dl\<rparr>)
          (calibrate_beta (mc_libm M) (open_collection w a) (unwrap_or (default_betas (mc_libm M)) betas)), w))"

definition analyze_route ::
  "('r, 'db) machine \<Rightarrow> 'j http_env \<Rightarrow> bytes \<Rightarrow> AuditCtx \<Rightarrow> AnalyzeRequest \<Rightarrow> ('r, 'db) hworld \<Rightarrow>
   ReadTrace Response \<times> ('r, 'db) hworld" where
  "analyze_route M E name ctx req w =
     (case strategy_of (rq_strategy req) of
        Inl m \<Rightarrow> (ErrorResponse BAD_REQUEST (Text m), w)
      | Inr strategy \<Rightarrow>
          with_target M name (\<lambda>a w.
            let r = analyze_read (mc_libm M) (open_collection w a) (rq_query req) strategy
            in (task_response BAD_REQUEST id r,
                audited M E ctx name ''analyze'' (rq_query req)
                  (\<lambda>t. AuditIds_locations (map (\<lambda>l. of_nat (al_id l)) (rt_activated_locations t))) r w)) w)"

record BatchAnalyzeRequest =
  nq_queries :: "f64 list list"
  nq_strategy :: "string option"

definition batch_checked :: "'j http_env \<Rightarrow> BatchAnalyzeRequest \<Rightarrow> message + ReadStrategy" where
  "batch_checked E req =
     (let n = length (nq_queries req); max_queries = max_batch_queries (limits_get (he_limits E)) in
      ebind (eensure (nq_queries req \<noteq> []) (msg ''queries array must not be empty'')) (\<lambda>_.
      ebind (eensure (\<not> (0 < max_queries \<and> max_queries < n))
        (Fmt ''batch of {} queries exceeds the server cap of {}; split into smaller batches or raise --max-batch-queries''
          [N (int n), N (int max_queries)])) (\<lambda>_.
      strategy_of (nq_strategy req))))"

text \<open>The queries run in parallel over one collection; the first error in their order is taken.\<close>

definition batch_analyze_route ::
  "('r, 'db) machine \<Rightarrow> 'j http_env \<Rightarrow> bytes \<Rightarrow> BatchAnalyzeRequest \<Rightarrow> ('r, 'db) hworld \<Rightarrow>
   ReadTrace list Response \<times> ('r, 'db) hworld" where
  "batch_analyze_route M E name req w =
     (case batch_checked E req of
        Inl m \<Rightarrow> (ErrorResponse BAD_REQUEST (Text m), w)
      | Inr strategy \<Rightarrow>
          with_target M name (\<lambda>a w.
            (task_response BAD_REQUEST id
               (rmap (\<lambda>query. analyze_read (mc_libm M) (open_collection w a) query strategy) (nq_queries req)), w)) w)"

section \<open>What a collection holds\<close>

definition stats_route ::
  "('r, 'db) machine \<Rightarrow> bytes \<Rightarrow> ('r, 'db) hworld \<Rightarrow> EAMStats Response \<times> ('r, 'db) hworld" where
  "stats_route M name =
     with_collection M name (\<lambda>a w.
       (direct_response INTERNAL_SERVER_ERROR id (Collection_stats (open_collection w a)), w))"

record CompressRequest =
  zq_kappa :: "f64 option"
  zq_lambda :: "f64 option"

definition compress_kappa :: "CompressRequest \<Rightarrow> Collection \<Rightarrow> f64" where
  "compress_kappa req c =
     (case zq_kappa req of
        Some kappa \<Rightarrow> kappa
      | None \<Rightarrow> (case Collection_config c of Inr cfg \<Rightarrow> f64_of_nat (cfg_d cfg) | Inl _ \<Rightarrow> f64_dec 64 0))"

text \<open>\<open>None\<close>: the compression does not return.\<close>

definition compress_task ::
  "('r, 'db) machine \<Rightarrow> CompressRequest \<Rightarrow> nat \<Rightarrow> ('r, 'db) hworld \<Rightarrow>
   (CompressResult Response \<times> ('r, 'db) hworld) option" where
  "compress_task M req a w =
     (let (H, rng) = w; c = hv_heap H ! a in
      map_option (\<lambda>(r, c, s, rng).
          (direct_response INTERNAL_SERVER_ERROR id r, H\<lparr>hv_heap := (hv_heap H)[a := c], hv_store := s\<rparr>, rng))
        (Collection_compress M (compress_kappa req c) (unwrap_or 1 (zq_lambda req)) (c, hv_store H, rng)))"

definition compress_route ::
  "('r, 'db) machine \<Rightarrow> bytes \<Rightarrow> CompressRequest \<Rightarrow> ('r, 'db) hworld \<Rightarrow>
   (CompressResult Response \<times> ('r, 'db) hworld) option" where
  "compress_route M name req w =
     (case Hive_get M name w of
        (Inr (Some a), w) \<Rightarrow> compress_task M req a w
      | (Inr None, w) \<Rightarrow>
          Some (ErrorResponse NOT_FOUND (Text (Fmt ''collection '{}' not found'' [S (text_of name)])), w)
      | (Inl e, w) \<Rightarrow> Some (db_error_response INTERNAL_SERVER_ERROR e, w))"

definition collection_config_route ::
  "('r, 'db) machine \<Rightarrow> bytes \<Rightarrow> ('r, 'db) hworld \<Rightarrow> EAMConfig Response \<times> ('r, 'db) hworld" where
  "collection_config_route M name =
     with_collection M name (\<lambda>a w.
       (direct_response INTERNAL_SERVER_ERROR id (Collection_config (open_collection w a)), w))"

record LocationFullItem =
  lf_id :: nat
  lf_write_count :: f64
  lf_address :: "f64 list"
  lf_counter :: "f64 list"

datatype LocationsReply = Summaries "LocationSummary list" | Full "LocationFullItem list"

definition full_item :: "HardLocation \<Rightarrow> LocationFullItem" where
  "full_item l = \<lparr>lf_id = unat (loc_id l), lf_write_count = loc_write_count l, lf_address = loc_address l,
     lf_counter = loc_counter l\<rparr>"

definition locations_route ::
  "('r, 'db) machine \<Rightarrow> bytes \<Rightarrow> bool \<Rightarrow> ('r, 'db) hworld \<Rightarrow> LocationsReply Response \<times> ('r, 'db) hworld" where
  "locations_route M name full =
     with_collection M name (\<lambda>a w.
       (if full
        then direct_response INTERNAL_SERVER_ERROR (\<lambda>(locs, _). Full (map full_item locs))
               (Collection_snapshot (open_collection w a))
        else direct_response INTERNAL_SERVER_ERROR Summaries (locations_summary (open_collection w a)), w))"

definition fingerprint_route ::
  "('r, 'db) machine \<Rightarrow> bytes \<Rightarrow> ('r, 'db) hworld \<Rightarrow> f64 list option Response \<times> ('r, 'db) hworld" where
  "fingerprint_route M name =
     with_collection M name (\<lambda>a w.
       (task_response BAD_REQUEST id (fingerprint (mc_libm M) (open_collection w a)), w))"

section \<open>Documents\<close>

record 'j DocumentItem =
  di_id :: u64
  di_metadata :: 'j

record 'j DocumentsResponse =
  dp_documents :: "'j DocumentItem list"
  dp_total :: nat
  dp_skipped :: nat

record DocumentsQuery =
  dq_offset :: "nat option"
  dq_limit :: "nat option"

text \<open>\<open>filter_map\<close>: what does not parse as JSON is left out.\<close>

definition document_item :: "'j http_env \<Rightarrow> u64 \<times> f64 list \<times> bytes \<Rightarrow> 'j DocumentItem option" where
  "document_item E doc =
     (let (id, _, meta) = doc in map_option (\<lambda>m. \<lparr>di_id = id, di_metadata = m\<rparr>) (he_from_slice E meta))"

definition get_documents_route ::
  "('r, 'db) machine \<Rightarrow> 'j http_env \<Rightarrow> bytes \<Rightarrow> DocumentsQuery \<Rightarrow> ('r, 'db) hworld \<Rightarrow>
   'j DocumentsResponse Response \<times> ('r, 'db) hworld" where
  "get_documents_route M E name q =
     with_collection M name (\<lambda>a w.
       let (r, w) = reading_store a (\<lambda>c s.
             rbind (Collection_list_documents_page M c s (unwrap_or 0 (dq_offset q)) (unwrap_or usize_max (dq_limit q)))
               (\<lambda>(docs, total, skipped, s). Ok ((docs, total, skipped), s))) w
       in (task_response INTERNAL_SERVER_ERROR (\<lambda>(docs, total, skipped).
             \<lparr>dp_documents = List.map_filter (document_item E) docs, dp_total = total, dp_skipped = skipped\<rparr>) r, w))"

definition delete_document_route ::
  "('r, 'db) machine \<Rightarrow> bytes \<Rightarrow> u64 \<Rightarrow> ('r, 'db) hworld \<Rightarrow> bool Response \<times> ('r, 'db) hworld" where
  "delete_document_route M name doc_id =
     with_collection M name (\<lambda>a w.
       let (r, w) = on_collection a (\<lambda>(c, s, rng). let (r, c, s) = delete_document M doc_id (c, s) in (r, c, s, rng)) w
       in (task_response INTERNAL_SERVER_ERROR id r, w))"

definition get_document_response ::
  "'j http_env \<Rightarrow> u64 \<Rightarrow> (f64 list \<times> bytes) option res \<Rightarrow> 'j DocumentItem Response" where
  "get_document_response E doc_id r =
     (case r of
        Inr (Some (_, meta)) \<Rightarrow> Json \<lparr>di_id = doc_id, di_metadata = unwrap_or (he_null E) (he_from_slice E meta)\<rparr>
      | Inr None \<Rightarrow> ErrorResponse NOT_FOUND (Text (Fmt ''document {} not found'' [N (uint doc_id)]))
      | Inl (Error e) \<Rightarrow> ErrorResponse INTERNAL_SERVER_ERROR (OfDb e)
      | Inl Panic \<Rightarrow> ErrorResponse INTERNAL_SERVER_ERROR TaskPanicked)"

definition get_document_route ::
  "('r, 'db) machine \<Rightarrow> 'j http_env \<Rightarrow> bytes \<Rightarrow> u64 \<Rightarrow> ('r, 'db) hworld \<Rightarrow>
   'j DocumentItem Response \<times> ('r, 'db) hworld" where
  "get_document_route M E name doc_id =
     with_collection M name (\<lambda>a w.
       (get_document_response E doc_id
          (Collection_get_document M (open_collection w a) (hv_store (fst w)) doc_id), w))"

record RoleFillerPair =
  rf_role :: "f64 list"
  rf_filler :: "f64 list"

datatype CleanupSpec = SpecMdl | SpecOff | SpecBeta f64

definition RoleCleanup_from :: "CleanupSpec \<Rightarrow> RoleCleanup" where
  "RoleCleanup_from spec = (case spec of SpecMdl \<Rightarrow> Mdl | SpecOff \<Rightarrow> Off | SpecBeta b \<Rightarrow> Beta b)"

record QueryDocumentsRequest =
  qd_query :: "f64 list"
  qd_n :: nat
  qd_unbind_role :: "f64 list option"
  qd_role_pairs :: "RoleFillerPair list"
  qd_cleanup :: CleanupSpec

record 'j QueryDocumentResult =
  qr_id :: u64
  qr_similarity :: f64
  qr_metadata :: 'j
  qr_role_scores :: "f64 list option"

record 'j QueryDocumentsResponse =
  qs_results :: "'j QueryDocumentResult list"
  qs_cleanup_beta :: "f64 option"

definition query_result ::
  "'j http_env \<Rightarrow> f64 list option \<Rightarrow> u64 \<times> f64 \<times> bytes \<Rightarrow> 'j QueryDocumentResult option" where
  "query_result E role_scores hit =
     (let (id, similarity, meta) = hit in
      map_option (\<lambda>m. \<lparr>qr_id = id, qr_similarity = similarity, qr_metadata = m, qr_role_scores = role_scores\<rparr>)
        (he_from_slice E meta))"

definition multi_role_query ::
  "('r, 'db) machine \<Rightarrow> 'j http_env \<Rightarrow> nat \<Rightarrow> bytes \<Rightarrow> AuditCtx \<Rightarrow> QueryDocumentsRequest \<Rightarrow> ('r, 'db) hworld \<Rightarrow>
   'j QueryDocumentsResponse Response \<times> ('r, 'db) hworld" where
  "multi_role_query M E a name ctx req w =
     (let (r, w) = reading_store a (\<lambda>c s.
            query_documents_multi_role M (he_order E) c s (qd_query req) (qd_n req)
              (map (\<lambda>p. (rf_role p, rf_filler p)) (qd_role_pairs req)) (RoleCleanup_from (qd_cleanup req))) w
      in (task_response BAD_REQUEST (\<lambda>out.
            \<lparr>qs_results = List.map_filter (\<lambda>hit.
                 query_result E (Some (mh_role_scores hit)) (mh_doc_id hit, mh_recall_score hit, mh_metadata hit)) (mm_hits out),
             qs_cleanup_beta = mm_cleanup_beta out\<rparr>) r,
          audited M E ctx name ''documents/query'' (qd_query req)
            (\<lambda>out. AuditIds_documents (map mh_doc_id (mm_hits out))) r w))"

definition exclusive_roles :: message where
  "exclusive_roles = msg (''`unbind_role` and `role_pairs` are mutually exclusive: the single-role path reuses '' @
     ''`query` as the filler, the multi-role path gives every pair its own'')"

definition query_documents_route ::
  "('r, 'db) machine \<Rightarrow> 'j http_env \<Rightarrow> bytes \<Rightarrow> AuditCtx \<Rightarrow> QueryDocumentsRequest \<Rightarrow> ('r, 'db) hworld \<Rightarrow>
   'j QueryDocumentsResponse Response \<times> ('r, 'db) hworld" where
  "query_documents_route M E name ctx req =
     with_target M name (\<lambda>a w.
       if qd_role_pairs req \<noteq> [] then
         if qd_unbind_role req \<noteq> None then (ErrorResponse BAD_REQUEST (Text exclusive_roles), w)
         else multi_role_query M E a name ctx req w
       else
         let (r, w) = reading_store a (\<lambda>c s.
               query_documents_scoped M (he_order E) c s (qd_query req) (qd_n req) (qd_unbind_role req)) w
         in (task_response BAD_REQUEST (\<lambda>results.
               \<lparr>qs_results = List.map_filter (query_result E None) results, qs_cleanup_beta = None\<rparr>) r,
             audited M E ctx name ''documents/query'' (qd_query req)
               (\<lambda>results. AuditIds_documents (map fst results)) r w))"

section \<open>The routes\<close>

text \<open>The routes on collections (main.rs), with what stands in their path and body.\<close>

datatype 'j collection_request =
    CreateRoute bytes
  | ListRoute
  | DropRoute bytes
  | WriteRoute bytes "'j WriteRequest"
  | BulkLoadRoute bytes BulkLoadRequest
  | ReadRoute bytes ReadRequest
  | AttentionRoute bytes AttentionRequest
  | AttentionMdlRoute bytes "f64 list"
  | CalibrateRoute bytes "f64 list option"
  | StatsRoute bytes
  | CompressRoute bytes CompressRequest
  | ConfigRoute bytes
  | LocationsRoute bytes bool
  | AnalyzeRoute bytes AnalyzeRequest
  | BatchAnalyzeRoute bytes BatchAnalyzeRequest
  | FingerprintRoute bytes
  | DocumentsRoute bytes DocumentsQuery
  | QueryRoute bytes QueryDocumentsRequest
  | DocumentRoute bytes u64
  | DeleteDocumentRoute bytes u64

text \<open>The database after a request; the responses have types of their own. \<open>None\<close>: no end.\<close>

fun collection_route ::
  "('r, 'db) machine \<Rightarrow> 'j http_env \<Rightarrow> AuditCtx \<Rightarrow> 'j collection_request \<Rightarrow> ('r, 'db) hworld \<Rightarrow>
   ('r, 'db) hworld option" where
  "collection_route M E ctx (CreateRoute name) w = Some (snd (create_collection_route M name w))"
| "collection_route M E ctx ListRoute w = Some w"
| "collection_route M E ctx (DropRoute name) w = Some (snd (drop_collection_route M name w))"
| "collection_route M E ctx (WriteRoute name req) w = Some (snd (write_route M E name req w))"
| "collection_route M E ctx (BulkLoadRoute name req) w = Some (snd (bulk_load_route M E name req w))"
| "collection_route M E ctx (ReadRoute name req) w = Some (snd (read_route M E name ctx req w))"
| "collection_route M E ctx (AttentionRoute name req) w = Some (snd (attention_route M E name ctx req w))"
| "collection_route M E ctx (AttentionMdlRoute name query) w = Some (snd (attention_mdl_route M name query w))"
| "collection_route M E ctx (CalibrateRoute name betas) w = Some (snd (calibrate_route M name betas w))"
| "collection_route M E ctx (StatsRoute name) w = Some (snd (stats_route M name w))"
| "collection_route M E ctx (CompressRoute name req) w = map_option snd (compress_route M name req w)"
| "collection_route M E ctx (ConfigRoute name) w = Some (snd (collection_config_route M name w))"
| "collection_route M E ctx (LocationsRoute name full) w = Some (snd (locations_route M name full w))"
| "collection_route M E ctx (AnalyzeRoute name req) w = Some (snd (analyze_route M E name ctx req w))"
| "collection_route M E ctx (BatchAnalyzeRoute name req) w = Some (snd (batch_analyze_route M E name req w))"
| "collection_route M E ctx (FingerprintRoute name) w = Some (snd (fingerprint_route M name w))"
| "collection_route M E ctx (DocumentsRoute name q) w = Some (snd (get_documents_route M E name q w))"
| "collection_route M E ctx (QueryRoute name req) w = Some (snd (query_documents_route M E name ctx req w))"
| "collection_route M E ctx (DocumentRoute name doc_id) w = Some (snd (get_document_route M E name doc_id w))"
| "collection_route M E ctx (DeleteDocumentRoute name doc_id) w = Some (snd (delete_document_route M name doc_id w))"

end
