(* ===== verification/Endpoints_Sound.thy ===== *)
theory Endpoints_Sound
  imports Endpoints Routes_Sound Collection_Queries Collection_Batch
begin

text \<open>
  The endpoints on collections and documents.
\<close>

section \<open>Mutations stay inside a collection\<close>

lemma append_all_inside:
  "storage_ok K view \<Longrightarrow> append_docs_to_location K s c l ds = Inr s' \<Longrightarrow> inside view c s s'"
  by (auto simp: append_docs_to_location_def put_doc_index_entry_def rbind_eq_Inr inside_def
      split: if_splits intro: same_outside_write)

lemma delete_entry_inside:
  "storage_ok K view \<Longrightarrow> delete_doc_index_entry K s c l = Inr s' \<Longrightarrow> inside view c s s'"
  by (auto simp: delete_doc_index_entry_def rbind_eq_Inr inside_def intro: same_outside_write)

lemma put_entry_inside:
  "storage_ok K view \<Longrightarrow> put_doc_index_entry K s c l ds = Inr s' \<Longrightarrow> inside view c s s'"
  by (auto simp: put_doc_index_entry_def rbind_eq_Inr inside_def intro: same_outside_write)

lemma migrate_inside: "storage_ok K view \<Longrightarrow> migrate_postings K c s x y = Inr s' \<Longrightarrow> inside view c s s'"
  by (auto simp: migrate_postings_def rbind_eq_Inr split: if_splits
      intro: inside_trans put_entry_inside delete_entry_inside)

lemma persist_documents_inside:
  assumes K: "storage_ok (mc_storage M) view" and p: "persist_documents M c b s = Inr s'"
  shows "store_inside view c s s'"
proof -
  let ?K = "mc_storage M"
  obtain t1 t2 t3 t4 where t: "put_locations M (st_precision s) (st_dbs s) c (locations_at (bd_inner b) (sorted_set (bd_touched b))) = Inr t1"
    "rfold (\<lambda>txn (doc_id, data). put_document ?K txn c doc_id data) t1 (bd_docs b) = Inr t2"
    "rfold (\<lambda>txn (l, ds). append_docs_to_location ?K txn c l ds) t2 (group_postings (bd_postings b)) = Inr t3"
    "put_doc_counters M t3 c (bd_inner b) = Inr t4" "s' = s\<lparr>st_dbs := t4\<rparr>"
    using p txn_eq [OF K] by (fastforce simp: persist_documents_def Let_def rbind_eq_Inr)
  have "inside view c t1 t2" using t(2) by (rule rfold_inside) (auto intro: put_document_inside [OF K])
  moreover have "inside view c t2 t3" using t(3) by (rule rfold_inside) (auto intro: append_all_inside [OF K])
  ultimately have "inside view c (st_dbs s) t4"
    by (blast intro: inside_trans put_locations_inside [OF K t(1)] put_doc_counters_inside [OF K t(4)])
  then show ?thesis by (simp add: t(5) store_inside_def)
qed

interpretation confined_documents: confined "\<lambda>M. document_batch_body M items" for items
  by unfold_locales
    (auto simp: document_batch_body_def Let_def split: sum.splits prod.splits option.splits if_splits
      intro: persist_documents_inside)

lemma compress_postings_inside:
  "storage_ok K view \<Longrightarrow> compress_postings K c parent removed s = Some (Inr s') \<Longrightarrow> inside view c s s'"
proof (induction K c parent removed s rule: compress_postings.induct)
  case (2 K c parent removed rest s)
  then show ?case
    by (auto simp: rbind_eq_Inr split: option.splits sum.splits; blast intro: inside_trans migrate_inside delete_location_inside)
qed simp

lemma persist_compress_inside:
  assumes K: "storage_ok (mc_storage M) view" and p: "persist_compress M c ls removed parent s = Some (Inr s')"
  shows "store_inside view c s s'"
proof -
  obtain t1 t2 where t: "compress_postings (mc_storage M) c parent removed (st_dbs s) = Some (Inr t1)"
    "put_locations M (st_precision s) t1 c ls = Inr t2" "s' = s\<lparr>st_dbs := t2\<rparr>"
    using p txn_eq [OF K] by (fastforce simp: persist_compress_def rbind_eq_Inr split: sum.splits)
  show ?thesis
    using inside_trans [OF compress_postings_inside [OF K t(1)] put_locations_inside [OF K t(2)]]
    by (simp add: t(3) store_inside_def)
qed

interpretation confined_compression: confined "total_compress kappa lambda" for kappa lambda
proof
  fix M view c inner s rng out s' rng'
  assume K: "storage_ok (mc_storage M) view" and r: "total_compress kappa lambda M c inner s rng = (out, s', rng')"
  show "store_inside view c s s'"
    using r unfolding total_compress_def compress_body_def Let_def
    by (auto split: sum.splits prod.splits if_splits option.splits
        intro: store_inside_trans persist_compress_inside [OF K] materialize_inside [OF K])
qed

text \<open>Deleting a document rewrites posting lists of its collection only.\<close>

lemma rewrites_prefix:
  assumes "doc_index_rewrites K w entries = Inr changes" "\<forall>e\<in>set entries. P (fst e)" "(k, ids) \<in> set changes"
  shows "P k"
  using assms(2,3) doc_index_rewrites_eq [OF assms(1)]
  by (auto simp: List.map_filter_def)

lemma delete_everywhere_inside:
  assumes K: "storage_ok K view" and d: "delete_document_everywhere K s c w = Inr (existed, s')"
  shows "inside view c s s'"
proof -
  obtain r docs entries changes index where d:
    "sg_get K (db_documents s) (document_key c w) = Inr r"
    "(if r \<noteq> None then sg_delete K (db_documents s) (document_key c w) else Ok (db_documents s)) = Inr docs"
    "sg_prefix_iter K (db_doc_index s) (collection_prefix c) = Inr entries"
    "doc_index_rewrites K w entries = Inr changes"
    "rfold (\<lambda>d (k, kept). if kept = [] then sg_delete K d k
        else rbind (sg_ser_u64s K kept) (\<lambda>v. sg_put K d k v)) (db_doc_index s) changes = Inr index"
    "existed = (r \<noteq> None)" "s' = s\<lparr>db_documents := docs, db_doc_index := index\<rparr>"
    using d unfolding delete_document_everywhere_def Let_def rbind_eq_Inr by auto
  have listed: "\<forall>e\<in>set entries. prefix (collection_prefix c) (fst e)"
    using storage_okD(7) [OF K d(3)] by (auto simp: listing_def)
  have "same_outside c (view (db_doc_index s)) (view index)"
  proof (rule rfold_invariant [OF d(5), where I = "\<lambda>x. same_outside c (view (db_doc_index s)) (view x)"])
    fix x e y
    assume x: "same_outside c (view (db_doc_index s)) (view x)" and e: "e \<in> set changes"
      and y: "(\<lambda>(k, ids). if ids = [] then sg_delete K x k
        else rbind (sg_ser_u64s K ids) (\<lambda>v. sg_put K x k v)) e = Inr y"
    obtain k ids where k: "e = (k, ids)" by fastforce
    have "prefix (collection_prefix c) k" by (rule rewrites_prefix [OF d(4) listed]) (use e k in simp)
    then have "same_outside c (view x) (view y)"
      using y by (auto simp: k rbind_eq_Inr split: if_splits intro: same_outside_write [OF K])
    with x show "same_outside c (view (db_doc_index s)) (view y)" by (simp add: same_outside_def)
  qed simp
  moreover have "same_outside c (view (db_documents s)) (view docs)"
    using d(2) by (auto split: if_splits intro: same_outside_write [OF K])
  ultimately show ?thesis by (simp add: inside_def d(7))
qed

section \<open>Staging and flushing the log\<close>

text \<open>A hive in which only the log, its database and the count of skipped records differ.\<close>

definition quiet_store :: "'db store \<Rightarrow> 'db store \<Rightarrow> bool" where
  "quiet_store s s' \<longleftrightarrow> st_precision s' = st_precision s \<and>
     (st_dbs s')\<lparr>db_audit := db_audit (st_dbs s)\<rparr> = st_dbs s"

definition quiet :: "'db hive \<Rightarrow> 'db hive \<Rightarrow> bool" where
  "quiet H H' \<longleftrightarrow> quiet_store (hv_store H) (hv_store H') \<and> hv_config H' = hv_config H \<and>
     hv_heap H' = hv_heap H \<and> hv_cache H' = hv_cache H \<and> hv_poisoned H' = hv_poisoned H"

lemma quiet_store_fields:
  assumes "quiet_store s s'"
  shows "db_registry (st_dbs s') = db_registry (st_dbs s)" "db_locations (st_dbs s') = db_locations (st_dbs s)"
    "db_metadata (st_dbs s') = db_metadata (st_dbs s)" "db_documents (st_dbs s') = db_documents (st_dbs s)"
    "db_doc_index (st_dbs s') = db_doc_index (st_dbs s)" "st_precision s' = st_precision s"
  using assms by (cases "st_dbs s"; cases "st_dbs s'"; simp add: quiet_store_def)+

lemma quiet_store_refl [simp]: "quiet_store s s"
  by (simp add: quiet_store_def)

lemma quiet_store_trans: "quiet_store s t \<Longrightarrow> quiet_store t u \<Longrightarrow> quiet_store s u"
  by (cases "st_dbs s"; cases "st_dbs t"; cases "st_dbs u") (simp add: quiet_store_def)

lemma quiet_refl [simp]: "quiet H H"
  by (simp add: quiet_def)

lemma quiet_trans: "quiet H H1 \<Longrightarrow> quiet H1 H2 \<Longrightarrow> quiet H H2"
  by (auto simp: quiet_def intro: quiet_store_trans)

lemma quiet_ok:
  assumes "quiet H H'"
  shows "hive_ok M view H' = hive_ok M view H" "closed_ok M view opening H' = closed_ok M view opening H"
    "registry view (hv_store H') = registry view (hv_store H)"
proof -
  note Q = assms [unfolded quiet_def]
  note F = quiet_store_fields [OF Q [THEN conjunct1]]
  note kept = same_records_kept [OF F(2,3,6)]
  show "hive_ok M view H' = hive_ok M view H" using Q by (simp add: hive_ok_def Let_def kept F)
  show "closed_ok M view opening H' = closed_ok M view opening H" using Q by (simp add: closed_ok_def kept F)
  show "registry view (hv_store H') = registry view (hv_store H)" by (simp add: F)
qed

lemma quiet_step:
  assumes "quiet H H'" "hive_ok M view H" "closed_ok M view {} H"
  shows "step_ok M view {} H H'"
  using assms(2,3) assms(1) [unfolded quiet_def] by (simp add: step_ok_def quiet_ok [OF assms(1)])

lemma prune_audit_only: "prune_audit K t n m = Inr (k, t') \<Longrightarrow> \<exists>d. t' = t\<lparr>db_audit := d\<rparr>"
  by (auto simp: prune_audit_def Let_def rbind_eq_Inr split: if_splits) (rule exI [of _ "db_audit t"], simp)

lemma append_batch_only: "append_batch K A t batch = Inr t' \<Longrightarrow> \<exists>d. t' = t\<lparr>db_audit := d\<rparr>"
  unfolding append_batch_def
proof (erule rfold_invariant [where I = "\<lambda>x. \<exists>d. x = t\<lparr>db_audit := d\<rparr>"])
  show "\<exists>d. t = t\<lparr>db_audit := d\<rparr>" by (rule exI [of _ "db_audit t"]) simp
qed (auto simp: rbind_eq_Inr append_audit_def)

lemma commit_quiet:
  assumes "storage_ok K view" "write_txn K s = Inr t" "commit K s (t\<lparr>db_audit := d\<rparr>) = Inr s'"
  shows "quiet_store s s'"
  using txn_eq [OF assms(1)] assms(2,3) by (fastforce simp: quiet_store_def)

lemma flush_quiet:
  assumes K: "storage_ok K view" and f: "flush_audit K A now H = (r, H')"
  shows "quiet H H'"
proof -
  obtain a s where s: "flush_log K A now (hv_audit H) (hv_store H) = (r, a, s)" "H' = H\<lparr>hv_audit := a, hv_store := s\<rparr>"
    using f by (auto simp: flush_audit_def split: prod.splits)
  have "quiet_store (hv_store H) s"
    using s(1)
    by (auto simp: flush_log_def prune_log_def Let_def rbind_eq_Inr split: if_splits sum.splits
        dest!: prune_audit_only append_batch_only intro: commit_quiet [OF K])
  then show ?thesis by (simp add: quiet_def s(2))
qed

lemma record_quiet:
  assumes K: "storage_ok (mc_storage M) view"
  shows "quiet H (record_read M E ctx ev H)"
proof -
  have "quiet H (snd (record_audit now r H))" for now r
    by (simp add: record_audit_def quiet_def split: prod.split)
  then show ?thesis
    using flush_quiet [OF K]
    by (auto simp: record_read_def Let_def split: prod.split; metis quiet_trans snd_conv prod.collapse)
qed

lemma audited_quiet:
  assumes "storage_ok (mc_storage M) view"
  shows "quiet H (fst (audited M E ctx name route query ids r (H, rng)))"
  using record_quiet [OF assms] by (simp add: audited_def audit_read_def Let_def)

section \<open>Tasks\<close>

lemma on_collection_step:
  assumes ok: "hive_ok M view H" "closed_ok M view {} H" and a: "a < length (hv_heap H)"
    and run: "on_collection a f (H, rng) = (r, H', rng')"
    and f: "\<And>c s r' c' s' rng'. c = hv_heap H ! a \<Longrightarrow> s = hv_store H \<Longrightarrow> sound M view c s \<Longrightarrow> f (c, s, rng) = (r', c', s', rng') \<Longrightarrow>
      store_inside view (co_id c) s s' \<and> co_id c' = co_id c \<and> sound M view c' s'"
  shows "step_ok M view {} H H'"
proof -
  obtain C s where C: "f (hv_heap H ! a, hv_store H, rng) = (r, C, s, rng')"
    "H' = H\<lparr>hv_heap := (hv_heap H)[a := C], hv_store := s\<rparr>"
    using run by (auto simp: on_collection_def split: prod.splits)
  note F = f [OF refl refl heap_sound [OF ok(1) a] C(1)]
  show ?thesis using handle_ok(1) [OF ok a _ _ _ C(2)] F by blast
qed

lemma write_task_ok:
  assumes K: "storage_ok (mc_storage M) view" and ok: "hive_ok M view H" "closed_ok M view {} H"
    and a: "a < length (hv_heap H)" and fits: "unat (in_next_id (co_inner (hv_heap H ! a))) + length vectors < 2 ^ 64"
    and run: "write_task M E a vectors (Some metadata) (H, rng) = (r, H', rng')"
  shows "step_ok M view {} H H'"
proof (cases "write_items E vectors metadata")
  case (Inl e)
  then show ?thesis using run ok by (auto simp: write_task_def intro: quiet_step)
next
  case (Inr items)
  then have "length items = length vectors"
    by (auto simp: write_items_def dest!: rmap_Inr_length split: if_splits)
  obtain r1 where o: "on_collection a (write_batch_with_metadata M items) (H, rng) = (r1, H', rng')"
    using run Inr by (auto simp: write_task_def split: prod.splits)
  show ?thesis
  proof (rule on_collection_step [OF ok a o])
    fix c s r' c' s' rng'
    assume c: "c = hv_heap H ! a" and s: "sound M view c s"
      and w: "write_batch_with_metadata M items (c, s, rng) = (r', c', s', rng')"
    show "store_inside view (co_id c) s s' \<and> co_id c' = co_id c \<and> sound M view c' s'"
    proof (cases "validate_all (map fst items)")
      case (Inl e)
      then show ?thesis using w s by (simp add: write_batch_with_metadata_def)
    next
      case (Inr u)
      then have m: "atomic_mutation M (document_batch_body M items) (c, s, rng) = (r', c', s', rng')"
        using w by (simp add: write_batch_with_metadata_def)
      have "unat (in_next_id (co_inner c)) + length items < 2 ^ 64"
        using fits \<open>length items = length vectors\<close> by (simp add: c)
      from confined_documents.mutation_inside [OF K m] document_batch.keeps_sound [OF K s this m]
      show ?thesis by blast
    qed
  qed
qed

lemma bulk_locations_nth:
  assumes "bulk_locations d as cs wc = Inr ls" "length cs = length as"
  shows "length ls = length as"
    and "i < length ls \<Longrightarrow> length (as ! i) = d \<and> length (cs ! i) = d \<and>
      ls ! i = (HardLocation_new (of_nat i) (as ! i))\<lparr>loc_counter := cs ! i,
        loc_write_count := (case wc of Some w \<Rightarrow> w ! i | None \<Rightarrow> 1)\<rparr>"
proof -
  have *: "list_all2 (\<lambda>x y. bulk_location d wc x = Inr y) (zip [0..<length as] (zip as cs)) ls"
    using assms(1) by (simp add: bulk_locations_def rmap_Inr_iff)
  show len: "length ls = length as" using list_all2_lengthD [OF *] assms(2) by simp
  show "length (as ! i) = d \<and> length (cs ! i) = d \<and> ls ! i = (HardLocation_new (of_nat i) (as ! i))\<lparr>loc_counter := cs ! i,
        loc_write_count := (case wc of Some w \<Rightarrow> w ! i | None \<Rightarrow> 1)\<rparr>" if "i < length ls"
    using list_all2_nthD2 [OF * that] that len assms(2)
    by (auto simp: bulk_location_def split: if_splits)
qed

lemma bulk_locations_ok:
  assumes "bulk_locations (cfg_d cfg) as cs wc = Inr ls" "length cs = length as" "length as < 2 ^ 64"
  shows "snap_ok \<lparr>sn_locations = ls, sn_config = cfg\<rparr>"
proof -
  note L = bulk_locations_nth [OF assms(1,2)]
  have ids: "map loc_id ls = map of_nat [0..<length ls]"
    by (rule nth_equalityI) (use L(2) in \<open>auto simp: HardLocation_new_def\<close>)
  have "sorted_wrt (<) (map of_nat [0..<length ls] :: u64 list)"
    using assms(3) L(1) by (auto simp: sorted_wrt_iff_nth_less intro: of_nat_less_u64)
  moreover have "loc_id l < - 1" if "l \<in> set ls" for l
  proof -
    have "loc_id l \<in> set (map of_nat [0..<length ls])" using that by (simp add: ids [symmetric])
    then obtain i where i: "i < length ls" "loc_id l = of_nat i" by auto
    show ?thesis unfolding i(2) by (rule of_nat_less_max) (use i(1) L(1) assms(3) in linarith)
  qed
  moreover have "cells_ok (cfg_d cfg) ls"
    using L(2) by (auto simp: cells_ok_def loc_wf_def in_set_conv_nth HardLocation_new_def)
  ultimately show ?thesis using assms(3) L(1) ids by (simp add: snap_ok_def sn_dim_def)
qed

lemma bulk_task_ok:
  assumes K: "storage_ok (mc_storage M) view" and ok: "hive_ok M view H" "closed_ok M view {} H"
    and a: "a < length (hv_heap H)" and cs: "length cs = length as" "length as < 2 ^ 64"
    and run: "bulk_task M a as cs wc (H, rng) = (r, H', rng')"
  shows "step_ok M view {} H H'"
proof (cases "\<exists>locs cfg v ls. snapshot_versioned (hv_heap H ! a) = Inr (locs, cfg, v) \<and> bulk_locations (cfg_d cfg) as cs wc = Inr ls")
  case True
  then obtain locs cfg v ls where s: "snapshot_versioned (hv_heap H ! a) = Inr (locs, cfg, v)"
    and ls: "bulk_locations (cfg_d cfg) as cs wc = Inr ls" by blast
  obtain r1 where o: "on_collection a (load_snapshot_checked M ls cfg (Some v)) (H, rng) = (r1, H', rng')"
    using run s ls by (auto simp: bulk_task_def split: prod.splits)
  have sn: "snap_ok \<lparr>sn_locations = ls, sn_config = cfg\<rparr>" by (rule bulk_locations_ok [OF ls cs])
  have "in_config (co_inner (hv_heap H ! a)) = cfg" "in_valid (co_inner (hv_heap H ! a))"
    using s by (auto simp: snapshot_versioned_def read_inner_def rbind_eq_Inr)
  then have "0 < cfg_d cfg" using heap_sound [OF ok(1) a] by (auto simp: sound_def consistent_def)
  then have d: "0 < sn_dim \<lparr>sn_locations = ls, sn_config = cfg\<rparr>" by (simp add: sn_dim_def)
  show ?thesis
    by (rule on_collection_step [OF ok a o]) (use load_inside [OF K _ sn d] in simp)
next
  case False
  then have "H' = H" using run by (auto simp: bulk_task_def split: sum.splits prod.splits)
  then show ?thesis using ok by (auto intro: quiet_step)
qed

lemma delete_inside_sound:
  assumes K: "storage_ok (mc_storage M) view" and s: "sound M view c s"
    and d: "delete_document M k (c, s) = (r, c', s')"
  shows "store_inside view (co_id c) s s' \<and> co_id c' = co_id c \<and> sound M view c' s'"
proof (cases r)
  case (Inl e)
  then have "s' = s" "co_inner c' = co_inner c" "co_id c' = co_id c"
    using d by (auto simp: delete_document_def Let_def split: sum.splits)
  then show ?thesis using s by (simp add: sound_def)
next
  case (Inr existed)
  obtain t where t: "delete_document_everywhere (mc_storage M) (st_dbs s) (co_id c) k = Inr (existed, t)"
    "s' = s\<lparr>st_dbs := t\<rparr>" "c' = c"
    by (rule delete_document_result [OF K d [unfolded Inr]])
  note F = delete_document_everywhere_fields [OF t(1)]
  have "sound M view c s'" using s F by (simp add: sound_def consistent_def durable_def t(2))
  then show ?thesis using delete_everywhere_inside [OF K t(1)] by (simp add: store_inside_def t(2,3))
qed

lemma compress_task_ok:
  assumes K: "storage_ok (mc_storage M) view" and ok: "hive_ok M view H" "closed_ok M view {} H"
    and a: "a < length (hv_heap H)" and run: "compress_task M req a (H, rng) = x"
  shows "\<exists>resp H' rng'. x = Some (resp, H', rng') \<and> step_ok M view {} H H'"
proof -
  let ?c = "hv_heap H ! a" and ?kappa = "compress_kappa req (hv_heap H ! a)" and ?lambda = "unwrap_or 1 (zq_lambda req)"
  note s = heap_sound [OF ok(1) a]
  obtain r c s' rng' where m: "atomic_mutation M (total_compress ?kappa ?lambda M) (?c, hv_store H, rng) = (r, c, s', rng')"
    by (metis prod_cases4)
  let ?H = "H\<lparr>hv_heap := (hv_heap H)[a := c], hv_store := s'\<rparr>"
  have "x = Some (direct_response INTERNAL_SERVER_ERROR id r, ?H, rng')"
    using run compress_ends [OF K s, of ?kappa ?lambda rng] m by (simp add: compress_task_def Let_def)
  moreover have "step_ok M view {} H ?H"
    using handle_ok(1) [OF ok a _ _ _ refl] confined_compression.mutation_inside [OF K m]
      compression.keeps_sound [OF K s TrueI m] by blast
  ultimately show ?thesis by blast
qed

text \<open>Queries only count what they skip.\<close>

lemma reading_quiet:
  assumes "reading_store a f (H, rng) = (r, H', rng')"
    and "\<And>c x s'. f c (hv_store H) = Inr (x, s') \<Longrightarrow> st_dbs s' = st_dbs (hv_store H) \<and> st_precision s' = st_precision (hv_store H)"
  shows "quiet H H'"
  using assms by (auto simp: reading_store_def quiet_def quiet_store_def split: sum.splits)

lemma query_store:
  "query_documents_scoped M ord c s q n role = Inr (x, s') \<Longrightarrow> st_dbs s' = st_dbs s \<and> st_precision s' = st_precision s"
  "query_documents_multi_role M ord c s q n pairs cl = Inr (y, s') \<Longrightarrow> st_dbs s' = st_dbs s \<and> st_precision s' = st_precision s"
  "Collection_list_documents_page M c s k l = Inr (docs, tot, skipped, s') \<Longrightarrow>
     st_dbs s' = st_dbs s \<and> st_precision s' = st_precision s"
  by (auto simp: query_documents_scoped_def query_documents_multi_role_def Collection_list_documents_page_def decode_all_def
      Let_def rbind_eq_Inr split: prod.splits if_splits)

section \<open>Handlers\<close>

lemma target_keeps:
  assumes req: "request_ok M view H [n]" and run: "with_target M n k (H, rng) = (resp, H', rng')"
    and k: "\<And>t H1 rng1. Hive_get_or_create M n (H, rng) = (Inr t, H1, rng1) \<Longrightarrow> hive_ok M view H1 \<Longrightarrow>
      closed_ok M view {} H1 \<Longrightarrow> t < length (hv_heap H1) \<Longrightarrow> k t (H1, rng1) = (resp, H', rng') \<Longrightarrow> step_ok M view {} H1 H'"
  shows "hive_ok M view H'"
proof -
  obtain r H1 rng1 where g: "Hive_get_or_create M n (H, rng) = (r, H1, rng1)" by (metis prod_cases3)
  note G = get_or_create_ok [OF request_okD(1-3) [OF req] _ request_okD(4) [OF req] g]
  have n: "n \<noteq> NEXT_COLLECTION_ID_KEY" using request_okD(5) [OF req] by simp
  show ?thesis
  proof (cases r)
    case (Inl e)
    then show ?thesis using run g G [OF n] by (simp add: with_target_def)
  next
    case (Inr t)
    then show ?thesis using k [of t H1 rng1] G [OF n] run g by (simp add: with_target_def step_ok_def)
  qed
qed

lemma source_keeps:
  assumes req: "request_ok M view H [n]" and run: "with_source M missing n k (H, rng) = (resp, H', rng')"
    and k: "\<And>a H1 rng1. hive_ok M view H1 \<Longrightarrow> closed_ok M view {} H1 \<Longrightarrow> a < length (hv_heap H1) \<Longrightarrow>
      k a (H1, rng1) = (resp, H', rng') \<Longrightarrow> step_ok M view {} H1 H'"
  shows "hive_ok M view H'"
  by (rule with_source_ok [OF request_okD(1-3) [OF req] _ run])
    (use k request_okD(5) [OF req] in \<open>auto simp: step_ok_def\<close>)

text \<open>A handler that looks, and perhaps records that it did.\<close>

lemma target_looks:
  assumes req: "request_ok M view H [n]" and run: "with_target M n k (H, rng) = (resp, H', rng')"
    and k: "\<And>t H1 rng1. k t (H1, rng1) = (resp, H', rng') \<Longrightarrow> quiet H1 H'"
  shows "hive_ok M view H'"
  by (rule target_keeps [OF req run]) (auto intro: quiet_step k)

lemma source_looks:
  assumes req: "request_ok M view H [n]" and run: "with_source M missing n k (H, rng) = (resp, H', rng')"
    and k: "\<And>t H1 rng1. k t (H1, rng1) = (resp, H', rng') \<Longrightarrow> quiet H1 H'"
  shows "hive_ok M view H'"
  by (rule source_keeps [OF req run]) (auto intro: quiet_step k)

lemma audited_eq:
  assumes "storage_ok (mc_storage M) view" "audited M E ctx name route query ids r (H, rng) = (H', rng')"
  shows "quiet H H'"
  using audited_quiet [OF assms(1), of H E ctx name route query ids r rng] assms(2) by simp

lemma create_is_get_or_create: "Hive_create M n w = Hive_get_or_create M n w"
  by (auto simp: Hive_create_def Hive_get_or_create_def cached_def rbind_def ensure_def split: sum.split option.split)

text \<open>What a request writes fits the ids that are left in the collection that it opens or makes.\<close>

definition ids_last :: "('r, 'db) machine \<Rightarrow> bytes \<Rightarrow> nat \<Rightarrow> ('r, 'db) hworld \<Rightarrow> bool" where
  "ids_last M name n w \<longleftrightarrow>
     (\<forall>a w1. Hive_get_or_create M name w = (Inr a, w1) \<longrightarrow>
        unat (in_next_id (co_inner (open_collection w1 a))) + n < 2 ^ 64)"

fun route_names :: "'j collection_request \<Rightarrow> bytes list" where
  "route_names (CreateRoute name) = [name]"
| "route_names ListRoute = []"
| "route_names (DropRoute name) = [name]"
| "route_names (WriteRoute name req) = [name]"
| "route_names (BulkLoadRoute name req) = [name]"
| "route_names (ReadRoute name req) = [name]"
| "route_names (AttentionRoute name req) = [name]"
| "route_names (AttentionMdlRoute name query) = [name]"
| "route_names (CalibrateRoute name betas) = [name]"
| "route_names (StatsRoute name) = [name]"
| "route_names (CompressRoute name req) = [name]"
| "route_names (ConfigRoute name) = [name]"
| "route_names (LocationsRoute name full) = [name]"
| "route_names (AnalyzeRoute name req) = [name]"
| "route_names (BatchAnalyzeRoute name req) = [name]"
| "route_names (FingerprintRoute name) = [name]"
| "route_names (DocumentsRoute name q) = [name]"
| "route_names (QueryRoute name req) = [name]"
| "route_names (DocumentRoute name doc_id) = [name]"
| "route_names (DeleteDocumentRoute name doc_id) = [name]"

text \<open>Dropping, and writing patterns without metadata, do not keep memory and store in step.\<close>

fun route_ok :: "('r, 'db) machine \<Rightarrow> 'j http_env \<Rightarrow> 'j collection_request \<Rightarrow> ('r, 'db) hworld \<Rightarrow> bool" where
  "route_ok M E (DropRoute name) w = False"
| "route_ok M E (WriteRoute name req) w =
     (wq_metadata req \<noteq> None \<and>
      (\<forall>vs. resolve_vectors E (wq_vectors req) (wq_vectors_b64 req) ''vectors'' = Inr vs \<longrightarrow> ids_last M name (length vs) w))"
| "route_ok M E (BulkLoadRoute name req) w = (\<forall>as cs. bulk_checked E req = Inr (as, cs) \<longrightarrow> length as < 2 ^ 64)"
| "route_ok M E _ w = True"

lemma create_keeps:
  assumes req: "request_ok M view H [n]" and run: "create_collection_route M n (H, rng) = (resp, H', rng')"
  shows "hive_ok M view H'"
proof (cases "Hive_list M H = Inl Panic")
  case True
  then show ?thesis using run request_okD(2) [OF req] by (simp add: create_collection_route_def)
next
  case False
  obtain r H1 rng1 where g: "Hive_get_or_create M n (H, rng) = (r, H1, rng1)" by (metis prod_cases3)
  have "H' = H1" using run False g
    by (auto simp: create_collection_route_def create_is_get_or_create split: sum.splits fault.splits)
  then show ?thesis
    using get_or_create_ok [OF request_okD(1-3) [OF req] _ request_okD(4) [OF req] g] request_okD(5) [OF req] by simp
qed

lemma write_keeps:
  assumes req: "request_ok M view H [n]" and ok: "route_ok M E (WriteRoute n q) (H, rng)"
    and run: "write_route M E n q (H, rng) = (resp, H', rng')"
  shows "hive_ok M view H'"
proof (cases "\<exists>vs. resolve_vectors E (wq_vectors q) (wq_vectors_b64 q) ''vectors'' = Inr vs \<and> vs \<noteq> []")
  case True
  then obtain vs where vs: "resolve_vectors E (wq_vectors q) (wq_vectors_b64 q) ''vectors'' = Inr vs" "vs \<noteq> []" by blast
  obtain meta where meta: "wq_metadata q = Some meta" using ok by auto
  have run1: "with_target M n (\<lambda>a w. let (r, w) = write_task M E a vs (Some meta) w in (write_response r, w)) (H, rng) =
      (resp, H', rng')" using run vs by (simp add: write_route_def meta)
  show ?thesis
  proof (rule target_keeps [OF req run1])
    fix t H1 rng1
    assume g: "Hive_get_or_create M n (H, rng) = (Inr t, H1, rng1)" and o: "hive_ok M view H1" "closed_ok M view {} H1"
      "t < length (hv_heap H1)" and r: "(let (r, w) = write_task M E t vs (Some meta) (H1, rng1) in (write_response r, w)) = (resp, H', rng')"
    obtain r1 where "write_task M E t vs (Some meta) (H1, rng1) = (r1, H', rng')" using r by (auto split: prod.splits)
    moreover have "unat (in_next_id (co_inner (hv_heap H1 ! t))) + length vs < 2 ^ 64"
      using ok vs g by (auto simp: ids_last_def)
    ultimately show "step_ok M view {} H1 H'" using write_task_ok [OF request_okD(1) [OF req] o] by blast
  qed
next
  case False
  then have "H' = H" using run by (auto simp: write_route_def split: sum.splits if_splits)
  then show ?thesis using request_okD(2) [OF req] by simp
qed

lemma bulk_checked_lengths: "bulk_checked E q = Inr (as, cs) \<Longrightarrow> length cs = length as"
  by (auto simp: bulk_checked_def Let_def ebind_Inr)

lemma bulk_keeps:
  assumes req: "request_ok M view H [n]" and ok: "route_ok M E (BulkLoadRoute n q) (H, rng)"
    and run: "bulk_load_route M E n q (H, rng) = (resp, H', rng')"
  shows "hive_ok M view H'"
proof (cases "bulk_checked E q")
  case (Inl m)
  then show ?thesis using run request_okD(2) [OF req] by (simp add: bulk_load_route_def)
next
  case (Inr x)
  obtain as cs where x: "x = (as, cs)" by fastforce
  have run1: "with_target M n (\<lambda>a w. let (r, w) = bulk_task M a as cs (bq_write_counts q) w in (bulk_response r, w)) (H, rng) =
      (resp, H', rng')" using run Inr x by (simp add: bulk_load_route_def)
  have len: "length cs = length as" "length as < 2 ^ 64"
    using bulk_checked_lengths ok Inr x by auto
  show ?thesis
    by (rule target_keeps [OF req run1])
      (use bulk_task_ok [OF request_okD(1) [OF req] _ _ _ len] in \<open>auto split: prod.splits\<close>)
qed

lemma compress_keeps:
  assumes req: "request_ok M view H [n]" and run: "compress_route M n q (H, rng) = x"
  shows "\<exists>resp H' rng'. x = Some (resp, H', rng') \<and> hive_ok M view H'"
proof -
  obtain r H1 rng1 where g: "Hive_get M n (H, rng) = (r, H1, rng1)" by (metis prod_cases3)
  have n: "n \<noteq> NEXT_COLLECTION_ID_KEY" using request_okD(5) [OF req] by simp
  note G = get_ok [OF request_okD(1-3) [OF req] n g]
  show ?thesis
  proof (cases "\<exists>a. r = Inr (Some a)")
    case True
    then obtain a where a: "r = Inr (Some a)" by blast
    then have "compress_task M q a (H1, rng1) = x" using run g by (simp add: compress_route_def)
    from compress_task_ok [OF request_okD(1) [OF req] _ _ _ this] G a show ?thesis by (auto simp: step_ok_def)
  next
    case False
    then show ?thesis using run g G by (auto simp: compress_route_def step_ok_def split: sum.splits option.splits)
  qed
qed

lemma reads_keep:
  assumes req: "request_ok M view H [n]"
  shows "read_route M E n ctx q1 (H, rng) = (resp1, H', rng') \<Longrightarrow> hive_ok M view H'"
    and "attention_route M E n ctx q2 (H, rng) = (resp2, H', rng') \<Longrightarrow> hive_ok M view H'"
    and "analyze_route M E n ctx q1 (H, rng) = (resp3, H', rng') \<Longrightarrow> hive_ok M view H'"
    and "attention_mdl_route M n query (H, rng) = (resp4, H', rng') \<Longrightarrow> hive_ok M view H'"
    and "calibrate_route M n betas (H, rng) = (resp5, H', rng') \<Longrightarrow> hive_ok M view H'"
    and "batch_analyze_route M E n q3 (H, rng) = (resp6, H', rng') \<Longrightarrow> hive_ok M view H'"
proof -
  note K = request_okD(1) [OF req] and ok = request_okD(2) [OF req]
  show "read_route M E n ctx q1 (H, rng) = (resp1, H', rng') \<Longrightarrow> hive_ok M view H'"
    "analyze_route M E n ctx q1 (H, rng) = (resp3, H', rng') \<Longrightarrow> hive_ok M view H'"
    "batch_analyze_route M E n q3 (H, rng) = (resp6, H', rng') \<Longrightarrow> hive_ok M view H'"
    using ok by (auto simp: read_route_def analyze_route_def batch_analyze_route_def Let_def split: sum.splits
        elim!: target_looks [OF req] dest: audited_eq [OF K])
  show "attention_route M E n ctx q2 (H, rng) = (resp2, H', rng') \<Longrightarrow> hive_ok M view H'"
    "attention_mdl_route M n query (H, rng) = (resp4, H', rng') \<Longrightarrow> hive_ok M view H'"
    "calibrate_route M n betas (H, rng) = (resp5, H', rng') \<Longrightarrow> hive_ok M view H'"
    by (auto simp: attention_route_def attention_mdl_route_def calibrate_route_def Let_def
        elim!: target_looks [OF req] dest: audited_eq [OF K])
qed

lemma looks_keep:
  assumes req: "request_ok M view H [n]"
  shows "stats_route M n (H, rng) = (resp1, H', rng') \<Longrightarrow> hive_ok M view H'"
    and "collection_config_route M n (H, rng) = (resp2, H', rng') \<Longrightarrow> hive_ok M view H'"
    and "locations_route M n full (H, rng) = (resp3, H', rng') \<Longrightarrow> hive_ok M view H'"
    and "fingerprint_route M n (H, rng) = (resp4, H', rng') \<Longrightarrow> hive_ok M view H'"
    and "get_document_route M E n i (H, rng) = (resp5, H', rng') \<Longrightarrow> hive_ok M view H'"
  by (auto simp: stats_route_def collection_config_route_def locations_route_def fingerprint_route_def get_document_route_def
      elim!: source_looks [OF req])

lemma documents_keep:
  assumes req: "request_ok M view H [n]" and run: "get_documents_route M E n q (H, rng) = (resp, H', rng')"
  shows "hive_ok M view H'"
  using run unfolding get_documents_route_def
  by (rule source_looks [OF req])
    (auto simp: Let_def rbind_eq_Inr split: prod.splits elim!: reading_quiet dest: query_store(3))

lemma query_keeps:
  assumes req: "request_ok M view H [n]" and run: "query_documents_route M E n ctx q (H, rng) = (resp, H', rng')"
  shows "hive_ok M view H'"
  using run unfolding query_documents_route_def
proof (rule target_looks [OF req])
  note K = request_okD(1) [OF req]
  fix a H1 rng1
  assume k: "(if qd_role_pairs q \<noteq> [] then
         if qd_unbind_role q \<noteq> None then (ErrorResponse BAD_REQUEST (Text exclusive_roles), H1, rng1)
         else multi_role_query M E a n ctx q (H1, rng1)
       else
         let (r, w) = reading_store a (\<lambda>c s.
               query_documents_scoped M (he_order E) c s (qd_query q) (qd_n q) (qd_unbind_role q)) (H1, rng1)
         in (task_response BAD_REQUEST (\<lambda>results.
               \<lparr>qs_results = List.map_filter (query_result E None) results, qs_cleanup_beta = None\<rparr>) r,
             audited M E ctx n ''documents/query'' (qd_query q)
               (\<lambda>results. AuditIds_documents (map fst results)) r w)) = (resp, H', rng')"
  have quiet: "quiet H1 H'" if "reading_store a f (H1, rng1) = (r, H2, rng2)"
      "audited M E ctx n ''documents/query'' (qd_query q) ids r (H2, rng2) = (H', rng')"
      "\<And>c x s'. f c (hv_store H1) = Inr (x, s') \<Longrightarrow> st_dbs s' = st_dbs (hv_store H1) \<and> st_precision s' = st_precision (hv_store H1)"
    for f r H2 rng2 and ids :: "'x \<Rightarrow> AuditIds"
    using quiet_trans [OF reading_quiet [OF that(1,3)] audited_eq [OF K that(2)]] .
  show "quiet H1 H'"
    using k by (auto simp: multi_role_query_def Let_def split: if_splits prod.splits
        elim!: quiet dest: query_store(1,2))
qed

lemma delete_keeps:
  assumes req: "request_ok M view H [n]" and run: "delete_document_route M n i (H, rng) = (resp, H', rng')"
  shows "hive_ok M view H'"
  using run unfolding delete_document_route_def
proof (rule source_keeps [OF req])
  fix a H1 rng1
  assume o: "hive_ok M view H1" "closed_ok M view {} H1" "a < length (hv_heap H1)"
    and k: "(let (r, w) = on_collection a (\<lambda>(c, s, rng). let (r, c, s) = delete_document M i (c, s) in (r, c, s, rng)) (H1, rng1)
       in (task_response INTERNAL_SERVER_ERROR id r, w)) = (resp, H', rng')"
  obtain r where r: "on_collection a (\<lambda>(c, s, rng). let (r, c, s) = delete_document M i (c, s) in (r, c, s, rng)) (H1, rng1) =
      (r, H', rng')" using k by (auto split: prod.splits)
  show "step_ok M view {} H1 H'"
    by (rule on_collection_step [OF o r]) (auto split: prod.splits dest: delete_inside_sound [OF request_okD(1) [OF req]])
qed

lemma afterwards:
  "(\<And>resp H' rng'. f = (resp, H', rng') \<Longrightarrow> hive_ok M view H') \<Longrightarrow> hive_ok M view (fst (snd f))"
  by (cases f) auto

lemmas routes_keep = create_keeps reads_keep looks_keep documents_keep query_keeps delete_keeps

lemma collection_route_keeps:
  assumes req: "request_ok M view H (route_names q)" and ok: "route_ok M E q (H, rng)"
  shows "\<exists>w. collection_route M E ctx q (H, rng) = Some w \<and> hive_ok M view (fst w)"
proof (cases q)
  case (CompressRoute n r)
  then show ?thesis
    using compress_keeps [of M view H n r rng] req by fastforce
next
  case (WriteRoute n r)
  then show ?thesis
    using req ok by (auto simp del: route_ok.simps intro!: afterwards write_keeps [of M view H n E r rng])
qed (use req ok in \<open>auto intro!: afterwards intro: routes_keep bulk_keeps [of M view H _ E]
    dest: request_okD(2)\<close>)

end
