(* ===== verification/Endpoints_Facts.thy ===== *)
theory Endpoints_Facts
  imports Endpoints_Sound
begin

text \<open>
  What the endpoints promise across requests: an audited read leaves exactly one record, with the
  status of the answer and the ids that its route records, unless it is refused; documents that a write acknowledged are
  served again with their metadata; a bulk load is what the location listing shows.
\<close>

section \<open>What a lookup leaves alone\<close>

lemma register_audit: "install n r H = (x, H') \<Longrightarrow> hv_audit H' = hv_audit H"
  by (auto simp: install_def publish_def fail_locked_def Let_def split: sum.splits if_splits)

lemma reload_audit: "reload_collection M n i (H, rng) = (r, H', rng') \<Longrightarrow> hv_audit H' = hv_audit H"
  by (auto simp: reload_collection_def split: prod.splits dest: register_audit)

lemma seed_audit: "seed_collection M n i (H, rng) = (r, H', rng') \<Longrightarrow> hv_audit H' = hv_audit H"
  by (auto simp: seed_collection_def Let_def split: prod.splits dest: register_audit)

lemma get_or_create_audit: "Hive_get_or_create M n (H, rng) = (r, H', rng') \<Longrightarrow> hv_audit H' = hv_audit H"
  by (auto simp: Hive_get_or_create_def Hive_create_def create_locked_def fail_locked_def Let_def
      split: sum.splits option.splits if_splits dest!: seed_audit reload_audit)

lemma install_cached: "install n r H = (Inr a, H') \<Longrightarrow> hv_cache H' n = Some a \<and> hv_poisoned H' = hv_poisoned H"
  by (auto simp: install_def publish_def Let_def split: sum.splits)

lemma get_or_create_cached:
  "Hive_get_or_create M n (H, rng) = (Inr a, H', rng') \<Longrightarrow> hv_cache H' n = Some a \<and> \<not> hv_poisoned H'"
  by (auto simp: ensure_def Hive_get_or_create_def Hive_create_def create_locked_def cached_def seed_collection_def
      reload_collection_def rbind_eq_Inr Let_def split: sum.splits option.splits if_splits prod.splits
      dest: install_cached)

section \<open>Audit records\<close>

text \<open>The record that a read leaves, and where it is afterwards: in the buffer, or taken from there
  by the flush that became due.\<close>

definition read_record ::
  "'j http_env \<Rightarrow> AuditLog \<Rightarrow> AuditCtx \<Rightarrow> bytes \<Rightarrow> string \<Rightarrow> f64 list \<Rightarrow> u16 \<Rightarrow> AuditIds \<Rightarrow> AuditRecord" where
  "read_record E lg ctx name route query code ids =
     \<lparr>au_seq = al_seq lg, au_timestamp_ms = he_now E, au_user = cx_user ctx, au_scope = cx_scope ctx,
      au_database = cx_db ctx, au_collection = text_of name, au_route = route, au_status = code,
      au_result_count = id_result_count ids, au_location_ids = id_location_ids ids,
      au_document_ids = id_document_ids ids, au_query_hash = Some (query_hash query),
      au_query_raw = (if ac_store_raw_query (al_config lg) then Some query else None)\<rparr>"

definition staged :: "('r, 'db) machine \<Rightarrow> 'j http_env \<Rightarrow> AuditLog \<Rightarrow> AuditRecord \<Rightarrow> 'db hive \<Rightarrow> bool" where
  "staged M E lg r H' \<longleftrightarrow>
     (\<exists>H1. al_buffer (hv_audit H1) = al_buffer lg @ [r] \<and>
        (H' = H1 \<or> H' = snd (flush_audit (mc_storage M) (he_audit E) (he_now E) H1)))"

definition listening :: "AuditLog \<Rightarrow> bool" where
  "listening lg \<longleftrightarrow> ac_enabled (al_config lg) \<and> \<not> al_poisoned lg \<and> length (al_buffer lg) < ac_max_buffer (al_config lg)"

text \<open>The status code of an answer; a connection that was closed has none.\<close>

fun response_code :: "'b Response \<Rightarrow> u16" where
  "response_code (Json x) = status_u16 None"
| "response_code (ErrorResponse status t) = status_u16 (Some status)"
| "response_code Aborted = 0"

lemma task_code: "response_code (task_response BAD_REQUEST f r) = status_u16 (task_status r)"
  by (auto simp: task_response_def task_status_def split: sum.split fault.split)

lemma audited_staged:
  assumes "listening (hv_audit H)" "audited M E ctx name route query ids r (H, rng) = (H', rng')"
  shows "staged M E (hv_audit H) (read_record E (hv_audit H) ctx name route query
    (response_code (task_response BAD_REQUEST f r)) (case r of Inr x \<Rightarrow> ids x | Inl _ \<Rightarrow> AuditIds_default)) H'"
proof -
  let ?lg = "hv_audit H"
  define rec where "rec = read_record E ?lg ctx name route query (status_u16 (task_status r))
    (case r of Inr x \<Rightarrow> ids x | Inl _ \<Rightarrow> AuditIds_default)"
  let ?lg' = "?lg\<lparr>al_seq := al_seq ?lg + 1, al_buffer := al_buffer ?lg @ [rec]\<rparr>"
  have "fst (audited M E ctx name route query ids r (H, rng)) =
      (if ac_flush_threshold (al_config ?lg) \<le> length (al_buffer ?lg @ [rec])
       then snd (flush_audit (mc_storage M) (he_audit E) (he_now E) (H\<lparr>hv_audit := ?lg'\<rparr>))
       else H\<lparr>hv_audit := ?lg'\<rparr>)"
    using assms(1)
    by (auto simp: audited_def audit_read_def record_read_def record_audit_def record_access_def event_record_def
        AuditQueryInfo_of_def listening_def rec_def read_record_def Let_def split: prod.splits)
  then have "H' = H\<lparr>hv_audit := ?lg'\<rparr> \<or> H' = snd (flush_audit (mc_storage M) (he_audit E) (he_now E) (H\<lparr>hv_audit := ?lg'\<rparr>))"
    using assms(2) by (simp split: if_splits)
  then show ?thesis
    unfolding staged_def task_code rec_def [symmetric] by (intro exI [of _ "H\<lparr>hv_audit := ?lg'\<rparr>"]) auto
qed

lemma target_runs: "Hive_get_or_create M n w = (Inr a, w1) \<Longrightarrow> with_target M n k w = k a w1"
  by (simp add: with_target_def)

text \<open>The ids that an answer holds.\<close>

definition answered_count :: "'b Response \<Rightarrow> AuditIds" where
  "answered_count resp = AuditIds_count (case resp of Json _ \<Rightarrow> 1 | _ \<Rightarrow> 0)"

definition answered_locations :: "ReadTrace Response \<Rightarrow> AuditIds" where
  "answered_locations resp = AuditIds_locations (case resp of
     Json t \<Rightarrow> map (\<lambda>l. of_nat (al_id l)) (rt_activated_locations t) | _ \<Rightarrow> [])"

definition answered_documents :: "'j QueryDocumentsResponse Response \<Rightarrow> u64 list" where
  "answered_documents resp = (case resp of Json x \<Rightarrow> map qr_id (qs_results x) | _ \<Rightarrow> [])"

lemma counted: "answered_count (task_response BAD_REQUEST f r) =
    (case r of Inr x \<Rightarrow> AuditIds_count 1 | Inl _ \<Rightarrow> AuditIds_default)"
  by (simp add: answered_count_def task_response_def AuditIds_count_def AuditIds_default_def split: sum.split fault.split)

lemma located: "answered_locations (task_response BAD_REQUEST id r) =
    (case r of Inr t \<Rightarrow> AuditIds_locations (map (\<lambda>l. of_nat (al_id l)) (rt_activated_locations t)) | Inl _ \<Rightarrow> AuditIds_default)"
  by (simp add: answered_locations_def task_response_def AuditIds_locations_def AuditIds_default_def split: sum.split fault.split)

lemma served_ids: "subseq (map qr_id (List.map_filter (query_result E scores) hs)) (map fst hs)"
  by (induction hs) (auto simp: List.map_filter_simps query_result_def split: option.split)

lemma served_multi_ids:
  "subseq (map qr_id (List.map_filter (\<lambda>h. query_result E (Some (mh_role_scores h)) (mh_doc_id h, mh_recall_score h, mh_metadata h)) hs))
     (map mh_doc_id hs)"
  by (induction hs) (auto simp: List.map_filter_simps query_result_def split: option.split)

lemma all_served_ids:
  assumes "\<forall>b. he_from_slice E b \<noteq> None"
  shows "map qr_id (List.map_filter (query_result E scores) hs) = map fst hs"
  using assms by (induction hs) (auto simp: List.map_filter_simps query_result_def split: option.split)

lemma all_served_multi_ids:
  assumes "\<forall>b. he_from_slice E b \<noteq> None"
  shows "map qr_id (List.map_filter (\<lambda>h. query_result E (Some (mh_role_scores h)) (mh_doc_id h, mh_recall_score h, mh_metadata h)) hs) =
     map mh_doc_id hs"
  using assms by (induction hs) (auto simp: List.map_filter_simps query_result_def split: option.split)

lemma AuditIds_none: "AuditIds_default = AuditIds_documents []"
  by (simp add: AuditIds_default_def AuditIds_documents_def)

lemma query_audited:
  assumes L: "listening (hv_audit H)"
    and r: "reading_store a f (H, rng) = (r, w)" and h: "\<And>x. subseq (map qr_id (qs_results (g x))) (ids x)"
    and all: "readable \<longrightarrow> (\<forall>x. map qr_id (qs_results (g x)) = ids x)"
  shows "\<exists>docs. staged M E (hv_audit H) (read_record E (hv_audit H) ctx name ''documents/query'' query
      (response_code (task_response BAD_REQUEST g r)) (AuditIds_documents docs))
      (fst (audited M E ctx name ''documents/query'' query (\<lambda>x. AuditIds_documents (ids x)) r w)) \<and>
    subseq (answered_documents (task_response BAD_REQUEST g r)) docs \<and>
    (readable \<longrightarrow> answered_documents (task_response BAD_REQUEST g r) = docs)"
proof -
  obtain H1 rng1 where w: "w = (H1, rng1)" by fastforce
  have same: "hv_audit H1 = hv_audit H" using r w by (auto simp: reading_store_def split: sum.splits)
  obtain H' rng' where A: "audited M E ctx name ''documents/query'' query (\<lambda>x. AuditIds_documents (ids x)) r (H1, rng1) = (H', rng')"
    by fastforce
  note S = audited_staged [OF _ A, of g] 
  have L1: "listening (hv_audit H1)" using L same by simp
  show ?thesis
  proof (cases r)
    case (Inl e)
    then show ?thesis
      using S [OF L1] A h by (intro exI [of _ "[]"]) (auto simp: w same AuditIds_none answered_documents_def task_response_def split: fault.splits)
  next
    case (Inr x)
    then show ?thesis
      using S [OF L1] A h [of x] all by (intro exI [of _ "ids x"]) (auto simp: w same answered_documents_def task_response_def)
  qed
qed

lemma audited_answer:
  assumes "Hive_get_or_create M name (H, rng) = (Inr a, H1, rng1)" "listening (hv_audit H)"
    and "(task_response BAD_REQUEST f r, audited M E ctx name route query ids r (H1, rng1)) = (resp, w)"
    and "handed = (case r of Inr x \<Rightarrow> ids x | Inl _ \<Rightarrow> AuditIds_default)"
  shows "staged M E (hv_audit H) (read_record E (hv_audit H) ctx name route query (response_code resp) handed) (fst w)"
proof -
  have same: "hv_audit H1 = hv_audit H" by (rule get_or_create_audit [OF assms(1)])
  obtain H' rng' where w: "w = (H', rng')" by fastforce
  have A: "audited M E ctx name route query ids r (H1, rng1) = (H', rng')" "resp = task_response BAD_REQUEST f r"
    using assms(3) w by simp_all
  show ?thesis using audited_staged [OF _ A(1), of f] assms(2) by (simp add: same w A(2) assms(4))
qed

lemma audited_read:
  assumes G: "Hive_get_or_create M name (H, rng) = (Inr a, H1, rng1)" and L: "listening (hv_audit H)"
    and s: "strategy_of (rq_strategy q) = Inr s" and run: "read_route M E name ctx q (H, rng) = (resp, w)"
  shows "staged M E (hv_audit H) (read_record E (hv_audit H) ctx name ''read'' (rq_query q) (response_code resp)
    (answered_count resp)) (fst w)"
proof -
  let ?r = "Collection_read (mc_libm M) (hv_heap H1 ! a) (rq_query q) s"
  have r: "(task_response BAD_REQUEST id ?r, audited M E ctx name ''read'' (rq_query q) (\<lambda>_. AuditIds_count 1) ?r (H1, rng1)) =
      (resp, w)" using run s by (simp add: read_route_def target_runs [OF G] Let_def)
  show ?thesis by (rule audited_answer [OF G L r]) (use r counted [of id ?r] in simp)
qed

lemma audited_attention:
  assumes G: "Hive_get_or_create M name (H, rng) = (Inr a, H1, rng1)" and L: "listening (hv_audit H)"
    and run: "attention_route M E name ctx q (H, rng) = (resp, w)"
  shows "staged M E (hv_audit H) (read_record E (hv_audit H) ctx name ''attention'' (tq_query q) (response_code resp)
    (answered_count resp)) (fst w)"
proof -
  let ?r = "read_attention_traced (mc_libm M) (hv_heap H1 ! a) (tq_query q) (tq_scale q) (tq_exclude_id q)"
  let ?f = "\<lambda>t. \<lparr>tp_result = at_result t, tp_beta = tq_scale q, tp_contributors = at_contributors t\<rparr>"
  have r: "(task_response BAD_REQUEST ?f ?r, audited M E ctx name ''attention'' (tq_query q) (\<lambda>_. AuditIds_count 1) ?r (H1, rng1)) =
      (resp, w)" using run by (simp add: attention_route_def target_runs [OF G] Let_def)
  show ?thesis by (rule audited_answer [OF G L r]) (use r counted [of ?f ?r] in simp)
qed

lemma audited_analyze:
  assumes G: "Hive_get_or_create M name (H, rng) = (Inr a, H1, rng1)" and L: "listening (hv_audit H)"
    and s: "strategy_of (rq_strategy q) = Inr s" and run: "analyze_route M E name ctx q (H, rng) = (resp, w)"
  shows "staged M E (hv_audit H) (read_record E (hv_audit H) ctx name ''analyze'' (rq_query q) (response_code resp)
    (answered_locations resp)) (fst w)"
proof -
  let ?r = "analyze_read (mc_libm M) (hv_heap H1 ! a) (rq_query q) s"
  have r: "(task_response BAD_REQUEST id ?r, audited M E ctx name ''analyze'' (rq_query q)
      (\<lambda>t. AuditIds_locations (map (\<lambda>l. of_nat (al_id l)) (rt_activated_locations t))) ?r (H1, rng1)) = (resp, w)"
    using run s by (simp add: analyze_route_def target_runs [OF G] Let_def)
  show ?thesis by (rule audited_answer [OF G L r]) (use r located [of ?r] in simp)
qed

lemma audited_query:
  assumes G: "Hive_get_or_create M name (H, rng) = (Inr a, H1, rng1)" and L: "listening (hv_audit H)"
    and c: "qd_role_pairs q = [] \<or> qd_unbind_role q = None" and run: "query_documents_route M E name ctx q (H, rng) = (resp, w)"
  shows "\<exists>docs. staged M E (hv_audit H) (read_record E (hv_audit H) ctx name ''documents/query'' (qd_query q)
    (response_code resp) (AuditIds_documents docs)) (fst w) \<and> subseq (answered_documents resp) docs \<and>
    ((\<forall>b. he_from_slice E b \<noteq> None) \<longrightarrow> answered_documents resp = docs)"
proof -
  have same: "hv_audit H1 = hv_audit H" by (rule get_or_create_audit [OF G])
  have L1: "listening (hv_audit H1)" using L same by simp
  note Q = query_audited [OF L1, unfolded same]
  show ?thesis
  proof (cases "qd_role_pairs q = []")
    case True
    obtain r w2 where r: "reading_store a (\<lambda>c s.
        query_documents_scoped M (he_order E) c s (qd_query q) (qd_n q) (qd_unbind_role q)) (H1, rng1) = (r, w2)" by (meson surj_pair)
    let ?g = "\<lambda>results. \<lparr>qs_results = List.map_filter (query_result E None) results, qs_cleanup_beta = None\<rparr>"
    have "resp = task_response BAD_REQUEST ?g r \<and> w = audited M E ctx name ''documents/query'' (qd_query q)
        (\<lambda>x. AuditIds_documents (map fst x)) r w2"
      using run True r by (simp add: query_documents_route_def target_runs [OF G])
    moreover have h: "\<And>x. subseq (map qr_id (qs_results (?g x))) (map fst x)" by (simp add: served_ids)
    moreover have all: "(\<forall>b. he_from_slice E b \<noteq> None) \<longrightarrow> (\<forall>x. map qr_id (qs_results (?g x)) = map fst x)"
      by (simp add: all_served_ids)
    ultimately show ?thesis using Q [OF r h all] by simp
  next
    case False
    obtain r w2 where r: "reading_store a (\<lambda>c s.
        query_documents_multi_role M (he_order E) c s (qd_query q) (qd_n q)
            (map (\<lambda>p. (rf_role p, rf_filler p)) (qd_role_pairs q)) (RoleCleanup_from (qd_cleanup q))) (H1, rng1) = (r, w2)" by (meson surj_pair)
    let ?g = "\<lambda>out. \<lparr>qs_results = List.map_filter (\<lambda>hit.
               query_result E (Some (mh_role_scores hit)) (mh_doc_id hit, mh_recall_score hit, mh_metadata hit)) (mm_hits out),
           qs_cleanup_beta = mm_cleanup_beta out\<rparr>"
    have "resp = task_response BAD_REQUEST ?g r \<and> w = audited M E ctx name ''documents/query'' (qd_query q)
        (\<lambda>x. AuditIds_documents (map mh_doc_id (mm_hits x))) r w2"
      using run False c r by (simp add: query_documents_route_def multi_role_query_def target_runs [OF G])
    moreover have h: "\<And>x. subseq (map qr_id (qs_results (?g x))) (map mh_doc_id (mm_hits x))" by (simp add: served_multi_ids)
    moreover have all: "(\<forall>b. he_from_slice E b \<noteq> None) \<longrightarrow> (\<forall>x. map qr_id (qs_results (?g x)) = map mh_doc_id (mm_hits x))"
      by (simp add: all_served_multi_ids)
    ultimately show ?thesis using Q [OF r h all] by simp
  qed
qed

text \<open>A request that is refused before its collection is read: the log is not touched,
  and the answer is an error.\<close>

definition reaches :: "('r, 'db) machine \<Rightarrow> bytes \<Rightarrow> ('r, 'db) hworld \<Rightarrow> bool" where
  "reaches M name w \<longleftrightarrow> (\<exists>a. fst (Hive_get_or_create M name w) = Inr a)"

definition unrecorded :: "AuditLog \<Rightarrow> 'b Response \<times> ('r, 'db) hworld \<Rightarrow> bool" where
  "unrecorded lg answer \<longleftrightarrow> hv_audit (fst (snd answer)) = lg \<and> (\<forall>x. fst answer \<noteq> Json x)"

lemma reachesE:
  assumes "reaches M name (H, rng)"
  obtains a H1 rng1 where "Hive_get_or_create M name (H, rng) = (Inr a, H1, rng1)"
  using assms by (cases "Hive_get_or_create M name (H, rng)") (auto simp: reaches_def)

lemma target_unrecorded:
  assumes "\<not> reaches M name (H, rng)"
  shows "unrecorded (hv_audit H) (with_target M name k (H, rng))"
  using assms get_or_create_audit [of M name H rng]
  by (auto simp: reaches_def unrecorded_def with_target_def db_error_response_def split: prod.split sum.split fault.split)

lemma refused_unrecorded: "unrecorded (hv_audit H) (ErrorResponse status t, (H, rng))"
  by (simp add: unrecorded_def)

lemma refused_read:
  assumes "\<not> (reaches M name (H, rng) \<and> \<not> isl (strategy_of (rq_strategy q)))"
  shows "unrecorded (hv_audit H) (read_route M E name ctx q (H, rng))"
    and "unrecorded (hv_audit H) (analyze_route M E name ctx q (H, rng))"
proof -
  note refused = read_route_def analyze_route_def sum.case refused_unrecorded
  have "unrecorded (hv_audit H) (read_route M E name ctx q (H, rng)) \<and>
      unrecorded (hv_audit H) (analyze_route M E name ctx q (H, rng))"
  proof (cases "strategy_of (rq_strategy q)")
    case (Inl m)
    then show ?thesis by (simp only: refused simp_thms)
  next
    case (Inr x)
    then have "\<not> reaches M name (H, rng)" using assms by simp
    then show ?thesis unfolding read_route_def analyze_route_def Inr sum.case by (intro conjI target_unrecorded)
  qed
  then show "unrecorded (hv_audit H) (read_route M E name ctx q (H, rng))"
    and "unrecorded (hv_audit H) (analyze_route M E name ctx q (H, rng))" by simp_all
qed

lemma refused_query:
  assumes "\<not> (reaches M name (H, rng) \<and> (qd_role_pairs q = [] \<or> qd_unbind_role q = None))"
  shows "unrecorded (hv_audit H) (query_documents_route M E name ctx q (H, rng))"
proof (cases "reaches M name (H, rng)")
  case True
  then obtain a H1 rng1 where G: "Hive_get_or_create M name (H, rng) = (Inr a, H1, rng1)" by (rule reachesE)
  show ?thesis
    using assms True get_or_create_audit [OF G] by (simp add: query_documents_route_def target_runs [OF G] unrecorded_def)
next
  case False
  then show ?thesis using target_unrecorded by (simp add: query_documents_route_def)
qed

lemma let_pairI: "(\<And>x y. p = (x, y) \<Longrightarrow> P x y) \<Longrightarrow> let (x, y) = p in P x y"
  by (cases p) simp

text \<open>Recorded or refused, by the outcome of the checks.\<close>

lemma recorded_read:
  assumes L: "listening (hv_audit H)" and run: "read_route M E name ctx q (H, rng) = (resp, w)"
  shows "if reaches M name (H, rng) \<and> \<not> isl (strategy_of (rq_strategy q))
    then staged M E (hv_audit H) (read_record E (hv_audit H) ctx name ''read'' (rq_query q) (response_code resp)
      (answered_count resp)) (fst w)
    else unrecorded (hv_audit H) (resp, w)"
proof (split if_split, intro conjI impI)
  assume ok: "reaches M name (H, rng) \<and> \<not> isl (strategy_of (rq_strategy q))"
  then have r: "reaches M name (H, rng)" ..
  obtain a H1 rng1 where G: "Hive_get_or_create M name (H, rng) = (Inr a, H1, rng1)" by (rule reachesE [OF r])
  obtain s where "strategy_of (rq_strategy q) = Inr s" using ok by (cases "strategy_of (rq_strategy q)") auto
  then show "staged M E (hv_audit H) (read_record E (hv_audit H) ctx name ''read'' (rq_query q) (response_code resp)
      (answered_count resp)) (fst w)" by (rule audited_read [OF G L _ run])
qed (use refused_read(1) [of M name H rng q E ctx] run in simp)

lemma recorded_attention:
  assumes L: "listening (hv_audit H)" and run: "attention_route M E name ctx q (H, rng) = (resp, w)"
  shows "if reaches M name (H, rng)
    then staged M E (hv_audit H) (read_record E (hv_audit H) ctx name ''attention'' (tq_query q) (response_code resp)
      (answered_count resp)) (fst w)
    else unrecorded (hv_audit H) (resp, w)"
proof (split if_split, intro conjI impI)
  assume r: "reaches M name (H, rng)"
  obtain a H1 rng1 where G: "Hive_get_or_create M name (H, rng) = (Inr a, H1, rng1)" by (rule reachesE [OF r])
  show "staged M E (hv_audit H) (read_record E (hv_audit H) ctx name ''attention'' (tq_query q) (response_code resp)
      (answered_count resp)) (fst w)" by (rule audited_attention [OF G L run])
next
  assume r: "\<not> reaches M name (H, rng)"
  show "unrecorded (hv_audit H) (resp, w)"
    using target_unrecorded [OF r] unfolding run [symmetric] attention_route_def .
qed

lemma recorded_analyze:
  assumes L: "listening (hv_audit H)" and run: "analyze_route M E name ctx q (H, rng) = (resp, w)"
  shows "if reaches M name (H, rng) \<and> \<not> isl (strategy_of (rq_strategy q))
    then staged M E (hv_audit H) (read_record E (hv_audit H) ctx name ''analyze'' (rq_query q) (response_code resp)
      (answered_locations resp)) (fst w)
    else unrecorded (hv_audit H) (resp, w)"
proof (split if_split, intro conjI impI)
  assume ok: "reaches M name (H, rng) \<and> \<not> isl (strategy_of (rq_strategy q))"
  then have r: "reaches M name (H, rng)" ..
  obtain a H1 rng1 where G: "Hive_get_or_create M name (H, rng) = (Inr a, H1, rng1)" by (rule reachesE [OF r])
  obtain s where "strategy_of (rq_strategy q) = Inr s" using ok by (cases "strategy_of (rq_strategy q)") auto
  then show "staged M E (hv_audit H) (read_record E (hv_audit H) ctx name ''analyze'' (rq_query q) (response_code resp)
      (answered_locations resp)) (fst w)" by (rule audited_analyze [OF G L _ run])
qed (use refused_read(2) [of M name H rng q E ctx] run in simp)

lemma recorded_query:
  assumes L: "listening (hv_audit H)" and run: "query_documents_route M E name ctx q (H, rng) = (resp, w)"
  shows "if reaches M name (H, rng) \<and> (qd_role_pairs q = [] \<or> qd_unbind_role q = None)
    then \<exists>docs. staged M E (hv_audit H) (read_record E (hv_audit H) ctx name ''documents/query'' (qd_query q)
        (response_code resp) (AuditIds_documents docs)) (fst w) \<and>
      subseq (answered_documents resp) docs \<and> ((\<forall>b. he_from_slice E b \<noteq> None) \<longrightarrow> answered_documents resp = docs)
    else unrecorded (hv_audit H) (resp, w)"
proof (split if_split, intro conjI impI)
  assume ok: "reaches M name (H, rng) \<and> (qd_role_pairs q = [] \<or> qd_unbind_role q = None)"
  then have r: "reaches M name (H, rng)" ..
  obtain a H1 rng1 where G: "Hive_get_or_create M name (H, rng) = (Inr a, H1, rng1)" by (rule reachesE [OF r])
  show "\<exists>docs. staged M E (hv_audit H) (read_record E (hv_audit H) ctx name ''documents/query'' (qd_query q)
        (response_code resp) (AuditIds_documents docs)) (fst w) \<and>
      subseq (answered_documents resp) docs \<and> ((\<forall>b. he_from_slice E b \<noteq> None) \<longrightarrow> answered_documents resp = docs)"
    by (rule audited_query [OF G L conjunct2 [OF ok] run])
qed (use refused_query [of M name H rng q E ctx] run in simp)

section \<open>Documents that were written\<close>

text \<open>A lookup of a name that the database has open.\<close>

lemma source_cached:
  "hv_cache (fst w) n = Some a \<and> \<not> hv_poisoned (fst w) \<Longrightarrow> with_source M missing n k w = k a w"
  by (auto simp: with_source_def Hive_get_def cached_def)

lemma write_items_metadata:
  "write_items E vs ms = Inr items \<Longrightarrow> length ms = length vs \<and> map fst items = vs \<and> list_all2 (\<lambda>m it. he_to_vec E m = Inr (snd it)) ms items"
proof -
  assume w: "write_items E vs ms = Inr items"
  then have len: "length ms = length vs" and
    all: "list_all2 (\<lambda>(v, m) it. he_to_vec E m = Inr (snd it) \<and> fst it = v) (zip vs ms) items"
    by (auto simp: write_items_def rmap_Inr_iff metadata_bytes_def rbind_eq_Inr split: if_splits sum.splits elim!: list_all2_mono)
  have "map fst items = vs"
    by (rule nth_equalityI) (use list_all2_lengthD [OF all] list_all2_nthD2 [OF all] len in auto)
  moreover have "list_all2 (\<lambda>m it. he_to_vec E m = Inr (snd it)) ms items"
    by (rule list_all2_all_nthI) (use list_all2_lengthD [OF all] list_all2_nthD2 [OF all] len in auto)
  ultimately show ?thesis using len by simp
qed

lemma write_route_acknowledged:
  assumes run: "write_route M E n q (H, rng) = (Json x, H', rng')" and meta: "wq_metadata q = Some ms"
  obtains vs a H1 rng1 items ids C s where
    "resolve_vectors E (wq_vectors q) (wq_vectors_b64 q) ''vectors'' = Inr vs"
    "Hive_get_or_create M n (H, rng) = (Inr a, H1, rng1)" "write_items E vs ms = Inr items"
    "write_batch_with_metadata M items (hv_heap H1 ! a, hv_store H1, rng1) = (Ok ids, C, s, rng')"
    "H' = H1\<lparr>hv_heap := (hv_heap H1)[a := C], hv_store := s\<rparr>"
    "x = \<lparr>wp_count = length ids, wp_ids = Some ids\<rparr>"
proof -
  obtain vs where vs: "resolve_vectors E (wq_vectors q) (wq_vectors_b64 q) ''vectors'' = Inr vs" "vs \<noteq> []"
    using run by (auto simp: write_route_def split: sum.splits if_splits)
  obtain r H1 rng1 where g: "Hive_get_or_create M n (H, rng) = (r, H1, rng1)" by (metis prod_cases3)
  have run1: "with_target M n (\<lambda>a w. let (r, w) = write_task M E a vs (Some ms) w in (write_response r, w)) (H, rng) =
      (Json x, H', rng')" using run vs meta by (simp add: write_route_def)
  obtain a where a: "r = Inr a"
    using run1 g by (cases r) (auto simp: with_target_def db_error_response_def split: fault.splits)
  obtain r2 where t: "write_task M E a vs (Some ms) (H1, rng1) = (r2, H', rng')" "write_response r2 = Json x"
    using run1 g a by (auto simp: with_target_def split: prod.splits)
  have r2: "r2 = Inr x" using t(2) by (auto simp: write_response_def split: sum.splits fault.splits)
  obtain items where it: "write_items E vs ms = Inr items"
    using t r2 by (auto simp: write_task_def split: sum.splits)
  obtain r3 C s rng2 where b: "write_batch_with_metadata M items (hv_heap H1 ! a, hv_store H1, rng1) = (r3, C, s, rng2)"
    by (metis prod_cases4)
  have H': "H' = H1\<lparr>hv_heap := (hv_heap H1)[a := C], hv_store := s\<rparr>" "rng2 = rng'"
    and x: "rbind r3 (\<lambda>ids. Ok \<lparr>wp_count = length ids, wp_ids = Some ids\<rparr>) = Inr x"
    using t(1) it b r2 by (auto simp: write_task_def on_collection_def)
  then obtain ids where "r3 = Inr ids" "x = \<lparr>wp_count = length ids, wp_ids = Some ids\<rparr>" by (auto simp: rbind_eq_Inr)
  then show thesis using that vs(1) g it b H' a by blast
qed

lemma stored_document_served:
  assumes K: "storage_ok (mc_storage M) view"
    and d: "stored_document M view (co_id c) s (co_inner c) i v meta" and j: "he_from_slice E meta = Some m"
  shows "get_document_response E i (Collection_get_document M c s i) = Json \<lparr>di_id = i, di_metadata = m\<rparr> \<or>
    (\<exists>t. get_document_response E i (Collection_get_document M c s i) = ErrorResponse INTERNAL_SERVER_ERROR t)"
proof (cases "Collection_get_document M c s i")
  case (Inl e)
  then show ?thesis by (auto simp: get_document_response_def split: fault.split)
next
  case (Inr r)
  obtain data where data: "view (db_documents (st_dbs s)) (document_key (co_id c) i) = Some data"
    "resolve_document M (st_precision s) (co_inner c) data = Ok (v, meta)" using d by (auto simp: stored_document_def)
  obtain o1 where g: "get_document (mc_storage M) s (co_id c) i = Inr o1"
    using Inr by (auto simp: Collection_get_document_def rbind_eq_Inr)
  have "o1 = Some data"
    using g data(1) storage_okD(2,4) [OF K]
    by (fastforce simp: get_document_def get_document_txn_def read_txn_def rbind_eq_Inr)
  then have "r = Some (v, meta)"
    using Inr g data(2) by (auto simp: Collection_get_document_def rbind_eq_Inr read_inner_def)
  then show ?thesis by (simp add: Inr get_document_response_def j unwrap_or_def)
qed

lemma written_served:
  assumes req: "request_ok M view H [n]" and ok: "route_ok M E (WriteRoute n q) (H, rng)"
    and meta: "wq_metadata q = Some ms" and json: "\<And>m b. m \<in> set ms \<Longrightarrow> he_to_vec E m = Inr b \<Longrightarrow> he_from_slice E b = Some m"
    and run: "write_route M E n q (H, rng) = (Json x, H', rng')"
    and small: "\<forall>C\<in>set (hv_heap H'). length (in_locations (co_inner C)) < 2 ^ 32"
  shows "\<exists>ids. x = \<lparr>wp_count = length ms, wp_ids = Some ids\<rparr> \<and> distinct ids \<and>
    list_all2 (\<lambda>i m. fst (get_document_route M E n i (H', rng')) = Json \<lparr>di_id = i, di_metadata = m\<rparr> \<or>
      (\<exists>t. fst (get_document_route M E n i (H', rng')) = ErrorResponse INTERNAL_SERVER_ERROR t)) ids ms"
proof -
  note K = request_okD(1) [OF req]
  obtain vs a H1 rng1 items ids C s where
    vs: "resolve_vectors E (wq_vectors q) (wq_vectors_b64 q) ''vectors'' = Inr vs"
    and g: "Hive_get_or_create M n (H, rng) = (Inr a, H1, rng1)" and it: "write_items E vs ms = Inr items"
    and b: "write_batch_with_metadata M items (hv_heap H1 ! a, hv_store H1, rng1) = (Ok ids, C, s, rng')"
    and H': "H' = H1\<lparr>hv_heap := (hv_heap H1)[a := C], hv_store := s\<rparr>"
    and x: "x = \<lparr>wp_count = length ids, wp_ids = Some ids\<rparr>"
    by (rule write_route_acknowledged [OF run meta])
  note I = write_items_metadata [OF it]
  have len: "length items = length vs" "length ms = length vs" using I by (metis length_map)+
  have n: "n \<noteq> NEXT_COLLECTION_ID_KEY" using request_okD(5) [OF req] by simp
  have G: "hive_ok M view H1" "a < length (hv_heap H1)"
    using get_or_create_ok [OF request_okD(1-3) [OF req] n request_okD(4) [OF req] g] by auto
  have "in_valid (co_inner (hv_heap H1 ! a))"
    using b by (auto simp: write_batch_with_metadata_def atomic_mutation_def write_inner_def read_inner_def rbind_eq_Inr
        split: sum.splits)
  then have cons: "consistent M view (co_id (hv_heap H1 ! a)) (hv_store H1) (co_inner (hv_heap H1 ! a))"
    using heap_sound [OF G] by (simp add: sound_def)
  have fits: "unat (in_next_id (co_inner (hv_heap H1 ! a))) + length items < 2 ^ 64"
    using ok vs g len by (auto simp: ids_last_def)
  have "length (in_locations (co_inner C)) < 2 ^ 32" using small G(2) by (auto simp: H' set_update_memI)
  from batch_found [OF K cons fits b this]
  have ids: "ids = map (\<lambda>j. in_doc_next_id (co_inner (hv_heap H1 ! a)) + of_nat j) [0..<length items]"
    and found: "list_all2 (\<lambda>i (input, meta). \<exists>v. stored_document M view (co_id (hv_heap H1 ! a)) s (co_inner C) i v meta) ids items"
    by (auto elim!: list_all2_mono)
  have idC: "co_id C = co_id (hv_heap H1 ! a)"
    using b confined_documents.mutation_inside [OF K, of items] by (auto simp: write_batch_with_metadata_def split: sum.splits)
  have cache: "hv_cache H' n = Some a \<and> \<not> hv_poisoned H'" using get_or_create_cached [OF g] by (simp add: H')
  have C: "hv_heap H' ! a = C" "hv_store H' = s" using G(2) by (simp_all add: H')
  have served: "fst (get_document_route M E n i (H', rng')) = Json \<lparr>di_id = i, di_metadata = m\<rparr> \<or>
      (\<exists>t. fst (get_document_route M E n i (H', rng')) = ErrorResponse INTERNAL_SERVER_ERROR t)"
    if d: "stored_document M view (co_id C) s (co_inner C) i v meta" "he_from_slice E meta = Some m" for i v meta m
    using stored_document_served [OF K d] cache by (simp add: get_document_route_def source_cached C)
  have "list_all2 (\<lambda>i m. fst (get_document_route M E n i (H', rng')) = Json \<lparr>di_id = i, di_metadata = m\<rparr> \<or>
      (\<exists>t. fst (get_document_route M E n i (H', rng')) = ErrorResponse INTERNAL_SERVER_ERROR t)) ids ms"
  proof (rule list_all2_all_nthI)
    show "length ids = length ms" using len ids by simp
    fix j assume j: "j < length ids"
    then have j2: "j < length items" "j < length ms" using len ids by simp_all
    obtain v where v: "stored_document M view (co_id C) s (co_inner C) (ids ! j) v (snd (items ! j))"
      using list_all2_nthD [OF found j] by (auto simp: idC split: prod.splits)
    have "he_to_vec E (ms ! j) = Inr (snd (items ! j))" using I j2 by (auto dest: list_all2_nthD)
    then have "he_from_slice E (snd (items ! j)) = Some (ms ! j)" using json j2(2) by simp
    from served [OF v this] show "fst (get_document_route M E n (ids ! j) (H', rng')) = Json \<lparr>di_id = ids ! j, di_metadata = ms ! j\<rparr> \<or>
      (\<exists>t. fst (get_document_route M E n (ids ! j) (H', rng')) = ErrorResponse INTERNAL_SERVER_ERROR t)" .
  qed
  moreover have "distinct ids"
  proof -
    have "inj_on (\<lambda>j. in_doc_next_id (co_inner (hv_heap H1 ! a)) + of_nat j) {0..<length items}"
      using fits by (auto simp: inj_on_def unat_of_nat take_bit_nat_eq_self dest!: arg_cong [of _ _ unat])
    then show ?thesis unfolding ids by (simp add: distinct_map)
  qed
  moreover have "length ids = length ms" using len ids by simp
  ultimately show ?thesis by (auto simp: x)
qed

section \<open>Locations that were loaded\<close>

lemma loaded_inner:
  assumes "load_snapshot_checked M ls cfg expected (c, s, rng) = (Ok (), c', s', rng')"
  shows "Collection_snapshot c' = Inr (ls, cfg)"
proof -
  have m: "atomic_mutation M (snapshot_body M (co_name c) ls cfg expected) (c, s, rng) = (Ok (), c', s', rng')"
    using assms by (auto simp: load_snapshot_checked_def split: sum.splits)
  then have c: "write_inner c = Inr (co_inner c)" "\<not> co_poisoned c" "in_valid (co_inner c)"
    by (auto simp: atomic_mutation_def write_inner_def read_inner_def ensure_def split: sum.splits if_splits)
  show ?thesis
    using m c
    by (auto simp: atomic_mutation_def snapshot_body_def Collection_snapshot_def read_inner_def Let_def rebuild_graph_cache_def
        rebuild_address_matrix_def refresh_landmarks_def split: sum.splits prod.splits ending.splits if_splits)
qed

lemma bulk_listed:
  assumes req: "request_ok M view H [n]" and q: "bulk_checked E q = Inr (as, cs)" and small: "length as < 2 ^ 64"
    and run: "bulk_load_route M E n q (H, rng) = (Json x, H', rng')"
  obtains items w where "locations_route M n True (H', rng') = (Json (Full items), w)" "bp_n_loaded x = length as"
    "length items = length as"
    "\<And>i. i < length as \<Longrightarrow> items ! i = \<lparr>lf_id = i,
       lf_write_count = (case bq_write_counts q of Some wc \<Rightarrow> wc ! i | None \<Rightarrow> 1),
       lf_address = as ! i, lf_counter = cs ! i\<rparr> \<and> length (as ! i) = bp_dim x \<and> length (cs ! i) = bp_dim x"
proof -
  have run1: "with_target M n (\<lambda>a w. let (r, w) = bulk_task M a as cs (bq_write_counts q) w in (bulk_response r, w)) (H, rng) =
      (Json x, H', rng')" using run q by (simp add: bulk_load_route_def)
  obtain r H1 rng1 where g: "Hive_get_or_create M n (H, rng) = (r, H1, rng1)" by (metis prod_cases3)
  obtain a where a: "r = Inr a"
    using run1 g by (cases r) (auto simp: with_target_def db_error_response_def split: fault.splits)
  have n: "n \<noteq> NEXT_COLLECTION_ID_KEY" using request_okD(5) [OF req] by simp
  have len: "a < length (hv_heap H1)"
    using get_or_create_ok [OF request_okD(1-3) [OF req] n request_okD(4) [OF req] g] a by simp
  obtain r2 where t: "bulk_task M a as cs (bq_write_counts q) (H1, rng1) = (r2, H', rng')" "bulk_response r2 = Json x"
    using run1 g a by (auto simp: with_target_def split: prod.splits)
  have r2: "r2 = Inr x" using t(2) by (auto simp: bulk_response_def split: sum.splits fault.splits herror.splits)
  then obtain old cfg v where sn: "snapshot_versioned (hv_heap H1 ! a) = Inr (old, cfg, v)"
    using t by (auto simp: bulk_task_def split: sum.splits)
  then obtain ls where ls: "bulk_locations (cfg_d cfg) as cs (bq_write_counts q) = Inr ls"
    using t r2 by (auto simp: bulk_task_def split: sum.splits)
  obtain r3 C s rng2 where b: "load_snapshot_checked M ls cfg (Some v) (hv_heap H1 ! a, hv_store H1, rng1) = (r3, C, s, rng2)"
    by (metis prod_cases4)
  have H': "H' = H1\<lparr>hv_heap := (hv_heap H1)[a := C], hv_store := s\<rparr>" "rng2 = rng'"
    and x: "r3 = Ok ()" "x = \<lparr>bp_n_loaded = length ls, bp_dim = cfg_d cfg\<rparr>"
    using t(1) sn ls b r2 by (auto simp: bulk_task_def on_collection_def rbind_eq_Inr)
  note C = loaded_inner [OF b [unfolded x(1)]]
  note L = bulk_locations_nth [OF ls bulk_checked_lengths [OF q]]
  have "locations_route M n True (H', rng') = (Json (Full (map full_item ls)), H', rng')"
    using get_or_create_cached [OF g [unfolded a]] C len
    by (simp add: locations_route_def source_cached H' direct_response_def)
  then show thesis
  proof (rule that)
    fix i assume i: "i < length as"
    then have "unat (of_nat i :: u64) = i" using small by (simp add: unat_of_nat take_bit_nat_eq_self)
    then show "map full_item ls ! i = \<lparr>lf_id = i,
       lf_write_count = (case bq_write_counts q of Some wc \<Rightarrow> wc ! i | None \<Rightarrow> 1),
       lf_address = as ! i, lf_counter = cs ! i\<rparr> \<and> length (as ! i) = bp_dim x \<and> length (cs ! i) = bp_dim x"
      using L(2) [of i] i L(1) by (simp add: full_item_def HardLocation_new_def x(2))
  qed (simp_all add: x(2) L(1))
qed

section \<open>Documents that were deleted\<close>

lemma deleted_not_served:
  assumes K: "storage_ok (mc_storage M) view" and a: "a < length (hv_heap (fst w))" "hv_cache (fst w) n = Some a"
    and d: "delete_document_route M n i w = (Json b, w1)" and g: "get_document_route M E n i w1 = (resp, w2)"
  shows "resp = ErrorResponse NOT_FOUND (Text (Fmt ''document {} not found'' [N (uint i)])) \<or>
    (\<exists>t. resp = ErrorResponse INTERNAL_SERVER_ERROR t)"
proof -
  obtain H rng where w: "w = (H, rng)" by fastforce
  have open': "\<not> hv_poisoned H"
    using d a(2) by (auto simp: w delete_document_route_def with_source_def Hive_get_def cached_def ensure_def
        db_error_response_def split: if_splits)
  obtain r c s where del: "delete_document M i (hv_heap H ! a, hv_store H) = (r, c, s)" by (metis prod_cases3)
  have r: "r = Ok b" and w1: "w1 = (H\<lparr>hv_heap := (hv_heap H)[a := c], hv_store := s\<rparr>, rng)"
    using d a open' del
    by (auto simp: w delete_document_route_def source_cached on_collection_def task_response_def split: sum.splits fault.splits)
  have "\<forall>x. Collection_get_document M (hv_heap H ! a) s i = Inr x \<longrightarrow> x = None" and c: "c = hv_heap H ! a"
    using delete_document_gone [OF K del [unfolded r]] by blast+
  moreover have "resp = get_document_response E i (Collection_get_document M c s i)"
    using g a open' by (simp add: w1 w get_document_route_def source_cached)
  ultimately show ?thesis
    by (cases "Collection_get_document M c s i") (auto simp: get_document_response_def split: fault.splits)
qed

section \<open>Two runs\<close>

text \<open>JSON values are byte strings here, and base64 is not decoded.\<close>

definition plain_http :: "bytes http_env" where
  "plain_http = \<lparr>he_limits = None, he_base64 = (\<lambda>_. Inl ''invalid''), he_from_slice = Some, he_to_vec = Inr,
     he_null = [], he_order = (\<lambda>xs. xs), he_audit = plain_audit, he_now = 1000\<rparr>"

definition one_write :: "bytes WriteRequest" where
  "one_write = \<lparr>wq_vectors = [[1]], wq_vectors_b64 = None, wq_metadata = Some [[]]\<rparr>"

definition one_load :: BulkLoadRequest where
  "one_load = \<lparr>bq_addresses = [[1]], bq_counters = [[1]], bq_addresses_b64 = None, bq_counters_b64 = None,
     bq_write_counts = Some [1]\<rparr>"

lemma open_hive_lookup: "Hive_get_or_create list_machine [97] (open_hive, ()) = (Inr 0, open_hive, ())"
  by (simp add: Hive_get_or_create_def cached_def open_hive_def plain_hive_def)

lemma open_hive_alone: "request_ok list_machine map_of open_hive [[97]]"
  using open_hive_ok by (simp add: request_ok_def)

lemma one_write_fits: "route_ok list_machine plain_http (WriteRoute [97] one_write) (open_hive, ())"
  by (simp add: one_write_def resolve_vectors_def ids_last_def open_hive_lookup) (simp add: open_hive_def)

lemma one_write_runs:
  "\<exists>s. write_route list_machine plain_http [97] one_write (open_hive, ()) =
     (Json \<lparr>wp_count = 1, wp_ids = Some [0]\<rparr>,
      open_hive\<lparr>hv_heap := [first_collection\<lparr>co_inner := after_document\<rparr>], hv_store := s\<rparr>, ())"
proof -
  obtain s where s: "write_batch_with_metadata list_machine [([1], [])] (first_collection, named_store, ()) =
      (Ok [0], first_collection\<lparr>co_inner := after_document\<rparr>, s, ())"
    using first_document_batch_in [OF named_store_def] by blast
  have "write_items plain_http [[1]] [[]] = Inr [([1], [])]"
    by (simp add: write_items_def metadata_bytes_def plain_http_def)
  then show ?thesis
    using s open_hive_lookup
    by (intro exI [of _ s]) (simp add: write_route_def one_write_def resolve_vectors_def with_target_def write_task_def
        on_collection_def write_response_def open_hive_def plain_hive_def)
qed

lemma one_load_store:
  "\<exists>C s. load_snapshot_checked list_machine [once] one_config (Some 0) (first_collection, named_store, ()) = (Ok (), C, s, ())"
proof -
  have v: "validate one_config = Inr ()" by code_simp
  have "materialize_document_refs list_machine 7 (co_inner first_collection) named_store =
      Inr (fst (projr (materialize_document_refs list_machine 7 (co_inner first_collection) named_store)), named_store)"
    by code_simp
  then obtain k where m: "materialize_document_refs list_machine 7 (co_inner first_collection) named_store = Inr (k, named_store)"
    by blast
  obtain a where a: "encode_location zero_codec once PF64 = Inr a" using first_encodings(1) by blast
  obtain s where p: "persist_snapshot list_machine 7 [] [once] 1 1 named_store = Inr s"
    by (auto simp: persist_snapshot_def write_txn_def commit_def list_K_ops put_locations_def put_location_def a
        put_u64_def put_metadata_def named_store_def first_store_def empty_store_def no_dbs_def Let_def)
  have f: "in_version (co_inner first_collection) = 0" "in_locations (bump (co_inner first_collection)) = []" by code_simp+
  have n: "snapshot_next_id [once] = 1" by code_simp
  show ?thesis
    using p m
    by (auto simp: load_snapshot_checked_def v f [simplified] atomic_mutation_def snapshot_body_def write_inner_def read_inner_def n Let_def
       once_def [THEN arg_cong [of _ _ loc_address]] one_config_fields )
qed

lemma one_load_runs:
  "\<exists>H'. bulk_load_route list_machine plain_http [97] one_load (open_hive, ()) =
     (Json \<lparr>bp_n_loaded = 1, bp_dim = 1\<rparr>, H', ())"
proof -
  have checked: "bulk_checked plain_http one_load = Inr ([[1]], [[1]])"
    by (simp add: bulk_checked_def one_load_def plain_http_def resolve_vectors_def eensure_def limits_get_def
        Limits_default_def)
  have "(HardLocation_new 0 [1])\<lparr>loc_counter := [1], loc_write_count := 1\<rparr> = once"
    by (simp add: once_def HardLocation_new_def)
  then have ls: "bulk_locations (cfg_d one_config) [[1]] [[1]] (Some [1]) = Inr [once]"
    by (simp add: bulk_locations_def bulk_location_def one_config_fields)
  have v: "snapshot_versioned first_collection = Inr ([], one_config, 0)" by code_simp
  show ?thesis
    using one_load_store v ls open_hive_lookup
    by (auto simp: bulk_load_route_def checked with_target_def bulk_task_def on_collection_def bulk_response_def
        one_load_def [THEN arg_cong [of _ _ bq_write_counts]] open_hive_def plain_hive_def one_config_fields)
qed

section \<open>Properties\<close>





text \<open>C26: Documents that a write acknowledged are served again: the answer holds one id per metadata
  value, all different, and asking for any of them right afterwards answers the metadata that was
  written, or an internal error where the storage fails, but never that there is no such document.\<close>

theorem written_documents_are_served:
  assumes "request_ok M view H [n]" "route_ok M E (WriteRoute n q) (H, rng)"
    and "wq_metadata q = Some ms" "\<And>m b. m \<in> set ms \<Longrightarrow> he_to_vec E m = Inr b \<Longrightarrow> he_from_slice E b = Some m"
    and "write_route M E n q (H, rng) = (Json x, H', rng')"
    and "\<forall>C\<in>set (hv_heap H'). length (in_locations (co_inner C)) < 2 ^ 32"
  shows "\<exists>ids. x = \<lparr>wp_count = length ms, wp_ids = Some ids\<rparr> \<and> distinct ids \<and>
    list_all2 (\<lambda>i m. fst (get_document_route M E n i (H', rng')) = Json \<lparr>di_id = i, di_metadata = m\<rparr> \<or>
      (\<exists>t. fst (get_document_route M E n i (H', rng')) = ErrorResponse INTERNAL_SERVER_ERROR t)) ids ms"
  by (rule written_served [OF assms])

theorem written_documents_are_served_witness:
  "\<exists>H'. write_route list_machine plain_http [97] one_write (open_hive, ()) = (Json \<lparr>wp_count = 1, wp_ids = Some [0]\<rparr>, H', ()) \<and>
     (fst (get_document_route list_machine plain_http [97] 0 (H', ())) = Json \<lparr>di_id = 0, di_metadata = []\<rparr> \<or>
      (\<exists>t. fst (get_document_route list_machine plain_http [97] 0 (H', ())) = ErrorResponse INTERNAL_SERVER_ERROR t))"
proof -
  obtain s where s: "write_route list_machine plain_http [97] one_write (open_hive, ()) =
     (Json \<lparr>wp_count = 1, wp_ids = Some [0]\<rparr>,
      open_hive\<lparr>hv_heap := [first_collection\<lparr>co_inner := after_document\<rparr>], hv_store := s\<rparr>, ())"
    using one_write_runs by blast
  have meta: "wq_metadata one_write = Some [[]]" by (simp add: one_write_def)
  have json: "he_from_slice plain_http b = Some m" if "m \<in> set [[]]" "he_to_vec plain_http m = Inr b" for m b
    using that by (simp add: plain_http_def)
  have small: "\<forall>C\<in>set (hv_heap (open_hive\<lparr>hv_heap := [first_collection\<lparr>co_inner := after_document\<rparr>], hv_store := s\<rparr>)).
      length (in_locations (co_inner C)) < 2 ^ 32" using after_document_fields by simp
  show ?thesis
    using written_documents_are_served [OF open_hive_alone one_write_fits meta json s small] s by auto
qed

text \<open>C27: A bulk load that is acknowledged is what the full listing shows: the response counts the
  locations that were sent, and the listing has them in the order they were sent, numbered from
  0, with their addresses, counters and write counts (1 where none were sent), all of the
  dimension in the response.\<close>

theorem bulk_load_is_listed:
  assumes "request_ok M view H [n]" "bulk_checked E q = Inr (as, cs)" "length as < 2 ^ 64"
    and "bulk_load_route M E n q (H, rng) = (Json x, H', rng')"
  shows "\<exists>items w. locations_route M n True (H', rng') = (Json (Full items), w) \<and>
     bp_n_loaded x = length as \<and> length items = length as \<and>
     (\<forall>i<length as. items ! i = \<lparr>lf_id = i,
         lf_write_count = (case bq_write_counts q of Some wc \<Rightarrow> wc ! i | None \<Rightarrow> 1),
         lf_address = as ! i, lf_counter = cs ! i\<rparr> \<and>
       length (as ! i) = bp_dim x \<and> length (cs ! i) = bp_dim x)"
  by (rule bulk_listed [OF assms]) blast

theorem bulk_load_is_listed_witness:
  "\<exists>H' w. bulk_load_route list_machine plain_http [97] one_load (open_hive, ()) =
       (Json \<lparr>bp_n_loaded = 1, bp_dim = 1\<rparr>, H', ()) \<and>
     locations_route list_machine [97] True (H', ()) =
       (Json (Full [\<lparr>lf_id = 0, lf_write_count = 1, lf_address = [1], lf_counter = [1]\<rparr>]), w)"
proof -
  obtain H' where run: "bulk_load_route list_machine plain_http [97] one_load (open_hive, ()) =
       (Json \<lparr>bp_n_loaded = 1, bp_dim = 1\<rparr>, H', ())" using one_load_runs by blast
  have checked: "bulk_checked plain_http one_load = Inr ([[1]], [[1]])"
    by (simp add: bulk_checked_def one_load_def plain_http_def resolve_vectors_def eensure_def limits_get_def
        Limits_default_def)
  obtain items w where "locations_route list_machine [97] True (H', ()) = (Json (Full items), w)" "length items = 1"
    "items ! 0 = \<lparr>lf_id = 0, lf_write_count = 1, lf_address = [1], lf_counter = [1]\<rparr>"
    using bulk_load_is_listed [OF open_hive_alone checked _ run] by (auto simp: one_load_def)
  then show ?thesis using run by (cases w) (auto simp: length_Suc_conv)
qed

end
