(* ===== verification/Spec2Isabelle.thy ===== *)
theory Spec2Isabelle
  imports Scan Write Merge Audit_Log Collection_Queries Collection_Batch Collection_Stale
    Hive_Drop Auth Routes_Sound Projected_Facts Endpoints_Facts
begin

text \<open>
  HeatherDB keeps vectors in collections. A collection is an adaptive memory of hard
  locations (an address, a counter, a write count, neighbours): a write joins the nearest
  locations or spawns a new one, a read recalls from the nearest ones, and a merge or a
  compression reduces them. Documents (a vector with metadata) are posted at the locations
  their write touched, and found through them. The memory lives under a lock with caches
  that mirror it; every operation also stores what it changed in LMDB, in one transaction,
  and a mutation that fails reloads the memory from there. A hive is the registry of the
  open collections of a database, used by many threads at once; in front of the databases
  the HTTP server checks who is calling, answers the requests on collections and documents,
  and records who read what. Memories are also values that can be added, bound, permuted and
  composed. This development models the engine, \<open>heather_db/src\<close>, the algebra of memories,
  \<open>heather_algebra/src\<close>, and of the server, \<open>heather_server/src\<close>, the access control, the
  audit records and the endpoints. It proves that memory and store stay together, under
  concurrent callers and under every request that keeps them so, that the algebra computes
  what it claims to, and that no request passes without current credentials.

  \<^bold>\<open>From the bottom\<close>

  \<^item> \<open>Prelude\<close>, \<open>Std\<close>: machine integers, byte strings, Rust's stable sort and maximum.
    \<open>Ieee754\<close>, \<open>Ieee754_Facts\<close>: binary64 and binary32, computed bit by bit with rounding to
    nearest even, so every float operation of the code is executable here. \<open>Ieee754_Order\<close>:
    its order on the numbers that are not NaN. \<open>Errors\<close>: the
    error enum (error.rs) and the result type \<open>'a res\<close>, whose left side is an error or a
    panic. \<open>Binary_Heap\<close>: \<open>std::collections::BinaryHeap\<close> with the locale of a priority queue.
  \<^item> \<open>Config\<close> (config.rs), \<open>Vec_Ops\<close> (vec_ops.rs, location.rs), \<open>Codec\<close> (codec.rs): the
    configuration, vectors, and the records of the store.
  \<^item> \<open>Read\<close> (read.rs), \<open>Scan\<close> (scan.rs), \<open>Write\<close> (write.rs), \<open>Merge\<close> (merge.rs and the exact
    search of nearest.rs): the algorithms on a list of locations, without a store.
    \<open>Projected\<close> (the rest of nearest.rs): the principal directions, the k-d tree on the
    projections, both of its searches, the bound that makes them exact, and the fallback.
  \<^item> \<open>Keys\<close>, \<open>Kv\<close>, \<open>Store\<close> (store.rs, verify.rs): the keys, the key-value interface with its
    hypothesis \<open>storage_ok\<close>, and the operations on records, postings and the registry.
    \<open>Audit_Log\<close> (audit.rs): the audit trail over it.
  \<^item> \<open>Collection\<close>, \<open>Collection_Write\<close>, \<open>Collection_Read\<close>, \<open>Collection_Docs\<close>, \<open>Collection_Reorg\<close>
    (collection.rs): the state \<open>EAMInner\<close> under the lock, and every operation on it.
  \<^item> \<open>Hive\<close> (hive.rs): the store, the cache of open collections and its lock; handles are
    addresses in a heap of collections, so that two callers with one handle share a state.
    \<open>Hive_Steps\<close>: the same calls cut at the points where the code takes or gives up the lock,
    as a step relation on any number of callers.
  \<^item> \<open>Users\<close> (users.rs, the name check of db_config.rs), \<open>Tokens\<close> (tokens.rs), \<open>Auth\<close> (auth.rs):
    accounts and scopes, session tokens, and the middleware that every request passes.
  \<^item> \<open>Algebra\<close> (ops.rs, snapshot.rs, consolidate.rs, and limits.rs of the server), \<open>Permute\<close>
    (permute.rs), \<open>Bind\<close> (bind.rs), \<open>Compose\<close> (compose.rs, routing.rs): operations on snapshots
    of memories, with the error type of that crate.
  \<^item> \<open>Routes\<close> (routes.rs): the vector, algebra and compose endpoints and the answers that all
    endpoints share. \<open>Http_Audit\<close> (audit.rs of the server): who reads and what is recorded.
    \<open>Endpoints\<close> (routes.rs, models.rs): the endpoints on collections and documents, each a
    function from a request and the database to an answer and the database, and
    \<open>collection_route\<close>, their dispatch (main.rs).

  \<^bold>\<open>How a mutation is modelled\<close>

  A world is a collection, its store and the random generator. A mutation's body maps the
  memory, the store and the generator to an ending: \<open>Clean\<close> (an early return before any
  change), \<open>Dirty\<close> (an error or a panic after the memory changed) or \<open>Done\<close>. The guard
  \<open>atomic_mutation\<close> reloads the memory from the store after a dirty ending, as the guard's
  destructor does, and marks the lock poisoned after a panic. A transaction is a value of
  the six databases that is put back whole by \<open>commit\<close>, or dropped.

  \<^bold>\<open>What is proved\<close>

  \<^item> \<open>Codec\<close>, \<open>Config\<close>, \<open>Read\<close>, \<open>Scan\<close>, \<open>Write\<close>, \<open>Merge\<close>: round trips of records, no panic on
    any bytes (\<open>split_at\<close>, an index and a conversion to an array panic where Rust's do, so the
    reader's own checks are what keeps them from it), selection of the nearest locations by the bounded heap, equality of the packed,
    traced and tiled variants with their references, what a write leaves alone, and that a
    merge loses no location.
  \<^item> \<open>Store\<close>, \<open>Audit_Log\<close>: exact effects on the view of each database: deletions remove what
    they should and nothing else, damaged records are skipped and counted, ids are unique,
    pruning removes the oldest records only.
  \<^item> \<open>Collection_Inv\<close>: the invariant \<open>inner_ok\<close> (well-formed locations with increasing ids, the
    packed matrices, the id lookup and the landmarks in step) and its preservation.
    \<open>Collection_Durable\<close>: the invariant \<open>consistent\<close>, which adds that the store holds the memory
    record by record, recovery, and the locale \<open>mutation\<close>: an operation whose endings keep
    \<open>consistent\<close> keeps the collection sound, and rolls back when it fails. It is interpreted on
    the write, the document write, the document batch, the snapshot and the compression.
  \<^item> \<open>Collection_Sound\<close>, \<open>Collection_Compress\<close>, \<open>Collection_Batch\<close>, \<open>Collection_Queries\<close>: the
    properties of those operations and of the reads. \<open>Collection_Stale\<close>: the two operations
    that leave the store behind the memory, the batch of patterns and the merge.

  \<^item> \<open>Collection_Frame\<close>: an operation of one collection leaves the records of every other one
    alone (the locale \<open>confined\<close>). \<open>Hive_Steps\<close>: calls end, agree with the sequential
    functions when nobody interrupts, and share one collection per name that none of them
    drops. \<open>Hive_Sound\<close>: the invariant \<open>hive_ok\<close> of the registry, the cache and every open
    collection, kept by every interleaving of creations, lookups and writes in which ids are
    left and no creation fails under the lock. \<open>Hive_Drop\<close>: dropping is exact, and two ways in which a drop goes wrong.
  \<^item> \<open>Kd_Tree\<close>, \<open>Projected_Facts\<close>: the tree holds every point and its pruned searches answer what
    an exhaustive search answers; the projected search ends, and agrees with the plain one up
    to its own bound.
  \<^item> \<open>Algebra_Results\<close>, \<open>Permute_Group\<close>, \<open>Compose_Facts\<close>: sizes within the announced estimate, the
    partners of a cross product are the nearest, permutations act as a group and undo each
    other, a composition keeps both parents and counts what it made.
  \<^item> \<open>Routes_Sound\<close>, \<open>Endpoints_Sound\<close>: one step of the hive per endpoint (\<open>step_ok\<close>), from the
    locales \<open>mutation\<close> and \<open>confined\<close>; staging and flushing the log changes nothing else
    (\<open>quiet\<close>); so every request keeps \<open>hive_ok\<close>. Left out are a drop and a write of bare
    patterns, which do not, as \<open>Hive_Drop\<close> and \<open>Collection_Stale\<close> show. \<open>Endpoints_Facts\<close>: what
    holds across requests: a written document is served, a bulk load is listed, a read leaves
    one record unless it is refused, with the ids that its route records.
  \<^item> \<open>Tokens\<close>, \<open>Auth\<close>: what the cache of tokens can hold after any history, what passing a
    request takes, and how revocation, password changes and restarts act on sessions.

  \<^bold>\<open>Parameters, bounds and fuel\<close>

  Code outside the repository is a parameter: the transcendental functions (\<open>libm\<close>), the
  normal distribution of the random generator, CRC-32 and the legacy bincode decoders
  (\<open>codec_env\<close>), the FFT, LMDB with bincode (\<open>storage\<close>, with \<open>storage_ok\<close>: a put is read back,
  iteration is in key order, what is serialised is read back; \<open>system\<close> with \<open>system_ok\<close> for
  the accounts), Argon2 and the serialisation of accounts (\<open>crypto\<close>), the serialisation of audit
  records, the clock (an argument), JSON, base64 and the order in which a hash set is walked
  (\<open>http_env\<close>), the shuffle, SHA-256 and complex powers (\<open>algebra_env\<close>). No hypothesis
  says that the storage succeeds: any call of it may fail, and the theorems cover that.
  \<open>Kv\<close> gives an instance over association lists, on which the witnesses run. Machine integers
  keep their width; a bound such as \<open>2 ^ 64\<close> on the ids given out is stated where the code
  relies on it. Loops are structural or have a measure; the walk along the parents of a
  compression may not end on arbitrary input and is a partial function, proved to end.
  Rayon's parallel iterators are read as their sequential meaning.

  \<^bold>\<open>Not modelled\<close>

  Opening the LMDB environment and its sync mode; the databases of a server (server.rs,
  db_config.rs but for the name check) and the endpoints that manage them or put a database in
  front of the others (routes_db.rs); the background consolidation (dream.rs), copies of the
  data directory (backup.rs), the command line and the start of the server. A handler is run
  alone: concurrent callers are modelled at the hive. The wire format of requests and answers
  is left to JSON.
  Benchmarks, examples, charts and packaging carry no logic of the program.
\<close>

end
